(* ===== verification/Prelude.thy ===== *)
theory Prelude
  imports Main "HOL-Library.Word" "HOL-Library.Multiset"
begin

text \<open>
  What every component of the model shares: Go's run-time panics as values, the sum monad that
  carries panics and error returns, bounds-checked slice operations, and the lemmas on lists,
  maps and sums that the component proofs use.  The collection \<open>go_simps\<close> holds the rewriting
  rules of the slice and sum operations, \<open>go_elims\<close> their inversion rules.
\<close>

named_theorems go_simps \<open>rewriting of bounds-checked Go operations\<close>
named_theorems go_elims \<open>inversion of bounds-checked Go operations\<close>

section \<open>Panics and results\<close>

text \<open>
  A Go run-time panic is a value of \<open>go_panic\<close>.  An operation that may panic has the result
  type \<open>'a go\<close>; one that may return an \<open>error\<close> has a sum with its own error type.
\<close>

datatype go_panic =
    DivideByZero
  | IndexOutOfRange
  | SliceOutOfRange
  | NilDereference
  | NilMapWrite
  | PanicMsg string

type_synonym 'a go = "go_panic + 'a"

fun bnd :: "'e + 'a \<Rightarrow> ('a \<Rightarrow> 'e + 'b) \<Rightarrow> 'e + 'b" where
  "bnd (Inl e) f = Inl e"
| "bnd (Inr x) f = f x"

lemma bnd_eq_Inr [go_simps]: "bnd m f = Inr y \<longleftrightarrow> (\<exists>x. m = Inr x \<and> f x = Inr y)"
  by (cases m) auto

lemma bnd_eq_Inl [go_simps]:
  "bnd m f = Inl e \<longleftrightarrow> m = Inl e \<or> (\<exists>x. m = Inr x \<and> f x = Inl e)"
  by (cases m) auto

lemma bnd_assoc: "bnd (bnd m f) g = bnd m (\<lambda>x. bnd (f x) g)"
  by (cases m) auto

section \<open>Slices\<close>

text \<open>Reading and writing \<open>xs[i]\<close>; Go panics outside \<open>0 \<le> i < len(xs)\<close>.\<close>

definition slice_get :: "'a list \<Rightarrow> int \<Rightarrow> 'a go" where
  "slice_get xs i =
     (if 0 \<le> i \<and> i < int (length xs) then Inr (xs ! nat i) else Inl IndexOutOfRange)"

definition slice_set :: "'a list \<Rightarrow> int \<Rightarrow> 'a \<Rightarrow> 'a list go" where
  "slice_set xs i v =
     (if 0 \<le> i \<and> i < int (length xs) then Inr (xs[nat i := v]) else Inl IndexOutOfRange)"

text \<open>
  \<open>xs[lo:hi]\<close>; Go panics unless \<open>0 \<le> lo \<le> hi \<le> cap(xs)\<close>.  The slices of the model have no spare
  capacity, so the upper bound is the length.
\<close>

definition slice_range :: "'a list \<Rightarrow> int \<Rightarrow> int \<Rightarrow> 'a list go" where
  "slice_range xs lo hi =
     (if 0 \<le> lo \<and> lo \<le> hi \<and> hi \<le> int (length xs)
      then Inr (take (nat hi - nat lo) (drop (nat lo) xs)) else Inl SliceOutOfRange)"

text \<open>\<open>copy(dst, src)\<close> overwrites a prefix of \<open>dst\<close> and never runs past either slice.\<close>

definition slice_copy :: "'a list \<Rightarrow> 'a list \<Rightarrow> 'a list" where
  "slice_copy dst src =
     (let n = min (length dst) (length src) in take n src @ drop n dst)"

text \<open>\<open>copy(dst[at:], src)\<close>: the same, from position \<open>at\<close> of the underlying array on.\<close>

definition copy_at :: "'a list \<Rightarrow> nat \<Rightarrow> 'a list \<Rightarrow> 'a list" where
  "copy_at xs at src = take at xs @ slice_copy (drop at xs) src"

lemma slice_get_ok [go_simps]: "i < length xs \<Longrightarrow> slice_get xs (int i) = Inr (xs ! i)"
  by (simp add: slice_get_def)

lemma slice_set_ok [go_simps]: "i < length xs \<Longrightarrow> slice_set xs (int i) v = Inr (xs[i := v])"
  by (simp add: slice_set_def)

lemma slice_range_ok [go_simps]:
  "lo \<le> hi \<Longrightarrow> hi \<le> length xs \<Longrightarrow>
   slice_range xs (int lo) (int hi) = Inr (take (hi - lo) (drop lo xs))"
  by (simp add: slice_range_def)

lemma length_slice_copy [simp]: "length (slice_copy dst src) = length dst"
  by (auto simp: slice_copy_def Let_def)

lemma length_copy_at [simp]: "at \<le> length xs \<Longrightarrow> length (copy_at xs at src) = length xs"
  by (simp add: copy_at_def)

lemma slice_copy_fits:
  "length src \<le> length dst \<Longrightarrow> slice_copy dst src = src @ drop (length src) dst"
  by (simp add: slice_copy_def min_def)

lemma copy_at_fits:
  "at + length src \<le> length xs \<Longrightarrow>
   copy_at xs at src = take at xs @ src @ drop (at + length src) xs"
  by (simp add: copy_at_def slice_copy_fits add.commute)

lemma set_slice_copy: "set (slice_copy dst src) \<subseteq> set dst \<union> set src"
  by (auto simp: slice_copy_def Let_def dest: in_set_takeD in_set_dropD)

lemma set_copy_at: "set (copy_at xs at src) \<subseteq> set xs \<union> set src"
  using set_slice_copy [of "drop at xs" src]
  by (auto simp: copy_at_def dest: in_set_takeD in_set_dropD)

section \<open>Lists and maps\<close>

lemma take_drop_update_other:
  "k < lo \<or> hi \<le> k \<Longrightarrow> take (hi - lo) (drop lo (xs[k := v])) = take (hi - lo) (drop lo xs)"
  by (rule nth_equalityI) (auto simp: nth_list_update)

lemma take_drop_snoc:
  assumes "lo \<le> hi" and "hi < length xs"
  shows "take (Suc hi - lo) (drop lo (xs[hi := v])) = take (hi - lo) (drop lo xs) @ [v]"
proof -
  from assms have "take (Suc hi - lo) (drop lo (xs[hi := v])) =
      take (hi - lo) (drop lo (xs[hi := v])) @ [drop lo (xs[hi := v]) ! (hi - lo)]"
    by (simp add: Suc_diff_le take_Suc_conv_app_nth)
  with assms show ?thesis by (simp add: take_drop_update_other)
qed

lemma take_drop_Cons:
  assumes "lo < hi" and "hi \<le> length xs"
  shows "take (hi - lo) (drop lo xs) = xs ! lo # take (hi - Suc lo) (drop (Suc lo) xs)"
proof -
  from assms have "drop lo xs = xs ! lo # drop (Suc lo) xs"
    by (simp add: Cons_nth_drop_Suc)
  moreover from assms have "hi - lo = Suc (hi - Suc lo)" by simp
  ultimately show ?thesis by simp
qed

lemma map_nth_upt:
  "hi \<le> length xs \<Longrightarrow> map ((!) xs) [lo..<hi] = take (hi - lo) (drop lo xs)"
  by (rule nth_equalityI) auto

lemma dom_map_upd_Some [simp]: "dom (m(k := Some v)) = insert k (dom m)"
  by auto

lemma sum_list_change:
  "k < length xs \<Longrightarrow> sum_list (map f (xs[k := y])) + f (xs ! k) = sum_list (map f xs) + (f y :: nat)"
proof (induction xs arbitrary: k)
  case (Cons x xs)
  show ?case
  proof (cases k)
    case (Suc j)
    with Cons.prems Cons.IH [of j] show ?thesis by simp
  qed simp
qed simp

end
