(* ===== verification/Fifo.thy ===== *)
theory Fifo
  imports Prelude
begin

text \<open>
  The contract of an unbounded FIFO queue whose operations may panic: the interface that
  \<^verbatim>\<open>RingBuffer\<close> and the linked queue of \<^verbatim>\<open>go/container/queue\<close> provide.  An operation sequence run
  against any provider answers what the same sequence answers on a plain list, and never panics.
\<close>

datatype 'a queue_op = EnqOp 'a | DeqOp

text \<open>\<^verbatim>\<open>Pop\<close> returns the pair \<^verbatim>\<open>(value, ok)\<close>; an empty queue answers the zero value and \<^verbatim>\<open>false\<close>.\<close>

fun list_run :: "'a \<Rightarrow> 'a list \<Rightarrow> 'a queue_op list \<Rightarrow> ('a \<times> bool) list \<times> 'a list" where
  "list_run z xs [] = ([], xs)"
| "list_run z xs (EnqOp x # ops) = list_run z (xs @ [x]) ops"
| "list_run z [] (DeqOp # ops) =
     (let (as, ys) = list_run z [] ops in ((z, False) # as, ys))"
| "list_run z (x # xs) (DeqOp # ops) =
     (let (as, ys) = list_run z xs ops in ((x, True) # as, ys))"

fun queue_run ::
  "('q \<Rightarrow> 'a \<Rightarrow> 'q go) \<Rightarrow> ('q \<Rightarrow> ('a \<times> bool \<times> 'q) go) \<Rightarrow> 'q \<Rightarrow> 'a queue_op list
     \<Rightarrow> (('a \<times> bool) list \<times> 'q) go" where
  "queue_run enq deq q [] = Inr ([], q)"
| "queue_run enq deq q (EnqOp x # ops) = bnd (enq q x) (\<lambda>q'. queue_run enq deq q' ops)"
| "queue_run enq deq q (DeqOp # ops) =
     bnd (deq q) (\<lambda>(v, ok, q').
       bnd (queue_run enq deq q' ops) (\<lambda>(as, q''). Inr ((v, ok) # as, q'')))"

locale fifo =
  fixes inv :: "'q \<Rightarrow> bool"
    and contents :: "'q \<Rightarrow> 'a list"
    and zero :: 'a
    and enq :: "'q \<Rightarrow> 'a \<Rightarrow> 'q go"
    and deq :: "'q \<Rightarrow> ('a \<times> bool \<times> 'q) go"
  assumes enq_ok: "inv q \<Longrightarrow> \<exists>q'. enq q x = Inr q' \<and> inv q' \<and> contents q' = contents q @ [x]"
    and deq_Nil: "inv q \<Longrightarrow> contents q = [] \<Longrightarrow> deq q = Inr (zero, False, q)"
    and deq_Cons: "inv q \<Longrightarrow> contents q = x # xs \<Longrightarrow>
          \<exists>q'. deq q = Inr (x, True, q') \<and> inv q' \<and> contents q' = xs"
begin

lemma run_refines_list:
  "inv q \<Longrightarrow>
   \<exists>q'. queue_run enq deq q ops = Inr (fst (list_run zero (contents q) ops), q')
      \<and> inv q' \<and> contents q' = snd (list_run zero (contents q) ops)"
proof (induction ops arbitrary: q)
  case Nil
  then show ?case by simp
next
  case (Cons op ops)
  show ?case
  proof (cases op)
    case (EnqOp x)
    from enq_ok [OF Cons.prems, of x] obtain q' where
      "enq q x = Inr q'" "inv q'" "contents q' = contents q @ [x]" by blast
    with Cons.IH [of q'] EnqOp show ?thesis by simp
  next
    case DeqOp
    show ?thesis
    proof (cases "contents q")
      case Nil
      with Cons.IH [OF Cons.prems] deq_Nil [OF Cons.prems Nil] DeqOp show ?thesis
        by (auto split: prod.splits)
    next
      case (Cons x xs)
      from deq_Cons [OF Cons.prems Cons] obtain q' where
        "deq q = Inr (x, True, q')" "inv q'" "contents q' = xs" by blast
      with Cons.IH [of q'] Cons DeqOp show ?thesis by (auto split: prod.splits)
    qed
  qed
qed

corollary run_never_panics: "inv q \<Longrightarrow> \<exists>r. queue_run enq deq q ops = Inr r"
  using run_refines_list by blast

end

end
