(* ===== verification/Buffer.thy ===== *)
theory Buffer
  imports Fifo
begin

text \<open>
  The generic ring buffer of \<^verbatim>\<open>go/range/buffer.go\<close>.  \<^verbatim>\<open>head\<close> and \<^verbatim>\<open>tail\<close> are only ever assigned
  \<open>0\<close>, a length, or a value modulo \<^verbatim>\<open>len(elements)\<close>, so they are natural numbers here.  The zero
  value of the element type, which Go writes into cleared slots, is the parameter \<open>z\<close>.  The zero
  value of the struct itself has no elements; \<^verbatim>\<open>IsFull\<close> divides by that length, hence the panics.
\<close>

definition RINGBUFFER_MIN :: nat where "RINGBUFFER_MIN = 8"
definition RINGBUFFER_EXP :: nat where "RINGBUFFER_EXP = 1024"

record 'a RingBuffer =
  rb_head :: nat
  rb_tail :: nat
  rb_elements :: "'a list"

definition NewRingBuffer :: "'a \<Rightarrow> int \<Rightarrow> 'a RingBuffer" where
  "NewRingBuffer z sz =
     (let sz' = (if sz \<le> int RINGBUFFER_MIN then RINGBUFFER_MIN else nat sz)
      in \<lparr>rb_head = 0, rb_tail = 0, rb_elements = replicate sz' z\<rparr>)"

definition RingBuffer_Len :: "'a RingBuffer \<Rightarrow> nat" where
  "RingBuffer_Len r =
     (if rb_head r \<le> rb_tail r then rb_tail r - rb_head r
      else length (rb_elements r) - rb_head r + rb_tail r)"

definition RingBuffer_IsEmpty :: "'a RingBuffer \<Rightarrow> bool" where
  "RingBuffer_IsEmpty r \<longleftrightarrow> rb_head r = rb_tail r"

definition RingBuffer_MaxLen :: "'a RingBuffer \<Rightarrow> int" where
  "RingBuffer_MaxLen r = int (length (rb_elements r)) - 1"

text \<open>\<open>x % len(elements)\<close>: Go panics when the length is zero.\<close>

definition ring_mod :: "nat \<Rightarrow> 'a RingBuffer \<Rightarrow> nat go" where
  "ring_mod x r =
     (if rb_elements r = [] then Inl DivideByZero else Inr (x mod length (rb_elements r)))"

definition RingBuffer_IsFull :: "'a RingBuffer \<Rightarrow> bool go" where
  "RingBuffer_IsFull r = bnd (ring_mod (rb_tail r + 1) r) (\<lambda>k. Inr (k = rb_head r))"

definition ring_newSize :: "nat \<Rightarrow> nat" where
  "ring_newSize currentSize =
     (if currentSize < RINGBUFFER_MIN then RINGBUFFER_MIN
      else if currentSize < RINGBUFFER_EXP then currentSize * 2
      else currentSize + (currentSize + 9) div 10)"

definition RingBuffer_grow :: "'a \<Rightarrow> 'a RingBuffer \<Rightarrow> 'a RingBuffer" where
  "RingBuffer_grow z r =
     (let currentLength = RingBuffer_Len r;
          es = rb_elements r;
          newElements = replicate (ring_newSize (length es)) z;
          copied =
            (if rb_head r < rb_tail r
             then slice_copy newElements (take (rb_tail r - rb_head r) (drop (rb_head r) es))
             else
               (let front = drop (rb_head r) es;
                    n = min (length newElements) (length front)
                in copy_at (slice_copy newElements front) n (take (rb_tail r) es)))
      in \<lparr>rb_head = 0, rb_tail = currentLength, rb_elements = copied\<rparr>)"

definition RingBuffer_Push :: "'a \<Rightarrow> 'a RingBuffer \<Rightarrow> 'a \<Rightarrow> 'a RingBuffer go" where
  "RingBuffer_Push z r v =
     bnd (RingBuffer_IsFull r) (\<lambda>full.
       let r1 = (if full then RingBuffer_grow z r else r) in
       bnd (slice_set (rb_elements r1) (int (rb_tail r1)) v) (\<lambda>es.
         let r2 = r1\<lparr>rb_elements := es\<rparr> in
         bnd (ring_mod (rb_tail r2 + 1) r2) (\<lambda>t. Inr (r2\<lparr>rb_tail := t\<rparr>))))"

text \<open>One turn of the loop of \<^verbatim>\<open>Discard\<close>, also the mutation done by \<^verbatim>\<open>Pop\<close>.\<close>

definition ring_dropHead :: "'a \<Rightarrow> 'a RingBuffer \<Rightarrow> 'a RingBuffer go" where
  "ring_dropHead z r =
     bnd (slice_set (rb_elements r) (int (rb_head r)) z) (\<lambda>es.
       let r1 = r\<lparr>rb_elements := es\<rparr> in
       bnd (ring_mod (rb_head r1 + 1) r1) (\<lambda>h. Inr (r1\<lparr>rb_head := h\<rparr>)))"

definition RingBuffer_Pop :: "'a \<Rightarrow> 'a RingBuffer \<Rightarrow> ('a \<times> bool \<times> 'a RingBuffer) go" where
  "RingBuffer_Pop z r =
     (if RingBuffer_Len r = 0 then Inr (z, False, r)
      else bnd (slice_get (rb_elements r) (int (rb_head r))) (\<lambda>value.
             bnd (ring_dropHead z r) (\<lambda>r'. Inr (value, True, r'))))"

text \<open>\<^verbatim>\<open>Peek\<close> returns a pointer into the elements: here the index of the slot, with its content.\<close>

definition RingBuffer_Peek :: "'a RingBuffer \<Rightarrow> (nat \<times> 'a) option go" where
  "RingBuffer_Peek r =
     (if RingBuffer_Len r = 0 then Inr None
      else bnd (slice_get (rb_elements r) (int (rb_head r))) (\<lambda>v. Inr (Some (rb_head r, v))))"

text \<open>A loop \<^verbatim>\<open>for i := lo; i < hi; i++ { elements[i] = zero }\<close>.\<close>

fun zero_slots :: "'a \<Rightarrow> nat list \<Rightarrow> 'a list \<Rightarrow> 'a list go" where
  "zero_slots z [] es = Inr es"
| "zero_slots z (i # is) es = bnd (slice_set es (int i) z) (zero_slots z is)"

definition RingBuffer_Clear :: "'a \<Rightarrow> 'a RingBuffer \<Rightarrow> 'a RingBuffer go" where
  "RingBuffer_Clear z r =
     bnd (if rb_head r \<le> rb_tail r
          then zero_slots z [rb_head r..<rb_tail r] (rb_elements r)
          else bnd (zero_slots z [rb_head r..<length (rb_elements r)] (rb_elements r))
                 (zero_slots z [0..<rb_tail r]))
       (\<lambda>es. Inr \<lparr>rb_head = 0, rb_tail = 0, rb_elements = es\<rparr>)"

fun ring_dropHeads :: "'a \<Rightarrow> nat \<Rightarrow> 'a RingBuffer \<Rightarrow> 'a RingBuffer go" where
  "ring_dropHeads z 0 r = Inr r"
| "ring_dropHeads z (Suc n) r = bnd (ring_dropHead z r) (ring_dropHeads z n)"

definition RingBuffer_Discard :: "'a \<Rightarrow> 'a RingBuffer \<Rightarrow> int \<Rightarrow> (int \<times> 'a RingBuffer) go" where
  "RingBuffer_Discard z r n =
     (let currentLen = int (RingBuffer_Len r); n' = min n currentLen in
      if n' = currentLen then bnd (RingBuffer_Clear z r) (\<lambda>r'. Inr (n', r'))
      else bnd (ring_dropHeads z (nat n') r) (\<lambda>r'. Inr (n', r')))"

text \<open>
  The visitor of \<^verbatim>\<open>ForEach\<close> gets a pointer to the slot: it may overwrite the element and update
  what its closure captured.  It is a function from the captured state and the element to the new
  state, the new element and the answer; \<^verbatim>\<open>false\<close> stops the iteration.
\<close>

type_synonym ('s, 'a) visitor = "'s \<Rightarrow> 'a \<Rightarrow> 's \<times> 'a \<times> bool"

fun visit_slots ::
  "('s, 'a) visitor \<Rightarrow> nat list \<Rightarrow> 's \<Rightarrow> 'a list \<Rightarrow> (bool \<times> 's \<times> 'a list) go" where
  "visit_slots fn [] s es = Inr (True, s, es)"
| "visit_slots fn (i # is) s es =
     bnd (slice_get es (int i)) (\<lambda>x.
       let (s', x', continue) = fn s x; es' = es[i := x'] in
       if continue then visit_slots fn is s' es' else Inr (False, s', es'))"

definition ring_visit ::
  "('s, 'a) visitor \<Rightarrow> nat list \<Rightarrow> nat list \<Rightarrow> 's \<Rightarrow> 'a RingBuffer \<Rightarrow> ('s \<times> 'a RingBuffer) go" where
  "ring_visit fn is js s r =
     bnd (visit_slots fn is s (rb_elements r)) (\<lambda>(continue, s', es).
       if \<not> continue then Inr (s', r\<lparr>rb_elements := es\<rparr>)
       else bnd (visit_slots fn js s' es) (\<lambda>(_, s'', es'). Inr (s'', r\<lparr>rb_elements := es'\<rparr>)))"

definition RingBuffer_ForEach ::
  "('s, 'a) visitor \<Rightarrow> 's \<Rightarrow> 'a RingBuffer \<Rightarrow> ('s \<times> 'a RingBuffer) go" where
  "RingBuffer_ForEach fn s r =
     (if RingBuffer_Len r = 0 then Inr (s, r)
      else if rb_head r < rb_tail r then ring_visit fn [rb_head r..<rb_tail r] [] s r
      else ring_visit fn [rb_head r..<length (rb_elements r)] [0..<rb_tail r] s r)"

definition RingBuffer_ForEachReverse ::
  "('s, 'a) visitor \<Rightarrow> 's \<Rightarrow> 'a RingBuffer \<Rightarrow> ('s \<times> 'a RingBuffer) go" where
  "RingBuffer_ForEachReverse fn s r =
     (if RingBuffer_Len r = 0 then Inr (s, r)
      else if rb_head r < rb_tail r then ring_visit fn (rev [rb_head r..<rb_tail r]) [] s r
      else ring_visit fn (rev [0..<rb_tail r]) (rev [rb_head r..<length (rb_elements r)]) s r)"


section \<open>Occupied slots, contents and invariant\<close>

definition ring_slots :: "'a RingBuffer \<Rightarrow> nat list" where
  "ring_slots r =
     (if rb_head r \<le> rb_tail r then [rb_head r..<rb_tail r]
      else [rb_head r..<length (rb_elements r)] @ [0..<rb_tail r])"

definition ring_contents :: "'a RingBuffer \<Rightarrow> 'a list" where
  "ring_contents r = map ((!) (rb_elements r)) (ring_slots r)"

definition ring_inv :: "'a RingBuffer \<Rightarrow> bool" where
  "ring_inv r \<longleftrightarrow> rb_head r < length (rb_elements r) \<and> rb_tail r < length (rb_elements r)"

text \<open>No slot outside the occupied ones keeps a reference: it holds the zero value.\<close>

definition ring_clean :: "'a \<Rightarrow> 'a RingBuffer \<Rightarrow> bool" where
  "ring_clean z r \<longleftrightarrow>
     (\<forall>i < length (rb_elements r). i \<notin> set (ring_slots r) \<longrightarrow> rb_elements r ! i = z)"

lemma ring_inv_nonempty: "ring_inv r \<Longrightarrow> rb_elements r \<noteq> []"
  by (auto simp: ring_inv_def)

lemma ring_slots_bound: "ring_inv r \<Longrightarrow> i \<in> set (ring_slots r) \<Longrightarrow> i < length (rb_elements r)"
  by (auto simp: ring_slots_def ring_inv_def split: if_splits)

lemma distinct_ring_slots: "distinct (ring_slots r)"
  by (auto simp: ring_slots_def)

lemma length_ring_contents: "length (ring_contents r) = RingBuffer_Len r"
  by (auto simp: ring_contents_def ring_slots_def RingBuffer_Len_def)

lemma ring_mod_ok [go_simps]:
  "rb_elements r \<noteq> [] \<Longrightarrow> ring_mod x r = Inr (x mod length (rb_elements r))"
  by (simp add: ring_mod_def)

text \<open>
  \<^verbatim>\<open>(k + 1) % n\<close> for an index \<open>k\<close>: the next slot, or the first one after the last.
\<close>

lemma Suc_mod_index: "k < n \<Longrightarrow> Suc k mod n = (if Suc k = n then 0 else Suc k)"
  by simp

lemma RingBuffer_IsFull_eq:
  "ring_inv r \<Longrightarrow>
   RingBuffer_IsFull r = Inr (RingBuffer_Len r = length (rb_elements r) - 1)"
  by (auto simp: RingBuffer_IsFull_def ring_inv_nonempty ring_mod_ok Suc_mod_index
      RingBuffer_Len_def ring_inv_def)

lemma ring_slots_snoc:
  assumes "ring_inv r" and "Suc (rb_tail r) mod length (rb_elements r) \<noteq> rb_head r"
    and "length es = length (rb_elements r)"
  shows "ring_slots (r\<lparr>rb_elements := es, rb_tail := Suc (rb_tail r) mod length (rb_elements r)\<rparr>)
           = ring_slots r @ [rb_tail r]"
  using assms upt_Suc_append [of "rb_head r" "rb_tail r"] upt_Suc_append [of 0 "rb_tail r"]
  by (auto simp: ring_slots_def ring_inv_def Suc_mod_index simp del: upt_Suc split: if_splits)

lemma tail_not_occupied: "ring_inv r \<Longrightarrow> rb_tail r \<notin> set (ring_slots r)"
  by (auto simp: ring_slots_def ring_inv_def)

lemma map_nth_list_update: "i \<notin> set is \<Longrightarrow> map ((!) (xs[i := v])) is = map ((!) xs) is"
  by (rule map_cong) (auto, metis nth_list_update_neq)

section \<open>Growth\<close>

lemma ring_newSize_gt: "n < ring_newSize n"
  by (auto simp: ring_newSize_def RINGBUFFER_MIN_def RINGBUFFER_EXP_def)

lemma map_nth_append_left: "n \<le> length xs \<Longrightarrow> map ((!) (xs @ ys)) [0..<n] = take n xs"
  by (rule nth_equalityI) (auto simp: nth_append)

lemma grow_elements:
  assumes "ring_inv r" and "rb_head r \<noteq> rb_tail r"
  shows "rb_elements (RingBuffer_grow z r) =
           ring_contents r @
           replicate (ring_newSize (length (rb_elements r)) - RingBuffer_Len r) z"
proof -
  let ?n = "ring_newSize (length (rb_elements r))"
  have len: "length (rb_elements r) < ?n" by (rule ring_newSize_gt)
  show ?thesis
  proof (cases "rb_head r < rb_tail r")
    case True
    with assms len show ?thesis
      by (auto simp: RingBuffer_grow_def Let_def slice_copy_fits ring_contents_def ring_slots_def
          ring_inv_def map_nth_upt RingBuffer_Len_def)
  next
    case False
    with assms(2) have wrapped: "rb_tail r < rb_head r" by simp
    with assms len show ?thesis
      by (auto simp: RingBuffer_grow_def Let_def slice_copy_fits copy_at_fits ring_contents_def
          ring_slots_def ring_inv_def map_nth_upt RingBuffer_Len_def)
  qed
qed

lemma length_grow:
  "ring_inv r \<Longrightarrow> length (rb_elements (RingBuffer_grow z r)) = ring_newSize (length (rb_elements r))"
  using ring_newSize_gt [of "length (rb_elements r)"]
  by (auto simp: RingBuffer_grow_def Let_def ring_inv_def)

lemma ring_Len_bound: "ring_inv r \<Longrightarrow> RingBuffer_Len r < length (rb_elements r)"
  by (auto simp: RingBuffer_Len_def ring_inv_def)

lemma grow_inv: "ring_inv r \<Longrightarrow> ring_inv (RingBuffer_grow z r)"
  using ring_newSize_gt [of "length (rb_elements r)"] ring_Len_bound [of r]
  by (simp add: ring_inv_def length_grow) (simp add: RingBuffer_grow_def Let_def)

lemma grow_head_tail [simp]:
  "rb_head (RingBuffer_grow z r) = 0" "rb_tail (RingBuffer_grow z r) = RingBuffer_Len r"
  by (simp_all add: RingBuffer_grow_def Let_def)

lemma grow_contents: "ring_inv r \<Longrightarrow> ring_contents (RingBuffer_grow z r) = ring_contents r"
proof (cases "rb_head r = rb_tail r")
  case True
  then show ?thesis
    by (simp add: ring_contents_def ring_slots_def RingBuffer_Len_def)
next
  case False
  assume inv: "ring_inv r"
  have "ring_contents (RingBuffer_grow z r) =
      map ((!) (rb_elements (RingBuffer_grow z r))) [0..<RingBuffer_Len r]"
    by (simp add: ring_contents_def [of "RingBuffer_grow z r"] ring_slots_def)
  also have "\<dots> = ring_contents r"
    by (simp only: grow_elements [OF inv False])
      (simp add: map_nth_append_left length_ring_contents)
  finally show ?thesis .
qed

lemma grow_not_full:
  "ring_inv r \<Longrightarrow>
   Suc (rb_tail (RingBuffer_grow z r)) mod length (rb_elements (RingBuffer_grow z r)) \<noteq>
   rb_head (RingBuffer_grow z r)"
  using ring_newSize_gt [of "length (rb_elements r)"] ring_Len_bound [of r]
  by (simp add: length_grow)


section \<open>Push and Pop\<close>

definition ring_store :: "'a RingBuffer \<Rightarrow> 'a \<Rightarrow> 'a RingBuffer" where
  "ring_store r v =
     r\<lparr>rb_elements := (rb_elements r)[rb_tail r := v],
       rb_tail := Suc (rb_tail r) mod length (rb_elements r)\<rparr>"

definition ring_drop :: "'a \<Rightarrow> 'a RingBuffer \<Rightarrow> 'a RingBuffer" where
  "ring_drop z r =
     r\<lparr>rb_elements := (rb_elements r)[rb_head r := z],
       rb_head := Suc (rb_head r) mod length (rb_elements r)\<rparr>"

lemma ring_store_slots:
  "ring_inv r \<Longrightarrow> Suc (rb_tail r) mod length (rb_elements r) \<noteq> rb_head r \<Longrightarrow>
   ring_slots (ring_store r v) = ring_slots r @ [rb_tail r]"
  by (simp add: ring_store_def ring_slots_snoc)

lemma ring_store_inv: "ring_inv r \<Longrightarrow> ring_inv (ring_store r v)"
  by (auto simp: ring_store_def ring_inv_def intro: mod_less_divisor)

lemma ring_store_contents:
  assumes "ring_inv r" and "Suc (rb_tail r) mod length (rb_elements r) \<noteq> rb_head r"
  shows "ring_contents (ring_store r v) = ring_contents r @ [v]"
proof -
  have "ring_contents (ring_store r v) =
      map ((!) ((rb_elements r)[rb_tail r := v])) (ring_slots r @ [rb_tail r])"
    by (simp only: ring_contents_def ring_store_slots [OF assms]) (simp add: ring_store_def)
  with assms(1) show ?thesis
    by (simp add: map_nth_list_update tail_not_occupied ring_contents_def ring_inv_def)
qed

lemma RingBuffer_Push_eq:
  assumes "ring_inv r"
  shows "RingBuffer_Push z r v =
     Inr (ring_store (if RingBuffer_Len r = length (rb_elements r) - 1
                      then RingBuffer_grow z r else r) v)"
    (is "_ = Inr (ring_store ?r1 v)")
proof -
  from assms have "ring_inv ?r1" by (simp add: grow_inv)
  with assms show ?thesis
    by (auto simp: RingBuffer_Push_def RingBuffer_IsFull_eq ring_store_def ring_inv_def
        slice_set_ok ring_mod_def Let_def)
qed

lemma not_full_next:
  "ring_inv r \<Longrightarrow> RingBuffer_Len r \<noteq> length (rb_elements r) - 1 \<Longrightarrow>
   Suc (rb_tail r) mod length (rb_elements r) \<noteq> rb_head r"
  by (auto simp: RingBuffer_Len_def ring_inv_def Suc_mod_index split: if_splits)

lemma Push_correct:
  assumes "ring_inv r"
  shows "\<exists>r'. RingBuffer_Push z r v = Inr r' \<and> ring_inv r' \<and>
              ring_contents r' = ring_contents r @ [v]"
  using assms ring_store_contents [OF grow_inv [OF assms] grow_not_full [OF assms], of z v]
  by (auto simp: RingBuffer_Push_eq grow_inv ring_store_inv ring_store_contents grow_contents
      not_full_next)

lemma ring_slots_Cons:
  assumes "ring_inv r" and "RingBuffer_Len r \<noteq> 0"
  shows "ring_slots r = rb_head r # ring_slots (ring_drop z r)"
  using assms upt_conv_Cons [of "rb_head r" "rb_tail r"]
    upt_conv_Cons [of "rb_head r" "length (rb_elements r)"]
  by (auto simp: ring_slots_def ring_drop_def ring_inv_def Suc_mod_index RingBuffer_Len_def
      simp del: upt_Suc split: if_splits)

lemma ring_drop_inv: "ring_inv r \<Longrightarrow> ring_inv (ring_drop z r)"
  by (auto simp: ring_drop_def ring_inv_def intro: mod_less_divisor)

lemma ring_drop_contents:
  assumes "ring_inv r" and "RingBuffer_Len r \<noteq> 0"
  shows "ring_contents r = rb_elements r ! rb_head r # ring_contents (ring_drop z r)"
proof -
  note slots = ring_slots_Cons [OF assms, of z]
  have "rb_head r \<notin> set (ring_slots (ring_drop z r))"
    using slots distinct_ring_slots [of r] by simp
  then have "map ((!) ((rb_elements r)[rb_head r := z])) (ring_slots (ring_drop z r)) =
      map ((!) (rb_elements r)) (ring_slots (ring_drop z r))"
    by (rule map_nth_list_update)
  then have "ring_contents (ring_drop z r) = map ((!) (rb_elements r)) (ring_slots (ring_drop z r))"
    by (simp add: ring_contents_def) (simp add: ring_drop_def)
  with slots show ?thesis by (simp add: ring_contents_def)
qed

lemma ring_dropHead_eq: "ring_inv r \<Longrightarrow> ring_dropHead z r = Inr (ring_drop z r)"
  by (auto simp: ring_dropHead_def ring_drop_def ring_inv_def slice_set_ok ring_mod_def Let_def)

lemma Pop_empty: "ring_contents r = [] \<Longrightarrow> RingBuffer_Pop z r = Inr (z, False, r)"
  by (simp add: RingBuffer_Pop_def length_ring_contents [symmetric])

lemma Pop_nonempty:
  assumes "ring_inv r" and "ring_contents r = x # xs"
  shows "RingBuffer_Pop z r = Inr (x, True, ring_drop z r) \<and> ring_contents (ring_drop z r) = xs"
proof -
  from assms(2) have len: "RingBuffer_Len r \<noteq> 0"
    by (auto simp: length_ring_contents [symmetric])
  from ring_drop_contents [OF assms(1) len, of z] assms len show ?thesis
    by (auto simp: RingBuffer_Pop_def ring_dropHead_eq slice_get_ok ring_inv_def)
qed

lemma NewRingBuffer_inv [simp]: "ring_inv (NewRingBuffer z n)"
  by (simp add: ring_inv_def NewRingBuffer_def Let_def RINGBUFFER_MIN_def)

lemma NewRingBuffer_contents [simp]: "ring_contents (NewRingBuffer z n) = []"
  by (simp add: ring_contents_def ring_slots_def NewRingBuffer_def Let_def)

section \<open>Cleared slots\<close>

lemma ring_store_clean:
  assumes "ring_inv r" and "Suc (rb_tail r) mod length (rb_elements r) \<noteq> rb_head r"
    and "ring_clean z r"
  shows "ring_clean z (ring_store r v)"
proof -
  have "rb_elements (ring_store r v) ! i = z"
    if "i < length (rb_elements r)" "i \<notin> set (ring_slots r)" "i \<noteq> rb_tail r" for i
    using that assms(3) by (simp add: ring_store_def ring_clean_def)
  then show ?thesis
    by (simp add: ring_clean_def ring_store_slots [OF assms(1,2)])
      (simp add: ring_store_def)
qed

lemma ring_drop_clean:
  assumes "ring_inv r" and "RingBuffer_Len r \<noteq> 0" and "ring_clean z r"
  shows "ring_clean z (ring_drop z r)"
  using assms(3) ring_slots_Cons [OF assms(1,2), of z] assms(1)
  by (auto simp: ring_clean_def ring_inv_def nth_list_update)
    (auto simp: ring_drop_def nth_list_update)

lemma grow_clean:
  assumes "ring_inv r" and "RingBuffer_Len r \<noteq> 0"
  shows "ring_clean z (RingBuffer_grow z r)"
proof -
  from assms(2) have "rb_head r \<noteq> rb_tail r" by (auto simp: RingBuffer_Len_def)
  from grow_elements [OF assms(1) this, of z] show ?thesis
    by (auto simp: ring_clean_def ring_slots_def nth_append length_ring_contents)
qed

lemma ring_clean_empty: "RingBuffer_Len r = 0 \<Longrightarrow> ring_clean z r \<Longrightarrow> ring_inv r \<Longrightarrow>
   rb_elements r = replicate (length (rb_elements r)) z"
  by (rule nth_equalityI)
    (auto simp: ring_clean_def RingBuffer_Len_def ring_slots_def ring_inv_def split: if_splits)

lemma grow_elements_set:
  "set (rb_elements (RingBuffer_grow z r)) \<subseteq> insert z (set (rb_elements r))"
proof -
  let ?new = "replicate (ring_newSize (length (rb_elements r))) z"
  have new: "set ?new \<subseteq> {z}" by (simp add: set_replicate_conv_if)
  have sub: "set (slice_copy ?new xs) \<subseteq> insert z (set (rb_elements r))"
    if "set xs \<subseteq> set (rb_elements r)" for xs
    using set_slice_copy [of ?new xs] new that by blast
  have "set (copy_at xs k (take n (rb_elements r))) \<subseteq> set xs \<union> set (rb_elements r)" for xs k n
    using set_copy_at [of xs k "take n (rb_elements r)"] set_take_subset [of n "rb_elements r"]
    by blast
  then have sub2: "set (copy_at (slice_copy ?new xs) k (take n (rb_elements r)))
      \<subseteq> insert z (set (rb_elements r))"
    if "set xs \<subseteq> set (rb_elements r)" for xs k n
    using sub [OF that] by blast
  have "set (take m (drop n (rb_elements r))) \<subseteq> set (rb_elements r)" for m n
    by (meson order_trans set_drop_subset set_take_subset)
  then show ?thesis
    by (simp add: RingBuffer_grow_def Let_def sub sub2 set_drop_subset)
qed

lemma grow_clean_empty:
  assumes "ring_inv r" and "RingBuffer_Len r = 0" and "ring_clean z r"
  shows "ring_clean z (RingBuffer_grow z r)"
proof -
  have "set (rb_elements r) \<subseteq> {z}"
    using ring_clean_empty [OF assms(2,3,1)] by (metis set_replicate_conv_if empty_subsetI order_refl)
  with grow_elements_set [of z r] show ?thesis
    by (fastforce simp: ring_clean_def dest: nth_mem)
qed

lemma Push_clean:
  assumes "ring_inv r" and "ring_clean z r" and "RingBuffer_Push z r v = Inr r'"
  shows "ring_clean z r'"
proof (cases "RingBuffer_Len r = length (rb_elements r) - 1")
  case True
  have "ring_clean z (RingBuffer_grow z r)"
    using grow_clean [OF assms(1)] grow_clean_empty [OF assms(1) _ assms(2)] by blast
  then have "ring_clean z (ring_store (RingBuffer_grow z r) v)"
    by (rule ring_store_clean [OF grow_inv [OF assms(1)] grow_not_full [OF assms(1)]])
  with assms(1,3) True show ?thesis by (simp add: RingBuffer_Push_eq)
next
  case False
  with ring_store_clean [OF assms(1) not_full_next [OF assms(1) False] assms(2), of v] assms(1,3)
  show ?thesis by (simp add: RingBuffer_Push_eq)
qed


text \<open>The invariant of the buffer with element zero \<open>z\<close>: indices in range, free slots cleared.\<close>

definition ring_ok :: "'a \<Rightarrow> 'a RingBuffer \<Rightarrow> bool" where
  "ring_ok z r \<longleftrightarrow> ring_inv r \<and> ring_clean z r"

lemma ring_okD: "ring_ok z r \<Longrightarrow> ring_inv r" "ring_ok z r \<Longrightarrow> ring_clean z r"
  by (simp_all add: ring_ok_def)

interpretation rbq: fifo "ring_ok z" ring_contents z "RingBuffer_Push z" "RingBuffer_Pop z"
  for z :: 'a
proof unfold_locales
  show "\<exists>q'. RingBuffer_Push z q x = Inr q' \<and> ring_ok z q' \<and> ring_contents q' = ring_contents q @ [x]"
    if "ring_ok z q" for q x
    using Push_correct [OF ring_okD(1) [OF that], of z x] Push_clean [OF ring_okD [OF that]]
    by (auto simp: ring_ok_def)
  show "\<And>q. ring_ok z q \<Longrightarrow> ring_contents q = [] \<Longrightarrow> RingBuffer_Pop z q = Inr (z, False, q)"
    by (rule Pop_empty)
  show "\<exists>q'. RingBuffer_Pop z q = Inr (x, True, q') \<and> ring_ok z q' \<and> ring_contents q' = xs"
    if "ring_ok z q" "ring_contents q = x # xs" for q x xs
  proof -
    from that(2) have "RingBuffer_Len q \<noteq> 0" by (auto simp: length_ring_contents [symmetric])
    with Pop_nonempty [OF ring_okD(1) [OF that(1)] that(2), of z] that(1)
    show ?thesis by (simp add: ring_ok_def ring_drop_inv ring_drop_clean)
  qed
qed

lemma NewRingBuffer_ok [simp]: "ring_ok z (NewRingBuffer z n)"
  by (simp add: ring_ok_def) (auto simp: ring_clean_def NewRingBuffer_def Let_def)

section \<open>Clear and Discard\<close>

lemma zero_slots_ok:
  "\<forall>i \<in> set is. i < length es \<Longrightarrow>
   zero_slots z is es = Inr (map (\<lambda>i. if i \<in> set is then z else es ! i) [0..<length es])"
proof (induction "is" arbitrary: es)
  case Nil
  then show ?case by (simp add: map_nth)
next
  case (Cons i "is")
  then have "zero_slots z (i # is) es = zero_slots z is (es[i := z])"
    by (simp add: slice_set_ok)
  also have "\<dots> = Inr (map (\<lambda>j. if j \<in> set is then z else es[i := z] ! j) [0..<length es])"
    using Cons.prems by (subst Cons.IH) auto
  also have "\<dots> = Inr (map (\<lambda>j. if j \<in> set (i # is) then z else es ! j) [0..<length es])"
    by (auto simp: nth_list_update)
  finally show ?case .
qed

lemma zero_slots_append:
  "zero_slots z (is @ js) es = bnd (zero_slots z is es) (zero_slots z js)"
proof (induction "is" arbitrary: es)
  case Nil
  then show ?case by simp
next
  case (Cons i "is")
  then show ?case by (cases "slice_set es (int i) z") simp_all
qed

lemma Clear_eq:
  "RingBuffer_Clear z r =
   bnd (zero_slots z (ring_slots r) (rb_elements r))
     (\<lambda>es. Inr \<lparr>rb_head = 0, rb_tail = 0, rb_elements = es\<rparr>)"
  by (simp add: RingBuffer_Clear_def ring_slots_def zero_slots_append)

lemma Clear_correct:
  assumes "ring_ok z r"
  shows "RingBuffer_Clear z r =
    Inr \<lparr>rb_head = 0, rb_tail = 0, rb_elements = replicate (length (rb_elements r)) z\<rparr>"
proof -
  note inv = ring_okD [OF assms]
  have "map (\<lambda>i. if i \<in> set (ring_slots r) then z else rb_elements r ! i)
      [0..<length (rb_elements r)] = replicate (length (rb_elements r)) z"
    using inv(2) by (intro nth_equalityI) (auto simp: ring_clean_def)
  then show ?thesis
    using ring_slots_bound [OF inv(1)] by (simp add: Clear_eq zero_slots_ok)
qed

lemma empty_ring_ok:
  "0 < n \<Longrightarrow> ring_ok z \<lparr>rb_head = 0, rb_tail = 0, rb_elements = replicate n z\<rparr>"
  by (simp add: ring_ok_def ring_inv_def ring_clean_def)

lemma dropHeads_correct:
  "ring_ok z r \<Longrightarrow> n \<le> RingBuffer_Len r \<Longrightarrow>
   \<exists>r'. ring_dropHeads z n r = Inr r' \<and> ring_ok z r' \<and> ring_contents r' = drop n (ring_contents r)"
proof (induction n arbitrary: r)
  case 0
  then show ?case by simp
next
  case (Suc n)
  then have len: "RingBuffer_Len r \<noteq> 0" by simp
  note inv = ring_okD [OF Suc.prems(1)]
  note c = ring_drop_contents [OF inv(1) len, of z]
  from c have "Suc (RingBuffer_Len (ring_drop z r)) = RingBuffer_Len r"
    by (metis length_Cons length_ring_contents)
  with Suc.prems Suc.IH [of "ring_drop z r"] c len inv show ?case
    by (auto simp: ring_ok_def ring_dropHead_eq ring_drop_inv ring_drop_clean)
qed

section \<open>Iteration\<close>

fun visit_list :: "('s, 'a) visitor \<Rightarrow> 'a list \<Rightarrow> 's \<Rightarrow> bool \<times> 's \<times> 'a list" where
  "visit_list fn [] s = (True, s, [])"
| "visit_list fn (x # xs) s =
     (let (s', x', continue) = fn s x in
      if continue then (let (c, s'', xs') = visit_list fn xs s' in (c, s'', x' # xs'))
      else (False, s', x' # xs))"

lemma visit_slots_append:
  "visit_slots fn (is @ js) s es =
   bnd (visit_slots fn is s es) (\<lambda>(c, s', es').
     if c then visit_slots fn js s' es' else Inr (False, s', es'))"
proof (induction "is" arbitrary: s es)
  case Nil
  then show ?case by simp
next
  case (Cons i "is")
  then show ?case by (auto simp: slice_get_def Let_def split: prod.splits)
qed

lemma ring_visit_eq:
  "ring_visit fn is js s r =
   bnd (visit_slots fn (is @ js) s (rb_elements r)) (\<lambda>(_, s', es). Inr (s', r\<lparr>rb_elements := es\<rparr>))"
  by (cases "visit_slots fn is s (rb_elements r)")
    (auto simp: ring_visit_def visit_slots_append split: prod.splits)

lemma ForEach_eq:
  "RingBuffer_ForEach fn s r =
   bnd (visit_slots fn (ring_slots r) s (rb_elements r)) (\<lambda>(_, s', es). Inr (s', r\<lparr>rb_elements := es\<rparr>))"
  by (auto simp: RingBuffer_ForEach_def ring_visit_eq ring_slots_def RingBuffer_Len_def)

lemma ForEachReverse_eq:
  "RingBuffer_ForEachReverse fn s r =
   bnd (visit_slots fn (rev (ring_slots r)) s (rb_elements r))
     (\<lambda>(_, s', es). Inr (s', r\<lparr>rb_elements := es\<rparr>))"
  by (auto simp: RingBuffer_ForEachReverse_def ring_visit_eq ring_slots_def RingBuffer_Len_def)

lemma visit_slots_correct:
  "distinct is \<Longrightarrow> \<forall>i \<in> set is. i < length es \<Longrightarrow>
   visit_list fn (map ((!) es) is) s = (c, s', xs') \<Longrightarrow>
   \<exists>es'. visit_slots fn is s es = Inr (c, s', es') \<and> length es' = length es
       \<and> map ((!) es') is = xs' \<and> (\<forall>i. i \<notin> set is \<longrightarrow> es' ! i = es ! i)"
proof (induction "is" arbitrary: s es xs')
  case Nil
  then show ?case by simp
next
  case (Cons i "is")
  obtain s1 x1 b where f: "fn s (es ! i) = (s1, x1, b)" by (cases "fn s (es ! i)")
  from Cons.prems have i: "i < length es" "i \<notin> set is" by auto
  have tail: "map ((!) (es[i := x1])) is = map ((!) es) is"
    using i by (simp add: map_nth_list_update)
  show ?case
  proof (cases b)
    case True
    obtain c1 s2 ys where v: "visit_list fn (map ((!) es) is) s1 = (c1, s2, ys)"
      using prod_cases3 by blast
    with Cons.IH [of "es[i := x1]" s1 ys] Cons.prems tail obtain es' where
      "visit_slots fn is s1 (es[i := x1]) = Inr (c1, s2, es')" "length es' = length es"
      "map ((!) es') is = ys" "\<forall>j. j \<notin> set is \<longrightarrow> es' ! j = es[i := x1] ! j"
      using f True v by (auto split: prod.splits)
    with Cons.prems f True v i show ?thesis by (auto simp: slice_get_ok)
  next
    case False
    with Cons.prems f i tail show ?thesis by (auto simp: slice_get_ok)
  qed
qed

lemma visit_update_slots:
  assumes "length es' = length (rb_elements r)"
  shows "ring_slots (r\<lparr>rb_elements := es'\<rparr>) = ring_slots r"
  using assms by (simp add: ring_slots_def)

lemma visit_update_ok:
  assumes "ring_ok z r" "length es' = length (rb_elements r)"
    and "\<forall>i. i \<notin> set (ring_slots r) \<longrightarrow> es' ! i = rb_elements r ! i"
  shows "ring_ok z (r\<lparr>rb_elements := es'\<rparr>)"
  using assms by (simp add: ring_ok_def ring_clean_def visit_update_slots) (simp add: ring_inv_def)


section \<open>Properties\<close>

text \<open>
  Any sequence of Push and Pop calls on a new ring buffer answers exactly what a FIFO list
  answers (values, order, and the false of an empty Pop), never panics whatever the number of
  growths and wrap-arounds, and ends in a state whose contents are the list's, with every free
  slot holding the zero value.
\<close>

theorem RingBuffer_refines_fifo:
  "\<exists>r'. queue_run (RingBuffer_Push z) (RingBuffer_Pop z) (NewRingBuffer z n) ops
          = Inr (fst (list_run z [] ops), r')
      \<and> ring_ok z r' \<and> ring_contents r' = snd (list_run z [] ops)"
  using rbq.run_refines_list [of z "NewRingBuffer z n" ops] by simp

text \<open>
  ForEach hands the elements to the visitor from the oldest to the newest and
  ForEachReverse from the newest to the oldest, each stopping after the first false answer; what
  the visitor writes through its pointer lands in the visited elements and nowhere else, whatever
  the position of the head in the array.
\<close>

theorem RingBuffer_iteration_order:
  assumes "ring_ok z r"
  shows "\<exists>r1 r2.
      RingBuffer_ForEach fn s r = Inr (fst (snd (visit_list fn (ring_contents r) s)), r1)
    \<and> ring_contents r1 = snd (snd (visit_list fn (ring_contents r) s)) \<and> ring_ok z r1
    \<and> RingBuffer_ForEachReverse fn s r =
        Inr (fst (snd (visit_list fn (rev (ring_contents r)) s)), r2)
    \<and> ring_contents r2 = rev (snd (snd (visit_list fn (rev (ring_contents r)) s)))
    \<and> ring_ok z r2"
proof -
  note inv = ring_okD [OF assms]
  have d: "distinct (ring_slots r)" "\<forall>i \<in> set (ring_slots r). i < length (rb_elements r)"
    using distinct_ring_slots ring_slots_bound [OF inv(1)] by auto
  obtain c s1 xs where v: "visit_list fn (map ((!) (rb_elements r)) (ring_slots r)) s = (c, s1, xs)"
    using prod_cases3 by blast
  obtain c' s2 ys where v': "visit_list fn (map ((!) (rb_elements r)) (rev (ring_slots r))) s
      = (c', s2, ys)" using prod_cases3 by blast
  from visit_slots_correct [OF d v] obtain es1 where e1:
    "visit_slots fn (ring_slots r) s (rb_elements r) = Inr (c, s1, es1)"
    "length es1 = length (rb_elements r)" "map ((!) es1) (ring_slots r) = xs"
    "\<forall>i. i \<notin> set (ring_slots r) \<longrightarrow> es1 ! i = rb_elements r ! i" by blast
  from visit_slots_correct [OF _ _ v'] d obtain es2 where e2:
    "visit_slots fn (rev (ring_slots r)) s (rb_elements r) = Inr (c', s2, es2)"
    "length es2 = length (rb_elements r)" "map ((!) es2) (rev (ring_slots r)) = ys"
    "\<forall>i. i \<notin> set (ring_slots r) \<longrightarrow> es2 ! i = rb_elements r ! i" by auto
  have "ring_contents (r\<lparr>rb_elements := es1\<rparr>) = xs"
    using e1 by (simp add: ring_contents_def visit_update_slots)
  moreover have "ring_contents (r\<lparr>rb_elements := es2\<rparr>) = rev ys"
    using e2(3) by (simp add: ring_contents_def visit_update_slots [OF e2(2)] rev_map flip: e2(3))
  ultimately show ?thesis
    using v v' e1 e2 visit_update_ok [OF assms e1(2,4)] visit_update_ok [OF assms e2(2,4)]
    by (simp add: ForEach_eq ForEachReverse_eq ring_contents_def [of r] rev_map)
qed

text \<open>A wrapped buffer of three slots, oldest element 5 in the last slot.\<close>

definition wrapped_ring :: "int RingBuffer" where
  "wrapped_ring = \<lparr>rb_head = 2, rb_tail = 1, rb_elements = [7, 0, 5]\<rparr>"

lemma wrapped_ring_ok: "ring_ok 0 wrapped_ring" and wrapped_ring_contents: "ring_contents wrapped_ring = [5, 7]"
  by (auto simp: wrapped_ring_def ring_ok_def ring_inv_def ring_clean_def ring_slots_def
      ring_contents_def less_Suc_eq numeral_3_eq_3)

theorem RingBuffer_iteration_order_witness:
  "\<exists>r1 r2. RingBuffer_ForEach (\<lambda>s x. (s @ [x], x + 1, True)) [] wrapped_ring = Inr ([5, 7], r1)
     \<and> ring_contents r1 = [6, 8] \<and> ring_ok 0 r1
     \<and> RingBuffer_ForEachReverse (\<lambda>s x. (s @ [x], x + 1, True)) [] wrapped_ring = Inr ([7, 5], r2)
     \<and> ring_contents r2 = [6, 8] \<and> ring_ok 0 r2"
  using RingBuffer_iteration_order [OF wrapped_ring_ok, of "\<lambda>s x. (s @ [x], x + 1, True)" "[]"]
  by (simp add: wrapped_ring_contents)

text \<open>
  Discard removes the \<open>min n (Len r)\<close> oldest elements and reports that number for a
  non-negative argument, keeps the invariant (the slots it frees are cleared), and leaves a
  completely emptied buffer reset to index 0.
\<close>

theorem RingBuffer_Discard_correct:
  assumes "ring_ok z r" and "0 \<le> n"
  shows "\<exists>r'. RingBuffer_Discard z r n = Inr (min n (int (RingBuffer_Len r)), r')
      \<and> ring_ok z r' \<and> ring_contents r' = drop (nat n) (ring_contents r)
      \<and> (int (RingBuffer_Len r) \<le> n \<longrightarrow> rb_head r' = 0 \<and> rb_tail r' = 0)"
proof (cases "int (RingBuffer_Len r) \<le> n")
  case True
  let ?r' = "\<lparr>rb_head = 0, rb_tail = 0, rb_elements = replicate (length (rb_elements r)) z\<rparr>"
  have "ring_contents ?r' = []" by (simp add: ring_contents_def ring_slots_def)
  moreover have "ring_ok z ?r'"
    using ring_okD(1) [OF assms(1)] by (intro empty_ring_ok) (auto simp: ring_inv_def)
  moreover have "drop (nat n) (ring_contents r) = []"
    using True by (simp add: length_ring_contents)
  ultimately show ?thesis
    using True by (simp add: RingBuffer_Discard_def Let_def Clear_correct [OF assms(1)])
next
  case False
  with assms(2) have "nat n \<le> RingBuffer_Len r" by linarith
  from dropHeads_correct [OF assms(1) this] False assms(2) show ?thesis
    by (auto simp: RingBuffer_Discard_def Let_def min_def)
qed

theorem RingBuffer_Discard_correct_witness:
  "\<exists>r'. RingBuffer_Discard 0 wrapped_ring 1 = Inr (1, r')
     \<and> ring_ok 0 r' \<and> ring_contents r' = [7]"
  using RingBuffer_Discard_correct [OF wrapped_ring_ok, of 1] wrapped_ring_contents
    length_ring_contents [of wrapped_ring]
  by auto

end
