(* ===== verification/BytesQueue.thy ===== *)
theory BytesQueue
  imports Prelude
begin

text \<open>
  The byte-array FIFO of \<^verbatim>\<open>go/container/bytesqyeye/bytes_queue.go\<close>: entries stored as blocks
  \<^verbatim>\<open>[uvarint block size][entry]\<close> in one array that wraps around and grows.  Indices and sizes are
  never negative in the code (they start at 1 and grow by block sizes), so the fields are natural
  numbers; comparisons of differences are made on integers, as Go makes them.  The slices that
  \<^verbatim>\<open>Pop\<close>, \<^verbatim>\<open>Peek\<close> and \<^verbatim>\<open>Get\<close> return alias the array in Go; here they are copies.  The timing message
  printed in verbose mode is not modelled.
\<close>

type_synonym byte = "8 word"

section \<open>The uvarint encoding of encoding/binary\<close>

text \<open>
  Seven bits per byte, least significant first, bit 7 set on every byte but the last.
  \<^verbatim>\<open>PutUvarint\<close> panics when the buffer is too short; \<^verbatim>\<open>Uvarint\<close> answers the value and the number
  of bytes read, \<open>(0, 0)\<close> for a short buffer and \<open>(0, -(i+1))\<close> for an overflow of 64 bits.
\<close>

fun uvarint_bytes :: "nat \<Rightarrow> byte list" where
  "uvarint_bytes x =
     (if x < 128 then [word_of_nat x] else word_of_nat (128 + x mod 128) # uvarint_bytes (x div 128))"

declare uvarint_bytes.simps [simp del]

definition PutUvarint :: "byte list \<Rightarrow> nat \<Rightarrow> (byte list \<times> nat) go" where
  "PutUvarint buf x =
     (let bs = uvarint_bytes x in
      if length buf < length bs then Inl IndexOutOfRange
      else Inr (bs @ drop (length bs) buf, length bs))"

fun uvarint_loop :: "byte list \<Rightarrow> nat \<Rightarrow> nat \<Rightarrow> nat \<Rightarrow> nat \<times> int" where
  "uvarint_loop [] i x s = (0, 0)"
| "uvarint_loop (b # bs) i x s =
     (if i = 10 then (0, - (int i + 1))
      else if unat b < 128
           then (if i = 9 \<and> 1 < unat b then (0, - (int i + 1)) else (x + unat b * 2 ^ s, int i + 1))
           else uvarint_loop bs (i + 1) (x + (unat b mod 128) * 2 ^ s) (s + 7))"

definition Uvarint :: "byte list \<Rightarrow> nat \<times> int" where
  "Uvarint buf = uvarint_loop buf 0 0 0"

text \<open>\<^verbatim>\<open>int(x)\<close> of a \<^verbatim>\<open>uint64\<close> reads the top bit as the sign.\<close>

definition int_of_uint64 :: "nat \<Rightarrow> int" where
  "int_of_uint64 x = (if x < 2 ^ 63 then int x else int x - 2 ^ 64)"

section \<open>State\<close>

definition minimumHeaderSize :: nat where "minimumHeaderSize = 17"
definition leftMarginIndex :: nat where "leftMarginIndex = 1"

datatype bq_error = errEmptyQueue | errInvalidIndex | errIndexOutOfBounds | errFullQueue

record BytesQueue =
  bq_full :: bool
  bq_array :: "byte list"
  bq_capacity :: nat
  bq_maxCapacity :: int
  bq_head :: nat
  bq_tail :: nat
  bq_count :: nat
  bq_rightMargin :: nat
  bq_headerBuffer :: "byte list"
  bq_verbose :: bool

definition getNeededSize :: "nat \<Rightarrow> nat" where
  "getNeededSize len =
     (let header =
        (if len < 127 then 1
         else if len < 16382 then 2
         else if len < 2097149 then 3
         else if len < 268435452 then 4
         else 5)
      in header + len)"

definition NewBytesQueue :: "int \<Rightarrow> int \<Rightarrow> bool \<Rightarrow> BytesQueue go" where
  "NewBytesQueue capacity maxCapacity verbose =
     (if capacity < 0 then Inl (PanicMsg ''makeslice: len out of range'')
      else Inr \<lparr>bq_full = False, bq_array = replicate (nat capacity) 0,
                bq_capacity = nat capacity, bq_maxCapacity = maxCapacity,
                bq_head = leftMarginIndex, bq_tail = leftMarginIndex, bq_count = 0,
                bq_rightMargin = leftMarginIndex, bq_headerBuffer = replicate 5 0,
                bq_verbose = verbose\<rparr>)"

definition BytesQueue_Reset :: "BytesQueue \<Rightarrow> BytesQueue" where
  "BytesQueue_Reset q =
     q\<lparr>bq_tail := leftMarginIndex, bq_head := leftMarginIndex, bq_rightMargin := leftMarginIndex,
       bq_count := 0, bq_full := False\<rparr>"

definition BytesQueue_Capacity :: "BytesQueue \<Rightarrow> nat" where
  "BytesQueue_Capacity q = bq_capacity q"

definition BytesQueue_Len :: "BytesQueue \<Rightarrow> nat" where
  "BytesQueue_Len q = bq_count q"

section \<open>Writing\<close>

definition BytesQueue_copy :: "BytesQueue \<Rightarrow> byte list \<Rightarrow> int \<Rightarrow> BytesQueue go" where
  "BytesQueue_copy q data len =
     bnd (slice_range (bq_array q) (int (bq_tail q)) (int (length (bq_array q)))) (\<lambda>dst.
     bnd (slice_range data 0 len) (\<lambda>src.
       Inr (q\<lparr>bq_array := copy_at (bq_array q) (bq_tail q) src,
              bq_tail := bq_tail q + min (length dst) (length src)\<rparr>)))"

definition BytesQueue_push :: "BytesQueue \<Rightarrow> byte list \<Rightarrow> nat \<Rightarrow> BytesQueue go" where
  "BytesQueue_push q data len =
     bnd (PutUvarint (bq_headerBuffer q) len) (\<lambda>(hb, headerEntrySize).
     bnd (BytesQueue_copy (q\<lparr>bq_headerBuffer := hb\<rparr>) hb (int headerEntrySize)) (\<lambda>q1.
     bnd (BytesQueue_copy q1 data (int len - int headerEntrySize)) (\<lambda>q2.
       let q3 = (if bq_tail q2 > bq_head q2 then q2\<lparr>bq_rightMargin := bq_tail q2\<rparr> else q2);
           q4 = (if bq_tail q3 = bq_head q3 then q3\<lparr>bq_full := True\<rparr> else q3)
       in Inr (q4\<lparr>bq_count := bq_count q4 + 1\<rparr>))))"

definition canInsertAfterTail :: "BytesQueue \<Rightarrow> nat \<Rightarrow> bool" where
  "canInsertAfterTail q need =
     (if bq_full q then False
      else if bq_tail q \<ge> bq_head q then int (bq_capacity q) - int (bq_tail q) \<ge> int need
      else int (bq_head q) - int (bq_tail q) = int need
         \<or> int (bq_head q) - int (bq_tail q) \<ge> int need + int minimumHeaderSize)"

definition canInsertBeforeHead :: "BytesQueue \<Rightarrow> nat \<Rightarrow> bool" where
  "canInsertBeforeHead q need =
     (if bq_full q then False
      else if bq_tail q \<ge> bq_head q
           then int (bq_head q) - int leftMarginIndex = int need
              \<or> int (bq_head q) - int leftMarginIndex \<ge> int need + int minimumHeaderSize
      else int (bq_head q) - int (bq_tail q) = int need
         \<or> int (bq_head q) - int (bq_tail q) \<ge> int need + int minimumHeaderSize)"

definition bq_newCapacity :: "BytesQueue \<Rightarrow> nat \<Rightarrow> nat" where
  "bq_newCapacity q minimum =
     (let c1 = (if bq_capacity q < minimum then bq_capacity q + minimum else bq_capacity q);
          c2 = c1 * 2
      in if bq_maxCapacity q > 0 \<and> int c2 > bq_maxCapacity q then nat (bq_maxCapacity q) else c2)"

definition allocateAdditionalMemory :: "BytesQueue \<Rightarrow> nat \<Rightarrow> BytesQueue go" where
  "allocateAdditionalMemory q minimum =
     (let oldArray = bq_array q;
          c = bq_newCapacity q minimum;
          q1 = q\<lparr>bq_capacity := c, bq_array := replicate c 0\<rparr>
      in bnd (if leftMarginIndex \<noteq> bq_rightMargin q1
              then bnd (slice_range oldArray 0 (int (bq_rightMargin q1))) (\<lambda>src.
                     let q2 = q1\<lparr>bq_array := slice_copy (bq_array q1) src\<rparr> in
                     if bq_tail q2 \<le> bq_head q2
                     then bnd (if bq_tail q2 \<noteq> bq_head q2
                               then BytesQueue_push q2 (replicate (bq_head q2 - bq_tail q2) 0)
                                      (bq_head q2 - bq_tail q2)
                               else Inr q2)
                            (\<lambda>q3. Inr (q3\<lparr>bq_head := leftMarginIndex, bq_tail := bq_rightMargin q3\<rparr>))
                     else Inr q2)
              else Inr q1)
           (\<lambda>q4. Inr (q4\<lparr>bq_full := False\<rparr>)))"

text \<open>\<^verbatim>\<open>Push\<close> answers the index of the entry, or \<^verbatim>\<open>errFullQueue\<close> (with \<^verbatim>\<open>-1\<close> in Go).\<close>

definition BytesQueue_Push :: "BytesQueue \<Rightarrow> byte list \<Rightarrow> ((bq_error + nat) \<times> BytesQueue) go" where
  "BytesQueue_Push q entry =
     (let neededSize = getNeededSize (length entry);
          store = (\<lambda>q1. let index = bq_tail q1 in
                     bnd (BytesQueue_push q1 entry neededSize) (\<lambda>q2. Inr (Inr index, q2)))
      in if \<not> canInsertAfterTail q neededSize
         then (if canInsertBeforeHead q neededSize then store (q\<lparr>bq_tail := leftMarginIndex\<rparr>)
               else if int (bq_capacity q) + int neededSize \<ge> bq_maxCapacity q \<and> bq_maxCapacity q > 0
               then Inr (Inl errFullQueue, q)
               else bnd (allocateAdditionalMemory q neededSize) store)
         else store q)"

section \<open>Reading\<close>

definition peekCheckErr :: "BytesQueue \<Rightarrow> int \<Rightarrow> bq_error option" where
  "peekCheckErr q index =
     (if bq_count q = 0 then Some errEmptyQueue
      else if index \<le> 0 then Some errInvalidIndex
      else if index \<ge> int (length (bq_array q)) then Some errIndexOutOfBounds
      else None)"

definition BytesQueue_peek :: "BytesQueue \<Rightarrow> int \<Rightarrow> (bq_error + byte list \<times> int) go" where
  "BytesQueue_peek q index =
     (case peekCheckErr q index of
        Some e \<Rightarrow> Inr (Inl e)
      | None \<Rightarrow>
          bnd (slice_range (bq_array q) index (int (length (bq_array q)))) (\<lambda>rest.
            let (blockSize, n) = Uvarint rest in
            bnd (slice_range (bq_array q) (index + n) (index + int_of_uint64 blockSize)) (\<lambda>data.
              Inr (Inr (data, int_of_uint64 blockSize)))))"

definition BytesQueue_Pop :: "BytesQueue \<Rightarrow> ((bq_error + byte list) \<times> BytesQueue) go" where
  "BytesQueue_Pop q =
     bnd (BytesQueue_peek q (int (bq_head q))) (\<lambda>r.
       case r of
         Inl e \<Rightarrow> Inr (Inl e, q)
       | Inr (data, blockSize) \<Rightarrow>
           let q1 = q\<lparr>bq_head := nat (int (bq_head q) + blockSize), bq_count := bq_count q - 1\<rparr>;
               q2 = (if bq_head q1 = bq_rightMargin q1
                     then let q1' = q1\<lparr>bq_head := leftMarginIndex\<rparr>;
                              q1'' = (if bq_tail q1' = bq_rightMargin q1'
                                      then q1'\<lparr>bq_tail := leftMarginIndex\<rparr> else q1')
                          in q1''\<lparr>bq_rightMargin := bq_tail q1''\<rparr>
                     else q1)
           in Inr (Inr data, q2\<lparr>bq_full := False\<rparr>))"

definition BytesQueue_Peek :: "BytesQueue \<Rightarrow> (bq_error + byte list) go" where
  "BytesQueue_Peek q =
     bnd (BytesQueue_peek q (int (bq_head q))) (\<lambda>r. Inr (map_sum id fst r))"

definition BytesQueue_Get :: "BytesQueue \<Rightarrow> int \<Rightarrow> (bq_error + byte list) go" where
  "BytesQueue_Get q index = bnd (BytesQueue_peek q index) (\<lambda>r. Inr (map_sum id fst r))"

definition BytesQueue_CheckGet :: "BytesQueue \<Rightarrow> int \<Rightarrow> bq_error option" where
  "BytesQueue_CheckGet q index = peekCheckErr q index"

section \<open>Uvarint round trip\<close>

lemma uvarint_bytes_nonempty: "uvarint_bytes x \<noteq> []"
  by (simp add: uvarint_bytes.simps [of x])

lemma length_uvarint_pos [simp]: "0 < length (uvarint_bytes x)"
  using uvarint_bytes_nonempty by simp

lemma length_uvarint_bound: "x < 128 ^ Suc k \<Longrightarrow> length (uvarint_bytes x) \<le> Suc k"
proof (induction k arbitrary: x)
  case 0
  then show ?case by (simp add: uvarint_bytes.simps [of x])
next
  case (Suc k)
  show ?case
  proof (cases "x < 128")
    case True
    then show ?thesis by (simp add: uvarint_bytes.simps [of x])
  next
    case False
    have "x div 128 < 128 ^ Suc k" using Suc.prems by (simp add: less_mult_imp_div_less mult.commute)
    with Suc.IH [of "x div 128"] False show ?thesis by (simp add: uvarint_bytes.simps [of x])
  qed
qed

lemma length_uvarint_lower: "128 ^ k \<le> x \<Longrightarrow> Suc k \<le> length (uvarint_bytes x)"
proof (induction k arbitrary: x)
  case 0
  have "uvarint_bytes x \<noteq> []" by (rule uvarint_bytes_nonempty)
  then show ?case by (cases "uvarint_bytes x") simp_all
next
  case (Suc k)
  have "128 \<le> x" using Suc.prems one_le_power [of "128 :: nat" k] by (simp add: le_trans [OF _ Suc.prems])
  moreover have "128 ^ k \<le> x div 128"
    using Suc.prems by (metis div_le_mono nonzero_mult_div_cancel_left power_Suc zero_neq_numeral)
  ultimately show ?case using Suc.IH [of "x div 128"] by (simp add: uvarint_bytes.simps [of x])
qed

lemma unat_word8: "x < 256 \<Longrightarrow> unat (word_of_nat x :: 8 word) = x"
  by (simp add: unat_of_nat)

lemma uvarint_loop_bytes:
  "length (uvarint_bytes n) + i \<le> 9 \<Longrightarrow>
   uvarint_loop (uvarint_bytes n @ rest) i x s = (x + n * 2 ^ s, int (i + length (uvarint_bytes n)))"
proof (induction n arbitrary: i x s rule: uvarint_bytes.induct)
  case (1 n)
  show ?case
  proof (cases "n < 128")
    case True
    with "1.prems" show ?thesis by (simp add: uvarint_bytes.simps [of n] unat_word8)
  next
    case False
    let ?t = "uvarint_bytes (n div 128)"
    have len: "length (uvarint_bytes n) = Suc (length ?t)"
      using False by (simp add: uvarint_bytes.simps [of n])
    have "n * 2 ^ s = (n mod 128 + 128 * (n div 128)) * 2 ^ s" by simp
    then have val: "x + n * 2 ^ s = x + n mod 128 * 2 ^ s + n div 128 * 2 ^ (s + 7)"
      by (simp only: power_add distrib_right) (simp add: mult.assoc mult.left_commute)
    have byte: "unat (word_of_nat (128 + n mod 128) :: 8 word) = 128 + n mod 128"
      by (rule unat_word8) simp
    have "uvarint_loop (uvarint_bytes n @ rest) i x s =
        uvarint_loop (?t @ rest) (i + 1) (x + n mod 128 * 2 ^ s) (s + 7)"
      using False "1.prems" len by (simp add: uvarint_bytes.simps [of n] byte del: of_nat_add)
    also have "\<dots> = (x + n mod 128 * 2 ^ s + n div 128 * 2 ^ (s + 7), int (i + 1 + length ?t))"
      by (rule "1.IH") (use False "1.prems" len in simp_all)
    finally show ?thesis using len val by simp
  qed
qed

lemma Uvarint_bytes:
  "n < 2 ^ 35 \<Longrightarrow> Uvarint (uvarint_bytes n @ rest) = (n, int (length (uvarint_bytes n)))"
  using length_uvarint_bound [of n 4] uvarint_loop_bytes [of n 0 rest 0 0] by (simp add: Uvarint_def)

lemma length_uvarint_5: "n < 2 ^ 35 \<Longrightarrow> length (uvarint_bytes n) \<le> 5"
  using length_uvarint_bound [of n 4] by simp

section \<open>The blocks of the array\<close>

text \<open>
  \<open>layout arr i j bs\<close>: the bytes \<open>i .. j-1\<close> are the blocks \<open>bs\<close>, each a block size and an entry.
  A queue represents its entries either in one run \<open>head .. tail\<close> or, once the tail has wrapped,
  as the run \<open>head .. rightMargin\<close> followed by the run \<open>1 .. tail\<close>.
\<close>

fun layout :: "byte list \<Rightarrow> nat \<Rightarrow> nat \<Rightarrow> (nat \<times> byte list) list \<Rightarrow> bool" where
  "layout arr i j [] = (i = j)"
| "layout arr i j ((n, e) # bs) =
     (n < 2 ^ 35 \<and> i + n \<le> length arr \<and> n = length (uvarint_bytes n) + length e
      \<and> take n (drop i arr) = uvarint_bytes n @ e \<and> layout arr (i + n) j bs)"

definition bq_wf :: "BytesQueue \<Rightarrow> bool" where
  "bq_wf q \<longleftrightarrow> bq_capacity q = length (bq_array q) \<and> 5 \<le> length (bq_headerBuffer q) \<and> 1 \<le> bq_head q"

definition bq_linear :: "BytesQueue \<Rightarrow> (nat \<times> byte list) list \<Rightarrow> bool" where
  "bq_linear q bs \<longleftrightarrow>
     bq_wf q \<and> \<not> bq_full q \<and> bq_head q \<le> bq_tail q \<and> bq_rightMargin q = bq_tail q
     \<and> (bs = [] \<longrightarrow> bq_tail q = leftMarginIndex)
     \<and> layout (bq_array q) (bq_head q) (bq_tail q) bs \<and> bq_count q = length bs"

definition bq_wrapped :: "BytesQueue \<Rightarrow> (nat \<times> byte list) list \<Rightarrow> (nat \<times> byte list) list \<Rightarrow> bool" where
  "bq_wrapped q bs1 bs2 \<longleftrightarrow>
     bq_wf q \<and> bs1 \<noteq> [] \<and> bs2 \<noteq> [] \<and> bq_tail q \<le> bq_head q \<and> bq_full q = (bq_tail q = bq_head q)
     \<and> layout (bq_array q) (bq_head q) (bq_rightMargin q) bs1
     \<and> layout (bq_array q) leftMarginIndex (bq_tail q) bs2
     \<and> bq_count q = length bs1 + length bs2"

text \<open>The entries with the indices at which they are stored, in queue order.\<close>

fun positions :: "nat \<Rightarrow> (nat \<times> byte list) list \<Rightarrow> (nat \<times> byte list) list" where
  "positions i [] = []"
| "positions i ((n, e) # bs) = (i, e) # positions (i + n) bs"

definition bq_rep :: "BytesQueue \<Rightarrow> (nat \<times> byte list) list \<Rightarrow> bool" where
  "bq_rep q ies \<longleftrightarrow> (\<exists>bs. bq_linear q bs \<and> ies = positions (bq_head q) bs)
     \<or> (\<exists>bs1 bs2. bq_wrapped q bs1 bs2
          \<and> ies = positions (bq_head q) bs1 @ positions leftMarginIndex bs2)"

lemma block_pos: "n = length (uvarint_bytes n) + m \<Longrightarrow> 0 < n"
  by (metis add_pos_nonneg length_uvarint_pos zero_le)

lemma layout_le: "layout arr i j bs \<Longrightarrow> i \<le> j"
  by (induction arr i j bs rule: layout.induct) auto

lemma layout_strict: "layout arr i j bs \<Longrightarrow> bs \<noteq> [] \<Longrightarrow> i < j \<and> j \<le> length arr"
proof (induction arr i j bs rule: layout.induct)
  case (2 arr i j n e bs)
  have "0 < n" by (rule block_pos [of n "length e"]) (use "2.prems" in simp)
  with 2 show ?case by (cases bs) auto
qed simp

lemma layout_append:
  "layout arr i k bs1 \<Longrightarrow> layout arr k j bs2 \<Longrightarrow> layout arr i j (bs1 @ bs2)"
  by (induction arr i k bs1 rule: layout.induct) auto

lemma layout_cong:
  assumes "layout arr i j bs"
    and "\<And>k. i \<le> k \<Longrightarrow> k < j \<Longrightarrow> k < length arr' \<and> arr' ! k = arr ! k"
  shows "layout arr' i j bs"
  using assms
proof (induction arr i j bs rule: layout.induct)
  case (2 arr i j n e bs)
  have rest: "layout arr (i + n) j bs" using "2.prems"(1) by simp
  have le: "i + n \<le> j" by (rule layout_le [OF rest])
  have pos: "0 < n" by (rule block_pos [of n "length e"]) (use "2.prems"(1) in simp)
  have len: "i + n \<le> length arr'"
    using "2.prems"(2) [of "i + n - 1"] le pos by linarith
  have lenarr: "i + n \<le> length arr" using "2.prems"(1) by simp
  have "take n (drop i arr') = take n (drop i arr)"
    by (rule nth_equalityI) (use "2.prems"(2) le len lenarr in auto)
  moreover have "layout arr' (i + n) j bs"
    by (rule "2.IH" [OF rest]) (use "2.prems"(2) in auto)
  ultimately show ?case using "2.prems"(1) len by simp
qed simp

lemma nth_copy_at:
  "t + length src \<le> length arr \<Longrightarrow> k < length arr \<Longrightarrow>
   copy_at arr t src ! k = (if t \<le> k \<and> k < t + length src then src ! (k - t) else arr ! k)"
  by (auto simp: copy_at_fits nth_append min_def)

lemma copy_at_append:
  assumes "t + length u + length d \<le> length arr"
  shows "copy_at (copy_at arr t u) (t + length u) d = copy_at arr t (u @ d)"
  by (rule nth_equalityI) (use assms in \<open>auto simp: nth_copy_at nth_append\<close>)

lemma layout_keep:
  "layout arr i j bs \<Longrightarrow> t + length src \<le> length arr \<Longrightarrow> bs \<noteq> [] \<longrightarrow> j \<le> t \<or> t + length src \<le> i \<Longrightarrow>
   layout (copy_at arr t src) i j bs"
  by (cases "bs = []")
    (simp, rule layout_cong, assumption, use layout_strict in \<open>fastforce simp: nth_copy_at\<close>)

lemma layout_new_block:
  "n = length (uvarint_bytes n) + length d \<Longrightarrow> n < 2 ^ 35 \<Longrightarrow> t + n \<le> length arr \<Longrightarrow>
   layout (copy_at arr t (uvarint_bytes n @ d)) t (t + n) [(n, d)]"
  by (simp add: copy_at_fits)

lemma push_ok:
  assumes len: "n = length (uvarint_bytes n) + m" and m: "m \<le> length data" and n: "n < 2 ^ 35"
    and fit: "bq_tail q + n \<le> length (bq_array q)" and hb: "5 \<le> length (bq_headerBuffer q)"
  shows "BytesQueue_push q data n = Inr (q
      \<lparr>bq_full := (bq_full q \<or> bq_tail q + n = bq_head q),
       bq_array := copy_at (bq_array q) (bq_tail q) (uvarint_bytes n @ take m data),
       bq_tail := bq_tail q + n, bq_count := bq_count q + 1,
       bq_rightMargin := (if bq_head q < bq_tail q + n then bq_tail q + n else bq_rightMargin q),
       bq_headerBuffer := uvarint_bytes n @ drop (length (uvarint_bytes n)) (bq_headerBuffer q)\<rparr>)"
proof -
  let ?u = "uvarint_bytes n" and ?t = "bq_tail q" and ?arr = "bq_array q"
  have u5: "length ?u \<le> length (bq_headerBuffer q)" using length_uvarint_5 [OF n] hb by simp
  have put: "PutUvarint (bq_headerBuffer q) n =
      Inr (?u @ drop (length ?u) (bq_headerBuffer q), length ?u)"
    using u5 by (simp add: PutUvarint_def Let_def)
  have fu: "?t + length ?u + m \<le> length ?arr" using fit len by simp
  have c1: "BytesQueue_copy (q\<lparr>bq_headerBuffer := hb'\<rparr>) (?u @ rest) (int (length ?u)) =
      Inr (q\<lparr>bq_headerBuffer := hb', bq_array := copy_at ?arr ?t ?u, bq_tail := ?t + length ?u\<rparr>)"
    for hb' rest
    using fu slice_range_ok [of 0 "length ?u" "?u @ rest"]
    by (simp add: BytesQueue_copy_def slice_range_ok)
  have d: "int n - int (length ?u) = int m" using len by linarith
  have c2: "BytesQueue_copy (q\<lparr>bq_headerBuffer := hb', bq_array := copy_at ?arr ?t ?u,
        bq_tail := ?t + length ?u\<rparr>) data (int m) =
      Inr (q\<lparr>bq_headerBuffer := hb', bq_array := copy_at ?arr ?t (?u @ take m data), bq_tail := ?t + n\<rparr>)"
    for hb'
    using fu slice_range_ok [of 0 m data] m len [symmetric]
      slice_range_ok [of "?t + length ?u" "length ?arr" "copy_at ?arr ?t ?u"]
    by (simp add: BytesQueue_copy_def copy_at_append min_absorb2 add.assoc)
  show ?thesis
    by (simp only: BytesQueue_push_def put bnd.simps prod.case c1 c2 d)
      (auto simp: Let_def)
qed

lemma peek_block:
  assumes lay: "layout (bq_array q) i j ((n, e) # bs)" and cnt: "bq_count q \<noteq> 0" and i: "1 \<le> i"
  shows "BytesQueue_peek q (int i) = Inr (Inr (e, int n))"
proof -
  let ?u = "uvarint_bytes n" and ?arr = "bq_array q"
  from lay have n: "n < 2 ^ 35" and le: "i + n \<le> length ?arr"
    and len: "n = length ?u + length e" and blk: "take n (drop i ?arr) = ?u @ e" by auto
  have pos: "0 < n" by (rule block_pos [OF len])
  have split: "drop i ?arr = ?u @ e @ drop (i + n) ?arr"
    using blk append_take_drop_id [of n "drop i ?arr"] by (simp add: add.commute)
  have iu: "int_of_uint64 n = int n" using n by (simp add: int_of_uint64_def)
  have chk: "peekCheckErr q (int i) = None" using cnt i le pos by (simp add: peekCheckErr_def)
  have r1: "slice_range ?arr (int i) (int (length ?arr)) = Inr (?u @ e @ drop (i + n) ?arr)"
    unfolding split [symmetric] using le slice_range_ok [of i "length ?arr" ?arr] by simp
  have uv: "Uvarint (?u @ e @ drop (i + n) ?arr) = (n, int (length ?u))"
    by (rule Uvarint_bytes [OF n])
  have "drop (i + length ?u) ?arr = drop (length ?u) (drop i ?arr)" by (simp add: add.commute)
  then have "take (length e) (drop (i + length ?u) ?arr) = e" using split by simp
  moreover have "i + n - (i + length ?u) = length e" using len by simp
  ultimately have r2: "slice_range ?arr (int i + int (length ?u)) (int i + int n) = Inr e"
    using le len slice_range_ok [of "i + length ?u" "i + n" ?arr] by simp
  show ?thesis
    by (simp add: BytesQueue_peek_def chk r1 uv iu r2)
qed

lemma positions_append:
  "layout arr i k bs1 \<Longrightarrow> positions i (bs1 @ bs2) = positions i bs1 @ positions k bs2"
  by (induction arr i k bs1 rule: layout.induct) auto

lemma positions_eq_Nil [simp]: "positions i bs = [] \<longleftrightarrow> bs = []"
  by (cases bs) auto

lemma positions_eq_Cons:
  "positions i bs = (k, e) # ies \<longleftrightarrow> (\<exists>n bs'. bs = (n, e) # bs' \<and> k = i \<and> ies = positions (i + n) bs')"
  by (cases bs) auto

lemma length_positions [simp]: "length (positions i bs) = length bs"
  by (induction i bs rule: positions.induct) auto

lemma layout_at:
  "layout arr i j bs \<Longrightarrow> (k, e) \<in> set (positions i bs) \<Longrightarrow> 
   \<exists>n bs'. i \<le> k \<and> layout arr k j ((n, e) # bs')"
proof (induction arr i j bs rule: layout.induct)
  case (2 arr i j n e' bs)
  show ?case
  proof (cases "(k, e) = (i, e')")
    case True
    with "2.prems" show ?thesis by (intro exI [of _ n] exI [of _ bs]) simp
  next
    case False
    with "2.prems" have "layout arr (i + n) j bs" "(k, e) \<in> set (positions (i + n) bs)" by auto
    from "2.IH" [OF this] show ?thesis by (meson add_leD1)
  qed
qed simp

section \<open>Block sizes\<close>

lemma length_uvarint_le: "0 < n \<Longrightarrow> length (uvarint_bytes n) \<le> n"
proof (induction n rule: uvarint_bytes.induct)
  case (1 n)
  show ?case
  proof (cases "n < 128")
    case True
    with "1.prems" show ?thesis by (simp add: uvarint_bytes.simps [of n])
  next
    case False
    then have "length (uvarint_bytes (n div 128)) \<le> n div 128" by (intro "1.IH") auto
    moreover have "n div 128 < n" using False by simp
    ultimately show ?thesis using False by (simp add: uvarint_bytes.simps [of n])
  qed
qed

lemma length_uvarint_eq:
  "128 ^ k \<le> n \<Longrightarrow> n < 128 ^ Suc k \<Longrightarrow> length (uvarint_bytes n) = Suc k"
  using length_uvarint_lower [of k n] length_uvarint_bound [of n k] by simp

lemma getNeededSize_uvarint:
  assumes "len + 5 < 2 ^ 35"
  shows "getNeededSize len = length (uvarint_bytes (getNeededSize len)) + len"
    and "getNeededSize len < 2 ^ 35"
proof -
  consider "len < 127" | "127 \<le> len" "len < 16382" | "16382 \<le> len" "len < 2097149"
    | "2097149 \<le> len" "len < 268435452" | "268435452 \<le> len" by linarith
  then show "getNeededSize len = length (uvarint_bytes (getNeededSize len)) + len"
  proof cases
    case 1 then show ?thesis
      using length_uvarint_eq [of 0 "1 + len"] by (simp add: getNeededSize_def)
  next
    case 2 then show ?thesis
      using length_uvarint_eq [of 1 "2 + len"] by (simp add: getNeededSize_def)
  next
    case 3 then show ?thesis
      using length_uvarint_eq [of 2 "3 + len"] by (simp add: getNeededSize_def)
  next
    case 4 then show ?thesis
      using length_uvarint_eq [of 3 "4 + len"] by (simp add: getNeededSize_def)
  next
    case 5 then show ?thesis
      using length_uvarint_eq [of 4 "5 + len"] assms by (simp add: getNeededSize_def)
  qed
  show "getNeededSize len < 2 ^ 35" using assms by (simp add: getNeededSize_def)
qed

lemma getNeededSize_pos [simp]: "0 < getNeededSize len"
  by (simp add: getNeededSize_def)

lemma count_rep: "bq_rep q ies \<Longrightarrow> bq_count q = length ies"
  by (auto simp: bq_rep_def bq_linear_def bq_wrapped_def)

section \<open>Get and Pop\<close>

lemma Get_block:
  assumes lay: "layout (bq_array q) i j bs" and i: "1 \<le> i" and cnt: "bq_count q \<noteq> 0"
    and mem: "(k, e) \<in> set (positions i bs)"
  shows "BytesQueue_Get q (int k) = Inr (Inr e)"
proof -
  from layout_at [OF lay mem] obtain n bs' where
    "i \<le> k" and blk: "layout (bq_array q) k j ((n, e) # bs')" by blast
  then have "1 \<le> k" using i by simp
  from peek_block [OF blk cnt this] show ?thesis by (simp add: BytesQueue_Get_def)
qed

lemma Get_stored:
  assumes "bq_rep q ies" and mem: "(k, e) \<in> set ies"
  shows "BytesQueue_Get q (int k) = Inr (Inr e)"
  using assms(1) unfolding bq_rep_def
proof (elim disjE exE conjE)
  fix bs assume lin: "bq_linear q bs" and ies: "ies = positions (bq_head q) bs"
  then have "bs \<noteq> []" using mem by auto
  with lin ies mem show ?thesis
    by (intro Get_block [of q "bq_head q" "bq_tail q" bs]) (auto simp: bq_linear_def bq_wf_def)
next
  fix bs1 bs2 assume wr: "bq_wrapped q bs1 bs2"
    and ies: "ies = positions (bq_head q) bs1 @ positions leftMarginIndex bs2"
  from ies mem consider "(k, e) \<in> set (positions (bq_head q) bs1)"
    | "(k, e) \<in> set (positions leftMarginIndex bs2)" by auto
  then show ?thesis
  proof cases
    case 1
    with wr show ?thesis
      by (intro Get_block [of q "bq_head q" "bq_rightMargin q" bs1])
        (simp_all add: bq_wrapped_def bq_wf_def)
  next
    case 2
    with wr show ?thesis
      by (intro Get_block [of q leftMarginIndex "bq_tail q" bs2])
        (simp_all add: bq_wrapped_def leftMarginIndex_def)
  qed
qed

lemma Pop_block:
  assumes "layout (bq_array q) (bq_head q) j ((n, e) # bs)" and "1 \<le> bq_head q" and "bq_count q \<noteq> 0"
  shows "BytesQueue_Pop q = Inr (Inr e,
      if bq_head q + n = bq_rightMargin q
      then q\<lparr>bq_full := False, bq_head := leftMarginIndex, bq_count := bq_count q - 1,
             bq_tail := (if bq_tail q = bq_rightMargin q then leftMarginIndex else bq_tail q),
             bq_rightMargin := (if bq_tail q = bq_rightMargin q then leftMarginIndex else bq_tail q)\<rparr>
      else q\<lparr>bq_full := False, bq_head := bq_head q + n, bq_count := bq_count q - 1\<rparr>)"
  using peek_block [OF assms(1) assms(3) assms(2)]
  by (simp add: BytesQueue_Pop_def Let_def nat_int_add)

lemma Pop_linear:
  assumes lin: "bq_linear q ((n, e) # bs)"
  shows "\<exists>q'. BytesQueue_Pop q = Inr (Inr e, q') \<and> bq_rep q' (positions (bq_head q + n) bs)"
proof -
  let ?b = "(n, e) # bs"
  from lin have lay: "layout (bq_array q) (bq_head q) (bq_tail q) ?b" and h: "1 \<le> bq_head q"
    and cnt: "bq_count q \<noteq> 0" and rm: "bq_rightMargin q = bq_tail q"
    by (auto simp: bq_linear_def bq_wf_def)
  note pop = Pop_block [OF lay h cnt]
  from lay have rest: "layout (bq_array q) (bq_head q + n) (bq_tail q) bs" by simp
  show ?thesis
  proof (cases "bq_head q + n = bq_rightMargin q")
    case True
    then have "bs = []" using layout_strict [OF rest] rm by auto
    with True lin pop show ?thesis
      by (auto simp: bq_rep_def bq_linear_def bq_wf_def leftMarginIndex_def)
  next
    case False
    then have "bs \<noteq> []" using rest rm by auto
    with False lin pop rest layout_le [OF rest] show ?thesis
      by (auto simp: bq_rep_def bq_linear_def bq_wf_def)
  qed
qed

lemma Pop_wrapped:
  assumes wr: "bq_wrapped q ((n, e) # bs) bs2"
  shows "\<exists>q'. BytesQueue_Pop q = Inr (Inr e, q')
      \<and> bq_rep q' (positions (bq_head q + n) bs @ positions leftMarginIndex bs2)"
proof -
  let ?b = "(n, e) # bs"
  from wr have lay: "layout (bq_array q) (bq_head q) (bq_rightMargin q) ?b" and h: "1 \<le> bq_head q"
    and cnt: "bq_count q \<noteq> 0" and th: "bq_tail q \<le> bq_head q"
    and lay2: "layout (bq_array q) leftMarginIndex (bq_tail q) bs2"
    by (auto simp: bq_wrapped_def bq_wf_def)
  note pop = Pop_block [OF lay h cnt]
  from lay have rest: "layout (bq_array q) (bq_head q + n) (bq_rightMargin q) bs" by simp
  have lt: "bq_tail q < bq_rightMargin q" using layout_strict [OF lay] th by simp
  have pos: "0 < n" by (rule block_pos [of n "length e"]) (use lay in simp)
  show ?thesis
  proof (cases "bq_head q + n = bq_rightMargin q")
    case True
    then have bs: "bs = []" using layout_strict [OF rest] by auto
    from True lt have q': "BytesQueue_Pop q = Inr (Inr e, q\<lparr>bq_full := False, bq_head := leftMarginIndex,
        bq_count := bq_count q - 1, bq_rightMargin := bq_tail q\<rparr>)" (is "_ = Inr (_, ?q)")
      using pop by simp
    have "bq_linear ?q bs2"
      using wr bs lay2 layout_le [OF lay2]
      by (auto simp: bq_linear_def bq_wrapped_def bq_wf_def leftMarginIndex_def)
    then show ?thesis using q' bs by (auto simp: bq_rep_def)
  next
    case False
    then have "bs \<noteq> []" using rest by auto
    then have "bq_wrapped (q\<lparr>bq_full := False, bq_head := bq_head q + n, bq_count := bq_count q - 1\<rparr>) bs bs2"
      using wr rest th pos by (auto simp: bq_wrapped_def bq_wf_def)
    then show ?thesis using pop False by (auto simp: bq_rep_def)
  qed
qed

lemma Peek_Pop: "BytesQueue_Pop q = Inr (Inr e, q') \<Longrightarrow> BytesQueue_Peek q = Inr (Inr e)"
  by (cases "BytesQueue_peek q (int (bq_head q))")
    (auto simp: BytesQueue_Pop_def BytesQueue_Peek_def Let_def split: sum.splits)

lemma Pop_rep:
  assumes "bq_rep q ies"
  shows "case ies of
       [] \<Rightarrow> BytesQueue_Pop q = Inr (Inl errEmptyQueue, q)
     | (k, e) # rest \<Rightarrow> BytesQueue_Peek q = Inr (Inr e)
         \<and> (\<exists>q'. BytesQueue_Pop q = Inr (Inr e, q') \<and> bq_rep q' rest)"
proof (cases ies)
  case Nil
  then have "bq_count q = 0" using count_rep [OF assms] by simp
  with Nil show ?thesis
    by (simp add: BytesQueue_Pop_def BytesQueue_peek_def peekCheckErr_def)
next
  case (Cons ke rest)
  obtain k e where ke: "ke = (k, e)" by fastforce
  have "\<exists>q'. BytesQueue_Pop q = Inr (Inr e, q') \<and> bq_rep q' rest"
    using assms [unfolded bq_rep_def] Cons ke
    by (auto simp: positions_eq_Cons eq_commute [of "_ # _" "positions _ _"] Cons_eq_append_conv bq_wrapped_def [of _ "[]"] dest: Pop_linear
        dest!: Pop_wrapped)
  moreover from this have "BytesQueue_Peek q = Inr (Inr e)"
    by (auto intro: Peek_Pop)
  ultimately show ?thesis using Cons ke by simp
qed

section \<open>Push\<close>

text \<open>The state that a push of the block \<open>(n, e)\<close> leaves.\<close>

abbreviation pushed :: "BytesQueue \<Rightarrow> nat \<Rightarrow> byte list \<Rightarrow> BytesQueue" where
  "pushed q n e \<equiv> q
      \<lparr>bq_full := (bq_full q \<or> bq_tail q + n = bq_head q),
       bq_array := copy_at (bq_array q) (bq_tail q) (uvarint_bytes n @ e),
       bq_tail := bq_tail q + n, bq_count := bq_count q + 1,
       bq_rightMargin := (if bq_head q < bq_tail q + n then bq_tail q + n else bq_rightMargin q),
       bq_headerBuffer := uvarint_bytes n @ drop (length (uvarint_bytes n)) (bq_headerBuffer q)\<rparr>"

definition fits_block :: "BytesQueue \<Rightarrow> nat \<Rightarrow> byte list \<Rightarrow> bool" where
  "fits_block q n e \<longleftrightarrow> n = length (uvarint_bytes n) + length e \<and> n < 2 ^ 35
     \<and> bq_tail q + n \<le> length (bq_array q)"

lemma push_block:
  assumes "fits_block q n e" and "bq_wf q"
  shows "BytesQueue_push q e n = Inr (pushed q n e)"
  using push_ok [of n "length e" e q] assms by (simp add: fits_block_def bq_wf_def)

lemma pushed_wf: "fits_block q n e \<Longrightarrow> bq_wf q \<Longrightarrow> bq_wf (pushed q n e)"
  using length_uvarint_5 [of n] by (auto simp: bq_wf_def fits_block_def)

lemma pushed_layout_new:
  "fits_block q n e \<Longrightarrow>
   layout (bq_array (pushed q n e)) (bq_tail q) (bq_tail q + n) [(n, e)]"
  using layout_new_block [of n e "bq_tail q" "bq_array q"]
  by (simp add: fits_block_def del: layout.simps)

lemma pushed_layout_old:
  "fits_block q n e \<Longrightarrow> layout (bq_array q) i j bs \<Longrightarrow>
   bs \<noteq> [] \<longrightarrow> j \<le> bq_tail q \<or> bq_tail q + n \<le> i \<Longrightarrow> layout (bq_array (pushed q n e)) i j bs"
  using layout_keep [of "bq_array q" i j bs "bq_tail q" "uvarint_bytes n @ e"]
  by (simp add: fits_block_def)

lemma fits_pos: "fits_block q n e \<Longrightarrow> 0 < n"
  unfolding fits_block_def by (rule block_pos [of n "length e"]) simp

lemma push_linear:
  assumes lin: "bq_linear q bs" and fit: "fits_block q n e"
  shows "bq_linear (pushed q n e) (bs @ [(n, e)])"
    and "positions (bq_head q) (bs @ [(n, e)]) = positions (bq_head q) bs @ [(bq_tail q, e)]"
proof -
  from lin have lay: "layout (bq_array q) (bq_head q) (bq_tail q) bs" and wf: "bq_wf q"
    by (simp_all add: bq_linear_def)
  have "layout (bq_array (pushed q n e)) (bq_head q) (bq_tail q + n) (bs @ [(n, e)])"
    by (rule layout_append [OF pushed_layout_old [OF fit lay] pushed_layout_new [OF fit]]) simp
  with lin pushed_wf [OF fit wf] fits_pos [OF fit]
  show "bq_linear (pushed q n e) (bs @ [(n, e)])"
    by (simp add: bq_linear_def)
  show "positions (bq_head q) (bs @ [(n, e)]) = positions (bq_head q) bs @ [(bq_tail q, e)]"
    using positions_append [OF lay, of "[(n, e)]"] by simp
qed

lemma push_wrap:
  assumes lin: "bq_linear q bs" and ne: "bs \<noteq> []" and t: "bq_tail q' = leftMarginIndex"
    and q': "q' = q\<lparr>bq_tail := leftMarginIndex\<rparr>"
    and fit: "fits_block q' n e" and room: "leftMarginIndex + n \<le> bq_head q"
  shows "bq_wrapped (pushed q' n e) bs [(n, e)]"
proof -
  from lin q' have lay: "layout (bq_array q') (bq_head q) (bq_rightMargin q) bs" and wf: "bq_wf q'"
    by (simp_all add: bq_linear_def bq_wf_def)
  have "layout (bq_array (pushed q' n e)) (bq_head q) (bq_rightMargin q) bs"
    by (rule pushed_layout_old [OF fit lay]) (use room t in simp)
  moreover have "layout (bq_array (pushed q' n e)) leftMarginIndex (leftMarginIndex + n) [(n, e)]"
    using pushed_layout_new [OF fit] t by simp
  ultimately show ?thesis
    using lin ne t room q' pushed_wf [OF fit wf]
    by (simp add: bq_wrapped_def bq_linear_def)
qed

lemma push_wrapped:
  assumes wr: "bq_wrapped q bs1 bs2" and fit: "fits_block q n e" and room: "bq_tail q + n \<le> bq_head q"
  shows "bq_wrapped (pushed q n e) bs1 (bs2 @ [(n, e)])"
    and "positions leftMarginIndex (bs2 @ [(n, e)]) = positions leftMarginIndex bs2 @ [(bq_tail q, e)]"
proof -
  from wr have wf: "bq_wf q" and lay1: "layout (bq_array q) (bq_head q) (bq_rightMargin q) bs1"
    and lay2: "layout (bq_array q) leftMarginIndex (bq_tail q) bs2"
    by (simp_all add: bq_wrapped_def)
  have "layout (bq_array (pushed q n e)) (bq_head q) (bq_rightMargin q) bs1"
    by (rule pushed_layout_old [OF fit lay1]) (use room in simp)
  moreover have "layout (bq_array (pushed q n e)) leftMarginIndex (bq_tail q + n) (bs2 @ [(n, e)])"
    by (rule layout_append [OF pushed_layout_old [OF fit lay2] pushed_layout_new [OF fit]]) simp
  moreover have "\<not> bq_full q" using wr room fits_pos [OF fit] by (auto simp: bq_wrapped_def)
  ultimately show "bq_wrapped (pushed q n e) bs1 (bs2 @ [(n, e)])"
    using wr room pushed_wf [OF fit wf] by (simp add: bq_wrapped_def)
  show "positions leftMarginIndex (bs2 @ [(n, e)]) = positions leftMarginIndex bs2 @ [(bq_tail q, e)]"
    using positions_append [OF lay2, of "[(n, e)]"] by simp
qed

section \<open>Growing\<close>

text \<open>
  Growing copies the bytes below the right margin.  A queue that has wrapped is made linear by
  moving the head to the left margin; the free gap between tail and head becomes a block of zeros.
\<close>

definition gap_block :: "BytesQueue \<Rightarrow> (nat \<times> byte list) list" where
  "gap_block q =
     (let gap = bq_head q - bq_tail q in
      if gap = 0 then [] else [(gap, replicate (gap - length (uvarint_bytes gap)) 0)])"

lemma newCapacity_room:
  assumes "\<not> (int (bq_capacity q) + int n \<ge> bq_maxCapacity q \<and> bq_maxCapacity q > 0)"
    and "0 < n" and "m \<le> max 1 (bq_capacity q)"
  shows "m + n \<le> bq_newCapacity q n"
  using assms by (auto simp: bq_newCapacity_def Let_def max_def split: if_splits)

lemma newCapacity_grows:
  assumes "\<not> (int (bq_capacity q) + int n \<ge> bq_maxCapacity q \<and> bq_maxCapacity q > 0)" and "0 < n"
  shows "bq_capacity q < bq_newCapacity q n"
  using assms by (auto simp: bq_newCapacity_def Let_def split: if_splits)

lemma layout_grown:
  assumes lay: "layout arr i j bs" and "j \<le> m" and "m \<le> length arr" and "m \<le> c"
  shows "layout (slice_copy (replicate c 0) (take m arr)) i j bs"
  by (rule layout_cong [OF lay])
    (use assms in \<open>auto simp: slice_copy_def Let_def nth_append min_def\<close>)

lemma grow_linear:
  assumes lin: "bq_linear q bs" and c: "bq_tail q \<le> bq_newCapacity q n"
  shows "\<exists>arr. allocateAdditionalMemory q n =
            Inr (q\<lparr>bq_capacity := bq_newCapacity q n, bq_array := arr, bq_full := False\<rparr>)
      \<and> bq_linear (q\<lparr>bq_capacity := bq_newCapacity q n, bq_array := arr, bq_full := False\<rparr>) bs"
proof (cases "bs = []")
  case True
  with lin show ?thesis
    by (auto simp: allocateAdditionalMemory_def Let_def bq_linear_def bq_wf_def)
next
  case False
  from lin have lay: "layout (bq_array q) (bq_head q) (bq_tail q) bs" by (simp add: bq_linear_def)
  from layout_strict [OF lay False] have lt: "bq_head q < bq_tail q" "bq_tail q \<le> length (bq_array q)"
    by simp_all
  have sr: "slice_range (bq_array q) 0 (int (bq_tail q)) = Inr (take (bq_tail q) (bq_array q))"
    using slice_range_ok [of 0 "bq_tail q" "bq_array q"] lt by simp
  have "layout (slice_copy (replicate (bq_newCapacity q n) 0) (take (bq_tail q) (bq_array q)))
      (bq_head q) (bq_tail q) bs"
    by (rule layout_grown [OF lay]) (use lt c in simp_all)
  with lin lt sr show ?thesis
    by (auto simp: allocateAdditionalMemory_def Let_def bq_linear_def bq_wf_def leftMarginIndex_def)
qed

lemma push_gap:
  assumes wf: "bq_wf q" and gap: "gap = bq_head q - bq_tail q" "0 < gap"
    and head: "bq_head q \<le> length (bq_array q)" "bq_head q < 2 ^ 35"
    and e: "e = replicate (gap - length (uvarint_bytes gap)) 0"
  shows "fits_block q gap e" and "BytesQueue_push q (replicate gap 0) gap = Inr (pushed q gap e)"
proof -
  have u: "length (uvarint_bytes gap) \<le> gap" using length_uvarint_le gap by simp
  show "fits_block q gap e" using gap head e u by (simp add: fits_block_def)
  show "BytesQueue_push q (replicate gap 0) gap = Inr (pushed q gap e)"
    using push_ok [of gap "gap - length (uvarint_bytes gap)" "replicate gap 0" q] gap head e u wf
    by (simp add: bq_wf_def)
qed

lemma grow_wrapped:
  assumes wr: "bq_wrapped q bs1 bs2" and c: "bq_rightMargin q \<le> bq_newCapacity q n"
    and small: "bq_capacity q < 2 ^ 35"
  shows "\<exists>q'. allocateAdditionalMemory q n = Inr q' \<and> bq_linear q' (bs2 @ gap_block q @ bs1)
      \<and> bq_head q' = leftMarginIndex \<and> bq_capacity q' = bq_newCapacity q n
      \<and> bq_tail q' = bq_rightMargin q \<and> bq_maxCapacity q' = bq_maxCapacity q"
proof -
  let ?c = "bq_newCapacity q n" and ?rm = "bq_rightMargin q"
  let ?A = "slice_copy (replicate ?c 0) (take ?rm (bq_array q))"
  let ?q2 = "q\<lparr>bq_capacity := ?c, bq_array := ?A\<rparr>"
  from wr have lay1: "layout (bq_array q) (bq_head q) ?rm bs1" and ne: "bs1 \<noteq> []"
    and lay2: "layout (bq_array q) leftMarginIndex (bq_tail q) bs2"
    and th: "bq_tail q \<le> bq_head q" and wf: "bq_wf q" by (simp_all add: bq_wrapped_def)
  have lt: "bq_head q < ?rm" "?rm \<le> length (bq_array q)" using layout_strict [OF lay1 ne] by simp_all
  have h1: "1 \<le> bq_head q" using wf by (simp add: bq_wf_def)
  have A1: "layout ?A (bq_head q) ?rm bs1" by (rule layout_grown [OF lay1]) (use lt c in simp_all)
  have A2: "layout ?A leftMarginIndex (bq_tail q) bs2"
    by (rule layout_grown [OF lay2]) (use lt c th in simp_all)
  have sr: "slice_range (bq_array q) 0 (int ?rm) = Inr (take ?rm (bq_array q))"
    using slice_range_ok [of 0 ?rm "bq_array q"] lt by simp
  have rm1: "?rm \<noteq> leftMarginIndex" using h1 lt by (simp add: leftMarginIndex_def)
  have wf2: "bq_wf ?q2" using wf by (simp add: bq_wf_def)
  show ?thesis
  proof (cases "bq_tail q = bq_head q")
    case True
    have "allocateAdditionalMemory q n =
        Inr (?q2\<lparr>bq_head := leftMarginIndex, bq_tail := ?rm, bq_full := False\<rparr>)"
      using sr rm1 True by (simp add: allocateAdditionalMemory_def Let_def)
    moreover have "layout ?A leftMarginIndex ?rm (bs2 @ bs1)"
      using layout_append [OF A2] A1 True by simp
    ultimately show ?thesis
      using wr wf2 True ne lt h1
      by (auto simp: gap_block_def bq_linear_def bq_wrapped_def bq_wf_def leftMarginIndex_def)
  next
    case False
    define gap where "gap = bq_head q - bq_tail q"
    define e where "e = replicate (gap - length (uvarint_bytes gap)) (0 :: byte)"
    have gap: "gap = bq_head ?q2 - bq_tail ?q2" "0 < gap" "bq_tail q + gap = bq_head q"
      using th False by (simp_all add: gap_def)
    have "bq_head ?q2 \<le> length (bq_array ?q2)" "bq_head ?q2 < 2 ^ 35"
      using lt c wf small by (simp_all add: bq_wf_def)
    note pg = push_gap [OF wf2 gap(1,2) this e_def]
    have "allocateAdditionalMemory q n = Inr ((pushed ?q2 gap e)
        \<lparr>bq_head := leftMarginIndex, bq_tail := ?rm, bq_full := False\<rparr>)"
      using sr rm1 False th gap pg(2) by (simp add: allocateAdditionalMemory_def Let_def)
    moreover have "layout (bq_array (pushed ?q2 gap e)) leftMarginIndex ?rm (bs2 @ [(gap, e)] @ bs1)"
    proof (intro layout_append)
      show "layout (bq_array (pushed ?q2 gap e)) leftMarginIndex (bq_tail q) bs2"
        by (rule pushed_layout_old [OF pg(1)]) (use A2 in simp_all)
      show "layout (bq_array (pushed ?q2 gap e)) (bq_tail q) (bq_head q) [(gap, e)]"
        using pushed_layout_new [OF pg(1)] gap(3) by simp
      show "layout (bq_array (pushed ?q2 gap e)) (bq_head q) ?rm bs1"
        by (rule pushed_layout_old [OF pg(1)]) (use A1 gap(3) in simp_all)
    qed
    moreover have "gap_block q = [(gap, e)]" using gap(2) by (simp add: gap_block_def e_def gap_def Let_def)
    ultimately show ?thesis
      using wr pushed_wf [OF pg(1) wf2] lt h1 gap
      by (auto simp: bq_linear_def bq_wrapped_def bq_wf_def leftMarginIndex_def)
  qed
qed

section \<open>Push keeps the queue\<close>

definition gap_entry :: "BytesQueue \<Rightarrow> (nat \<times> byte list) list" where
  "gap_entry q = map (\<lambda>(n, e). (bq_tail q, e)) (gap_block q)"

text \<open>The queue order after growing: the wrapped part first, then the gap, then the rest.\<close>

definition bq_unwrap :: "BytesQueue \<Rightarrow> (nat \<times> byte list) list \<Rightarrow> (nat \<times> byte list) list" where
  "bq_unwrap q ies =
     filter (\<lambda>(i, e). i < bq_head q) ies @ gap_entry q @ filter (\<lambda>(i, e). bq_head q \<le> i) ies"

lemma position_bounds: "layout arr i j bs \<Longrightarrow> (k, e) \<in> set (positions i bs) \<Longrightarrow> i \<le> k \<and> k < j"
proof -
  assume lay: "layout arr i j bs" and mem: "(k, e) \<in> set (positions i bs)"
  from layout_at [OF lay mem] obtain n bs' where "i \<le> k" "layout arr k j ((n, e) # bs')" by blast
  with layout_strict [OF this(2)] show ?thesis by simp
qed

lemma unwrap_linear:
  assumes "bq_linear q bs"
  shows "bq_unwrap q (positions (bq_head q) bs) = positions (bq_head q) bs"
proof -
  have "bq_head q \<le> bq_tail q" "layout (bq_array q) (bq_head q) (bq_tail q) bs"
    using assms by (simp_all add: bq_linear_def)
  moreover from this have
    "filter (\<lambda>(i, e). bq_head q \<le> i) (positions (bq_head q) bs) = positions (bq_head q) bs"
    "filter (\<lambda>(i, e). i < bq_head q) (positions (bq_head q) bs) = []"
    using position_bounds [of "bq_array q" "bq_head q" "bq_tail q" bs]
    by (fastforce simp: filter_id_conv filter_empty_conv)+
  ultimately show ?thesis by (simp add: bq_unwrap_def gap_entry_def gap_block_def)
qed

lemma unwrap_wrapped:
  assumes wr: "bq_wrapped q bs1 bs2"
  shows "bq_unwrap q (positions (bq_head q) bs1 @ positions leftMarginIndex bs2)
    = positions leftMarginIndex (bs2 @ gap_block q @ bs1)"
proof -
  from wr have lay1: "layout (bq_array q) (bq_head q) (bq_rightMargin q) bs1"
    and lay2: "layout (bq_array q) leftMarginIndex (bq_tail q) bs2"
    and th: "bq_tail q \<le> bq_head q" by (simp_all add: bq_wrapped_def)
  have f1: "filter (\<lambda>(i, e). bq_head q \<le> i) (positions (bq_head q) bs1) = positions (bq_head q) bs1"
    "filter (\<lambda>(i, e). i < bq_head q) (positions (bq_head q) bs1) = []"
    using position_bounds [OF lay1] by (fastforce simp: filter_id_conv filter_empty_conv)+
  have f2: "filter (\<lambda>(i, e). bq_head q \<le> i) (positions leftMarginIndex bs2) = []"
    "filter (\<lambda>(i, e). i < bq_head q) (positions leftMarginIndex bs2) = positions leftMarginIndex bs2"
    using position_bounds [OF lay2] th by (fastforce simp: filter_id_conv filter_empty_conv)+
  have "positions (bq_tail q) (gap_block q @ bs1) = gap_entry q @ positions (bq_head q) bs1"
    using th by (auto simp: gap_entry_def gap_block_def Let_def)
  with positions_append [OF lay2, of "gap_block q @ bs1"] f1 f2 show ?thesis
    by (simp add: bq_unwrap_def)
qed

lemma grow_rep:
  assumes rep: "bq_rep q ies" and small: "bq_capacity q < 2 ^ 35" and n: "0 < n"
    and ok: "\<not> (int (bq_capacity q) + int n \<ge> bq_maxCapacity q \<and> bq_maxCapacity q > 0)"
  shows "\<exists>q' bs. allocateAdditionalMemory q n = Inr q' \<and> bq_linear q' bs
      \<and> positions (bq_head q') bs = bq_unwrap q ies \<and> bq_tail q' + n \<le> bq_capacity q'
      \<and> bq_capacity q' = bq_newCapacity q n"
  using rep unfolding bq_rep_def
proof (elim disjE exE conjE)
  fix bs assume lin: "bq_linear q bs" and ies: "ies = positions (bq_head q) bs"
  have "bq_tail q \<le> max 1 (bq_capacity q)"
    using lin layout_strict [of "bq_array q" "bq_head q" "bq_tail q" bs]
    by (cases "bs = []") (auto simp: bq_linear_def bq_wf_def leftMarginIndex_def)
  from newCapacity_room [OF ok n this] have room: "bq_tail q + n \<le> bq_newCapacity q n" .
  then have "bq_tail q \<le> bq_newCapacity q n" by simp
  from grow_linear [OF lin this] unwrap_linear [OF lin] ies room show ?thesis
    by (auto intro!: exI [of _ bs])
next
  fix bs1 bs2 assume wr: "bq_wrapped q bs1 bs2"
    and ies: "ies = positions (bq_head q) bs1 @ positions leftMarginIndex bs2"
  have "bq_rightMargin q \<le> max 1 (bq_capacity q)"
    using wr layout_strict [of "bq_array q" "bq_head q" "bq_rightMargin q" bs1]
    by (auto simp: bq_wrapped_def bq_wf_def)
  from newCapacity_room [OF ok n this] have room: "bq_rightMargin q + n \<le> bq_newCapacity q n" .
  then have "bq_rightMargin q \<le> bq_newCapacity q n" by simp
  from grow_wrapped [OF wr this small] obtain q' where
    "allocateAdditionalMemory q n = Inr q'" "bq_linear q' (bs2 @ gap_block q @ bs1)"
    "bq_head q' = leftMarginIndex" "bq_capacity q' = bq_newCapacity q n"
    "bq_tail q' = bq_rightMargin q" by blast
  with room ies unwrap_wrapped [OF wr] show ?thesis
    by (intro exI [of _ q'] exI [of _ "bs2 @ gap_block q @ bs1"]) simp
qed

lemma fits_needed:
  assumes "length e + 5 < 2 ^ 35" and "bq_tail q + getNeededSize (length e) \<le> length (bq_array q)"
  shows "fits_block q (getNeededSize (length e)) e"
  unfolding fits_block_def using assms getNeededSize_uvarint [OF assms(1)] by blast

lemma push_rep_linear:
  assumes lin: "bq_linear q bs" and fit: "fits_block q n e"
  shows "\<exists>q'. BytesQueue_push q e n = Inr q'
      \<and> bq_rep q' (positions (bq_head q) bs @ [(bq_tail q, e)]) \<and> bq_capacity q' = bq_capacity q"
proof (intro exI conjI)
  have "bq_wf q" using lin by (simp add: bq_linear_def)
  then show "BytesQueue_push q e n = Inr (pushed q n e)" by (rule push_block [OF fit])
  show "bq_rep (pushed q n e) (positions (bq_head q) bs @ [(bq_tail q, e)])"
    unfolding bq_rep_def using push_linear [OF lin fit] by (intro disjI1 exI [of _ "bs @ [(n, e)]"]) simp
qed simp

lemma push_rep_wrap:
  assumes lin: "bq_linear q bs" and fit: "fits_block (q\<lparr>bq_tail := leftMarginIndex\<rparr>) n e"
    and room: "leftMarginIndex + n \<le> bq_head q"
  shows "\<exists>q'. BytesQueue_push (q\<lparr>bq_tail := leftMarginIndex\<rparr>) e n = Inr q'
      \<and> bq_rep q' (positions (bq_head q) bs @ [(leftMarginIndex, e)]) \<and> bq_capacity q' = bq_capacity q"
proof -
  let ?q = "q\<lparr>bq_tail := leftMarginIndex\<rparr>"
  have ne: "bs \<noteq> []" using lin room fits_pos [OF fit] by (auto simp: bq_linear_def)
  have "bq_wf ?q" using lin by (simp add: bq_linear_def bq_wf_def)
  then have "BytesQueue_push ?q e n = Inr (pushed ?q n e)" by (rule push_block [OF fit])
  moreover have "bq_wrapped (pushed ?q n e) bs [(n, e)]"
    by (rule push_wrap [OF lin ne _ refl fit room]) simp
  then have "bq_rep (pushed ?q n e) (positions (bq_head q) bs @ [(leftMarginIndex, e)])"
    unfolding bq_rep_def by (intro disjI2 exI [of _ bs] exI [of _ "[(n, e)]"]) simp
  ultimately show ?thesis by (intro exI [of _ "pushed ?q n e"]) simp
qed

lemma push_rep_wrapped:
  assumes wr: "bq_wrapped q bs1 bs2" and fit: "fits_block q n e" and room: "bq_tail q + n \<le> bq_head q"
  shows "\<exists>q'. BytesQueue_push q e n = Inr q'
      \<and> bq_rep q' (positions (bq_head q) bs1 @ positions leftMarginIndex bs2 @ [(bq_tail q, e)])
      \<and> bq_capacity q' = bq_capacity q"
proof (intro exI conjI)
  have "bq_wf q" using wr by (simp add: bq_wrapped_def)
  then show "BytesQueue_push q e n = Inr (pushed q n e)" by (rule push_block [OF fit])
  show "bq_rep (pushed q n e)
      (positions (bq_head q) bs1 @ positions leftMarginIndex bs2 @ [(bq_tail q, e)])"
    unfolding bq_rep_def using push_wrapped [OF wr fit room]
    by (intro disjI2 exI [of _ bs1] exI [of _ "bs2 @ [(n, e)]"]) simp
qed simp

lemma Push_fits:
  assumes rep: "bq_rep q ies" and e: "length e + 5 < 2 ^ 35"
    and room: "canInsertAfterTail q (getNeededSize (length e))
             \<or> canInsertBeforeHead q (getNeededSize (length e))"
  shows "\<exists>i q'. BytesQueue_Push q e = Inr (Inr i, q') \<and> bq_rep q' (ies @ [(i, e)])
      \<and> bq_capacity q' = bq_capacity q"
  using rep unfolding bq_rep_def [of q]
proof (elim disjE exE conjE)
  let ?n = "getNeededSize (length e)"
  fix bs assume lin: "bq_linear q bs" and ies: "ies = positions (bq_head q) bs"
  then have cap: "bq_capacity q = length (bq_array q)" by (simp add: bq_linear_def bq_wf_def)
  show ?thesis
  proof (cases "canInsertAfterTail q ?n")
    case True
    then have "bq_tail q + ?n \<le> length (bq_array q)"
      using lin cap by (auto simp: canInsertAfterTail_def bq_linear_def)
    from push_rep_linear [OF lin fits_needed [OF e this]] True ies show ?thesis
      by (auto simp: BytesQueue_Push_def Let_def)
  next
    case False
    with room have before: "canInsertBeforeHead q ?n" by simp
    then have h: "leftMarginIndex + ?n \<le> bq_head q"
      using lin by (auto simp: canInsertBeforeHead_def bq_linear_def split: if_splits)
    have "bs \<noteq> []" using lin h getNeededSize_pos [of "length e"]
      by (auto simp: bq_linear_def simp del: getNeededSize_pos)
    then have "bq_head q \<le> length (bq_array q)"
      using lin layout_strict [of "bq_array q" "bq_head q" "bq_tail q" bs] by (simp add: bq_linear_def)
    then have "fits_block (q\<lparr>bq_tail := leftMarginIndex\<rparr>) ?n e"
      using h by (intro fits_needed [OF e]) simp
    from push_rep_wrap [OF lin this h] False before ies show ?thesis
      by (auto simp: BytesQueue_Push_def Let_def)
  qed
next
  let ?n = "getNeededSize (length e)"
  fix bs1 bs2 assume wr: "bq_wrapped q bs1 bs2"
    and ies: "ies = positions (bq_head q) bs1 @ positions leftMarginIndex bs2"
  from room have after: "canInsertAfterTail q ?n"
    using wr by (auto simp: canInsertAfterTail_def canInsertBeforeHead_def bq_wrapped_def split: if_splits)
  then have h: "bq_tail q + ?n \<le> bq_head q"
    using wr by (auto simp: canInsertAfterTail_def bq_wrapped_def split: if_splits)
  have "bq_head q \<le> length (bq_array q)"
    using wr layout_strict [of "bq_array q" "bq_head q" "bq_rightMargin q" bs1] by (simp add: bq_wrapped_def)
  then have "bq_tail q + ?n \<le> length (bq_array q)" using h by simp
  from push_rep_wrapped [OF wr fits_needed [OF e this] h] after ies show ?thesis
    by (auto simp: BytesQueue_Push_def Let_def)
qed

lemma Push_rep:
  assumes rep: "bq_rep q ies" and e: "length e + 5 < 2 ^ 35" and small: "bq_capacity q < 2 ^ 35"
  shows "let n = getNeededSize (length e);
             room = canInsertAfterTail q n \<or> canInsertBeforeHead q n
         in if \<not> room \<and> 0 < bq_maxCapacity q \<and> bq_maxCapacity q \<le> int (bq_capacity q) + int n
            then BytesQueue_Push q e = Inr (Inl errFullQueue, q)
            else \<exists>i q'. BytesQueue_Push q e = Inr (Inr i, q')
                   \<and> BytesQueue_Get q' (int i) = Inr (Inr e)
                   \<and> bq_rep q' ((if room then ies else bq_unwrap q ies) @ [(i, e)])
                   \<and> bq_capacity q' = (if room then bq_capacity q else bq_newCapacity q n)"
proof -
  let ?n = "getNeededSize (length e)"
  consider "canInsertAfterTail q ?n \<or> canInsertBeforeHead q ?n"
    | "\<not> (canInsertAfterTail q ?n \<or> canInsertBeforeHead q ?n)"
      "0 < bq_maxCapacity q \<and> bq_maxCapacity q \<le> int (bq_capacity q) + int ?n"
    | "\<not> (canInsertAfterTail q ?n \<or> canInsertBeforeHead q ?n)"
      "\<not> (0 < bq_maxCapacity q \<and> bq_maxCapacity q \<le> int (bq_capacity q) + int ?n)" by blast
  then show ?thesis
  proof cases
    case 1
    from Push_fits [OF rep e 1] 1 show ?thesis by (fastforce simp: Let_def intro: Get_stored)
  next
    case 2
    then show ?thesis by (auto simp: BytesQueue_Push_def Let_def)
  next
    case 3
    then have ok: "\<not> (int (bq_capacity q) + int ?n \<ge> bq_maxCapacity q \<and> bq_maxCapacity q > 0)" by auto
    from grow_rep [OF rep small getNeededSize_pos ok] obtain q1 bs where
      al: "allocateAdditionalMemory q ?n = Inr q1" and lin: "bq_linear q1 bs"
      and pos: "positions (bq_head q1) bs = bq_unwrap q ies"
      and fit: "bq_tail q1 + ?n \<le> bq_capacity q1" and c: "bq_capacity q1 = bq_newCapacity q ?n" by blast
    have "bq_tail q1 + ?n \<le> length (bq_array q1)" using fit lin by (simp add: bq_linear_def bq_wf_def)
    from push_rep_linear [OF lin fits_needed [OF e this]] obtain q2 where
      push: "BytesQueue_push q1 e ?n = Inr q2"
      and rep2: "bq_rep q2 (bq_unwrap q ies @ [(bq_tail q1, e)])"
      and c2: "bq_capacity q2 = bq_newCapacity q ?n" using pos c by auto
    have "BytesQueue_Push q e = Inr (Inr (bq_tail q1), q2)"
      using 3 al push by (auto simp: BytesQueue_Push_def Let_def)
    moreover have "BytesQueue_Get q2 (int (bq_tail q1)) = Inr (Inr e)"
      by (rule Get_stored [OF rep2]) simp
    ultimately show ?thesis using 3 rep2 c2 by (auto simp: Let_def)
  qed
qed

section \<open>Whole runs\<close>

datatype bq_op = PushOp "byte list" | PopOp
datatype bq_out = Pushed "bq_error + nat" | Popped "bq_error + byte list"

fun bq_run :: "BytesQueue \<Rightarrow> bq_op list \<Rightarrow> (bq_out list \<times> BytesQueue) go" where
  "bq_run q [] = Inr ([], q)"
| "bq_run q (PushOp e # ops) = bnd (BytesQueue_Push q e) (\<lambda>(r, q').
     bnd (bq_run q' ops) (\<lambda>(outs, q''). Inr (Pushed r # outs, q'')))"
| "bq_run q (PopOp # ops) = bnd (BytesQueue_Pop q) (\<lambda>(r, q').
     bnd (bq_run q' ops) (\<lambda>(outs, q''). Inr (Popped r # outs, q'')))"

text \<open>What a FIFO that may refuse a push answers: the answers \<open>outs\<close> fit the contents \<open>es\<close>.\<close>

fun fifo_trace :: "byte list list \<Rightarrow> bq_op list \<Rightarrow> bq_out list \<Rightarrow> bool" where
  "fifo_trace es [] outs = (outs = [])"
| "fifo_trace es (PushOp e # ops) (Pushed (Inl err) # outs) =
     (err = errFullQueue \<and> fifo_trace es ops outs)"
| "fifo_trace es (PushOp e # ops) (Pushed (Inr i) # outs) = fifo_trace (es @ [e]) ops outs"
| "fifo_trace [] (PopOp # ops) (Popped (Inl err) # outs) =
     (err = errEmptyQueue \<and> fifo_trace [] ops outs)"
| "fifo_trace (e # es) (PopOp # ops) (Popped (Inr d) # outs) = (d = e \<and> fifo_trace es ops outs)"
| "fifo_trace es ops outs = False"

definition short_entries :: "bq_op list \<Rightarrow> bool" where
  "short_entries ops = list_all (\<lambda>op. case op of PushOp e \<Rightarrow> length e + 5 < 2 ^ 35 | PopOp \<Rightarrow> True) ops"

lemma New_rep:
  "0 \<le> c \<Longrightarrow> \<exists>q. NewBytesQueue c m v = Inr q \<and> bq_rep q [] \<and> bq_capacity q = nat c \<and> bq_maxCapacity q = m"
  by (auto simp: NewBytesQueue_def bq_rep_def bq_linear_def bq_wf_def leftMarginIndex_def)

lemma push_maxCapacity: "BytesQueue_push q e n = Inr q' \<Longrightarrow> bq_maxCapacity q' = bq_maxCapacity q"
  by (auto simp: BytesQueue_push_def BytesQueue_copy_def go_simps Let_def split: if_splits)

lemma allocate_maxCapacity:
  "allocateAdditionalMemory q n = Inr q' \<Longrightarrow> bq_maxCapacity q' = bq_maxCapacity q"
  by (auto simp: allocateAdditionalMemory_def go_simps Let_def split: if_splits dest!: push_maxCapacity)

lemma Push_maxCapacity:
  "BytesQueue_Push q e = Inr (r, q') \<Longrightarrow> bq_maxCapacity q' = bq_maxCapacity q"
  by (auto simp: BytesQueue_Push_def go_simps Let_def split: if_splits
      dest!: push_maxCapacity allocate_maxCapacity)

lemma Pop_keeps:
  assumes "BytesQueue_Pop q = Inr (r, q')"
  shows "bq_maxCapacity q' = bq_maxCapacity q \<and> bq_capacity q' = bq_capacity q"
proof (cases "BytesQueue_peek q (int (bq_head q))")
  case (Inr res)
  with assms show ?thesis
    by (cases res) (auto simp: BytesQueue_Pop_def Let_def split: prod.splits)
qed (use assms in \<open>simp add: BytesQueue_Pop_def\<close>)

lemma Push_step:
  assumes rep: "bq_rep q ies" and e: "length e + 5 < 2 ^ 35" and small: "bq_capacity q < 2 ^ 35"
    and m: "0 < bq_maxCapacity q" and cm: "int (bq_capacity q) \<le> bq_maxCapacity q"
  obtains (refused) "BytesQueue_Push q e = Inr (Inl errFullQueue, q)"
    | (stored) i q' ies' where "BytesQueue_Push q e = Inr (Inr i, q')" "bq_rep q' (ies' @ [(i, e)])"
        "int (bq_capacity q') \<le> bq_maxCapacity q" "bq_maxCapacity q' = bq_maxCapacity q"
        "int (bq_capacity q) = bq_maxCapacity q \<longrightarrow> ies' = ies \<and> bq_capacity q' = bq_capacity q"
proof (cases "BytesQueue_Push q e = Inr (Inl errFullQueue, q)")
  case False
  let ?n = "getNeededSize (length e)"
  let ?room = "canInsertAfterTail q ?n \<or> canInsertBeforeHead q ?n"
  have c: "int (bq_newCapacity q ?n) \<le> bq_maxCapacity q" using m by (simp add: bq_newCapacity_def Let_def)
  from Push_rep [OF rep e small, unfolded Let_def] False obtain i q' where
    p: "BytesQueue_Push q e = Inr (Inr i, q')"
    and r: "bq_rep q' ((if ?room then ies else bq_unwrap q ies) @ [(i, e)])"
    and cap: "bq_capacity q' = (if ?room then bq_capacity q else bq_newCapacity q ?n)"
    and grown: "?room \<or> \<not> (0 < bq_maxCapacity q \<and> bq_maxCapacity q \<le> int (bq_capacity q) + int ?n)"
    by (auto split: if_splits)
  have "int (bq_capacity q) = bq_maxCapacity q \<longrightarrow> ?room" using grown m by auto
  with p r cap c cm show ?thesis
    by (intro stored [of i q' "if ?room then ies else bq_unwrap q ies"])
      (auto simp: Push_maxCapacity [OF p])
qed (rule refused)

lemma run_bounded:
  assumes "bq_rep q ies" and "short_entries ops"
    and "0 < bq_maxCapacity q" and "bq_maxCapacity q < 2 ^ 35"
    and "int (bq_capacity q) \<le> bq_maxCapacity q"
  shows "\<exists>outs q' ies'. bq_run q ops = Inr (outs, q') \<and> bq_rep q' ies'
      \<and> int (bq_capacity q') \<le> bq_maxCapacity q
      \<and> (int (bq_capacity q) = bq_maxCapacity q \<longrightarrow> fifo_trace (map snd ies) ops outs)"
  using assms
proof (induction ops arbitrary: q ies)
  case Nil
  then show ?case by auto
next
  case (Cons op ops)
  have small: "bq_capacity q < 2 ^ 35" using Cons.prems(4,5) by simp
  have ops: "short_entries ops" using Cons.prems(2) by (simp add: short_entries_def)
  show ?case
  proof (cases op)
    case (PushOp e)
    then have e: "length e + 5 < 2 ^ 35" using Cons.prems(2) by (simp add: short_entries_def)
    from Cons.prems(1) e small Cons.prems(3,5) show ?thesis
    proof (cases rule: Push_step)
      case refused
      with Cons.IH [OF Cons.prems(1) ops Cons.prems(3-5)] PushOp show ?thesis by auto
    next
      case (stored i q' ies')
      with Cons.IH [of q' "ies' @ [(i, e)]"] PushOp ops Cons.prems(3,4) show ?thesis by auto
    qed
  next
    case PopOp
    show ?thesis
    proof (cases ies)
      case Nil
      with Pop_rep [OF Cons.prems(1)] Cons.IH [OF Cons.prems(1) ops Cons.prems(3-5)] PopOp
      show ?thesis by auto
    next
      case (Cons ke rest)
      obtain k e where ke: "ke = (k, e)" by fastforce
      with Cons Pop_rep [OF Cons.prems(1)] obtain q' where
        "BytesQueue_Pop q = Inr (Inr e, q')" "bq_rep q' rest" by auto
      with Cons.IH [of q' rest] ops Cons.prems(3-5) Pop_keeps [of q "Inr e" q'] PopOp Cons ke
      show ?thesis by auto
    qed
  qed
qed

section \<open>Properties\<close>


text \<open>
  C2. Push either refuses with \<^verbatim>\<open>errFullQueue\<close>, only when there is no room and growing would
  reach the maximum capacity, and then leaves the queue; or it stores the entry last, at the index
  it answers, where \<^verbatim>\<open>Get\<close> reads it back.  With room, nothing else changes; without, the queue
  grows, every stored entry keeps its index, and the order becomes \<open>bq_unwrap\<close>.  No bound of the
  array is ever violated.
\<close>

theorem BytesQueue_Push_correct:
  assumes rep: "bq_rep q ies" and e: "length e + 5 < 2 ^ 35" and small: "bq_capacity q < 2 ^ 35"
  shows "let n = getNeededSize (length e);
             room = canInsertAfterTail q n \<or> canInsertBeforeHead q n
         in if \<not> room \<and> 0 < bq_maxCapacity q \<and> bq_maxCapacity q \<le> int (bq_capacity q) + int n
            then BytesQueue_Push q e = Inr (Inl errFullQueue, q)
            else \<exists>i q'. BytesQueue_Push q e = Inr (Inr i, q')
                   \<and> BytesQueue_Get q' (int i) = Inr (Inr e)
                   \<and> bq_rep q' ((if room then ies else bq_unwrap q ies) @ [(i, e)])
                   \<and> bq_capacity q' = (if room then bq_capacity q else bq_newCapacity q n)"
  by (rule Push_rep [OF assms])

text \<open>
  C27. A queue created with a positive capacity limit never panics and never holds more bytes than
  the limit, whatever entries (below 32 GB) are pushed and popped, and its length is the number of
  entries stored.
\<close>

theorem BytesQueue_run_bounded:
  assumes "0 \<le> c" and "c \<le> m" and "0 < m" and "m < 2 ^ 35" and "short_entries ops"
  shows "\<exists>q outs q' ies. NewBytesQueue c m v = Inr q \<and> bq_run q ops = Inr (outs, q')
      \<and> bq_rep q' ies \<and> int (BytesQueue_Capacity q') \<le> m \<and> BytesQueue_Len q' = length ies"
proof -
  from New_rep [OF assms(1)] obtain q where q: "NewBytesQueue c m v = Inr q" "bq_rep q []"
    "bq_capacity q = nat c" "bq_maxCapacity q = m" by blast
  from run_bounded [OF q(2) assms(5)] q assms obtain outs q' ies where
    "bq_run q ops = Inr (outs, q')" "bq_rep q' ies" "int (bq_capacity q') \<le> m" by auto
  with q count_rep [of q' ies] show ?thesis
    by (auto simp: BytesQueue_Capacity_def BytesQueue_Len_def)
qed

text \<open>
  A queue created at its capacity limit is a FIFO: whatever is pushed and popped, the pops
  answer the accepted entries in the order of the pushes.  (A queue that still grows may not be:
  growing a wrapped queue moves the newest entries before the oldest, C2.)
\<close>

theorem BytesQueue_fixed_fifo:
  assumes "0 < c" and "c < 2 ^ 35" and "short_entries ops"
  shows "\<exists>q outs q'. NewBytesQueue c c v = Inr q \<and> bq_run q ops = Inr (outs, q')
      \<and> fifo_trace [] ops outs"
proof -
  from New_rep [of c] assms(1) obtain q where q: "NewBytesQueue c c v = Inr q" "bq_rep q []"
    "bq_capacity q = nat c" "bq_maxCapacity q = c" by auto
  from run_bounded [OF q(2) assms(3)] q assms show ?thesis by auto
qed


section \<open>Concrete instances\<close>

text \<open>
  A queue of capacity 10, limit 100, after pushing three-byte entries 1, 2, popping the first and
  pushing 3: the last one has wrapped to index 1.
\<close>

definition wrapped_queue :: BytesQueue where
  "wrapped_queue = \<lparr>bq_full = True, bq_array = [0, 4, 3, 3, 3, 4, 2, 2, 2, 0], bq_capacity = 10,
     bq_maxCapacity = 100, bq_head = 5, bq_tail = 5, bq_count = 2, bq_rightMargin = 9,
     bq_headerBuffer = [4, 0, 0, 0, 0], bq_verbose = False\<rparr>"

lemma uvarint_bytes_4 [simp]: "uvarint_bytes 4 = [4]"
  by (simp add: uvarint_bytes.simps)

lemma wrapped_queue_rep: "bq_rep wrapped_queue [(5, [2, 2, 2]), (1, [3, 3, 3])]"
  unfolding bq_rep_def
  by (intro disjI2 exI [of _ "[(4, [2, 2, 2])]"] exI [of _ "[(4, [3, 3, 3])]"])
    (simp add: wrapped_queue_def bq_wrapped_def bq_wf_def leftMarginIndex_def)


text \<open>The queue is full, so the push grows it, and the entry 3 is now before the entry 2.\<close>

lemma BytesQueue_Push_correct_witness:
  "\<exists>i q'. BytesQueue_Push wrapped_queue [9] = Inr (Inr i, q')
     \<and> BytesQueue_Get q' (int i) = Inr (Inr [9])
     \<and> bq_rep q' [(1, [3, 3, 3]), (5, [2, 2, 2]), (i, [9])]"
proof -
  have "\<exists>i q'. BytesQueue_Push wrapped_queue [9] = Inr (Inr i, q')
     \<and> BytesQueue_Get q' (int i) = Inr (Inr [9])
     \<and> bq_rep q' [(1, [3, 3, 3]), (5, [2, 2, 2]), (i, [9])]
     \<and> bq_capacity q' = bq_newCapacity wrapped_queue (Suc (Suc 0))"
    using BytesQueue_Push_correct [OF wrapped_queue_rep, of "[9]"]
    by (simp add: Let_def canInsertAfterTail_def canInsertBeforeHead_def getNeededSize_def
      bq_unwrap_def gap_entry_def gap_block_def wrapped_queue_def)
  then show ?thesis by blast
qed

lemma BytesQueue_run_bounded_witness:
  "\<exists>q outs q' ies. NewBytesQueue 10 100 False = Inr q
     \<and> bq_run q [PushOp [1], PushOp [2], PopOp] = Inr (outs, q')
     \<and> bq_rep q' ies \<and> int (BytesQueue_Capacity q') \<le> 100 \<and> BytesQueue_Len q' = length ies"
  by (rule BytesQueue_run_bounded) (simp_all add: short_entries_def)

lemma BytesQueue_fixed_fifo_witness:
  "\<exists>q outs q'. NewBytesQueue 10 10 False = Inr q
     \<and> bq_run q [PushOp [1], PushOp [2], PopOp] = Inr (outs, q') \<and> fifo_trace [] [PushOp [1], PushOp [2], PopOp] outs"
  by (rule BytesQueue_fixed_fifo) (simp_all add: short_entries_def)

end
