(* ===== verification/Containers.thy ===== *)
theory Containers
  imports Fifo
begin

text \<open>
  The linked containers of \<^verbatim>\<open>go/container\<close>: the queue (\<^verbatim>\<open>queue/queue.go\<close>), the stack
  (\<^verbatim>\<open>stack/stack.go\<close>) and the doubly linked list (\<^verbatim>\<open>list/doublyLList.go\<close>).  A pointer is an
  optional index into the list of allocated nodes, so that aliasing and updates through pointers
  are explicit; allocation appends a node.  The package variables are the state record.  Loops and
  recursion along pointers are \<open>partial_function\<close>s: not returning is \<open>None\<close>.
\<close>

section \<open>Nodes\<close>

record Node =
  nd_Value :: int
  nd_Next :: "nat option"

type_synonym nodes = "Node list"

text \<open>Following a pointer that is nil panics.\<close>

definition deref :: "'n list \<Rightarrow> nat option \<Rightarrow> 'n go" where
  "deref h p = (case p of None \<Rightarrow> Inl NilDereference | Some a \<Rightarrow>
     (if a < length h then Inr (h ! a) else Inl NilDereference))"

text \<open>
  \<open>values_of h p\<close>: the values on the chain from \<open>p\<close>, as long as the pointers go to older nodes.
\<close>

function values_of :: "nodes \<Rightarrow> nat option \<Rightarrow> int list" where
  "values_of h None = []"
| "values_of h (Some a) = nd_Value (h ! a) #
     (case nd_Next (h ! a) of None \<Rightarrow> [] | Some b \<Rightarrow> if b < a then values_of h (Some b) else [])"
  by pat_completeness auto
termination by (relation "measure (\<lambda>(h, p). case p of None \<Rightarrow> 0 | Some a \<Rightarrow> Suc a)") auto

fun older :: "nat option \<Rightarrow> nat \<Rightarrow> bool" where
  "older None a = True"
| "older (Some b) a = (b < a)"

text \<open>Every node points to an older one.\<close>

definition nodes_ok :: "nodes \<Rightarrow> bool" where
  "nodes_ok h \<longleftrightarrow> (\<forall>a < length h. older (nd_Next (h ! a)) a)"

lemma older_bound: "nodes_ok h \<Longrightarrow> a < length h \<Longrightarrow> nd_Next (h ! a) = Some b \<Longrightarrow> b < a"
  unfolding nodes_ok_def by (metis older.simps(2))

lemma values_of_step:
  "nodes_ok h \<Longrightarrow> a < length h \<Longrightarrow>
   values_of h (Some a) = nd_Value (h ! a) # values_of h (nd_Next (h ! a))"
  by (auto split: option.splits dest: older_bound)

lemma values_of_cong:
  "older p n \<Longrightarrow> (\<And>b. b < n \<Longrightarrow> h' ! b = h ! b) \<Longrightarrow> values_of h' p = values_of h p"
  by (induction h p rule: values_of.induct) (auto split: option.splits)

lemma values_of_snoc:
  "older p (length h) \<Longrightarrow> values_of (h @ [n]) p = values_of h p"
  by (rule values_of_cong) (auto simp: nth_append)

lemma nodes_ok_snoc: "nodes_ok h \<Longrightarrow> older (nd_Next n) (length h) \<Longrightarrow> nodes_ok (h @ [n])"
  by (auto simp: nodes_ok_def nth_append less_Suc_eq)

lemma older_trans: "older p a \<Longrightarrow> a \<le> n \<Longrightarrow> older p n"
  by (cases p) auto

lemma values_of_push:
  assumes "nodes_ok h" and "older p (length h)"
  shows "values_of (h @ [\<lparr>nd_Value = v, nd_Next = p\<rparr>]) (Some (length h)) = v # values_of h p"
  using assms values_of_step [OF nodes_ok_snoc [OF assms(1), of "\<lparr>nd_Value = v, nd_Next = p\<rparr>"], of "length h"]
  by (simp add: values_of_snoc del: values_of.simps)

text \<open>The printing loop \<^verbatim>\<open>for t != nil\<close> of both \<^verbatim>\<open>traverse\<close> functions.\<close>

partial_function (option) print_from :: "nodes \<Rightarrow> nat option \<Rightarrow> int list option" where
  "print_from h t =
     (case t of None \<Rightarrow> Some []
      | Some a \<Rightarrow> Option.bind (print_from h (nd_Next (h ! a))) (\<lambda>vs. Some (nd_Value (h ! a) # vs)))"

lemma print_from_values:
  "nodes_ok h \<Longrightarrow> older p (length h) \<Longrightarrow> print_from h p = Some (values_of h p)"
proof (induction h p rule: values_of.induct)
  case (1 h)
  then show ?case by (simp add: print_from.simps [of h None])
next
  case (2 h a)
  show ?case
  proof (cases "nd_Next (h ! a)")
    case None
    then show ?thesis by (simp add: print_from.simps [of h "Some a"] print_from.simps [of h None])
  next
    case (Some b)
    then have "b < a" using 2 older_bound [of h a b] by simp
    with 2 Some have "print_from h (Some b) = Some (values_of h (Some b))" by simp
    with Some \<open>b < a\<close> show ?thesis by (simp add: print_from.simps [of h "Some a"] del: values_of.simps(2))
        (simp add: values_of.simps(2) [of h a])
  qed
qed

section \<open>The queue: queue/queue.go\<close>

text \<open>The package variables \<^verbatim>\<open>size\<close> and \<^verbatim>\<open>queue\<close>, and the allocated nodes.\<close>

record LQueue =
  lq_size :: int
  lq_queue :: "nat option"
  lq_nodes :: nodes

text \<open>\<^verbatim>\<open>main\<close> starts by setting \<^verbatim>\<open>queue = nil\<close>; the node the variable held before is garbage.\<close>

definition lq_init :: LQueue where
  "lq_init = \<lparr>lq_size = 0, lq_queue = None, lq_nodes = [\<lparr>nd_Value = 0, nd_Next = None\<rparr>]\<rparr>"

definition Queue_Push :: "LQueue \<Rightarrow> int \<Rightarrow> bool \<times> LQueue" where
  "Queue_Push s v =
     (case lq_queue s of
        None \<Rightarrow> (True, s\<lparr>lq_queue := Some (length (lq_nodes s)),
                        lq_nodes := lq_nodes s @ [\<lparr>nd_Value = v, nd_Next = None\<rparr>],
                        lq_size := lq_size s + 1\<rparr>)
      | Some q \<Rightarrow> (True, s\<lparr>lq_queue := Some (length (lq_nodes s)),
                          lq_nodes := lq_nodes s @ [\<lparr>nd_Value = v, nd_Next = Some q\<rparr>],
                          lq_size := lq_size s + 1\<rparr>))"

text \<open>\<^verbatim>\<open>for t.Next != nil { temp = t; t = t.Next }\<close>, answering \<^verbatim>\<open>temp\<close> and \<^verbatim>\<open>t\<close>.\<close>

partial_function (option) queue_walk :: "nodes \<Rightarrow> nat \<Rightarrow> nat \<Rightarrow> (nat \<times> nat) option" where
  "queue_walk h temp t =
     (case nd_Next (h ! t) of None \<Rightarrow> Some (temp, t) | Some t' \<Rightarrow> queue_walk h t t')"

definition Queue_Pop :: "LQueue \<Rightarrow> nat option \<Rightarrow> ((int \<times> bool \<times> LQueue) go) option" where
  "Queue_Pop s t =
     (if lq_size s = 0 then Some (Inr (0, False, s))
      else if lq_size s = 1
      then Some (bnd (deref (lq_nodes s) t) (\<lambda>n.
             Inr (nd_Value n, True, s\<lparr>lq_queue := None, lq_size := lq_size s - 1\<rparr>)))
      else case t of
             None \<Rightarrow> Some (Inl NilDereference)
           | Some a \<Rightarrow>
               map_option (\<lambda>(temp, _).
                 bnd (deref (lq_nodes s) (nd_Next (lq_nodes s ! temp))) (\<lambda>n.
                   Inr (nd_Value n, True,
                     s\<lparr>lq_nodes := (lq_nodes s)[temp := (lq_nodes s ! temp)\<lparr>nd_Next := None\<rparr>],
                       lq_size := lq_size s - 1\<rparr>)))
                 (queue_walk (lq_nodes s) a a))"

definition Queue_traverse :: "LQueue \<Rightarrow> nat option \<Rightarrow> int list option" where
  "Queue_traverse s t = (if lq_size s = 0 then Some [] else print_from (lq_nodes s) t)"

definition lq_inv :: "LQueue \<Rightarrow> bool" where
  "lq_inv s \<longleftrightarrow> nodes_ok (lq_nodes s) \<and> older (lq_queue s) (length (lq_nodes s))
     \<and> lq_size s = int (length (values_of (lq_nodes s) (lq_queue s)))"

definition lq_contents :: "LQueue \<Rightarrow> int list" where
  "lq_contents s = rev (values_of (lq_nodes s) (lq_queue s))"

lemma lq_init_inv: "lq_inv lq_init" and lq_init_contents: "lq_contents lq_init = []"
  by (simp_all add: lq_inv_def lq_init_def nodes_ok_def lq_contents_def)

lemma Queue_Push_eq:
  "Queue_Push s v = (True, s\<lparr>lq_queue := Some (length (lq_nodes s)),
      lq_nodes := lq_nodes s @ [\<lparr>nd_Value = v, nd_Next = lq_queue s\<rparr>], lq_size := lq_size s + 1\<rparr>)"
  by (simp add: Queue_Push_def split: option.splits)

lemma Queue_Push_ok:
  "lq_inv s \<Longrightarrow> lq_inv (snd (Queue_Push s v)) \<and> lq_contents (snd (Queue_Push s v)) = lq_contents s @ [v]"
  by (simp add: Queue_Push_eq lq_inv_def lq_contents_def values_of_push nodes_ok_snoc del: values_of.simps)

lemma values_of_Some: "values_of h (Some b) \<noteq> []"
  by simp

text \<open>The walk ends at the last node, with its predecessor; cutting it off drops the last value.\<close>

lemma queue_walk_ok:
  "nodes_ok h \<Longrightarrow> a < length h \<Longrightarrow> nd_Next (h ! a) \<noteq> None \<Longrightarrow>
   \<exists>temp t. queue_walk h x a = Some (temp, t) \<and> temp \<le> a \<and> nd_Next (h ! temp) = Some t \<and> t < temp
     \<and> nd_Value (h ! t) = last (values_of h (Some a))
     \<and> values_of (h[temp := (h ! temp)\<lparr>nd_Next := None\<rparr>]) (Some a) = butlast (values_of h (Some a))"
proof (induction a arbitrary: x rule: less_induct)
  case (less a)
  then obtain b where b: "nd_Next (h ! a) = Some b" by blast
  with less.prems have ba: "b < a" "b < length h" using older_bound [of h a b] by simp_all
  show ?case
  proof (cases "nd_Next (h ! b)")
    case None
    then have "queue_walk h x a = Some (a, b)"
      using b by (simp add: queue_walk.simps [of h x a] queue_walk.simps [of h a b])
    then show ?thesis using b ba None less.prems(2) by simp
  next
    case (Some c)
    with less.IH [OF ba(1) less.prems(1) ba(2), of a] obtain temp t where
      IH: "queue_walk h a b = Some (temp, t)" "temp \<le> b" "nd_Next (h ! temp) = Some t" "t < temp"
        "nd_Value (h ! t) = last (values_of h (Some b))"
        "values_of (h[temp := (h ! temp)\<lparr>nd_Next := None\<rparr>]) (Some b) = butlast (values_of h (Some b))"
      by auto
    have "queue_walk h x a = Some (temp, t)" using IH(1) b by (simp add: queue_walk.simps [of h x a])
    then show ?thesis using IH b ba less.prems(2)
      by (intro exI [of _ temp] exI [of _ t]) (auto simp del: values_of.simps(2) simp: values_of.simps(2) [of _ a] values_of_Some)
  qed
qed

lemma nodes_ok_cut: "nodes_ok h \<Longrightarrow> nodes_ok (h[a := (h ! a)\<lparr>nd_Next := None\<rparr>])"
  by (simp add: nodes_ok_def) (metis (no_types, lifting) Node.select_convs(2) Node.surjective Node.update_convs(2)
      nth_list_update_eq nth_list_update_neq older.simps(1))

lemma Queue_Pop_empty:
  "lq_inv s \<Longrightarrow> lq_contents s = [] \<Longrightarrow> Queue_Pop s (lq_queue s) = Some (Inr (0, False, s))"
  by (simp add: lq_inv_def lq_contents_def Queue_Pop_def)

lemma Queue_Pop_Cons:
  assumes inv: "lq_inv s" and con: "lq_contents s = x # xs"
  shows "\<exists>s'. Queue_Pop s (lq_queue s) = Some (Inr (x, True, s')) \<and> lq_inv s' \<and> lq_contents s' = xs"
proof -
  let ?h = "lq_nodes s"
  from con have vals: "values_of ?h (lq_queue s) = rev xs @ [x]"
    by (simp add: lq_contents_def rev_eq_Cons_iff)
  then obtain a where a: "lq_queue s = Some a" by (cases "lq_queue s") auto
  from inv have ok: "nodes_ok ?h" and al: "a < length ?h" and sz: "lq_size s = int (Suc (length xs))"
    using a vals by (simp_all add: lq_inv_def del: values_of.simps)
  have step: "nd_Value (?h ! a) # values_of ?h (nd_Next (?h ! a)) = rev xs @ [x]"
    using values_of_step [OF ok al] vals a by simp
  show ?thesis
  proof (cases "xs = []")
    case True
    with step have "nd_Value (?h ! a) = x" by simp
    with True sz a al ok show ?thesis
      by (simp add: Queue_Pop_def deref_def lq_inv_def lq_contents_def)
  next
    case False
    with step have "nd_Next (?h ! a) \<noteq> None" by (cases "nd_Next (?h ! a)") (auto simp: append_eq_Cons_conv)
    from queue_walk_ok [OF ok al this, of a] obtain temp t where
      w: "queue_walk ?h a a = Some (temp, t)" "temp \<le> a" "nd_Next (?h ! temp) = Some t" "t < temp"
        "nd_Value (?h ! t) = last (values_of ?h (Some a))"
        "values_of (?h[temp := (?h ! temp)\<lparr>nd_Next := None\<rparr>]) (Some a) = butlast (values_of ?h (Some a))"
      by blast
    from False sz have "lq_size s \<noteq> 0" "lq_size s \<noteq> 1" by auto
    then have "Queue_Pop s (lq_queue s) = Some (Inr (x, True,
        s\<lparr>lq_nodes := ?h[temp := (?h ! temp)\<lparr>nd_Next := None\<rparr>], lq_size := lq_size s - 1\<rparr>))"
      using w vals a al by (simp add: Queue_Pop_def deref_def del: values_of.simps)
    with w vals a al ok sz show ?thesis
      by (simp add: lq_inv_def lq_contents_def nodes_ok_cut del: values_of.simps)
  qed
qed

text \<open>The queue provides the contract of \<open>fifo\<close>; a walk that did not return would be a panic here.\<close>

definition queue_deq :: "LQueue \<Rightarrow> (int \<times> bool \<times> LQueue) go" where
  "queue_deq s = (case Queue_Pop s (lq_queue s) of None \<Rightarrow> Inl (PanicMsg ''no return'') | Some r \<Rightarrow> r)"

definition queue_enq :: "LQueue \<Rightarrow> int \<Rightarrow> LQueue go" where
  "queue_enq s v = Inr (snd (Queue_Push s v))"

interpretation lqueue: fifo lq_inv lq_contents 0 queue_enq queue_deq
proof
  show "\<exists>q'. queue_enq q x = Inr q' \<and> lq_inv q' \<and> lq_contents q' = lq_contents q @ [x]"
    if "lq_inv q" for q x using Queue_Push_ok [OF that] by (auto simp: queue_enq_def)
  show "queue_deq q = Inr (0, False, q)" if "lq_inv q" "lq_contents q = []" for q
    using Queue_Pop_empty [OF that] by (simp add: queue_deq_def)
  show "\<exists>q'. queue_deq q = Inr (x, True, q') \<and> lq_inv q' \<and> lq_contents q' = xs"
    if "lq_inv q" "lq_contents q = x # xs" for q x xs
    using Queue_Pop_Cons [OF that] by (auto simp: queue_deq_def)
qed

section \<open>The stack: stack/stack.go\<close>

record LStack =
  ls_size :: int
  ls_stack :: "nat option"
  ls_nodes :: nodes

definition ls_init :: LStack where
  "ls_init = \<lparr>ls_size = 0, ls_stack = None, ls_nodes = [\<lparr>nd_Value = 0, nd_Next = None\<rparr>]\<rparr>"

definition Stack_Push :: "LStack \<Rightarrow> int \<Rightarrow> bool \<times> LStack" where
  "Stack_Push s v =
     (case ls_stack s of
        None \<Rightarrow> (True, s\<lparr>ls_stack := Some (length (ls_nodes s)),
                        ls_nodes := ls_nodes s @ [\<lparr>nd_Value = v, nd_Next = None\<rparr>], ls_size := 1\<rparr>)
      | Some p \<Rightarrow> (True, s\<lparr>ls_stack := Some (length (ls_nodes s)),
                          ls_nodes := ls_nodes s @ [\<lparr>nd_Value = v, nd_Next = Some p\<rparr>],
                          ls_size := ls_size s + 1\<rparr>))"

definition Stack_Pop :: "LStack \<Rightarrow> nat option \<Rightarrow> (int \<times> bool \<times> LStack) go" where
  "Stack_Pop s t =
     (if ls_size s = 0 then Inr (0, False, s)
      else if ls_size s = 1
      then bnd (deref (ls_nodes s) t) (\<lambda>n. Inr (nd_Value n, True, s\<lparr>ls_size := 0, ls_stack := None\<rparr>))
      else bnd (deref (ls_nodes s) (ls_stack s)) (\<lambda>top.
             let s1 = s\<lparr>ls_stack := nd_Next top, ls_size := ls_size s - 1\<rparr> in
             bnd (deref (ls_nodes s) t) (\<lambda>n. Inr (nd_Value n, True, s1))))"

definition Stack_traverse :: "LStack \<Rightarrow> nat option \<Rightarrow> int list option" where
  "Stack_traverse s t = (if ls_size s = 0 then Some [] else print_from (ls_nodes s) t)"

definition ls_inv :: "LStack \<Rightarrow> bool" where
  "ls_inv s \<longleftrightarrow> nodes_ok (ls_nodes s) \<and> older (ls_stack s) (length (ls_nodes s))
     \<and> ls_size s = int (length (values_of (ls_nodes s) (ls_stack s)))"

definition ls_contents :: "LStack \<Rightarrow> int list" where
  "ls_contents s = values_of (ls_nodes s) (ls_stack s)"

fun stack_run :: "LStack \<Rightarrow> int queue_op list \<Rightarrow> ((int \<times> bool) list \<times> LStack) go" where
  "stack_run s [] = Inr ([], s)"
| "stack_run s (EnqOp v # ops) = stack_run (snd (Stack_Push s v)) ops"
| "stack_run s (DeqOp # ops) = bnd (Stack_Pop s (ls_stack s)) (\<lambda>(v, ok, s').
     bnd (stack_run s' ops) (\<lambda>(as, s''). Inr ((v, ok) # as, s'')))"

fun list_stack_run :: "int list \<Rightarrow> int queue_op list \<Rightarrow> (int \<times> bool) list \<times> int list" where
  "list_stack_run xs [] = ([], xs)"
| "list_stack_run xs (EnqOp v # ops) = list_stack_run (v # xs) ops"
| "list_stack_run [] (DeqOp # ops) = (let (as, ys) = list_stack_run [] ops in ((0, False) # as, ys))"
| "list_stack_run (x # xs) (DeqOp # ops) =
     (let (as, ys) = list_stack_run xs ops in ((x, True) # as, ys))"

lemma Stack_Push_ok:
  "ls_inv s \<Longrightarrow> ls_inv (snd (Stack_Push s v)) \<and> ls_contents (snd (Stack_Push s v)) = v # ls_contents s"
  using values_of_push [of "ls_nodes s" "ls_stack s" v]
  by (auto simp: Stack_Push_def ls_inv_def ls_contents_def nodes_ok_snoc simp del: values_of.simps(2)
      split: option.splits)

lemma Stack_Pop_ok:
  assumes inv: "ls_inv s"
  shows "\<exists>s'. Stack_Pop s (ls_stack s) = Inr
           (case ls_contents s of [] \<Rightarrow> 0 | x # _ \<Rightarrow> x, ls_contents s \<noteq> [], s')
       \<and> ls_inv s' \<and> ls_contents s' = tl (ls_contents s)"
proof (cases "ls_stack s")
  case None
  with inv show ?thesis by (simp add: ls_inv_def ls_contents_def Stack_Pop_def)
next
  case (Some a)
  let ?n = "ls_nodes s ! a"
  from inv Some have ok: "nodes_ok (ls_nodes s)" and al: "a < length (ls_nodes s)"
    by (simp_all add: ls_inv_def)
  note step = values_of_step [OF ok al]
  have nx: "older (nd_Next ?n) (length (ls_nodes s))"
    using ok al unfolding nodes_ok_def by (blast intro: older_trans less_imp_le)
  show ?thesis
  proof (cases "values_of (ls_nodes s) (nd_Next ?n) = []")
    case True
    with inv Some al step ok show ?thesis
      by (simp add: ls_inv_def ls_contents_def Stack_Pop_def deref_def del: values_of.simps(2))
  next
    case False
    then have "ls_size s \<noteq> 0" "ls_size s \<noteq> 1" using inv Some step by (simp_all add: ls_inv_def)
    with inv Some al step ok nx show ?thesis
      by (simp add: ls_inv_def ls_contents_def Stack_Pop_def deref_def Let_def del: values_of.simps(2))
  qed
qed

lemma stack_run_ok:
  "ls_inv s \<Longrightarrow> \<exists>s'. stack_run s ops = Inr (fst (list_stack_run (ls_contents s) ops), s')
     \<and> ls_inv s' \<and> ls_contents s' = snd (list_stack_run (ls_contents s) ops)"
proof (induction ops arbitrary: s)
  case Nil
  then show ?case by simp
next
  case (Cons op ops)
  show ?case
  proof (cases op)
    case (EnqOp v)
    with Cons.IH [of "snd (Stack_Push s v)"] Stack_Push_ok [OF Cons.prems] show ?thesis by simp
  next
    case DeqOp
    from Stack_Pop_ok [OF Cons.prems] obtain s' where
      "Stack_Pop s (ls_stack s) = Inr (case ls_contents s of [] \<Rightarrow> 0 | x # _ \<Rightarrow> x, ls_contents s \<noteq> [], s')"
      "ls_inv s'" "ls_contents s' = tl (ls_contents s)" by blast
    with Cons.IH [of s'] DeqOp show ?thesis
      by (cases "ls_contents s") (auto split: prod.splits)
  qed
qed

section \<open>The doubly linked list: list/doublyLList.go\<close>

record DNode =
  dn_Value :: int
  dn_Previous :: "nat option"
  dn_Next :: "nat option"

text \<open>The allocated nodes and the package variable \<^verbatim>\<open>root\<close>.\<close>

record DList =
  dl_nodes :: "DNode list"
  dl_root :: "nat option"

text \<open>
  The recursion follows \<^verbatim>\<open>t.Next\<close>; comparing \<^verbatim>\<open>t.Value\<close> of a nil \<^verbatim>\<open>t\<close> panics.  The outer option is
  \<open>None\<close> when the recursion does not return.
\<close>

partial_function (option) addNode :: "DList \<Rightarrow> nat option \<Rightarrow> int \<Rightarrow> ((int \<times> DList) go) option" where
  "addNode s t v =
     (if dl_root s = None
      then Some (Inr (0, s\<lparr>dl_nodes := dl_nodes s @ [\<lparr>dn_Value = v, dn_Previous = None, dn_Next = None\<rparr>],
                           dl_root := Some (length (dl_nodes s))\<rparr>))
      else case t of
             None \<Rightarrow> Some (Inl NilDereference)
           | Some a \<Rightarrow>
               if v = dn_Value (dl_nodes s ! a) then Some (Inr (-1, s))
               else if dn_Next (dl_nodes s ! a) = None
               then let temp = Some a;
                        new = \<lparr>dn_Value = v, dn_Previous = temp, dn_Next = None\<rparr>
                    in Some (Inr (-2, s\<lparr>dl_nodes :=
                         (dl_nodes s)[a := (dl_nodes s ! a)\<lparr>dn_Next := Some (length (dl_nodes s))\<rparr>] @ [new]\<rparr>))
               else addNode s (dn_Next (dl_nodes s ! a)) v)"

partial_function (option) lookupNode :: "DList \<Rightarrow> nat option \<Rightarrow> int \<Rightarrow> (bool go) option" where
  "lookupNode s t v =
     (if dl_root s = None then Some (Inr False)
      else case t of
             None \<Rightarrow> Some (Inl NilDereference)
           | Some a \<Rightarrow>
               if v = dn_Value (dl_nodes s ! a) then Some (Inr True)
               else if dn_Next (dl_nodes s ! a) = None then Some (Inr False)
               else lookupNode s (dn_Next (dl_nodes s ! a)) v)"

text \<open>The values \<^verbatim>\<open>traverse\<close> and \<^verbatim>\<open>reverse\<close> print, and the count of \<^verbatim>\<open>size\<close>.\<close>

partial_function (option) dl_traverse :: "DNode list \<Rightarrow> nat option \<Rightarrow> int list option" where
  "dl_traverse h t =
     (case t of None \<Rightarrow> Some []
      | Some a \<Rightarrow> Option.bind (dl_traverse h (dn_Next (h ! a))) (\<lambda>vs. Some (dn_Value (h ! a) # vs)))"

partial_function (option) dl_last :: "DNode list \<Rightarrow> nat \<Rightarrow> nat option \<Rightarrow> nat option" where
  "dl_last h temp t = (case t of None \<Rightarrow> Some temp | Some a \<Rightarrow> dl_last h a (dn_Next (h ! a)))"

partial_function (option) dl_backward :: "DNode list \<Rightarrow> nat \<Rightarrow> int list option" where
  "dl_backward h temp =
     (case dn_Previous (h ! temp) of
        None \<Rightarrow> Some [dn_Value (h ! temp)]
      | Some p \<Rightarrow> Option.bind (dl_backward h p) (\<lambda>vs. Some (dn_Value (h ! temp) # vs)))"

definition dl_reverse :: "DNode list \<Rightarrow> nat option \<Rightarrow> int list option" where
  "dl_reverse h t =
     (case t of None \<Rightarrow> Some []
      | Some a \<Rightarrow> (case dl_last h a (Some a) of None \<Rightarrow> None | Some l \<Rightarrow> dl_backward h l))"

partial_function (option) dl_size :: "DNode list \<Rightarrow> nat \<Rightarrow> nat option \<Rightarrow> nat option" where
  "dl_size h n t = (case t of None \<Rightarrow> Some n | Some a \<Rightarrow> dl_size h (n + 1) (dn_Next (h ! a)))"

text \<open>
  A well-formed segment: addresses \<open>as\<close> linked in both directions, from a node whose predecessor
  is \<open>p\<close> to the end of the list.
\<close>

fun dl_seg :: "DNode list \<Rightarrow> nat option \<Rightarrow> nat option \<Rightarrow> nat list \<Rightarrow> bool" where
  "dl_seg h p t [] = (t = None)"
| "dl_seg h p t (a # as) =
     (t = Some a \<and> a < length h \<and> dn_Previous (h ! a) = p \<and> dl_seg h (Some a) (dn_Next (h ! a)) as)"

definition dl_rep :: "DList \<Rightarrow> int list \<Rightarrow> bool" where
  "dl_rep s vs \<longleftrightarrow> (\<exists>as. dl_seg (dl_nodes s) None (dl_root s) as \<and> distinct as
     \<and> vs = map (\<lambda>a. dn_Value (dl_nodes s ! a)) as)"

lemma dl_walk_simps [simp]:
  "dl_traverse h None = Some []"
  "dl_traverse h (Some a) =
     Option.bind (dl_traverse h (dn_Next (h ! a))) (\<lambda>vs. Some (dn_Value (h ! a) # vs))"
  "dl_size h n None = Some n"
  "dl_size h n (Some a) = dl_size h (n + 1) (dn_Next (h ! a))"
  "dl_last h x None = Some x"
  "dl_last h x (Some a) = dl_last h a (dn_Next (h ! a))"
  by (simp_all add: dl_traverse.simps [of h None] dl_traverse.simps [of h "Some a"]
      dl_size.simps [of h n] dl_last.simps [of h x])

lemma dl_seg_cong:
  "(\<And>a. a \<in> set as \<Longrightarrow> a < length h' \<and> h' ! a = h ! a) \<Longrightarrow> dl_seg h p t as \<Longrightarrow> dl_seg h' p t as"
  by (induction as arbitrary: p t) auto

lemma dl_seg_bound: "dl_seg h p t as \<Longrightarrow> a \<in> set as \<Longrightarrow> a < length h"
  by (induction as arbitrary: p t) auto

lemma dl_traverse_seg:
  "dl_seg h p t as \<Longrightarrow> dl_traverse h t = Some (map (\<lambda>a. dn_Value (h ! a)) as)"
  by (induction as arbitrary: p t) auto

lemma dl_size_seg: "dl_seg h p t as \<Longrightarrow> dl_size h n t = Some (n + length as)"
  by (induction as arbitrary: p t n) auto

lemma dl_last_seg: "dl_seg h p t as \<Longrightarrow> dl_last h x t = Some (if as = [] then x else last as)"
  by (induction as arbitrary: p t x) auto

lemma dl_seg_prefix:
  "dl_seg h p t (as @ bs) \<Longrightarrow> as \<noteq> [] \<Longrightarrow> dl_seg h (Some (last as)) (dn_Next (h ! last as)) bs"
  by (induction as arbitrary: p t) auto

text \<open>Reading backward along \<^verbatim>\<open>Previous\<close>: the predecessors of the segment are its reverse.\<close>

lemma dl_backward_seg:
  "dl_seg h None t (as @ bs) \<Longrightarrow> as \<noteq> [] \<Longrightarrow>
   dl_backward h (last as) = Some (map (\<lambda>a. dn_Value (h ! a)) (rev as))"
proof (induction as arbitrary: bs rule: rev_induct)
  case (snoc a as)
  have pre: "dn_Previous (h ! a) = (if as = [] then None else Some (last as))"
  proof -
    have "dl_seg h None t (as @ a # bs)" using snoc.prems(1) by simp
    then show ?thesis
      by (cases "as = []") (auto dest: dl_seg_prefix [of h None t as "a # bs"])
  qed
  show ?case
  proof (cases "as = []")
    case True
    with pre show ?thesis by (simp add: dl_backward.simps [of h a])
  next
    case False
    with snoc.IH [of "a # bs"] snoc.prems(1) pre show ?thesis by (simp add: dl_backward.simps [of h a])
  qed
qed simp

lemma dl_reverse_seg:
  "dl_seg h None t as \<Longrightarrow> dl_reverse h t = Some (rev (map (\<lambda>a. dn_Value (h ! a)) as))"
  using dl_backward_seg [of h t as "[]"] dl_last_seg [of h None t as]
  by (cases as) (auto simp: dl_reverse_def rev_map)

lemma lookupNode_seg:
  "dl_seg (dl_nodes s) p t as \<Longrightarrow> dl_root s \<noteq> None \<Longrightarrow> as \<noteq> [] \<Longrightarrow>
   lookupNode s t v = Some (Inr (v \<in> (\<lambda>a. dn_Value (dl_nodes s ! a)) ` set as))"
proof (induction as arbitrary: p t)
  case (Cons a as)
  then show ?case by (cases as) (auto simp: lookupNode.simps [of s])
qed simp

definition dl_append :: "DList \<Rightarrow> nat \<Rightarrow> int \<Rightarrow> DList" where
  "dl_append s l v = s\<lparr>dl_nodes :=
     (dl_nodes s)[l := (dl_nodes s ! l)\<lparr>dn_Next := Some (length (dl_nodes s))\<rparr>]
       @ [\<lparr>dn_Value = v, dn_Previous = Some l, dn_Next = None\<rparr>]\<rparr>"

lemma addNode_seg:
  "dl_seg (dl_nodes s) p t as \<Longrightarrow> dl_root s \<noteq> None \<Longrightarrow> as \<noteq> [] \<Longrightarrow>
   addNode s t v = Some (Inr (if v \<in> (\<lambda>a. dn_Value (dl_nodes s ! a)) ` set as then (-1, s)
     else (-2, dl_append s (last as) v)))"
proof (induction as arbitrary: p t)
  case (Cons a as)
  then show ?case by (cases as) (auto simp: addNode.simps [of s] dl_append_def)
qed simp

lemma dl_append_seg:
  "dl_seg (dl_nodes s) p t as \<Longrightarrow> as \<noteq> [] \<Longrightarrow> distinct as \<Longrightarrow>
   dl_seg (dl_nodes (dl_append s (last as) v)) p t (as @ [length (dl_nodes s)])"
proof (induction as arbitrary: p t)
  case (Cons a as)
  show ?case
  proof (cases "as = []")
    case True
    with Cons.prems show ?thesis by (simp add: dl_append_def nth_append)
  next
    case False
    with Cons.prems have "last as \<noteq> a" by (metis distinct.simps(2) last_in_set)
    with Cons False show ?thesis by (simp add: dl_append_def nth_append)
  qed
qed simp

lemma addNode_rep:
  assumes "dl_rep s vs"
  shows "\<exists>s'. addNode s (dl_root s) v =
       Some (Inr (if vs = [] then 0 else if v \<in> set vs then -1 else -2, s'))
     \<and> dl_rep s' (if v \<in> set vs then vs else vs @ [v])"
proof -
  from assms obtain as where seg: "dl_seg (dl_nodes s) None (dl_root s) as" and d: "distinct as"
    and vs: "vs = map (\<lambda>a. dn_Value (dl_nodes s ! a)) as" unfolding dl_rep_def by blast
  show ?thesis
  proof (cases "as = []")
    case True
    with seg vs show ?thesis
      by (auto simp: addNode.simps [of s] dl_rep_def intro!: exI [of _ "[length (dl_nodes s)]"])
  next
    case False
    with seg have root: "dl_root s \<noteq> None" by (cases as) auto
    note add = addNode_seg [OF seg root False, of v]
    show ?thesis
    proof (cases "v \<in> set vs")
      case True
      with add assms vs False show ?thesis by auto
    next
      case False
      let ?s = "dl_append s (last as) v"
      have ne: "as \<noteq> []" using \<open>as \<noteq> []\<close> .
      have new: "length (dl_nodes s) \<notin> set as" using dl_seg_bound [OF seg] by blast
      have val: "dn_Value (dl_nodes ?s ! a) = dn_Value (dl_nodes s ! a)" if "a \<in> set as" for a
        using dl_seg_bound [OF seg that] dl_seg_bound [OF seg last_in_set [OF ne]]
        by (simp add: dl_append_def nth_append nth_list_update)
      have "dl_rep ?s (vs @ [v])"
        unfolding dl_rep_def
      proof (intro exI conjI)
        show "dl_seg (dl_nodes ?s) None (dl_root ?s) (as @ [length (dl_nodes s)])"
          using dl_append_seg [OF seg ne d, of v] by (simp add: dl_append_def)
        show "distinct (as @ [length (dl_nodes s)])" using d new by simp
        show "vs @ [v] = map (\<lambda>a. dn_Value (dl_nodes ?s ! a)) (as @ [length (dl_nodes s)])"
          using val vs by (simp add: dl_append_def nth_append)
      qed
      with add False vs ne show ?thesis by auto
    qed
  qed
qed

text \<open>Adding a sequence of values, collecting what \<^verbatim>\<open>addNode\<close> answers.\<close>

fun addNodes :: "DList \<Rightarrow> int list \<Rightarrow> ((int list \<times> DList) go) option" where
  "addNodes s [] = Some (Inr ([], s))"
| "addNodes s (v # vs) =
     (case addNode s (dl_root s) v of
        None \<Rightarrow> None
      | Some (Inl p) \<Rightarrow> Some (Inl p)
      | Some (Inr (r, s1)) \<Rightarrow>
          (case addNodes s1 vs of
             None \<Rightarrow> None
           | Some (Inl p) \<Rightarrow> Some (Inl p)
           | Some (Inr (rs, s2)) \<Rightarrow> Some (Inr (r # rs, s2))))"

fun add_answers :: "int list \<Rightarrow> int list \<Rightarrow> int list" where
  "add_answers seen [] = []"
| "add_answers seen (v # vs) =
     (if seen = [] then 0 else if v \<in> set seen then -1 else -2)
       # add_answers (if v \<in> set seen then seen else seen @ [v]) vs"

fun add_values :: "int list \<Rightarrow> int list \<Rightarrow> int list" where
  "add_values seen [] = seen"
| "add_values seen (v # vs) = add_values (if v \<in> set seen then seen else seen @ [v]) vs"

lemma addNodes_rep:
  "dl_rep s seen \<Longrightarrow> \<exists>s'. addNodes s vs = Some (Inr (add_answers seen vs, s'))
     \<and> dl_rep s' (add_values seen vs)"
proof (induction vs arbitrary: s seen)
  case (Cons v vs)
  from addNode_rep [OF Cons.prems, of v] obtain s1 where
    "addNode s (dl_root s) v =
       Some (Inr (if seen = [] then 0 else if v \<in> set seen then -1 else -2, s1))"
    "dl_rep s1 (if v \<in> set seen then seen else seen @ [v])" by blast
  with Cons.IH [of s1 "if v \<in> set seen then seen else seen @ [v]"] show ?case by auto
qed simp

lemma set_add_values [simp]: "set (add_values seen vs) = set seen \<union> set vs"
  by (induction seen vs rule: add_values.induct) auto

lemma distinct_add_values: "distinct seen \<Longrightarrow> distinct (add_values seen vs)"
  by (induction seen vs rule: add_values.induct) auto

lemma dl_rep_reads:
  assumes "dl_rep s vs"
  shows "dl_traverse (dl_nodes s) (dl_root s) = Some vs"
    and "dl_reverse (dl_nodes s) (dl_root s) = Some (rev vs)"
    and "dl_size (dl_nodes s) 0 (dl_root s) = Some (length vs)"
    and "lookupNode s (dl_root s) v = Some (Inr (v \<in> set vs))"
proof -
  from assms obtain as where seg: "dl_seg (dl_nodes s) None (dl_root s) as"
    and vs: "vs = map (\<lambda>a. dn_Value (dl_nodes s ! a)) as" unfolding dl_rep_def by blast
  from dl_traverse_seg [OF seg] vs show "dl_traverse (dl_nodes s) (dl_root s) = Some vs" by simp
  from dl_reverse_seg [OF seg] vs show "dl_reverse (dl_nodes s) (dl_root s) = Some (rev vs)" by simp
  from dl_size_seg [OF seg, of 0] vs show "dl_size (dl_nodes s) 0 (dl_root s) = Some (length vs)" by simp
  show "lookupNode s (dl_root s) v = Some (Inr (v \<in> set vs))"
  proof (cases "as = []")
    case True
    with seg vs show ?thesis by (simp add: lookupNode.simps [of s])
  next
    case False
    then have "dl_root s \<noteq> None" using seg by (cases as) auto
    with lookupNode_seg [OF seg this False, of v] vs show ?thesis by simp
  qed
qed

definition dl_init :: DList where
  "dl_init = \<lparr>dl_nodes = [\<lparr>dn_Value = 0, dn_Previous = None, dn_Next = None\<rparr>], dl_root = None\<rparr>"

lemma dl_init_rep: "dl_rep dl_init []"
  by (auto simp: dl_rep_def dl_init_def intro!: exI [of _ "[]"])

section \<open>Properties\<close>

text \<open>
  The linked queue is a FIFO: any sequence of Push and Pop answers what it answers on a plain
  list, every Pop returns (its walk along the pointers ends), and none follows a nil pointer.
\<close>

theorem Queue_refines_fifo:
  "\<exists>s. queue_run queue_enq queue_deq lq_init ops = Inr (fst (list_run 0 [] ops), s)
     \<and> Queue_traverse s (lq_queue s) = Some (rev (snd (list_run 0 [] ops)))
     \<and> lq_size s = int (length (snd (list_run 0 [] ops)))"
proof -
  from lqueue.run_refines_list [OF lq_init_inv, of ops] lq_init_contents obtain s where
    "queue_run queue_enq queue_deq lq_init ops = Inr (fst (list_run 0 [] ops), s)"
    "lq_inv s" "snd (list_run 0 [] ops) = lq_contents s" by auto
  then show ?thesis
    by (intro exI [of _ s]) (auto simp: lq_contents_def Queue_traverse_def lq_inv_def print_from_values)
qed

text \<open>
  The linked stack is a LIFO: any sequence of Push and Pop answers what it answers on a plain
  list used as a stack, an empty Pop answers 0 and false, and none follows a nil pointer.
\<close>

theorem Stack_refines_lifo:
  "\<exists>s. stack_run ls_init ops = Inr (fst (list_stack_run [] ops), s)
     \<and> Stack_traverse s (ls_stack s) = Some (snd (list_stack_run [] ops))
     \<and> ls_size s = int (length (snd (list_stack_run [] ops)))"
proof -
  have "ls_inv ls_init" "ls_contents ls_init = []"
    by (simp_all add: ls_inv_def ls_init_def nodes_ok_def ls_contents_def)
  with stack_run_ok [of ls_init ops] obtain s where
    "stack_run ls_init ops = Inr (fst (list_stack_run [] ops), s)"
    "ls_inv s" "ls_contents s = snd (list_stack_run [] ops)" by auto
  then show ?thesis
    by (intro exI [of _ s]) (auto simp: ls_contents_def Stack_traverse_def ls_inv_def print_from_values)
qed

text \<open>
  Adding values to an empty doubly linked list keeps each value once, in the order of its
  first occurrence; the answers are 0 for the first, -1 for a value already present and -2 for one
  appended.  Afterwards the forward and the backward pointers agree: \<^verbatim>\<open>traverse\<close> prints the values,
  \<^verbatim>\<open>reverse\<close> prints them backward, \<^verbatim>\<open>size\<close> counts them and \<^verbatim>\<open>lookupNode\<close> finds exactly those.
\<close>

theorem DList_addNodes_correct:
  "\<exists>s vs. addNodes dl_init xs = Some (Inr (add_answers [] xs, s))
     \<and> vs = add_values [] xs \<and> distinct vs \<and> set vs = set xs
     \<and> dl_traverse (dl_nodes s) (dl_root s) = Some vs
     \<and> dl_reverse (dl_nodes s) (dl_root s) = Some (rev vs)
     \<and> dl_size (dl_nodes s) 0 (dl_root s) = Some (length vs)
     \<and> (\<forall>v. lookupNode s (dl_root s) v = Some (Inr (v \<in> set xs)))"
proof -
  from addNodes_rep [OF dl_init_rep, of xs] obtain s where
    "addNodes dl_init xs = Some (Inr (add_answers [] xs, s))" "dl_rep s (add_values [] xs)" by blast
  with dl_rep_reads [OF this(2)] distinct_add_values [of "[]" xs] show ?thesis
    by (intro exI [of _ s] exI [of _ "add_values [] xs"]) simp
qed

end
