(* ===== verification/KvCache.thy ===== *)
theory KvCache
  imports Prelude
begin

text \<open>
  The contract a read-through client needs of a cache: a lookup answers only stored pairs, and no
  operation stores anything but the pair added.  A cache may forget pairs at any time.  The client
  of this contract answers what the source answers, whatever the cache forgets.
\<close>

text \<open>Look up, else load from the source and fill the cache.\<close>

definition read_through ::
  "('c \<Rightarrow> 'k \<Rightarrow> ('v option \<times> 'c) go) \<Rightarrow> ('c \<Rightarrow> 'k \<Rightarrow> 'v \<Rightarrow> ('c go) option) \<Rightarrow> ('k \<Rightarrow> 'e + 'v)
     \<Rightarrow> 'c \<Rightarrow> 'k \<Rightarrow> ((('e + 'v) \<times> 'c) go) option" where
  "read_through get add load c k =
     (case get c k of
        Inl p \<Rightarrow> Some (Inl p)
      | Inr (Some v, c') \<Rightarrow> Some (Inr (Inr v, c'))
      | Inr (None, c') \<Rightarrow>
          (case load k of
             Inl e \<Rightarrow> Some (Inr (Inl e, c'))
           | Inr v \<Rightarrow> map_option (map_sum id (\<lambda>c''. (Inr v, c''))) (add c' k v)))"

locale kv_cache =
  fixes inv :: "'c \<Rightarrow> bool"
    and stored :: "'c \<Rightarrow> ('k \<times> 'v) set"
    and get :: "'c \<Rightarrow> 'k \<Rightarrow> ('v option \<times> 'c) go"
    and add :: "'c \<Rightarrow> 'k \<Rightarrow> 'v \<Rightarrow> ('c go) option"
  assumes get_ok: "inv c \<Longrightarrow> \<exists>r c'. get c k = Inr (r, c') \<and> inv c' \<and> stored c' \<subseteq> stored c
            \<and> (\<forall>v. r = Some v \<longrightarrow> (k, v) \<in> stored c)"
    and add_ok: "inv c \<Longrightarrow> \<exists>c'. add c k v = Some (Inr c') \<and> inv c'
            \<and> stored c' \<subseteq> insert (k, v) (stored c)"
begin

definition fresh :: "('k \<Rightarrow> 'e + 'v) \<Rightarrow> 'c \<Rightarrow> bool" where
  "fresh load c \<longleftrightarrow> inv c \<and> (\<forall>(k, v) \<in> stored c. load k = Inr v)"

lemma read_through_transparent:
  assumes "fresh load c"
  shows "\<exists>c'. read_through get add load c k = Some (Inr (load k, c')) \<and> fresh load c'"
proof -
  from assms have inv: "inv c" and st: "\<And>k v. (k, v) \<in> stored c \<Longrightarrow> load k = Inr v"
    by (auto simp: fresh_def)
  from get_ok [OF inv, of k] obtain r c1 where g: "get c k = Inr (r, c1)" "inv c1"
    "stored c1 \<subseteq> stored c" "\<And>v. r = Some v \<Longrightarrow> (k, v) \<in> stored c" by blast
  then have f1: "fresh load c1" using st by (auto simp: fresh_def)
  show ?thesis
  proof (cases r)
    case (Some v)
    with g st f1 show ?thesis by (auto simp: read_through_def)
  next
    case None
    show ?thesis
    proof (cases "load k")
      case (Inl e)
      with g None f1 show ?thesis by (auto simp: read_through_def)
    next
      case (Inr v)
      from add_ok [OF g(2), of k v] obtain c2 where "add c1 k v = Some (Inr c2)" "inv c2"
        "stored c2 \<subseteq> insert (k, v) (stored c1)" by blast
      with g None Inr f1 st show ?thesis by (auto simp: read_through_def fresh_def)
    qed
  qed
qed

end

end
