(* ===== verification/Lru.thy ===== *)
theory Lru
  imports Prelude
begin

text \<open>
  The least-recently-used cache of \<^verbatim>\<open>gocache/lrucache/lru/lru.go\<close>.  The \<^verbatim>\<open>container/list\<close> list is the
  list of its elements, front first; an element is an identity (its pointer) and the entry it
  points to, and the map \<^verbatim>\<open>cache\<close> holds identities.  \<^verbatim>\<open>Value.Len\<close> is a parameter \<open>vlen\<close>, and the
  calls of \<^verbatim>\<open>OnEvicted\<close> are logged.  Byte counts are integers: a count that overflows \<^verbatim>\<open>int64\<close> needs
  more memory than an address space has.  The eviction loop is a \<open>partial_function\<close>, whose \<open>None\<close>
  is a loop that never ends.
\<close>

type_synonym 'v lru_element = "nat \<times> string \<times> 'v"

record 'v Cache =
  lc_maxBytes :: int
  lc_nBytes :: int
  lc_ll :: "'v lru_element list"
  lc_cache :: "string \<rightharpoonup> nat"
  lc_OnEvicted :: bool
  lc_evicted :: "(string \<times> 'v) list"
  lc_fresh :: nat

definition lru_New :: "int \<Rightarrow> bool \<Rightarrow> 'v Cache" where
  "lru_New maxBytes onEvicted =
     \<lparr>lc_maxBytes = maxBytes, lc_nBytes = 0, lc_ll = [], lc_cache = Map.empty,
      lc_OnEvicted = onEvicted, lc_evicted = [], lc_fresh = 0\<rparr>"

definition MoveToFront :: "'v lru_element list \<Rightarrow> nat \<Rightarrow> 'v lru_element list" where
  "MoveToFront ll e = filter (\<lambda>x. fst x = e) ll @ filter (\<lambda>x. fst x \<noteq> e) ll"

text \<open>The entry an element points to; every element of the map is in the list.\<close>

definition element_entry :: "'v lru_element list \<Rightarrow> nat \<Rightarrow> (string \<times> 'v) go" where
  "element_entry ll e = (case map_of ll e of None \<Rightarrow> Inl NilDereference | Some kv \<Rightarrow> Inr kv)"

definition Cache_RemoveOldest :: "('v \<Rightarrow> int) \<Rightarrow> 'v Cache \<Rightarrow> 'v Cache" where
  "Cache_RemoveOldest vlen c =
     (if lc_ll c = [] then c
      else let (ele, k, v) = last (lc_ll c);
               c1 = c\<lparr>lc_ll := filter (\<lambda>x. fst x \<noteq> ele) (lc_ll c), lc_cache := (lc_cache c)(k := None),
                      lc_nBytes := lc_nBytes c - (int (length k) + vlen v)\<rparr>
           in if lc_OnEvicted c then c1\<lparr>lc_evicted := lc_evicted c @ [(k, v)]\<rparr> else c1)"

partial_function (option) lru_evict :: "('v \<Rightarrow> int) \<Rightarrow> 'v Cache \<Rightarrow> 'v Cache option" where
  "lru_evict vlen c =
     (if lc_maxBytes c \<noteq> 0 \<and> lc_maxBytes c < lc_nBytes c
      then lru_evict vlen (Cache_RemoveOldest vlen c) else Some c)"

definition Cache_Add :: "('v \<Rightarrow> int) \<Rightarrow> 'v Cache \<Rightarrow> string \<Rightarrow> 'v \<Rightarrow> ('v Cache go) option" where
  "Cache_Add vlen c key v =
     (case lc_cache c key of
        Some e \<Rightarrow>
          let c1 = c\<lparr>lc_ll := MoveToFront (lc_ll c) e\<rparr> in
          Some (bnd (element_entry (lc_ll c1) e) (\<lambda>kv.
            Inr (c1\<lparr>lc_nBytes := lc_nBytes c1 + (vlen v - vlen (snd kv)),
                    lc_ll := map (\<lambda>(i, k, w). if i = e then (i, k, v) else (i, k, w)) (lc_ll c1)\<rparr>)))
      | None \<Rightarrow>
          let e = lc_fresh c;
              c1 = c\<lparr>lc_ll := (e, key, v) # lc_ll c, lc_fresh := e + 1, lc_cache := (lc_cache c)(key \<mapsto> e),
                     lc_nBytes := lc_nBytes c + (int (length key) + vlen v)\<rparr>
          in map_option Inr (lru_evict vlen c1))"

definition Cache_Get :: "'v Cache \<Rightarrow> string \<Rightarrow> ('v option \<times> 'v Cache) go" where
  "Cache_Get c key =
     (case lc_cache c key of
        Some e \<Rightarrow>
          let c1 = c\<lparr>lc_ll := MoveToFront (lc_ll c) e\<rparr> in
          bnd (element_entry (lc_ll c1) e) (\<lambda>kv. Inr (Some (snd kv), c1))
      | None \<Rightarrow> Inr (None, c))"

definition Cache_Len :: "'v Cache \<Rightarrow> int" where
  "Cache_Len c = int (length (lc_ll c))"

section \<open>Abstract cache\<close>

text \<open>
  What the cache promises: a list of key-value pairs, most recently used first.  Adding a new key
  keeps the longest prefix that fits the budget; updating a key evicts nothing.
\<close>

definition cost :: "('v \<Rightarrow> int) \<Rightarrow> string \<times> 'v \<Rightarrow> int" where
  "cost vlen kv = int (length (fst kv)) + vlen (snd kv)"

definition lru_total :: "('v \<Rightarrow> int) \<Rightarrow> (string \<times> 'v) list \<Rightarrow> int" where
  "lru_total vlen l = sum_list (map (cost vlen) l)"

fun trim :: "('v \<Rightarrow> int) \<Rightarrow> int \<Rightarrow> (string \<times> 'v) list \<Rightarrow> (string \<times> 'v) list" where
  "trim vlen b [] = []"
| "trim vlen b (x # xs) = (if cost vlen x \<le> b then x # trim vlen (b - cost vlen x) xs else [])"

definition others :: "string \<Rightarrow> (string \<times> 'v) list \<Rightarrow> (string \<times> 'v) list" where
  "others k l = filter (\<lambda>kv. fst kv \<noteq> k) l"

definition abs_add :: "('v \<Rightarrow> int) \<Rightarrow> int \<Rightarrow> string \<Rightarrow> 'v \<Rightarrow> (string \<times> 'v) list \<Rightarrow> (string \<times> 'v) list" where
  "abs_add vlen mx k v l =
     (if k \<in> fst ` set l then (k, v) # others k l
      else if mx = 0 then (k, v) # l else trim vlen mx ((k, v) # l))"

definition abs_get :: "string \<Rightarrow> (string \<times> 'v) list \<Rightarrow> 'v option \<times> (string \<times> 'v) list" where
  "abs_get k l = (case map_of l k of None \<Rightarrow> (None, l) | Some v \<Rightarrow> (Some v, (k, v) # others k l))"

definition lru_abs :: "'v Cache \<Rightarrow> (string \<times> 'v) list" where
  "lru_abs c = map snd (lc_ll c)"

definition lru_inv :: "('v \<Rightarrow> int) \<Rightarrow> 'v Cache \<Rightarrow> bool" where
  "lru_inv vlen c \<longleftrightarrow>
     distinct (map fst (lc_ll c)) \<and> distinct (map fst (lru_abs c))
     \<and> (\<forall>e \<in> fst ` set (lc_ll c). e < lc_fresh c)
     \<and> lc_cache c = map_of (map (\<lambda>(e, k, v). (k, e)) (lc_ll c))
     \<and> lc_nBytes c = lru_total vlen (lru_abs c)"

lemma total_simps [simp]:
  "lru_total vlen [] = 0" "lru_total vlen (x # xs) = cost vlen x + lru_total vlen xs"
  "lru_total vlen (xs @ ys) = lru_total vlen xs + lru_total vlen ys"
  by (simp_all add: lru_total_def)

lemma trim_all: "\<forall>x. 0 \<le> vlen x \<Longrightarrow> lru_total vlen l \<le> b \<Longrightarrow> trim vlen b l = l"
proof (induction l arbitrary: b)
  case (Cons x xs)
  have "0 \<le> lru_total vlen xs" using Cons.prems(1) by (auto simp: lru_total_def cost_def intro!: sum_list_nonneg)
  with Cons show ?case by simp
qed simp

lemma trim_snoc: "b < lru_total vlen (xs @ [x]) \<Longrightarrow> trim vlen b (xs @ [x]) = trim vlen b xs"
  by (induction xs arbitrary: b) auto

lemma total_trim: "0 \<le> b \<Longrightarrow> lru_total vlen (trim vlen b l) \<le> b"
proof (induction l arbitrary: b)
  case (Cons x l)
  show ?case
  proof (cases "cost vlen x \<le> b")
    case True
    with Cons.IH [of "b - cost vlen x"] have "lru_total vlen (trim vlen (b - cost vlen x) l) \<le> b - cost vlen x"
      by simp
    with True show ?thesis by simp
  qed (use Cons.prems in simp)
qed simp

lemma map_fst_keys: "map fst (map (\<lambda>(e, k, v). (k, e)) ll) = map fst (map snd ll)"
  by (induction ll) auto

lemma keys_image: "fst ` set (map (\<lambda>(e, k, v). (k, e)) ll) = fst ` set (map snd ll)"
  by (metis list.set_map map_fst_keys)

lemma cache_lookup:
  assumes "lru_inv vlen c"
  shows "lc_cache c k = None \<longleftrightarrow> k \<notin> fst ` set (lru_abs c)"
proof -
  have "lc_cache c = map_of (map (\<lambda>(e, k, v). (k, e)) (lc_ll c))" using assms by (simp add: lru_inv_def)
  then show ?thesis unfolding lru_abs_def by (simp only: map_of_eq_None_iff keys_image)
qed

lemma cache_element:
  assumes inv: "lru_inv vlen c" and e: "lc_cache c k = Some e"
  obtains v xs ys where "lc_ll c = xs @ (e, k, v) # ys" "e \<notin> fst ` set xs" "e \<notin> fst ` set ys"
    "k \<notin> fst ` set (map snd xs)" "k \<notin> fst ` set (map snd ys)"
proof -
  from e inv have "(k, e) \<in> set (map (\<lambda>(e, k, v). (k, e)) (lc_ll c))"
    by (metis lru_inv_def map_of_SomeD)
  then obtain v where "(e, k, v) \<in> set (lc_ll c)" by auto
  then obtain xs ys where ll: "lc_ll c = xs @ (e, k, v) # ys" by (metis split_list)
  with inv have "e \<notin> fst ` set xs" "e \<notin> fst ` set ys"
    "k \<notin> fst ` set (map snd xs)" "k \<notin> fst ` set (map snd ys)"
    by (simp_all add: lru_inv_def lru_abs_def image_image)
  with ll that show ?thesis by blast
qed

lemma filter_other_ids:
  "e \<notin> fst ` set xs \<Longrightarrow> filter (\<lambda>x. fst x = e) xs = [] \<and> filter (\<lambda>x. fst x \<noteq> e) xs = xs"
  by (induction xs) auto

lemma others_absent: "k \<notin> fst ` set l \<Longrightarrow> others k l = l"
  by (induction l) (auto simp: others_def)

lemma map_of_absent: "k \<notin> fst ` set l \<Longrightarrow> map_of l k = None"
  by (simp add: map_of_eq_None_iff)

section \<open>Every operation refines the abstract cache\<close>

lemma RemoveOldest_ok:
  assumes inv: "lru_inv vlen c" and ll: "lc_ll c = xs @ [x]"
  shows "lc_ll (Cache_RemoveOldest vlen c) = xs \<and> lru_inv vlen (Cache_RemoveOldest vlen c)
    \<and> lc_maxBytes (Cache_RemoveOldest vlen c) = lc_maxBytes c
    \<and> lc_evicted (Cache_RemoveOldest vlen c) =
        (if lc_OnEvicted c then lc_evicted c @ [snd x] else lc_evicted c)
    \<and> lc_OnEvicted (Cache_RemoveOldest vlen c) = lc_OnEvicted c"
proof -
  obtain e k v where x: "x = (e, k, v)" by (cases x)
  let ?m = "map (\<lambda>(e, k, v). (k, e))"
  have e: "e \<notin> fst ` set xs" and k: "k \<notin> fst ` set (map snd xs)"
    using inv ll x by (simp_all add: lru_inv_def lru_abs_def image_image)
  have km: "k \<notin> fst ` set (?m xs)" unfolding keys_image by (rule k)
  have m: "(map_of (?m (xs @ [x])))(k := None) = map_of (?m xs)"
    using map_of_absent [OF km] x by (auto simp: map_add_def fun_eq_iff split: option.splits)
  from filter_other_ids [OF e] inv ll x m show ?thesis
    by (auto simp: Cache_RemoveOldest_def lru_inv_def lru_abs_def cost_def)
qed

lemma evict_unlimited: "lc_maxBytes c = 0 \<Longrightarrow> lru_evict vlen c = Some c"
  by (simp add: lru_evict.simps [of vlen c])

lemma evict_ok:
  assumes "\<forall>x. 0 \<le> vlen x" and "lru_inv vlen c" and "0 < lc_maxBytes c"
  shows "\<exists>c'. lru_evict vlen c = Some c' \<and> lru_inv vlen c' \<and> lc_maxBytes c' = lc_maxBytes c
     \<and> lru_abs c' = trim vlen (lc_maxBytes c) (lru_abs c)
     \<and> (lc_OnEvicted c \<longrightarrow> lc_evicted c' =
          lc_evicted c @ rev (drop (length (lru_abs c')) (lru_abs c)))
     \<and> lc_OnEvicted c' = lc_OnEvicted c"
  using assms(2,3)
proof (induction "length (lc_ll c)" arbitrary: c)
  case 0
  then have "lru_abs c = []" "lc_nBytes c = 0" by (simp_all add: lru_abs_def lru_inv_def)
  with 0 show ?case by (simp add: lru_evict.simps [of vlen c])
next
  case (Suc n)
  show ?case
  proof (cases "lc_maxBytes c < lc_nBytes c")
    case False
    with Suc.prems have "lru_total vlen (lru_abs c) \<le> lc_maxBytes c" by (simp add: lru_inv_def)
    with False Suc.prems trim_all [OF assms(1)] show ?thesis by (simp add: lru_evict.simps [of vlen c])
  next
    case True
    from Suc(2) have "lc_ll c \<noteq> []" by auto
    then obtain xs x where ll: "lc_ll c = xs @ [x]" using rev_exhaust by blast
    let ?c = "Cache_RemoveOldest vlen c"
    note ok = RemoveOldest_ok [OF Suc.prems(1) ll]
    from Suc.hyps(1) [of ?c] ok Suc.prems Suc.hyps(2) ll obtain c' where
      "lru_evict vlen ?c = Some c'" "lru_inv vlen c'" "lc_maxBytes c' = lc_maxBytes c"
      "lru_abs c' = trim vlen (lc_maxBytes c) (lru_abs ?c)"
      "lc_OnEvicted c \<longrightarrow> lc_evicted c' =
         lc_evicted ?c @ rev (drop (length (lru_abs c')) (lru_abs ?c))"
      "lc_OnEvicted c' = lc_OnEvicted c" by auto
    moreover have abs: "lru_abs c = lru_abs ?c @ [snd x]" using ok ll by (simp add: lru_abs_def)
    moreover have "trim vlen (lc_maxBytes c) (lru_abs c) = trim vlen (lc_maxBytes c) (lru_abs ?c)"
      using True Suc.prems(1) abs by (simp add: lru_inv_def trim_snoc)
    moreover have "length (trim vlen b l) \<le> length l" for b l
      by (induction l arbitrary: b) auto
    ultimately show ?thesis using True Suc.prems(2) ok
      by (simp add: lru_evict.simps [of vlen c])
  qed
qed

lemma added_inv:
  assumes inv: "lru_inv vlen c" and k: "lc_cache c k = None"
  shows "lru_inv vlen (c\<lparr>lc_ll := (lc_fresh c, k, v) # lc_ll c, lc_fresh := lc_fresh c + 1,
      lc_cache := (lc_cache c)(k \<mapsto> lc_fresh c), lc_nBytes := lc_nBytes c + (int (length k) + vlen v)\<rparr>)"
proof -
  have "k \<notin> fst ` set (lru_abs c)" using cache_lookup [OF inv] k by simp
  with inv show ?thesis by (auto simp: lru_inv_def lru_abs_def cost_def less_Suc_eq)
qed

lemma Add_new:
  assumes vl: "\<forall>x. 0 \<le> vlen x" and inv: "lru_inv vlen c" and mx: "0 \<le> lc_maxBytes c"
    and k: "lc_cache c k = None"
  shows "\<exists>c'. Cache_Add vlen c k v = Some (Inr c') \<and> lru_inv vlen c'
     \<and> lru_abs c' = abs_add vlen (lc_maxBytes c) k v (lru_abs c)
     \<and> lc_maxBytes c' = lc_maxBytes c"
proof -
  let ?c = "c\<lparr>lc_ll := (lc_fresh c, k, v) # lc_ll c, lc_fresh := lc_fresh c + 1,
      lc_cache := (lc_cache c)(k \<mapsto> lc_fresh c), lc_nBytes := lc_nBytes c + (int (length k) + vlen v)\<rparr>"
  have nk: "k \<notin> fst ` set (lru_abs c)" using cache_lookup [OF inv] k by simp
  have invc: "lru_inv vlen ?c" by (rule added_inv [OF inv k])
  show ?thesis
  proof (cases "lc_maxBytes c = 0")
    case True
    with k nk invc show ?thesis
      by (simp add: Cache_Add_def Let_def evict_unlimited abs_add_def lru_abs_def)
  next
    case False
    from evict_ok [OF vl invc] False mx obtain c' where
      "lru_evict vlen ?c = Some c'" "lru_inv vlen c'" "lc_maxBytes c' = lc_maxBytes c"
      "lru_abs c' = trim vlen (lc_maxBytes c) (lru_abs ?c)" by auto
    with k nk False show ?thesis by (simp add: Cache_Add_def Let_def abs_add_def lru_abs_def)
  qed
qed

lemma MoveToFront_ok:
  assumes "lc_ll c = xs @ (e, k, v) # ys" and "e \<notin> fst ` set xs" and "e \<notin> fst ` set ys"
  shows "MoveToFront (lc_ll c) e = (e, k, v) # xs @ ys"
  using filter_other_ids [OF assms(2)] filter_other_ids [OF assms(3)] assms(1)
  by (simp add: MoveToFront_def)

lemma map_of_front:
  "k \<notin> fst ` set xs \<Longrightarrow> map_of ((k, e) # xs @ ys) = map_of (xs @ (k, e) # ys)"
  using map_of_absent [of k xs] by (auto simp: fun_eq_iff map_add_def split: option.splits)

lemma replace_id:
  "e \<notin> fst ` set xs \<Longrightarrow> map (\<lambda>(i, k, w). if i = e then (i, k, v) else (i, k, w)) xs = xs"
  by (induction xs) auto

lemma Get_found:
  assumes inv: "lru_inv vlen c" and e: "lc_cache c k = Some e"
  shows "\<exists>v c'. Cache_Get c k = Inr (Some v, c') \<and> lru_inv vlen c' \<and> lc_maxBytes c' = lc_maxBytes c
     \<and> abs_get k (lru_abs c) = (Some v, lru_abs c')"
    and "\<exists>c'. Cache_Add vlen c k w = Some (Inr c') \<and> lru_inv vlen c' \<and> lc_maxBytes c' = lc_maxBytes c
     \<and> lru_abs c' = abs_add vlen (lc_maxBytes c) k w (lru_abs c)"
proof -
  obtain v xs ys where ll: "lc_ll c = xs @ (e, k, v) # ys"
    and ex: "e \<notin> fst ` set xs" and ey: "e \<notin> fst ` set ys"
    and kx: "k \<notin> fst ` set (map snd xs)" and ky: "k \<notin> fst ` set (map snd ys)"
    by (rule cache_element [OF inv e])
  note mtf = MoveToFront_ok [OF ll ex ey]
  have kx': "k \<notin> fst ` set (map (\<lambda>(e, k, v). (k, e)) xs)" unfolding keys_image by (rule kx)
  have m: "lc_cache c = map_of (map (\<lambda>(e, k, v). (k, e)) ((e, k, v) # xs @ ys))"
    using inv ll map_of_front [OF kx'] by (simp add: lru_inv_def)
  let ?c = "c\<lparr>lc_ll := (e, k, v) # xs @ ys\<rparr>"
  have invc: "lru_inv vlen ?c"
    using inv ll m by (auto simp: lru_inv_def lru_abs_def)
  have oth: "others k (lru_abs c) = map snd (xs @ ys)"
    using others_absent [OF kx] others_absent [OF ky] ll by (simp add: lru_abs_def others_def)
  have "abs_get k (lru_abs c) = (Some v, lru_abs ?c)"
    using oth map_of_absent [OF kx] ll by (simp add: abs_get_def lru_abs_def map_add_def)
  then show "\<exists>v c'. Cache_Get c k = Inr (Some v, c') \<and> lru_inv vlen c' \<and> lc_maxBytes c' = lc_maxBytes c
     \<and> abs_get k (lru_abs c) = (Some v, lru_abs c')"
    using e mtf invc by (simp add: Cache_Get_def Let_def element_entry_def)
  let ?c' = "c\<lparr>lc_ll := (e, k, w) # xs @ ys, lc_nBytes := lc_nBytes c + (vlen w - vlen v)\<rparr>"
  have "Cache_Add vlen c k w = Some (Inr ?c')"
    using e mtf replace_id [of e "xs @ ys" w] ex ey
    by (auto simp: Cache_Add_def Let_def element_entry_def image_Un)
  moreover have "lru_inv vlen ?c'" using invc by (auto simp: lru_inv_def lru_abs_def cost_def)
  moreover have "lru_abs ?c' = abs_add vlen (lc_maxBytes c) k w (lru_abs c)"
    using oth ll by (simp add: abs_add_def lru_abs_def)
  ultimately show "\<exists>c'. Cache_Add vlen c k w = Some (Inr c') \<and> lru_inv vlen c'
     \<and> lc_maxBytes c' = lc_maxBytes c \<and> lru_abs c' = abs_add vlen (lc_maxBytes c) k w (lru_abs c)"
    by auto
qed

lemma Get_refines:
  assumes inv: "lru_inv vlen c"
  shows "\<exists>c'. Cache_Get c k = Inr (fst (abs_get k (lru_abs c)), c') \<and> lru_inv vlen c'
     \<and> lc_maxBytes c' = lc_maxBytes c \<and> lru_abs c' = snd (abs_get k (lru_abs c))"
proof (cases "lc_cache c k")
  case None
  with cache_lookup [OF inv, of k] have "k \<notin> fst ` set (lru_abs c)" by simp
  then have "abs_get k (lru_abs c) = (None, lru_abs c)" by (simp add: abs_get_def map_of_absent)
  with None inv show ?thesis by (simp add: Cache_Get_def)
next
  case (Some e)
  from Get_found(1) [OF inv Some] show ?thesis by auto
qed

lemma Add_refines:
  assumes "\<forall>x. 0 \<le> vlen x" and inv: "lru_inv vlen c" and "0 \<le> lc_maxBytes c"
  shows "\<exists>c'. Cache_Add vlen c k v = Some (Inr c') \<and> lru_inv vlen c' \<and> lc_maxBytes c' = lc_maxBytes c
     \<and> lru_abs c' = abs_add vlen (lc_maxBytes c) k v (lru_abs c)"
  using Add_new [OF assms, of k v] Get_found(2) [OF inv, of k _ v]
  by (cases "lc_cache c k") blast+

lemma set_trim: "set (trim vlen b l) \<subseteq> set l"
  by (induction l arbitrary: b) auto

lemma set_abs_add: "set (abs_add vlen mx k v l) \<subseteq> insert (k, v) (set l)"
  using set_trim [of vlen mx "(k, v) # l"] by (auto simp: abs_add_def others_def)

lemma set_abs_get: "set (snd (abs_get k l)) \<subseteq> set l"
  by (auto simp: abs_get_def others_def dest: map_of_SomeD split: option.splits)

lemma abs_get_mem: "fst (abs_get k l) = Some v \<Longrightarrow> (k, v) \<in> set l"
  by (auto simp: abs_get_def dest: map_of_SomeD split: option.splits)

section \<open>Runs\<close>

datatype 'v lru_op = AddOp string 'v | GetOp string

fun lru_run :: "('v \<Rightarrow> int) \<Rightarrow> 'v Cache \<Rightarrow> 'v lru_op list \<Rightarrow> (('v option list \<times> 'v Cache) go) option" where
  "lru_run vlen c [] = Some (Inr ([], c))"
| "lru_run vlen c (AddOp k v # ops) =
     (case Cache_Add vlen c k v of
        None \<Rightarrow> None | Some (Inl p) \<Rightarrow> Some (Inl p) | Some (Inr c') \<Rightarrow> lru_run vlen c' ops)"
| "lru_run vlen c (GetOp k # ops) =
     (case Cache_Get c k of
        Inl p \<Rightarrow> Some (Inl p)
      | Inr (r, c') \<Rightarrow> map_option (map_sum id (\<lambda>(rs, c''). (r # rs, c''))) (lru_run vlen c' ops))"

fun abs_run :: "('v \<Rightarrow> int) \<Rightarrow> int \<Rightarrow> (string \<times> 'v) list \<Rightarrow> 'v lru_op list
    \<Rightarrow> 'v option list \<times> (string \<times> 'v) list" where
  "abs_run vlen mx l [] = ([], l)"
| "abs_run vlen mx l (AddOp k v # ops) = abs_run vlen mx (abs_add vlen mx k v l) ops"
| "abs_run vlen mx l (GetOp k # ops) =
     (let (r, l') = abs_get k l; (rs, l'') = abs_run vlen mx l' ops in (r # rs, l''))"

lemma New_inv: "lru_inv vlen (lru_New mx ev)" "lru_abs (lru_New mx ev) = []"
  by (simp_all add: lru_New_def lru_inv_def lru_abs_def)

lemma lru_run_ok:
  assumes "\<forall>x. 0 \<le> vlen x" and "lru_inv vlen c" and "0 \<le> lc_maxBytes c"
  shows "\<exists>c'. lru_run vlen c ops = Some (Inr (fst (abs_run vlen (lc_maxBytes c) (lru_abs c) ops), c'))
     \<and> lru_inv vlen c' \<and> lru_abs c' = snd (abs_run vlen (lc_maxBytes c) (lru_abs c) ops)"
  using assms(2,3)
proof (induction ops arbitrary: c)
  case (Cons op ops)
  show ?case
  proof (cases op)
    case (AddOp k v)
    note Add_refines [OF assms(1) Cons.prems, of k v]
    then obtain c' where c': "Cache_Add vlen c k v = Some (Inr c')" "lru_inv vlen c'"
      "lc_maxBytes c' = lc_maxBytes c" "lru_abs c' = abs_add vlen (lc_maxBytes c) k v (lru_abs c)" by blast
    with AddOp Cons.IH [of c'] Cons.prems(2) show ?thesis by simp
  next
    case (GetOp k)
    from Get_refines [OF Cons.prems(1), of k] obtain c' where
      "Cache_Get c k = Inr (fst (abs_get k (lru_abs c)), c')" "lru_inv vlen c'"
      "lc_maxBytes c' = lc_maxBytes c" "lru_abs c' = snd (abs_get k (lru_abs c))" by blast
    with GetOp Cons.IH [of c'] Cons.prems(2) show ?thesis by (auto split: prod.splits)
  qed
qed simp

lemma RemoveOldest_inv:
  "lru_inv vlen c \<Longrightarrow> lru_inv vlen (Cache_RemoveOldest vlen c)
     \<and> lc_maxBytes (Cache_RemoveOldest vlen c) = lc_maxBytes c"
  using RemoveOldest_ok [of vlen c "butlast (lc_ll c)" "last (lc_ll c)"]
  by (cases "lc_ll c = []") (simp_all add: Cache_RemoveOldest_def [of vlen c])

lemma evict_negative:
  "lru_evict vlen c = Some c' \<Longrightarrow> (\<forall>x. 0 \<le> vlen x) \<longrightarrow> lru_inv vlen c \<longrightarrow> 0 \<le> lc_maxBytes c"
proof (erule lru_evict.raw_induct [where P = "\<lambda>vlen c c'.
    (\<forall>x. 0 \<le> vlen x) \<longrightarrow> lru_inv vlen c \<longrightarrow> 0 \<le> lc_maxBytes c", rotated], intro impI)
  fix ev :: "('a \<Rightarrow> int) \<Rightarrow> 'a Cache \<Rightarrow> 'a Cache option" and vlen :: "'a \<Rightarrow> int" and c c'
  assume IH: "\<And>vlen c c'. ev vlen c = Some c' \<Longrightarrow>
      (\<forall>x. 0 \<le> vlen x) \<longrightarrow> lru_inv vlen c \<longrightarrow> 0 \<le> lc_maxBytes c"
    and step: "(if lc_maxBytes c \<noteq> 0 \<and> lc_maxBytes c < lc_nBytes c
      then ev vlen (Cache_RemoveOldest vlen c) else Some c) = Some c'"
    and vl: "\<forall>x. 0 \<le> vlen x" and inv: "lru_inv vlen c"
  have "0 \<le> lru_total vlen (lru_abs c)"
    using vl by (auto simp: lru_total_def cost_def intro!: sum_list_nonneg)
  then have nb: "0 \<le> lc_nBytes c" using inv by (simp add: lru_inv_def)
  show "0 \<le> lc_maxBytes c"
  proof (rule ccontr)
    assume neg: "\<not> 0 \<le> lc_maxBytes c"
    with step nb have "ev vlen (Cache_RemoveOldest vlen c) = Some c'" by simp
    from IH [OF this] vl RemoveOldest_inv [OF inv] neg show False by simp
  qed
qed

lemma New_maxBytes [simp]: "lc_maxBytes (lru_New mx ev) = mx" "lc_OnEvicted (lru_New mx ev) = ev"
  "lc_cache (lru_New mx ev) = Map.empty" "lc_evicted (lru_New mx ev) = []"
  by (simp_all add: lru_New_def)

section \<open>Properties\<close>

text \<open>
  C8. For values with non-negative lengths and a non-negative budget, any sequence of Add and Get
  returns, never panics, and answers what the abstract least-recently-used list answers: Get moves
  its key to the front, Add of a new key keeps the longest most-recent prefix within the budget
  (no limit for budget 0), Add of a known key replaces the value in front and evicts nothing.  The
  byte count and the length always agree with the list.
\<close>

theorem Cache_refines_lru:
  assumes "\<forall>x. 0 \<le> vlen x" and "0 \<le> mx"
  shows "\<exists>c. lru_run vlen (lru_New mx ev) ops = Some (Inr (fst (abs_run vlen mx [] ops), c))
     \<and> lru_abs c = snd (abs_run vlen mx [] ops)
     \<and> lc_nBytes c = lru_total vlen (snd (abs_run vlen mx [] ops))
     \<and> Cache_Len c = int (length (snd (abs_run vlen mx [] ops)))"
proof -
  from lru_run_ok [OF assms(1) New_inv(1), of mx ev ops] assms(2) obtain c where
    "lru_run vlen (lru_New mx ev) ops = Some (Inr (fst (abs_run vlen mx [] ops), c))"
    "lru_inv vlen c" "snd (abs_run vlen mx [] ops) = lru_abs c"
    unfolding New_inv(2) New_maxBytes by auto
  then show ?thesis by (intro exI [of _ c]) (auto simp: lru_inv_def Cache_Len_def lru_abs_def)
qed

lemma Cache_refines_lru_witness:
  "\<exists>c. lru_run int (lru_New 4 True) [AddOp ''a'' 1, AddOp ''b'' 1, GetOp ''a'', AddOp ''c'' 1, GetOp ''b'']
      = Some (Inr ([Some 1, None], c))
     \<and> lru_abs c = [(''c'', 1), (''a'', 1)] \<and> lc_nBytes c = 4 \<and> Cache_Len c = 2"
  using Cache_refines_lru [of int 4 True
      "[AddOp ''a'' 1, AddOp ''b'' 1, GetOp ''a'', AddOp ''c'' 1, GetOp ''b'']"]
  by (simp add: abs_add_def abs_get_def others_def cost_def)


text \<open>
  Adding a new key under a positive budget leaves at most the budget in the cache, and hands
  the evicted entries to \<^verbatim>\<open>OnEvicted\<close>, the least recently used first; under a negative budget no
  call that adds a new key ever returns.
\<close>

theorem Cache_Add_budget:
  assumes "\<forall>x. 0 \<le> vlen x" and "lru_inv vlen c" and "lc_cache c k = None" and "lc_maxBytes c \<noteq> 0"
  shows "if lc_maxBytes c < 0 then Cache_Add vlen c k v = None
     else \<exists>c'. Cache_Add vlen c k v = Some (Inr c') \<and> lc_nBytes c' \<le> lc_maxBytes c
       \<and> (lc_OnEvicted c \<longrightarrow> lc_evicted c' =
            lc_evicted c @ rev (drop (length (lru_abs c')) ((k, v) # lru_abs c)))"
proof -
  let ?c = "c\<lparr>lc_ll := (lc_fresh c, k, v) # lc_ll c, lc_fresh := lc_fresh c + 1,
      lc_cache := (lc_cache c)(k \<mapsto> lc_fresh c), lc_nBytes := lc_nBytes c + (int (length k) + vlen v)\<rparr>"
  note inv = added_inv [OF assms(2,3), of v]
  have add: "Cache_Add vlen c k v = map_option Inr (lru_evict vlen ?c)"
    using assms(3) by (simp add: Cache_Add_def Let_def)
  show ?thesis
  proof (cases "lc_maxBytes c < 0")
    case True
    then have "lru_evict vlen ?c = None"
      using evict_negative [of vlen ?c] assms(1) inv by (cases "lru_evict vlen ?c") auto
    with True add show ?thesis by simp
  next
    case False
    then have pos: "0 < lc_maxBytes ?c" using assms(4) by simp
    have abs: "lru_abs ?c = (k, v) # lru_abs c" by (simp add: lru_abs_def)
    from evict_ok [OF assms(1) inv pos, unfolded abs] obtain c' where c': "lru_evict vlen ?c = Some c'"
      "lru_inv vlen c'" "lru_abs c' = trim vlen (lc_maxBytes c) ((k, v) # lru_abs c)"
      "lc_OnEvicted c \<longrightarrow> lc_evicted c' =
         lc_evicted c @ rev (drop (length (lru_abs c')) ((k, v) # lru_abs c))" by auto
    from c'(2) have "lc_nBytes c' = lru_total vlen (lru_abs c')" by (simp add: lru_inv_def)
    also have "\<dots> \<le> lc_maxBytes c" unfolding c'(3) by (rule total_trim) (use pos in simp)
    finally show ?thesis using add c' False by simp
  qed
qed

lemma Cache_Add_budget_witness:
  "\<exists>c'. Cache_Add int (lru_New 3 True) ''a'' 5 = Some (Inr c') \<and> lc_nBytes c' \<le> 3
     \<and> lc_evicted c' = rev (drop (length (lru_abs c')) [(''a'', 5)])"
  using Cache_Add_budget [of int "lru_New 3 True" "''a''" 5]
  by (simp add: New_inv)

end
