(* ===== verification/ConsistentHash.thy ===== *)
theory ConsistentHash
  imports Prelude
begin

text \<open>
  The consistent-hash ring of \<^verbatim>\<open>gocache/lrucache/consistenthash/consistenthash.go\<close>.  A hash
  function is a parameter; a nil one is \<open>None\<close> and calling it panics.  \<^verbatim>\<open>sort.Search\<close> is the
  binary search of Go's library; \<^verbatim>\<open>sort.Ints\<close> is sorting.  Hashes are 32-bit values held in a
  64-bit \<^verbatim>\<open>int\<close>, hence integers here.
\<close>

type_synonym hash_fn = "string \<Rightarrow> int"

record HashMap =
  hm_hash :: "hash_fn option"
  hm_replicas :: int
  hm_keys :: "int list"
  hm_hashMap :: "int \<rightharpoonup> string"

text \<open>
  \<^verbatim>\<open>New\<close> stores \<^verbatim>\<open>fn\<close> before it replaces a nil \<^verbatim>\<open>fn\<close> by CRC32, so the map keeps the nil function.
\<close>

definition hash_New :: "hash_fn \<Rightarrow> int \<Rightarrow> hash_fn option \<Rightarrow> HashMap" where
  "hash_New ChecksumIEEE replicas fn =
     (let m = \<lparr>hm_hash = fn, hm_replicas = replicas, hm_keys = [], hm_hashMap = Map.empty\<rparr>;
          fn = (if fn = None then Some ChecksumIEEE else fn)
      in m)"

definition call_hash :: "HashMap \<Rightarrow> string \<Rightarrow> int go" where
  "call_hash m key = (case hm_hash m of None \<Rightarrow> Inl NilDereference | Some f \<Rightarrow> Inr (f key))"

fun add_replicas :: "nat \<Rightarrow> string \<Rightarrow> HashMap \<Rightarrow> HashMap go" where
  "add_replicas 0 key m = Inr m"
| "add_replicas (Suc i) key m =
     bnd (call_hash m key) (\<lambda>hash.
       add_replicas i key (m\<lparr>hm_keys := hm_keys m @ [hash], hm_hashMap := (hm_hashMap m)(hash \<mapsto> key)\<rparr>))"

fun add_keys :: "string list \<Rightarrow> HashMap \<Rightarrow> HashMap go" where
  "add_keys [] m = Inr m"
| "add_keys (key # keys) m = bnd (add_replicas (nat (hm_replicas m)) key m) (add_keys keys)"

definition HashMap_Add :: "HashMap \<Rightarrow> string list \<Rightarrow> HashMap go" where
  "HashMap_Add m keys = bnd (add_keys keys m) (\<lambda>m'. Inr (m'\<lparr>hm_keys := sort (hm_keys m')\<rparr>))"

text \<open>\<^verbatim>\<open>sort.Search(n, f)\<close>: the binary search for the least index satisfying a monotone predicate.\<close>

function search_loop :: "(nat \<Rightarrow> bool) \<Rightarrow> nat \<Rightarrow> nat \<Rightarrow> nat" where
  "search_loop f i j =
     (if i < j
      then let h = (i + j) div 2 in if \<not> f h then search_loop f (h + 1) j else search_loop f i h
      else i)"
  by pat_completeness auto
termination by (relation "measure (\<lambda>(f, i, j). j - i)") auto

declare search_loop.simps [simp del]

definition sort_Search :: "nat \<Rightarrow> (nat \<Rightarrow> bool) \<Rightarrow> nat" where
  "sort_Search n f = search_loop f 0 n"

definition HashMap_Get :: "HashMap \<Rightarrow> string \<Rightarrow> string go" where
  "HashMap_Get m key =
     (if hm_keys m = [] then Inr ''''
      else bnd (call_hash m key) (\<lambda>hash.
        let idx = sort_Search (length (hm_keys m)) (\<lambda>i. hm_keys m ! i \<ge> hash);
            k = hm_keys m ! (idx mod length (hm_keys m))
        in Inr (case hm_hashMap m k of None \<Rightarrow> '''' | Some node \<Rightarrow> node)))"

section \<open>Binary search\<close>

lemma search_loop_spec:
  assumes mono: "\<And>a b. a \<le> b \<Longrightarrow> b < n \<Longrightarrow> f a \<Longrightarrow> f b"
    and "i \<le> j" and "\<forall>k < i. \<not> f k" and "j < n \<longrightarrow> f j" and "j \<le> n"
  shows "search_loop f i j \<le> n \<and> (\<forall>k < search_loop f i j. \<not> f k)
    \<and> (search_loop f i j < n \<longrightarrow> f (search_loop f i j))"
  using assms(2-5)
proof (induction "j - i" arbitrary: i j rule: less_induct)
  case less
  show ?case
  proof (cases "i < j")
    case False
    with less.prems show ?thesis by (simp add: search_loop.simps [of f j j])
  next
    case True
    define h where "h = (i + j) div 2"
    have h: "i \<le> h" "h < j" using True by (simp_all add: h_def)
    show ?thesis
    proof (cases "f h")
      case f: True
      have "search_loop f i j = search_loop f i h"
        using True f by (simp add: search_loop.simps [of f i j] h_def Let_def)
      with less.hyps [of h i] less.prems h f show ?thesis by simp
    next
      case False
      have "\<not> f k" if "k < h + 1" for k
        using mono [of k h] False that h less.prems(4) by fastforce
      moreover have "search_loop f i j = search_loop f (h + 1) j"
        using True False by (simp add: search_loop.simps [of f i j] h_def Let_def)
      ultimately show ?thesis using less.hyps [of j "h + 1"] less.prems h by simp
    qed
  qed
qed

section \<open>The ring\<close>

text \<open>The point that owns a hash: the first one clockwise, wrapping to the smallest.\<close>

definition succ_point :: "int \<Rightarrow> int set \<Rightarrow> int" where
  "succ_point h P = (if \<exists>p \<in> P. h \<le> p then Min {p \<in> P. h \<le> p} else Min P)"

definition ring_wf :: "hash_fn \<Rightarrow> HashMap \<Rightarrow> bool" where
  "ring_wf f m \<longleftrightarrow> hm_hash m = Some f \<and> 0 < hm_replicas m \<and> dom (hm_hashMap m) = set (hm_keys m)"

lemma succ_point_mem: "finite P \<Longrightarrow> P \<noteq> {} \<Longrightarrow> succ_point h P \<in> P"
  using Min_in [of "{p \<in> P. h \<le> p}"] Min_in [of P] by (auto simp: succ_point_def)

lemma succ_point_insert:
  assumes "finite P" and "P \<noteq> {}"
  shows "succ_point h (insert q P) \<in> {q, succ_point h P}"
proof (cases "\<exists>p \<in> P. h \<le> p")
  case True
  then have ne: "{p \<in> P. h \<le> p} \<noteq> {}" by auto
  show ?thesis
  proof (cases "h \<le> q")
    case q: True
    then have "{p \<in> insert q P. h \<le> p} = insert q {p \<in> P. h \<le> p}" by auto
    then have "Min {p \<in> insert q P. h \<le> p} = min q (Min {p \<in> P. h \<le> p})" using ne assms by simp
    then show ?thesis using True by (auto simp: succ_point_def min_def)
  next
    case False
    then have "{p \<in> insert q P. h \<le> p} = {p \<in> P. h \<le> p}" by auto
    then show ?thesis using True by (auto simp: succ_point_def)
  qed
next
  case False
  then have P: "{p \<in> insert q P. h \<le> p} = (if h \<le> q then {q} else {})" by auto
  show ?thesis using P False assms by (auto simp: succ_point_def min_def)
qed

lemma sorted_search:
  assumes sorted: "sorted ks" and ne: "ks \<noteq> []"
  shows "ks ! (sort_Search (length ks) (\<lambda>i. ks ! i \<ge> h) mod length ks) = succ_point h (set ks)"
proof -
  let ?r = "sort_Search (length ks) (\<lambda>i. ks ! i \<ge> h)"
  have spec: "?r \<le> length ks \<and> (\<forall>k < ?r. \<not> h \<le> ks ! k) \<and> (?r < length ks \<longrightarrow> h \<le> ks ! ?r)"
    unfolding sort_Search_def
    by (rule search_loop_spec) (auto intro: order_trans sorted_nth_mono [OF sorted])
  show ?thesis
  proof (cases "?r < length ks")
    case True
    have "Min {p \<in> set ks. h \<le> p} = ks ! ?r"
    proof (rule Min_eqI)
      fix p assume "p \<in> {p \<in> set ks. h \<le> p}"
      then obtain k where "k < length ks" "p = ks ! k" "h \<le> ks ! k" by (auto simp: in_set_conv_nth)
      then show "ks ! ?r \<le> p" using spec sorted_nth_mono [OF sorted, of ?r k] by (meson not_le)
    qed (use True spec in auto)
    with True spec show ?thesis by (auto simp: succ_point_def)
  next
    case False
    with spec have r: "?r = length ks" and none: "\<forall>p \<in> set ks. \<not> h \<le> p"
      by (auto simp: in_set_conv_nth)
    have "Min (set ks) = ks ! 0"
    proof (rule Min_eqI)
      fix p assume "p \<in> set ks"
      then obtain k where "k < length ks" "p = ks ! k" by (auto simp: in_set_conv_nth)
      then show "ks ! 0 \<le> p" using sorted_nth_mono [OF sorted, of 0 k] by simp
    qed (use ne in auto)
    with r none show ?thesis by (auto simp: succ_point_def)
  qed
qed

lemma add_replicas_ok:
  "hm_hash m = Some f \<Longrightarrow> add_replicas i key m =
   Inr (m\<lparr>hm_keys := hm_keys m @ replicate i (f key),
          hm_hashMap := (if i = 0 then hm_hashMap m else (hm_hashMap m)(f key \<mapsto> key))\<rparr>)"
  by (induction i arbitrary: m) (auto simp: call_hash_def replicate_append_same)

fun hash_all :: "hash_fn \<Rightarrow> string list \<Rightarrow> (int \<rightharpoonup> string) \<Rightarrow> (int \<rightharpoonup> string)" where
  "hash_all f [] h = h"
| "hash_all f (k # ks) h = hash_all f ks (h(f k \<mapsto> k))"

lemma dom_hash_all: "dom (hash_all f ks h) = dom h \<union> f ` set ks"
  by (induction ks arbitrary: h) auto

lemma hash_all_owner:
  "hash_all f ks h p = Some n \<Longrightarrow> h p = Some n \<or> (n \<in> set ks \<and> p = f n)"
  by (induction ks arbitrary: h) (fastforce split: if_splits)+

lemma add_keys_ok:
  "hm_hash m = Some f \<Longrightarrow> 0 < hm_replicas m \<Longrightarrow>
   \<exists>ks. add_keys keys m = Inr (m\<lparr>hm_keys := ks, hm_hashMap := hash_all f keys (hm_hashMap m)\<rparr>)
      \<and> set ks = set (hm_keys m) \<union> f ` set keys"
proof (induction keys arbitrary: m)
  case (Cons k keys)
  let ?n = "nat (hm_replicas m)"
  let ?m = "m\<lparr>hm_keys := hm_keys m @ replicate ?n (f k), hm_hashMap := (hm_hashMap m)(f k \<mapsto> k)\<rparr>"
  have "add_replicas ?n k m = Inr ?m" using add_replicas_ok [OF Cons.prems(1)] Cons.prems(2) by simp
  moreover have "hm_hash ?m = Some f" "0 < hm_replicas ?m" using Cons.prems by simp_all
  from Cons.IH [OF this] obtain ks where
    "add_keys keys ?m = Inr (?m\<lparr>hm_keys := ks, hm_hashMap := hash_all f keys (hm_hashMap ?m)\<rparr>)"
    "set ks = set (hm_keys ?m) \<union> f ` set keys" by blast
  ultimately show ?case using Cons.prems(2) by (intro exI [of _ ks]) (simp del: fun_upd_apply)
next
  case Nil
  then show ?case by (intro exI [of _ "hm_keys m"]) simp
qed

lemma Add_ok:
  assumes "ring_wf f m"
  shows "\<exists>m'. HashMap_Add m keys = Inr m' \<and> ring_wf f m' \<and> sorted (hm_keys m')
     \<and> set (hm_keys m') = set (hm_keys m) \<union> f ` set keys
     \<and> hm_hashMap m' = hash_all f keys (hm_hashMap m)"
proof -
  from assms have "hm_hash m = Some f" "0 < hm_replicas m" by (simp_all add: ring_wf_def)
  from add_keys_ok [OF this, of keys] assms show ?thesis
    by (auto simp: HashMap_Add_def ring_wf_def dom_hash_all)
qed

lemma Get_ok:
  assumes "ring_wf f m" and "sorted (hm_keys m)" and "hm_keys m \<noteq> []"
  shows "HashMap_Get m key = Inr (the (hm_hashMap m (succ_point (f key) (set (hm_keys m)))))"
proof -
  have "succ_point (f key) (set (hm_keys m)) \<in> dom (hm_hashMap m)"
    using assms succ_point_mem [of "set (hm_keys m)"] by (simp add: ring_wf_def)
  then obtain n where n: "hm_hashMap m (succ_point (f key) (set (hm_keys m))) = Some n" by auto
  moreover from sorted_search [OF assms(2,3), of "f key"] n
  have "hm_hashMap m (hm_keys m ! (sort_Search (length (hm_keys m))
      (\<lambda>i. hm_keys m ! i \<ge> f key) mod length (hm_keys m))) = Some n" by simp
  ultimately show ?thesis using assms by (simp add: HashMap_Get_def call_hash_def ring_wf_def Let_def)
qed

lemma New_wf: "0 < r \<Longrightarrow> ring_wf f (hash_New crc r (Some f))"
  by (simp add: ring_wf_def hash_New_def)

text \<open>A ring built from a list of nodes.\<close>

definition ring_of :: "hash_fn \<Rightarrow> int \<Rightarrow> hash_fn option \<Rightarrow> string list \<Rightarrow> HashMap go" where
  "ring_of crc r fn nodes = HashMap_Add (hash_New crc r fn) nodes"

lemma ring_of_ok:
  assumes "0 < r"
  shows "\<exists>m. ring_of crc r (Some f) nodes = Inr m \<and> ring_wf f m \<and> sorted (hm_keys m)
     \<and> set (hm_keys m) = f ` set nodes \<and> hm_hashMap m = hash_all f nodes Map.empty"
  using Add_ok [OF New_wf [OF assms, where f = f and crc = crc], of nodes] by (simp add: ring_of_def hash_New_def)

section \<open>Properties\<close>

text \<open>
  C28. On a ring built with a hash function, \<^verbatim>\<open>Get\<close> answers one of the nodes, and that node's hash
  is the first one clockwise from the key's hash; adding a node moves a key to the new node or not
  at all.
\<close>

theorem HashMap_consistent:
  assumes "0 < r" and "nodes \<noteq> []"
  shows "\<exists>m m' n n'. ring_of crc r (Some f) nodes = Inr m \<and> HashMap_Add m [new] = Inr m'
     \<and> HashMap_Get m key = Inr n \<and> HashMap_Get m' key = Inr n'
     \<and> n \<in> set nodes \<and> f n = succ_point (f key) (f ` set nodes) \<and> n' \<in> {n, new}"
proof -
  from ring_of_ok [OF assms(1), of crc f nodes] obtain m where
    m: "ring_of crc r (Some f) nodes = Inr m" "ring_wf f m" "sorted (hm_keys m)"
      "set (hm_keys m) = f ` set nodes" "hm_hashMap m = hash_all f nodes Map.empty" by blast
  from Add_ok [OF m(2), of "[new]"] m(4) obtain m' where
    m': "HashMap_Add m [new] = Inr m'" "ring_wf f m'" "sorted (hm_keys m')"
      "set (hm_keys m') = insert (f new) (f ` set nodes)"
      "hm_hashMap m' = (hm_hashMap m)(f new \<mapsto> new)" by auto
  let ?p = "succ_point (f key) (f ` set nodes)"
  have pm: "?p \<in> f ` set nodes" using assms(2) by (intro succ_point_mem) auto
  then have "?p \<in> dom (hm_hashMap m)" using m by (simp add: ring_wf_def)
  then obtain n where n: "hm_hashMap m ?p = Some n" by auto
  with hash_all_owner [of f nodes Map.empty ?p n] m(5) have own: "n \<in> set nodes" "f n = ?p" by auto
  have "hm_keys m \<noteq> []" "hm_keys m' \<noteq> []" using m(4) m'(4) assms(2) by auto
  then have "HashMap_Get m key = Inr n"
    and g': "HashMap_Get m' key = Inr (the (hm_hashMap m' (succ_point (f key) (insert (f new) (f ` set nodes)))))"
    using Get_ok [OF m(2,3), of key] Get_ok [OF m'(2,3), of key] m(4) m'(4) n by auto
  moreover have "the (hm_hashMap m' (succ_point (f key) (insert (f new) (f ` set nodes)))) \<in> {n, new}"
    using succ_point_insert [of "f ` set nodes" "f key" "f new"] assms(2) m'(5) n by auto
  ultimately show ?thesis using m(1) m'(1) own by blast
qed

lemma HashMap_consistent_witness:
  "\<exists>m m' n n'. ring_of (\<lambda>_. 0) 2 (Some (\<lambda>k. int (length k))) [''a'', ''bbb''] = Inr m
     \<and> HashMap_Add m [''cc''] = Inr m' \<and> HashMap_Get m ''kk'' = Inr n \<and> HashMap_Get m' ''kk'' = Inr n'
     \<and> n \<in> {''a'', ''bbb''} \<and> n' \<in> {n, ''cc''}"
  using HashMap_consistent [of 2 "[''a'', ''bbb'']" "\<lambda>_. 0" "\<lambda>k. int (length k)" "''cc''" "''kk''"] by auto

text \<open>
  The number of replicas has no effect on which node owns a key: all the points of a node have
  the same hash, so the ring has one point for each node however many replicas are asked for.
\<close>

theorem HashMap_replicas_irrelevant:
  assumes "0 < r" and "0 < r'"
  shows "bnd (ring_of crc r (Some f) nodes) (\<lambda>m. HashMap_Get m key)
       = bnd (ring_of crc r' (Some f) nodes) (\<lambda>m. HashMap_Get m key)"
proof -
  from ring_of_ok [OF assms(1), of crc f nodes] ring_of_ok [OF assms(2), of crc f nodes] obtain m m' where
    m: "ring_of crc r (Some f) nodes = Inr m" "ring_wf f m" "sorted (hm_keys m)"
      "set (hm_keys m) = f ` set nodes" "hm_hashMap m = hash_all f nodes Map.empty" and
    m': "ring_of crc r' (Some f) nodes = Inr m'" "ring_wf f m'" "sorted (hm_keys m')"
      "set (hm_keys m') = f ` set nodes" "hm_hashMap m' = hash_all f nodes Map.empty" by blast
  show ?thesis
  proof (cases "nodes = []")
    case True
    with m m' show ?thesis by (simp add: HashMap_Get_def)
  next
    case False
    with m(4) m'(4) have "hm_keys m \<noteq> []" "hm_keys m' \<noteq> []" by auto
    with Get_ok [OF m(2,3), of key] Get_ok [OF m'(2,3), of key] m m' show ?thesis by simp
  qed
qed

lemma HashMap_replicas_irrelevant_witness:
  "bnd (ring_of (\<lambda>_. 0) 1 (Some (\<lambda>k. int (length k))) [''a'', ''bbb'']) (\<lambda>m. HashMap_Get m ''kk'')
   = bnd (ring_of (\<lambda>_. 0) 50 (Some (\<lambda>k. int (length k))) [''a'', ''bbb'']) (\<lambda>m. HashMap_Get m ''kk'')"
  by (rule HashMap_replicas_irrelevant) simp_all

end
