(* ===== verification/GeeCache.thy ===== *)
theory GeeCache
  imports Lru KvCache ConsistentHash
begin

text \<open>
  The distributed cache of \<^verbatim>\<open>gocache/lrucache\<close>: byte views (\<^verbatim>\<open>byteview.go\<close>), the locked cache
  around the LRU list (\<^verbatim>\<open>cache.go\<close>), groups (\<^verbatim>\<open>geecache.go\<close>) and the HTTP pool (\<^verbatim>\<open>http.go\<close>).
  The locked sections are atomic, so the locks themselves do not appear.  A getter is a function
  that answers an error message or bytes; the logging calls are left out.  \<^verbatim>\<open>http.Get\<close>, query
  escaping and protobuf decoding are parameters.  The first option of a result is \<open>None\<close> when the
  eviction loop of the LRU list does not end.
\<close>

type_synonym bytes = "8 word list"

section \<open>byteview.go\<close>

record ByteView =
  bv_b :: bytes

definition ByteView_Len :: "ByteView \<Rightarrow> int" where
  "ByteView_Len v = int (length (bv_b v))"

definition cloneBytes :: "bytes \<Rightarrow> bytes" where
  "cloneBytes b = slice_copy (replicate (length b) 0) b"

definition ByteView_ByteSlice :: "ByteView \<Rightarrow> bytes" where
  "ByteView_ByteSlice v = cloneBytes (bv_b v)"

definition ByteView_String :: "ByteView \<Rightarrow> string" where
  "ByteView_String v = map (\<lambda>b. char_of (unat b)) (bv_b v)"

lemma cloneBytes_id [simp]: "cloneBytes b = b"
  by (simp add: cloneBytes_def slice_copy_fits)

section \<open>cache.go\<close>

record gcache =
  gc_lru :: "ByteView Cache option"
  gc_cacheBytes :: int

definition cache_add :: "gcache \<Rightarrow> string \<Rightarrow> ByteView \<Rightarrow> (gcache go) option" where
  "cache_add c key v =
     (let lru = (case gc_lru c of None \<Rightarrow> lru_New (gc_cacheBytes c) False | Some l \<Rightarrow> l)
      in map_option (map_sum id (\<lambda>l. c\<lparr>gc_lru := Some l\<rparr>)) (Cache_Add ByteView_Len lru key v))"

definition cache_get :: "gcache \<Rightarrow> string \<Rightarrow> (ByteView option \<times> gcache) go" where
  "cache_get c key =
     (case gc_lru c of
        None \<Rightarrow> Inr (None, c)
      | Some l \<Rightarrow> bnd (Cache_Get l key) (\<lambda>(r, l'). Inr (r, c\<lparr>gc_lru := Some l'\<rparr>)))"

section \<open>geecache.go\<close>

type_synonym getter = "string \<Rightarrow> string + bytes"

record Group =
  gp_name :: string
  gp_getter :: getter
  gp_mainCache :: gcache

text \<open>The groups allocated and the registry \<^verbatim>\<open>groups\<close>, which holds pointers to them.\<close>

record Groups =
  gg_heap :: "Group list"
  gg_groups :: "string \<rightharpoonup> nat"

definition NewGroup :: "Groups \<Rightarrow> string \<Rightarrow> int \<Rightarrow> getter option \<Rightarrow> (nat \<times> Groups) go" where
  "NewGroup G name cacheBytes getter =
     (case getter of
        None \<Rightarrow> Inl (PanicMsg ''getter is nil'')
      | Some f \<Rightarrow>
          let g = \<lparr>gp_name = name, gp_getter = f,
                   gp_mainCache = \<lparr>gc_lru = None, gc_cacheBytes = cacheBytes\<rparr>\<rparr>;
              p = length (gg_heap G)
          in Inr (p, G\<lparr>gg_heap := gg_heap G @ [g], gg_groups := (gg_groups G)(name \<mapsto> p)\<rparr>))"

definition GetGroup :: "Groups \<Rightarrow> string \<Rightarrow> nat option" where
  "GetGroup G name = gg_groups G name"

definition Group_populateCache :: "Group \<Rightarrow> string \<Rightarrow> ByteView \<Rightarrow> (Group go) option" where
  "Group_populateCache g key v =
     map_option (map_sum id (\<lambda>c. g\<lparr>gp_mainCache := c\<rparr>)) (cache_add (gp_mainCache g) key v)"

definition Group_getLocally :: "Group \<Rightarrow> string \<Rightarrow> (((string + ByteView) \<times> Group) go) option" where
  "Group_getLocally g key =
     (case gp_getter g key of
        Inl err \<Rightarrow> Some (Inr (Inl err, g))
      | Inr bytes \<Rightarrow>
          let v = \<lparr>bv_b = cloneBytes bytes\<rparr>
          in map_option (map_sum id (\<lambda>g'. (Inr v, g'))) (Group_populateCache g key v))"

definition Group_load :: "Group \<Rightarrow> string \<Rightarrow> (((string + ByteView) \<times> Group) go) option" where
  "Group_load g key = Group_getLocally g key"

definition Group_Get :: "Group \<Rightarrow> string \<Rightarrow> (((string + ByteView) \<times> Group) go) option" where
  "Group_Get g key =
     (if key = '''' then Some (Inr (Inl ''key is empty'', g))
      else case cache_get (gp_mainCache g) key of
             Inl p \<Rightarrow> Some (Inl p)
           | Inr (Some v, c) \<Rightarrow> Some (Inr (Inr v, g\<lparr>gp_mainCache := c\<rparr>))
           | Inr (None, c) \<Rightarrow> Group_load (g\<lparr>gp_mainCache := c\<rparr>) key)"

text \<open>A call through a pointer updates the group in the heap.\<close>

definition Groups_Get :: "Groups \<Rightarrow> nat \<Rightarrow> string \<Rightarrow> (((string + ByteView) \<times> Groups) go) option" where
  "Groups_Get G p key =
     map_option (map_sum id (\<lambda>(r, g). (r, G\<lparr>gg_heap := (gg_heap G)[p := g]\<rparr>)))
       (Group_Get (gg_heap G ! p) key)"

section \<open>http.go\<close>

definition defaultBasePath :: string where "defaultBasePath = ''/_geecache/''"
definition defaultReplicas :: int where "defaultReplicas = 50"

record HTTPPool =
  hp_self :: string
  hp_basePath :: string
  hp_peers :: "HashMap option"
  hp_httpGetters :: "string \<rightharpoonup> string"

definition NewHTTPPool :: "string \<Rightarrow> HTTPPool" where
  "NewHTTPPool self = \<lparr>hp_self = self, hp_basePath = defaultBasePath, hp_peers = None,
     hp_httpGetters = Map.empty\<rparr>"

datatype response = HttpError string nat | HttpOK bytes

text \<open>\<^verbatim>\<open>strings.SplitN(s, "/", 2)\<close>\<close>

definition split_slash :: "string \<Rightarrow> string list" where
  "split_slash s =
     (if CHR ''/'' \<in> set s
      then [takeWhile (\<lambda>c. c \<noteq> CHR ''/'') s, tl (dropWhile (\<lambda>c. c \<noteq> CHR ''/'') s)] else [s])"

definition ServeHTTP :: "HTTPPool \<Rightarrow> Groups \<Rightarrow> string \<Rightarrow> ((response \<times> Groups) go) option" where
  "ServeHTTP p G path =
     (if take (length (hp_basePath p)) path \<noteq> hp_basePath p
      then Some (Inl (PanicMsg (''HTTPPool serving unexpected path: '' @ path)))
      else case split_slash (drop (length (hp_basePath p)) path) of
             [groupName, key] \<Rightarrow>
               (case GetGroup G groupName of
                  None \<Rightarrow> Some (Inr (HttpError (''no such group: '' @ groupName) 404, G))
                | Some g \<Rightarrow>
                    map_option (map_sum id (\<lambda>(r, G').
                      (case r of Inl err \<Rightarrow> HttpError err 500 | Inr view \<Rightarrow> HttpOK (ByteView_ByteSlice view), G')))
                      (Groups_Get G g key))
           | _ \<Rightarrow> Some (Inr (HttpError ''bad request'' 400, G)))"

definition HTTPPool_Set :: "hash_fn \<Rightarrow> HTTPPool \<Rightarrow> string list \<Rightarrow> HTTPPool go" where
  "HTTPPool_Set crc p peers =
     bnd (HashMap_Add (hash_New crc defaultReplicas None) peers) (\<lambda>m.
       Inr (p\<lparr>hp_peers := Some m,
              hp_httpGetters := (\<lambda>peer. if peer \<in> set peers then Some (peer @ hp_basePath p) else None)\<rparr>))"

text \<open>
  \<^verbatim>\<open>PickPeer\<close> answers a getter, which may be nil, and whether there is one.
\<close>

definition HTTPPool_PickPeer :: "HTTPPool \<Rightarrow> string \<Rightarrow> (string option \<times> bool) go" where
  "HTTPPool_PickPeer p key =
     (case hp_peers p of
        None \<Rightarrow> Inl NilDereference
      | Some m \<Rightarrow> bnd (HashMap_Get m key) (\<lambda>peer.
          if peer = '''' \<and> peer \<noteq> hp_self p then Inr (hp_httpGetters p peer, True)
          else Inr (None, False)))"

datatype peer_error = TransportError string | BadStatus string | ReadError string | DecodeError string

text \<open>
  \<^verbatim>\<open>httpGetter.Get\<close>: \<open>httpGet\<close> answers an error, or status code, status line and what reading the
  body gives; \<open>unmarshal\<close> decodes the body.
\<close>

definition httpGetter_Get ::
  "(string \<Rightarrow> string) \<Rightarrow> (string \<Rightarrow> string + (nat \<times> string \<times> (string + bytes))) \<Rightarrow> (bytes \<Rightarrow> string + 'r)
     \<Rightarrow> string \<Rightarrow> string \<Rightarrow> string \<Rightarrow> peer_error + 'r" where
  "httpGetter_Get QueryEscape httpGet unmarshal baseURL grp key =
     (let u = baseURL @ QueryEscape grp @ ''/'' @ QueryEscape key in
      case httpGet u of
        Inl err \<Rightarrow> Inl (TransportError err)
      | Inr (code, status, body) \<Rightarrow>
          if code \<noteq> 200 then Inl (BadStatus status)
          else case body of
                 Inl err \<Rightarrow> Inl (ReadError err)
               | Inr bs \<Rightarrow> (case unmarshal bs of Inl err \<Rightarrow> Inl (DecodeError err) | Inr out \<Rightarrow> Inr out))"

section \<open>The locked cache provides the contract of a read-through cache\<close>

definition cache_inv :: "gcache \<Rightarrow> bool" where
  "cache_inv c \<longleftrightarrow> 0 \<le> gc_cacheBytes c
     \<and> (case gc_lru c of None \<Rightarrow> True
        | Some l \<Rightarrow> lru_inv ByteView_Len l \<and> lc_maxBytes l = gc_cacheBytes c)"

definition cache_stored :: "gcache \<Rightarrow> (string \<times> ByteView) set" where
  "cache_stored c = (case gc_lru c of None \<Rightarrow> {} | Some l \<Rightarrow> set (lru_abs l))"

lemma ByteView_Len_nonneg: "\<forall>v. 0 \<le> ByteView_Len v"
  by (simp add: ByteView_Len_def)

lemma cache_get_ok:
  assumes "cache_inv c"
  shows "\<exists>r c'. cache_get c k = Inr (r, c') \<and> cache_inv c' \<and> cache_stored c' \<subseteq> cache_stored c
     \<and> (\<forall>v. r = Some v \<longrightarrow> (k, v) \<in> cache_stored c)"
proof (cases "gc_lru c")
  case None
  with assms show ?thesis by (auto simp: cache_get_def)
next
  case (Some l)
  with assms have inv: "lru_inv ByteView_Len l" by (simp add: cache_inv_def)
  from Get_refines [OF inv, of k] obtain l' where
    "Cache_Get l k = Inr (fst (abs_get k (lru_abs l)), l')" "lru_inv ByteView_Len l'"
    "lc_maxBytes l' = lc_maxBytes l" "lru_abs l' = snd (abs_get k (lru_abs l))" by blast
  with Some assms set_abs_get [of k "lru_abs l"] abs_get_mem [of k "lru_abs l"] show ?thesis
    by (auto simp: cache_get_def cache_inv_def cache_stored_def)
qed

lemma cache_add_ok:
  assumes "cache_inv c"
  shows "\<exists>c'. cache_add c k v = Some (Inr c') \<and> cache_inv c'
     \<and> cache_stored c' \<subseteq> insert (k, v) (cache_stored c)"
proof -
  define l where "l = (case gc_lru c of None \<Rightarrow> lru_New (gc_cacheBytes c) False | Some l \<Rightarrow> l)"
  have inv: "lru_inv ByteView_Len l" and mx: "lc_maxBytes l = gc_cacheBytes c"
    and st: "set (lru_abs l) = cache_stored c"
    using assms by (auto simp: l_def cache_inv_def cache_stored_def New_inv split: option.splits)
  have "0 \<le> lc_maxBytes l" using mx assms by (simp add: cache_inv_def)
  from Add_refines [OF ByteView_Len_nonneg inv this, of k v] obtain l' where
    l': "Cache_Add ByteView_Len l k v = Some (Inr l')" "lru_inv ByteView_Len l'"
      "lc_maxBytes l' = lc_maxBytes l" "lru_abs l' = abs_add ByteView_Len (lc_maxBytes l) k v (lru_abs l)"
    by blast
  then have "cache_add c k v = Some (Inr (c\<lparr>gc_lru := Some l'\<rparr>))"
    unfolding l_def by (simp add: cache_add_def Let_def)
  moreover have "cache_inv (c\<lparr>gc_lru := Some l'\<rparr>)"
    using l' mx assms by (simp add: cache_inv_def)
  moreover have "cache_stored (c\<lparr>gc_lru := Some l'\<rparr>) \<subseteq> insert (k, v) (cache_stored c)"
    using set_abs_add [of ByteView_Len "lc_maxBytes l" k v "lru_abs l"] st l'(4)
    by (simp add: cache_stored_def)
  ultimately show ?thesis by blast
qed

interpretation gee: kv_cache cache_inv cache_stored cache_get cache_add
  by unfold_locales (rule cache_get_ok cache_add_ok, assumption)+

section \<open>Groups\<close>

definition group_source :: "getter \<Rightarrow> string \<Rightarrow> string + ByteView" where
  "group_source f key =
     (if key = '''' then Inl ''key is empty'' else map_sum id (\<lambda>b. \<lparr>bv_b = b\<rparr>) (f key))"

definition group_ok :: "Group \<Rightarrow> bool" where
  "group_ok g \<longleftrightarrow> cache_inv (gp_mainCache g)
     \<and> (\<forall>(k, v) \<in> cache_stored (gp_mainCache g). group_source (gp_getter g) k = Inr v)"

lemma group_ok_fresh: "group_ok g \<longleftrightarrow> gee.fresh (group_source (gp_getter g)) (gp_mainCache g)"
  by (simp add: group_ok_def gee.fresh_def)

lemma Group_Get_read_through:
  "key \<noteq> '''' \<Longrightarrow> Group_Get g key =
   map_option (map_sum id (\<lambda>(r, c). (r, g\<lparr>gp_mainCache := c\<rparr>)))
     (read_through cache_get cache_add (group_source (gp_getter g)) (gp_mainCache g) key)"
  by (auto simp: Group_Get_def read_through_def Group_load_def Group_getLocally_def
      Group_populateCache_def group_source_def Let_def option.map_comp sum.map_comp comp_def
      split: sum.splits option.splits)

lemma Group_Get_ok:
  assumes "group_ok g"
  shows "\<exists>g'. Group_Get g key = Some (Inr (group_source (gp_getter g) key, g'))
     \<and> group_ok g' \<and> gp_getter g' = gp_getter g"
proof (cases "key = ''''")
  case True
  with assms show ?thesis by (simp add: Group_Get_def group_source_def)
next
  case False
  from gee.read_through_transparent [of "group_source (gp_getter g)" "gp_mainCache g" key] assms
  obtain c where "read_through cache_get cache_add (group_source (gp_getter g)) (gp_mainCache g) key
      = Some (Inr (group_source (gp_getter g) key, c))" "gee.fresh (group_source (gp_getter g)) c"
    by (auto simp: group_ok_fresh)
  with False show ?thesis by (auto simp: Group_Get_read_through group_ok_fresh)
qed

definition groups_ok :: "Groups \<Rightarrow> bool" where
  "groups_ok G \<longleftrightarrow> (\<forall>p \<in> ran (gg_groups G). p < length (gg_heap G)) \<and> list_all group_ok (gg_heap G)"

lemma NewGroup_ok:
  assumes "groups_ok G" and "0 \<le> n"
  shows "\<exists>p G'. NewGroup G name n (Some f) = Inr (p, G') \<and> groups_ok G' \<and> GetGroup G' name = Some p
     \<and> gp_getter (gg_heap G' ! p) = f"
proof -
  have "\<forall>q \<in> ran ((gg_groups G)(name \<mapsto> length (gg_heap G))). q < Suc (length (gg_heap G))"
    using assms(1) by (auto simp: groups_ok_def ran_def less_Suc_eq)
  with assms show ?thesis
    by (simp add: NewGroup_def Let_def groups_ok_def GetGroup_def group_ok_def cache_inv_def
        cache_stored_def nth_append)
qed

lemma Groups_Get_ok:
  assumes "groups_ok G" and "p < length (gg_heap G)"
  shows "\<exists>G'. Groups_Get G p key = Some (Inr (group_source (gp_getter (gg_heap G ! p)) key, G'))
     \<and> groups_ok G' \<and> gg_groups G' = gg_groups G
     \<and> map gp_getter (gg_heap G') = map gp_getter (gg_heap G)"
proof -
  have "group_ok (gg_heap G ! p)" using assms by (simp add: groups_ok_def list_all_length)
  from Group_Get_ok [OF this, of key] obtain g' where
    "Group_Get (gg_heap G ! p) key = Some (Inr (group_source (gp_getter (gg_heap G ! p)) key, g'))"
    "group_ok g'" "gp_getter g' = gp_getter (gg_heap G ! p)" by blast
  with assms show ?thesis
    by (auto simp: Groups_Get_def groups_ok_def list_all_length nth_list_update map_update
        list_update_same_conv)
qed

lemma split_slash_first:
  "CHR ''/'' \<notin> set g \<Longrightarrow> split_slash (g @ CHR ''/'' # k) = [g, k]"
  by (auto simp: split_slash_def takeWhile_append dropWhile_append)

section \<open>Properties\<close>


text \<open>
  The server answers the path \<^verbatim>\<open>basePath group "/" key\<close> with 404 for an unknown group, 500
  with the message when the key is empty or the getter fails, and otherwise 200 with the getter's
  bytes; a path without a second slash is a bad request.
\<close>

theorem ServeHTTP_serves:
  assumes "groups_ok G" and "CHR ''/'' \<notin> set name"
  shows "\<exists>G'. ServeHTTP p G (hp_basePath p @ name @ CHR ''/'' # key) = Some (Inr
       (case GetGroup G name of
          None \<Rightarrow> HttpError (''no such group: '' @ name) 404
        | Some q \<Rightarrow> (case group_source (gp_getter (gg_heap G ! q)) key of
            Inl err \<Rightarrow> HttpError err 500 | Inr v \<Rightarrow> HttpOK (bv_b v)), G'))
     \<and> groups_ok G' \<and> ServeHTTP p G (hp_basePath p @ name) = Some (Inr (HttpError ''bad request'' 400, G))"
proof (cases "GetGroup G name")
  case None
  with assms show ?thesis
    by (auto simp: ServeHTTP_def split_slash_first) (simp add: split_slash_def)
next
  case (Some q)
  then have "q < length (gg_heap G)"
    using assms(1) unfolding groups_ok_def GetGroup_def by (blast intro: ranI)
  from Groups_Get_ok [OF assms(1) this, of key] obtain G' where
    "Groups_Get G q key = Some (Inr (group_source (gp_getter (gg_heap G ! q)) key, G'))" "groups_ok G'"
    by blast
  with Some assms show ?thesis
    by (auto simp: ServeHTTP_def split_slash_first ByteView_ByteSlice_def split: sum.splits)
      (simp_all add: split_slash_def)
qed

text \<open>
  The pool cannot be used with peers: \<^verbatim>\<open>Set\<close> with at least one peer always panics, because
  the ring keeps a nil hash function; \<^verbatim>\<open>PickPeer\<close> panics on a new pool, and after \<^verbatim>\<open>Set\<close> with no
  peer it answers a nil getter with \<^verbatim>\<open>true\<close>, unless the pool's own name is empty.
\<close>

theorem HTTPPool_unusable:
  "HTTPPool_Set crc p (peer # peers) = Inl NilDereference
   \<and> HTTPPool_PickPeer (NewHTTPPool self) key = Inl NilDereference
   \<and> bnd (HTTPPool_Set crc (NewHTTPPool self) []) (\<lambda>p. HTTPPool_PickPeer p key)
     = Inr (None, self \<noteq> '''')"
  by (simp add: HTTPPool_Set_def HashMap_Add_def hash_New_def defaultReplicas_def call_hash_def
      numeral_eq_Suc HTTPPool_PickPeer_def NewHTTPPool_def HashMap_Get_def)

section \<open>Concrete instances\<close>

definition demo_getter :: getter where
  "demo_getter k = (if k = ''tom'' then Inr [54, 51] else Inl ''not found'')"

definition demo_groups :: Groups where
  "demo_groups = \<lparr>gg_heap = [\<lparr>gp_name = ''g'', gp_getter = demo_getter,
      gp_mainCache = \<lparr>gc_lru = None, gc_cacheBytes = 10\<rparr>\<rparr>], gg_groups = [''g'' \<mapsto> 0]\<rparr>"

lemma demo_groups_ok: "groups_ok demo_groups" "GetGroup demo_groups ''g'' = Some 0"
  by (auto simp: groups_ok_def demo_groups_def group_ok_def cache_inv_def cache_stored_def GetGroup_def
      ran_def)


lemma ServeHTTP_serves_witness:
  "\<exists>G'. ServeHTTP (NewHTTPPool ''me'') demo_groups ''/_geecache/g/tom'' = Some (Inr (HttpOK [54, 51], G'))"
  using ServeHTTP_serves [OF demo_groups_ok(1), of "''g''" "NewHTTPPool ''me''" "''tom''"]
  by (auto simp: demo_groups_def GetGroup_def group_source_def demo_getter_def NewHTTPPool_def
      defaultBasePath_def)

end
