(* ===== verification/SingleFlight.thy ===== *)
theory SingleFlight
  imports Prelude
begin

text \<open>
  The duplicate-call suppression of \<^verbatim>\<open>gocache/lrucache/singleflight/singleflight.go\<close> as a step
  relation on a shared state.  A step is one section of \<^verbatim>\<open>Group.Do\<close> between lock operations and
  waits: the first locked section (which joins a call or starts one), the return of \<^verbatim>\<open>fn\<close> with
  \<^verbatim>\<open>wg.Done\<close>, the locked delete with the return, and the return of a waiter.  Any number of threads
  interleave; \<^verbatim>\<open>fn\<close> may answer anything, or panic, which ends its thread where it stands.
\<close>

text \<open>A call: its result once \<^verbatim>\<open>wg.Done\<close> has run.  A thread is at one place of \<^verbatim>\<open>Do\<close>.\<close>

datatype ('k, 'v) place =
    AtDo 'k
  | InFn 'k nat
  | AfterDone 'k nat
  | Waiting 'k nat
  | Returned 'k nat 'v
  | Crashed 'k nat

record ('k, 'v) flight =
  sf_m :: "'k \<rightharpoonup> nat"
  sf_calls :: "'v option list"
  sf_threads :: "nat \<Rightarrow> ('k, 'v) place"

definition sf_init :: "(nat \<Rightarrow> 'k) \<Rightarrow> ('k, 'v) flight" where
  "sf_init keys = \<lparr>sf_m = Map.empty, sf_calls = [], sf_threads = (\<lambda>t. AtDo (keys t))\<rparr>"

text \<open>The first locked section of \<^verbatim>\<open>Do(key, fn)\<close>: join the call in flight, or start one.\<close>

definition do_enter :: "nat \<Rightarrow> 'k \<Rightarrow> ('k, 'v) flight \<Rightarrow> ('k, 'v) flight" where
  "do_enter t key s =
     (case sf_m s key of
        Some c \<Rightarrow> s\<lparr>sf_threads := (sf_threads s)(t := Waiting key c)\<rparr>
      | None \<Rightarrow>
          let c = length (sf_calls s) in
          s\<lparr>sf_calls := sf_calls s @ [None], sf_m := (sf_m s)(key \<mapsto> c),
            sf_threads := (sf_threads s)(t := InFn key c)\<rparr>)"

definition do_done :: "nat \<Rightarrow> 'k \<Rightarrow> nat \<Rightarrow> 'v \<Rightarrow> ('k, 'v) flight \<Rightarrow> ('k, 'v) flight" where
  "do_done t key c v s =
     s\<lparr>sf_calls := (sf_calls s)[c := Some v], sf_threads := (sf_threads s)(t := AfterDone key c)\<rparr>"

definition do_delete :: "nat \<Rightarrow> 'k \<Rightarrow> nat \<Rightarrow> 'v \<Rightarrow> ('k, 'v) flight \<Rightarrow> ('k, 'v) flight" where
  "do_delete t key c v s =
     s\<lparr>sf_m := (sf_m s)(key := None), sf_threads := (sf_threads s)(t := Returned key c v)\<rparr>"

inductive sf_step :: "('k, 'v) flight \<Rightarrow> ('k, 'v) flight \<Rightarrow> bool" where
  enter: "sf_threads s t = AtDo key \<Longrightarrow> sf_step s (do_enter t key s)"
| fn_returns: "sf_threads s t = InFn key c \<Longrightarrow> sf_step s (do_done t key c v s)"
| fn_panics: "sf_threads s t = InFn key c \<Longrightarrow>
    sf_step s (s\<lparr>sf_threads := (sf_threads s)(t := Crashed key c)\<rparr>)"
| finish: "sf_threads s t = AfterDone key c \<Longrightarrow> sf_calls s ! c = Some v \<Longrightarrow>
    sf_step s (do_delete t key c v s)"
| wake: "sf_threads s t = Waiting key c \<Longrightarrow> sf_calls s ! c = Some v \<Longrightarrow>
    sf_step s (s\<lparr>sf_threads := (sf_threads s)(t := Returned key c v)\<rparr>)"

inductive sf_reach :: "(nat \<Rightarrow> 'k) \<Rightarrow> ('k, 'v) flight \<Rightarrow> bool" for keys where
  start: "sf_reach keys (sf_init keys)"
| step: "sf_reach keys s \<Longrightarrow> sf_step s s' \<Longrightarrow> sf_reach keys s'"

section \<open>Invariant\<close>

text \<open>The thread that holds a key: it runs \<^verbatim>\<open>fn\<close>, is about to delete the key, or has crashed.\<close>

fun owns :: "('k, 'v) place \<Rightarrow> ('k \<times> nat) option" where
  "owns (InFn k c) = Some (k, c)"
| "owns (AfterDone k c) = Some (k, c)"
| "owns (Crashed k c) = Some (k, c)"
| "owns _ = None"

fun thread_ok :: "('k, 'v) flight \<Rightarrow> ('k, 'v) place \<Rightarrow> bool" where
  "thread_ok s (AtDo k) = True"
| "thread_ok s (InFn k c) = (sf_m s k = Some c \<and> c < length (sf_calls s) \<and> sf_calls s ! c = None)"
| "thread_ok s (Crashed k c) = (sf_m s k = Some c \<and> c < length (sf_calls s) \<and> sf_calls s ! c = None)"
| "thread_ok s (AfterDone k c) = (sf_m s k = Some c \<and> c < length (sf_calls s) \<and> sf_calls s ! c \<noteq> None)"
| "thread_ok s (Waiting k c) =
     (c < length (sf_calls s) \<and> (sf_calls s ! c = None \<longrightarrow> sf_m s k = Some c))"
| "thread_ok s (Returned k c v) = (c < length (sf_calls s) \<and> sf_calls s ! c = Some v)"

definition sf_inv :: "('k, 'v) flight \<Rightarrow> bool" where
  "sf_inv s \<longleftrightarrow>
     (\<forall>t. thread_ok s (sf_threads s t))
     \<and> (\<forall>t t' k c c'. owns (sf_threads s t) = Some (k, c) \<longrightarrow>
           owns (sf_threads s t') = Some (k, c') \<longrightarrow> t = t')
     \<and> (\<forall>k c. sf_m s k = Some c \<longrightarrow> c < length (sf_calls s) \<and> (\<exists>t. owns (sf_threads s t) = Some (k, c)))
     \<and> inj_on (\<lambda>k. the (sf_m s k)) (dom (sf_m s))"

lemma sf_invD:
  assumes "sf_inv s"
  shows "thread_ok s (sf_threads s t)"
    and "owns (sf_threads s t) = Some (k, c) \<Longrightarrow> owns (sf_threads s t') = Some (k, c') \<Longrightarrow> t = t'"
    and "sf_m s k = Some c \<Longrightarrow> c < length (sf_calls s)"
    and "sf_m s k = Some c \<Longrightarrow> \<exists>t. owns (sf_threads s t) = Some (k, c)"
    and "sf_m s k = Some c \<Longrightarrow> sf_m s k' = Some c \<Longrightarrow> k = k'"
proof -
  show "sf_m s k = Some c \<Longrightarrow> sf_m s k' = Some c \<Longrightarrow> k = k'"
    using assms unfolding sf_inv_def inj_on_def by (metis domI option.sel)
qed (use assms in \<open>unfold sf_inv_def, blast+\<close>)

lemma sf_invI:
  assumes "\<And>t. thread_ok s (sf_threads s t)"
    and "\<And>t t' k c c'. owns (sf_threads s t) = Some (k, c) \<Longrightarrow>
           owns (sf_threads s t') = Some (k, c') \<Longrightarrow> t = t'"
    and "\<And>k c. sf_m s k = Some c \<Longrightarrow> c < length (sf_calls s) \<and> (\<exists>t. owns (sf_threads s t) = Some (k, c))"
    and "\<And>k k' c. sf_m s k = Some c \<Longrightarrow> sf_m s k' = Some c \<Longrightarrow> k = k'"
  shows "sf_inv s"
  unfolding sf_inv_def inj_on_def using assms by (auto simp: dom_def)

lemma owns_m: "thread_ok s p \<Longrightarrow> owns p = Some (k, c) \<Longrightarrow> sf_m s k = Some c"
  by (cases p) auto

text \<open>A step that only moves a thread between places that own nothing.\<close>

lemma inv_move:
  assumes inv: "sf_inv s" and own: "owns p = owns (sf_threads s t)" and ok: "thread_ok s p"
  shows "sf_inv (s\<lparr>sf_threads := (sf_threads s)(t := p)\<rparr>)"
proof (rule sf_invI)
  let ?s = "s\<lparr>sf_threads := (sf_threads s)(t := p)\<rparr>"
  have same: "owns (sf_threads ?s u) = owns (sf_threads s u)" for u using own by simp
  have tok: "thread_ok ?s q = thread_ok s q" for q by (cases q) auto
  show "thread_ok ?s (sf_threads ?s u)" for u
    using tok ok sf_invD(1) [OF inv] by simp
  show "u = u'" if "owns (sf_threads ?s u) = Some (k, c)" "owns (sf_threads ?s u') = Some (k, c')" for u u' k c c'
    using sf_invD(2) [OF inv] that unfolding same by blast
  show "c < length (sf_calls ?s) \<and> (\<exists>u. owns (sf_threads ?s u) = Some (k, c))" if "sf_m ?s k = Some c" for k c
    using sf_invD(3,4) [OF inv, of k c] that unfolding same by simp
  show "k = k'" if "sf_m ?s k = Some c" "sf_m ?s k' = Some c" for k k' c
    using sf_invD(5) [OF inv] that by simp
qed

lemma inv_start:
  assumes inv: "sf_inv s" and t: "sf_threads s t = AtDo key" and free: "sf_m s key = None"
  shows "sf_inv (do_enter t key s)"
proof (rule sf_invI)
  let ?c = "length (sf_calls s)" and ?s = "do_enter t key s"
  have s': "?s = s\<lparr>sf_calls := sf_calls s @ [None], sf_m := (sf_m s)(key \<mapsto> ?c),
      sf_threads := (sf_threads s)(t := InFn key ?c)\<rparr>" using free by (simp add: do_enter_def Let_def)
  have other: "owns (sf_threads s u) \<noteq> Some (key, c)" for u c
    using owns_m [OF sf_invD(1) [OF inv], of u key c] free by auto
  have ok: "thread_ok s p \<Longrightarrow> (\<And>c. owns p \<noteq> Some (key, c)) \<Longrightarrow> thread_ok ?s p" for p
    using free by (cases p) (auto simp: s' nth_append)
  show "thread_ok ?s (sf_threads ?s u)" for u
    using ok [OF sf_invD(1) [OF inv, of u] other] by (simp add: s' nth_append)
  show "u = u'" if "owns (sf_threads ?s u) = Some (k, c)" "owns (sf_threads ?s u') = Some (k, c')" for u u' k c c'
    using sf_invD(2) [OF inv, of u k c u' c'] that other by (auto simp: s' split: if_splits)
  show "c < length (sf_calls ?s) \<and> (\<exists>u. owns (sf_threads ?s u) = Some (k, c))" if "sf_m ?s k = Some c" for k c
  proof (cases "k = key")
    case True
    with that show ?thesis by (auto simp: s' intro!: exI [of _ t])
  next
    case False
    with that have "sf_m s k = Some c" by (simp add: s')
    from sf_invD(3,4) [OF inv this] obtain u where
      u: "c < length (sf_calls s)" "owns (sf_threads s u) = Some (k, c)" by blast
    then have "u \<noteq> t" using t by auto
    with u show ?thesis by (auto simp: s' intro!: exI [of _ u])
  qed
  show "k = k'" if "sf_m ?s k = Some c" "sf_m ?s k' = Some c" for k k' c
    using sf_invD(5) [OF inv, of k c k'] sf_invD(3) [OF inv, of k c] sf_invD(3) [OF inv, of k' c] that
    by (auto simp: s' split: if_splits)
qed

lemma inv_done:
  assumes inv: "sf_inv s" and t: "sf_threads s t = InFn key c"
  shows "sf_inv (do_done t key c v s)"
proof (rule sf_invI)
  let ?s = "do_done t key c v s"
  from sf_invD(1) [OF inv, of t] t have m: "sf_m s key = Some c" "c < length (sf_calls s)" "sf_calls s ! c = None"
    by simp_all
  have same: "owns (sf_threads ?s u) = owns (sf_threads s u)" for u using t by (simp add: do_done_def)
  have other: "thread_ok ?s (sf_threads s u)" if "u \<noteq> t" for u
  proof -
    have "\<not> (\<exists>k. owns (sf_threads s u) = Some (k, c))"
    proof
      assume "\<exists>k. owns (sf_threads s u) = Some (k, c)"
      then obtain k where o: "owns (sf_threads s u) = Some (k, c)" by blast
      from sf_invD(5) [OF inv owns_m [OF sf_invD(1) [OF inv] o] m(1)] have "k = key" .
      with sf_invD(2) [OF inv, of u key c t c] o t that show False by simp
    qed
    with sf_invD(1) [OF inv, of u] m show ?thesis
      by (cases "sf_threads s u") (auto simp: do_done_def nth_list_update)
  qed
  show "thread_ok ?s (sf_threads ?s u)" for u
    using other [of u] m by (cases "u = t") (simp_all add: do_done_def)
  show "u = u'" if "owns (sf_threads ?s u) = Some (k, d)" "owns (sf_threads ?s u') = Some (k, d')" for u u' k d d'
    using sf_invD(2) [OF inv] that unfolding same by blast
  show "d < length (sf_calls ?s) \<and> (\<exists>u. owns (sf_threads ?s u) = Some (k, d))" if "sf_m ?s k = Some d" for k d
    using sf_invD(3,4) [OF inv, of k d] that unfolding same by (simp add: do_done_def)
  show "k = k'" if "sf_m ?s k = Some d" "sf_m ?s k' = Some d" for k k' d
    using sf_invD(5) [OF inv] that by (simp add: do_done_def)
qed

lemma inv_delete:
  assumes inv: "sf_inv s" and t: "sf_threads s t = AfterDone key c" and v: "sf_calls s ! c = Some v"
  shows "sf_inv (do_delete t key c v s)"
proof (rule sf_invI)
  let ?s = "do_delete t key c v s"
  from sf_invD(1) [OF inv, of t] t have m: "sf_m s key = Some c" "c < length (sf_calls s)" by simp_all
  have other: "k \<noteq> key" if "u \<noteq> t" "owns (sf_threads s u) = Some (k, d)" for u k d
    using sf_invD(2) [OF inv, of u k d t c] t that by auto
  have "thread_ok ?s (sf_threads s u)" if "u \<noteq> t" for u
    using other [OF that] sf_invD(1) [OF inv, of u] m v
    by (cases "sf_threads s u") (auto simp: do_delete_def)
  then show "thread_ok ?s (sf_threads ?s u)" for u
    using m v by (cases "u = t") (simp_all add: do_delete_def)
  show "u = u'" if "owns (sf_threads ?s u) = Some (k, d)" "owns (sf_threads ?s u') = Some (k, d')" for u u' k d d'
    using sf_invD(2) [OF inv, of u k d u' d'] that by (auto simp: do_delete_def split: if_splits)
  show "d < length (sf_calls ?s) \<and> (\<exists>u. owns (sf_threads ?s u) = Some (k, d))" if "sf_m ?s k = Some d" for k d
  proof -
    from that have k: "k \<noteq> key" "sf_m s k = Some d" by (auto simp: do_delete_def split: if_splits)
    from sf_invD(4) [OF inv k(2)] obtain u where u: "owns (sf_threads s u) = Some (k, d)" by blast
    with k t have "u \<noteq> t" by auto
    with u sf_invD(3) [OF inv k(2)] show ?thesis by (auto simp: do_delete_def intro!: exI [of _ u])
  qed
  show "k = k'" if "sf_m ?s k = Some d" "sf_m ?s k' = Some d" for k k' d
    using sf_invD(5) [OF inv, of k d k'] that by (auto simp: do_delete_def split: if_splits)
qed

lemma sf_step_inv: "sf_step s s' \<Longrightarrow> sf_inv s \<Longrightarrow> sf_inv s'"
proof (induction rule: sf_step.induct)
  case (enter s t key)
  show ?case
  proof (cases "sf_m s key")
    case None
    then show ?thesis by (rule inv_start [OF enter.prems enter.hyps])
  next
    case (Some c)
    with inv_move [OF enter.prems, of "Waiting key c" t] sf_invD(3) [OF enter.prems Some] enter.hyps
    show ?thesis by (simp add: do_enter_def)
  qed
next
  case (fn_returns s t key c v)
  then show ?case by (simp add: inv_done)
next
  case (fn_panics s t key c)
  with inv_move [OF fn_panics.prems, of "Crashed key c" t] sf_invD(1) [OF fn_panics.prems, of t]
  show ?case by simp
next
  case (finish s t key c v)
  then show ?case by (simp add: inv_delete)
next
  case (wake s t key c v)
  with inv_move [OF wake.prems, of "Returned key c v" t] sf_invD(1) [OF wake.prems, of t]
  show ?case by simp
qed

fun place_key :: "('k, 'v) place \<Rightarrow> 'k" where
  "place_key (AtDo k) = k"
| "place_key (InFn k c) = k"
| "place_key (AfterDone k c) = k"
| "place_key (Waiting k c) = k"
| "place_key (Returned k c v) = k"
| "place_key (Crashed k c) = k"

lemma sf_step_key: "sf_step s s' \<Longrightarrow> place_key (sf_threads s' t) = place_key (sf_threads s t)"
  by (induction rule: sf_step.induct)
    (auto simp: do_enter_def do_done_def do_delete_def Let_def split: option.splits)

lemma sf_init_inv: "sf_inv (sf_init keys)"
  by (simp add: sf_inv_def sf_init_def)

lemma sf_reach_inv:
  "sf_reach keys s \<Longrightarrow> sf_inv s \<and> (\<forall>t. place_key (sf_threads s t) = keys t)"
proof (induction rule: sf_reach.induct)
  case start
  show ?case using sf_init_inv by (simp add: sf_init_def)
next
  case (step s s')
  then show ?case using sf_step_inv sf_step_key by metis
qed

section \<open>Properties\<close>

text \<open>
  C4. In every interleaving, at most one thread runs \<^verbatim>\<open>fn\<close> for a key at a time; a thread returns
  only for its own key, with the value that the one call it took part in produced, so all threads
  that shared a call return the same value; and a key is in the map exactly while a thread holds
  it, so the next \<^verbatim>\<open>Do\<close> after the delete runs \<^verbatim>\<open>fn\<close> again.
\<close>

theorem Do_single_flight:
  assumes "sf_reach keys s"
  shows "(\<forall>t t' k c c'. sf_threads s t = InFn k c \<longrightarrow> sf_threads s t' = InFn k c' \<longrightarrow> t = t')
     \<and> (\<forall>t t' k k' c v v'. sf_threads s t = Returned k c v \<longrightarrow> sf_threads s t' = Returned k' c v' \<longrightarrow> v = v')
     \<and> (\<forall>t k c v. sf_threads s t = Returned k c v \<longrightarrow> k = keys t \<and> sf_calls s ! c = Some v)
     \<and> (\<forall>k. sf_m s k \<noteq> None \<longleftrightarrow> (\<exists>t c. owns (sf_threads s t) = Some (k, c)))"
proof -
  from sf_reach_inv [OF assms] have inv: "sf_inv s" and key: "\<And>t. place_key (sf_threads s t) = keys t"
    by simp_all
  have ret: "k = keys t \<and> sf_calls s ! c = Some v" if "sf_threads s t = Returned k c v" for t k c v
    using sf_invD(1) [OF inv, of t] key [of t] that by simp
  have own: "sf_m s k \<noteq> None \<longleftrightarrow> (\<exists>t c. owns (sf_threads s t) = Some (k, c))" for k
    using sf_invD(4) [OF inv, of k] owns_m [OF sf_invD(1) [OF inv]] by fastforce
  have fn: "t = t'" if "sf_threads s t = InFn k c" "sf_threads s t' = InFn k c'" for t t' k c c'
    using sf_invD(2) [OF inv, of t k c t' c'] that by simp
  have same: "v = v'" if "sf_threads s t = Returned k c v" "sf_threads s t' = Returned k' c v'" for t t' k k' c v v'
    using ret [OF that(1)] ret [OF that(2)] by simp
  from ret have r: "\<forall>t k c v. sf_threads s t = Returned k c v \<longrightarrow> k = keys t \<and> sf_calls s ! c = Some v"
    by simp
  from same have "\<forall>t t' k k' c v v'. sf_threads s t = Returned k c v \<longrightarrow>
      sf_threads s t' = Returned k' c v' \<longrightarrow> v = v'" by blast
  moreover from fn have "\<forall>t t' k c c'. sf_threads s t = InFn k c \<longrightarrow>
      sf_threads s t' = InFn k c' \<longrightarrow> t = t'" by blast
  ultimately show ?thesis using r own by simp
qed

text \<open>
  C29. A waiter is held up only by its own call: in every reachable state it can return at once, or
  the thread that runs its call is still in \<^verbatim>\<open>fn\<close> or has panicked there.  After a panic the key
  stays in the map for good, so every later \<^verbatim>\<open>Do\<close> of that key joins the dead call and waits.
\<close>

theorem Do_waiters:
  assumes "sf_reach keys s" and "sf_threads s t = Waiting k c"
  shows "(\<exists>v. sf_step s (s\<lparr>sf_threads := (sf_threads s)(t := Returned k c v)\<rparr>))
     \<or> (\<exists>t'. sf_threads s t' = InFn k c)
     \<or> (\<exists>t'. sf_threads s t' = Crashed k c \<and> sf_m s k = Some c
          \<and> (\<forall>u. sf_threads s u = AtDo k \<longrightarrow> sf_threads (do_enter u k s) u = Waiting k c))"
proof -
  from sf_reach_inv [OF assms(1)] have inv: "sf_inv s" by simp
  from sf_invD(1) [OF inv, of t] assms(2) have ok: "sf_calls s ! c = None \<longrightarrow> sf_m s k = Some c" by simp
  show ?thesis
  proof (cases "sf_calls s ! c")
    case (Some v)
    with assms(2) show ?thesis by (blast intro: sf_step.wake)
  next
    case None
    with ok have m: "sf_m s k = Some c" by simp
    from sf_invD(4) [OF inv m] obtain t' where own: "owns (sf_threads s t') = Some (k, c)" by blast
    with sf_invD(1) [OF inv, of t'] None m show ?thesis
      by (cases "sf_threads s t'") (auto simp: do_enter_def)
  qed
qed

section \<open>Concrete instances\<close>

text \<open>Two threads ask for the same key: the first starts the call, the second waits for it.\<close>

definition two_threads :: "(nat, nat) flight" where
  "two_threads = do_enter 1 7 (do_enter 0 7 (sf_init (\<lambda>_. 7)))"

lemma two_threads_reach: "sf_reach (\<lambda>_. 7) two_threads"
  unfolding two_threads_def
proof (rule sf_reach.step [OF sf_reach.step [OF sf_reach.start]])
  show "sf_step (sf_init (\<lambda>_. 7)) (do_enter 0 7 (sf_init (\<lambda>_. 7 :: nat)))"
    by (rule sf_step.enter) (simp add: sf_init_def)
  show "sf_step (do_enter 0 7 (sf_init (\<lambda>_. 7))) (do_enter 1 7 (do_enter 0 7 (sf_init (\<lambda>_. 7 :: nat))))"
    by (rule sf_step.enter) (simp add: sf_init_def do_enter_def)
qed

lemma two_threads_places: "sf_threads two_threads 0 = InFn 7 0" "sf_threads two_threads 1 = Waiting 7 0"
  by (simp_all add: two_threads_def do_enter_def sf_init_def)

lemma Do_single_flight_witness:
  "{t. \<exists>c. sf_threads two_threads t = InFn 7 c} = {0} \<and> sf_m two_threads 7 \<noteq> None"
proof
  note sf = Do_single_flight [OF two_threads_reach]
  have "t = 0" if "sf_threads two_threads t = InFn 7 c" for t c
    using conjunct1 [OF sf, rule_format, OF that two_threads_places(1)] .
  then show "{t. \<exists>c. sf_threads two_threads t = InFn 7 c} = {0}"
    using two_threads_places(1) by auto
  have "owns (sf_threads two_threads 0) = Some (7, 0)" using two_threads_places(1) by simp
  then show "sf_m two_threads 7 \<noteq> None" using sf by blast
qed

lemma Do_waiters_witness:
  "(\<exists>v. sf_step two_threads (two_threads\<lparr>sf_threads := (sf_threads two_threads)(1 := Returned 7 0 v)\<rparr>))
   \<or> (\<exists>t'. sf_threads two_threads t' = InFn 7 0)
   \<or> (\<exists>t'. sf_threads two_threads t' = Crashed 7 0)"
  using Do_waiters [OF two_threads_reach two_threads_places(2)] by blast

end
