(* ===== verification/FsPoll.thy ===== *)
theory FsPoll
  imports Prelude
begin

text \<open>
  File polling of \<^verbatim>\<open>uvgo/fspoll.go\<close>: the state of a watch, the dispatch of one stat result on the
  loop, the worker that produces the results, and Start/Stop/Path.  Time stamps and durations are
  integers in nanoseconds; \<^verbatim>\<open>os.Stat\<close> results are inputs.  An error is its chain of wrapped errors,
  outermost first, as \<^verbatim>\<open>errors.As\<close> walks it.  A nil \<^verbatim>\<open>os.FileInfo\<close> is \<open>None\<close>.
\<close>

record StatT =
  st_Size :: int
  st_Mode :: nat
  st_ModTime :: int

definition zeroStat :: StatT where
  "zeroStat = \<lparr>st_Size = 0, st_Mode = 0, st_ModTime = 0\<rparr>"

definition StatFromFileInfo :: "(int \<times> nat \<times> int) option \<Rightarrow> StatT" where
  "StatFromFileInfo fi =
     (case fi of None \<Rightarrow> zeroStat
      | Some (sz, mode, mtime) \<Rightarrow>
          \<lparr>st_Size = sz, st_Mode = mode mod 2 ^ 32, st_ModTime = mtime\<rparr>)"

definition statEqual :: "StatT option \<Rightarrow> StatT option \<Rightarrow> bool" where
  "statEqual a b =
     (case (a, b) of
        (Some x, Some y) \<Rightarrow> st_Size x = st_Size y \<and> st_Mode x = st_Mode y \<and> st_ModTime x = st_ModTime y
      | (x, y) \<Rightarrow> x = None \<and> y = None)"

section \<open>Errors\<close>

datatype err_layer = PathError | Errno int | OtherError

fun first_errno :: "err_layer list \<Rightarrow> int option" where
  "first_errno [] = None"
| "first_errno (Errno e # es) = Some e"
| "first_errno (_ # es) = first_errno es"

fun after_path_error :: "err_layer list \<Rightarrow> err_layer list option" where
  "after_path_error [] = None"
| "after_path_error (PathError # es) = Some es"
| "after_path_error (_ # es) = after_path_error es"

definition errnoFromStatError :: "err_layer list option \<Rightarrow> int" where
  "errnoFromStatError err =
     (case err of
        None \<Rightarrow> 0
      | Some es \<Rightarrow>
          (case Option.bind (after_path_error es) first_errno of
             Some e \<Rightarrow> e
           | None \<Rightarrow> (case first_errno es of Some e \<Rightarrow> e | None \<Rightarrow> -1)))"

section \<open>State\<close>

record fspollState =
  fp_path :: string
  fp_interval :: int
  fp_active :: bool
  fp_busy :: int
  fp_prev :: StatT

definition ErrStopped :: string where "ErrStopped = ''uvgo: loop stopped''"

text \<open>The callback is present or nil; a started watch also starts its worker (\<^verbatim>\<open>FsWorker\<close>).  The interval is in
  nanoseconds; that it overflows above 292 years is not modelled.\<close>

definition FSPollStart :: "bool \<Rightarrow> string \<Rightarrow> int \<Rightarrow> bool \<Rightarrow> string + fspollState" where
  "FSPollStart loop_stopped path intervalMs cb_set =
     (if \<not> cb_set then Inl ''uvgo: nil fs poll callback''
      else if loop_stopped then Inl ErrStopped
      else let ms = (if intervalMs \<le> 0 then 1 else intervalMs)
           in Inr \<lparr>fp_path = path, fp_interval = ms * 1000000, fp_active = True, fp_busy = 0,
                   fp_prev = zeroStat\<rparr>)"

definition FSPoll_Stop :: "fspollState option \<Rightarrow> fspollState option" where
  "FSPoll_Stop fp = map_option (\<lambda>st. st\<lparr>fp_active := False\<rparr>) fp"

definition FSPoll_Path :: "fspollState option \<Rightarrow> string \<times> bool" where
  "FSPoll_Path fp =
     (case fp of None \<Rightarrow> ('''', False)
      | Some st \<Rightarrow> if \<not> fp_active st then ('''', False) else (fp_path st, True))"

section \<open>Dispatch\<close>

text \<open>A job: the error chain or the file info of one stat, and the time since the stat began.\<close>

record fspollJob =
  jb_fi :: "(int \<times> nat \<times> int) option"
  jb_err :: "err_layer list option"
  jb_since :: int

text \<open>The callback's arguments: status, previous and current snapshot.\<close>

type_synonym fs_callback = "int \<times> StatT \<times> StatT"

text \<open>
  The new state, the callback made if any, and the delay sent to \<^verbatim>\<open>resume\<close>.  Go's \<^verbatim>\<open>%\<close> truncates,
  which agrees with \<open>mod\<close> because the time since the stat is not negative.
\<close>

definition fspollDispatch :: "fspollState \<Rightarrow> fspollJob \<Rightarrow> fspollState \<times> fs_callback option \<times> int" where
  "fspollDispatch fp j =
     (if \<not> fp_active fp then (fp, None, 0)
      else let d = fp_interval fp - jb_since j mod fp_interval fp in
      case jb_err j of
        Some err \<Rightarrow>
          let status = errnoFromStatError (Some err) in
          if fp_busy fp \<noteq> status
          then (fp\<lparr>fp_busy := status\<rparr>, Some (status, fp_prev fp, zeroStat), d)
          else (fp, None, d)
      | None \<Rightarrow>
          let curr = StatFromFileInfo (jb_fi j); busy = fp_busy fp; prev = fp_prev fp in
          if busy \<noteq> 0 \<and> (busy < 0 \<or> \<not> statEqual (Some prev) (Some curr))
          then (fp\<lparr>fp_prev := curr, fp_busy := 1\<rparr>, Some (0, prev, curr), d)
          else (fp\<lparr>fp_prev := curr, fp_busy := 1\<rparr>, None, d))"

text \<open>The worker's wait before the next stat: the delay it receives, never negative.\<close>

definition fspollWorker_wait :: "int \<Rightarrow> int" where
  "fspollWorker_wait d = (if d < 0 then 0 else d)"

fun fspoll_run :: "fspollState \<Rightarrow> fspollJob list \<Rightarrow> fspollState \<times> fs_callback option list" where
  "fspoll_run fp [] = (fp, [])"
| "fspoll_run fp (j # js) =
     (let (fp1, cb, d) = fspollDispatch fp j; (fp2, cbs) = fspoll_run fp1 js in (fp2, cb # cbs))"

section \<open>What a history of results means\<close>

text \<open>The status a result stands for: 1 for a successful stat, else the error number.\<close>

definition job_status :: "fspollJob \<Rightarrow> int" where
  "job_status j = (case jb_err j of None \<Rightarrow> 1 | Some e \<Rightarrow> errnoFromStatError (Some e))"

definition last_status :: "fspollJob list \<Rightarrow> int" where
  "last_status js = (if js = [] then 0 else job_status (last js))"

definition last_stat :: "fspollJob list \<Rightarrow> StatT" where
  "last_stat js =
     (let ok = filter (\<lambda>j. jb_err j = None) js in
      if ok = [] then zeroStat else StatFromFileInfo (jb_fi (last ok)))"

lemma statEqual_Some [simp]: "statEqual (Some a) (Some b) \<longleftrightarrow> a = b"
  by (cases a; cases b) (auto simp: statEqual_def)

lemma last_status_snoc [simp]: "last_status (js @ [j]) = job_status j"
  by (simp add: last_status_def)

lemma last_stat_snoc [simp]:
  "last_stat (js @ [j]) = (if jb_err j = None then StatFromFileInfo (jb_fi j) else last_stat js)"
  by (simp add: last_stat_def Let_def)

definition history_ok :: "fspollState \<Rightarrow> fspollJob list \<Rightarrow> bool" where
  "history_ok fp js \<longleftrightarrow> fp_active fp \<and> fp_busy fp = last_status js \<and> fp_prev fp = last_stat js"

lemma dispatch_history:
  "history_ok fp js \<Longrightarrow> history_ok (fst (fspollDispatch fp j)) (js @ [j])"
  by (auto simp: history_ok_def fspollDispatch_def Let_def job_status_def split: option.splits)

lemma run_append:
  "fspoll_run fp (js @ ks) =
     (let (fp1, cbs) = fspoll_run fp js; (fp2, cbs') = fspoll_run fp1 ks in (fp2, cbs @ cbs'))"
  by (induction js arbitrary: fp) (auto simp: Let_def split: prod.splits)

lemma run_history:
  "history_ok fp js0 \<Longrightarrow> history_ok (fst (fspoll_run fp js)) (js0 @ js)"
proof (induction js arbitrary: fp js0)
  case (Cons j js)
  from dispatch_history [OF Cons.prems, of j] have
    h: "history_ok (fst (fspollDispatch fp j)) (js0 @ [j])" .
  from Cons.IH [OF h] show ?case by (auto simp: Let_def split: prod.splits)
qed simp

section \<open>Properties\<close>

text \<open>
  What a watch reports for a result depends on the history of results only.  A failed stat is
  reported, with the last good snapshot, exactly when its error number differs from the status of
  the result before it, where a success counts as 1 and the start as 0 (so error number 1 after a
  success is not reported).  A successful stat is reported exactly when there was a result before
  and its snapshot differs from the last good one, or the result before it was an error without
  number: a file that fails with a number and comes back unchanged is not reported.
\<close>

theorem FSPoll_reports:
  assumes "FSPollStart False path ms True = Inr fp"
  shows "last (snd (fspoll_run fp (js @ [j]))) =
     (if jb_err j = None
      then let curr = StatFromFileInfo (jb_fi j) in
           if js \<noteq> [] \<and> last_status js \<noteq> 0 \<and> (last_status js < 0 \<or> last_stat js \<noteq> curr)
           then Some (0, last_stat js, curr) else None
      else if last_status js \<noteq> job_status j then Some (job_status j, last_stat js, zeroStat) else None)"
proof -
  have h0: "history_ok fp []"
    using assms by (auto simp: FSPollStart_def history_ok_def Let_def last_status_def last_stat_def)
  obtain fp1 cbs where run: "fspoll_run fp js = (fp1, cbs)" by fastforce
  with run_history [OF h0, of js] have h: "history_ok fp1 js" by simp
  have "last (snd (fspoll_run fp (js @ [j]))) = fst (snd (fspollDispatch fp1 j))"
    by (simp add: run_append run Let_def split: prod.splits)
  with h show ?thesis
    by (auto simp: fspollDispatch_def history_ok_def Let_def job_status_def last_status_def
        split: option.splits)
qed

definition enoent :: fspollJob where
  "enoent = \<lparr>jb_fi = None, jb_err = Some [PathError, Errno 2], jb_since = 0\<rparr>"

definition stat_job :: "int \<Rightarrow> fspollJob" where
  "stat_job n = \<lparr>jb_fi = Some (n, 0, 5), jb_err = None, jb_since = 0\<rparr>"

lemma FSPoll_reports_witness:
  "\<exists>fp. FSPollStart False ''f'' 1 True = Inr fp
     \<and> last (snd (fspoll_run fp ([stat_job 3, enoent] @ [stat_job 3]))) = None
     \<and> last (snd (fspoll_run fp ([stat_job 3] @ [enoent]))) =
         Some (2, \<lparr>st_Size = 3, st_Mode = 0, st_ModTime = 5\<rparr>, zeroStat)"
proof -
  obtain fp where fp: "FSPollStart False ''f'' 1 True = Inr fp" by (simp add: FSPollStart_def Let_def)
  show ?thesis
    using fp FSPoll_reports [OF fp, of "[stat_job 3, enoent]" "stat_job 3"]
      FSPoll_reports [OF fp, of "[stat_job 3]" enoent]
    by (simp add: Let_def stat_job_def enoent_def last_status_def last_stat_def job_status_def
        errnoFromStatError_def StatFromFileInfo_def)
qed

end
