(* ===== verification/UvTimer.thy ===== *)
theory UvTimer
  imports Prelude
begin

text \<open>
  The timers of \<^verbatim>\<open>uvgo\<close> (\<^verbatim>\<open>timer.go\<close> and the scheduler of \<^verbatim>\<open>loop.go\<close>) as a step relation between
  the scheduler goroutine, the loop goroutine that runs the callbacks, and the program that starts
  and stops timers while the clock moves.  Handles are indices into the allocated handles; the
  channels are the flag \<^verbatim>\<open>timerWake\<close> (capacity 1) and the list \<^verbatim>\<open>fire\<close> (capacity 32).  Sections under
  the loop's mutex are atomic, and a callback is two steps, so that others can run during it.
  Times are integers in nanoseconds.
\<close>

record timerHandle =
  th_next :: int
  th_repeat :: int
  th_active :: bool

text \<open>
  The scheduler before it is started, at its first select, at the second select with the timer set
  for a deadline, inside \<^verbatim>\<open>fireDueTimers\<close> with handles left to send, and ended.
\<close>

datatype sched = NotStarted | AtTop | Armed int | Firing "nat list" | Ended

record timers =
  tm_now :: int
  tm_heap :: "timerHandle list"
  tm_timers :: "nat list"
  tm_wake :: bool
  tm_fire :: "nat list"
  tm_sched :: sched
  tm_running :: "nat option"
  tm_done :: bool
  tm_log :: "(nat \<times> int \<times> int) list"

definition tm_init :: timers where
  "tm_init = \<lparr>tm_now = 0, tm_heap = [], tm_timers = [], tm_wake = False, tm_fire = [],
     tm_sched = NotStarted, tm_running = None, tm_done = False, tm_log = []\<rparr>"

definition pingScheduler :: "timers \<Rightarrow> timers" where
  "pingScheduler s = s\<lparr>tm_wake := True\<rparr>"

definition TimerStart :: "int \<Rightarrow> int \<Rightarrow> timers \<Rightarrow> nat \<times> timers" where
  "TimerStart first repeat s =
     (let th = \<lparr>th_next = tm_now s + first, th_repeat = repeat, th_active = True\<rparr>;
          h = length (tm_heap s)
      in (h, pingScheduler (s\<lparr>tm_heap := tm_heap s @ [th], tm_timers := tm_timers s @ [h]\<rparr>)))"

definition Timer_Stop :: "nat \<Rightarrow> timers \<Rightarrow> timers" where
  "Timer_Stop h s =
     pingScheduler (s\<lparr>tm_heap := (tm_heap s)[h := (tm_heap s ! h)\<lparr>th_active := False\<rparr>]\<rparr>)"

text \<open>The earliest next time of an active timer, not before now.\<close>

fun min_deadline :: "timerHandle list \<Rightarrow> nat list \<Rightarrow> int option \<Rightarrow> int option" where
  "min_deadline H [] m = m"
| "min_deadline H (h # hs) m =
     (if \<not> th_active (H ! h) then min_deadline H hs m
      else min_deadline H hs (case m of None \<Rightarrow> Some (th_next (H ! h))
                              | Some x \<Rightarrow> if th_next (H ! h) < x then Some (th_next (H ! h)) else Some x))"

definition nextTimerDeadline :: "timers \<Rightarrow> int option" where
  "nextTimerDeadline s =
     (case min_deadline (tm_heap s) (tm_timers s) None of
        None \<Rightarrow> None
      | Some x \<Rightarrow> if x < tm_now s then Some (tm_now s) else Some x)"

text \<open>The locked part of \<^verbatim>\<open>fireDueTimers\<close>: stopped timers are dropped, due ones are taken out.\<close>

definition due_timers :: "timers \<Rightarrow> nat list" where
  "due_timers s = filter (\<lambda>h. th_active (tm_heap s ! h) \<and> th_next (tm_heap s ! h) \<le> tm_now s) (tm_timers s)"

definition fireDueTimers :: "timers \<Rightarrow> timers" where
  "fireDueTimers s =
     s\<lparr>tm_timers := filter (\<lambda>h. th_active (tm_heap s ! h) \<and> \<not> th_next (tm_heap s ! h) \<le> tm_now s) (tm_timers s),
       tm_sched := Firing (due_timers s)\<rparr>"

definition rescheduleTimer :: "nat \<Rightarrow> timers \<Rightarrow> timers" where
  "rescheduleTimer h s =
     pingScheduler (if h \<in> set (tm_timers s) then s else s\<lparr>tm_timers := tm_timers s @ [h]\<rparr>)"

text \<open>\<^verbatim>\<open>dispatchTimer\<close> up to the callback, which is logged with the deadline and the time.\<close>

definition dispatch_begin :: "nat \<Rightarrow> timers \<Rightarrow> timers" where
  "dispatch_begin h s =
     (if \<not> th_active (tm_heap s ! h) then s
      else s\<lparr>tm_running := Some h, tm_log := tm_log s @ [(h, th_next (tm_heap s ! h), tm_now s)]\<rparr>)"

text \<open>\<^verbatim>\<open>dispatchTimer\<close> after the callback.\<close>

definition dispatch_end :: "nat \<Rightarrow> timers \<Rightarrow> timers" where
  "dispatch_end h s =
     (let th = tm_heap s ! h; s1 = s\<lparr>tm_running := None\<rparr> in
      if th_repeat th > 0
      then rescheduleTimer h (s1\<lparr>tm_heap := (tm_heap s)[h := th\<lparr>th_next := tm_now s + th_repeat th\<rparr>]\<rparr>)
      else s1\<lparr>tm_heap := (tm_heap s)[h := th\<lparr>th_active := False\<rparr>]\<rparr>)"

text \<open>The body of the scheduler after a wake-up at its first select.\<close>

definition sched_arm :: "timers \<Rightarrow> timers" where
  "sched_arm s =
     (let s1 = s\<lparr>tm_wake := False\<rparr> in
      case nextTimerDeadline s1 of
        None \<Rightarrow> s1\<lparr>tm_sched := AtTop\<rparr>
      | Some d \<Rightarrow> s1\<lparr>tm_sched := Armed (max d (tm_now s))\<rparr>)"

text \<open>Steps of the scheduler and the loop.\<close>

inductive tm_internal :: "timers \<Rightarrow> timers \<Rightarrow> bool" where
  wake_top: "tm_sched s = AtTop \<Longrightarrow> tm_wake s \<Longrightarrow> tm_internal s (sched_arm s)"
| wake_armed: "tm_sched s = Armed d \<Longrightarrow> tm_wake s \<Longrightarrow>
    tm_internal s (s\<lparr>tm_wake := False, tm_sched := AtTop\<rparr>)"
| expire: "tm_sched s = Armed d \<Longrightarrow> d \<le> tm_now s \<Longrightarrow> tm_internal s (fireDueTimers s)"
| send: "tm_sched s = Firing (h # hs) \<Longrightarrow> length (tm_fire s) < 32 \<Longrightarrow>
    tm_internal s (s\<lparr>tm_fire := tm_fire s @ [h], tm_sched := Firing hs\<rparr>)"
| sent: "tm_sched s = Firing [] \<Longrightarrow> tm_internal s (s\<lparr>tm_sched := AtTop\<rparr>)"
| sched_end: "tm_done s \<Longrightarrow> tm_sched s \<noteq> NotStarted \<Longrightarrow> tm_sched s \<noteq> Ended \<Longrightarrow>
    tm_internal s (s\<lparr>tm_sched := Ended\<rparr>)"
| dispatch: "tm_running s = None \<Longrightarrow> tm_fire s = h # hs \<Longrightarrow>
    tm_internal s (dispatch_begin h (s\<lparr>tm_fire := hs\<rparr>))"
| cb_return: "tm_running s = Some h \<Longrightarrow> tm_internal s (dispatch_end h s)"

text \<open>Steps of the program and the clock.\<close>

inductive tm_clock :: "timers \<Rightarrow> timers \<Rightarrow> bool" where
  tick: "tm_now s \<le> t \<Longrightarrow> tm_clock s (s\<lparr>tm_now := t\<rparr>)"

inductive tm_program :: "timers \<Rightarrow> timers \<Rightarrow> bool" where
  start_scheduler: "tm_sched s = NotStarted \<Longrightarrow> tm_program s (s\<lparr>tm_sched := AtTop\<rparr>)"
| timer_start: "tm_program s (snd (TimerStart first repeat s))"
| timer_stop: "h < length (tm_heap s) \<Longrightarrow> tm_program s (Timer_Stop h s)"
| cancel: "tm_program s (s\<lparr>tm_done := True\<rparr>)"

inductive tm_reach :: "timers \<Rightarrow> bool" where
  init: "tm_reach tm_init"
| internal: "tm_reach s \<Longrightarrow> tm_internal s s' \<Longrightarrow> tm_reach s'"
| clock: "tm_reach s \<Longrightarrow> tm_clock s s' \<Longrightarrow> tm_reach s'"
| program: "tm_reach s \<Longrightarrow> tm_program s s' \<Longrightarrow> tm_reach s'"

section \<open>Invariant\<close>

definition firing :: "timers \<Rightarrow> nat list" where
  "firing s = (case tm_sched s of Firing hs \<Rightarrow> hs | _ \<Rightarrow> [])"

definition running :: "timers \<Rightarrow> nat list" where
  "running s = (case tm_running s of None \<Rightarrow> [] | Some h \<Rightarrow> [h])"

text \<open>Every handle is in at most one place: scheduled, being sent, sent, or running.\<close>

definition queued :: "timers \<Rightarrow> nat list" where
  "queued s = tm_timers s @ firing s @ tm_fire s"

definition calls_of :: "timers \<Rightarrow> nat \<Rightarrow> nat" where
  "calls_of s h = length (filter (\<lambda>(h', _). h' = h) (tm_log s))"

definition places_ok :: "timers \<Rightarrow> bool" where
  "places_ok s \<longleftrightarrow> distinct (queued s @ running s)
     \<and> (\<forall>h \<in> set (queued s @ running s). h < length (tm_heap s))"

definition due_ok :: "timers \<Rightarrow> bool" where
  "due_ok s \<longleftrightarrow> (\<forall>h \<in> set (firing s @ tm_fire s). th_next (tm_heap s ! h) \<le> tm_now s)"

definition log_ok :: "timers \<Rightarrow> bool" where
  "log_ok s \<longleftrightarrow> (\<forall>(h, due, t) \<in> set (tm_log s). due \<le> t \<and> h < length (tm_heap s))"

definition once_ok :: "timers \<Rightarrow> bool" where
  "once_ok s \<longleftrightarrow> (\<forall>h < length (tm_heap s). th_repeat (tm_heap s ! h) \<le> 0 \<longrightarrow>
     calls_of s h \<le> 1 \<and> (h \<in> set (queued s) \<longrightarrow> calls_of s h = 0))"

definition tm_inv :: "timers \<Rightarrow> bool" where
  "tm_inv s \<longleftrightarrow> places_ok s \<and> due_ok s \<and> log_ok s \<and> once_ok s"

lemmas inv_defs = tm_inv_def places_ok_def due_ok_def log_ok_def once_ok_def queued_def firing_def
  running_def calls_of_def

text \<open>A step that keeps heap, log, running handle and clock, and only shrinks or moves the queues.\<close>

lemma inv_queues:
  assumes inv: "tm_inv s" and same: "tm_heap s' = tm_heap s" "tm_log s' = tm_log s"
      "tm_running s' = tm_running s" "tm_now s \<le> tm_now s'"
    and d: "distinct (queued s')" and q: "set (queued s') \<subseteq> set (queued s)"
    and due: "\<forall>h \<in> set (firing s' @ tm_fire s'). h \<in> set (firing s @ tm_fire s)
        \<or> th_next (tm_heap s ! h) \<le> tm_now s'"
  shows "tm_inv s'"
proof -
  have r: "running s' = running s" using same by (simp add: running_def)
  have c: "calls_of s' h = calls_of s h" for h using same by (simp add: calls_of_def)
  have "places_ok s'" using inv d q same r by (auto simp: tm_inv_def places_ok_def)
  moreover have "due_ok s'" using inv due same unfolding tm_inv_def due_ok_def by fastforce
  moreover have "log_ok s'" using inv same by (simp add: tm_inv_def log_ok_def)
  moreover have "once_ok s'" using inv q same c unfolding tm_inv_def once_ok_def by auto
  ultimately show ?thesis by (simp add: tm_inv_def)
qed

lemma inv_sched:
  assumes "tm_inv s" and "\<And>hs. tm_sched s = Firing hs \<Longrightarrow> hs = []" and "\<And>hs. x \<noteq> Firing hs"
  shows "tm_inv (s\<lparr>tm_wake := b, tm_sched := x\<rparr>)"
  by (rule inv_queues [OF assms(1)])
    (use assms in \<open>auto simp: tm_inv_def places_ok_def queued_def firing_def split: sched.splits\<close>)

lemma inv_internal: "tm_internal s s' \<Longrightarrow> tm_inv s \<Longrightarrow> tm_inv s'"
proof (induction rule: tm_internal.induct)
  case (wake_top s)
  then show ?case
    using inv_sched [OF wake_top.prems, of AtTop False] inv_sched [OF wake_top.prems, of "Armed d" False for d]
    by (auto simp: sched_arm_def Let_def split: option.splits)
next
  case (wake_armed s d)
  then show ?case using inv_sched [OF wake_armed.prems, of AtTop False] by simp
next
  case (expire s d)
  then show ?case
    by (intro inv_queues [OF expire.prems])
      (auto simp: fireDueTimers_def due_timers_def queued_def firing_def tm_inv_def places_ok_def
        split: sched.splits)
next
  case (send s h hs)
  then show ?case
    by (intro inv_queues [OF send.prems])
      (auto simp: queued_def firing_def tm_inv_def places_ok_def)
next
  case (sent s)
  then show ?case using inv_sched [OF sent.prems, of AtTop "tm_wake s"] by simp
next
  case (sched_end s)
  then show ?case
    by (intro inv_queues [OF sched_end.prems])
      (auto simp: queued_def firing_def tm_inv_def places_ok_def split: sched.splits)
next
  case (dispatch s h hs)
  have hl: "h < length (tm_heap s)" and hq: "h \<in> set (queued s)"
    and due: "th_next (tm_heap s ! h) \<le> tm_now s"
    using dispatch by (auto simp: inv_defs)
  have "tm_inv (s\<lparr>tm_fire := hs\<rparr>)"
    using dispatch by (intro inv_queues [OF dispatch.prems])
      (auto simp: queued_def firing_def tm_inv_def places_ok_def split: sched.splits)
  moreover have "h \<notin> set (queued (s\<lparr>tm_fire := hs\<rparr>))"
    using dispatch by (auto simp: inv_defs split: sched.splits)
  moreover have "th_repeat (tm_heap s ! h) \<le> 0 \<longrightarrow> calls_of s h = 0"
    using dispatch.prems hl hq by (auto simp: tm_inv_def once_ok_def)
  ultimately show ?case
    using hl due dispatch.hyps
    by (auto simp: dispatch_begin_def inv_defs split: sched.splits)
next
  case (cb_return s h)
  have hl: "h < length (tm_heap s)" and hq: "h \<notin> set (queued s)"
    using cb_return by (auto simp: inv_defs)
  then show ?case
    using cb_return
    by (auto simp: dispatch_end_def Let_def rescheduleTimer_def pingScheduler_def inv_defs nth_list_update
        split: sched.splits)
qed

lemma calls_new: "log_ok s \<Longrightarrow> calls_of s (length (tm_heap s)) = 0"
  by (auto simp: log_ok_def calls_of_def filter_empty_conv)

lemma inv_program: "tm_program s s' \<Longrightarrow> tm_inv s \<Longrightarrow> tm_inv s'"
proof (induction rule: tm_program.induct)
  case (start_scheduler s)
  then show ?case using inv_sched [OF start_scheduler.prems, of AtTop "tm_wake s"] by simp
next
  case (timer_start s first repeat)
  then show ?case
    using calls_new [of s]
    by (auto simp: TimerStart_def Let_def pingScheduler_def inv_defs nth_append less_Suc_eq
        split: sched.splits)
next
  case (timer_stop h s)
  then show ?case
    by (auto simp: Timer_Stop_def pingScheduler_def inv_defs nth_list_update split: sched.splits)
next
  case (cancel s)
  then show ?case by (simp add: inv_defs)
qed

lemma inv_clock: "tm_clock s s' \<Longrightarrow> tm_inv s \<Longrightarrow> tm_inv s'"
proof (induction rule: tm_clock.induct)
  case (tick s t)
  then show ?case
    by (intro inv_queues [OF tick.prems]) (auto simp: queued_def firing_def tm_inv_def places_ok_def)
qed

lemma init_inv: "tm_inv tm_init"
  by (simp add: tm_init_def inv_defs)

lemma reach_inv: "tm_reach s \<Longrightarrow> tm_inv s"
  by (induction rule: tm_reach.induct) (simp_all add: init_inv inv_internal inv_program inv_clock)

section \<open>Properties\<close>

text \<open>
  C7. In every run, no callback starts before its deadline, a one-shot timer's callback runs at
  most once, and a handle is never queued twice or queued while its callback runs.
\<close>

theorem timers_safe:
  assumes "tm_reach s"
  shows "(\<forall>(h, due, t) \<in> set (tm_log s). due \<le> t)
     \<and> (\<forall>h < length (tm_heap s). th_repeat (tm_heap s ! h) \<le> 0 \<longrightarrow> calls_of s h \<le> 1)
     \<and> distinct (queued s @ running s)"
  using reach_inv [OF assms] by (auto simp: tm_inv_def places_ok_def log_ok_def once_ok_def)

text \<open>
  The scheduler waits for the first timer; a second TimerStart wakes it; the inner select consumes
  the token and goes back to the outer one, which waits for another token.
\<close>

definition armed_state :: timers where
  "armed_state = sched_arm (snd (TimerStart 10 0 (tm_init\<lparr>tm_sched := AtTop\<rparr>)))"

definition lost_state :: timers where
  "lost_state = (snd (TimerStart 20 0 armed_state))\<lparr>tm_wake := False, tm_sched := AtTop\<rparr>"

lemma armed_state_eq:
  "armed_state = \<lparr>tm_now = 0, tm_heap = [\<lparr>th_next = 10, th_repeat = 0, th_active = True\<rparr>],
     tm_timers = [0], tm_wake = False, tm_fire = [], tm_sched = Armed 10, tm_running = None,
     tm_done = False, tm_log = []\<rparr>"
  by (simp add: armed_state_def sched_arm_def TimerStart_def pingScheduler_def tm_init_def
      nextTimerDeadline_def Let_def)

lemma lost_reach: "tm_reach lost_state"
proof -
  have a: "tm_reach (tm_init\<lparr>tm_sched := AtTop\<rparr>)"
    by (rule tm_reach.program [OF tm_reach.init]) (rule tm_program.start_scheduler, simp add: tm_init_def)
  have b: "tm_reach (snd (TimerStart 10 0 (tm_init\<lparr>tm_sched := AtTop\<rparr>)))"
    by (rule tm_reach.program [OF a]) (rule tm_program.timer_start)
  have c: "tm_reach armed_state"
    unfolding armed_state_def
    by (rule tm_reach.internal [OF b], rule tm_internal.wake_top)
      (simp_all add: TimerStart_def pingScheduler_def Let_def)
  have d: "tm_reach (snd (TimerStart 20 0 armed_state))"
    by (rule tm_reach.program [OF c]) (rule tm_program.timer_start)
  show ?thesis
    unfolding lost_state_def
    by (rule tm_reach.internal [OF d], rule tm_internal.wake_armed [of _ 10])
      (simp_all add: armed_state_eq TimerStart_def pingScheduler_def Let_def)
qed

text \<open>
  Timers can be lost: from a reachable state with two active timers, however far the clock
  moves past both deadlines, neither the scheduler nor the loop has a step to take, so no callback
  runs until the program starts or stops another timer.
\<close>

theorem timers_lost:
  "\<exists>s. tm_reach s \<and> tm_timers s = [0, 1]
     \<and> tm_heap s = [\<lparr>th_next = 10, th_repeat = 0, th_active = True\<rparr>,
                    \<lparr>th_next = 20, th_repeat = 0, th_active = True\<rparr>]
     \<and> tm_log s = [] \<and> (\<forall>t s'. \<not> tm_internal (s\<lparr>tm_now := t\<rparr>) s')"
proof (intro exI conjI allI)
  show "tm_reach lost_state" by (rule lost_reach)
  show "tm_timers lost_state = [0, 1]" "tm_log lost_state = []"
    "tm_heap lost_state = [\<lparr>th_next = 10, th_repeat = 0, th_active = True\<rparr>,
                    \<lparr>th_next = 20, th_repeat = 0, th_active = True\<rparr>]"
    by (simp_all add: lost_state_def armed_state_eq TimerStart_def pingScheduler_def Let_def)
  show "\<not> tm_internal (lost_state\<lparr>tm_now := t\<rparr>) s'" for t s'
    by (auto simp: lost_state_def armed_state_eq TimerStart_def pingScheduler_def Let_def
        elim: tm_internal.cases)
qed

lemma timers_safe_witness:
  "distinct (queued lost_state @ running lost_state)"
  using timers_safe [OF lost_reach] by blast

end
