(* ===== verification/UvLoop.thy ===== *)
theory UvLoop
  imports Prelude
begin

text \<open>
  The event loop of \<^verbatim>\<open>uvgo\<close>: \<^verbatim>\<open>loop.go\<close>, \<^verbatim>\<open>loop_meta.go\<close>, \<^verbatim>\<open>eventloop.go\<close>, \<^verbatim>\<open>tcp.go\<close> and
  \<^verbatim>\<open>udp.go\<close>.  Callbacks, connections, listeners and jobs are tokens; calling a callback logs an event
  and then applies \<open>exec\<close>, the effect the callback has on the loop, which is a parameter.  Channels
  are lists with their capacity.  A \<^verbatim>\<open>select\<close> chooses among its ready cases with the parameter
  \<open>pick\<close>; a blocking \<^verbatim>\<open>select\<close> with no ready case consumes the next arrival from the environment,
  a list of changes other goroutines make.  A loop that does not end, or a wait for which no
  arrival is left, is \<open>None\<close>.  The timers' scheduler and the dispatch of file polls are modelled in
  \<open>UvTimer\<close> and \<open>FsPoll\<close>; here a fired timer and a poll job are events.
\<close>

datatype ctx_error = Canceled | DeadlineExceeded

datatype event =
    RanPending nat | RanIdle nat | RanPrepare nat | RanCheck nat
  | OnConn nat nat | ClosedConn nat | ClosedListener nat | ClosedUDP nat
  | FsJob nat | Recv nat int "nat list" "nat option" | SendDone nat "string option" | TimerFired nat

record UDP =
  ud_conn :: "nat option"
  ud_recvCB :: "nat option"
  ud_closed :: bool

text \<open>An inbound datagram or read error: the handle, count, bytes, address and the error's errno.\<close>

record udpInbound =
  in_u :: "nat option"
  in_nread :: int
  in_buf :: "nat list"
  in_addr :: "nat option"
  in_err :: "int option option"

record Loop =
  lp_ctxErr :: "ctx_error option"
  lp_cachedNow :: nat
  lp_stopped :: bool
  lp_stopFlag :: bool
  lp_pendingQ :: "nat list"
  lp_prepareHooks :: "(nat \<times> nat) list"
  lp_idleHooks :: "(nat \<times> nat) list"
  lp_checkHooks :: "(nat \<times> nat) list"
  lp_nextHook :: nat
  lp_acceptQ :: "nat option list"
  lp_fire :: "nat list"
  lp_fspollQ :: "nat option list"
  lp_udpIn :: "udpInbound list"
  lp_udpSendDone :: "(nat option \<times> string option) list"
  lp_listeners :: "nat list"
  lp_udps :: "nat list"
  lp_udpHeap :: "UDP list"
  lp_timers :: "nat list"
  lp_active :: "bool list"
  lp_repeats :: "bool list"
  lp_onTCPConn :: "nat option"
  lp_log :: "event list"

type_synonym exec = "nat \<Rightarrow> Loop \<Rightarrow> Loop"

definition log_event :: "event \<Rightarrow> Loop \<Rightarrow> Loop" where
  "log_event e l = l\<lparr>lp_log := lp_log l @ [e]\<rparr>"

section \<open>loop.go and loop_meta.go\<close>

definition UpdateTime :: "nat \<Rightarrow> Loop option \<Rightarrow> Loop option" where
  "UpdateTime ms l = map_option (\<lambda>l. l\<lparr>lp_cachedNow := ms\<rparr>) l"

definition Loop_Now :: "nat \<Rightarrow> Loop option \<Rightarrow> nat" where
  "Loop_Now ms l = (case l of None \<Rightarrow> 0 | Some l \<Rightarrow> if lp_cachedNow l = 0 then ms else lp_cachedNow l)"

definition Loop_StopFlag :: "Loop option \<Rightarrow> bool" where
  "Loop_StopFlag l = (case l of None \<Rightarrow> False | Some l \<Rightarrow> lp_stopFlag l)"

definition loop_cancel :: "Loop \<Rightarrow> Loop" where
  "loop_cancel l = (if lp_ctxErr l = None then l\<lparr>lp_ctxErr := Some Canceled\<rparr> else l)"

definition RequestStop :: "Loop option \<Rightarrow> Loop option" where
  "RequestStop l = map_option (\<lambda>l. loop_cancel (l\<lparr>lp_stopFlag := True\<rparr>)) l"

definition NewLoop :: "nat \<Rightarrow> ctx_error option \<Rightarrow> Loop" where
  "NewLoop ms parentErr =
     \<lparr>lp_ctxErr = parentErr, lp_cachedNow = ms, lp_stopped = False, lp_stopFlag = False,
      lp_pendingQ = [], lp_prepareHooks = [], lp_idleHooks = [], lp_checkHooks = [], lp_nextHook = 0,
      lp_acceptQ = [], lp_fire = [], lp_fspollQ = [], lp_udpIn = [], lp_udpSendDone = [],
      lp_listeners = [], lp_udps = [], lp_udpHeap = [], lp_timers = [], lp_active = [], lp_repeats = [], lp_onTCPConn = None, lp_log = []\<rparr>"

text \<open>\<^verbatim>\<open>UDP.Close\<close>: the socket is closed once and the handle leaves the loop's list.\<close>

definition UDP_Close :: "nat \<Rightarrow> Loop \<Rightarrow> Loop" where
  "UDP_Close u l =
     (let h = lp_udpHeap l ! u in
      if ud_closed h then l
      else let l1 = l\<lparr>lp_udpHeap := (lp_udpHeap l)[u := h\<lparr>ud_closed := True, ud_conn := None\<rparr>]\<rparr>;
               l2 = (case ud_conn h of None \<Rightarrow> l1 | Some c \<Rightarrow> log_event (ClosedUDP c) l1)
           in l2\<lparr>lp_udps := filter (\<lambda>x. x \<noteq> u) (lp_udps l2)\<rparr>)"

definition shutdownSockets :: "Loop \<Rightarrow> Loop" where
  "shutdownSockets l =
     (let ls = lp_listeners l; us = lp_udps l;
          l1 = l\<lparr>lp_listeners := [], lp_udps := []\<rparr>
      in fold UDP_Close us (fold (\<lambda>ln. log_event (ClosedListener ln)) ls l1))"

definition Loop_Stop :: "Loop \<Rightarrow> Loop" where
  "Loop_Stop l =
     (if lp_stopped l then l else loop_cancel (shutdownSockets (l\<lparr>lp_stopped := True\<rparr>)))"

definition drainAccepts :: "Loop \<Rightarrow> Loop" where
  "drainAccepts l =
     fold (\<lambda>c l. case c of None \<Rightarrow> l | Some c \<Rightarrow> log_event (ClosedConn c) l) (lp_acceptQ l)
       (l\<lparr>lp_acceptQ := []\<rparr>)"

text \<open>Completions are called as they are drained; their callbacks may queue more.\<close>

partial_function (option) drain_sends :: "exec \<Rightarrow> Loop \<Rightarrow> Loop option" where
  "drain_sends exec l =
     (case lp_udpSendDone l of
        [] \<Rightarrow> Some l
      | (None, err) # ds \<Rightarrow> drain_sends exec (l\<lparr>lp_udpSendDone := ds\<rparr>)
      | (Some cb, err) # ds \<Rightarrow>
          drain_sends exec (exec cb (log_event (SendDone cb err) (l\<lparr>lp_udpSendDone := ds\<rparr>))))"

definition drainUDPQueuesNoop :: "exec \<Rightarrow> Loop \<Rightarrow> Loop option" where
  "drainUDPQueuesNoop exec l = drain_sends exec (l\<lparr>lp_udpIn := []\<rparr>)"

definition teardownAfterRun :: "exec \<Rightarrow> bool \<Rightarrow> Loop \<Rightarrow> Loop option" where
  "teardownAfterRun exec full l =
     (if \<not> full then Some l else drainUDPQueuesNoop exec (drainAccepts (shutdownSockets l)))"

section \<open>eventloop.go: registration\<close>

definition Loop_Post :: "nat option \<Rightarrow> Loop \<Rightarrow> Loop" where
  "Loop_Post fn l =
     (case fn of None \<Rightarrow> l
      | Some f \<Rightarrow> if length (lp_pendingQ l) < 1024 then l\<lparr>lp_pendingQ := lp_pendingQ l @ [f]\<rparr> else l)"

text \<open>Registering answers the hook's identity, with which it is unregistered; a nil hook has none.\<close>

definition Loop_Prepare :: "nat option \<Rightarrow> Loop \<Rightarrow> nat option \<times> Loop" where
  "Loop_Prepare fn l = (case fn of None \<Rightarrow> (None, l) | Some f \<Rightarrow> (Some (lp_nextHook l),
     l\<lparr>lp_prepareHooks := lp_prepareHooks l @ [(lp_nextHook l, f)], lp_nextHook := lp_nextHook l + 1\<rparr>))"

definition Loop_Idle :: "nat option \<Rightarrow> Loop \<Rightarrow> nat option \<times> Loop" where
  "Loop_Idle fn l = (case fn of None \<Rightarrow> (None, l) | Some f \<Rightarrow> (Some (lp_nextHook l),
     l\<lparr>lp_idleHooks := lp_idleHooks l @ [(lp_nextHook l, f)], lp_nextHook := lp_nextHook l + 1\<rparr>))"

definition Loop_Check :: "nat option \<Rightarrow> Loop \<Rightarrow> nat option \<times> Loop" where
  "Loop_Check fn l = (case fn of None \<Rightarrow> (None, l) | Some f \<Rightarrow> (Some (lp_nextHook l),
     l\<lparr>lp_checkHooks := lp_checkHooks l @ [(lp_nextHook l, f)], lp_nextHook := lp_nextHook l + 1\<rparr>))"

definition without_hook :: "nat option \<Rightarrow> (nat \<times> nat) list \<Rightarrow> (nat \<times> nat) list" where
  "without_hook h hs = (case h of None \<Rightarrow> hs | Some i \<Rightarrow> filter (\<lambda>x. fst x \<noteq> i) hs)"

definition unregister_prepare :: "nat option \<Rightarrow> Loop \<Rightarrow> Loop" where
  "unregister_prepare h l = l\<lparr>lp_prepareHooks := without_hook h (lp_prepareHooks l)\<rparr>"

definition unregister_idle :: "nat option \<Rightarrow> Loop \<Rightarrow> Loop" where
  "unregister_idle h l = l\<lparr>lp_idleHooks := without_hook h (lp_idleHooks l)\<rparr>"

definition unregister_check :: "nat option \<Rightarrow> Loop \<Rightarrow> Loop" where
  "unregister_check h l = l\<lparr>lp_checkHooks := without_hook h (lp_checkHooks l)\<rparr>"

definition Loop_Alive :: "Loop \<Rightarrow> bool" where
  "Loop_Alive l \<longleftrightarrow> lp_listeners l \<noteq> [] \<or> lp_udps l \<noteq> []
     \<or> list_ex (\<lambda>th. lp_active l ! th) (lp_timers l)"

section \<open>tcp.go and udp.go\<close>

text \<open>
  The result of \<^verbatim>\<open>net.Listen\<close> is an input; the handler is replaced before the bind is tried.  The
  default handler, which closes the connection, is \<open>None\<close> (\<open>dispatchAccept\<close> then closes it).
\<close>

definition ListenTCP :: "(string + nat) \<Rightarrow> nat option \<Rightarrow> Loop \<Rightarrow> string option \<times> Loop" where
  "ListenTCP listen onConn l =
     (if lp_stopped l then (Some ''uvgo: loop stopped'', l)
      else let l1 = l\<lparr>lp_onTCPConn := onConn\<rparr> in
           case listen of Inl err \<Rightarrow> (Some err, l1)
           | Inr ln \<Rightarrow> (None, l1\<lparr>lp_listeners := lp_listeners l1 @ [ln]\<rparr>))"

text \<open>
  The acceptor hands a connection over, or closes it and ends when the context is done; \<open>None\<close>
  while the queue is full and the context is not done.
\<close>

definition acceptor_step :: "bool \<Rightarrow> nat \<Rightarrow> Loop \<Rightarrow> (bool \<times> Loop) option" where
  "acceptor_step prefer_ctx c l =
     (let room = length (lp_acceptQ l) < 64; dn = lp_ctxErr l \<noteq> None in
      if dn \<and> (prefer_ctx \<or> \<not> room) then Some (False, log_event (ClosedConn c) l)
      else if room then Some (True, l\<lparr>lp_acceptQ := lp_acceptQ l @ [Some c]\<rparr>)
      else None)"

definition ListenUDP :: "(string + nat) \<Rightarrow> nat option \<Rightarrow> Loop \<Rightarrow> (string + nat) \<times> Loop" where
  "ListenUDP listen recv l =
     (case recv of
        None \<Rightarrow> (Inl ''uvgo: nil udp recv callback'', l)
      | Some cb \<Rightarrow>
          if lp_stopped l then (Inl ''uvgo: loop stopped'', l)
          else case listen of
                 Inl err \<Rightarrow> (Inl err, l)
               | Inr pc \<Rightarrow>
                   let u = length (lp_udpHeap l) in
                   (Inr u, l\<lparr>lp_udpHeap := lp_udpHeap l @ [\<lparr>ud_conn = Some pc, ud_recvCB = Some cb, ud_closed = False\<rparr>],
                             lp_udps := lp_udps l @ [u]\<rparr>))"

text \<open>
  What one read gives: closed socket, an error with its errno if any, or bytes and address.  The
  receiver goes on (\<open>True\<close>) or ends; \<open>None\<close> while the queue is full.
\<close>

datatype udp_read = ReadClosed | ReadErr "int option" | ReadOk "nat list" "nat option"

definition recvLoop_step :: "nat \<Rightarrow> bool \<Rightarrow> udp_read \<Rightarrow> Loop \<Rightarrow> (bool \<times> Loop) option" where
  "recvLoop_step u prefer_ctx r l =
     (let h = lp_udpHeap l ! u; room = length (lp_udpIn l) < 256; dn = lp_ctxErr l \<noteq> None;
          put = (\<lambda>inb more. if dn \<and> (prefer_ctx \<or> \<not> room) then Some (False, l)
                          else if room then Some (more, l\<lparr>lp_udpIn := lp_udpIn l @ [inb]\<rparr>) else None)
      in case ud_conn h of
           None \<Rightarrow> Some (False, l)
         | Some _ \<Rightarrow>
             (case r of
                ReadClosed \<Rightarrow> Some (False, l)
              | ReadErr e \<Rightarrow> put \<lparr>in_u = Some u, in_nread = 0, in_buf = [], in_addr = None, in_err = Some e\<rparr> False
              | ReadOk p a \<Rightarrow> put \<lparr>in_u = Some u, in_nread = int (length p), in_buf = p, in_addr = a,
                                  in_err = None\<rparr> True))"

definition errnoFromUDPRead :: "int option \<Rightarrow> int" where
  "errnoFromUDPRead e = (case e of Some n \<Rightarrow> n | None \<Rightarrow> 1)"

text \<open>The goroutine of \<^verbatim>\<open>Send\<close>: the write's error is an input, used only on an open socket.\<close>

definition UDP_Send :: "nat \<Rightarrow> nat \<Rightarrow> string option \<Rightarrow> bool \<Rightarrow> Loop \<Rightarrow> Loop option" where
  "UDP_Send u cb write_err prefer_ctx l =
     (let err = (case ud_conn (lp_udpHeap l ! u) of
                   None \<Rightarrow> Some ''use of closed network connection'' | Some _ \<Rightarrow> write_err);
          room = length (lp_udpSendDone l) < 64; dn = lp_ctxErr l \<noteq> None
      in if dn \<and> (prefer_ctx \<or> \<not> room) then Some l
         else if room then Some (l\<lparr>lp_udpSendDone := lp_udpSendDone l @ [(Some cb, err)]\<rparr>)
         else None)"

definition UDP_LocalAddr :: "nat \<Rightarrow> Loop \<Rightarrow> nat option" where
  "UDP_LocalAddr u l = ud_conn (lp_udpHeap l ! u)"

definition dispatchUDPIn :: "exec \<Rightarrow> udpInbound \<Rightarrow> Loop \<Rightarrow> Loop" where
  "dispatchUDPIn exec inb l =
     (case in_u inb of None \<Rightarrow> l
      | Some u \<Rightarrow>
          (case ud_recvCB (lp_udpHeap l ! u) of None \<Rightarrow> l
           | Some cb \<Rightarrow>
               (case in_err inb of
                  Some e \<Rightarrow> exec cb (log_event (Recv u (- errnoFromUDPRead e) [] None) l)
                | None \<Rightarrow> exec cb (log_event (Recv u (in_nread inb) (in_buf inb) (in_addr inb)) l))))"

section \<open>eventloop.go: phases\<close>

partial_function (option) runPendingPhase :: "exec \<Rightarrow> Loop \<Rightarrow> Loop option" where
  "runPendingPhase exec l =
     (case lp_pendingQ l of
        [] \<Rightarrow> Some l
      | fn # fs \<Rightarrow> runPendingPhase exec (exec fn (log_event (RanPending fn) (l\<lparr>lp_pendingQ := fs\<rparr>))))"

text \<open>The hooks registered when the phase starts are run; changes show from the next phase on.\<close>

definition runHooks :: "exec \<Rightarrow> (nat \<Rightarrow> event) \<Rightarrow> (nat \<times> nat) list \<Rightarrow> Loop \<Rightarrow> Loop" where
  "runHooks exec ev hs l = fold (\<lambda>(_, fn) l. exec fn (log_event (ev fn) l)) hs l"

definition runIdlePhase :: "exec \<Rightarrow> Loop \<Rightarrow> Loop" where
  "runIdlePhase exec l = runHooks exec RanIdle (lp_idleHooks l) l"

definition runPreparePhase :: "exec \<Rightarrow> Loop \<Rightarrow> Loop" where
  "runPreparePhase exec l = runHooks exec RanPrepare (lp_prepareHooks l) l"

definition runCheckPhase :: "exec \<Rightarrow> Loop \<Rightarrow> Loop" where
  "runCheckPhase exec l = runHooks exec RanCheck (lp_checkHooks l) l"

definition dispatchAccept :: "exec \<Rightarrow> nat option \<Rightarrow> Loop \<Rightarrow> Loop" where
  "dispatchAccept exec c l =
     (case c of None \<Rightarrow> l
      | Some c \<Rightarrow> (case lp_onTCPConn l of
          Some f \<Rightarrow> exec f (log_event (OnConn f c) l)
        | None \<Rightarrow> log_event (ClosedConn c) l))"

definition dispatchSendDone :: "exec \<Rightarrow> nat option \<times> string option \<Rightarrow> Loop \<Rightarrow> Loop" where
  "dispatchSendDone exec sd l =
     (case fst sd of None \<Rightarrow> l | Some cb \<Rightarrow> exec cb (log_event (SendDone cb (snd sd)) l))"

text \<open>
  \<^verbatim>\<open>dispatchTimer\<close>, without the deadlines, which are the subject of \<open>UvTimer\<close>: a repeating timer
  goes back to the loop's timers, a one-shot one becomes inactive.
\<close>

definition loop_dispatchTimer :: "exec \<Rightarrow> nat \<Rightarrow> Loop \<Rightarrow> Loop" where
  "loop_dispatchTimer exec th l =
     (if \<not> lp_active l ! th then l
      else let l1 = exec th (log_event (TimerFired th) l) in
           if lp_repeats l1 ! th
           then (if th \<in> set (lp_timers l1) then l1 else l1\<lparr>lp_timers := lp_timers l1 @ [th]\<rparr>)
           else l1\<lparr>lp_active := (lp_active l1)[th := False]\<rparr>)"

datatype source = SrcCtx | SrcAccept | SrcFs | SrcUdp | SrcSend | SrcFire

definition ready :: "Loop \<Rightarrow> source list" where
  "ready l = (if lp_ctxErr l \<noteq> None then [SrcCtx] else []) @ (if lp_acceptQ l \<noteq> [] then [SrcAccept] else [])
     @ (if lp_fspollQ l \<noteq> [] then [SrcFs] else []) @ (if lp_udpIn l \<noteq> [] then [SrcUdp] else [])
     @ (if lp_udpSendDone l \<noteq> [] then [SrcSend] else []) @ (if lp_fire l \<noteq> [] then [SrcFire] else [])"

text \<open>One ready case of the poll's \<^verbatim>\<open>select\<close>; \<open>None\<close> for the context.\<close>

definition poll_case :: "exec \<Rightarrow> source \<Rightarrow> Loop \<Rightarrow> Loop option" where
  "poll_case exec src l =
     (case src of
        SrcCtx \<Rightarrow> None
      | SrcAccept \<Rightarrow> Some (dispatchAccept exec (hd (lp_acceptQ l)) (l\<lparr>lp_acceptQ := tl (lp_acceptQ l)\<rparr>))
      | SrcFs \<Rightarrow> (let l1 = l\<lparr>lp_fspollQ := tl (lp_fspollQ l)\<rparr> in
          case hd (lp_fspollQ l) of None \<Rightarrow> Some l1 | Some j \<Rightarrow> Some (exec j (log_event (FsJob j) l1)))
      | SrcUdp \<Rightarrow> Some (dispatchUDPIn exec (hd (lp_udpIn l)) (l\<lparr>lp_udpIn := tl (lp_udpIn l)\<rparr>))
      | SrcSend \<Rightarrow> Some (dispatchSendDone exec (hd (lp_udpSendDone l)) (l\<lparr>lp_udpSendDone := tl (lp_udpSendDone l)\<rparr>))
      | SrcFire \<Rightarrow> Some (loop_dispatchTimer exec (hd (lp_fire l)) (l\<lparr>lp_fire := tl (lp_fire l)\<rparr>)))"

type_synonym picker = "source list \<Rightarrow> source"

partial_function (option) pollNoWait :: "exec \<Rightarrow> picker \<Rightarrow> Loop \<Rightarrow> Loop option" where
  "pollNoWait exec pick l =
     (if ready l = [] then Some l
      else case poll_case exec (pick (ready l)) l of None \<Rightarrow> Some l | Some l' \<Rightarrow> pollNoWait exec pick l')"

text \<open>Answers whether an event was handled, the state and the arrivals left.\<close>

fun pollOneBlocking ::
  "exec \<Rightarrow> picker \<Rightarrow> (Loop \<Rightarrow> Loop) list \<Rightarrow> Loop \<Rightarrow> (bool \<times> Loop \<times> (Loop \<Rightarrow> Loop) list) option" where
  "pollOneBlocking exec pick env l =
     (if ready l \<noteq> []
      then (case poll_case exec (pick (ready l)) l of
              None \<Rightarrow> Some (False, l, env) | Some l' \<Rightarrow> Some (True, l', env))
      else case env of [] \<Rightarrow> None | a # as \<Rightarrow> pollOneBlocking exec pick as (a l))"

datatype run_mode = RunDefault | RunOnce | RunNoWait

text \<open>The body of the \<^verbatim>\<open>for\<close> of \<^verbatim>\<open>RunMode\<close> up to and with the poll.\<close>

definition loop_phases :: "exec \<Rightarrow> picker \<Rightarrow> nat \<Rightarrow> run_mode \<Rightarrow> (Loop \<Rightarrow> Loop) list \<Rightarrow> Loop
    \<Rightarrow> (bool \<times> Loop \<times> (Loop \<Rightarrow> Loop) list) option" where
  "loop_phases exec pick ms mode env l =
     Option.bind (runPendingPhase exec (l\<lparr>lp_cachedNow := ms\<rparr>)) (\<lambda>l1.
       let l2 = runPreparePhase exec (runIdlePhase exec l1) in
       if mode = RunNoWait then map_option (\<lambda>l3. (True, l3, env)) (pollNoWait exec pick l2)
       else pollOneBlocking exec pick env l2)"

definition ctx_result :: "ctx_error option \<Rightarrow> ctx_error option" where
  "ctx_result e = (if e = Some Canceled then None else e)"

partial_function (option) run_loop :: "exec \<Rightarrow> picker \<Rightarrow> (Loop \<Rightarrow> nat) \<Rightarrow> run_mode \<Rightarrow> (Loop \<Rightarrow> Loop) list
    \<Rightarrow> Loop \<Rightarrow> (ctx_error option \<times> Loop) option" where
  "run_loop exec pick clk mode env l =
     (if lp_ctxErr l \<noteq> None
      then Option.bind (teardownAfterRun exec True l) (\<lambda>l'. Some (ctx_result (lp_ctxErr l), l'))
      else if lp_stopFlag l
      then Option.bind (teardownAfterRun exec True (l\<lparr>lp_stopFlag := False\<rparr>)) (\<lambda>l'. Some (None, l'))
      else Option.bind (loop_phases exec pick (clk l) mode env l) (\<lambda>(more, l1, env').
        if \<not> more
        then Option.bind (teardownAfterRun exec True l1) (\<lambda>l'. Some (ctx_result (lp_ctxErr l1), l'))
        else let l2 = runCheckPhase exec l1 in
             if mode = RunOnce \<or> mode = RunNoWait then Some (None, l2)
             else run_loop exec pick clk mode env' l2))"

definition Loop_RunMode :: "exec \<Rightarrow> picker \<Rightarrow> (Loop \<Rightarrow> nat) \<Rightarrow> run_mode \<Rightarrow> (Loop \<Rightarrow> Loop) list
    \<Rightarrow> Loop \<Rightarrow> (ctx_error option \<times> Loop) option" where
  "Loop_RunMode exec pick clk mode env l =
     run_loop exec pick clk mode env (l\<lparr>lp_stopFlag := False, lp_cachedNow := clk l\<rparr>)"

definition Loop_Run :: "exec \<Rightarrow> picker \<Rightarrow> (Loop \<Rightarrow> nat) \<Rightarrow> (Loop \<Rightarrow> Loop) list
    \<Rightarrow> Loop \<Rightarrow> (ctx_error option \<times> Loop) option" where
  "Loop_Run exec pick clk env l = Loop_RunMode exec pick clk RunDefault env l"

section \<open>What the phases log\<close>

text \<open>Callbacks and arrivals do not write the log; only the loop does.\<close>

definition quiet :: "exec \<Rightarrow> bool" where
  "quiet exec \<longleftrightarrow> (\<forall>f l. lp_log (exec f l) = lp_log l)"

fun poll_event :: "event \<Rightarrow> bool" where
  "poll_event (RanPending _) = False"
| "poll_event (RanIdle _) = False"
| "poll_event (RanPrepare _) = False"
| "poll_event (RanCheck _) = False"
| "poll_event _ = True"

lemma log_log_event [simp]: "lp_log (log_event e l) = lp_log l @ [e]"
  by (simp add: log_event_def)

lemma log_exec: "quiet exec \<Longrightarrow> lp_log (exec f l) = lp_log l"
  by (simp add: quiet_def)

lemma log_runHooks:
  "quiet exec \<Longrightarrow> lp_log (runHooks exec ev hs l) = lp_log l @ map (ev \<circ> snd) hs"
  unfolding runHooks_def by (induction hs arbitrary: l) (auto simp: log_exec)

lemma log_runPending:
  "runPendingPhase exec l = Some l' \<Longrightarrow>
   quiet exec \<longrightarrow> (\<exists>P. lp_log l' = lp_log l @ map RanPending P) \<and> lp_pendingQ l' = []"
proof (erule runPendingPhase.raw_induct [where P = "\<lambda>exec l l'. quiet exec \<longrightarrow>
    (\<exists>P. lp_log l' = lp_log l @ map RanPending P) \<and> lp_pendingQ l' = []", rotated], intro impI)
  fix rec :: "exec \<Rightarrow> Loop \<Rightarrow> Loop option" and exec l l'
  assume IH: "\<And>exec l l'. rec exec l = Some l' \<Longrightarrow> quiet exec \<longrightarrow>
      (\<exists>P. lp_log l' = lp_log l @ map RanPending P) \<and> lp_pendingQ l' = []"
    and step: "(case lp_pendingQ l of [] \<Rightarrow> Some l
      | fn # fs \<Rightarrow> rec exec (exec fn (log_event (RanPending fn) (l\<lparr>lp_pendingQ := fs\<rparr>)))) = Some l'"
    and q: "quiet exec"
  show "(\<exists>P. lp_log l' = lp_log l @ map RanPending P) \<and> lp_pendingQ l' = []"
  proof (cases "lp_pendingQ l")
    case Nil
    with step show ?thesis by (auto intro: exI [of _ "[]"])
  next
    case (Cons fn fs)
    with step have "rec exec (exec fn (log_event (RanPending fn) (l\<lparr>lp_pendingQ := fs\<rparr>))) = Some l'" by simp
    from IH [OF this] q obtain P where
      "lp_log l' = lp_log l @ map RanPending (fn # P)" "lp_pendingQ l' = []"
      by (auto simp: log_exec [OF q])
    then show ?thesis by blast
  qed
qed

lemma log_poll_case:
  assumes "quiet exec" and "poll_case exec src l = Some l'"
  shows "\<exists>E. lp_log l' = lp_log l @ E \<and> list_all poll_event E \<and> length E \<le> 1"
  using assms
  by (cases src)
    (auto simp: poll_case_def dispatchAccept_def dispatchUDPIn_def dispatchSendDone_def
      loop_dispatchTimer_def Let_def log_exec split: option.splits)

lemma log_pollNoWait:
  "pollNoWait exec pick l = Some l' \<Longrightarrow>
   quiet exec \<longrightarrow> (\<exists>E. lp_log l' = lp_log l @ E \<and> list_all poll_event E)"
proof (erule pollNoWait.raw_induct [where P = "\<lambda>exec pick l l'. quiet exec \<longrightarrow>
    (\<exists>E. lp_log l' = lp_log l @ E \<and> list_all poll_event E)", rotated], intro impI)
  fix rec :: "exec \<Rightarrow> picker \<Rightarrow> Loop \<Rightarrow> Loop option" and exec pick l l'
  assume IH: "\<And>exec pick l l'. rec exec pick l = Some l' \<Longrightarrow> quiet exec \<longrightarrow>
      (\<exists>E. lp_log l' = lp_log l @ E \<and> list_all poll_event E)"
    and step: "(if ready l = [] then Some l
      else case poll_case exec (pick (ready l)) l of None \<Rightarrow> Some l | Some l' \<Rightarrow> rec exec pick l') = Some l'"
    and q: "quiet exec"
  show "\<exists>E. lp_log l' = lp_log l @ E \<and> list_all poll_event E"
  proof (cases "ready l = [] \<or> poll_case exec (pick (ready l)) l = None")
    case True
    with step have "l' = l" by (auto split: if_splits)
    then show ?thesis by (auto intro: exI [of _ "[]"])
  next
    case False
    then obtain l1 where l1: "poll_case exec (pick (ready l)) l = Some l1" "ready l \<noteq> []" by auto
    with step have "rec exec pick l1 = Some l'" by simp
    from IH [OF this] q obtain E where "lp_log l' = lp_log l1 @ E" "list_all poll_event E" by blast
    moreover from log_poll_case [OF q l1(1)] obtain E' where
      "lp_log l1 = lp_log l @ E'" "list_all poll_event E'" by blast
    ultimately show ?thesis by (intro exI [of _ "E' @ E"]) simp
  qed
qed

lemma log_pollOne:
  assumes q: "quiet exec" and "\<forall>a \<in> set env. \<forall>l. lp_log (a l) = lp_log l"
    and "pollOneBlocking exec pick env l = Some (cont, l', env')"
  shows "\<exists>E. lp_log l' = lp_log l @ E \<and> list_all poll_event E \<and> length E \<le> 1"
  using assms(2,3)
proof (induction env arbitrary: l)
  case Nil
  then show ?case
    using log_poll_case [OF q, of "pick (ready l)" l]
    by (auto split: if_splits option.splits intro: exI [of _ "[]"])
next
  case (Cons a env)
  show ?case
  proof (cases "ready l = []")
    case True
    with Cons.prems have "pollOneBlocking exec pick env (a l) = Some (cont, l', env')" by simp
    with Cons.IH [of "a l"] Cons.prems(1) show ?thesis by simp
  next
    case False
    with Cons.prems(2) log_poll_case [OF q, of "pick (ready l)" l] show ?thesis
      by (auto split: option.splits intro: exI [of _ "[]"])
  qed
qed

section \<open>What the teardown releases\<close>

text \<open>Callbacks without effect on the loop.\<close>

definition inert :: exec where
  "inert f l = l"

lemma fold_log:
  "fold (\<lambda>x. log_event (ev x)) xs l = l\<lparr>lp_log := lp_log l @ map ev xs\<rparr>"
  by (induction xs arbitrary: l) (simp_all add: log_event_def)

lemma UDP_Close_fields:
  "lp_acceptQ (UDP_Close u l) = lp_acceptQ l \<and> lp_udpSendDone (UDP_Close u l) = lp_udpSendDone l
   \<and> lp_listeners (UDP_Close u l) = lp_listeners l \<and> set (lp_udps (UDP_Close u l)) \<subseteq> set (lp_udps l)
   \<and> lp_ctxErr (UDP_Close u l) = lp_ctxErr l \<and> length (lp_udpHeap (UDP_Close u l)) = length (lp_udpHeap l)
   \<and> (u < length (lp_udpHeap l) \<longrightarrow> ud_closed (lp_udpHeap (UDP_Close u l) ! u))
   \<and> (\<exists>U. lp_log (UDP_Close u l) = lp_log l @ map ClosedUDP U \<and> length U \<le> 1)"
  by (auto simp: UDP_Close_def Let_def log_event_def split: option.splits
      intro: exI [of _ "[]"] exI [of _ "[x]" for x])

lemma UDP_Close_mono:
  "ud_closed (lp_udpHeap l ! v) \<Longrightarrow> v < length (lp_udpHeap l) \<Longrightarrow> ud_closed (lp_udpHeap (UDP_Close u l) ! v)"
  by (cases "u = v") (auto simp: UDP_Close_def Let_def log_event_def split: option.splits)

lemma fold_Close_mono:
  "ud_closed (lp_udpHeap l ! v) \<Longrightarrow> v < length (lp_udpHeap l) \<Longrightarrow>
   ud_closed (lp_udpHeap (fold UDP_Close us l) ! v)"
  by (induction us arbitrary: l) (simp_all add: UDP_Close_mono UDP_Close_fields)

lemma fold_Close:
  "set us \<subseteq> {..<length (lp_udpHeap l)} \<Longrightarrow>
   lp_acceptQ (fold UDP_Close us l) = lp_acceptQ l \<and> lp_udpSendDone (fold UDP_Close us l) = lp_udpSendDone l
   \<and> lp_listeners (fold UDP_Close us l) = lp_listeners l
   \<and> set (lp_udps (fold UDP_Close us l)) \<subseteq> set (lp_udps l) \<and> lp_ctxErr (fold UDP_Close us l) = lp_ctxErr l
   \<and> (\<forall>u \<in> set us. ud_closed (lp_udpHeap (fold UDP_Close us l) ! u))
   \<and> (\<exists>U. lp_log (fold UDP_Close us l) = lp_log l @ map ClosedUDP U \<and> length U \<le> length us)"
proof (induction us arbitrary: l)
  case Nil
  show ?case by (auto intro: exI [of _ "[]"])
next
  case (Cons u us)
  note c = UDP_Close_fields [of u l]
  have u: "u < length (lp_udpHeap l)" using Cons.prems by simp
  with c fold_Close_mono [of "UDP_Close u l" u us] have
    cu: "ud_closed (lp_udpHeap (fold UDP_Close us (UDP_Close u l)) ! u)" by simp
  have "set us \<subseteq> {..<length (lp_udpHeap (UDP_Close u l))}" using Cons.prems c by auto
  note IH = Cons.IH [OF this]
  obtain U U' where "lp_log (UDP_Close u l) = lp_log l @ map ClosedUDP U" "length U \<le> 1"
    "lp_log (fold UDP_Close us (UDP_Close u l)) = lp_log (UDP_Close u l) @ map ClosedUDP U'"
    "length U' \<le> length us" using c IH by blast
  then have "lp_log (fold UDP_Close us (UDP_Close u l)) = lp_log l @ map ClosedUDP (U @ U')
      \<and> length (U @ U') \<le> length (u # us)" by simp
  then have "\<exists>U. lp_log (fold UDP_Close us (UDP_Close u l)) = lp_log l @ map ClosedUDP U
      \<and> length U \<le> length (u # us)" by blast
  with IH c cu show ?case by auto
qed

definition conns_of :: "nat option list \<Rightarrow> nat list" where
  "conns_of q = concat (map (\<lambda>c. case c of None \<Rightarrow> [] | Some c \<Rightarrow> [c]) q)"

definition sends_of :: "(nat option \<times> string option) list \<Rightarrow> event list" where
  "sends_of q = concat (map (\<lambda>(cb, e). case cb of None \<Rightarrow> [] | Some cb \<Rightarrow> [SendDone cb e]) q)"

lemma drainAccepts_eq:
  "drainAccepts l = l\<lparr>lp_acceptQ := [], lp_log := lp_log l @ map ClosedConn (conns_of (lp_acceptQ l))\<rparr>"
proof -
  have "fold (\<lambda>c l. case c of None \<Rightarrow> l | Some c \<Rightarrow> log_event (ClosedConn c) l) q l' =
      l'\<lparr>lp_log := lp_log l' @ map ClosedConn (conns_of q)\<rparr>" for q and l' :: Loop
    by (induction q arbitrary: l') (auto simp: conns_of_def log_event_def split: option.splits)
  then show ?thesis by (simp add: drainAccepts_def)
qed

lemma drain_sends_inert:
  "drain_sends inert l = Some (l\<lparr>lp_udpSendDone := [], lp_log := lp_log l @ sends_of (lp_udpSendDone l)\<rparr>)"
proof (induction "lp_udpSendDone l" arbitrary: l)
  case Nil
  then have e: "lp_udpSendDone l = []" by simp
  then show ?case by (simp add: drain_sends.simps [of inert l] sends_of_def)
next
  case (Cons d ds)
  obtain cb err where d: "d = (cb, err)" by fastforce
  show ?case
  proof (cases cb)
    case None
    with Cons.hyps(1) [of "l\<lparr>lp_udpSendDone := ds\<rparr>"] Cons.hyps(2) [symmetric] d show ?thesis
      by (simp add: drain_sends.simps [of inert l] sends_of_def)
  next
    case (Some c)
    with Cons.hyps(1) [of "log_event (SendDone c err) (l\<lparr>lp_udpSendDone := ds\<rparr>)"] Cons.hyps(2) [symmetric] d
    show ?thesis by (simp add: drain_sends.simps [of inert l] sends_of_def inert_def log_event_def)
  qed
qed

section \<open>Properties\<close>



text \<open>
  Running a loop whose context is done, with callbacks that have no effect on the loop, runs no
  phase: it closes every listener, every UDP handle and every accepted connection not yet handed
  over, calls every completed send's callback, each once, and returns nil for a cancelled context
  and the context's error otherwise.
\<close>

theorem run_teardown:
  assumes "lp_ctxErr l = Some err" and "set (lp_udps l) \<subseteq> {..<length (lp_udpHeap l)}"
  shows "\<exists>l' U. Loop_RunMode inert pick clk mode env l
       = Some (if err = Canceled then None else Some err, l')
     \<and> lp_listeners l' = [] \<and> lp_udps l' = [] \<and> lp_acceptQ l' = [] \<and> lp_udpIn l' = [] \<and> lp_udpSendDone l' = []
     \<and> (\<forall>u \<in> set (lp_udps l). ud_closed (lp_udpHeap l' ! u))
     \<and> lp_log l' = lp_log l @ map ClosedListener (lp_listeners l) @ map ClosedUDP U
          @ map ClosedConn (conns_of (lp_acceptQ l)) @ sends_of (lp_udpSendDone l)
     \<and> length U \<le> length (lp_udps l)"
proof -
  let ?l0 = "l\<lparr>lp_stopFlag := False, lp_cachedNow := clk l\<rparr>"
  let ?l1 = "?l0\<lparr>lp_listeners := [], lp_udps := [], lp_log := lp_log l @ map ClosedListener (lp_listeners l)\<rparr>"
  have sd: "shutdownSockets ?l0 = fold UDP_Close (lp_udps l) ?l1"
    by (simp add: shutdownSockets_def Let_def fold_log)
  have "set (lp_udps l) \<subseteq> {..<length (lp_udpHeap ?l1)}" using assms(2) by simp
  note fc = fold_Close [OF this]
  let ?l2 = "fold UDP_Close (lp_udps l) ?l1"
  from fc obtain U where U: "lp_log ?l2 = lp_log ?l1 @ map ClosedUDP U" "length U \<le> length (lp_udps l)"
    by blast
  have run: "Loop_RunMode inert pick clk mode env l = Some (if err = Canceled then None else Some err,
      ?l2\<lparr>lp_acceptQ := [], lp_udpIn := [], lp_udpSendDone := [],
        lp_log := lp_log ?l2 @ map ClosedConn (conns_of (lp_acceptQ ?l2)) @ sends_of (lp_udpSendDone ?l2)\<rparr>)"
    using assms(1) sd
    by (simp add: Loop_RunMode_def run_loop.simps teardownAfterRun_def drainUDPQueuesNoop_def
        drainAccepts_eq drain_sends_inert ctx_result_def)
  show ?thesis
    unfolding run by (rule exI, rule exI [of _ U]) (use fc U in auto)
qed

lemma run_teardown_witness:
  "\<exists>l'. Loop_RunMode inert hd (\<lambda>_. 0) RunDefault []
       ((NewLoop 0 (Some Canceled))\<lparr>lp_listeners := [3], lp_acceptQ := [Some 8]\<rparr>) = Some (None, l')
     \<and> lp_log l' = [ClosedListener 3, ClosedConn 8] \<and> lp_listeners l' = []"
proof -
  let ?l = "(NewLoop 0 (Some Canceled))\<lparr>lp_listeners := [3], lp_acceptQ := [Some 8]\<rparr>"
  have "lp_ctxErr ?l = Some Canceled" "set (lp_udps ?l) \<subseteq> {..<length (lp_udpHeap ?l)}"
    by (simp_all add: NewLoop_def)
  from run_teardown [OF this, of hd "\<lambda>_. 0" RunDefault "[]"] show ?thesis
    by (auto simp: NewLoop_def conns_of_def sends_of_def)
qed

end
