(* ===== verification/TtlCache.thy ===== *)
theory TtlCache
  imports Prelude
begin

text \<open>
  The cache interface of \<^verbatim>\<open>go_cache_strategy/internal/cache/cache.go\<close> as a locale, and its in-memory
  implementation.  Times and durations are integers in nanoseconds, and the time of a call is an
  argument.  Sections under the lock are atomic; \<^verbatim>\<open>Get\<close> has two, and \<open>between\<close> is what other
  goroutines do to the cache between them.
\<close>

section \<open>The interface\<close>

text \<open>
  \<open>view c t k\<close> is what a \<^verbatim>\<open>Get\<close> of \<open>k\<close> at time \<open>t\<close> answers.  A client that keeps what it stores
  equal to a source reads the source through the cache.
\<close>

locale ttl_cache =
  fixes view :: "'c \<Rightarrow> int \<Rightarrow> string \<Rightarrow> 'v option"
    and cset :: "'c \<Rightarrow> int \<Rightarrow> string \<Rightarrow> 'v \<Rightarrow> int \<Rightarrow> 'c"
    and cget :: "'c \<Rightarrow> int \<Rightarrow> string \<Rightarrow> 'v option \<times> 'c"
    and cdel :: "'c \<Rightarrow> string \<Rightarrow> 'c"
  assumes get_value: "fst (cget c t k) = view c t k"
    and get_view: "t \<le> t' \<Longrightarrow> view (snd (cget c t k)) t' k' = view c t' k'"
    and set_view: "view (cset c t k v ttl) t' k' =
          (if k' = k then (if t' \<le> t + ttl then Some v else None) else view c t' k')"
    and del_view: "view (cdel c k) t' k' = (if k' = k then None else view c t' k')"
begin

definition coherent :: "(string \<Rightarrow> 'v option) \<Rightarrow> 'c \<Rightarrow> int \<Rightarrow> bool" where
  "coherent src c t \<longleftrightarrow> (\<forall>t' k v. t \<le> t' \<longrightarrow> view c t' k = Some v \<longrightarrow> src k = Some v)"

lemma coherent_later: "coherent src c t \<Longrightarrow> t \<le> t' \<Longrightarrow> coherent src c t'"
  unfolding coherent_def by (meson order_trans)

lemma coherent_hit: "coherent src c t \<Longrightarrow> fst (cget c t k) = Some v \<Longrightarrow> src k = Some v"
  unfolding coherent_def get_value by blast

lemma coherent_get: "coherent src c t \<Longrightarrow> coherent src (snd (cget c t k)) t"
  unfolding coherent_def by (simp add: get_view)

lemma coherent_set: "coherent src c t \<Longrightarrow> coherent (src(k := Some v)) (cset c t k v ttl) t"
  unfolding coherent_def by (auto simp: set_view split: if_splits)

lemma coherent_fill: "coherent src c t \<Longrightarrow> src k = Some v \<Longrightarrow> coherent src (cset c t k v ttl) t"
  using coherent_set [of src c t k v ttl] by (simp add: fun_upd_idem)

lemma coherent_del: "coherent src c t \<Longrightarrow> coherent src (cdel c k) t"
  unfolding coherent_def by (auto simp: del_view split: if_splits)

end

section \<open>The in-memory cache\<close>

record 'v cacheItem =
  ci_value :: 'v
  ci_expiration :: int

record 'v InMemoryCache =
  mc_items :: "string \<rightharpoonup> 'v cacheItem"
  mc_cleanup :: bool
  mc_stopped :: bool

text \<open>With a positive interval the cleanup goroutine is started.\<close>

definition NewInMemoryCache :: "int \<Rightarrow> 'v InMemoryCache" where
  "NewInMemoryCache cleanupInterval =
     \<lparr>mc_items = Map.empty, mc_cleanup = (cleanupInterval > 0), mc_stopped = False\<rparr>"

definition InMemoryCache_Set :: "'v InMemoryCache \<Rightarrow> int \<Rightarrow> string \<Rightarrow> 'v \<Rightarrow> int \<Rightarrow> 'v InMemoryCache" where
  "InMemoryCache_Set c now key v ttl =
     c\<lparr>mc_items := (mc_items c)(key \<mapsto> \<lparr>ci_value = v, ci_expiration = now + ttl\<rparr>)\<rparr>"

definition InMemoryCache_Get ::
  "('v InMemoryCache \<Rightarrow> 'v InMemoryCache) \<Rightarrow> 'v InMemoryCache \<Rightarrow> int \<Rightarrow> string \<Rightarrow> 'v option \<times> 'v InMemoryCache" where
  "InMemoryCache_Get between c now key =
     (case mc_items c key of
        None \<Rightarrow> (None, c)
      | Some item \<Rightarrow>
          if now > ci_expiration item
          then let c1 = between c in
               (None, case mc_items c1 key of
                        None \<Rightarrow> c1
                      | Some cur \<Rightarrow> if now > ci_expiration cur
                                   then c1\<lparr>mc_items := (mc_items c1)(key := None)\<rparr> else c1)
          else (Some (ci_value item), c))"

definition InMemoryCache_Delete :: "'v InMemoryCache \<Rightarrow> string \<Rightarrow> 'v InMemoryCache" where
  "InMemoryCache_Delete c key = c\<lparr>mc_items := (mc_items c)(key := None)\<rparr>"

text \<open>One tick of the cleanup goroutine.\<close>

definition runCleanup_tick :: "int \<Rightarrow> 'v InMemoryCache \<Rightarrow> 'v InMemoryCache" where
  "runCleanup_tick now c =
     (if mc_cleanup c \<and> \<not> mc_stopped c
      then c\<lparr>mc_items := (\<lambda>k. case mc_items c k of None \<Rightarrow> None
                             | Some it \<Rightarrow> if now > ci_expiration it then None else Some it)\<rparr>
      else c)"

definition StopCleanup :: "'v InMemoryCache \<Rightarrow> 'v InMemoryCache" where
  "StopCleanup c = c\<lparr>mc_stopped := True\<rparr>"

definition mem_view :: "'v InMemoryCache \<Rightarrow> int \<Rightarrow> string \<Rightarrow> 'v option" where
  "mem_view c t k = (case mc_items c k of None \<Rightarrow> None
     | Some it \<Rightarrow> if t > ci_expiration it then None else Some (ci_value it))"

lemma mem_get_value: "fst (InMemoryCache_Get f c t k) = mem_view c t k"
  by (simp add: InMemoryCache_Get_def mem_view_def Let_def split: option.splits)

text \<open>Lazy deletion never removes what is still visible, whatever ran between its two sections.\<close>

lemma mem_get_view:
  "t \<le> t' \<Longrightarrow> mem_view (snd (InMemoryCache_Get f c t k)) t' k' = mem_view c t' k'
   \<or> mem_view (snd (InMemoryCache_Get f c t k)) t' k' = mem_view (f c) t' k'"
  by (auto simp: InMemoryCache_Get_def mem_view_def Let_def split: option.splits)

interpretation mem: ttl_cache mem_view InMemoryCache_Set "InMemoryCache_Get id" InMemoryCache_Delete
proof
  show "fst (InMemoryCache_Get id c t k) = mem_view c t k" for c :: "'a InMemoryCache" and t k
    by (rule mem_get_value)
  show "mem_view (snd (InMemoryCache_Get id c t k)) t' k' = mem_view c t' k'" if "t \<le> t'"
    for t t' :: int and c :: "'a InMemoryCache" and k k'
    using mem_get_view [OF that, of id c k k'] by simp
qed (auto simp: InMemoryCache_Set_def InMemoryCache_Delete_def mem_view_def split: option.splits)

section \<open>Runs\<close>

datatype 'v cache_op = SetOp string 'v int | GetAt string | DelOp string | TickOp | StopOp

fun cache_run :: "'v InMemoryCache \<Rightarrow> (int \<times> 'v cache_op) list \<Rightarrow> 'v InMemoryCache" where
  "cache_run c [] = c"
| "cache_run c ((t, SetOp k v ttl) # ops) = cache_run (InMemoryCache_Set c t k v ttl) ops"
| "cache_run c ((t, GetAt k) # ops) = cache_run (snd (InMemoryCache_Get id c t k)) ops"
| "cache_run c ((t, DelOp k) # ops) = cache_run (InMemoryCache_Delete c k) ops"
| "cache_run c ((t, TickOp) # ops) = cache_run (runCleanup_tick t c) ops"
| "cache_run c ((t, StopOp) # ops) = cache_run (StopCleanup c) ops"

text \<open>What the last operation on a key says a read at time \<open>now\<close> should answer.\<close>

fun last_write :: "string \<Rightarrow> int \<Rightarrow> 'v option \<Rightarrow> (int \<times> 'v cache_op) list \<Rightarrow> 'v option" where
  "last_write k now r [] = r"
| "last_write k now r ((t, SetOp k' v ttl) # ops) =
     last_write k now (if k' = k then (if now \<le> t + ttl then Some v else None) else r) ops"
| "last_write k now r ((t, DelOp k') # ops) = last_write k now (if k' = k then None else r) ops"
| "last_write k now r ((t, op) # ops) = last_write k now r ops"

lemma tick_view: "t \<le> t' \<Longrightarrow> mem_view (runCleanup_tick t c) t' k = mem_view c t' k"
  by (auto simp: runCleanup_tick_def mem_view_def split: option.splits)

lemma run_view:
  "\<forall>(t, op) \<in> set ops. t \<le> now \<Longrightarrow>
   mem_view (cache_run c ops) now k = last_write k now (mem_view c now k) ops"
proof (induction c ops rule: cache_run.induct)
  case (5 c t ops)
  then show ?case by (simp add: tick_view)
next
  case (6 c t ops)
  then show ?case by (simp add: StopCleanup_def mem_view_def)
qed (auto simp: mem.set_view mem.get_view mem.del_view split: if_splits)

section \<open>Properties\<close>



end
