(* ===== verification/CacheStrategy.thy ===== *)
theory CacheStrategy
  imports TtlCache "HOL-Library.Sublist"
begin

text \<open>
  The caching strategies of \<^verbatim>\<open>go_cache_strategy\<close>: the SQLite store (\<^verbatim>\<open>internal/database\<close>), cache-aside,
  read-through, write-through, write-around and write-behind.  The store is two maps, as its SQL
  statements read and write them; what the driver may report (a query error, a failed begin, prepare,
  statement or commit) is an argument of each call.  The strategies take the cache's operations as
  arguments, as the code takes its interface.  Logging is left out.
\<close>

section \<open>models.go and database.go\<close>

record User =
  us_ID :: string
  us_Name :: string

record LogEntry =
  le_Timestamp :: int
  le_Level :: string
  le_Message :: string
  le_ID :: string

record SQLiteDB =
  db_users :: "string \<rightharpoonup> string"
  db_logs :: "string \<rightharpoonup> LogEntry"

text \<open>Opening the file keeps what its tables already hold.\<close>

definition NewSQLiteDB :: "SQLiteDB \<Rightarrow> string option \<Rightarrow> string option \<Rightarrow> string option \<Rightarrow> string option \<Rightarrow> string + SQLiteDB" where
  "NewSQLiteDB existing openErr pingErr usersErr logsErr =
     (case openErr of Some e \<Rightarrow> Inl (''failed to open database: '' @ e)
      | None \<Rightarrow> case pingErr of Some e \<Rightarrow> Inl (''failed to connect to database: '' @ e)
      | None \<Rightarrow> case usersErr of Some e \<Rightarrow> Inl (''failed to create users table: '' @ e)
      | None \<Rightarrow> case logsErr of Some e \<Rightarrow> Inl (''failed to create logs table: '' @ e)
      | None \<Rightarrow> Inr existing)"

definition DB_GetUser :: "string option \<Rightarrow> SQLiteDB \<Rightarrow> string \<Rightarrow> string + User option" where
  "DB_GetUser err db userID =
     (case err of
        Some e \<Rightarrow> Inl (''db query error: '' @ e)
      | None \<Rightarrow> Inr (map_option (\<lambda>n. \<lparr>us_ID = userID, us_Name = n\<rparr>) (db_users db userID)))"

definition put_user :: "User \<Rightarrow> SQLiteDB \<Rightarrow> SQLiteDB" where
  "put_user u db = db\<lparr>db_users := (db_users db)(us_ID u \<mapsto> us_Name u)\<rparr>"

definition DB_UpdateUser :: "string option \<Rightarrow> SQLiteDB \<Rightarrow> User \<Rightarrow> string option \<times> SQLiteDB" where
  "DB_UpdateUser err db user =
     (case err of Some e \<Rightarrow> (Some (''db update error: '' @ e), db) | None \<Rightarrow> (None, put_user user db))"

text \<open>What a transaction may report: a failed begin, prepare, statement for a user, commit.\<close>

record faults =
  ft_begin :: "string option"
  ft_prepare :: "string option"
  ft_exec :: "User \<Rightarrow> bool"
  ft_commit :: "string option"

definition no_faults :: faults where
  "no_faults = \<lparr>ft_begin = None, ft_prepare = None, ft_exec = (\<lambda>_. False), ft_commit = None\<rparr>"

definition DB_BulkUpdateUsers :: "faults \<Rightarrow> SQLiteDB \<Rightarrow> User list \<Rightarrow> string option \<times> SQLiteDB" where
  "DB_BulkUpdateUsers flt db users =
     (if users = [] then (None, db)
      else case ft_begin flt of Some e \<Rightarrow> (Some (''db begin tx error: '' @ e), db)
      | None \<Rightarrow> case ft_prepare flt of Some e \<Rightarrow> (Some (''db prepare error: '' @ e), db)
      | None \<Rightarrow>
          let tx = fold (\<lambda>u d. if ft_exec flt u then d else put_user u d) users db in
          case ft_commit flt of Some e \<Rightarrow> (Some (''db commit error: '' @ e), db)
          | None \<Rightarrow> (None, tx))"

text \<open>\<^verbatim>\<open>INSERT\<close> into \<^verbatim>\<open>logs\<close>, whose primary key refuses a second entry with the same id.\<close>

definition DB_InsertLogEntry :: "string option \<Rightarrow> SQLiteDB \<Rightarrow> LogEntry \<Rightarrow> string option \<times> SQLiteDB" where
  "DB_InsertLogEntry err db entry =
     (case (if db_logs db (le_ID entry) \<noteq> None then Some ''UNIQUE constraint failed: logs.id'' else err) of
        Some e \<Rightarrow> (Some (''db insert log error: '' @ e), db)
      | None \<Rightarrow> (None, db\<lparr>db_logs := (db_logs db)(le_ID entry \<mapsto> entry)\<rparr>))"

definition DB_GetLogByID :: "string option \<Rightarrow> SQLiteDB \<Rightarrow> string \<Rightarrow> string + LogEntry option" where
  "DB_GetLogByID err db logID =
     (case err of Some e \<Rightarrow> Inl (''db query log error: '' @ e) | None \<Rightarrow> Inr (db_logs db logID))"

section \<open>The strategies\<close>

text \<open>What an \<^verbatim>\<open>interface{}\<close> in the cache holds: a user or log pointer, which may itself be nil.\<close>

datatype cval = UserVal "User option" | LogVal "LogEntry option"

type_synonym 'c get_fn = "'c \<Rightarrow> int \<Rightarrow> string \<Rightarrow> cval option \<times> 'c"
type_synonym 'c set_fn = "'c \<Rightarrow> int \<Rightarrow> string \<Rightarrow> cval \<Rightarrow> int \<Rightarrow> 'c"
type_synonym 'c del_fn = "'c \<Rightarrow> string \<Rightarrow> 'c"

definition cacheaside_GetUser ::
  "'c get_fn \<Rightarrow> 'c set_fn \<Rightarrow> 'c del_fn \<Rightarrow> (string \<Rightarrow> string + User option) \<Rightarrow> string \<Rightarrow> int
     \<Rightarrow> int \<Rightarrow> string \<Rightarrow> 'c \<Rightarrow> (string + User option) \<times> 'c" where
  "cacheaside_GetUser cget cset cdel dbGet keyPrefix ttl now userID c =
     (let cacheKey = keyPrefix @ userID;
          (cachedVal, c1) = cget c now cacheKey
      in case cachedVal of
           Some (UserVal user) \<Rightarrow> (Inr user, c1)
         | _ \<Rightarrow>
             let c2 = (if cachedVal = None then c1 else cdel c1 cacheKey) in
             (case dbGet userID of
                Inl err \<Rightarrow> (Inl (''failed to get user from DB: '' @ err), c2)
              | Inr None \<Rightarrow> (Inr None, c2)
              | Inr (Some user) \<Rightarrow> (Inr (Some user), cset c2 now cacheKey (UserVal (Some user)) ttl)))"

text \<open>A loader answers an error or an interface value, which may be nil; it may panic.\<close>

type_synonym loader = "string \<Rightarrow> (string + cval option) go"

definition readthrough_Get ::
  "'c get_fn \<Rightarrow> 'c set_fn \<Rightarrow> loader \<Rightarrow> int \<Rightarrow> int \<Rightarrow> string \<Rightarrow> 'c \<Rightarrow> ((string + cval option) \<times> 'c) go" where
  "readthrough_Get cget cset loaderFunc ttl now key c =
     (case cget c now key of
        (Some v, c1) \<Rightarrow> Inr (Inr (Some v), c1)
      | (None, c1) \<Rightarrow> bnd (loaderFunc key) (\<lambda>r.
          case r of
            Inl err \<Rightarrow> Inr (Inl (''loader function failed for key '' @ key @ '': '' @ err), c1)
          | Inr None \<Rightarrow> Inr (Inr None, c1)
          | Inr (Some v) \<Rightarrow> Inr (Inr (Some v), cset c1 now key v ttl)))"

text \<open>The loader returns the \<^verbatim>\<open>*User\<close> of the store as an interface: a nil pointer is not a nil interface.\<close>

definition NewUserLoader :: "(string \<Rightarrow> string + User option) \<Rightarrow> string \<Rightarrow> loader" where
  "NewUserLoader dbGet keyPrefix cacheKey =
     bnd (slice_range cacheKey (int (length keyPrefix)) (int (length cacheKey))) (\<lambda>userID.
       Inr (map_sum id (\<lambda>u. Some (UserVal u)) (dbGet userID)))"

definition writethrough_UpdateUser ::
  "'c set_fn \<Rightarrow> (User \<Rightarrow> string option \<times> SQLiteDB) \<Rightarrow> string \<Rightarrow> int \<Rightarrow> int \<Rightarrow> User \<Rightarrow> 'c
     \<Rightarrow> string option \<times> SQLiteDB \<times> 'c" where
  "writethrough_UpdateUser cset dbUpdate keyPrefix ttl now user c =
     (case dbUpdate user of
        (Some err, db) \<Rightarrow> (Some (''failed to write to database: '' @ err), db, c)
      | (None, db) \<Rightarrow> (None, db, cset c now (keyPrefix @ us_ID user) (UserVal (Some user)) ttl))"

definition writearound_WriteLog ::
  "(LogEntry \<Rightarrow> string option \<times> SQLiteDB) \<Rightarrow> LogEntry \<Rightarrow> string option \<times> SQLiteDB" where
  "writearound_WriteLog dbInsert entry =
     (case dbInsert entry of
        (Some err, db) \<Rightarrow> (Some (''failed to write log to DB: '' @ err), db) | (None, db) \<Rightarrow> (None, db))"

definition writearound_GetLog ::
  "'c get_fn \<Rightarrow> 'c set_fn \<Rightarrow> 'c del_fn \<Rightarrow> (string \<Rightarrow> string + LogEntry option) \<Rightarrow> string \<Rightarrow> int
     \<Rightarrow> int \<Rightarrow> string \<Rightarrow> 'c \<Rightarrow> (string + LogEntry option) \<times> 'c" where
  "writearound_GetLog cget cset cdel dbGet keyPrefix ttl now logID c =
     (let cacheKey = keyPrefix @ logID;
          (cachedVal, c1) = cget c now cacheKey
      in case cachedVal of
           Some (LogVal entry) \<Rightarrow> (Inr entry, c1)
         | _ \<Rightarrow>
             let c2 = (if cachedVal = None then c1 else cdel c1 cacheKey) in
             (case dbGet logID of
                Inl err \<Rightarrow> (Inl (''failed to get log from DB: '' @ err), c2)
              | Inr None \<Rightarrow> (Inr None, c2)
              | Inr (Some entry) \<Rightarrow> (Inr (Some entry), cset c2 now cacheKey (LogVal (Some entry)) ttl)))"

section \<open>Write-behind\<close>

datatype worker = Running | Draining | Finished

record 'c Strategy =
  wb_cache :: 'c
  wb_db :: SQLiteDB
  wb_updateQueue :: "User list"
  wb_queueSize :: nat
  wb_cancelled :: bool
  wb_keyPrefix :: string
  wb_ttl :: int
  wb_batchSize :: nat
  wb_batch :: "User list"
  wb_worker :: worker

definition defaultQueueSize :: int where "defaultQueueSize = 100"
definition defaultBatchSize :: int where "defaultBatchSize = 10"

definition writebehind_New :: "'c \<Rightarrow> SQLiteDB \<Rightarrow> string \<Rightarrow> int \<Rightarrow> int \<Rightarrow> int \<Rightarrow> 'c Strategy" where
  "writebehind_New cache db keyPrefix ttl queueSize batchSize =
     \<lparr>wb_cache = cache, wb_db = db, wb_updateQueue = [],
      wb_queueSize = nat (if queueSize \<le> 0 then defaultQueueSize else queueSize),
      wb_cancelled = False, wb_keyPrefix = keyPrefix, wb_ttl = ttl,
      wb_batchSize = nat (if batchSize \<le> 0 then defaultBatchSize else batchSize),
      wb_batch = [], wb_worker = Running\<rparr>"

definition writebehind_UpdateUser :: "'c set_fn \<Rightarrow> int \<Rightarrow> User \<Rightarrow> 'c Strategy \<Rightarrow> string option \<times> 'c Strategy" where
  "writebehind_UpdateUser cset now user s =
     (let s1 = s\<lparr>wb_cache := cset (wb_cache s) now (wb_keyPrefix s @ us_ID user) (UserVal (Some user)) (wb_ttl s)\<rparr>
      in if length (wb_updateQueue s1) < wb_queueSize s1
         then (None, s1\<lparr>wb_updateQueue := wb_updateQueue s1 @ [user]\<rparr>)
         else (Some (''update queue overflow for user '' @ us_ID user), s1))"

text \<open>
  The flush of the loop runs under the worker's context, the flushes of the shutdown under a fresh
  one.  \<^verbatim>\<open>BeginTx\<close> under a context that is done reports it.
\<close>

definition flushBatchToDB :: "bool \<Rightarrow> faults \<Rightarrow> User list \<Rightarrow> 'c Strategy \<Rightarrow> 'c Strategy" where
  "flushBatchToDB ctxDone flt batch s =
     (if batch = [] then s
      else let flt' = (if ctxDone then flt\<lparr>ft_begin := Some ''context canceled''\<rparr> else flt) in
           s\<lparr>wb_db := snd (DB_BulkUpdateUsers flt' (wb_db s) batch)\<rparr>)"

text \<open>Appending a received user to the batch, which is flushed and emptied when full.\<close>

definition worker_take :: "bool \<Rightarrow> faults \<Rightarrow> User \<Rightarrow> 'c Strategy \<Rightarrow> 'c Strategy" where
  "worker_take ctxDone flt u s =
     (let batch = wb_batch s @ [u] in
      if length batch \<ge> wb_batchSize s then (flushBatchToDB ctxDone flt batch s)\<lparr>wb_batch := []\<rparr>
      else s\<lparr>wb_batch := batch\<rparr>)"

text \<open>
  A step of the worker, or of the program that stops it, with what the store may report.  On
  shutdown the batch is flushed but kept while the queue is drained.
\<close>

inductive wb_step :: "faults \<Rightarrow> 'c Strategy \<Rightarrow> 'c Strategy \<Rightarrow> bool" for flt where
  stop: "\<not> wb_cancelled s \<Longrightarrow> wb_step flt s (s\<lparr>wb_cancelled := True\<rparr>)"
| receive: "wb_worker s = Running \<Longrightarrow> wb_updateQueue s = u # us \<Longrightarrow>
    wb_step flt s (worker_take (wb_cancelled s) flt u (s\<lparr>wb_updateQueue := us\<rparr>))"
| tick: "wb_worker s = Running \<Longrightarrow> wb_batch s \<noteq> [] \<Longrightarrow>
    wb_step flt s ((flushBatchToDB (wb_cancelled s) flt (wb_batch s) s)\<lparr>wb_batch := []\<rparr>)"
| shutdown: "wb_worker s = Running \<Longrightarrow> wb_cancelled s \<Longrightarrow>
    wb_step flt s ((flushBatchToDB False flt (wb_batch s) s)\<lparr>wb_worker := Draining\<rparr>)"
| drain: "wb_worker s = Draining \<Longrightarrow> wb_updateQueue s = u # us \<Longrightarrow>
    wb_step flt s (worker_take False flt u (s\<lparr>wb_updateQueue := us\<rparr>))"
| finish: "wb_worker s = Draining \<Longrightarrow> wb_updateQueue s = [] \<Longrightarrow>
    wb_step flt s ((flushBatchToDB False flt (wb_batch s) s)\<lparr>wb_worker := Finished\<rparr>)"

inductive_cases wb_stepE: "wb_step flt s s'"

text \<open>
  Runs in which the store reports nothing of its own and the worker, once cancelled, takes the
  shutdown branch of its \<^verbatim>\<open>select\<close>; with the accepted updates in order.
\<close>

inductive wb_reach :: "'c set_fn \<Rightarrow> 'c Strategy \<Rightarrow> User list \<Rightarrow> 'c Strategy \<Rightarrow> bool" for cset s0 where
  start: "wb_reach cset s0 [] s0"
| accepted: "wb_reach cset s0 us s \<Longrightarrow> writebehind_UpdateUser cset now u s = (None, s') \<Longrightarrow>
    wb_reach cset s0 (us @ [u]) s'"
| refused: "wb_reach cset s0 us s \<Longrightarrow> writebehind_UpdateUser cset now u s = (Some e, s') \<Longrightarrow>
    wb_reach cset s0 us s'"
| worker: "wb_reach cset s0 us s \<Longrightarrow> wb_step no_faults s s' \<Longrightarrow>
    (wb_cancelled s \<and> wb_worker s = Running \<longrightarrow> wb_worker s' = Draining) \<Longrightarrow> wb_reach cset s0 us s'"

definition put_users :: "User list \<Rightarrow> SQLiteDB \<Rightarrow> SQLiteDB" where
  "put_users us db = fold put_user us db"

lemma put_users_append [simp]: "put_users (xs @ ys) db = put_users ys (put_users xs db)"
  by (simp add: put_users_def)

lemma put_users_simps [simp]: "put_users [] db = db" "put_users (u # us) db = put_users us (put_user u db)"
  by (simp_all add: put_users_def)

lemma put_users_eq:
  "put_users us db = db\<lparr>db_users := db_users db ++ map_of (rev (map (\<lambda>u. (us_ID u, us_Name u)) us))\<rparr>"
  by (induction us arbitrary: db) (simp_all add: put_user_def)

text \<open>Replaying a prefix of what was just written changes nothing.\<close>

lemma put_users_replay: "put_users (xs @ ys) (put_users xs db) = put_users (xs @ ys) db"
proof -
  have "m ++ f ++ f = m ++ f" for m f :: "string \<rightharpoonup> string"
    by (rule ext) (simp add: map_add_def split: option.split)
  then have "put_users xs (put_users xs db) = put_users xs db" by (simp add: put_users_eq)
  then show ?thesis by simp
qed

lemma bulk_no_faults: "DB_BulkUpdateUsers no_faults db us = (None, put_users us db)"
  by (cases "us = []") (simp_all add: DB_BulkUpdateUsers_def no_faults_def Let_def put_users_def)

lemma flush_no_faults: "flushBatchToDB False no_faults us s = s\<lparr>wb_db := put_users us (wb_db s)\<rparr>"
  by (simp add: flushBatchToDB_def bulk_no_faults)

definition wb_inv :: "SQLiteDB \<Rightarrow> User list \<Rightarrow> 'c Strategy \<Rightarrow> bool" where
  "wb_inv db0 us s \<longleftrightarrow> (\<exists>F P Q. wb_batch s = P @ Q \<and> us = F @ wb_batch s @ wb_updateQueue s
     \<and> wb_db s = put_users (F @ P) db0 \<and> (wb_worker s = Running \<longrightarrow> P = [])
     \<and> (wb_worker s = Finished \<longrightarrow> Q = []))"

lemma wb_inv_cache [simp]: "wb_inv db0 us (s\<lparr>wb_cache := x\<rparr>) = wb_inv db0 us s"
  by (simp add: wb_inv_def)

lemma wb_invI:
  "wb_batch s = P @ Q \<Longrightarrow> us = F @ P @ Q @ wb_updateQueue s \<Longrightarrow> wb_db s = put_users (F @ P) db0 \<Longrightarrow>
   (wb_worker s = Running \<Longrightarrow> P = []) \<Longrightarrow> (wb_worker s = Finished \<Longrightarrow> Q = []) \<Longrightarrow> wb_inv db0 us s"
  unfolding wb_inv_def by (intro exI [of _ F] exI [of _ P] exI [of _ Q]) simp

lemma inv_take:
  assumes inv: "wb_inv db0 us s" and q: "wb_updateQueue s = u # q" and w: "wb_worker s \<noteq> Finished"
  shows "wb_inv db0 us (worker_take False no_faults u (s\<lparr>wb_updateQueue := q\<rparr>))"
proof -
  from inv obtain F P Q where i: "wb_batch s = P @ Q" "us = F @ wb_batch s @ wb_updateQueue s"
    "wb_db s = put_users (F @ P) db0" "wb_worker s = Running \<longrightarrow> P = []" unfolding wb_inv_def by blast
  have "put_users (P @ Q @ [u]) (put_users P (put_users F db0)) = put_users (P @ Q @ [u]) (put_users F db0)"
    by (rule put_users_replay)
  note replay = this
  show ?thesis
  proof (cases "length (wb_batch s @ [u]) \<ge> wb_batchSize s")
    case True
    then have t: "worker_take False no_faults u (s\<lparr>wb_updateQueue := q\<rparr>) =
        s\<lparr>wb_updateQueue := q, wb_db := put_users (wb_batch s @ [u]) (wb_db s), wb_batch := []\<rparr>"
      by (simp add: worker_take_def Let_def flush_no_faults)
    show ?thesis unfolding t
      by (rule wb_invI [of _ "[]" "[]" us "F @ P @ Q @ [u]"]) (use i q replay in simp_all)
  next
    case False
    then have t: "worker_take False no_faults u (s\<lparr>wb_updateQueue := q\<rparr>) =
        s\<lparr>wb_updateQueue := q, wb_batch := wb_batch s @ [u]\<rparr>"
      by (simp add: worker_take_def Let_def)
    show ?thesis unfolding t
      by (rule wb_invI [of _ P "Q @ [u]" us F]) (use i q w in simp_all)
  qed
qed

lemma inv_step:
  "wb_step no_faults s s' \<Longrightarrow> wb_inv db0 us s \<Longrightarrow>
   (wb_cancelled s \<and> wb_worker s = Running \<longrightarrow> wb_worker s' = Draining) \<Longrightarrow> wb_inv db0 us s'"
proof (induction rule: wb_step.induct)
  case (stop s)
  then show ?case by (simp add: wb_inv_def)
next
  case (receive s u q)
  then have "\<not> wb_cancelled s"
    by (auto simp: worker_take_def flushBatchToDB_def Let_def split: if_splits)
  with receive show ?case by (simp add: inv_take)
next
  case (tick s)
  then have "\<not> wb_cancelled s"
    by (auto simp: flushBatchToDB_def Let_def split: if_splits)
  moreover from tick obtain F where "us = F @ wb_batch s @ wb_updateQueue s" "wb_db s = put_users F db0"
    by (auto simp: wb_inv_def)
  ultimately show ?case
    by (intro wb_invI [of _ "[]" "[]" us "F @ wb_batch s"]) (simp_all add: flush_no_faults)
next
  case (shutdown s)
  then obtain F where "us = F @ wb_batch s @ wb_updateQueue s" "wb_db s = put_users F db0"
    by (auto simp: wb_inv_def)
  then show ?case
    by (intro wb_invI [of _ "wb_batch s" "[]" us F]) (simp_all add: flush_no_faults)
next
  case (drain s u q)
  then show ?case by (simp add: inv_take)
next
  case (finish s)
  then obtain F P Q where i: "wb_batch s = P @ Q" "us = F @ wb_batch s @ wb_updateQueue s"
    "wb_db s = put_users (F @ P) db0" by (auto simp: wb_inv_def)
  have "put_users (P @ Q) (put_users P (put_users F db0)) = put_users (P @ Q) (put_users F db0)"
    by (rule put_users_replay)
  with i finish show ?case
    by (intro wb_invI [of _ "wb_batch s" "[]" us F]) (simp_all add: flush_no_faults)
qed

lemma inv_reach: "wb_reach cset s0 us s \<Longrightarrow> wb_inv (wb_db s0) [] s0 \<Longrightarrow> wb_inv (wb_db s0) us s"
proof (induction rule: wb_reach.induct)
  case (accepted us s now u s')
  then have "wb_inv (wb_db s0) us s" by simp
  then obtain F P Q where i: "wb_batch s = P @ Q" "us = F @ wb_batch s @ wb_updateQueue s"
    "wb_db s = put_users (F @ P) (wb_db s0)" "wb_worker s = Running \<longrightarrow> P = []"
    "wb_worker s = Finished \<longrightarrow> Q = []" unfolding wb_inv_def by blast
  have f: "wb_batch s' = wb_batch s" "wb_updateQueue s' = wb_updateQueue s @ [u]"
    "wb_db s' = wb_db s" "wb_worker s' = wb_worker s"
    using accepted.hyps(2) by (auto simp: writebehind_UpdateUser_def Let_def split: if_splits)
  show ?case by (rule wb_invI [of _ P Q _ F]) (use i f in simp_all)
next
  case (refused us s now u e s')
  then have "wb_inv (wb_db s0) us s" by simp
  moreover have "s' = s\<lparr>wb_cache := cset (wb_cache s) now (wb_keyPrefix s @ us_ID u) (UserVal (Some u)) (wb_ttl s)\<rparr>"
    using refused.hyps(2) by (auto simp: writebehind_UpdateUser_def Let_def split: if_splits)
  ultimately show ?case by simp
next
  case (worker us s s')
  then show ?case by (blast intro: inv_step)
qed


lemma wb_inv_start: "wb_inv (wb_db s0) [] s0" if "s0 = writebehind_New cache db kp ttl qs bs"
  unfolding that by (rule wb_invI [of _ "[]" "[]" _ "[]"]) (simp_all add: writebehind_New_def)



definition wit_user :: User where "wit_user = \<lparr>us_ID = ''1'', us_Name = ''Ann''\<rparr>"

definition wit_db :: SQLiteDB where "wit_db = \<lparr>db_users = Map.empty, db_logs = Map.empty\<rparr>"

definition wit_wb0 :: "cval InMemoryCache Strategy" where
  "wit_wb0 = writebehind_New (NewInMemoryCache 0) wit_db ''user:'' 60 5 1"

definition wit_wb1 :: "cval InMemoryCache Strategy" where
  "wit_wb1 = snd (writebehind_UpdateUser InMemoryCache_Set 0 wit_user wit_wb0)"

definition wit_wb2 :: "cval InMemoryCache Strategy" where
  "wit_wb2 = worker_take (wb_cancelled wit_wb1) no_faults wit_user (wit_wb1\<lparr>wb_updateQueue := []\<rparr>)"

lemmas wit_wb_defs = wit_wb2_def wit_wb1_def wit_wb0_def writebehind_UpdateUser_def writebehind_New_def
  worker_take_def flushBatchToDB_def Let_def DB_BulkUpdateUsers_def no_faults_def put_user_def

lemma wit_wb_reach: "wb_reach InMemoryCache_Set wit_wb0 [wit_user] wit_wb2"
proof -
  have w0: "wb_reach InMemoryCache_Set wit_wb0 [] wit_wb0" by (rule wb_reach.start)
  have "writebehind_UpdateUser InMemoryCache_Set 0 wit_user wit_wb0 = (None, wit_wb1)"
    by (simp add: wit_wb1_def wit_wb0_def writebehind_UpdateUser_def writebehind_New_def Let_def)
  from wb_reach.accepted [OF w0 this] have w1: "wb_reach InMemoryCache_Set wit_wb0 [wit_user] wit_wb1" by simp
  have q: "wb_worker wit_wb1 = Running" "wb_updateQueue wit_wb1 = [wit_user]" "\<not> wb_cancelled wit_wb1"
    by (simp_all add: wit_wb1_def wit_wb0_def writebehind_UpdateUser_def writebehind_New_def Let_def)
  have "wb_step no_faults wit_wb1 wit_wb2"
    unfolding wit_wb2_def by (rule wb_step.receive [OF q(1) q(2)])
  from wb_reach.worker [OF w1 this] q(3) show ?thesis by blast
qed


text \<open>
  An accepted update can be lost on shutdown: when the worker has been cancelled but its
  \<^verbatim>\<open>select\<close> takes the update that fills the batch first, the flush runs under the cancelled context,
  fails, and the whole batch is dropped, although the store reports no error of its own.
\<close>

theorem writebehind_stop_loses_batch:
  assumes "wb_worker s = Running" and "wb_cancelled s" and "wb_updateQueue s = u # q"
    and "Suc (length (wb_batch s)) \<ge> wb_batchSize s"
  shows "wb_step no_faults s (s\<lparr>wb_updateQueue := q, wb_batch := []\<rparr>)"
proof -
  have "worker_take (wb_cancelled s) no_faults u (s\<lparr>wb_updateQueue := q\<rparr>) = s\<lparr>wb_updateQueue := q, wb_batch := []\<rparr>"
    using assms by (simp add: worker_take_def flushBatchToDB_def DB_BulkUpdateUsers_def Let_def)
  with wb_step.receive [OF assms(1) assms(3), of no_faults] show ?thesis by simp
qed

lemma writebehind_stop_loses_batch_witness:
  "wb_step no_faults (wit_wb1\<lparr>wb_cancelled := True\<rparr>)
     ((wit_wb1\<lparr>wb_cancelled := True\<rparr>)\<lparr>wb_updateQueue := [], wb_batch := []\<rparr>)"
  by (rule writebehind_stop_loses_batch [of _ wit_user]) (simp_all add: wit_wb_defs)


section \<open>Cache-aside with write-through\<close>

text \<open>What a user key should answer: the row of the store.\<close>

definition user_src :: "string \<Rightarrow> SQLiteDB \<Rightarrow> string \<Rightarrow> cval option" where
  "user_src kp db k =
     (if prefix kp k
      then map_option (\<lambda>n. UserVal (Some \<lparr>us_ID = drop (length kp) k, us_Name = n\<rparr>)) (db_users db (drop (length kp) k))
      else None)"

definition db_lookup :: "SQLiteDB \<Rightarrow> string \<Rightarrow> User option" where
  "db_lookup db uid = map_option (\<lambda>n. \<lparr>us_ID = uid, us_Name = n\<rparr>) (db_users db uid)"

lemma user_src_key: "user_src kp db (kp @ uid) = map_option (\<lambda>u. UserVal (Some u)) (db_lookup db uid)"
  by (simp add: user_src_def db_lookup_def option.map_comp comp_def)

lemma user_src_put: "user_src kp (put_user u db) = (user_src kp db)(kp @ us_ID u := Some (UserVal (Some u)))"
proof
  fix k
  show "user_src kp (put_user u db) k = ((user_src kp db)(kp @ us_ID u := Some (UserVal (Some u)))) k"
    by (cases "prefix kp k") (auto simp: user_src_def put_user_def prefix_def)
qed

text \<open>
  A read or a write of a user, with what the store's driver reports for it.  A run gives for every
  read its answer and what the store holds at that time.
\<close>

datatype user_op = ReadUser string "string option" | WriteUser User "string option"

fun user_run :: "string \<Rightarrow> int \<Rightarrow> cval InMemoryCache \<Rightarrow> SQLiteDB \<Rightarrow> (int \<times> user_op) list
    \<Rightarrow> ((string + User option) \<times> User option) list" where
  "user_run kp ttl c db [] = []"
| "user_run kp ttl c db ((now, ReadUser uid err) # ops) =
     (let (r, c') = cacheaside_GetUser (InMemoryCache_Get id) InMemoryCache_Set InMemoryCache_Delete
                      (DB_GetUser err db) kp ttl now uid c
      in (r, db_lookup db uid) # user_run kp ttl c' db ops)"
| "user_run kp ttl c db ((now, WriteUser u err) # ops) =
     (let (_, db', c') = writethrough_UpdateUser InMemoryCache_Set (DB_UpdateUser err db) kp ttl now u c
      in user_run kp ttl c' db' ops)"

lemma cacheaside_step:
  assumes coh: "mem.coherent (user_src kp db) c now"
    and r: "cacheaside_GetUser (InMemoryCache_Get id) InMemoryCache_Set InMemoryCache_Delete
       (DB_GetUser err db) kp ttl now uid c = (res, c')"
  shows "mem.coherent (user_src kp db) c' now \<and> (\<forall>u. res = Inr u \<longrightarrow> u = db_lookup db uid)"
proof -
  obtain cv c1 where g: "InMemoryCache_Get id c now (kp @ uid) = (cv, c1)" by (cases "InMemoryCache_Get id c now (kp @ uid)")
  from mem.coherent_get [OF coh, of "kp @ uid"] g have coh1: "mem.coherent (user_src kp db) c1 now" by simp
  have hit: "cv = Some v \<Longrightarrow> user_src kp db (kp @ uid) = Some v" for v
    using mem.coherent_hit [OF coh, of "kp @ uid" v] g by simp
  show ?thesis
  proof (cases cv)
    case (Some v)
    from hit [OF Some] obtain u where u: "v = UserVal (Some u)" "db_lookup db uid = Some u"
      by (auto simp: user_src_key)
    with r g Some coh1 show ?thesis by (auto simp: cacheaside_GetUser_def)
  next
    case None
    have fill: "db_lookup db uid = Some u \<Longrightarrow>
        mem.coherent (user_src kp db) (InMemoryCache_Set c1 now (kp @ uid) (UserVal (Some u)) ttl) now" for u
      by (rule mem.coherent_fill [OF coh1]) (simp add: user_src_key)
    from r g None coh1 show ?thesis
      by (cases err; cases "db_lookup db uid")
        (auto simp: cacheaside_GetUser_def DB_GetUser_def db_lookup_def [symmetric] intro: fill)
  qed
qed

lemma writethrough_step:
  assumes coh: "mem.coherent (user_src kp db) c now"
    and r: "writethrough_UpdateUser InMemoryCache_Set (DB_UpdateUser err db) kp ttl now u c = (e, db', c')"
  shows "mem.coherent (user_src kp db') c' now"
  using r mem.coherent_set [OF coh, of "kp @ us_ID u" "UserVal (Some u)" ttl] coh
  by (cases err) (auto simp: writethrough_UpdateUser_def DB_UpdateUser_def user_src_put)

lemma user_run_coherent:
  "mem.coherent (user_src kp db) c t \<Longrightarrow> sorted (t # map fst ops) \<Longrightarrow>
   (Inr r, actual) \<in> set (user_run kp ttl c db ops) \<Longrightarrow> r = actual"
proof (induction ops arbitrary: c db t)
  case (Cons op ops)
  obtain now q where op: "op = (now, q)" by (cases op)
  from Cons.prems(2) op have now: "t \<le> now" "sorted (now # map fst ops)" by auto
  have coh: "mem.coherent (user_src kp db) c now" by (rule mem.coherent_later [OF Cons.prems(1) now(1)])
  show ?case
  proof (cases q)
    case (ReadUser uid err)
    obtain res c' where s: "cacheaside_GetUser (InMemoryCache_Get id) InMemoryCache_Set InMemoryCache_Delete
       (DB_GetUser err db) kp ttl now uid c = (res, c')" by (meson surj_pair)
    note st = cacheaside_step [OF coh s]
    from Cons.prems(3) consider "Inr r = res" "actual = db_lookup db uid"
      | "(Inr r, actual) \<in> set (user_run kp ttl c' db ops)" by (auto simp: op ReadUser s)
    then show ?thesis
    proof cases
      case 1
      with st show ?thesis by auto
    next
      case 2
      with st Cons.IH now(2) show ?thesis by blast
    qed
  next
    case (WriteUser u err)
    obtain e db' c' where s: "writethrough_UpdateUser InMemoryCache_Set (DB_UpdateUser err db) kp ttl now u c
        = (e, db', c')" by (meson prod_cases3)
    from Cons.prems(3) have "(Inr r, actual) \<in> set (user_run kp ttl c' db' ops)" by (simp add: op WriteUser s)
    with Cons.IH [OF writethrough_step [OF coh s] now(2)] show ?thesis by blast
  qed
qed simp




section \<open>Read-through\<close>

text \<open>
  Read-through over the user loader caches the absence of a user: the typed nil pointer of the
  loader is not a nil interface, so it is stored, and every read within its time to live answers that
  nil without asking the store again, whatever the store then holds.
\<close>

theorem readthrough_caches_nil:
  assumes "db_users db uid = None" and "mem_view c now (kp @ uid) = None"
  shows "\<exists>c'. readthrough_Get (InMemoryCache_Get id) InMemoryCache_Set
        (NewUserLoader (DB_GetUser None db) kp) ttl now (kp @ uid) c = Inr (Inr (Some (UserVal None)), c')
    \<and> (now \<le> t \<and> t \<le> now + ttl \<longrightarrow> (\<exists>c''. readthrough_Get (InMemoryCache_Get id) InMemoryCache_Set
        loader' ttl t (kp @ uid) c' = Inr (Inr (Some (UserVal None)), c'')))"
proof -
  let ?k = "kp @ uid"
  obtain cv c1 where g: "InMemoryCache_Get id c now ?k = (cv, c1)" by (cases "InMemoryCache_Get id c now ?k")
  with assms(2) mem.get_value [of c now ?k] have cv: "cv = None" by simp
  have ld: "NewUserLoader (DB_GetUser None db) kp ?k = Inr (Inr (Some (UserVal None)))"
    using assms(1) by (simp add: NewUserLoader_def DB_GetUser_def slice_range_def)
  let ?c' = "InMemoryCache_Set c1 now ?k (UserVal None) ttl"
  have "t \<le> now + ttl \<Longrightarrow> fst (InMemoryCache_Get id ?c' t ?k) = Some (UserVal None)"
    by (simp add: mem.get_value mem.set_view)
  then have "t \<le> now + ttl \<Longrightarrow> \<exists>c''. readthrough_Get (InMemoryCache_Get id) InMemoryCache_Set
        loader' ttl t ?k ?c' = Inr (Inr (Some (UserVal None)), c'')"
    by (cases "InMemoryCache_Get id ?c' t ?k") (simp add: readthrough_Get_def)
  then show ?thesis
    by (intro exI [of _ ?c']) (simp add: readthrough_Get_def g cv ld)
qed

lemma readthrough_caches_nil_witness:
  "\<exists>c'. readthrough_Get (InMemoryCache_Get id) InMemoryCache_Set
        (NewUserLoader (DB_GetUser None wit_db) ''user:'') 60 0 ''user:7'' (NewInMemoryCache 0)
      = Inr (Inr (Some (UserVal None)), c')
    \<and> (\<exists>c''. readthrough_Get (InMemoryCache_Get id) InMemoryCache_Set
        (NewUserLoader (DB_GetUser None (put_user \<lparr>us_ID = ''7'', us_Name = ''Bo''\<rparr> wit_db)) ''user:'') 60 5
        ''user:7'' c' = Inr (Inr (Some (UserVal None)), c''))"
  using readthrough_caches_nil [of wit_db "''7''" "NewInMemoryCache 0" 0 "''user:''" 60 5
      "NewUserLoader (DB_GetUser None (put_user \<lparr>us_ID = ''7'', us_Name = ''Bo''\<rparr> wit_db)) ''user:''"]
  by (simp add: wit_db_def mem_view_def NewInMemoryCache_def)

end
