(* ===== verification/CacheRace.thy ===== *)
theory CacheRace
  imports CacheStrategy
begin

text \<open>
  Cache-aside reads and write-through updates of users by concurrent goroutines over one in-memory cache and
  one store (\<^verbatim>\<open>go_cache_strategy/strategy/cacheaside\<close> and \<^verbatim>\<open>writethrough\<close>): every access to the cache or the
  store is a step of its own, so reads and updates overlap, and the time goes on between the steps.
\<close>

section \<open>Goroutines\<close>

text \<open>
  Where a goroutine is: with the item it read under the lock of \<^verbatim>\<open>Get\<close>, after a miss, with the user it
  fetched at a time, with the user it wrote at a time.  \<open>ra_seen\<close> records for the properties what the users
  in the store were at which time, \<open>ra_answers\<close> the answers of the reads and \<open>ra_late\<close> how long an operation
  may take between its access to the store and its write to the cache.
\<close>

datatype task = Idle | Looked string "cval cacheItem option" | Missed string | Fetched User int | Stored User int

record race =
  ra_now :: int
  ra_db :: SQLiteDB
  ra_cache :: "cval InMemoryCache"
  ra_tasks :: "task list"
  ra_seen :: "(int \<times> (string \<rightharpoonup> string)) list"
  ra_answers :: "(int \<times> string \<times> User option) list"

definition race_start :: "int \<Rightarrow> SQLiteDB \<Rightarrow> int \<Rightarrow> nat \<Rightarrow> race" where
  "race_start now db interval n =
     \<lparr>ra_now = now, ra_db = db, ra_cache = NewInMemoryCache interval, ra_tasks = replicate n Idle,
      ra_seen = [(now, db_users db)], ra_answers = []\<rparr>"

definition set_task :: "nat \<Rightarrow> task \<Rightarrow> race \<Rightarrow> race" where
  "set_task i t s = s\<lparr>ra_tasks := (ra_tasks s)[i := t]\<rparr>"

definition answers :: "nat \<Rightarrow> string \<Rightarrow> User option \<Rightarrow> race \<Rightarrow> race" where
  "answers i uid u s = (set_task i Idle s)\<lparr>ra_answers := ra_answers s @ [(ra_now s, uid, u)]\<rparr>"

definition at_task :: "race \<Rightarrow> nat \<Rightarrow> task \<Rightarrow> bool" where
  "at_task s i t \<longleftrightarrow> i < length (ra_tasks s) \<and> ra_tasks s ! i = t"

text \<open>The second section of \<^verbatim>\<open>Get\<close> deletes an expired item, unless it was replaced by a fresh one.\<close>

definition lazy_delete :: "int \<Rightarrow> string \<Rightarrow> cval InMemoryCache \<Rightarrow> cval InMemoryCache" where
  "lazy_delete now key c =
     (case mc_items c key of
        None \<Rightarrow> c
      | Some cur \<Rightarrow> if now > ci_expiration cur then InMemoryCache_Delete c key else c)"

fun in_time :: "int \<Rightarrow> int \<Rightarrow> task \<Rightarrow> bool" where
  "in_time late t (Fetched u t0) \<longleftrightarrow> t \<le> t0 + late"
| "in_time late t (Stored u t0) \<longleftrightarrow> t \<le> t0 + late"
| "in_time late t _ \<longleftrightarrow> True"

text \<open>
  \<open>late\<close> bounds the time between the access to the store and the write to the cache of one operation.
\<close>

inductive race_step :: "string \<Rightarrow> int \<Rightarrow> int \<Rightarrow> race \<Rightarrow> race \<Rightarrow> bool" for keyPrefix ttl late where
  passes: "0 \<le> d \<Longrightarrow> list_all (in_time late (ra_now s + d)) (ra_tasks s) \<Longrightarrow>
    race_step keyPrefix ttl late s (s\<lparr>ra_now := ra_now s + d, ra_seen := ra_seen s @ [(ra_now s + d, db_users (ra_db s))]\<rparr>)"
| looks: "at_task s i Idle \<Longrightarrow>
    race_step keyPrefix ttl late s (set_task i (Looked uid (mc_items (ra_cache s) (keyPrefix @ uid))) s)"
| misses: "at_task s i (Looked uid None) \<Longrightarrow> race_step keyPrefix ttl late s (set_task i (Missed uid) s)"
| expired: "at_task s i (Looked uid (Some item)) \<Longrightarrow> ra_now s > ci_expiration item \<Longrightarrow>
    race_step keyPrefix ttl late s (set_task i (Missed uid) (s\<lparr>ra_cache := lazy_delete (ra_now s) (keyPrefix @ uid) (ra_cache s)\<rparr>))"
| hits: "at_task s i (Looked uid (Some item)) \<Longrightarrow> ra_now s \<le> ci_expiration item \<Longrightarrow> ci_value item = UserVal u \<Longrightarrow>
    race_step keyPrefix ttl late s (answers i uid u s)"
| foreign: "at_task s i (Looked uid (Some item)) \<Longrightarrow> ra_now s \<le> ci_expiration item \<Longrightarrow> ci_value item = LogVal l \<Longrightarrow>
    race_step keyPrefix ttl late s (set_task i (Missed uid) (s\<lparr>ra_cache := InMemoryCache_Delete (ra_cache s) (keyPrefix @ uid)\<rparr>))"
| fetches: "at_task s i (Missed uid) \<Longrightarrow> DB_GetUser None (ra_db s) uid = Inr (Some u) \<Longrightarrow>
    race_step keyPrefix ttl late s (set_task i (Fetched u (ra_now s)) s)"
| absent: "at_task s i (Missed uid) \<Longrightarrow> DB_GetUser None (ra_db s) uid = Inr None \<Longrightarrow>
    race_step keyPrefix ttl late s (answers i uid None s)"
| fetch_fails: "at_task s i (Missed uid) \<Longrightarrow> race_step keyPrefix ttl late s (set_task i Idle s)"
| fills: "at_task s i (Fetched u t0) \<Longrightarrow>
    race_step keyPrefix ttl late s (answers i (us_ID u) (Some u)
      (s\<lparr>ra_cache := InMemoryCache_Set (ra_cache s) (ra_now s) (keyPrefix @ us_ID u) (UserVal (Some u)) ttl\<rparr>))"
| writes: "at_task s i Idle \<Longrightarrow> DB_UpdateUser None (ra_db s) u = (None, db') \<Longrightarrow>
    race_step keyPrefix ttl late s (set_task i (Stored u (ra_now s)) (s\<lparr>ra_db := db', ra_seen := ra_seen s @ [(ra_now s, db_users db')]\<rparr>))"
| publishes: "at_task s i (Stored u t0) \<Longrightarrow>
    race_step keyPrefix ttl late s (set_task i Idle
      (s\<lparr>ra_cache := InMemoryCache_Set (ra_cache s) (ra_now s) (keyPrefix @ us_ID u) (UserVal (Some u)) ttl\<rparr>))"
| cleans: "race_step keyPrefix ttl late s (s\<lparr>ra_cache := runCleanup_tick (ra_now s) (ra_cache s)\<rparr>)"

inductive race_reach :: "string \<Rightarrow> int \<Rightarrow> int \<Rightarrow> race \<Rightarrow> race \<Rightarrow> bool" for keyPrefix ttl late s0 where
  start: "race_reach keyPrefix ttl late s0 s0"
| step: "race_reach keyPrefix ttl late s0 s \<Longrightarrow> race_step keyPrefix ttl late s s' \<Longrightarrow> race_reach keyPrefix ttl late s0 s'"

section \<open>Invariant\<close>

text \<open>The user was in the store at a time between the two.\<close>

definition stored_between :: "race \<Rightarrow> int \<Rightarrow> int \<Rightarrow> User \<Rightarrow> bool" where
  "stored_between s since til u \<longleftrightarrow>
     (\<exists>t0 m. (t0, m) \<in> set (ra_seen s) \<and> since \<le> t0 \<and> t0 \<le> til \<and> m (us_ID u) = Some (us_Name u))"

definition was_stored :: "race \<Rightarrow> int \<Rightarrow> User \<Rightarrow> bool" where
  "was_stored s since u = stored_between s since (ra_now s) u"

definition item_ok :: "race \<Rightarrow> int \<Rightarrow> string \<Rightarrow> cval cacheItem \<Rightarrow> bool" where
  "item_ok s span uid item \<longleftrightarrow>
     (\<exists>u. ci_value item = UserVal (Some u) \<and> us_ID u = uid \<and> was_stored s (ci_expiration item - span) u)"

fun task_ok :: "race \<Rightarrow> int \<Rightarrow> int \<Rightarrow> task \<Rightarrow> bool" where
  "task_ok s span late (Looked uid (Some item)) \<longleftrightarrow> item_ok s span uid item"
| "task_ok s span late (Fetched u t0) \<longleftrightarrow> ra_now s \<le> t0 + late \<and> was_stored s t0 u"
| "task_ok s span late (Stored u t0) \<longleftrightarrow> ra_now s \<le> t0 + late \<and> was_stored s t0 u"
| "task_ok s span late _ \<longleftrightarrow> True"

definition answer_ok :: "race \<Rightarrow> int \<Rightarrow> int \<times> string \<times> User option \<Rightarrow> bool" where
  "answer_ok s span a \<longleftrightarrow>
     (case a of (t, uid, None) \<Rightarrow> True | (t, uid, Some u) \<Rightarrow> us_ID u = uid \<and> stored_between s (t - span) t u)"

definition race_inv :: "string \<Rightarrow> int \<Rightarrow> int \<Rightarrow> race \<Rightarrow> bool" where
  "race_inv keyPrefix ttl late s \<longleftrightarrow>
     (ra_now s, db_users (ra_db s)) \<in> set (ra_seen s)
   \<and> (\<forall>t\<in>set (ra_tasks s). task_ok s (late + ttl) late t)
   \<and> (\<forall>uid item. mc_items (ra_cache s) (keyPrefix @ uid) = Some item \<longrightarrow> item_ok s (late + ttl) uid item)
   \<and> (\<forall>a\<in>set (ra_answers s). answer_ok s (late + ttl) a)"

text \<open>What is recorded of the store is never forgotten.\<close>

definition grows :: "race \<Rightarrow> race \<Rightarrow> bool" where
  "grows s s' \<longleftrightarrow> set (ra_seen s) \<subseteq> set (ra_seen s') \<and> ra_now s \<le> ra_now s'"

lemma was_stored_grows: "grows s s' \<Longrightarrow> since' \<le> since \<Longrightarrow> was_stored s since u \<Longrightarrow> was_stored s' since' u"
  unfolding grows_def was_stored_def stored_between_def by (meson order_trans subsetD)

lemma was_stored_earlier: "was_stored s since u \<Longrightarrow> since' \<le> since \<Longrightarrow> was_stored s since' u"
  unfolding was_stored_def stored_between_def by (meson order_trans)

lemma item_ok_grows: "grows s s' \<Longrightarrow> item_ok s span uid item \<Longrightarrow> item_ok s' span uid item"
  unfolding item_ok_def using was_stored_grows [of s s'] by blast

lemma answer_ok_grows: "grows s s' \<Longrightarrow> answer_ok s span a \<Longrightarrow> answer_ok s' span a"
  unfolding answer_ok_def grows_def stored_between_def by (fastforce split: prod.splits option.splits)

lemma task_ok_grows: "grows s s' \<Longrightarrow> in_time late (ra_now s') t \<Longrightarrow> task_ok s span late t \<Longrightarrow> task_ok s' span late t"
  using was_stored_grows [of s s'] item_ok_grows [of s s']
  by (cases "(s, span, late, t)" rule: task_ok.cases) auto

lemma task_in_time: "task_ok s span late t \<Longrightarrow> in_time late (ra_now s) t"
  by (cases "(s, span, late, t)" rule: task_ok.cases) auto

lemma race_invI:
  assumes "race_inv kp ttl late s" and g: "grows s s'" and "(ra_now s', db_users (ra_db s')) \<in> set (ra_seen s')"
    and "\<And>t. t \<in> set (ra_tasks s') \<Longrightarrow> t \<in> set (ra_tasks s) \<and> in_time late (ra_now s') t \<or> task_ok s' (late + ttl) late t"
    and "\<And>uid item. mc_items (ra_cache s') (kp @ uid) = Some item \<Longrightarrow>
      mc_items (ra_cache s) (kp @ uid) = Some item \<or> item_ok s' (late + ttl) uid item"
    and "\<And>a. a \<in> set (ra_answers s') \<Longrightarrow> a \<in> set (ra_answers s) \<or> answer_ok s' (late + ttl) a"
  shows "race_inv kp ttl late s'"
  unfolding race_inv_def
proof (intro conjI ballI allI impI)
  show "task_ok s' (late + ttl) late t" if "t \<in> set (ra_tasks s')" for t
    using assms(1) assms(4) [OF that] task_ok_grows [OF g] by (auto simp: race_inv_def)
  show "item_ok s' (late + ttl) uid item" if "mc_items (ra_cache s') (kp @ uid) = Some item" for uid item
    using assms(1) assms(5) [OF that] item_ok_grows [OF g] by (auto simp: race_inv_def)
  show "answer_ok s' (late + ttl) a" if "a \<in> set (ra_answers s')" for a
    using assms(1) assms(6) [OF that] answer_ok_grows [OF g, of _ a] unfolding race_inv_def by blast
qed (rule assms(3))

lemma set_update_task: "t \<in> set (ts[i := t']) \<Longrightarrow> t = t' \<or> t \<in> set ts"
  using set_update_subset_insert by fast

text \<open>A step of a task that leaves the time and the store as they are.\<close>

lemma race_inv_task:
  assumes inv: "race_inv kp ttl late s" and s': "ra_now s' = ra_now s" "ra_db s' = ra_db s" "ra_seen s' = ra_seen s"
      "ra_tasks s' = (ra_tasks s)[i := t']"
    and "task_ok s (late + ttl) late t'"
    and "\<And>uid item. mc_items (ra_cache s') (kp @ uid) = Some item \<Longrightarrow>
      mc_items (ra_cache s) (kp @ uid) = Some item \<or> item_ok s (late + ttl) uid item"
    and "\<And>a. a \<in> set (ra_answers s') \<Longrightarrow> a \<in> set (ra_answers s) \<or> answer_ok s (late + ttl) a"
  shows "race_inv kp ttl late s'"
proof (rule race_invI [OF inv])
  show g: "grows s s'" by (simp add: grows_def s')
  show "(ra_now s', db_users (ra_db s')) \<in> set (ra_seen s')" using inv by (simp add: s' race_inv_def)
  show "t \<in> set (ra_tasks s) \<and> in_time late (ra_now s') t \<or> task_ok s' (late + ttl) late t" if "t \<in> set (ra_tasks s')" for t
  proof -
    from that s'(4) consider "t = t'" | "t \<in> set (ra_tasks s)" using set_update_task by metis
    then show ?thesis
    proof cases
      case 1
      then show ?thesis using task_ok_grows [OF g _ assms(6)] task_in_time [OF assms(6)] by (simp add: s')
    next
      case 2
      then show ?thesis using inv task_in_time by (auto simp: s' race_inv_def)
    qed
  qed
  show "mc_items (ra_cache s) (kp @ uid) = Some item \<or> item_ok s' (late + ttl) uid item"
    if "mc_items (ra_cache s') (kp @ uid) = Some item" for uid item
    using assms(7) [OF that] item_ok_grows [OF g] by blast
  show "a \<in> set (ra_answers s) \<or> answer_ok s' (late + ttl) a" if "a \<in> set (ra_answers s')" for a
    using assms(8) [OF that] answer_ok_grows [OF g] by blast
qed

lemma race_inv_at: "race_inv kp ttl late s \<Longrightarrow> at_task s i t \<Longrightarrow> task_ok s (late + ttl) late t"
  by (auto simp: race_inv_def at_task_def)

lemma race_inv_items: "race_inv kp ttl late s \<Longrightarrow> mc_items (ra_cache s) (kp @ uid) = Some item \<Longrightarrow> item_ok s (late + ttl) uid item"
  by (auto simp: race_inv_def)

lemma set_item_ok:
  assumes "ra_now s \<le> t0 + late" and "was_stored s t0 u" 
    and "mc_items (InMemoryCache_Set (ra_cache s) (ra_now s) (kp @ us_ID u) (UserVal (Some u)) ttl) (kp @ uid) = Some item"
  shows "mc_items (ra_cache s) (kp @ uid) = Some item \<or> item_ok s (late + ttl) uid item"
proof (cases "uid = us_ID u")
  case True
  with assms(3) have "item = \<lparr>ci_value = UserVal (Some u), ci_expiration = ra_now s + ttl\<rparr>"
    by (simp add: InMemoryCache_Set_def)
  moreover have "was_stored s (ra_now s + ttl - (late + ttl)) u"
    using assms(1) was_stored_earlier [OF assms(2)] by simp
  ultimately show ?thesis using True by (auto simp: item_ok_def)
qed (use assms(3) in \<open>simp add: InMemoryCache_Set_def\<close>)

lemma stored_now: "race_inv kp ttl late s \<Longrightarrow> db_users (ra_db s) (us_ID u) = Some (us_Name u) \<Longrightarrow> was_stored s (ra_now s) u"
  by (auto simp: race_inv_def was_stored_def stored_between_def)

lemma race_inv_step:
  assumes "0 \<le> late" and "0 \<le> ttl"
  shows "race_step kp ttl late s s' \<Longrightarrow> race_inv kp ttl late s \<Longrightarrow> race_inv kp ttl late s'"
proof (induction rule: race_step.induct)
  case (passes d s)
  show ?case
    by (rule race_invI [OF passes(3)]) (use passes in \<open>auto simp: grows_def list_all_iff\<close>)
next
  case (looks s i uid)
  have "task_ok s (late + ttl) late (Looked uid (mc_items (ra_cache s) (kp @ uid)))"
    using race_inv_items [OF looks(2), of uid] by (cases "mc_items (ra_cache s) (kp @ uid)") auto
  then show ?case by (intro race_inv_task [OF looks(2)]) (simp_all add: set_task_def)
next
  case (misses s i uid)
  show ?case by (rule race_inv_task [OF misses(2), of _ i "Missed uid"]) (simp_all add: set_task_def)
next
  case (expired s i uid item)
  show ?case
    by (rule race_inv_task [OF expired(3), of _ i "Missed uid"])
      (auto simp: set_task_def lazy_delete_def InMemoryCache_Delete_def split: option.splits if_splits)
next
  case (hits s i uid item u)
  from race_inv_at [OF hits(4,1)] hits(3) obtain v where
    v: "u = Some v" "us_ID v = uid" "was_stored s (ci_expiration item - (late + ttl)) v" by (auto simp: item_ok_def)
  have "was_stored s (ra_now s - (late + ttl)) v"
    using was_stored_earlier [OF v(3)] hits(2) by simp
  with v show ?case
    by (intro race_inv_task [OF hits(4), of _ i Idle]) (auto simp: answers_def set_task_def answer_ok_def was_stored_def)
next
  case (foreign s i uid item l)
  show ?case
    by (rule race_inv_task [OF foreign(4), of _ i "Missed uid"])
      (auto simp: set_task_def InMemoryCache_Delete_def split: if_splits)
next
  case (fetches s i uid u)
  then have "db_users (ra_db s) (us_ID u) = Some (us_Name u)" by (auto simp: DB_GetUser_def)
  from stored_now [OF fetches(3) this] assms
  show ?case by (intro race_inv_task [OF fetches(3), of _ i "Fetched u (ra_now s)"]) (auto simp: set_task_def)
next
  case (absent s i uid)
  show ?case
    by (rule race_inv_task [OF absent(3), of _ i Idle]) (auto simp: answers_def set_task_def answer_ok_def was_stored_def)
next
  case (fetch_fails s i uid)
  show ?case by (rule race_inv_task [OF fetch_fails(2), of _ i Idle]) (simp_all add: set_task_def)
next
  case (fills s i u t0)
  from race_inv_at [OF fills(2,1)] have t: "ra_now s \<le> t0 + late" "was_stored s t0 u" by auto
  show ?case
  proof (rule race_inv_task [OF fills(2), of _ i Idle])
    fix uid item
    assume "mc_items (ra_cache (answers i (us_ID u) (Some u)
      (s\<lparr>ra_cache := InMemoryCache_Set (ra_cache s) (ra_now s) (kp @ us_ID u) (UserVal (Some u)) ttl\<rparr>))) (kp @ uid) = Some item"
    then show "mc_items (ra_cache s) (kp @ uid) = Some item \<or> item_ok s (late + ttl) uid item"
      by (intro set_item_ok [OF t]) (simp add: answers_def set_task_def)
  next
    fix a
    assume "a \<in> set (ra_answers (answers i (us_ID u) (Some u)
      (s\<lparr>ra_cache := InMemoryCache_Set (ra_cache s) (ra_now s) (kp @ us_ID u) (UserVal (Some u)) ttl\<rparr>)))"
    moreover have "was_stored s (ra_now s - (late + ttl)) u"
      using was_stored_earlier [OF t(2)] t(1) assms(2) by simp
    ultimately show "a \<in> set (ra_answers s) \<or> answer_ok s (late + ttl) a"
      by (auto simp: answers_def set_task_def answer_ok_def was_stored_def)
  qed (simp_all add: answers_def set_task_def)
next
  case (writes s i u db')
  then have db: "db' = put_user u (ra_db s)" by (simp add: DB_UpdateUser_def)
  let ?s = "set_task i (Stored u (ra_now s)) (s\<lparr>ra_db := db', ra_seen := ra_seen s @ [(ra_now s, db_users db')]\<rparr>)"
  have "was_stored ?s (ra_now s) u"
    unfolding was_stored_def stored_between_def
    by (intro exI [of _ "ra_now s"] exI [of _ "db_users db'"]) (simp add: set_task_def db put_user_def)
  with assms have new: "task_ok ?s (late + ttl) late (Stored u (ra_now s))" by (simp add: set_task_def)
  show ?case
  proof (rule race_invI [OF writes(3)])
    fix t
    assume "t \<in> set (ra_tasks ?s)"
    then consider "t = Stored u (ra_now s)" | "t \<in> set (ra_tasks s)" using set_update_task by (fastforce simp: set_task_def)
    then show "t \<in> set (ra_tasks s) \<and> in_time late (ra_now ?s) t \<or> task_ok ?s (late + ttl) late t"
    proof cases
      case 2
      with writes(3) task_in_time [of s "late + ttl" late t] show ?thesis by (auto simp: race_inv_def set_task_def)
    qed (use new in simp)
  qed (auto simp: grows_def set_task_def)
next
  case (publishes s i u t0)
  from race_inv_at [OF publishes(2,1)] have t: "ra_now s \<le> t0 + late" "was_stored s t0 u" by auto
  show ?case
    by (rule race_inv_task [OF publishes(2), of _ i Idle]) (use set_item_ok [OF t] in \<open>auto simp: set_task_def\<close>)
next
  case (cleans s)
  show ?case
    by (rule race_invI [OF cleans])
      (use cleans task_in_time in \<open>auto simp: grows_def race_inv_def runCleanup_tick_def split: option.splits if_splits\<close>)
qed

lemma race_reach_inv:
  assumes "0 \<le> late" and "0 \<le> ttl"
  shows "race_reach kp ttl late (race_start now db interval n) s \<Longrightarrow> race_inv kp ttl late s"
proof (induction rule: race_reach.induct)
  case start
  show ?case by (simp add: race_inv_def race_start_def NewInMemoryCache_def)
next
  case (step s s')
  from race_inv_step [OF assms step(2) step(3)] show ?case .
qed

section \<open>Alone\<close>

text \<open>A goroutine that nothing disturbs does what \<^verbatim>\<open>GetUser\<close> of cache-aside does.\<close>

lemma lazy_delete_Get:
  "mc_items c key = Some item \<Longrightarrow> now > ci_expiration item \<Longrightarrow> snd (InMemoryCache_Get id c now key) = lazy_delete now key c"
  by (simp add: InMemoryCache_Get_def lazy_delete_def InMemoryCache_Delete_def)

lemma GetUser_alone:
  assumes "at_task s i Idle"
    and "cacheaside_GetUser (InMemoryCache_Get id) InMemoryCache_Set InMemoryCache_Delete (DB_GetUser None (ra_db s)) kp ttl
      (ra_now s) uid (ra_cache s) = (Inr u, c)"
  shows "(race_step kp ttl late)\<^sup>*\<^sup>* s (answers i uid u (s\<lparr>ra_cache := c\<rparr>))"
proof -
  let ?step = "race_step kp ttl late" and ?item = "mc_items (ra_cache s) (kp @ uid)"
  from assms(1) have i: "i < length (ra_tasks s)" by (simp add: at_task_def)
  have upd: "set_task i t (set_task i t' s') = set_task i t s'" for t t' s' by (simp add: set_task_def)
  have miss: "?step\<^sup>*\<^sup>* (set_task i (Missed uid) (s\<lparr>ra_cache := c1\<rparr>)) (answers i uid u (s\<lparr>ra_cache := c\<rparr>))"
    if "(case DB_GetUser None (ra_db s) uid of
           Inl err \<Rightarrow> (Inl (''failed to get user from DB: '' @ err), c1)
         | Inr None \<Rightarrow> (Inr None, c1)
         | Inr (Some v) \<Rightarrow> (Inr (Some v), InMemoryCache_Set c1 (ra_now s) (kp @ uid) (UserVal (Some v)) ttl)) = (Inr u, c)" for c1
  proof (cases "DB_GetUser None (ra_db s) uid")
    case (Inr r)
    let ?m = "set_task i (Missed uid) (s\<lparr>ra_cache := c1\<rparr>)"
    have at: "at_task ?m i (Missed uid)" using i by (simp add: at_task_def set_task_def)
    show ?thesis
    proof (cases r)
      case None
      then have "?step ?m (answers i uid None ?m)" using at Inr by (intro race_step.absent) (simp_all add: set_task_def)
      with that Inr None show ?thesis by (auto simp: answers_def set_task_def)
    next
      case (Some v)
      from Some Inr have v: "us_ID v = uid" by (auto simp: DB_GetUser_def)
      let ?f = "set_task i (Fetched v (ra_now s)) (s\<lparr>ra_cache := c1\<rparr>)"
      have "?step ?m (set_task i (Fetched v (ra_now ?m)) ?m)" using at Inr Some by (intro race_step.fetches) (simp_all add: set_task_def)
      then have "?step ?m ?f" by (simp add: set_task_def)
      moreover have "at_task ?f i (Fetched v (ra_now s))" using i by (simp add: at_task_def set_task_def)
      moreover have "u = Some v" "c = InMemoryCache_Set c1 (ra_now s) (kp @ uid) (UserVal (Some v)) ttl"
        using that Inr Some by auto
      ultimately have "?step ?m ?f" "?step ?f (answers i uid u (s\<lparr>ra_cache := c\<rparr>))"
        using race_step.fills [of ?f i v "ra_now s" kp ttl late] v by (simp_all add: answers_def set_task_def)
      then show ?thesis by (meson converse_rtranclp_into_rtranclp rtranclp.rtrancl_refl)
    qed
  qed (use that in simp)
  have look: "?step s (set_task i (Looked uid ?item) s)" by (rule race_step.looks [OF assms(1)])
  have at: "at_task (set_task i (Looked uid ?item) s) i (Looked uid ?item)" using i by (simp add: at_task_def set_task_def)
  have "?step\<^sup>*\<^sup>* (set_task i (Looked uid ?item) s) (answers i uid u (s\<lparr>ra_cache := c\<rparr>))"
  proof (cases ?item)
    case None
    with at race_step.misses [of "set_task i (Looked uid ?item) s" i uid kp ttl late]
    have "?step (set_task i (Looked uid ?item) s) (set_task i (Missed uid) (s\<lparr>ra_cache := ra_cache s\<rparr>))"
      by (simp add: upd)
    moreover note miss [of "ra_cache s"]
    ultimately show ?thesis
      using assms(2) None by (simp add: cacheaside_GetUser_def InMemoryCache_Get_def Let_def converse_rtranclp_into_rtranclp)
  next
    case (Some item)
    show ?thesis
    proof (cases "ra_now s > ci_expiration item")
      case True
      let ?c1 = "lazy_delete (ra_now s) (kp @ uid) (ra_cache s)"
      have "InMemoryCache_Get id (ra_cache s) (ra_now s) (kp @ uid) = (None, ?c1)"
        using Some True by (simp add: InMemoryCache_Get_def lazy_delete_def InMemoryCache_Delete_def Let_def)
      with assms(2) miss [of ?c1]
      have "?step\<^sup>*\<^sup>* (set_task i (Missed uid) (s\<lparr>ra_cache := ?c1\<rparr>)) (answers i uid u (s\<lparr>ra_cache := c\<rparr>))"
        by (simp add: cacheaside_GetUser_def Let_def)
      moreover have "?step (set_task i (Looked uid ?item) s) (set_task i (Missed uid) (s\<lparr>ra_cache := ?c1\<rparr>))"
        using race_step.expired [of "set_task i (Looked uid ?item) s" i uid item kp ttl late] at Some True
        by (simp add: set_task_def)
      ultimately show ?thesis by (rule converse_rtranclp_into_rtranclp [rotated])
    next
      case False
      then have get: "InMemoryCache_Get id (ra_cache s) (ra_now s) (kp @ uid) = (Some (ci_value item), ra_cache s)"
        using Some by (simp add: InMemoryCache_Get_def)
      show ?thesis
      proof (cases "ci_value item")
        case (UserVal v)
        with race_step.hits [of "set_task i (Looked uid ?item) s" i uid item v kp ttl late] at Some False
        have "?step (set_task i (Looked uid ?item) s) (answers i uid v s)"
          by (simp add: answers_def set_task_def)
        moreover from assms(2) get UserVal have "v = u" "c = ra_cache s"
          by (simp_all add: cacheaside_GetUser_def Let_def)
        moreover have "s\<lparr>ra_cache := ra_cache s\<rparr> = s" by (cases s) simp
        ultimately show ?thesis by (simp add: r_into_rtranclp)
      next
        case (LogVal l)
        let ?c1 = "InMemoryCache_Delete (ra_cache s) (kp @ uid)"
        from assms(2) get LogVal miss [of ?c1]
        have "?step\<^sup>*\<^sup>* (set_task i (Missed uid) (s\<lparr>ra_cache := ?c1\<rparr>)) (answers i uid u (s\<lparr>ra_cache := c\<rparr>))"
          by (simp add: cacheaside_GetUser_def Let_def)
        moreover have "?step (set_task i (Looked uid ?item) s) (set_task i (Missed uid) (s\<lparr>ra_cache := ?c1\<rparr>))"
          using race_step.foreign [of "set_task i (Looked uid ?item) s" i uid item l kp ttl late] at Some False LogVal
          by (simp add: set_task_def)
        ultimately show ?thesis by (rule converse_rtranclp_into_rtranclp [rotated])
      qed
    qed
  qed
  with look show ?thesis by (rule converse_rtranclp_into_rtranclp)
qed

text \<open>And one that updates does what \<^verbatim>\<open>UpdateUser\<close> of write-through does.\<close>

lemma UpdateUser_alone:
  assumes "at_task s i Idle"
    and "writethrough_UpdateUser InMemoryCache_Set (DB_UpdateUser None (ra_db s)) kp ttl (ra_now s) u (ra_cache s) = (None, db', c)"
  shows "(race_step kp ttl late)\<^sup>*\<^sup>* s
    (set_task i Idle (s\<lparr>ra_db := db', ra_seen := ra_seen s @ [(ra_now s, db_users db')], ra_cache := c\<rparr>))"
proof -
  let ?w = "set_task i (Stored u (ra_now s)) (s\<lparr>ra_db := db', ra_seen := ra_seen s @ [(ra_now s, db_users db')]\<rparr>)"
  from assms(2) have u: "DB_UpdateUser None (ra_db s) u = (None, db')"
    and c: "c = InMemoryCache_Set (ra_cache s) (ra_now s) (kp @ us_ID u) (UserVal (Some u)) ttl"
    by (auto simp: writethrough_UpdateUser_def split: prod.splits option.splits)
  have "race_step kp ttl late s ?w" by (rule race_step.writes [OF assms(1) u])
  moreover have "at_task ?w i (Stored u (ra_now s))" using assms(1) by (simp add: at_task_def set_task_def)
  from race_step.publishes [OF this, of kp ttl late]
  have "race_step kp ttl late ?w
    (set_task i Idle (s\<lparr>ra_db := db', ra_seen := ra_seen s @ [(ra_now s, db_users db')], ra_cache := c\<rparr>))"
    by (simp add: set_task_def c)
  ultimately show ?thesis by (meson converse_rtranclp_into_rtranclp rtranclp.rtrancl_refl)
qed

section \<open>Staleness\<close>

text \<open>The states of the run below: a read of user 1 that is overtaken by an update.\<close>

definition ann :: User where "ann = \<lparr>us_ID = ''1'', us_Name = ''Ann''\<rparr>"
definition bea :: User where "bea = \<lparr>us_ID = ''1'', us_Name = ''Bea''\<rparr>"

definition ann_db :: SQLiteDB where "ann_db = \<lparr>db_users = [''1'' \<mapsto> ''Ann''], db_logs = Map.empty\<rparr>"

text \<open>
  The bound is reached: a read that fetches the old user fills the cache after an update has written and
  published the new one, and the next read still answers the old user, the whole delay and expiry later.
\<close>

lemma overtaken_read_is_stale:
  assumes "0 \<le> late" and "0 \<le> ttl"
  shows "\<exists>s. race_reach kp ttl late (race_start 0 ann_db 1 2) s
           \<and> (late + ttl, ''1'', Some ann) \<in> set (ra_answers s)
           \<and> ra_seen s = [(0, db_users ann_db), (0, db_users (put_user bea ann_db)),
                          (late, db_users (put_user bea ann_db)), (late + ttl, db_users (put_user bea ann_db))]"
proof -
  let ?k = "kp @ ''1''" and ?db' = "put_user bea ann_db" and ?c0 = "NewInMemoryCache 1 :: cval InMemoryCache"
  let ?st = "\<lambda>t db c t1 t2 seen as. \<lparr>ra_now = t, ra_db = db, ra_cache = c, ra_tasks = [t1, t2], ra_seen = seen, ra_answers = as\<rparr>"
  let ?reach = "race_reach kp ttl late (race_start 0 ann_db 1 2)" and ?step = "race_step kp ttl late"
  let ?s0 = "[(0, db_users ann_db)]" and ?s1 = "[(0, db_users ann_db), (0, db_users ?db')]"
  let ?s2 = "?s1 @ [(late, db_users ?db')]" and ?s3 = "?s1 @ [(late, db_users ?db'), (late + ttl, db_users ?db')]"
  let ?c1 = "InMemoryCache_Set ?c0 0 ?k (UserVal (Some bea)) ttl"
  let ?c2 = "InMemoryCache_Set ?c1 late ?k (UserVal (Some ann)) ttl"
  let ?item = "\<lparr>ci_value = UserVal (Some ann), ci_expiration = late + ttl\<rparr>"
  note d = at_task_def set_task_def answers_def ann_def bea_def
  have "?reach (?st 0 ann_db ?c0 Idle Idle ?s0 [])"
    using race_reach.start [of kp ttl late "race_start 0 ann_db 1 2"] by (simp add: race_start_def numeral_2_eq_2)
  moreover have "?step (?st 0 ann_db ?c0 Idle Idle ?s0 []) (?st 0 ann_db ?c0 (Looked ''1'' None) Idle ?s0 [])"
    using race_step.looks [of "?st 0 ann_db ?c0 Idle Idle ?s0 []" 0 kp ttl late "''1''"] by (simp add: d NewInMemoryCache_def)
  moreover have "?step (?st 0 ann_db ?c0 (Looked ''1'' None) Idle ?s0 []) (?st 0 ann_db ?c0 (Missed ''1'') Idle ?s0 [])"
    using race_step.misses [of "?st 0 ann_db ?c0 (Looked ''1'' None) Idle ?s0 []" 0 "''1''" kp ttl late] by (simp add: d)
  moreover have "?step (?st 0 ann_db ?c0 (Missed ''1'') Idle ?s0 []) (?st 0 ann_db ?c0 (Fetched ann 0) Idle ?s0 [])"
    using race_step.fetches [of "?st 0 ann_db ?c0 (Missed ''1'') Idle ?s0 []" 0 "''1''" ann kp ttl late]
    by (simp add: d DB_GetUser_def ann_db_def)
  moreover have "?step (?st 0 ann_db ?c0 (Fetched ann 0) Idle ?s0 []) (?st 0 ?db' ?c0 (Fetched ann 0) (Stored bea 0) ?s1 [])"
    using race_step.writes [of "?st 0 ann_db ?c0 (Fetched ann 0) Idle ?s0 []" 1 bea ?db' kp ttl late]
    by (simp add: at_task_def set_task_def DB_UpdateUser_def)
  moreover have "?step (?st 0 ?db' ?c0 (Fetched ann 0) (Stored bea 0) ?s1 []) (?st 0 ?db' ?c1 (Fetched ann 0) Idle ?s1 [])"
    using race_step.publishes [of "?st 0 ?db' ?c0 (Fetched ann 0) (Stored bea 0) ?s1 []" 1 bea 0 kp ttl late]
    by (simp add: at_task_def set_task_def bea_def)
  moreover have "?step (?st 0 ?db' ?c1 (Fetched ann 0) Idle ?s1 []) (?st late ?db' ?c1 (Fetched ann 0) Idle ?s2 [])"
    using race_step.passes [of late late "?st 0 ?db' ?c1 (Fetched ann 0) Idle ?s1 []" kp ttl] assms by simp
  moreover have "?step (?st late ?db' ?c1 (Fetched ann 0) Idle ?s2 []) (?st late ?db' ?c2 Idle Idle ?s2 [(late, ''1'', Some ann)])"
    using race_step.fills [of "?st late ?db' ?c1 (Fetched ann 0) Idle ?s2 []" 0 ann 0 kp ttl late] by (simp add: d)
  moreover have "?step (?st late ?db' ?c2 Idle Idle ?s2 [(late, ''1'', Some ann)])
      (?st (late + ttl) ?db' ?c2 Idle Idle ?s3 [(late, ''1'', Some ann)])"
    using race_step.passes [of ttl late "?st late ?db' ?c2 Idle Idle ?s2 [(late, ''1'', Some ann)]" kp ttl] assms by simp
  moreover have "?step (?st (late + ttl) ?db' ?c2 Idle Idle ?s3 [(late, ''1'', Some ann)])
      (?st (late + ttl) ?db' ?c2 Idle (Looked ''1'' (Some ?item)) ?s3 [(late, ''1'', Some ann)])"
    using race_step.looks [of "?st (late + ttl) ?db' ?c2 Idle Idle ?s3 [(late, ''1'', Some ann)]" 1 kp ttl late "''1''"]
    by (simp add: d InMemoryCache_Set_def)
  moreover have "?step (?st (late + ttl) ?db' ?c2 Idle (Looked ''1'' (Some ?item)) ?s3 [(late, ''1'', Some ann)])
      (?st (late + ttl) ?db' ?c2 Idle Idle ?s3 [(late, ''1'', Some ann), (late + ttl, ''1'', Some ann)])"
    using race_step.hits [of "?st (late + ttl) ?db' ?c2 Idle (Looked ''1'' (Some ?item)) ?s3 [(late, ''1'', Some ann)]" 1
      "''1''" ?item "Some ann" kp ttl late] by (simp add: d)
  ultimately have "?reach (?st (late + ttl) ?db' ?c2 Idle Idle ?s3 [(late, ''1'', Some ann), (late + ttl, ''1'', Some ann)])"
    by (meson race_reach.step)
  then show ?thesis
    by (intro exI [of _ "?st (late + ttl) ?db' ?c2 Idle Idle ?s3 [(late, ''1'', Some ann), (late + ttl, ''1'', Some ann)]"]) simp
qed

text \<open>
  C10. Concurrent reads and updates: whatever a cache-aside read answers at a time was in the store at some
  time no more than the expiry plus the delay of one operation before.
\<close>

theorem bounded_staleness:
  assumes "race_reach kp ttl late (race_start now db interval n) s" and "0 \<le> late" and "0 \<le> ttl"
    and "(t, uid, Some u) \<in> set (ra_answers s)"
  shows "us_ID u = uid \<and> (\<exists>t0 m. (t0, m) \<in> set (ra_seen s) \<and> t - (late + ttl) \<le> t0 \<and> t0 \<le> t \<and> m uid = Some (us_Name u))"
proof -
  from race_reach_inv [OF assms(2,3,1)] assms(4) have "answer_ok s (late + ttl) (t, uid, Some u)"
    by (auto simp: race_inv_def)
  then show ?thesis by (auto simp: answer_ok_def stored_between_def)
qed

lemma bounded_staleness_witness:
  "\<exists>s. race_reach [] 2 1 (race_start 0 ann_db 1 2) s \<and> (3, ''1'', Some ann) \<in> set (ra_answers s)
     \<and> (\<exists>t0 m. (t0, m) \<in> set (ra_seen s) \<and> 0 \<le> t0 \<and> t0 \<le> 3 \<and> m ''1'' = Some ''Ann'')"
proof -
  obtain s where s: "race_reach [] 2 1 (race_start 0 ann_db 1 2) s" "(3, ''1'', Some ann) \<in> set (ra_answers s)"
    using overtaken_read_is_stale [of 1 2 "[]"] by auto
  from bounded_staleness [OF s(1) _ _ s(2)] s show ?thesis by (auto simp: ann_def)
qed

end
