(* ===== verification/CacheDemo.thy ===== *)
theory CacheDemo
  imports CacheStrategy
begin

text \<open>
  The program \<^verbatim>\<open>go_cache_strategy/main.go\<close>: one cache and one store under all the strategies at once, with the
  worker of write-behind and the cleanup of the cache running beside the main goroutine.  Its statements are
  the calls of the strategies in the order of \<^verbatim>\<open>main\<close>; the texts it prints are left out, what it prints of each
  result is kept.  The store reports no errors.
\<close>

section \<open>The program\<close>

definition userCacheKeyPrefix :: string where "userCacheKeyPrefix = ''user:''"
definition userCacheTTL :: int where "userCacheTTL = 5 * 10 ^ 9"
definition logCacheKeyPrefix :: string where "logCacheKeyPrefix = ''log:''"
definition logCacheTTL :: int where "logCacheTTL = 3600 * 10 ^ 9"
definition DefaultInterval :: int where "DefaultInterval = 2 * 10 ^ 9"

datatype stmt =
    InsertUser User
  | AsideGet string
  | ThroughGet string
  | ThroughUpdate User
  | BehindUpdate User
  | DbGet string
  | AroundWrite LogEntry
  | AroundGet string
  | Sleep int

datatype printed = UserOut "string + User option" | ErrOut "string option" | LogOut "string + LogEntry option"

definition demo_user :: "string \<Rightarrow> string \<Rightarrow> User" where "demo_user i n = \<lparr>us_ID = i, us_Name = n\<rparr>"

definition demo_log :: "int \<Rightarrow> LogEntry" where
  "demo_log stamp = \<lparr>le_Timestamp = stamp, le_Level = ''INFO'', le_Message = ''WA Log 1'', le_ID = ''log_wa1''\<rparr>"

definition initialUsers :: "User list" where
  "initialUsers = [demo_user ''u1'' ''Alice'', demo_user ''u2'' ''Bob'', demo_user ''u_wt'' ''WriteThrough Init'',
     demo_user ''u_wb'' ''WriteBehind Init'']"

definition usersWB :: "User list" where
  "usersWB = [demo_user ''u_wb'' ''User WB Updated!'', demo_user ''u_wb_new1'' ''New WB 1'',
     demo_user ''u_wb_new2'' ''New WB 2'', demo_user ''u_wb_new3'' ''New WB 3'', demo_user ''u_wb_new4'' ''New WB 4'',
     demo_user ''u_wb_new5'' ''New WB 5'', demo_user ''u_wb_new6'' ''New WB 6'']"

text \<open>The log entry holds the time at which it is made.\<close>

definition demo_main :: "int \<Rightarrow> stmt list" where
  "demo_main stamp = map InsertUser initialUsers
     @ [Sleep (50 * 10 ^ 6), AsideGet ''u1'', AsideGet ''u1'', Sleep (userCacheTTL + 500 * 10 ^ 6), AsideGet ''u1'',
        ThroughGet ''u2'', ThroughGet ''u2'',
        ThroughUpdate (demo_user ''u_wt'' ''User WT Updated!''), AsideGet ''u_wt'']
     @ map BehindUpdate usersWB
     @ [AsideGet ''u_wb'', AsideGet ''u_wb_new1'', Sleep (DefaultInterval * 2 + 500 * 10 ^ 6),
        DbGet ''u_wb'', DbGet ''u_wb_new6'',
        AroundWrite (demo_log stamp), AroundGet ''log_wa1'', AroundGet ''log_wa1'']"

text \<open>
  One statement at a time \<open>now\<close>.  The cache and the store are those of the write-behind strategy.  What
  read-through answers is asserted to be a user, so another value panics.
\<close>

type_synonym shop = "cval InMemoryCache Strategy"

fun demo_exec :: "int \<Rightarrow> stmt \<Rightarrow> shop \<Rightarrow> (printed list \<times> shop) go" where
  "demo_exec now (InsertUser u) s = Inr ([], s\<lparr>wb_db := snd (DB_UpdateUser None (wb_db s) u)\<rparr>)"
| "demo_exec now (AsideGet uid) s =
     (let (r, c) = cacheaside_GetUser (InMemoryCache_Get id) InMemoryCache_Set InMemoryCache_Delete
                     (DB_GetUser None (wb_db s)) userCacheKeyPrefix userCacheTTL now uid (wb_cache s)
      in Inr ([UserOut r], s\<lparr>wb_cache := c\<rparr>))"
| "demo_exec now (ThroughGet uid) s =
     bnd (readthrough_Get (InMemoryCache_Get id) InMemoryCache_Set
            (NewUserLoader (DB_GetUser None (wb_db s)) userCacheKeyPrefix) userCacheTTL now (userCacheKeyPrefix @ uid) (wb_cache s))
       (\<lambda>(r, c). case r of
          Inr (Some (UserVal u)) \<Rightarrow> Inr ([UserOut (Inr u)], s\<lparr>wb_cache := c\<rparr>)
        | _ \<Rightarrow> Inl (PanicMsg ''interface conversion''))"
| "demo_exec now (ThroughUpdate u) s =
     (let (e, db, c) = writethrough_UpdateUser InMemoryCache_Set (DB_UpdateUser None (wb_db s)) userCacheKeyPrefix
                         userCacheTTL now u (wb_cache s)
      in Inr ([ErrOut e], s\<lparr>wb_db := db, wb_cache := c\<rparr>))"
| "demo_exec now (BehindUpdate u) s =
     (let (e, s') = writebehind_UpdateUser InMemoryCache_Set now u s
      in Inr (if e = None then [] else [ErrOut e], s'))"
| "demo_exec now (DbGet uid) s = Inr ([UserOut (DB_GetUser None (wb_db s) uid)], s)"
| "demo_exec now (AroundWrite l) s =
     (let (e, db) = writearound_WriteLog (DB_InsertLogEntry None (wb_db s)) l
      in Inr ([ErrOut e], s\<lparr>wb_db := db\<rparr>))"
| "demo_exec now (AroundGet lid) s =
     (let (r, c) = writearound_GetLog (InMemoryCache_Get id) InMemoryCache_Set InMemoryCache_Delete
                     (DB_GetLogByID None (wb_db s)) logCacheKeyPrefix logCacheTTL now lid (wb_cache s)
      in Inr ([LogOut r], s\<lparr>wb_cache := c\<rparr>))"
| "demo_exec now (Sleep d) s = Inr ([], s)"

section \<open>The run\<close>

record demo =
  dm_now :: int
  dm_shop :: shop
  dm_rest :: "stmt list"
  dm_out :: "printed list"

definition demo_start :: "int \<Rightarrow> SQLiteDB \<Rightarrow> stmt list \<Rightarrow> demo" where
  "demo_start now db prog =
     \<lparr>dm_now = now,
      dm_shop = writebehind_New (NewInMemoryCache (10 * 10 ^ 9)) db userCacheKeyPrefix userCacheTTL 0 0,
      dm_rest = prog, dm_out = []\<rparr>"

text \<open>\<^verbatim>\<open>main\<close> removes the file of the store first, and ends when the store cannot be opened.\<close>

definition demo_open :: "int \<Rightarrow> string option \<Rightarrow> string option \<Rightarrow> string option \<Rightarrow> string option \<Rightarrow> int \<Rightarrow> string + demo" where
  "demo_open now openErr pingErr usersErr logsErr stamp =
     map_sum id (\<lambda>db. demo_start now db (demo_main stamp))
       (NewSQLiteDB \<lparr>db_users = Map.empty, db_logs = Map.empty\<rparr> openErr pingErr usersErr logsErr)"

text \<open>The worker has written all it was given.\<close>

definition settled :: "shop \<Rightarrow> bool" where
  "settled s \<longleftrightarrow> wb_updateQueue s = [] \<and> wb_batch s = []"

text \<open>
  A statement takes at most \<open>late\<close>.  In two intervals the ticker fires twice, so whoever sleeps that long
  finds that the worker has written all it was given.  Worker and cleanup run at any time between.
\<close>

inductive demo_step :: "int \<Rightarrow> demo \<Rightarrow> demo \<Rightarrow> bool" for late where
  runs: "dm_rest s = c # rest \<Longrightarrow> \<forall>d. c \<noteq> Sleep d \<Longrightarrow> 0 \<le> e \<Longrightarrow> e \<le> late \<Longrightarrow>
    demo_exec (dm_now s + e) c (dm_shop s) = Inr (out, w) \<Longrightarrow>
    demo_step late s \<lparr>dm_now = dm_now s + e, dm_shop = w, dm_rest = rest, dm_out = dm_out s @ out\<rparr>"
| sleeps: "dm_rest s = Sleep d # rest \<Longrightarrow> 0 \<le> e \<Longrightarrow> d \<le> e \<Longrightarrow> (2 * DefaultInterval \<le> d \<longrightarrow> settled (dm_shop s)) \<Longrightarrow>
    demo_step late s (s\<lparr>dm_now := dm_now s + e, dm_rest := rest\<rparr>)"
| works: "wb_step no_faults (dm_shop s) w \<Longrightarrow> \<not> wb_cancelled w \<Longrightarrow> demo_step late s (s\<lparr>dm_shop := w\<rparr>)"
| cleans: "demo_step late s (s\<lparr>dm_shop := (dm_shop s)\<lparr>wb_cache := runCleanup_tick (dm_now s) (wb_cache (dm_shop s))\<rparr>\<rparr>)"

inductive demo_reach :: "int \<Rightarrow> demo \<Rightarrow> demo \<Rightarrow> bool" for late s0 where
  start: "demo_reach late s0 s0"
| step: "demo_reach late s0 s \<Longrightarrow> demo_step late s s' \<Longrightarrow> demo_reach late s0 s'"

section \<open>A plain store\<close>

text \<open>What the statements print over a store without a cache, whose updates are written at once.\<close>

fun plain :: "stmt \<Rightarrow> SQLiteDB \<Rightarrow> printed list \<times> SQLiteDB" where
  "plain (InsertUser u) db = ([], put_user u db)"
| "plain (AsideGet uid) db = ([UserOut (Inr (db_lookup db uid))], db)"
| "plain (ThroughGet uid) db = ([UserOut (Inr (db_lookup db uid))], db)"
| "plain (ThroughUpdate u) db = ([ErrOut None], put_user u db)"
| "plain (BehindUpdate u) db = ([], put_user u db)"
| "plain (DbGet uid) db = ([UserOut (Inr (db_lookup db uid))], db)"
| "plain (AroundWrite l) db = (let (e, db') = writearound_WriteLog (DB_InsertLogEntry None db) l in ([ErrOut e], db'))"
| "plain (AroundGet lid) db = ([LogOut (Inr (db_logs db lid))], db)"
| "plain (Sleep d) db = ([], db)"

fun plain_run :: "stmt list \<Rightarrow> SQLiteDB \<Rightarrow> printed list" where
  "plain_run [] db = []"
| "plain_run (c # cs) db = fst (plain c db) @ plain_run cs (snd (plain c db))"

text \<open>
  Which programs may take the caches for a plain store.  \<open>b\<close> says of the users that may wait for the worker
  how long the cache surely still answers them, \<open>n\<close> how many may wait, \<open>K\<close> which users surely exist and
  \<open>C\<close> which may be cached: no one is written to the store past the cache or past the worker, read when it may be neither
  cached nor written, or read through a loader when it may be missing.
\<close>

definition older :: "int \<Rightarrow> (string \<rightharpoonup> int) \<Rightarrow> string \<rightharpoonup> int" where
  "older late b = (\<lambda>u. map_option (\<lambda>r. r - late) (b u))"

definition answered :: "int \<Rightarrow> (string \<rightharpoonup> int) \<Rightarrow> string \<Rightarrow> bool" where
  "answered late b uid \<longleftrightarrow> (case b uid of None \<Rightarrow> True | Some r \<Rightarrow> late \<le> r)"

fun well_timed :: "int \<Rightarrow> (string \<rightharpoonup> int) \<Rightarrow> nat \<Rightarrow> string list \<Rightarrow> string list \<Rightarrow> stmt list \<Rightarrow> bool" where
  "well_timed late b n K C [] \<longleftrightarrow> True"
| "well_timed late b n K C (InsertUser u # cs) \<longleftrightarrow>
     b (us_ID u) = None \<and> us_ID u \<notin> set C \<and> well_timed late (older late b) n (us_ID u # K) C cs"
| "well_timed late b n K C (AsideGet uid # cs) \<longleftrightarrow>
     answered late b uid \<and> well_timed late (older late b) n K (uid # C) cs"
| "well_timed late b n K C (ThroughGet uid # cs) \<longleftrightarrow>
     uid \<in> set K \<and> answered late b uid \<and> well_timed late (older late b) n K (uid # C) cs"
| "well_timed late b n K C (ThroughUpdate u # cs) \<longleftrightarrow>
     b (us_ID u) = None \<and> well_timed late (older late b) n (us_ID u # K) (us_ID u # C) cs"
| "well_timed late b n K C (BehindUpdate u # cs) \<longleftrightarrow>
     int n < defaultQueueSize
     \<and> well_timed late ((older late b)(us_ID u \<mapsto> userCacheTTL)) (Suc n) (us_ID u # K) (us_ID u # C) cs"
| "well_timed late b n K C (DbGet uid # cs) \<longleftrightarrow> b uid = None \<and> well_timed late (older late b) n K C cs"
| "well_timed late b n K C (AroundWrite l # cs) \<longleftrightarrow> well_timed late (older late b) n K C cs"
| "well_timed late b n K C (AroundGet lid # cs) \<longleftrightarrow> well_timed late (older late b) n K C cs"
| "well_timed late b n K C (Sleep d # cs) \<longleftrightarrow>
     (if 2 * DefaultInterval \<le> d then well_timed late Map.empty 0 K C cs
      else well_timed late (\<lambda>u. map_option (\<lambda>r. -1) (b u)) n K C cs)"

section \<open>Lemmas on the parts\<close>

lemma mem_view_earlier: "mem_view c t k \<noteq> None \<Longrightarrow> t' \<le> t \<Longrightarrow> mem_view c t' k \<noteq> None"
  by (auto simp: mem_view_def split: option.splits if_splits)

lemma lookup_put_users: "uid \<notin> us_ID ` set us \<Longrightarrow> db_users (put_users us db) uid = db_users db uid"
  by (induction us arbitrary: db) (auto simp: put_user_def)

lemma put_users_dom: "db_users db uid \<noteq> None \<Longrightarrow> db_users (put_users us db) uid \<noteq> None"
  by (induction us arbitrary: db) (auto simp: put_user_def)

lemma put_users_logs [simp]: "db_logs (put_users us db) = db_logs db"
  by (induction us arbitrary: db) (auto simp: put_user_def)

lemma put_user_set_logs: "put_user u (db\<lparr>db_logs := m\<rparr>) = (put_user u db)\<lparr>db_logs := m\<rparr>"
  by (simp add: put_user_def)

lemma put_users_set_logs [simp]: "put_users us (db\<lparr>db_logs := m\<rparr>) = (put_users us db)\<lparr>db_logs := m\<rparr>"
  by (induction us arbitrary: db) (simp_all add: put_user_set_logs)

lemma put_user_commute: "us_ID u \<noteq> us_ID v \<Longrightarrow> put_user u (put_user v db) = put_user v (put_user u db)"
  by (simp add: put_user_def fun_upd_twist)

lemma put_users_commute: "us_ID u \<notin> us_ID ` set us \<Longrightarrow> put_users us (put_user u db) = put_user u (put_users us db)"
proof (induction us arbitrary: db)
  case (Cons v us)
  then have "us_ID v \<noteq> us_ID u" by auto
  then have "put_users (v # us) (put_user u db) = put_users us (put_user u (put_user v db))"
    using put_user_commute [of v u db] by simp
  with Cons show ?case by simp
qed simp

abbreviation ukey :: "string \<Rightarrow> string" where "ukey uid \<equiv> userCacheKeyPrefix @ uid"
abbreviation lkey :: "string \<Rightarrow> string" where "lkey lid \<equiv> logCacheKeyPrefix @ lid"

text \<open>What the cache may answer for a key: the latest user, or the log entry.\<close>

definition latest :: "SQLiteDB \<Rightarrow> string \<Rightarrow> cval option" where
  "latest db k =
     (if prefix userCacheKeyPrefix k then map_option (\<lambda>u. UserVal (Some u)) (db_lookup db (drop (length userCacheKeyPrefix) k))
      else if prefix logCacheKeyPrefix k then map_option (\<lambda>l. LogVal (Some l)) (db_logs db (drop (length logCacheKeyPrefix) k))
      else None)"

lemma latest_user [simp]: "latest db (ukey uid) = map_option (\<lambda>u. UserVal (Some u)) (db_lookup db uid)"
  by (simp add: latest_def)

lemma latest_log [simp]: "latest db (lkey lid) = map_option (\<lambda>l. LogVal (Some l)) (db_logs db lid)"
  by (simp add: latest_def userCacheKeyPrefix_def logCacheKeyPrefix_def)

lemma latest_put: "latest (put_user u db) = (latest db)(ukey (us_ID u) := Some (UserVal (Some u)))"
  by (rule ext) (auto simp: latest_def put_user_def db_lookup_def prefix_def)

lemma keys_differ [simp]: "ukey uid \<noteq> lkey lid" "lkey lid \<noteq> ukey uid"
  by (simp_all add: userCacheKeyPrefix_def logCacheKeyPrefix_def)

lemma latest_log_new: "db_logs db (le_ID l) = None \<Longrightarrow> latest db k = Some v \<Longrightarrow>
  latest (db\<lparr>db_logs := (db_logs db)(le_ID l \<mapsto> l)\<rparr>) k = Some v"
  by (auto simp: latest_def db_lookup_def split: if_splits)

section \<open>Invariant\<close>

text \<open>
  What the users that wait for the worker leave in the store is the plain store \<open>L\<close>; the cache answers
  nothing else than \<open>L\<close>, and still answers those who wait.
\<close>

definition shop_ok :: "shop \<Rightarrow> bool" where
  "shop_ok w \<longleftrightarrow> wb_worker w = Running \<and> \<not> wb_cancelled w \<and> wb_keyPrefix w = userCacheKeyPrefix
     \<and> wb_ttl w = userCacheTTL \<and> wb_queueSize w = nat defaultQueueSize"

definition still_answered :: "(string \<rightharpoonup> int) \<Rightarrow> int \<Rightarrow> cval InMemoryCache \<Rightarrow> User list \<Rightarrow> bool" where
  "still_answered b t c us \<longleftrightarrow>
     (\<forall>u\<in>set us. \<exists>r. b (us_ID u) = Some r \<and> (0 \<le> r \<longrightarrow> mem_view c (t + r) (ukey (us_ID u)) \<noteq> None))"

definition uncached :: "string list \<Rightarrow> int \<Rightarrow> cval InMemoryCache \<Rightarrow> bool" where
  "uncached C t c \<longleftrightarrow> (\<forall>uid t'. t \<le> t' \<longrightarrow> uid \<notin> set C \<longrightarrow> mem_view c t' (ukey uid) = None)"

definition demo_inv :: "(string \<rightharpoonup> int) \<Rightarrow> nat \<Rightarrow> string list \<Rightarrow> string list \<Rightarrow> SQLiteDB \<Rightarrow> int \<Rightarrow> shop \<Rightarrow> bool" where
  "demo_inv b n K C L t w \<longleftrightarrow>
     shop_ok w \<and> length (wb_updateQueue w) \<le> n \<and> put_users (wb_batch w @ wb_updateQueue w) (wb_db w) = L
   \<and> still_answered b t (wb_cache w) (wb_batch w @ wb_updateQueue w)
   \<and> mem.coherent (latest L) (wb_cache w) t \<and> uncached C t (wb_cache w)
   \<and> (\<forall>uid\<in>set K. db_users L uid \<noteq> None)"

lemma still_answeredE:
  assumes "still_answered b t c us" and "u \<in> set us"
  obtains r where "b (us_ID u) = Some r" and "0 \<le> r \<Longrightarrow> mem_view c (t + r) (ukey (us_ID u)) \<noteq> None"
  using assms unfolding still_answered_def by blast

lemma still_answered_append:
  "still_answered b t c (us @ vs) \<longleftrightarrow> still_answered b t c us \<and> still_answered b t c vs"
  by (auto simp: still_answered_def)

lemma still_answered_Nil [simp]: "still_answered b t c []"
  by (simp add: still_answered_def)

text \<open>A user who is not cached is in the store as in the plain one.\<close>

lemma demo_inv_db:
  assumes "demo_inv b n K C L t w" and "answered late b uid" and "0 \<le> e" and "e \<le> late"
    and "mem_view (wb_cache w) (t + e) (ukey uid) = None"
  shows "db_lookup (wb_db w) uid = db_lookup L uid"
proof -
  have sa: "still_answered b t (wb_cache w) (wb_batch w @ wb_updateQueue w)"
    and L: "L = put_users (wb_batch w @ wb_updateQueue w) (wb_db w)" using assms(1) by (simp_all add: demo_inv_def)
  have "uid \<notin> us_ID ` set (wb_batch w @ wb_updateQueue w)"
  proof
    assume "uid \<in> us_ID ` set (wb_batch w @ wb_updateQueue w)"
    then obtain u where u: "u \<in> set (wb_batch w @ wb_updateQueue w)" "uid = us_ID u" by blast
    from still_answeredE [OF sa u(1)] obtain r where
      r: "b uid = Some r" "0 \<le> r \<Longrightarrow> mem_view (wb_cache w) (t + r) (ukey uid) \<noteq> None" unfolding u(2) by blast
    from assms(2) r(1) have "late \<le> r" by (simp add: answered_def)
    with assms(3,4) have "0 \<le> r" "t + e \<le> t + r" by simp_all
    with mem_view_earlier [OF r(2)] assms(5) show False by blast
  qed
  from lookup_put_users [OF this, of "wb_db w"] show ?thesis by (simp add: L db_lookup_def)
qed

text \<open>Later, with a cache that answers at least what this one does.\<close>

lemma still_answered_later:
  assumes sa: "still_answered b t c us" and e: "0 \<le> e" "e \<le> late"
    and keeps: "\<And>t' k. t + e \<le> t' \<Longrightarrow> mem_view c t' k \<noteq> None \<Longrightarrow> mem_view c' t' k \<noteq> None"
  shows "still_answered (older late b) (t + e) c' us"
  unfolding still_answered_def
proof
  fix u
  assume "u \<in> set us"
  from still_answeredE [OF sa this] obtain r where r: "b (us_ID u) = Some r"
    "0 \<le> r \<Longrightarrow> mem_view c (t + r) (ukey (us_ID u)) \<noteq> None" by blast
  show "\<exists>r. older late b (us_ID u) = Some r \<and> (0 \<le> r \<longrightarrow> mem_view c' (t + e + r) (ukey (us_ID u)) \<noteq> None)"
  proof (intro exI [of _ "r - late"] conjI impI)
    assume "0 \<le> r - late"
    with e have "mem_view c (t + r) (ukey (us_ID u)) \<noteq> None" by (intro r(2)) simp
    from mem_view_earlier [OF this, of "t + e + (r - late)"] e \<open>0 \<le> r - late\<close>
    show "mem_view c' (t + e + (r - late)) (ukey (us_ID u)) \<noteq> None" by (intro keeps) simp_all
  qed (simp add: older_def r)
qed

text \<open>A statement that leaves the store and the queue as they are.\<close>

lemma demo_inv_cache:
  assumes inv: "demo_inv b n K C L t w" and e: "0 \<le> e" "e \<le> late"
    and coh: "mem.coherent (latest L) c (t + e)"
    and keeps: "\<And>t' k. t + e \<le> t' \<Longrightarrow> mem_view (wb_cache w) t' k \<noteq> None \<Longrightarrow> mem_view c t' k \<noteq> None"
    and "uncached C' (t + e) c"
  shows "demo_inv (older late b) n K C' L (t + e) (w\<lparr>wb_cache := c\<rparr>)"
proof -
  from inv have "still_answered b t (wb_cache w) (wb_batch w @ wb_updateQueue w)" by (simp add: demo_inv_def)
  from still_answered_later [OF this e keeps] assms show ?thesis by (simp add: demo_inv_def shop_ok_def)
qed

lemma DB_GetUser_lookup [simp]: "DB_GetUser None db uid = Inr (db_lookup db uid)"
  by (simp add: DB_GetUser_def db_lookup_def)

lemma uncachedI:
  "(\<And>uid t'. t \<le> t' \<Longrightarrow> uid \<notin> set C \<Longrightarrow> mem_view c t' (ukey uid) = None) \<Longrightarrow> uncached C t c"
  by (simp add: uncached_def)

lemma uncachedD: "uncached C t c \<Longrightarrow> t \<le> t' \<Longrightarrow> uid \<notin> set C \<Longrightarrow> mem_view c t' (ukey uid) = None"
  by (simp add: uncached_def)

text \<open>Reading the cache, and filling it with what the plain store holds.\<close>

lemma demo_inv_get:
  assumes inv: "demo_inv b n K C L t w" and e: "0 \<le> e" "e \<le> late" and C: "set C \<subseteq> set C'"
  shows "demo_inv (older late b) n K C' L (t + e) (w\<lparr>wb_cache := snd (InMemoryCache_Get id (wb_cache w) (t + e) k)\<rparr>)"
proof (rule demo_inv_cache [OF inv e])
  from inv have "mem.coherent (latest L) (wb_cache w) t" and un: "uncached C t (wb_cache w)" by (simp_all add: demo_inv_def)
  from mem.coherent_later [OF this(1), of "t + e"] e
  show "mem.coherent (latest L) (snd (InMemoryCache_Get id (wb_cache w) (t + e) k)) (t + e)" by (intro mem.coherent_get) simp
  show "uncached C' (t + e) (snd (InMemoryCache_Get id (wb_cache w) (t + e) k))"
    using e C by (intro uncachedI) (simp add: mem.get_view, rule uncachedD [OF un], auto)
qed (simp add: mem.get_view)

lemma demo_inv_fill:
  assumes inv: "demo_inv b n K C L t w" and e: "0 \<le> e" "e \<le> late" and C: "set C \<subseteq> set C'" "\<And>uid. k = ukey uid \<Longrightarrow> uid \<in> set C'"
    and none: "mem_view (wb_cache w) (t + e) k = None" and v: "latest L k = Some v"
  shows "demo_inv (older late b) n K C' L (t + e)
    (w\<lparr>wb_cache := InMemoryCache_Set (snd (InMemoryCache_Get id (wb_cache w) (t + e) k)) (t + e) k v ttl\<rparr>)"
proof (rule demo_inv_cache [OF inv e])
  from inv have "mem.coherent (latest L) (wb_cache w) t" and un: "uncached C t (wb_cache w)" by (simp_all add: demo_inv_def)
  from mem.coherent_later [OF this(1), of "t + e"] e
  show "mem.coherent (latest L) (InMemoryCache_Set (snd (InMemoryCache_Get id (wb_cache w) (t + e) k)) (t + e) k v ttl) (t + e)"
    by (intro mem.coherent_fill mem.coherent_get v) simp
  show "uncached C' (t + e) (InMemoryCache_Set (snd (InMemoryCache_Get id (wb_cache w) (t + e) k)) (t + e) k v ttl)"
    using e C by (intro uncachedI) (auto simp: mem.get_view mem.set_view intro!: uncachedD [OF un])
  show "mem_view (InMemoryCache_Set (snd (InMemoryCache_Get id (wb_cache w) (t + e) k)) (t + e) k v ttl) t' k' \<noteq> None"
    if "t + e \<le> t'" and "mem_view (wb_cache w) t' k' \<noteq> None" for t' k'
  proof -
    from mem_view_earlier [OF that(2,1)] none have "k' \<noteq> k" by auto
    with that show ?thesis by (simp add: mem.get_view mem.set_view)
  qed
qed

lemma demo_inv_hit:
  assumes inv: "demo_inv b n K C L t w" and e: "0 \<le> e" and v: "mem_view (wb_cache w) (t + e) k = Some v"
  shows "latest L k = Some v"
proof -
  from inv have "mem.coherent (latest L) (wb_cache w) t" by (simp add: demo_inv_def)
  with e v show ?thesis unfolding mem.coherent_def by (metis le_add_same_cancel1)
qed

text \<open>Time that goes by.\<close>

lemma demo_inv_time:
  assumes inv: "demo_inv b n K C L t w" and e: "0 \<le> e" "e \<le> late"
  shows "demo_inv (older late b) n K C L (t + e) w"
proof -
  have "demo_inv (older late b) n K C L (t + e) (w\<lparr>wb_cache := wb_cache w\<rparr>)"
  proof (rule demo_inv_cache [OF inv e])
    from inv have "mem.coherent (latest L) (wb_cache w) t" by (simp add: demo_inv_def)
    from mem.coherent_later [OF this, of "t + e"] e show "mem.coherent (latest L) (wb_cache w) (t + e)" by simp
    from inv e show "uncached C (t + e) (wb_cache w)" by (auto simp: demo_inv_def uncached_def)
  qed
  then show ?thesis by simp
qed

section \<open>Statements\<close>

text \<open>Every statement prints what it prints over the plain store, and keeps the invariant.\<close>

definition runs_plain :: "int \<Rightarrow> int \<Rightarrow> int \<Rightarrow> SQLiteDB \<Rightarrow> shop \<Rightarrow> stmt \<Rightarrow> (string \<rightharpoonup> int) \<Rightarrow> nat \<Rightarrow> string list \<Rightarrow> string list \<Rightarrow> bool" where
  "runs_plain late t e L w c b n K C \<longleftrightarrow>
     (\<exists>w'. demo_exec (t + e) c w = Inr (fst (plain c L), w') \<and> demo_inv b n K C (snd (plain c L)) (t + e) w')"

text \<open>The strategies by what the cache answers.\<close>

lemma aside_hit:
  "mem_view c now (kp @ uid) = Some (UserVal u) \<Longrightarrow>
   cacheaside_GetUser (InMemoryCache_Get id) InMemoryCache_Set InMemoryCache_Delete dbGet kp ttl now uid c
     = (Inr u, snd (InMemoryCache_Get id c now (kp @ uid)))"
  using mem.get_value [of c now "kp @ uid"]
  by (cases "InMemoryCache_Get id c now (kp @ uid)") (simp add: cacheaside_GetUser_def)

lemma aside_miss:
  "mem_view c now (kp @ uid) = None \<Longrightarrow> dbGet uid = Inr r \<Longrightarrow>
   cacheaside_GetUser (InMemoryCache_Get id) InMemoryCache_Set InMemoryCache_Delete dbGet kp ttl now uid c
     = (Inr r, let c' = snd (InMemoryCache_Get id c now (kp @ uid)) in
        case r of None \<Rightarrow> c' | Some u \<Rightarrow> InMemoryCache_Set c' now (kp @ uid) (UserVal (Some u)) ttl)"
  using mem.get_value [of c now "kp @ uid"]
  by (cases "InMemoryCache_Get id c now (kp @ uid)") (simp add: cacheaside_GetUser_def split: option.split)

lemma through_hit:
  "mem_view c now k = Some v \<Longrightarrow>
   readthrough_Get (InMemoryCache_Get id) InMemoryCache_Set ld ttl now k c = Inr (Inr (Some v), snd (InMemoryCache_Get id c now k))"
  using mem.get_value [of c now k] by (cases "InMemoryCache_Get id c now k") (simp add: readthrough_Get_def)

lemma through_fill:
  "mem_view c now k = None \<Longrightarrow> ld k = Inr (Inr (Some v)) \<Longrightarrow>
   readthrough_Get (InMemoryCache_Get id) InMemoryCache_Set ld ttl now k c
     = Inr (Inr (Some v), InMemoryCache_Set (snd (InMemoryCache_Get id c now k)) now k v ttl)"
  using mem.get_value [of c now k] by (cases "InMemoryCache_Get id c now k") (simp add: readthrough_Get_def)

lemma around_hit:
  "mem_view c now (kp @ lid) = Some (LogVal l) \<Longrightarrow>
   writearound_GetLog (InMemoryCache_Get id) InMemoryCache_Set InMemoryCache_Delete dbGet kp ttl now lid c
     = (Inr l, snd (InMemoryCache_Get id c now (kp @ lid)))"
  using mem.get_value [of c now "kp @ lid"]
  by (cases "InMemoryCache_Get id c now (kp @ lid)") (simp add: writearound_GetLog_def)

lemma around_miss:
  "mem_view c now (kp @ lid) = None \<Longrightarrow> dbGet lid = Inr r \<Longrightarrow>
   writearound_GetLog (InMemoryCache_Get id) InMemoryCache_Set InMemoryCache_Delete dbGet kp ttl now lid c
     = (Inr r, let c' = snd (InMemoryCache_Get id c now (kp @ lid)) in
        case r of None \<Rightarrow> c' | Some l \<Rightarrow> InMemoryCache_Set c' now (kp @ lid) (LogVal (Some l)) ttl)"
  using mem.get_value [of c now "kp @ lid"]
  by (cases "InMemoryCache_Get id c now (kp @ lid)") (simp add: writearound_GetLog_def split: option.split)

lemma exec_AsideGet:
  assumes inv: "demo_inv b n K C L t w" and e: "0 \<le> e" "e \<le> late" and a: "answered late b uid"
  shows "runs_plain late t e L w (AsideGet uid) (older late b) n K (uid # C)"
proof (cases "mem_view (wb_cache w) (t + e) (ukey uid)")
  case (Some v)
  from demo_inv_hit [OF inv e(1) Some] obtain u where u: "db_lookup L uid = Some u" "v = UserVal (Some u)" by auto
  from demo_inv_get [OF inv e, of "uid # C" "ukey uid"] u(1) show ?thesis
    by (simp add: runs_plain_def aside_hit [OF Some [unfolded u(2)]] subset_insertI)
next
  case None
  have "DB_GetUser None (wb_db w) uid = Inr (db_lookup L uid)" using demo_inv_db [OF inv a e None] by simp
  note miss = aside_miss [where dbGet = "DB_GetUser None (wb_db w)", OF None this]
  show ?thesis
  proof (cases "db_lookup L uid")
    case None
    from demo_inv_get [OF inv e, of "uid # C" "ukey uid"] None show ?thesis
      by (simp add: runs_plain_def miss subset_insertI Let_def)
  next
    case (Some u)
    from demo_inv_fill [OF inv e, of "uid # C" "ukey uid" "UserVal (Some u)" userCacheTTL] Some None show ?thesis
      by (simp add: runs_plain_def miss subset_insertI Let_def)
  qed
qed

lemma exec_ThroughGet:
  assumes inv: "demo_inv b n K C L t w" and e: "0 \<le> e" "e \<le> late" and a: "answered late b uid" and K: "uid \<in> set K"
  shows "runs_plain late t e L w (ThroughGet uid) (older late b) n K (uid # C)"
proof (cases "mem_view (wb_cache w) (t + e) (ukey uid)")
  case (Some v)
  from demo_inv_hit [OF inv e(1) Some] obtain u where u: "db_lookup L uid = Some u" "v = UserVal (Some u)" by auto
  from demo_inv_get [OF inv e, of "uid # C" "ukey uid"] u show ?thesis
    by (simp add: runs_plain_def through_hit [OF Some] subset_insertI)
next
  case None
  from K inv have "db_users L uid \<noteq> None" by (auto simp: demo_inv_def)
  then obtain u where u: "db_lookup L uid = Some u" by (auto simp: db_lookup_def)
  have "NewUserLoader (DB_GetUser None (wb_db w)) userCacheKeyPrefix (ukey uid) = Inr (Inr (Some (UserVal (Some u))))"
    by (simp add: NewUserLoader_def slice_range_def demo_inv_db [OF inv a e None] u)
  from through_fill [where ld = "NewUserLoader (DB_GetUser None (wb_db w)) userCacheKeyPrefix", OF None this] demo_inv_fill [OF inv e, of "uid # C" "ukey uid" "UserVal (Some u)" userCacheTTL] None u
  show ?thesis by (simp add: runs_plain_def subset_insertI)
qed

lemma exec_AroundGet:
  assumes inv: "demo_inv b n K C L t w" and e: "0 \<le> e" "e \<le> late"
  shows "runs_plain late t e L w (AroundGet lid) (older late b) n K C"
proof (cases "mem_view (wb_cache w) (t + e) (lkey lid)")
  case (Some v)
  from demo_inv_hit [OF inv e(1) Some] obtain l where l: "db_logs L lid = Some l" "v = LogVal (Some l)" by auto
  from demo_inv_get [OF inv e, of C "lkey lid"] l(1) show ?thesis
    by (simp add: runs_plain_def around_hit [OF Some [unfolded l(2)]])
next
  case None
  have "DB_GetLogByID None (wb_db w) lid = Inr (db_logs L lid)" using inv by (auto simp: demo_inv_def DB_GetLogByID_def)
  note miss = around_miss [where dbGet = "DB_GetLogByID None (wb_db w)", OF None this]
  show ?thesis
  proof (cases "db_logs L lid")
    case None
    from demo_inv_get [OF inv e, of C "lkey lid"] None show ?thesis by (simp add: runs_plain_def miss Let_def)
  next
    case (Some l)
    from demo_inv_fill [OF inv e, of C "lkey lid" "LogVal (Some l)" logCacheTTL] Some None show ?thesis
      by (simp add: runs_plain_def miss Let_def)
  qed
qed

text \<open>A write that the worker has nothing to do with.\<close>

lemma not_waiting:
  assumes "still_answered b t c us" and "b uid = None"
  shows "uid \<notin> us_ID ` set us"
proof
  assume "uid \<in> us_ID ` set us"
  then obtain u where "u \<in> set us" "uid = us_ID u" by blast
  with assms show False by (auto elim: still_answeredE)
qed

lemma known_put: "\<forall>uid\<in>set K. db_users L uid \<noteq> None \<Longrightarrow> \<forall>uid\<in>set (us_ID u # K). db_users (put_user u L) uid \<noteq> None"
  by (simp add: put_user_def)

lemma demo_inv_put:
  assumes inv: "demo_inv b n K C L t w" and "b (us_ID u) = None"
    and "mem.coherent (latest (put_user u L)) (wb_cache w) t"
  shows "demo_inv b n (us_ID u # K) C (put_user u L) t (w\<lparr>wb_db := put_user u (wb_db w)\<rparr>)"
proof -
  from inv have sa: "still_answered b t (wb_cache w) (wb_batch w @ wb_updateQueue w)"
    and L: "L = put_users (wb_batch w @ wb_updateQueue w) (wb_db w)" by (simp_all add: demo_inv_def)
  from put_users_commute [OF not_waiting [OF sa assms(2)], of "wb_db w"]
  have "put_users (wb_batch w @ wb_updateQueue w) (put_user u (wb_db w)) = put_user u L" by (simp add: L)
  moreover from inv have "\<forall>uid\<in>set (us_ID u # K). db_users (put_user u L) uid \<noteq> None"
    unfolding demo_inv_def by (intro known_put) blast
  ultimately show ?thesis using inv assms(3) by (simp add: demo_inv_def shop_ok_def)
qed

lemma exec_InsertUser:
  assumes inv: "demo_inv b n K C L t w" and e: "0 \<le> e" "e \<le> late" and u: "b (us_ID u) = None" "us_ID u \<notin> set C"
  shows "runs_plain late t e L w (InsertUser u) (older late b) n (us_ID u # K) C"
proof -
  note inv' = demo_inv_time [OF inv e]
  from u(1) have "older late b (us_ID u) = None" by (simp add: older_def)
  moreover have "mem.coherent (latest (put_user u L)) (wb_cache w) (t + e)"
    unfolding mem.coherent_def
  proof (intro allI impI)
    fix t' k v
    assume t': "t + e \<le> t'" and v: "mem_view (wb_cache w) t' k = Some v"
    from inv' have "uncached C (t + e) (wb_cache w)" and coh: "mem.coherent (latest L) (wb_cache w) (t + e)"
      by (simp_all add: demo_inv_def)
    from uncachedD [OF this(1) t' u(2)] v have "k \<noteq> ukey (us_ID u)" by auto
    with coh t' v show "latest (put_user u L) k = Some v" by (simp add: latest_put mem.coherent_def)
  qed
  ultimately have "demo_inv (older late b) n (us_ID u # K) C (put_user u L) (t + e) (w\<lparr>wb_db := put_user u (wb_db w)\<rparr>)"
    by (rule demo_inv_put [OF inv'])
  then show ?thesis by (simp add: runs_plain_def DB_UpdateUser_def)
qed

text \<open>Setting a user in the cache together with the plain store.\<close>

lemma set_keeps:
  assumes "0 \<le> ttl" and "mem_view c t' k \<noteq> None" and "k' = k \<longrightarrow> t' \<le> now + ttl"
  shows "mem_view (InMemoryCache_Set c now k' v ttl) t' k \<noteq> None"
  using assms by (auto simp: mem.set_view)

lemma uncached_set:
  "uncached C t c \<Longrightarrow> uncached (uid # C) t (InMemoryCache_Set c t (ukey uid) v ttl)"
  by (intro uncachedI) (simp add: mem.set_view uncachedD)

lemma still_answered_set:
  assumes "still_answered b t c us" and "uid \<notin> us_ID ` set us"
  shows "still_answered b t (InMemoryCache_Set c t (ukey uid) v ttl) us"
  unfolding still_answered_def
proof
  fix u
  assume u: "u \<in> set us"
  from still_answeredE [OF assms(1) u] obtain r where r: "b (us_ID u) = Some r"
    "0 \<le> r \<Longrightarrow> mem_view c (t + r) (ukey (us_ID u)) \<noteq> None" by blast
  from assms(2) u have "us_ID u \<noteq> uid" by auto
  with r show "\<exists>r. b (us_ID u) = Some r \<and> (0 \<le> r \<longrightarrow> mem_view (InMemoryCache_Set c t (ukey uid) v ttl) (t + r) (ukey (us_ID u)) \<noteq> None)"
    by (intro exI [of _ r]) (simp add: mem.set_view)
qed

lemma still_answered_queue:
  assumes "still_answered b t c us"
  shows "still_answered (b(us_ID u \<mapsto> ttl)) t (InMemoryCache_Set c t (ukey (us_ID u)) v ttl) (us @ [u])"
  unfolding still_answered_def
proof
  fix x
  assume x: "x \<in> set (us @ [u])"
  show "\<exists>r. (b(us_ID u \<mapsto> ttl)) (us_ID x) = Some r
    \<and> (0 \<le> r \<longrightarrow> mem_view (InMemoryCache_Set c t (ukey (us_ID u)) v ttl) (t + r) (ukey (us_ID x)) \<noteq> None)"
  proof (cases "us_ID x = us_ID u")
    case True
    then show ?thesis by (simp add: mem.set_view)
  next
    case False
    with x have "x \<in> set us" by auto
    from still_answeredE [OF assms this] obtain r where "b (us_ID x) = Some r"
      "0 \<le> r \<Longrightarrow> mem_view c (t + r) (ukey (us_ID x)) \<noteq> None" by blast
    with False show ?thesis by (intro exI [of _ r]) (simp add: mem.set_view)
  qed
qed

lemma coherent_put:
  "mem.coherent (latest L) c t \<Longrightarrow>
   mem.coherent (latest (put_user u L)) (InMemoryCache_Set c t (ukey (us_ID u)) (UserVal (Some u)) ttl) t"
  unfolding latest_put by (rule mem.coherent_set)

lemma exec_ThroughUpdate:
  assumes inv: "demo_inv b n K C L t w" and e: "0 \<le> e" "e \<le> late" and u: "b (us_ID u) = None"
  shows "runs_plain late t e L w (ThroughUpdate u) (older late b) n (us_ID u # K) (us_ID u # C)"
proof -
  let ?c = "InMemoryCache_Set (wb_cache w) (t + e) (ukey (us_ID u)) (UserVal (Some u)) userCacheTTL"
  note inv' = demo_inv_time [OF inv e]
  from u have none: "older late b (us_ID u) = None" by (simp add: older_def)
  from inv' have sa: "still_answered (older late b) (t + e) (wb_cache w) (wb_batch w @ wb_updateQueue w)"
    and L: "L = put_users (wb_batch w @ wb_updateQueue w) (wb_db w)"
    and coh: "mem.coherent (latest L) (wb_cache w) (t + e)" and un: "uncached C (t + e) (wb_cache w)"
    and K: "\<forall>uid\<in>set K. db_users L uid \<noteq> None" by (simp_all add: demo_inv_def)
  note out = not_waiting [OF sa none]
  from put_users_commute [OF out, of "wb_db w"]
  have "put_users (wb_batch w @ wb_updateQueue w) (put_user u (wb_db w)) = put_user u L" by (simp add: L)
  with inv' still_answered_set [OF sa out] coherent_put [OF coh] uncached_set [OF un] known_put [OF K]
  have "demo_inv (older late b) n (us_ID u # K) (us_ID u # C) (put_user u L) (t + e)
      (w\<lparr>wb_db := put_user u (wb_db w), wb_cache := ?c\<rparr>)" by (simp add: demo_inv_def shop_ok_def)
  then show ?thesis by (simp add: runs_plain_def writethrough_UpdateUser_def DB_UpdateUser_def)
qed

lemma exec_BehindUpdate:
  assumes inv: "demo_inv b n K C L t w" and e: "0 \<le> e" "e \<le> late" and n: "int n < defaultQueueSize"
  shows "runs_plain late t e L w (BehindUpdate u) ((older late b)(us_ID u \<mapsto> userCacheTTL)) (Suc n) (us_ID u # K) (us_ID u # C)"
proof -
  let ?c = "InMemoryCache_Set (wb_cache w) (t + e) (ukey (us_ID u)) (UserVal (Some u)) userCacheTTL"
  note inv' = demo_inv_time [OF inv e]
  from inv' have sa: "still_answered (older late b) (t + e) (wb_cache w) (wb_batch w @ wb_updateQueue w)"
    and L: "L = put_users (wb_batch w @ wb_updateQueue w) (wb_db w)" and ok: "shop_ok w" "length (wb_updateQueue w) \<le> n"
    and coh: "mem.coherent (latest L) (wb_cache w) (t + e)" and un: "uncached C (t + e) (wb_cache w)"
    and K: "\<forall>uid\<in>set K. db_users L uid \<noteq> None" by (simp_all add: demo_inv_def)
  have "put_users (wb_batch w @ wb_updateQueue w @ [u]) (wb_db w) = put_user u L" by (simp add: L)
  with still_answered_queue [OF sa, of u userCacheTTL] coherent_put [OF coh] uncached_set [OF un] known_put [OF K] ok
  have "demo_inv ((older late b)(us_ID u \<mapsto> userCacheTTL)) (Suc n) (us_ID u # K) (us_ID u # C) (put_user u L) (t + e)
      (w\<lparr>wb_cache := ?c, wb_updateQueue := wb_updateQueue w @ [u]\<rparr>)" by (simp add: demo_inv_def shop_ok_def)
  moreover have "writebehind_UpdateUser InMemoryCache_Set (t + e) u w = (None, w\<lparr>wb_cache := ?c, wb_updateQueue := wb_updateQueue w @ [u]\<rparr>)"
    using ok n by (simp add: writebehind_UpdateUser_def shop_ok_def Let_def)
  ultimately show ?thesis by (simp add: runs_plain_def)
qed

lemma exec_DbGet:
  assumes inv: "demo_inv b n K C L t w" and e: "0 \<le> e" "e \<le> late" and u: "b uid = None"
  shows "runs_plain late t e L w (DbGet uid) (older late b) n K C"
proof -
  from inv have sa: "still_answered b t (wb_cache w) (wb_batch w @ wb_updateQueue w)"
    and L: "L = put_users (wb_batch w @ wb_updateQueue w) (wb_db w)" by (simp_all add: demo_inv_def)
  from lookup_put_users [OF not_waiting [OF sa u], of "wb_db w"] have "db_lookup (wb_db w) uid = db_lookup L uid"
    by (simp add: L db_lookup_def)
  with demo_inv_time [OF inv e] show ?thesis by (simp add: runs_plain_def)
qed

lemma exec_AroundWrite:
  assumes inv: "demo_inv b n K C L t w" and e: "0 \<le> e" "e \<le> late"
  shows "runs_plain late t e L w (AroundWrite l) (older late b) n K C"
proof -
  note inv' = demo_inv_time [OF inv e]
  from inv' have L: "L = put_users (wb_batch w @ wb_updateQueue w) (wb_db w)"
    and coh: "mem.coherent (latest L) (wb_cache w) (t + e)" by (simp_all add: demo_inv_def)
  show ?thesis
  proof (cases "db_logs L (le_ID l)")
    case None
    let ?m = "(db_logs L)(le_ID l \<mapsto> l)"
    from coh latest_log_new [OF None] have "mem.coherent (latest (L\<lparr>db_logs := ?m\<rparr>)) (wb_cache w) (t + e)"
      unfolding mem.coherent_def by blast
    with inv' have "demo_inv (older late b) n K C (L\<lparr>db_logs := ?m\<rparr>) (t + e) (w\<lparr>wb_db := (wb_db w)\<lparr>db_logs := ?m\<rparr>\<rparr>)"
      by (auto simp: demo_inv_def shop_ok_def)
    with None show ?thesis by (simp add: runs_plain_def writearound_WriteLog_def DB_InsertLogEntry_def L)
  next
    case (Some l')
    with inv' show ?thesis by (simp add: runs_plain_def writearound_WriteLog_def DB_InsertLogEntry_def L)
  qed
qed

lemma exec_statement:
  assumes inv: "demo_inv b n K C L t w" and e: "0 \<le> e" "e \<le> late" and wt: "well_timed late b n K C (c # cs)"
    and c: "\<forall>d. c \<noteq> Sleep d"
  shows "\<exists>b' n' K' C'. runs_plain late t e L w c b' n' K' C' \<and> well_timed late b' n' K' C' cs"
proof (cases c)
  case (InsertUser u)
  with wt exec_InsertUser [OF inv e, of u] show ?thesis by auto
next
  case (AsideGet uid)
  with wt exec_AsideGet [OF inv e, of uid] show ?thesis by auto
next
  case (ThroughGet uid)
  with wt exec_ThroughGet [OF inv e, of uid] show ?thesis by auto
next
  case (ThroughUpdate u)
  with wt exec_ThroughUpdate [OF inv e, of u] show ?thesis by auto
next
  case (BehindUpdate u)
  with wt exec_BehindUpdate [OF inv e, of u] show ?thesis by auto
next
  case (DbGet uid)
  with wt exec_DbGet [OF inv e, of uid] show ?thesis by auto
next
  case (AroundWrite l)
  with wt exec_AroundWrite [OF inv e, of l] show ?thesis by auto
next
  case (AroundGet lid)
  with wt exec_AroundGet [OF inv e, of lid] show ?thesis by auto
qed (use c in simp)

section \<open>Sleep, worker and cleanup\<close>

lemma still_answered_subset: "still_answered b t c us \<Longrightarrow> set vs \<subseteq> set us \<Longrightarrow> still_answered b t c vs"
  unfolding still_answered_def by blast

lemma demo_sleep_inv:
  assumes inv: "demo_inv b n K C L t w" and e: "0 \<le> e" and wt: "well_timed late b n K C (Sleep d # cs)"
    and s: "2 * DefaultInterval \<le> d \<longrightarrow> settled w"
  shows "\<exists>b' n'. demo_inv b' n' K C L (t + e) w \<and> well_timed late b' n' K C cs"
proof -
  from inv e have coh: "mem.coherent (latest L) (wb_cache w) (t + e)"
    using mem.coherent_later [of "latest L" "wb_cache w" t "t + e"] by (simp add: demo_inv_def)
  from inv e have un: "uncached C (t + e) (wb_cache w)" by (auto simp: demo_inv_def uncached_def)
  show ?thesis
  proof (cases "2 * DefaultInterval \<le> d")
    case True
    with s inv coh un have "demo_inv Map.empty 0 K C L (t + e) w" by (simp add: demo_inv_def settled_def)
    with wt True show ?thesis by auto
  next
    case False
    from inv have "still_answered b t (wb_cache w) (wb_batch w @ wb_updateQueue w)" by (simp add: demo_inv_def)
    then have "still_answered (\<lambda>u. map_option (\<lambda>r. -1) (b u)) (t + e) (wb_cache w) (wb_batch w @ wb_updateQueue w)"
      by (fastforce simp: still_answered_def)
    with inv coh un have "demo_inv (\<lambda>u. map_option (\<lambda>r. -1) (b u)) n K C L (t + e) w" by (simp add: demo_inv_def)
    with wt False show ?thesis by auto
  qed
qed

lemma demo_worker_inv:
  assumes "wb_step no_faults w w'" and "\<not> wb_cancelled w'" and inv: "demo_inv b n K C L t w"
  shows "demo_inv b n K C L t w'"
proof -
  from inv have sa: "still_answered b t (wb_cache w) (wb_batch w @ wb_updateQueue w)"
    and ok: "wb_worker w = Running" "\<not> wb_cancelled w" by (simp_all add: demo_inv_def shop_ok_def)
  from assms(1) show ?thesis
  proof cases
    case (receive u us)
    from sa receive(3) have "still_answered b t (wb_cache w) ((wb_batch w @ [u]) @ us)" "still_answered b t (wb_cache w) us"
      by (auto intro: still_answered_subset)
    with inv ok receive(1,3) show ?thesis
      by (simp add: worker_take_def flush_no_faults Let_def demo_inv_def shop_ok_def)
  next
    case tick
    from sa have "still_answered b t (wb_cache w) (wb_updateQueue w)" by (auto intro: still_answered_subset)
    with inv ok tick(1) show ?thesis by (simp add: flush_no_faults demo_inv_def shop_ok_def)
  qed (use ok assms(2) in simp_all)
qed

lemma demo_clean_inv:
  assumes inv: "demo_inv b n K C L t w"
  shows "demo_inv b n K C L t (w\<lparr>wb_cache := runCleanup_tick t (wb_cache w)\<rparr>)"
proof -
  have v: "t \<le> t' \<Longrightarrow> mem_view (runCleanup_tick t (wb_cache w)) t' k = mem_view (wb_cache w) t' k" for t' k
    by (rule tick_view)
  from inv have sa: "still_answered b t (wb_cache w) (wb_batch w @ wb_updateQueue w)"
    and coh: "mem.coherent (latest L) (wb_cache w) t" and un: "uncached C t (wb_cache w)" by (simp_all add: demo_inv_def)
  from sa have "still_answered b t (runCleanup_tick t (wb_cache w)) (wb_batch w @ wb_updateQueue w)"
    by (fastforce simp: still_answered_def v)
  moreover from coh have "mem.coherent (latest L) (runCleanup_tick t (wb_cache w)) t" by (simp add: mem.coherent_def v)
  moreover from un have "uncached C t (runCleanup_tick t (wb_cache w))" by (simp add: uncached_def v)
  ultimately show ?thesis using inv by (simp add: demo_inv_def shop_ok_def)
qed

section \<open>Runs\<close>

definition demo_ok :: "int \<Rightarrow> stmt list \<Rightarrow> SQLiteDB \<Rightarrow> demo \<Rightarrow> bool" where
  "demo_ok late prog db s \<longleftrightarrow>
     (\<exists>b n K C L. demo_inv b n K C L (dm_now s) (dm_shop s) \<and> well_timed late b n K C (dm_rest s)
        \<and> dm_out s @ plain_run (dm_rest s) L = plain_run prog db)"

lemma demo_okI:
  "demo_inv b n K C L (dm_now s) (dm_shop s) \<Longrightarrow> well_timed late b n K C (dm_rest s) \<Longrightarrow>
   dm_out s @ plain_run (dm_rest s) L = plain_run prog db \<Longrightarrow> demo_ok late prog db s"
  unfolding demo_ok_def by blast

lemma demo_step_ok:
  assumes "demo_step late s s'" and "demo_ok late prog db s"
  shows "demo_ok late prog db s'"
proof -
  from assms(2) obtain b n K C L where inv: "demo_inv b n K C L (dm_now s) (dm_shop s)"
    and wt: "well_timed late b n K C (dm_rest s)" and out: "dm_out s @ plain_run (dm_rest s) L = plain_run prog db"
    unfolding demo_ok_def by blast
  from assms(1) show ?thesis
  proof cases
    case (runs c rest e out w)
    from exec_statement [OF inv runs(4,5) wt [unfolded runs(2)] runs(3)] obtain b' n' K' C' where
      "runs_plain late (dm_now s) e L (dm_shop s) c b' n' K' C'" "well_timed late b' n' K' C' rest" by blast
    with runs(1,2,6) out show ?thesis
      by (intro demo_okI [of b' n' K' C' "snd (plain c L)"]) (auto simp: runs_plain_def)
  next
    case (sleeps d rest e)
    from demo_sleep_inv [OF inv sleeps(3) wt [unfolded sleeps(2)] sleeps(5)] obtain b' n' where
      "demo_inv b' n' K C L (dm_now s + e) (dm_shop s)" "well_timed late b' n' K C rest" by blast
    with sleeps(1,2) out show ?thesis by (intro demo_okI [of b' n' K C L]) auto
  next
    case (works w)
    from demo_worker_inv [OF works(2,3) inv] wt out works(1) show ?thesis by (intro demo_okI [of b n K C L]) simp_all
  next
    case cleans
    from demo_clean_inv [OF inv] wt out cleans show ?thesis by (intro demo_okI [of b n K C L]) simp_all
  qed
qed

lemma demo_start_inv: "demo_inv Map.empty 0 [] [] db now (dm_shop (demo_start now db prog))"
  by (simp add: demo_inv_def demo_start_def writebehind_New_def shop_ok_def mem.coherent_def uncached_def
      NewInMemoryCache_def mem_view_def)

lemma demo_reach_ok:
  "demo_reach late (demo_start now db prog) s \<Longrightarrow> well_timed late Map.empty 0 [] [] prog \<Longrightarrow> demo_ok late prog db s"
proof (induction rule: demo_reach.induct)
  case start
  with demo_start_inv [of db now prog] show ?case
    unfolding demo_ok_def by (intro exI conjI) (auto simp: demo_start_def)
next
  case (step s s')
  then show ?case using demo_step_ok by blast
qed

text \<open>The worker can always write all it was given.\<close>

lemma demo_reach_trans: "demo_reach late s1 s2 \<Longrightarrow> demo_reach late s0 s1 \<Longrightarrow> demo_reach late s0 s2"
  by (induction rule: demo_reach.induct) (auto intro: demo_reach.step)

lemma worker_settles:
  "wb_worker (dm_shop s) = Running \<Longrightarrow> \<not> wb_cancelled (dm_shop s) \<Longrightarrow>
   \<exists>w. demo_reach late s (s\<lparr>dm_shop := w\<rparr>) \<and> settled w"
proof (induction "length (wb_updateQueue (dm_shop s))" arbitrary: s)
  case 0
  then have q: "wb_updateQueue (dm_shop s) = []" by simp
  show ?case
  proof (cases "wb_batch (dm_shop s) = []")
    case True
    with q show ?thesis by (intro exI [of _ "dm_shop s"]) (simp add: settled_def demo_reach.start)
  next
    case False
    let ?w = "(flushBatchToDB (wb_cancelled (dm_shop s)) no_faults (wb_batch (dm_shop s)) (dm_shop s))\<lparr>wb_batch := []\<rparr>"
    from 0 have "\<not> wb_cancelled ?w" by (simp add: flush_no_faults)
    from demo_step.works [OF wb_step.tick [OF 0(2) False] this]
    have "demo_reach late s (s\<lparr>dm_shop := ?w\<rparr>)" by (rule demo_reach.step [OF demo_reach.start])
    moreover from 0 q have "settled ?w" by (simp add: settled_def flush_no_faults)
    ultimately show ?thesis by blast
  qed
next
  case (Suc m)
  then obtain u us where q: "wb_updateQueue (dm_shop s) = u # us" by (cases "wb_updateQueue (dm_shop s)") auto
  let ?w = "worker_take (wb_cancelled (dm_shop s)) no_faults u ((dm_shop s)\<lparr>wb_updateQueue := us\<rparr>)"
  let ?s = "s\<lparr>dm_shop := ?w\<rparr>"
  have w: "wb_updateQueue ?w = us" "wb_worker ?w = Running" "\<not> wb_cancelled ?w"
    using Suc.prems by (simp_all add: worker_take_def flush_no_faults Let_def)
  from demo_step.works [OF wb_step.receive [OF Suc.prems(1) q] w(3)]
  have "demo_reach late s ?s" by (rule demo_reach.step [OF demo_reach.start])
  moreover from Suc.hyps(1) [of ?s] Suc.hyps(2) q w obtain w' where "demo_reach late ?s (?s\<lparr>dm_shop := w'\<rparr>)" "settled w'"
    by auto
  ultimately show ?case using demo_reach_trans by fastforce
qed

text \<open>A program that is well timed never panics: it can always be run to its end.\<close>

lemma demo_finishes:
  assumes "0 \<le> late"
  shows "demo_ok late prog db s \<Longrightarrow> \<exists>s'. demo_reach late s s' \<and> dm_rest s' = []"
proof (induction "length (dm_rest s)" arbitrary: s)
  case 0
  then show ?case using demo_reach.start [of late s] by auto
next
  case (Suc m)
  then obtain c rest where r: "dm_rest s = c # rest" by (cases "dm_rest s") auto
  have "\<exists>s1. demo_reach late s s1 \<and> dm_rest s1 = rest"
  proof (cases "\<exists>d. c = Sleep d")
    case True
    then obtain d where d: "c = Sleep d" by blast
    from Suc.prems have "wb_worker (dm_shop s) = Running" "\<not> wb_cancelled (dm_shop s)"
      by (auto simp: demo_ok_def demo_inv_def shop_ok_def)
    from worker_settles [OF this, of late] obtain w where w: "demo_reach late s (s\<lparr>dm_shop := w\<rparr>)" "settled w" by blast
    have "demo_step late (s\<lparr>dm_shop := w\<rparr>)
        ((s\<lparr>dm_shop := w\<rparr>)\<lparr>dm_now := dm_now (s\<lparr>dm_shop := w\<rparr>) + max 0 d, dm_rest := rest\<rparr>)"
      by (rule demo_step.sleeps) (use r d w(2) in auto)
    from demo_reach.step [OF w(1) this] show ?thesis by fastforce
  next
    case False
    from Suc.prems r obtain b n K C L where inv: "demo_inv b n K C L (dm_now s) (dm_shop s)"
      and wt: "well_timed late b n K C (c # rest)" unfolding demo_ok_def by auto
    from exec_statement [OF inv order_refl assms wt] False obtain w where
      "demo_exec (dm_now s + 0) c (dm_shop s) = Inr (fst (plain c L), w)" by (auto simp: runs_plain_def)
    from demo_step.runs [OF r _ order_refl assms this] False
    have "demo_reach late s \<lparr>dm_now = dm_now s + 0, dm_shop = w, dm_rest = rest, dm_out = dm_out s @ fst (plain c L)\<rparr>"
      by (intro demo_reach.step [OF demo_reach.start]) blast
    then show ?thesis by fastforce
  qed
  then obtain s1 where s1: "demo_reach late s s1" "dm_rest s1 = rest" by blast
  have "demo_ok late prog db s1" using s1(1) Suc.prems
    by (induction rule: demo_reach.induct) (auto intro: demo_step_ok)
  with Suc.hyps s1(2) r obtain s' where "demo_reach late s1 s'" "dm_rest s' = []" by fastforce
  with s1(1) demo_reach_trans show ?case by blast
qed

section \<open>The caches are not seen\<close>


text \<open>The seven updates never fill a batch, so only the ticker makes the worker write them.\<close>

lemma usersWB_fill_no_batch: "int (length usersWB) < defaultBatchSize"
  by (simp add: usersWB_def defaultBatchSize_def)

text \<open>\<^verbatim>\<open>main\<close> is well timed when seven of its statements take no longer than the time to live of a user.\<close>

lemma main_well_timed:
  assumes "0 \<le> late" and "7 * late \<le> userCacheTTL"
  shows "well_timed late Map.empty 0 [] [] (demo_main stamp)"
  using assms
  by (simp add: demo_main_def initialUsers_def usersWB_def demo_user_def older_def answered_def defaultQueueSize_def
      DefaultInterval_def userCacheTTL_def)


text \<open>
  What \<^verbatim>\<open>main\<close> prints over a fresh store when seven statements take no longer than the time to live of a
  user: the users as initialised, the write-through update, the write-behind updates at once from the cache and
  after the wait from the store, and the log entry.
\<close>

theorem main_prints:
  assumes "0 \<le> late" and "7 * late \<le> userCacheTTL"
    and "demo_open now openErr pingErr usersErr logsErr stamp = Inr s0" and "demo_reach late s0 s" and "dm_rest s = []"
  shows "dm_out s = map UserOut [Inr (Some (demo_user ''u1'' ''Alice'')), Inr (Some (demo_user ''u1'' ''Alice'')),
       Inr (Some (demo_user ''u1'' ''Alice'')), Inr (Some (demo_user ''u2'' ''Bob'')), Inr (Some (demo_user ''u2'' ''Bob''))]
     @ [ErrOut None, UserOut (Inr (Some (demo_user ''u_wt'' ''User WT Updated!'')))]
     @ map UserOut [Inr (Some (demo_user ''u_wb'' ''User WB Updated!'')), Inr (Some (demo_user ''u_wb_new1'' ''New WB 1'')),
       Inr (Some (demo_user ''u_wb'' ''User WB Updated!'')), Inr (Some (demo_user ''u_wb_new6'' ''New WB 6''))]
     @ [ErrOut None, LogOut (Inr (Some (demo_log stamp))), LogOut (Inr (Some (demo_log stamp)))]"
proof -
  from assms(3) have "s0 = demo_start now \<lparr>db_users = Map.empty, db_logs = Map.empty\<rparr> (demo_main stamp)"
    by (auto simp: demo_open_def NewSQLiteDB_def split: option.splits)
  with assms(4) have "demo_ok late (demo_main stamp) \<lparr>db_users = Map.empty, db_logs = Map.empty\<rparr> s"
    using demo_reach_ok main_well_timed [OF assms(1,2)] by blast
  with assms(5) have "dm_out s = plain_run (demo_main stamp) \<lparr>db_users = Map.empty, db_logs = Map.empty\<rparr>" by (auto simp: demo_ok_def)
  then show ?thesis
    by (simp add: demo_main_def initialUsers_def usersWB_def demo_user_def demo_log_def db_lookup_def put_user_def
        writearound_WriteLog_def DB_InsertLogEntry_def)
qed

lemma main_prints_witness:
  "\<exists>s. demo_reach 1 (demo_start 0 \<lparr>db_users = Map.empty, db_logs = Map.empty\<rparr> (demo_main 0)) s
     \<and> hd (dm_out s) = UserOut (Inr (Some (demo_user ''u1'' ''Alice'')))"
proof -
  let ?s = "demo_start 0 \<lparr>db_users = Map.empty, db_logs = Map.empty\<rparr> (demo_main 0)"
  have "demo_ok 1 (demo_main 0) \<lparr>db_users = Map.empty, db_logs = Map.empty\<rparr> ?s"
    by (rule demo_reach_ok [OF demo_reach.start main_well_timed]) (simp_all add: userCacheTTL_def)
  from demo_finishes [OF _ this] obtain s where s: "demo_reach 1 ?s s" "dm_rest s = []" by auto
  have "demo_open 0 None None None None 0 = Inr ?s" by (simp add: demo_open_def NewSQLiteDB_def)
  from main_prints [OF _ _ this s] s show ?thesis by (intro exI [of _ s]) (simp add: userCacheTTL_def)
qed

end
