(* ===== verification/OrderServers.thy ===== *)
theory OrderServers
  imports Prelude Complex_Main "HOL-Library.Sublist"
begin

text \<open>
  The order management servers under \<^verbatim>\<open>gRPC\<close> (\<^verbatim>\<open>stream\<close>, \<^verbatim>\<open>cancellation\<close>, \<^verbatim>\<open>grpcprometheus\<close>,
  \<^verbatim>\<open>errorhandling\<close>, \<^verbatim>\<open>compression\<close>, \<^verbatim>\<open>multiplexing\<close>, \<^verbatim>\<open>timeout\<close>).  They share one protocol and differ in
  their guards, which are parameters of the shared loops and fixed in each server's definition.  A
  stream is what each \<^verbatim>\<open>Recv\<close> answers, with whether the context was cancelled by then; what a
  \<^verbatim>\<open>Send\<close> answers, the order in which \<^verbatim>\<open>range\<close> visits a map and the contexts are arguments.  A handler
  is modelled alone: the servers share \<^verbatim>\<open>orderMap\<close> without a lock.
\<close>

section \<open>Messages\<close>

record Order =
  or_Id :: string
  or_Items :: "string list"
  or_Description :: string
  or_Price :: rat
  or_Destination :: string

record CombinedShipment =
  cs_Id :: string
  cs_Status :: string
  cs_OrdersList :: "Order list"

type_synonym orderMap = "string \<rightharpoonup> Order"

datatype grpc_code = InvalidArgument | NotFound | DeadlineExceeded | Unauthenticated | Unknown

type_synonym status = "grpc_code \<times> string"

definition zero_order :: Order where
  "zero_order = \<lparr>or_Id = [], or_Items = [], or_Description = [], or_Price = 0, or_Destination = []\<rparr>"

text \<open>Reading a missing key of \<^verbatim>\<open>orderMap\<close> gives the zero order.\<close>

definition order_at :: "orderMap \<Rightarrow> string \<Rightarrow> Order" where
  "order_at om k = (case om k of Some ord \<Rightarrow> ord | None \<Rightarrow> zero_order)"

definition mk_order :: "string \<Rightarrow> string list \<Rightarrow> string \<Rightarrow> rat \<Rightarrow> Order" where
  "mk_order i its dest price =
     \<lparr>or_Id = i, or_Items = its, or_Description = [], or_Price = price, or_Destination = dest\<rparr>"

definition initSampleData :: orderMap where
  "initSampleData =
     [''102'' \<mapsto> mk_order ''102'' [''Google Pixel 3A'', ''Mac Book Pro''] ''Mountain View, CA'' 1800,
      ''103'' \<mapsto> mk_order ''103'' [''Apple Watch S4''] ''San Jose, CA'' 400,
      ''104'' \<mapsto> mk_order ''104'' [''Google Home Mini'', ''Google Nest Hub''] ''Mountain View, CA'' 400,
      ''105'' \<mapsto> mk_order ''105'' [''Amazon Echo''] ''San Jose, CA'' 30,
      ''106'' \<mapsto> mk_order ''106'' [''Amazon Echo'', ''Apple iPhone XS''] ''Mountain View, CA'' 300]"

definition errorhandling_initSampleData :: orderMap where
  "errorhandling_initSampleData =
     initSampleData(''106'' \<mapsto> mk_order ''106'' [''Amazon Echo'', ''Apple iPhone XS''] ''Mountain View, CA'' 30)"

section \<open>Unary calls\<close>

definition order_added :: "Order \<Rightarrow> string" where
  "order_added req = ''Order Added: '' @ or_Id req"

definition stream_AddOrder :: "Order \<Rightarrow> orderMap \<Rightarrow> (status + string) \<times> orderMap" where
  "stream_AddOrder orderReq om = (Inr (order_added orderReq), om(or_Id orderReq \<mapsto> orderReq))"

text \<open>\<open>exceeded\<close> is whether the deadline of the context has passed after the sleep.\<close>

definition timed_AddOrder :: "bool \<Rightarrow> Order \<Rightarrow> orderMap \<Rightarrow> (status + string) \<times> orderMap" where
  "timed_AddOrder exceeded orderReq om =
     (let om1 = om(or_Id orderReq \<mapsto> orderReq) in
      if exceeded then (Inl (DeadlineExceeded, ''Deadline exceeded for order '' @ or_Id orderReq), om1)
      else (Inr (order_added orderReq), om1))"

text \<open>The violation attached to the status is a value of its own; attaching may fail.\<close>

definition errorhandling_AddOrder ::
  "bool \<Rightarrow> Order \<Rightarrow> orderMap \<Rightarrow> (status \<times> (string \<times> string) option + string) \<times> orderMap" where
  "errorhandling_AddOrder withDetailsFails orderReq om =
     (if or_Id orderReq = ''-1''
      then (Inl ((InvalidArgument, ''Invalid information received''),
                 if withDetailsFails then None
                 else Some (''ID'', ''Order ID received is not valid '' @ or_Id orderReq @ '' : '' @ or_Description orderReq)),
            om)
      else (Inr (order_added orderReq), om(or_Id orderReq \<mapsto> orderReq)))"

text \<open>\<open>fmtv\<close> is how \<^verbatim>\<open>fmt\<close> prints a \<^verbatim>\<open>StringValue\<close>: the format string has no verb for it.\<close>

definition stream_GetOrder :: "(string \<Rightarrow> string) \<Rightarrow> orderMap \<Rightarrow> string \<Rightarrow> status + Order" where
  "stream_GetOrder fmtv om orderId =
     (case om orderId of
        Some ord \<Rightarrow> Inr ord
      | None \<Rightarrow> Inl (NotFound, ''Order does not exist. : %!(EXTRA *wrapperspb.StringValue='' @ fmtv orderId @ '')''))"

definition checked_GetOrder :: "orderMap \<Rightarrow> string \<Rightarrow> status + Order" where
  "checked_GetOrder om orderId =
     (case om orderId of Some ord \<Rightarrow> Inr ord | None \<Rightarrow> Inl (NotFound, ''Order does not exist. : '' @ orderId))"

definition errorhandling_GetOrder :: "orderMap \<Rightarrow> string \<Rightarrow> status + Order" where
  "errorhandling_GetOrder om orderId = Inr (order_at om orderId)"

section \<open>Streams\<close>

datatype 'a recv = RecvMsg 'a | RecvEOF | RecvErr string

text \<open>How a streaming handler ends: it still waits for \<^verbatim>\<open>Recv\<close>, returned an error or nil, or panicked.\<close>

datatype outcome = Waiting | Returned "string option" | Panicked go_panic

type_synonym 'a send_fn = "'a list \<Rightarrow> 'a \<Rightarrow> string option"

text \<open>
  Sending a list of messages; \<open>checked\<close> is whether the code looks at the error of \<^verbatim>\<open>Send\<close>.  The
  result is the error to return and what has been delivered.
\<close>

fun send_all :: "bool \<Rightarrow> 'a send_fn \<Rightarrow> 'a list \<Rightarrow> 'a list \<Rightarrow> string option \<times> 'a list" where
  "send_all checked send [] sent = (None, sent)"
| "send_all checked send (x # xs) sent =
     (case send sent x of
        None \<Rightarrow> send_all checked send xs (sent @ [x])
      | Some e \<Rightarrow> if checked then (Some e, sent) else send_all checked send xs sent)"

definition contains_str :: "string \<Rightarrow> string \<Rightarrow> bool" where
  "contains_str s sub = list_ex (prefix sub) (suffixes s)"

text \<open>The loop over the map breaks off an order's items at the first match.\<close>

definition search_hits :: "orderMap \<Rightarrow> string list \<Rightarrow> string \<Rightarrow> Order list" where
  "search_hits om keys query =
     filter (\<lambda>ord. list_ex (\<lambda>itemStr. contains_str itemStr query) (or_Items ord)) (map (order_at om) keys)"

definition stream_SearchOrders ::
  "Order send_fn \<Rightarrow> orderMap \<Rightarrow> string list \<Rightarrow> string \<Rightarrow> string option \<times> Order list" where
  "stream_SearchOrders send om keys query =
     (case send_all True send (search_hits om keys query) [] of
        (Some e, sent) \<Rightarrow> (Some (''error sending message to stream : '' @ e), sent)
      | (None, sent) \<Rightarrow> (None, sent))"

definition errorhandling_SearchOrders ::
  "Order send_fn \<Rightarrow> orderMap \<Rightarrow> string list \<Rightarrow> string \<Rightarrow> string option \<times> Order list" where
  "errorhandling_SearchOrders send om keys query =
     (None, snd (send_all False send (search_hits om keys query) []))"

text \<open>
  The loop of \<^verbatim>\<open>UpdateOrders\<close>: \<open>checked\<close> is whether an error other than the end of the stream is
  returned; without it the nil order of a failed \<^verbatim>\<open>Recv\<close> is read.  The result is the outcome, the
  closing message and the map.
\<close>

fun UpdateOrders_loop ::
  "bool \<Rightarrow> (string \<Rightarrow> string option) \<Rightarrow> Order recv list \<Rightarrow> string \<Rightarrow> orderMap
     \<Rightarrow> outcome \<times> string option \<times> orderMap" where
  "UpdateOrders_loop checked close [] ordersStr om = (Waiting, None, om)"
| "UpdateOrders_loop checked close (RecvEOF # rs) ordersStr om =
     (let reply = ''Orders processed '' @ ordersStr in (Returned (close reply), Some reply, om))"
| "UpdateOrders_loop checked close (RecvErr e # rs) ordersStr om =
     (if checked then (Returned (Some e), None, om) else (Panicked NilDereference, None, om))"
| "UpdateOrders_loop checked close (RecvMsg order # rs) ordersStr om =
     UpdateOrders_loop checked close rs (ordersStr @ or_Id order @ '', '') (om(or_Id order \<mapsto> order))"

definition stream_UpdateOrders ::
  "(string \<Rightarrow> string option) \<Rightarrow> Order recv list \<Rightarrow> orderMap \<Rightarrow> outcome \<times> string option \<times> orderMap" where
  "stream_UpdateOrders close rs om = UpdateOrders_loop True close rs ''Updated Order IDs : '' om"

definition errorhandling_UpdateOrders ::
  "(string \<Rightarrow> string option) \<Rightarrow> Order recv list \<Rightarrow> orderMap \<Rightarrow> outcome \<times> string option \<times> orderMap" where
  "errorhandling_UpdateOrders close rs om = UpdateOrders_loop False close rs ''Updated Order IDs : '' om"

section \<open>ProcessOrders\<close>

definition orderBatchSize :: int where "orderBatchSize = 3"

type_synonym shipmentMap = "(string \<times> CombinedShipment) list"

text \<open>The map of the shipments is kept in the order of the first orders; \<open>range\<close> may permute it.\<close>

fun shipment_put :: "string \<Rightarrow> CombinedShipment \<Rightarrow> shipmentMap \<Rightarrow> shipmentMap" where
  "shipment_put d s [] = [(d, s)]"
| "shipment_put d s ((d', s') # m) = (if d' = d then (d, s) # m else (d', s') # shipment_put d s m)"

definition combine_order :: "orderMap \<Rightarrow> string \<Rightarrow> shipmentMap \<Rightarrow> shipmentMap" where
  "combine_order om orderId m =
     (let ord = order_at om orderId; destination = or_Destination ord in
      case map_of m destination of
        Some shipment \<Rightarrow>
          shipment_put destination (shipment\<lparr>cs_OrdersList := cs_OrdersList shipment @ [ord]\<rparr>) m
      | None \<Rightarrow>
          shipment_put destination
            \<lparr>cs_Id = ''cmb - '' @ destination, cs_Status = ''Processed!'', cs_OrdersList = [ord]\<rparr> m)"

text \<open>
  \<open>cancelCheck\<close>: the code looks at the context after \<^verbatim>\<open>Recv\<close>; \<open>sendCheck\<close>: it looks at the error of
  \<^verbatim>\<open>Send\<close>.  Each reception comes with whether the context was cancelled by then.
\<close>

fun ProcessOrders_loop ::
  "bool \<Rightarrow> bool \<Rightarrow> (shipmentMap \<Rightarrow> shipmentMap) \<Rightarrow> CombinedShipment send_fn \<Rightarrow> orderMap
     \<Rightarrow> (bool \<times> string recv) list \<Rightarrow> int \<Rightarrow> shipmentMap \<Rightarrow> CombinedShipment list
     \<Rightarrow> outcome \<times> CombinedShipment list" where
  "ProcessOrders_loop cancelCheck sendCheck rng send om [] batchMarker m sent = (Waiting, sent)"
| "ProcessOrders_loop cancelCheck sendCheck rng send om ((cancelled, r) # rs) batchMarker m sent =
     (if cancelCheck \<and> cancelled then (Returned (Some ''context canceled''), sent)
      else case r of
        RecvEOF \<Rightarrow> (let (err, sent') = send_all sendCheck send (map snd (rng m)) sent in (Returned err, sent'))
      | RecvErr e \<Rightarrow> (Returned (Some e), sent)
      | RecvMsg orderId \<Rightarrow>
          let m1 = combine_order om orderId m in
          if batchMarker = orderBatchSize
          then case send_all sendCheck send (map snd (rng m1)) sent of
                 (Some e, sent') \<Rightarrow> (Returned (Some e), sent')
               | (None, sent') \<Rightarrow>
                   ProcessOrders_loop cancelCheck sendCheck rng send om rs 0 [] sent'
          else ProcessOrders_loop cancelCheck sendCheck rng send om rs (batchMarker + 1) m1 sent)"

type_synonym process_fn =
  "(shipmentMap \<Rightarrow> shipmentMap) \<Rightarrow> CombinedShipment send_fn \<Rightarrow> orderMap \<Rightarrow> (bool \<times> string recv) list
     \<Rightarrow> outcome \<times> CombinedShipment list"

definition stream_ProcessOrders :: process_fn where
  "stream_ProcessOrders rng send om rs = ProcessOrders_loop False True rng send om rs 1 [] []"

definition cancellation_ProcessOrders :: process_fn where
  "cancellation_ProcessOrders rng send om rs = ProcessOrders_loop True True rng send om rs 1 [] []"

definition errorhandling_ProcessOrders :: process_fn where
  "errorhandling_ProcessOrders rng send om rs = ProcessOrders_loop False False rng send om rs 1 [] []"

section \<open>The servers\<close>

text \<open>
  A server is its handlers and the orders it starts with.  What a unary call depends on beside its
  request: whether its deadline has passed, whether attaching details to a status fails, and how
  \<^verbatim>\<open>fmt\<close> prints a string value.
\<close>

record call_ctx =
  ctx_exceeded :: bool
  ctx_withDetailsFails :: bool
  ctx_fmtv :: "string \<Rightarrow> string"

type_synonym add_error = "status \<times> (string \<times> string) option"

record order_server =
  srv_AddOrder :: "call_ctx \<Rightarrow> Order \<Rightarrow> orderMap \<Rightarrow> (add_error + string) \<times> orderMap"
  srv_GetOrder :: "call_ctx \<Rightarrow> orderMap \<Rightarrow> string \<Rightarrow> status + Order"
  srv_SearchOrders :: "Order send_fn \<Rightarrow> orderMap \<Rightarrow> string list \<Rightarrow> string \<Rightarrow> string option \<times> Order list"
  srv_UpdateOrders :: "(string \<Rightarrow> string option) \<Rightarrow> Order recv list \<Rightarrow> orderMap \<Rightarrow> outcome \<times> string option \<times> orderMap"
  srv_ProcessOrders :: process_fn
  srv_init :: orderMap

definition plain_error :: "(status + string) \<times> orderMap \<Rightarrow> (add_error + string) \<times> orderMap" where
  "plain_error = map_prod (map_sum (\<lambda>e. (e, None)) id) id"

definition stream_server :: order_server where
  "stream_server =
     \<lparr>srv_AddOrder = \<lambda>ctx req om. plain_error (stream_AddOrder req om),
      srv_GetOrder = \<lambda>ctx. stream_GetOrder (ctx_fmtv ctx),
      srv_SearchOrders = stream_SearchOrders,
      srv_UpdateOrders = stream_UpdateOrders,
      srv_ProcessOrders = stream_ProcessOrders,
      srv_init = initSampleData\<rparr>"

definition cancellation_server :: order_server where
  "cancellation_server =
     \<lparr>srv_AddOrder = \<lambda>ctx req om. plain_error (timed_AddOrder (ctx_exceeded ctx) req om),
      srv_GetOrder = \<lambda>ctx. checked_GetOrder,
      srv_SearchOrders = stream_SearchOrders,
      srv_UpdateOrders = stream_UpdateOrders,
      srv_ProcessOrders = cancellation_ProcessOrders,
      srv_init = initSampleData\<rparr>"

text \<open>The handlers of \<^verbatim>\<open>grpcprometheus\<close> count their calls and are those of \<^verbatim>\<open>cancellation\<close>.\<close>

definition grpcprometheus_server :: order_server where
  "grpcprometheus_server =
     \<lparr>srv_AddOrder = \<lambda>ctx req om. plain_error (timed_AddOrder (ctx_exceeded ctx) req om),
      srv_GetOrder = \<lambda>ctx. checked_GetOrder,
      srv_SearchOrders = stream_SearchOrders,
      srv_UpdateOrders = stream_UpdateOrders,
      srv_ProcessOrders = cancellation_ProcessOrders,
      srv_init = initSampleData\<rparr>"

definition errorhandling_server :: order_server where
  "errorhandling_server =
     \<lparr>srv_AddOrder = \<lambda>ctx. errorhandling_AddOrder (ctx_withDetailsFails ctx),
      srv_GetOrder = \<lambda>ctx. errorhandling_GetOrder,
      srv_SearchOrders = errorhandling_SearchOrders,
      srv_UpdateOrders = errorhandling_UpdateOrders,
      srv_ProcessOrders = errorhandling_ProcessOrders,
      srv_init = errorhandling_initSampleData\<rparr>"

definition compression_server :: order_server where
  "compression_server =
     \<lparr>srv_AddOrder = \<lambda>ctx req om. plain_error (stream_AddOrder req om),
      srv_GetOrder = \<lambda>ctx. errorhandling_GetOrder,
      srv_SearchOrders = errorhandling_SearchOrders,
      srv_UpdateOrders = errorhandling_UpdateOrders,
      srv_ProcessOrders = errorhandling_ProcessOrders,
      srv_init = errorhandling_initSampleData\<rparr>"

definition multiplexing_server :: order_server where
  "multiplexing_server =
     \<lparr>srv_AddOrder = \<lambda>ctx. errorhandling_AddOrder (ctx_withDetailsFails ctx),
      srv_GetOrder = \<lambda>ctx. errorhandling_GetOrder,
      srv_SearchOrders = errorhandling_SearchOrders,
      srv_UpdateOrders = errorhandling_UpdateOrders,
      srv_ProcessOrders = errorhandling_ProcessOrders,
      srv_init = errorhandling_initSampleData\<rparr>"

definition order_servers :: "order_server list" where
  "order_servers = [stream_server, cancellation_server, grpcprometheus_server, errorhandling_server,
     compression_server, multiplexing_server]"

lemmas order_server_defs = order_servers_def stream_server_def cancellation_server_def
  grpcprometheus_server_def errorhandling_server_def compression_server_def multiplexing_server_def

section \<open>What a batch ships\<close>

text \<open>One shipment for each destination, in the order of their first orders.\<close>

definition uniq :: "'a list \<Rightarrow> 'a list" where
  "uniq xs = fold (\<lambda>x acc. if x \<in> set acc then acc else acc @ [x]) xs []"

lemma uniq_Nil [simp]: "uniq [] = []"
  by (simp add: uniq_def)

lemma set_uniq [simp]: "set (uniq xs) = set xs"
  by (induction xs rule: rev_induct) (auto simp: uniq_def)

lemma uniq_snoc: "uniq (xs @ [x]) = (if x \<in> set xs then uniq xs else uniq xs @ [x])"
  using set_uniq [of xs] by (simp add: uniq_def)

lemma distinct_uniq [simp]: "distinct (uniq xs)"
  by (induction xs rule: rev_induct) (simp_all add: uniq_snoc)

definition shipment_for :: "string \<Rightarrow> Order list \<Rightarrow> CombinedShipment" where
  "shipment_for d ords = \<lparr>cs_Id = ''cmb - '' @ d, cs_Status = ''Processed!'',
     cs_OrdersList = filter (\<lambda>ord. or_Destination ord = d) ords\<rparr>"

definition shipments_of :: "Order list \<Rightarrow> shipmentMap" where
  "shipments_of ords = map (\<lambda>d. (d, shipment_for d ords)) (uniq (map or_Destination ords))"

lemma shipment_put_map:
  "distinct ds \<Longrightarrow> shipment_put d s (map (\<lambda>d. (d, f d)) ds) =
     (if d \<in> set ds then map (\<lambda>d'. (d', (f(d := s)) d')) ds else map (\<lambda>d. (d, f d)) ds @ [(d, s)])"
  by (induction ds) auto

lemma shipment_for_snoc:
  "shipment_for d (ords @ [x]) = (if or_Destination x = d
     then (shipment_for d ords)\<lparr>cs_OrdersList := cs_OrdersList (shipment_for d ords) @ [x]\<rparr>
     else shipment_for d ords)"
  by (simp add: shipment_for_def)

lemma combine_order_snoc: "combine_order om i (shipments_of ords) = shipments_of (ords @ [order_at om i])"
proof -
  let ?x = "order_at om i" and ?ds = "map or_Destination ords"
  let ?d = "or_Destination ?x"
  have look: "map_of (shipments_of ords) ?d = (if ?d \<in> set ?ds then Some (shipment_for ?d ords) else None)"
    by (simp add: shipments_of_def map_of_map_restrict)
  show ?thesis
  proof (cases "?d \<in> set ?ds")
    case True
    then show ?thesis
      by (simp add: combine_order_def Let_def look)
        (simp add: shipments_of_def shipment_put_map uniq_snoc shipment_for_snoc)
  next
    case False
    have "or_Destination x \<noteq> ?d" if "x \<in> set ords" for x
    proof
      assume eq: "or_Destination x = ?d"
      from that have "or_Destination x \<in> set ?ds" by simp
      with False show False unfolding eq by (rule notE)
    qed
    then have "filter (\<lambda>ord. or_Destination ord = ?d) ords = []" by (simp add: filter_empty_conv)
    with False show ?thesis
      by (simp add: combine_order_def Let_def look)
        (auto simp: shipments_of_def shipment_put_map uniq_snoc shipment_for_snoc shipment_for_def)
  qed
qed

text \<open>The first batch has as many orders as the marker says; it then restarts at zero.\<close>

fun split_batches :: "nat \<Rightarrow> 'a list \<Rightarrow> 'a list \<Rightarrow> 'a list list" where
  "split_batches k pre [] = [pre]"
| "split_batches k pre (x # xs) =
     (if k \<le> 1 then (pre @ [x]) # split_batches 4 [] xs else split_batches (k - 1) (pre @ [x]) xs)"

function batches :: "nat \<Rightarrow> 'a list \<Rightarrow> 'a list list" where
  "batches n xs = (if n = 0 \<or> length xs < n then [xs] else take n xs # batches 4 (drop n xs))"
  by pat_completeness auto
termination by (relation "measure (\<lambda>(n, xs). length xs)") auto

declare batches.simps [simp del]

lemma split_batches_eq: "0 < k \<Longrightarrow> split_batches k pre xs = batches (length pre + k) (pre @ xs)"
proof (induction k pre xs rule: split_batches.induct)
  case (1 k pre)
  then show ?case by (simp add: batches.simps)
next
  case (2 k pre x xs)
  show ?case
  proof (cases "k = 1")
    case True
    with 2 show ?thesis by (simp add: batches.simps [of "Suc (length pre)"])
  next
    case False
    with 2 show ?thesis by simp
  qed
qed

definition ship :: "(shipmentMap \<Rightarrow> shipmentMap) \<Rightarrow> orderMap \<Rightarrow> string list \<Rightarrow> CombinedShipment list" where
  "ship rng om b = map snd (rng (shipments_of (map (order_at om) b)))"

lemma send_all_ok [simp]: "send_all c (\<lambda>_ _. None) xs sent = (None, sent @ xs)"
  by (induction xs arbitrary: sent) simp_all

definition id_stream :: "string list \<Rightarrow> (bool \<times> string recv) list" where
  "id_stream ids = map (\<lambda>i. (False, RecvMsg i)) ids @ [(False, RecvEOF)]"

lemma id_stream_simps:
  "id_stream [] = [(False, RecvEOF)]" "id_stream (i # ids) = (False, RecvMsg i) # id_stream ids"
  by (simp_all add: id_stream_def)

lemma loop_batches:
  "0 \<le> b \<Longrightarrow> b \<le> 3 \<Longrightarrow>
   ProcessOrders_loop cc sc rng (\<lambda>_ _. None) om (id_stream ids) b (shipments_of (map (order_at om) pre)) sent =
     (Returned None, sent @ concat (map (ship rng om) (split_batches (nat (4 - b)) pre ids)))"
proof (induction ids arbitrary: b pre sent)
  case Nil
  then show ?case by (simp add: id_stream_simps ship_def)
next
  case (Cons i ids)
  have step: "combine_order om i (shipments_of (map (order_at om) pre)) = shipments_of (map (order_at om) (pre @ [i]))"
    by (simp add: combine_order_snoc)
  show ?case
  proof (cases "b = 3")
    case True
    with Cons.IH [of 0 "[]"] show ?thesis
      by (simp add: id_stream_simps step orderBatchSize_def ship_def Let_def shipments_of_def [of "[]"]
          del: map_append)
  next
    case False
    with Cons.prems have "\<not> nat (4 - b) \<le> 1" "nat (4 - b) - 1 = nat (4 - (b + 1))" by auto
    then have "split_batches (nat (4 - b)) pre (i # ids) = split_batches (nat (4 - (b + 1))) (pre @ [i]) ids"
      by simp
    with False Cons.prems Cons.IH [of "b + 1" "pre @ [i]"] show ?thesis
      by (simp add: id_stream_simps step orderBatchSize_def Let_def del: map_append split_batches.simps)
  qed
qed


lemma split_batches_nonempty [simp]: "split_batches k pre xs \<noteq> []"
  by (induction k pre xs rule: split_batches.induct) auto

definition cut_stream :: "string list \<Rightarrow> string recv \<Rightarrow> (bool \<times> string recv) list" where
  "cut_stream ids r = map (\<lambda>i. (False, RecvMsg i)) ids @ [(True, r)]"

lemma loop_cancelled:
  "0 \<le> b \<Longrightarrow> b \<le> 3 \<Longrightarrow>
   ProcessOrders_loop True sc rng (\<lambda>_ _. None) om (cut_stream ids r) b
       (shipments_of (map (order_at om) pre)) sent =
     (Returned (Some ''context canceled''),
      sent @ concat (map (ship rng om) (butlast (split_batches (nat (4 - b)) pre ids))))"
proof (induction ids arbitrary: b pre sent)
  case Nil
  then show ?case by (simp add: cut_stream_def)
next
  case (Cons i ids)
  have step: "combine_order om i (shipments_of (map (order_at om) pre)) = shipments_of (map (order_at om) (pre @ [i]))"
    by (simp add: combine_order_snoc)
  have cut: "cut_stream (i # ids) r = (False, RecvMsg i) # cut_stream ids r" by (simp add: cut_stream_def)
  show ?case
  proof (cases "b = 3")
    case True
    with Cons.IH [of 0 "[]"] show ?thesis
      by (simp add: cut step orderBatchSize_def ship_def Let_def shipments_of_def [of "[]"] del: map_append)
  next
    case False
    with Cons.prems have "\<not> nat (4 - b) \<le> 1" "nat (4 - b) - 1 = nat (4 - (b + 1))" by auto
    then have "split_batches (nat (4 - b)) pre (i # ids) = split_batches (nat (4 - (b + 1))) (pre @ [i]) ids"
      by simp
    with False Cons.prems Cons.IH [of "b + 1" "pre @ [i]"] show ?thesis
      by (simp add: cut step orderBatchSize_def Let_def del: map_append split_batches.simps)
  qed
qed

lemma loop_result:
  "ProcessOrders_loop cc sc rng (\<lambda>_ _. None) om (id_stream ids) 1 [] [] =
     (Returned None, concat (map (ship rng om) (batches 3 ids)))"
  using loop_batches [of 1 cc sc rng om ids "[]" "[]"] split_batches_eq [of 3 "[]" ids]
  by (simp add: shipments_of_def)

lemma concat_batches: "concat (batches n xs) = xs"
proof (induction n xs rule: batches.induct)
  case (1 n xs)
  then show ?case by (cases "n = 0 \<or> length xs < n") (simp_all add: batches.simps [of n])
qed

lemma mset_shipments: "mset (concat (map (cs_OrdersList \<circ> snd) (shipments_of ords))) = mset ords"
proof -
  have "distinct ds \<Longrightarrow> mset (concat (map (\<lambda>d. filter (\<lambda>x. f x = d) ords) ds)) =
      mset (filter (\<lambda>x. f x \<in> set ds) ords)" for ds :: "'b list" and f and ords :: "Order list"
  proof (induction ds)
    case (Cons d ds)
    from Cons.prems have d: "d \<notin> set ds" and ds: "distinct ds" by simp_all
    have "mset (filter (\<lambda>x. f x \<in> set (d # ds)) ords) =
        mset (filter (\<lambda>x. f x = d) ords) + mset (filter (\<lambda>x. f x \<in> set ds) ords)"
      by (induction ords) (use d in auto)
    then show ?case by (simp only: list.map concat.simps mset_append Cons.IH [OF ds])
  qed simp
  from this [of "uniq (map or_Destination ords)" or_Destination ords] show ?thesis
    by (simp add: shipments_of_def shipment_for_def comp_def)
qed

lemma mset_concat_map_perm:
  assumes "mset ys = mset xs"
  shows "mset (concat (map f ys)) = mset (concat (map f xs))"
proof -
  have "mset (concat (map f zs)) = sum_mset (image_mset (\<lambda>z. mset (f z)) (mset zs))" for zs
    by (induction zs) simp_all
  with assms show ?thesis by simp
qed

section \<open>Properties\<close>

text \<open>
  On a stream of order ids that ends without errors, \<^verbatim>\<open>ProcessOrders\<close> of every server ships
  batch by batch: the first three orders, then four at a time, then the rest.  Each batch gives one
  shipment for each destination, with the orders of that destination in the order they came.
\<close>

theorem ProcessOrders_batches:
  "map (\<lambda>srv. srv_ProcessOrders srv rng (\<lambda>_ _. None) om (id_stream ids)) order_servers =
   replicate 6 (Returned None, concat (map (ship rng om) (batches 3 ids)))"
  by (simp add: order_server_defs stream_ProcessOrders_def cancellation_ProcessOrders_def
      errorhandling_ProcessOrders_def loop_result numeral_eq_Suc)

lemma shipments_conserve:
  assumes "\<And>m. mset (rng m) = mset m"
  shows "mset (concat (map cs_OrdersList (concat (map (ship rng om) bs)))) = mset (map (order_at om) (concat bs))"
proof (induction bs)
  case (Cons b bs)
  have "mset (concat (map cs_OrdersList (ship rng om b))) = mset (map (order_at om) b)"
    using mset_concat_map_perm [OF assms, of "cs_OrdersList \<circ> snd" "shipments_of (map (order_at om) b)"]
    by (simp only: ship_def map_map mset_shipments)
  with Cons.IH show ?case by simp
qed simp

lemma shipment_destination:
  assumes "\<And>m. mset (rng m) = mset m" and "s \<in> set (ship rng om b)" and "ord \<in> set (cs_OrdersList s)"
  shows "cs_Id s = ''cmb - '' @ or_Destination ord"
proof -
  from assms(1) have "set (rng (shipments_of (map (order_at om) b))) = set (shipments_of (map (order_at om) b))"
    by (rule mset_eq_setD)
  with assms(2,3) show ?thesis by (auto simp: ship_def shipments_of_def shipment_for_def)
qed




definition put_orders :: "Order list \<Rightarrow> orderMap \<Rightarrow> orderMap" where
  "put_orders os om = fold (\<lambda>ord m. m(or_Id ord \<mapsto> ord)) os om"

definition update_reply :: "Order list \<Rightarrow> string" where
  "update_reply os = ''Orders processed Updated Order IDs : '' @ concat (map (\<lambda>ord. or_Id ord @ '', '') os)"

lemma UpdateOrders_loop_msgs:
  "UpdateOrders_loop c close (map RecvMsg os @ rs) str om =
   UpdateOrders_loop c close rs (str @ concat (map (\<lambda>ord. or_Id ord @ '', '') os)) (put_orders os om)"
  by (induction os arbitrary: str om) (simp_all add: put_orders_def)

text \<open>
  After the orders of a client stream, the end of the stream makes every \<^verbatim>\<open>UpdateOrders\<close> answer
  with their ids, the last order of an id being kept; a broken stream is returned as an error by the
  \<^verbatim>\<open>stream\<close>, \<^verbatim>\<open>cancellation\<close> and \<^verbatim>\<open>grpcprometheus\<close> servers, while the \<^verbatim>\<open>errorhandling\<close>, \<^verbatim>\<open>compression\<close> and \<^verbatim>\<open>multiplexing\<close> servers
  dereference the nil order and panic.  The orders received before are kept in every case.
\<close>

theorem UpdateOrders_outcomes:
  "map (\<lambda>srv. srv_UpdateOrders srv close (map RecvMsg os @ [RecvEOF]) om) order_servers =
     replicate 6 (Returned (close (update_reply os)), Some (update_reply os), put_orders os om)
   \<and> map (\<lambda>srv. srv_UpdateOrders srv close (map RecvMsg os @ [RecvErr e]) om) order_servers =
     replicate 3 (Returned (Some e), None, put_orders os om)
     @ replicate 3 (Panicked NilDereference, None, put_orders os om)"
  by (simp add: order_server_defs stream_UpdateOrders_def errorhandling_UpdateOrders_def
      UpdateOrders_loop_msgs update_reply_def Let_def numeral_eq_Suc)

text \<open>
  A cancelled stream makes the \<^verbatim>\<open>cancellation\<close> server return the context's error at once: what
  was shipped is exactly the full batches, and the orders collected since the last of them are
  dropped, whether the stream ended or not.
\<close>


theorem ProcessOrders_cancelled:
  "cancellation_ProcessOrders rng (\<lambda>_ _. None) om (cut_stream ids r) =
     (Returned (Some ''context canceled''), concat (map (ship rng om) (butlast (batches 3 ids))))"
  using loop_cancelled [of 1 True rng om ids r "[]" "[]"] split_batches_eq [of 3 "[]" ids]
  by (simp add: cancellation_ProcessOrders_def shipments_of_def)

end
