(* ===== verification/ProductServers.thy ===== *)
theory ProductServers
  imports OrderServers
begin

text \<open>
  The product servers under \<^verbatim>\<open>gRPC\<close> (\<^verbatim>\<open>sendmessage\<close>, \<^verbatim>\<open>basicauth\<close>, \<^verbatim>\<open>token\<close>, \<^verbatim>\<open>mutualls\<close>) with the
  interceptors that guard them, and the greeters (\<^verbatim>\<open>helloworld\<close>, \<^verbatim>\<open>multiplexing\<close>).  A handler maps the
  server's state to an answer and a new state; \<^verbatim>\<open>log.Fatal\<close> ends the process and is a panic value.
\<close>

section \<open>Products\<close>

record Product =
  pr_Id :: string
  pr_Name :: string
  pr_Description :: string
  pr_Price :: rat

type_synonym productMap = "(string \<rightharpoonup> Product) option"

text \<open>The map is nil until the first product; \<open>uuid\<close> is what \<^verbatim>\<open>NewUUID\<close> answers.\<close>

definition ProductInfo_AddProduct :: "string + string \<Rightarrow> Product \<Rightarrow> productMap \<Rightarrow> (string \<times> productMap) go" where
  "ProductInfo_AddProduct uuid inp productMap =
     (case uuid of
        Inl err \<Rightarrow> Inl (PanicMsg err)
      | Inr out \<Rightarrow>
          let inp' = inp\<lparr>pr_Id := out\<rparr>;
              m = (case productMap of None \<Rightarrow> Map.empty | Some m \<Rightarrow> m)
          in Inr (out, Some (m(out \<mapsto> inp'))))"

definition ProductInfo_GetProduct :: "productMap \<Rightarrow> string \<Rightarrow> string + Product" where
  "ProductInfo_GetProduct productMap inp =
     (case Option.bind productMap (\<lambda>m. m inp) of
        Some v \<Rightarrow> Inr v
      | None \<Rightarrow> Inl (''Product does not exist for the ID'' @ inp))"

text \<open>The server of \<^verbatim>\<open>sendmessage\<close> keeps the client's 32-bit ids and starts with an empty map.\<close>

record MsgProduct =
  mp_Id :: "32 word"
  mp_Name :: string
  mp_Description :: string

definition SendMessage_AddProduct ::
  "MsgProduct \<Rightarrow> (32 word \<rightharpoonup> MsgProduct) \<Rightarrow> 32 word \<times> (32 word \<rightharpoonup> MsgProduct)" where
  "SendMessage_AddProduct inp products = (mp_Id inp, products(mp_Id inp \<mapsto> inp))"

definition SendMessage_GetProduct :: "(32 word \<rightharpoonup> MsgProduct) \<Rightarrow> 32 word \<Rightarrow> status + MsgProduct" where
  "SendMessage_GetProduct products inp =
     (case products inp of
        None \<Rightarrow> Inl (NotFound, ''product not found'')
      | Some product \<Rightarrow> Inr \<lparr>mp_Id = mp_Id product, mp_Name = mp_Name product,
                             mp_Description = mp_Description product\<rparr>)"

section \<open>Greeters\<close>

definition SayHello :: "string \<Rightarrow> string" where
  "SayHello name = (let n = (if name = [] then ''World'' else name) in ''Hello, '' @ n @ ''! Welcome to gRPC.'')"

section \<open>Interceptors\<close>

definition TrimPrefix :: "string \<Rightarrow> string \<Rightarrow> string" where
  "TrimPrefix s p = (if prefix p s then drop (length p) s else s)"

text \<open>\<^verbatim>\<open>base64.StdEncoding\<close>: three bytes give four of the 64 characters, with padding.\<close>

definition b64_alphabet :: string where
  "b64_alphabet = ''ABCDEFGHIJKLMNOPQRSTUVWXYZabcdefghijklmnopqrstuvwxyz0123456789+/''"

definition b64_char :: "nat \<Rightarrow> char" where
  "b64_char n = b64_alphabet ! (n mod 64)"

fun b64_encode :: "string \<Rightarrow> string" where
  "b64_encode [] = []"
| "b64_encode [a] = (let n = of_char a * 16 in [b64_char (n div 64), b64_char n, CHR ''='', CHR ''=''])"
| "b64_encode [a, b] = (let n = (of_char a * 256 + of_char b) * 4 in
     [b64_char (n div 4096), b64_char (n div 64), b64_char n, CHR ''=''])"
| "b64_encode (a # b # c # s) = (let n = (of_char a * 256 + of_char b) * 256 + of_char c in
     [b64_char (n div 262144), b64_char (n div 4096), b64_char (n div 64), b64_char n] @ b64_encode s)"

text \<open>A missing key of the metadata is an empty list of values.\<close>

definition token_valid :: "string list \<Rightarrow> bool" where
  "token_valid authorization =
     (case authorization of [] \<Rightarrow> False
      | a # _ \<Rightarrow> TrimPrefix a ''Bearer '' = ''some-secret-token'')"

definition basic_valid :: "string list \<Rightarrow> bool" where
  "basic_valid authorization =
     (case authorization of [] \<Rightarrow> False
      | a # _ \<Rightarrow> TrimPrefix a ''Basic '' = b64_encode ''admin:admin'')"

type_synonym metadata = "string \<Rightarrow> string list"

definition ensureValidToken ::
  "metadata option \<Rightarrow> ('s \<Rightarrow> (status + 'r) \<times> 's) \<Rightarrow> 's \<Rightarrow> (status + 'r) \<times> 's" where
  "ensureValidToken md handler s =
     (case md of
        None \<Rightarrow> (Inl (InvalidArgument, ''missing metadata''), s)
      | Some m \<Rightarrow>
          if \<not> token_valid (m ''authorization'') then (Inl (Unauthenticated, ''invalid token''), s)
          else handler s)"

definition ensureValidBasicCredentials ::
  "metadata option \<Rightarrow> ('s \<Rightarrow> (status + 'r) \<times> 's) \<Rightarrow> 's \<Rightarrow> (status + 'r) \<times> 's" where
  "ensureValidBasicCredentials md handler s =
     (case md of
        None \<Rightarrow> (Inl (InvalidArgument, ''missing metadata''), s)
      | Some m \<Rightarrow>
          if \<not> basic_valid (m ''authorization'') then (Inl (Unauthenticated, ''invalid credentials''), s)
          else handler s)"

lemma TrimPrefix_eq: "TrimPrefix s p = t \<longleftrightarrow> s = p @ t \<or> (\<not> prefix p s \<and> s = t)"
  by (auto simp: TrimPrefix_def prefix_def)

lemma b64_admin: "b64_encode ''admin:admin'' = ''YWRtaW46YWRtaW4=''"
  by (simp add: Let_def b64_char_def b64_alphabet_def)

definition sends_credentials :: "string \<Rightarrow> string \<Rightarrow> metadata option \<Rightarrow> bool" where
  "sends_credentials scheme secret md =
     (case md of None \<Rightarrow> False | Some m \<Rightarrow>
        case m ''authorization'' of [] \<Rightarrow> False | a # _ \<Rightarrow> a = scheme @ secret \<or> a = secret)"

lemma gate_gen:
  "\<not> prefix scheme secret \<Longrightarrow>
   (case m ''authorization'' of [] \<Rightarrow> False | a # _ \<Rightarrow> TrimPrefix a scheme = secret) \<longleftrightarrow>
   sends_credentials scheme secret (Some m)"
  by (auto simp: sends_credentials_def TrimPrefix_eq split: list.splits)

lemma token_gate:
  "token_valid (m ''authorization'') \<longleftrightarrow> sends_credentials ''Bearer '' ''some-secret-token'' (Some m)"
  unfolding token_valid_def by (rule gate_gen) simp

lemma basic_gate:
  "basic_valid (m ''authorization'') \<longleftrightarrow> sends_credentials ''Basic '' ''YWRtaW46YWRtaW4='' (Some m)"
  unfolding basic_valid_def b64_admin by (rule gate_gen) simp

lemma no_metadata: "\<not> sends_credentials scheme secret None"
  by (simp add: sends_credentials_def)

text \<open>
  The interceptors run the handler exactly when the first authorization value is the secret,
  with its scheme or without it; otherwise the handler never runs, the server's state is unchanged
  and the answer is the status of the interceptor.
\<close>

theorem interceptors_gate:
  "ensureValidToken md handler s =
     (if sends_credentials ''Bearer '' ''some-secret-token'' md then handler s
      else (Inl (if md = None then (InvalidArgument, ''missing metadata'')
                 else (Unauthenticated, ''invalid token'')), s))
   \<and> ensureValidBasicCredentials md handler s =
     (if sends_credentials ''Basic '' ''YWRtaW46YWRtaW4='' md then handler s
      else (Inl (if md = None then (InvalidArgument, ''missing metadata'')
                 else (Unauthenticated, ''invalid credentials'')), s))"
proof (cases md)
  case None
  then show ?thesis by (simp add: ensureValidToken_def ensureValidBasicCredentials_def no_metadata)
next
  case (Some m)
  then show ?thesis
    by (simp only: ensureValidToken_def ensureValidBasicCredentials_def token_gate basic_gate
        option.simps if_not_P if_P if_False if_True split: if_split) blast
qed

end
