(* ===== verification/Tunnel.thy ===== *)
theory Tunnel
  imports Prelude "HOL-Library.Sublist"
begin

text \<open>
  The HTTP-over-gRPC tunnel of \<^verbatim>\<open>net/grpc/cmd\<close>: the server's route table, its pool of waiting HTTP
  requests and the dispatch of responses (\<^verbatim>\<open>server.go\<close>), and the agent that answers requests
  (\<^verbatim>\<open>client.go\<close>).  Every section under a lock, channel operation or stream operation is one step, so
  the runs interleave any number of HTTP requests with any number of agents.  Streams, HTTP requests
  and their channels are numbered.
\<close>

section \<open>Messages\<close>

record TunnelRequest =
  tq_Id :: string
  tq_Method :: string
  tq_Url :: string
  tq_Headers :: "string \<rightharpoonup> string"
  tq_Body :: string

record TunnelResponse =
  tp_Id :: string
  tp_StatusCode :: int
  tp_Headers :: "string \<rightharpoonup> string"
  tp_Body :: string

record http_request =
  hr_Method :: string
  hr_Path :: string
  hr_Url :: string
  hr_Header :: "string \<rightharpoonup> string list"
  hr_Body :: string

record http_response =
  hs_StatusCode :: int
  hs_Header :: "string \<rightharpoonup> string list"
  hs_Body :: string

text \<open>The first value of every header; \<^verbatim>\<open>Get\<close> of a header without values is empty.\<close>

definition first_headers :: "(string \<rightharpoonup> string list) \<Rightarrow> string \<rightharpoonup> string" where
  "first_headers hdr = (\<lambda>k. map_option (\<lambda>vs. case vs of [] \<Rightarrow> [] | v # _ \<Rightarrow> v) (hdr k))"

section \<open>Routes\<close>

text \<open>The loop over the registered prefixes, in the order \<^verbatim>\<open>range\<close> visits them.\<close>

fun extract_loop :: "string \<Rightarrow> string list \<Rightarrow> string \<Rightarrow> nat \<Rightarrow> string" where
  "extract_loop path [] matchedPrefix maxLen = matchedPrefix"
| "extract_loop path (p # ps) matchedPrefix maxLen =
     (if prefix p path \<and> length p > maxLen then extract_loop path ps p (length p)
      else extract_loop path ps matchedPrefix maxLen)"

definition extractPrefix :: "string \<Rightarrow> string list \<Rightarrow> string" where
  "extractPrefix path keys = extract_loop path keys [] 0"

lemma extract_loop_longest:
  "maxLen = length m \<Longrightarrow> prefix m path \<Longrightarrow>
   (let r = extract_loop path ps m maxLen in
      prefix r path \<and> (r = m \<or> r \<in> set ps) \<and> length m \<le> length r
      \<and> (\<forall>p \<in> set ps. prefix p path \<longrightarrow> length p \<le> length r))"
proof (induction path ps m maxLen rule: extract_loop.induct)
  case (2 path p ps m maxLen)
  show ?case
  proof (cases "prefix p path \<and> length p > maxLen")
    case True
    with 2 show ?thesis by (auto simp: Let_def)
  next
    case False
    with 2 show ?thesis by (auto simp: Let_def)
  qed
qed (simp add: Let_def)

lemma extractPrefix_longest:
  "prefix (extractPrefix path keys) path"
  "extractPrefix path keys = [] \<or> extractPrefix path keys \<in> set keys"
  "p \<in> set keys \<Longrightarrow> prefix p path \<Longrightarrow> length p \<le> length (extractPrefix path keys)"
  using extract_loop_longest [of 0 "[]" path keys] by (auto simp: extractPrefix_def Let_def)

lemma prefix_same_length: "prefix p s \<Longrightarrow> prefix q s \<Longrightarrow> length p = length q \<Longrightarrow> p = q"
  by (metis append_eq_append_conv prefix_def)

lemma extractPrefix_unique:
  assumes "prefix r path" and "r = [] \<or> r \<in> set keys"
    and "\<And>p. p \<in> set keys \<Longrightarrow> prefix p path \<Longrightarrow> length p \<le> length r"
  shows "extractPrefix path keys = r"
proof (rule prefix_same_length [OF extractPrefix_longest(1) assms(1)])
  show "length (extractPrefix path keys) = length r"
  proof (rule antisym)
    show "length (extractPrefix path keys) \<le> length r"
      using extractPrefix_longest(1,2) [of path keys] assms(3) by auto
    show "length r \<le> length (extractPrefix path keys)"
      using assms(1,2) extractPrefix_longest(3) [of r keys path] by auto
  qed
qed

text \<open>
  In whatever order the route table is visited, \<^verbatim>\<open>extractPrefix\<close> answers the longest registered
  prefix of the path, and the empty string exactly when no registered prefix but the empty one fits.
\<close>

theorem extractPrefix_correct:
  "extractPrefix path keys = r \<longleftrightarrow>
     prefix r path \<and> (r = [] \<or> r \<in> set keys)
     \<and> (\<forall>p \<in> set (filter (\<lambda>p. prefix p path) keys). length p \<le> length r)"
  using extractPrefix_unique [of r path keys] extractPrefix_longest(1,2) [of path keys]
    extractPrefix_longest(3) [of _ keys path] by auto

lemma extractPrefix_correct_witness:
  "extractPrefix ''/app-a/x'' [''/app-b'', ''/app-a'', ''/''] = ''/app-a''"
  by (simp only: extractPrefix_correct) simp


section \<open>The server\<close>

text \<open>
  An HTTP request is routed, has registered its channel under a fresh id, has sent its request to the
  stream, is about to leave the pool with its answer, or has answered.
\<close>

datatype reply = FailedWith string int | FromTunnel TunnelResponse

datatype handler =
    Routed nat http_request
  | Registered string nat http_request
  | Awaiting string
  | Closing string reply
  | Replied "string option" reply

text \<open>
  \<open>tn_open\<close> are the running \<^verbatim>\<open>OpenTunnel\<close> calls with their prefixes, \<open>tn_chan\<close> the buffers of the
  channels of the HTTP requests, \<open>tn_dispatch\<close> the channel each receive loop has looked up and the
  response it is about to send there, \<open>tn_outbox\<close> what was sent to the streams.
\<close>

record TunnelServer =
  tn_routes :: "string \<rightharpoonup> nat"
  tn_open :: "nat \<rightharpoonup> string"
  tn_pool :: "string \<rightharpoonup> nat"
  tn_chan :: "nat \<rightharpoonup> TunnelResponse"
  tn_handlers :: "nat \<rightharpoonup> handler"
  tn_dispatch :: "nat \<rightharpoonup> nat \<times> TunnelResponse"
  tn_outbox :: "(nat \<times> TunnelRequest) list"

definition NewTunnelServer :: TunnelServer where
  "NewTunnelServer = \<lparr>tn_routes = Map.empty, tn_open = Map.empty, tn_pool = Map.empty, tn_chan = Map.empty,
     tn_handlers = Map.empty, tn_dispatch = Map.empty, tn_outbox = []\<rparr>"

definition Tunnel_Register :: "TunnelServer \<Rightarrow> string \<Rightarrow> bool \<times> string" where
  "Tunnel_Register s p =
     (if tn_routes s p \<noteq> None then (False, ''Prefix already registered'') else (True, ''OK''))"

text \<open>
  The start of \<^verbatim>\<open>OpenTunnel\<close> of a new stream, with the prefixes in its metadata, and the deferred
  clean-up when its receive loop ends.
\<close>

definition OpenTunnel_bind :: "nat \<Rightarrow> string list \<Rightarrow> TunnelServer \<Rightarrow> string option \<times> TunnelServer" where
  "OpenTunnel_bind st md s =
     (case md of
        [] \<Rightarrow> (Some ''Missing prefix in metadata'', s)
      | p # _ \<Rightarrow>
          if tn_routes s p \<noteq> None then (Some ''Prefix already has an active stream'', s)
          else (None, s\<lparr>tn_routes := (tn_routes s)(p \<mapsto> st), tn_open := (tn_open s)(st \<mapsto> p)\<rparr>))"

definition OpenTunnel_unbind :: "nat \<Rightarrow> string \<Rightarrow> TunnelServer \<Rightarrow> TunnelServer" where
  "OpenTunnel_unbind st p s =
     s\<lparr>tn_routes := (tn_routes s)(p := None), tn_open := (tn_open s)(st := None)\<rparr>"

text \<open>\<open>keys\<close> is the order in which \<^verbatim>\<open>range\<close> visits the routes.\<close>

definition serve_route :: "string list \<Rightarrow> http_request \<Rightarrow> TunnelServer \<Rightarrow> handler" where
  "serve_route keys r s =
     (let p = extractPrefix (hr_Path r) keys in
      case tn_routes s p of
        None \<Rightarrow> Replied None (FailedWith (''No agent registered for prefix: '' @ p) 502)
      | Some st \<Rightarrow> Routed st r)"

definition mk_TunnelRequest :: "string \<Rightarrow> http_request \<Rightarrow> TunnelRequest" where
  "mk_TunnelRequest i r = \<lparr>tq_Id = i, tq_Method = hr_Method r, tq_Url = hr_Url r,
     tq_Headers = first_headers (hr_Header r), tq_Body = hr_Body r\<rparr>"

definition set_handler :: "nat \<Rightarrow> handler \<Rightarrow> TunnelServer \<Rightarrow> TunnelServer" where
  "set_handler h ph s = s\<lparr>tn_handlers := (tn_handlers s)(h \<mapsto> ph)\<rparr>"

definition registerWaiter :: "string \<Rightarrow> nat \<Rightarrow> TunnelServer \<Rightarrow> TunnelServer" where
  "registerWaiter i h s = s\<lparr>tn_pool := (tn_pool s)(i \<mapsto> h)\<rparr>"

definition unregisterWaiter :: "string \<Rightarrow> TunnelServer \<Rightarrow> TunnelServer" where
  "unregisterWaiter i s = s\<lparr>tn_pool := (tn_pool s)(i := None)\<rparr>"

text \<open>\<^verbatim>\<open>dispatchResponse\<close>: the lookup under the lock and the send that never blocks.\<close>

definition dispatch_lookup :: "nat \<Rightarrow> TunnelResponse \<Rightarrow> TunnelServer \<Rightarrow> TunnelServer" where
  "dispatch_lookup st resp s =
     (case tn_pool s (tp_Id resp) of
        None \<Rightarrow> s
      | Some h \<Rightarrow> s\<lparr>tn_dispatch := (tn_dispatch s)(st \<mapsto> (h, resp))\<rparr>)"

definition dispatch_send :: "nat \<Rightarrow> nat \<Rightarrow> TunnelResponse \<Rightarrow> TunnelServer \<Rightarrow> TunnelServer" where
  "dispatch_send st h resp s =
     (let s1 = s\<lparr>tn_dispatch := (tn_dispatch s)(st := None)\<rparr> in
      if tn_chan s1 h = None then s1\<lparr>tn_chan := (tn_chan s1)(h \<mapsto> resp)\<rparr> else s1)"

fun handler_id :: "handler \<Rightarrow> string option" where
  "handler_id (Routed st r) = None"
| "handler_id (Registered i st r) = Some i"
| "handler_id (Awaiting i) = Some i"
| "handler_id (Closing i r) = Some i"
| "handler_id (Replied i r) = i"

definition id_of :: "TunnelServer \<Rightarrow> nat \<Rightarrow> string option" where
  "id_of s h = Option.bind (tn_handlers s h) handler_id"

text \<open>\<^verbatim>\<open>uuid.New\<close> answers ids that were not used before.\<close>

inductive tn_step :: "TunnelServer \<Rightarrow> TunnelServer \<Rightarrow> bool" where
  bind: "tn_open s st = None \<Longrightarrow> OpenTunnel_bind st md s = (e, s') \<Longrightarrow> tn_step s s'"
| unbind: "tn_open s st = Some p \<Longrightarrow> tn_dispatch s st = None \<Longrightarrow> tn_step s (OpenTunnel_unbind st p s)"
| route: "tn_handlers s h = None \<Longrightarrow> set keys = dom (tn_routes s) \<Longrightarrow>
    tn_step s (set_handler h (serve_route keys r s) s)"
| register: "tn_handlers s h = Some (Routed st r) \<Longrightarrow> (\<And>h'. id_of s h' \<noteq> Some i) \<Longrightarrow>
    tn_step s (set_handler h (Registered i st r) (registerWaiter i h s))"
| send: "tn_handlers s h = Some (Registered i st r) \<Longrightarrow>
    tn_step s (set_handler h (Awaiting i) (s\<lparr>tn_outbox := tn_outbox s @ [(st, mk_TunnelRequest i r)]\<rparr>))"
| send_fails: "tn_handlers s h = Some (Registered i st r) \<Longrightarrow>
    tn_step s (set_handler h (Closing i (FailedWith ''Send to tunnel failed'' 502)) s)"
| answer: "tn_handlers s h = Some (Awaiting i) \<Longrightarrow> tn_chan s h = Some resp \<Longrightarrow>
    tn_step s (set_handler h (Closing i (FromTunnel resp)) (s\<lparr>tn_chan := (tn_chan s)(h := None)\<rparr>))"
| timeout: "tn_handlers s h = Some (Awaiting i) \<Longrightarrow>
    tn_step s (set_handler h (Closing i (FailedWith ''Tunnel Timeout'' 504)) s)"
| close: "tn_handlers s h = Some (Closing i reply) \<Longrightarrow>
    tn_step s (set_handler h (Replied (Some i) reply) (unregisterWaiter i s))"
| received: "tn_open s st = Some p \<Longrightarrow> tn_dispatch s st = None \<Longrightarrow>
    tn_step s (dispatch_lookup st resp s)"
| deliver: "tn_dispatch s st = Some (h, resp) \<Longrightarrow> tn_step s (dispatch_send st h resp s)"

inductive tn_reach :: "TunnelServer \<Rightarrow> bool" where
  start: "tn_reach NewTunnelServer"
| step: "tn_reach s \<Longrightarrow> tn_step s s' \<Longrightarrow> tn_reach s'"

lemmas tn_defs = set_handler_def registerWaiter_def unregisterWaiter_def OpenTunnel_unbind_def

fun live :: "handler \<Rightarrow> bool" where
  "live (Registered i st r) = True"
| "live (Awaiting i) = True"
| "live (Closing i r) = True"
| "live _ = False"

definition tn_inv :: "TunnelServer \<Rightarrow> bool" where
  "tn_inv s \<longleftrightarrow>
     (\<forall>p st. tn_routes s p = Some st \<longleftrightarrow> tn_open s st = Some p)
   \<and> (\<forall>i h. tn_pool s i = Some h \<longleftrightarrow> (\<exists>ph. tn_handlers s h = Some ph \<and> live ph \<and> handler_id ph = Some i))
   \<and> (\<forall>st h r. tn_dispatch s st = Some (h, r) \<longrightarrow> id_of s h = Some (tp_Id r))
   \<and> (\<forall>h r. tn_chan s h = Some r \<longrightarrow> id_of s h = Some (tp_Id r))
   \<and> (\<forall>h i r. tn_handlers s h = Some (Closing i (FromTunnel r)) \<longrightarrow> tp_Id r = i)
   \<and> (\<forall>h i r. tn_handlers s h = Some (Replied i (FromTunnel r)) \<longrightarrow> i = Some (tp_Id r))
   \<and> (\<forall>h h' i. id_of s h = Some i \<longrightarrow> id_of s h' = Some i \<longrightarrow> h = h')"


definition answer_ok :: "handler \<Rightarrow> bool" where
  "answer_ok ph \<longleftrightarrow>
     (\<forall>i r. ph = Closing i (FromTunnel r) \<longrightarrow> tp_Id r = i)
     \<and> (\<forall>i r. ph = Replied i (FromTunnel r) \<longrightarrow> i = Some (tp_Id r))"

lemma answer_ok_simps [simp]:
  "answer_ok (Routed st q)" "answer_ok (Registered i st q)" "answer_ok (Awaiting i)"
  "answer_ok (Closing i (FailedWith m c))" "answer_ok (Replied oi (FailedWith m c))"
  "answer_ok (Closing i (FromTunnel r)) \<longleftrightarrow> tp_Id r = i"
  "answer_ok (Replied oi (FromTunnel r)) \<longleftrightarrow> oi = Some (tp_Id r)"
  by (auto simp: answer_ok_def)

lemma tn_inv_alt: "tn_inv s \<longleftrightarrow>
     (\<forall>p st. tn_routes s p = Some st \<longleftrightarrow> tn_open s st = Some p)
   \<and> (\<forall>i h. tn_pool s i = Some h \<longleftrightarrow> (\<exists>ph. tn_handlers s h = Some ph \<and> live ph \<and> handler_id ph = Some i))
   \<and> (\<forall>st h r. tn_dispatch s st = Some (h, r) \<longrightarrow> id_of s h = Some (tp_Id r))
   \<and> (\<forall>h r. tn_chan s h = Some r \<longrightarrow> id_of s h = Some (tp_Id r))
   \<and> (\<forall>h ph. tn_handlers s h = Some ph \<longrightarrow> answer_ok ph)
   \<and> (\<forall>h h' i. id_of s h = Some i \<longrightarrow> id_of s h' = Some i \<longrightarrow> h = h')"
  unfolding tn_inv_def answer_ok_def by blast

lemma id_of_set_handler [simp]:
  "id_of (set_handler h ph s) h' = (if h' = h then handler_id ph else id_of s h')"
  by (simp add: id_of_def set_handler_def)

lemma id_of_cong [simp]:
  "id_of (s\<lparr>tn_routes := a\<rparr>) h = id_of s h" "id_of (s\<lparr>tn_open := b\<rparr>) h = id_of s h"
  "id_of (s\<lparr>tn_pool := c\<rparr>) h = id_of s h" "id_of (s\<lparr>tn_chan := d\<rparr>) h = id_of s h"
  "id_of (s\<lparr>tn_dispatch := e\<rparr>) h = id_of s h" "id_of (s\<lparr>tn_outbox := f\<rparr>) h = id_of s h"
  by (simp_all add: id_of_def)

lemma set_handler_fields [simp]:
  "tn_routes (set_handler h ph s) = tn_routes s" "tn_open (set_handler h ph s) = tn_open s"
  "tn_pool (set_handler h ph s) = tn_pool s" "tn_chan (set_handler h ph s) = tn_chan s"
  "tn_dispatch (set_handler h ph s) = tn_dispatch s"
  "tn_handlers (set_handler h ph s) = (tn_handlers s)(h \<mapsto> ph)"
  by (simp_all add: set_handler_def)

lemma id_of_handler: "tn_handlers s h = Some ph \<Longrightarrow> id_of s h = handler_id ph"
  by (simp add: id_of_def)

text \<open>A request moves on without entering or leaving the pool.\<close>

lemma tn_inv_move:
  assumes inv: "tn_inv s" and h: "tn_handlers s h = Some ph"
    and "handler_id ph' = handler_id ph" and "live ph' = live ph" and "answer_ok ph'"
  shows "tn_inv (set_handler h ph' s)"
proof -
  have ids: "id_of (set_handler h ph' s) = id_of s"
    using assms(3) id_of_handler [OF h] by auto
  have "(\<exists>p. (tn_handlers (set_handler h ph' s)) x = Some p \<and> live p \<and> handler_id p = Some i) \<longleftrightarrow>
      (\<exists>p. tn_handlers s x = Some p \<and> live p \<and> handler_id p = Some i)" for x i
    using h assms(3,4) by (cases "x = h") auto
  with inv assms(5) show ?thesis
    unfolding tn_inv_alt ids by (simp split: if_split)
qed

lemma inv_outbox: "tn_inv (s\<lparr>tn_outbox := x\<rparr>) = tn_inv s"
  by (simp add: tn_inv_alt)

lemma inv_chan_drop: "tn_inv s \<Longrightarrow> tn_inv (s\<lparr>tn_chan := (tn_chan s)(h := None)\<rparr>)"
  unfolding tn_inv_alt by simp

lemma inv_new_handler:
  assumes inv: "tn_inv s" and h: "tn_handlers s h = None" and ph: "\<not> live ph" "handler_id ph = None" "answer_ok ph"
  shows "tn_inv (set_handler h ph s)"
proof -
  have ids: "id_of (set_handler h ph s) = id_of s" using h ph(2) by (auto simp: id_of_def)
  have "(\<exists>p. (tn_handlers (set_handler h ph s)) x = Some p \<and> live p \<and> handler_id p = Some i) \<longleftrightarrow>
      (\<exists>p. tn_handlers s x = Some p \<and> live p \<and> handler_id p = Some i)" for x i
    using h ph(1) by (cases "x = h") auto
  with inv ph(3) show ?thesis
    unfolding tn_inv_alt ids by (simp split: if_split)
qed

lemma inv_register:
  assumes inv: "tn_inv s" and h: "tn_handlers s h = Some (Routed st r)" and i: "\<And>h'. id_of s h' \<noteq> Some i"
  shows "tn_inv (set_handler h (Registered i st r) (registerWaiter i h s))"
proof -
  have pool: "tn_pool s j = Some x \<longleftrightarrow> (\<exists>ph. tn_handlers s x = Some ph \<and> live ph \<and> handler_id ph = Some j)" for j x
    using inv by (simp add: tn_inv_alt)
  have ih: "id_of s h = None" using id_of_handler [OF h] by simp
  have ni: "tn_handlers s x = Some ph \<Longrightarrow> handler_id ph \<noteq> Some i" for x ph
    using i [of x] by (simp add: id_of_def)
  have new: "((tn_pool s)(i \<mapsto> h)) j = Some x \<longleftrightarrow>
      (\<exists>ph. ((tn_handlers s)(h \<mapsto> Registered i st r)) x = Some ph \<and> live ph \<and> handler_id ph = Some j)" for j x
    using pool [of j x] h ni [of x] by (cases "j = i"; cases "x = h") auto
  let ?s = "set_handler h (Registered i st r) (registerWaiter i h s)"
  have f: "tn_routes ?s = tn_routes s" "tn_open ?s = tn_open s" "tn_chan ?s = tn_chan s"
      "tn_dispatch ?s = tn_dispatch s" "tn_pool ?s = (tn_pool s)(i \<mapsto> h)"
      "tn_handlers ?s = (tn_handlers s)(h \<mapsto> Registered i st r)"
      "id_of ?s = (\<lambda>x. if x = h then Some i else id_of s x)"
    by (auto simp: registerWaiter_def)
  show ?thesis
    unfolding tn_inv_alt f
  proof (intro conjI)
    show "\<forall>j x. ((tn_pool s)(i \<mapsto> h)) j = Some x \<longleftrightarrow> (\<exists>ph. ((tn_handlers s)(h \<mapsto> Registered i st r)) x = Some ph
        \<and> live ph \<and> handler_id ph = Some j)" using new by blast
    show "\<forall>x ph. ((tn_handlers s)(h \<mapsto> Registered i st r)) x = Some ph \<longrightarrow> answer_ok ph"
      using inv by (auto simp: tn_inv_alt)
    show "\<forall>p sta. (tn_routes s p = Some sta) = (tn_open s sta = Some p)"
      using inv by (simp add: tn_inv_alt)
    show "\<forall>sta x q. tn_dispatch s sta = Some (x, q) \<longrightarrow> (if x = h then Some i else id_of s x) = Some (tp_Id q)"
      using inv ih by (auto simp: tn_inv_alt)
    show "\<forall>x q. tn_chan s x = Some q \<longrightarrow> (if x = h then Some i else id_of s x) = Some (tp_Id q)"
      using inv ih by (auto simp: tn_inv_alt)
    show "\<forall>x x' j. (if x = h then Some i else id_of s x) = Some j \<longrightarrow>
        (if x' = h then Some i else id_of s x') = Some j \<longrightarrow> x = x'"
      using inv i by (auto simp: tn_inv_alt)
  qed
qed


lemma inv_close:
  assumes inv: "tn_inv s" and h: "tn_handlers s h = Some (Closing i reply)"
  shows "tn_inv (set_handler h (Replied (Some i) reply) (unregisterWaiter i s))"
proof -
  have pool: "tn_pool s j = Some x \<longleftrightarrow> (\<exists>ph. tn_handlers s x = Some ph \<and> live ph \<and> handler_id ph = Some j)" for j x
    using inv by (simp add: tn_inv_alt)
  have ph: "tn_pool s i = Some h" using pool [of i h] h by simp
  have new: "((tn_pool s)(i := None)) j = Some x \<longleftrightarrow>
      (\<exists>ph. ((tn_handlers s)(h \<mapsto> Replied (Some i) reply)) x = Some ph \<and> live ph \<and> handler_id ph = Some j)" for j x
    using pool [of j x] ph h by (cases "j = i"; cases "x = h") auto
  let ?s = "set_handler h (Replied (Some i) reply) (unregisterWaiter i s)"
  have ids: "id_of ?s = id_of s" using id_of_handler [OF h] by (auto simp: unregisterWaiter_def)
  have f: "tn_routes ?s = tn_routes s" "tn_open ?s = tn_open s" "tn_chan ?s = tn_chan s"
      "tn_dispatch ?s = tn_dispatch s" "tn_pool ?s = (tn_pool s)(i := None)"
      "tn_handlers ?s = (tn_handlers s)(h \<mapsto> Replied (Some i) reply)"
    by (auto simp: unregisterWaiter_def)
  have "answer_ok (Closing i reply)" using inv h unfolding tn_inv_alt by blast
  then have ok: "answer_ok (Replied (Some i) reply)" by (cases reply) auto
  show ?thesis
    unfolding tn_inv_alt f ids
  proof (intro conjI)
    show "\<forall>j x. ((tn_pool s)(i := None)) j = Some x \<longleftrightarrow> (\<exists>ph. ((tn_handlers s)(h \<mapsto> Replied (Some i) reply)) x = Some ph
        \<and> live ph \<and> handler_id ph = Some j)" using new by blast
    show "\<forall>x ph. ((tn_handlers s)(h \<mapsto> Replied (Some i) reply)) x = Some ph \<longrightarrow> answer_ok ph"
      using inv ok by (auto simp: tn_inv_alt)
  qed (use inv in \<open>unfold tn_inv_alt, blast\<close>)+
qed

lemma inv_answer:
  assumes inv: "tn_inv s" and h: "tn_handlers s h = Some (Awaiting i)" and c: "tn_chan s h = Some resp"
  shows "tn_inv (set_handler h (Closing i (FromTunnel resp)) (s\<lparr>tn_chan := (tn_chan s)(h := None)\<rparr>))"
proof (rule tn_inv_move)
  have "id_of s h = Some (tp_Id resp)" using inv c unfolding tn_inv_alt by blast
  then show "answer_ok (Closing i (FromTunnel resp))" by (simp add: id_of_handler [OF h])
qed (use h inv inv_chan_drop in auto)

lemma inv_bind:
  assumes inv: "tn_inv s" and n: "tn_open s st = None" and b: "OpenTunnel_bind st md s = (e, s')"
  shows "tn_inv s'"
proof (cases "e = None")
  case True
  with b obtain p where p: "tn_routes s p = None"
    and s': "s' = s\<lparr>tn_routes := (tn_routes s)(p \<mapsto> st), tn_open := (tn_open s)(st \<mapsto> p)\<rparr>"
    by (auto simp: OpenTunnel_bind_def split: list.splits if_splits)
  have r: "tn_routes s q = Some x \<longleftrightarrow> tn_open s x = Some q" for q x using inv by (simp add: tn_inv_alt)
  have "((tn_routes s)(p \<mapsto> st)) q = Some x \<longleftrightarrow> ((tn_open s)(st \<mapsto> p)) x = Some q" for q x
    using r [of q x] r [of p x] p n by (cases "q = p"; cases "x = st") auto
  with inv show ?thesis unfolding s' tn_inv_alt by (simp del: fun_upd_apply)
next
  case False
  with b have "s' = s" by (auto simp: OpenTunnel_bind_def split: list.splits if_splits)
  with inv show ?thesis by simp
qed

lemma inv_unbind:
  assumes inv: "tn_inv s" and o: "tn_open s st = Some p"
  shows "tn_inv (OpenTunnel_unbind st p s)"
proof -
  have r: "tn_routes s q = Some x \<longleftrightarrow> tn_open s x = Some q" for q x using inv by (simp add: tn_inv_alt)
  have "((tn_routes s)(p := None)) q = Some x \<longleftrightarrow> ((tn_open s)(st := None)) x = Some q" for q x
    using r [of q x] r [of p st] o by (cases "q = p"; cases "x = st") auto
  with inv show ?thesis unfolding OpenTunnel_unbind_def tn_inv_alt by (simp del: fun_upd_apply)
qed

lemma inv_lookup:
  assumes inv: "tn_inv s"
  shows "tn_inv (dispatch_lookup st resp s)"
proof (cases "tn_pool s (tp_Id resp)")
  case None
  with inv show ?thesis by (simp add: dispatch_lookup_def)
next
  case (Some h)
  then have "\<exists>ph. tn_handlers s h = Some ph \<and> handler_id ph = Some (tp_Id resp)"
    using inv unfolding tn_inv_alt by blast
  then have i: "id_of s h = Some (tp_Id resp)" by (auto simp: id_of_def)
  have s': "dispatch_lookup st resp s = s\<lparr>tn_dispatch := (tn_dispatch s)(st \<mapsto> (h, resp))\<rparr>"
    using Some by (simp add: dispatch_lookup_def)
  show ?thesis using inv i unfolding s' tn_inv_alt by simp
qed

lemma inv_deliver:
  assumes inv: "tn_inv s" and d: "tn_dispatch s st = Some (h, resp)"
  shows "tn_inv (dispatch_send st h resp s)"
proof -
  from inv d have "id_of s h = Some (tp_Id resp)" unfolding tn_inv_alt by blast
  with inv show ?thesis by (simp add: dispatch_send_def Let_def tn_inv_alt)
qed

lemma inv_tn_step: "tn_step s s' \<Longrightarrow> tn_inv s \<Longrightarrow> tn_inv s'"
proof (induction rule: tn_step.induct)
  case (route s h keys r)
  then show ?case
    by (intro inv_new_handler) (auto simp: serve_route_def Let_def split: option.splits)
next
  case (send s h i st r)
  then show ?case by (intro tn_inv_move) (auto simp: inv_outbox)
qed (auto intro: inv_bind inv_unbind inv_register tn_inv_move inv_answer inv_close inv_lookup inv_deliver)

lemma inv_tn_reach: "tn_reach s \<Longrightarrow> tn_inv s"
proof (induction rule: tn_reach.induct)
  case start
  then show ?case by (simp add: tn_inv_alt NewTunnelServer_def id_of_def)
next
  case (step s s')
  then show ?case by (blast intro: inv_tn_step)
qed


section \<open>Answers\<close>

text \<open>
  What \<^verbatim>\<open>ServeHTTP\<close> writes for its answer; \<^verbatim>\<open>WriteHeader\<close> panics on a code without three digits.
\<close>

definition write_response :: "TunnelResponse \<Rightarrow> http_response go" where
  "write_response resp =
     (if tp_StatusCode resp < 100 \<or> tp_StatusCode resp > 999
      then Inl (PanicMsg ''invalid WriteHeader code'')
      else Inr \<lparr>hs_StatusCode = tp_StatusCode resp,
                hs_Header = (\<lambda>k. map_option (\<lambda>v. [v]) (tp_Headers resp k)), hs_Body = tp_Body resp\<rparr>)"

text \<open>
  The agent: \<open>newRequest\<close> and \<open>client_do\<close> are \<^verbatim>\<open>http.NewRequest\<close> and \<^verbatim>\<open>http.DefaultClient.Do\<close>.
\<close>

definition sendError :: "string \<Rightarrow> int \<Rightarrow> string \<Rightarrow> TunnelResponse" where
  "sendError i statusCode msg =
     \<lparr>tp_Id = i, tp_StatusCode = statusCode, tp_Headers = Map.empty, tp_Body = msg\<rparr>"

definition handleRequest ::
  "(string \<Rightarrow> string \<Rightarrow> string option)
     \<Rightarrow> (string \<Rightarrow> string \<Rightarrow> (string \<rightharpoonup> string) \<Rightarrow> string \<Rightarrow> string + http_response)
     \<Rightarrow> TunnelRequest \<Rightarrow> TunnelResponse" where
  "handleRequest newRequest client_do req =
     (case newRequest (tq_Method req) (tq_Url req) of
        Some err \<Rightarrow> sendError (tq_Id req) 400 err
      | None \<Rightarrow>
          case client_do (tq_Method req) (tq_Url req) (tq_Headers req) (tq_Body req) of
            Inl err \<Rightarrow> sendError (tq_Id req) 502 err
          | Inr resp \<Rightarrow>
              \<lparr>tp_Id = tq_Id req, tp_StatusCode = hs_StatusCode resp,
               tp_Headers = first_headers (hs_Header resp), tp_Body = hs_Body resp\<rparr>)"

lemma handleRequest_id: "tp_Id (handleRequest n d req) = tq_Id req"
  by (simp add: handleRequest_def sendError_def split: option.splits sum.splits)

lemma tunnel_answer:
  assumes "tn_reach s" and h: "tn_handlers s h = Some (Awaiting i)" and st: "tn_open s st = Some p"
    and d: "tn_dispatch s st = None" and c: "tn_chan s h = None" and r: "tp_Id resp = i"
  shows "\<exists>s'. tn_step\<^sup>*\<^sup>* s s' \<and> tn_handlers s' h = Some (Closing i (FromTunnel resp))"
proof -
  have "tn_inv s" by (rule inv_tn_reach) (rule assms(1))
  with h have pool: "tn_pool s i = Some h" unfolding tn_inv_alt by fastforce
  let ?s1 = "s\<lparr>tn_dispatch := (tn_dispatch s)(st \<mapsto> (h, resp))\<rparr>"
  let ?s2 = "s\<lparr>tn_dispatch := (tn_dispatch s)(st := None), tn_chan := (tn_chan s)(h \<mapsto> resp)\<rparr>"
  let ?s3 = "set_handler h (Closing i (FromTunnel resp)) (?s2\<lparr>tn_chan := (tn_chan ?s2)(h := None)\<rparr>)"
  have "tn_step s ?s1"
    using tn_step.received [OF st d, of resp] by (simp add: dispatch_lookup_def r pool)
  moreover have "tn_step ?s1 ?s2"
    using tn_step.deliver [of ?s1 st h resp] c by (simp add: dispatch_send_def Let_def)
  moreover have "tn_step ?s2 ?s3"
    by (rule tn_step.answer) (use h in simp_all)
  ultimately have "tn_step\<^sup>*\<^sup>* s ?s3" by (meson converse_rtranclp_into_rtranclp rtranclp.rtrancl_refl)
  then show ?thesis by (rule exI [of _ ?s3, OF conjI]) simp
qed

section \<open>Properties of the server\<close>

text \<open>
  C6. However agents and HTTP requests interleave, the route table holds exactly the running
  streams, one for each prefix; an HTTP request is only ever answered by a response that carries its
  own id; and the pool holds exactly the requests that wait or are about to leave, so no entry leaks
  and none is lost.
\<close>

theorem tunnel_safe:
  assumes "tn_reach s"
  shows "(tn_routes s p = Some st \<longleftrightarrow> tn_open s st = Some p)
    \<and> (tn_handlers s h = Some (Replied i (FromTunnel r)) \<longrightarrow> i = Some (tp_Id r))
    \<and> (tn_pool s j = Some h \<longleftrightarrow> (\<exists>ph. tn_handlers s h = Some ph \<and> live ph \<and> handler_id ph = Some j))"
  using inv_tn_reach [OF assms] unfolding tn_inv_def by blast

definition wit_bound :: TunnelServer where
  "wit_bound = snd (OpenTunnel_bind 1 [''/app-a''] NewTunnelServer)"

lemma wit_bound_reach: "tn_reach wit_bound"
  unfolding wit_bound_def
  by (rule tn_reach.step [OF tn_reach.start]) (rule tn_step.bind [of _ 1 "[''/app-a'']" None],
    simp_all add: NewTunnelServer_def OpenTunnel_bind_def)

lemma tunnel_safe_witness: "tn_routes wit_bound ''/app-a'' = Some 1 \<longleftrightarrow> tn_open wit_bound 1 = Some ''/app-a''"
  using tunnel_safe [OF wit_bound_reach, of "''/app-a''" 1] by blast

definition wit_request :: http_request where
  "wit_request = \<lparr>hr_Method = ''GET'', hr_Path = ''/app-a/x'', hr_Url = ''/app-a/x'', hr_Header = Map.empty, hr_Body = []\<rparr>"

definition wit_routed :: TunnelServer where
  "wit_routed = set_handler 0 (serve_route [''/app-a''] wit_request wit_bound) wit_bound"

definition wit_registered :: TunnelServer where
  "wit_registered = set_handler 0 (Registered ''u1'' 1 wit_request) (registerWaiter ''u1'' 0 wit_routed)"

definition wit_waiting :: TunnelServer where
  "wit_waiting = set_handler 0 (Awaiting ''u1'')
     (wit_registered\<lparr>tn_outbox := tn_outbox wit_registered @ [(1, mk_TunnelRequest ''u1'' wit_request)]\<rparr>)"

lemmas wit_tunnel_defs = wit_waiting_def wit_registered_def wit_routed_def wit_bound_def wit_request_def
  NewTunnelServer_def OpenTunnel_bind_def serve_route_def extractPrefix_def registerWaiter_def

lemma wit_routed_handler: "tn_handlers wit_routed = [0 \<mapsto> Routed 1 wit_request]"
  by (simp add: wit_tunnel_defs)

lemma wit_waiting_reach: "tn_reach wit_waiting"
proof -
  have "tn_step wit_bound wit_routed"
    unfolding wit_routed_def by (rule tn_step.route) (simp_all add: wit_tunnel_defs)
  with wit_bound_reach have r1: "tn_reach wit_routed" by (rule tn_reach.step)
  have "tn_step wit_routed wit_registered"
    unfolding wit_registered_def
    by (rule tn_step.register) (simp_all add: id_of_def wit_routed_handler)
  with r1 have r2: "tn_reach wit_registered" by (rule tn_reach.step)
  have "tn_step wit_registered wit_waiting"
    unfolding wit_waiting_def by (rule tn_step.send) (simp add: wit_registered_def)
  with r2 show ?thesis by (rule tn_reach.step)
qed

text \<open>
  While an HTTP request waits and an agent's stream is open and idle, the response the agent
  computes for the request's message can reach it: there is a run in which exactly that response is
  taken from the channel, whether the agent's own call succeeded or failed.
\<close>

theorem tunnel_answers:
  assumes "tn_reach s" and "tn_handlers s h = Some (Awaiting i)" and "tn_open s st = Some p"
    and "tn_dispatch s st = None" and "tn_chan s h = None" and "tq_Id req = i"
  shows "\<exists>s'. tn_step\<^sup>*\<^sup>* s s' \<and>
    tn_handlers s' h = Some (Closing i (FromTunnel (handleRequest newRequest client_do req)))"
  by (rule tunnel_answer [OF assms(1-5)]) (simp add: handleRequest_id assms(6))

lemma tunnel_answers_witness:
  "\<exists>s'. tn_step\<^sup>*\<^sup>* wit_waiting s' \<and> tn_handlers s' 0 = Some (Closing ''u1''
     (FromTunnel (handleRequest (\<lambda>_ _. None) (\<lambda>_ _ _ _. Inl ''refused'') (mk_TunnelRequest ''u1'' wit_request))))"
  by (rule tunnel_answers [OF wit_waiting_reach, of _ _ 1 "''/app-a''"])
    (simp_all add: wit_tunnel_defs mk_TunnelRequest_def)

end
