(* ===== verification/ProxyTransport.thy ===== *)
theory ProxyTransport
  imports Prelude "HOL-Library.Sublist"
begin

text \<open>
  The HTTP transports of \<^verbatim>\<open>net/proxy\<close>: certificates and SAN checks (\<^verbatim>\<open>certificate.go\<close>), the tables of
  \<^verbatim>\<open>cipher.go\<close>, the options of \<^verbatim>\<open>http_builder.go\<close> and the manager of \<^verbatim>\<open>http_transport.go\<close>.  The file
  system, X.509 parsing and verification and the SPIFFE parser are one record of functions.
\<close>

section \<open>cipher.go and the versions of certificate.go\<close>

definition tls_versions :: "(string \<times> 16 word) list" where
  "tls_versions = [(''VersionTLS10'', 0x0301), (''VersionTLS11'', 0x0302), (''VersionTLS12'', 0x0303),
     (''VersionTLS13'', 0x0304)]"

definition MinVersions :: "string \<rightharpoonup> 16 word" where "MinVersions = map_of tls_versions"
definition MaxVersions :: "string \<rightharpoonup> 16 word" where "MaxVersions = map_of tls_versions"

definition CipherSuites :: "(string \<times> 16 word) list" where
  "CipherSuites =
    [(''TLS_RSA_WITH_RC4_128_SHA'', 0x0005),
     (''TLS_RSA_WITH_3DES_EDE_CBC_SHA'', 0x000a),
     (''TLS_RSA_WITH_AES_128_CBC_SHA'', 0x002f),
     (''TLS_RSA_WITH_AES_256_CBC_SHA'', 0x0035),
     (''TLS_RSA_WITH_AES_128_CBC_SHA256'', 0x003c),
     (''TLS_RSA_WITH_AES_128_GCM_SHA256'', 0x009c),
     (''TLS_RSA_WITH_AES_256_GCM_SHA384'', 0x009d),
     (''TLS_ECDHE_ECDSA_WITH_RC4_128_SHA'', 0xc007),
     (''TLS_ECDHE_ECDSA_WITH_AES_128_CBC_SHA'', 0xc009),
     (''TLS_ECDHE_ECDSA_WITH_AES_256_CBC_SHA'', 0xc00a),
     (''TLS_ECDHE_RSA_WITH_RC4_128_SHA'', 0xc011),
     (''TLS_ECDHE_RSA_WITH_3DES_EDE_CBC_SHA'', 0xc012),
     (''TLS_ECDHE_RSA_WITH_AES_128_CBC_SHA'', 0xc013),
     (''TLS_ECDHE_RSA_WITH_AES_256_CBC_SHA'', 0xc014),
     (''TLS_ECDHE_ECDSA_WITH_AES_128_CBC_SHA256'', 0xc023),
     (''TLS_ECDHE_RSA_WITH_AES_128_CBC_SHA256'', 0xc027),
     (''TLS_ECDHE_RSA_WITH_AES_128_GCM_SHA256'', 0xc02f),
     (''TLS_ECDHE_ECDSA_WITH_AES_128_GCM_SHA256'', 0xc02b),
     (''TLS_ECDHE_RSA_WITH_AES_256_GCM_SHA384'', 0xc030),
     (''TLS_ECDHE_ECDSA_WITH_AES_256_GCM_SHA384'', 0xc02c),
     (''TLS_ECDHE_RSA_WITH_CHACHA20_POLY1305'', 0xcca8),
     (''TLS_ECDHE_RSA_WITH_CHACHA20_POLY1305_SHA256'', 0xcca8),
     (''TLS_ECDHE_ECDSA_WITH_CHACHA20_POLY1305'', 0xcca9),
     (''TLS_ECDHE_ECDSA_WITH_CHACHA20_POLY1305_SHA256'', 0xcca9),
     (''TLS_AES_128_GCM_SHA256'', 0x1301),
     (''TLS_AES_256_GCM_SHA384'', 0x1302),
     (''TLS_CHACHA20_POLY1305_SHA256'', 0x1303),
     (''TLS_FALLBACK_SCSV'', 0x5600)]"

section \<open>certificate.go\<close>

text \<open>What is read of the world: paths, files, key pairs, peer chains and SPIFFE names.\<close>

record ('cert, 'leaf) env =
  ev_exists :: "string \<Rightarrow> bool"
  ev_ReadFile :: "string \<Rightarrow> string + string"
  ev_X509KeyPair :: "string \<Rightarrow> string \<Rightarrow> string + 'cert"
  ev_verifyChain :: "string list option \<Rightarrow> string list \<Rightarrow> string + 'leaf"
  ev_URIs :: "'leaf \<Rightarrow> string list"
  ev_VerifyHostname :: "'leaf \<Rightarrow> string \<Rightarrow> string option"
  ev_EqualFold :: "string \<Rightarrow> string \<Rightarrow> bool"
  ev_spiffeID :: "string \<Rightarrow> string + string"
  ev_trustDomain :: "string \<Rightarrow> string + string"

type_synonym FileOrContent = string

definition FileOrContent_Read :: "('cert, 'leaf) env \<Rightarrow> FileOrContent \<Rightarrow> string + string" where
  "FileOrContent_Read ev f = (if ev_exists ev f then ev_ReadFile ev f else Inr f)"

record Certificate =
  ce_CertFile :: FileOrContent
  ce_KeyFile :: FileOrContent

definition GetCertificate :: "('cert, 'leaf) env \<Rightarrow> Certificate \<Rightarrow> string + 'cert" where
  "GetCertificate ev c =
     (case FileOrContent_Read ev (ce_CertFile c) of
        Inl e \<Rightarrow> Inl (''unable to read CertFile: '' @ e)
      | Inr certContent \<Rightarrow>
      case FileOrContent_Read ev (ce_KeyFile c) of
        Inl e \<Rightarrow> Inl (''unable to read KeyFile: '' @ e)
      | Inr keyContent \<Rightarrow>
      case ev_X509KeyPair ev certContent keyContent of
        Inl e \<Rightarrow> Inl (''unable to parse TLS certificate: '' @ e)
      | Inr cert \<Rightarrow> Inr cert)"

fun GetCertificates :: "('cert, 'leaf) env \<Rightarrow> Certificate list \<Rightarrow> 'cert list" where
  "GetCertificates ev [] = []"
| "GetCertificates ev (c # cs) =
     (case GetCertificate ev c of Inl e \<Rightarrow> GetCertificates ev cs | Inr cert \<Rightarrow> cert # GetCertificates ev cs)"

text \<open>The type of a SAN is a string; other strings match nothing.\<close>

record SAN =
  san_Type :: string
  san_Value :: string

definition SANDNSNameType :: string where "SANDNSNameType = ''DNSName''"
definition SANURIType :: string where "SANURIType = ''URI''"

definition san_matches :: "('cert, 'leaf) env \<Rightarrow> 'leaf \<Rightarrow> SAN \<Rightarrow> bool" where
  "san_matches ev cert san =
     (if san_Type san = SANURIType then list_ex (\<lambda>uri. ev_EqualFold ev (san_Value san) uri) (ev_URIs ev cert)
      else if san_Type san = SANDNSNameType then ev_VerifyHostname ev cert (san_Value san) = None
      else False)"

text \<open>\<^verbatim>\<open>verifyChain\<close> starts with the test for certificates; the rest is parsing and verification.\<close>

definition verifyChain :: "('cert, 'leaf) env \<Rightarrow> string list option \<Rightarrow> string list \<Rightarrow> string + 'leaf" where
  "verifyChain ev rootCAs rawCerts =
     (if rawCerts = [] then Inl ''tls: no certificates from peer'' else ev_verifyChain ev rootCAs rawCerts)"

definition VerifyPeerCertificate ::
  "('cert, 'leaf) env \<Rightarrow> SAN list \<Rightarrow> string list option \<Rightarrow> string list \<Rightarrow> string option" where
  "VerifyPeerCertificate ev sans rootCAs rawCerts =
     (case verifyChain ev rootCAs rawCerts of
        Inl e \<Rightarrow> Some (''verifying chain: '' @ e)
      | Inr cert \<Rightarrow> if list_ex (san_matches ev cert) sans then None
                    else Some ''no matching SAN in peer certificate'')"

section \<open>http_builder.go\<close>

record ForwardingTimeouts =
  fo_DialTimeout :: int
  fo_ResponseHeaderTimeout :: int
  fo_IdleConnTimeout :: int
  fo_ReadIdleTimeout :: int
  fo_PingTimeout :: int
  fo_ReadTimeout :: int
  fo_WriteTimeout :: int

record Spiffe =
  sp_IDs :: "string list"
  sp_TrustDomain :: string

record ServersTransport =
  st_ServerName :: string
  st_InsecureSkipVerify :: bool
  st_RootCAs :: "FileOrContent list"
  st_Certificates :: "Certificate list"
  st_CipherSuites :: "string list"
  st_MinVersion :: string
  st_MaxVersion :: string
  st_MaxIdleConnsPerHost :: int
  st_ForwardingTimeouts :: "ForwardingTimeouts option"
  st_DisableHTTP2 :: bool
  st_PeerCertURI :: string
  st_PeerCertSANs :: "SAN list"
  st_Spiffe :: "Spiffe option"

definition empty_transport :: ServersTransport where
  "empty_transport = \<lparr>st_ServerName = [], st_InsecureSkipVerify = False, st_RootCAs = [], st_Certificates = [],
     st_CipherSuites = [], st_MinVersion = [], st_MaxVersion = [], st_MaxIdleConnsPerHost = 0,
     st_ForwardingTimeouts = None, st_DisableHTTP2 = False, st_PeerCertURI = [], st_PeerCertSANs = [],
     st_Spiffe = None\<rparr>"

section \<open>createTLSConfig\<close>

datatype authorizer = AuthorizeOneOf "string list" | AuthorizeMemberOf string | AuthorizeAny

text \<open>The closure that verifies the peer keeps its SANs; it reads the root CAs of the configuration.\<close>

record 'cert plain_tls =
  tc_ServerName :: string
  tc_InsecureSkipVerify :: bool
  tc_RootCAs :: "string list option"
  tc_Certificates :: "'cert list"
  tc_CipherSuites :: "16 word list"
  tc_MinVersion :: "16 word"
  tc_MaxVersion :: "16 word"
  tc_VerifyPeer :: "SAN list option"

datatype 'cert tls_config = SpiffeTLS authorizer | PlainTLS "'cert plain_tls"

fun parse_ids :: "('cert, 'leaf) env \<Rightarrow> string list \<Rightarrow> string + string list" where
  "parse_ids ev [] = Inr []"
| "parse_ids ev (r # rs) =
     (case ev_spiffeID ev r of
        Inl e \<Rightarrow> Inl (''invalid SPIFFE ID: '' @ e)
      | Inr i \<Rightarrow> map_sum id ((#) i) (parse_ids ev rs))"

definition buildHTTPSpiffeAuthorizer :: "('cert, 'leaf) env \<Rightarrow> Spiffe \<Rightarrow> string + authorizer" where
  "buildHTTPSpiffeAuthorizer ev cfg =
     (if sp_IDs cfg \<noteq> [] then map_sum id AuthorizeOneOf (parse_ids ev (sp_IDs cfg))
      else if sp_TrustDomain cfg \<noteq> [] then
        (case ev_trustDomain ev (sp_TrustDomain cfg) of
           Inl e \<Rightarrow> Inl (''invalid SPIFFE trust domain: '' @ e)
         | Inr d \<Rightarrow> Inr (AuthorizeMemberOf d))
      else Inr AuthorizeAny)"

text \<open>The pool holds the readable contents; unreadable ones are skipped.\<close>

definition createHTTPRootCACertPool :: "('cert, 'leaf) env \<Rightarrow> FileOrContent list \<Rightarrow> string list option" where
  "createHTTPRootCACertPool ev rootCAs =
     (if rootCAs = [] then None
      else Some (List.map_filter (\<lambda>c. case FileOrContent_Read ev c of Inl e \<Rightarrow> None | Inr s \<Rightarrow> Some s) rootCAs))"

fun lookup_ciphers :: "string list \<Rightarrow> string + 16 word list" where
  "lookup_ciphers [] = Inr []"
| "lookup_ciphers (c # cs) =
     (case map_of CipherSuites c of
        None \<Rightarrow> Inl (''invalid CipherSuite: '' @ c)
      | Some i \<Rightarrow> map_sum id ((#) i) (lookup_ciphers cs))"

definition lookup_version :: "(string \<rightharpoonup> 16 word) \<Rightarrow> string \<Rightarrow> string \<Rightarrow> string + 16 word" where
  "lookup_version tab msg v =
     (if v = [] then Inr 0
      else case tab v of None \<Rightarrow> Inl (msg @ v) | Some n \<Rightarrow> Inr n)"

definition wants_plain_tls :: "ServersTransport \<Rightarrow> bool" where
  "wants_plain_tls cfg \<longleftrightarrow> st_InsecureSkipVerify cfg \<or> st_RootCAs cfg \<noteq> [] \<or> st_ServerName cfg \<noteq> []
     \<or> st_Certificates cfg \<noteq> [] \<or> st_PeerCertURI cfg \<noteq> [] \<or> st_PeerCertSANs cfg \<noteq> []
     \<or> st_CipherSuites cfg \<noteq> [] \<or> st_MaxVersion cfg \<noteq> [] \<or> st_MinVersion cfg \<noteq> []"

definition peer_sans :: "ServersTransport \<Rightarrow> SAN list" where
  "peer_sans cfg = st_PeerCertSANs cfg
     @ (if st_PeerCertURI cfg \<noteq> [] then [\<lparr>san_Type = SANURIType, san_Value = st_PeerCertURI cfg\<rparr>] else [])"

definition plain_tls_config :: "('cert, 'leaf) env \<Rightarrow> ServersTransport \<Rightarrow> string + 'cert plain_tls" where
  "plain_tls_config ev cfg =
     bnd (lookup_ciphers (st_CipherSuites cfg)) (\<lambda>cipherSuites.
     bnd (lookup_version MinVersions ''invalid TLS minimum version: '' (st_MinVersion cfg)) (\<lambda>minVersion.
     bnd (lookup_version MaxVersions ''invalid TLS maximum version: '' (st_MaxVersion cfg)) (\<lambda>maxVersion.
       if minVersion > maxVersion
       then Inl (''TLS minimum version '' @ st_MinVersion cfg @ '' is above the maximum version '' @ st_MaxVersion cfg)
       else Inr \<lparr>tc_ServerName = st_ServerName cfg, tc_InsecureSkipVerify = st_InsecureSkipVerify cfg,
                 tc_RootCAs = createHTTPRootCACertPool ev (st_RootCAs cfg),
                 tc_Certificates = GetCertificates ev (st_Certificates cfg),
                 tc_CipherSuites = cipherSuites, tc_MinVersion = minVersion, tc_MaxVersion = maxVersion,
                 tc_VerifyPeer = (if peer_sans cfg \<noteq> [] then Some (peer_sans cfg) else None)\<rparr>)))"

definition spiffe_config ::
  "bool \<Rightarrow> ('cert, 'leaf) env \<Rightarrow> Spiffe option \<Rightarrow> string + authorizer option" where
  "spiffe_config has_source ev cfg =
     (case cfg of
        None \<Rightarrow> Inr None
      | Some sp \<Rightarrow>
          if \<not> has_source then Inl ''SPIFFE is enabled for this transport, but not configured''
          else case buildHTTPSpiffeAuthorizer ev sp of
                 Inl e \<Rightarrow> Inl (''unable to build SPIFFE authorizer: '' @ e)
               | Inr a \<Rightarrow> Inr (Some a))"

definition createTLSConfig ::
  "bool \<Rightarrow> ('cert, 'leaf) env \<Rightarrow> ServersTransport \<Rightarrow> string + 'cert tls_config option" where
  "createTLSConfig has_source ev cfg =
     bnd (spiffe_config has_source ev (st_Spiffe cfg)) (\<lambda>spiffe.
       if wants_plain_tls cfg
       then (if spiffe \<noteq> None then Inl ''TLS and SPIFFE configuration cannot be defined at the same time''
             else map_sum id (\<lambda>c. Some (PlainTLS c)) (plain_tls_config ev cfg))
       else Inr (map_option SpiffeTLS spiffe))"


section \<open>createRoundTripper\<close>

definition seconds :: "int \<Rightarrow> int" where "seconds n = n * 1000000000"

record 'cert transport =
  tr_DialTimeout :: int
  tr_KeepAlive :: int
  tr_ConnTimeouts :: "(int \<times> int) option"
  tr_MaxIdleConnsPerHost :: int
  tr_IdleConnTimeout :: int
  tr_TLSHandshakeTimeout :: int
  tr_ExpectContinueTimeout :: int
  tr_ResponseHeaderTimeout :: int
  tr_HTTP2 :: "(int \<times> int) option"
  tr_TLSClientConfig :: "'cert tls_config option"

datatype 'cert round_tripper = DefaultTransport | PlainTransport "'cert transport" | SmartTransport "'cert transport"

text \<open>Read and write time-outs wrap the connection only when one of them is positive.\<close>

definition customHTTPDialContext :: "ForwardingTimeouts \<Rightarrow> (int \<times> int) option" where
  "customHTTPDialContext cfg =
     (if fo_ReadTimeout cfg \<le> 0 \<and> fo_WriteTimeout cfg \<le> 0 then None
      else Some (fo_ReadTimeout cfg, fo_WriteTimeout cfg))"

definition createRoundTripper ::
  "ServersTransport option \<Rightarrow> 'cert tls_config option \<Rightarrow> string + 'cert round_tripper" where
  "createRoundTripper cfgp tls =
     (case cfgp of
        None \<Rightarrow> Inl ''no transport configuration given''
      | Some cfg \<Rightarrow>
          let t0 = \<lparr>tr_DialTimeout = seconds 30, tr_KeepAlive = seconds 30, tr_ConnTimeouts = None,
                    tr_MaxIdleConnsPerHost = st_MaxIdleConnsPerHost cfg, tr_IdleConnTimeout = seconds 90,
                    tr_TLSHandshakeTimeout = seconds 10, tr_ExpectContinueTimeout = seconds 1,
                    tr_ResponseHeaderTimeout = 0, tr_HTTP2 = None, tr_TLSClientConfig = tls\<rparr>;
              t = (case st_ForwardingTimeouts cfg of
                     None \<Rightarrow> t0
                   | Some ft \<Rightarrow> t0\<lparr>tr_DialTimeout := fo_DialTimeout ft,
                                   tr_ResponseHeaderTimeout := fo_ResponseHeaderTimeout ft,
                                   tr_IdleConnTimeout := fo_IdleConnTimeout ft,
                                   tr_ConnTimeouts := customHTTPDialContext ft,
                                   tr_HTTP2 := Some (fo_ReadIdleTimeout ft, fo_PingTimeout ft)\<rparr>)
          in Inr (if st_DisableHTTP2 cfg then PlainTransport t else SmartTransport t))"

text \<open>
  The round trip of the smart transport: the scheme it sends and which of its three transports.
  \<open>upgrade\<close> is whether the connection header asks for an upgrade.
\<close>

datatype protocol = UseHTTP1 | UseHTTP2 | UseH2C

definition smart_RoundTrip :: "bool \<Rightarrow> string \<Rightarrow> string \<times> protocol" where
  "smart_RoundTrip upgrade scheme =
     (let h2c = (scheme = ''h2c''); scheme' = (if h2c then ''http'' else scheme) in
      (scheme', if upgrade then UseHTTP1 else if h2c then UseH2C else UseHTTP2))"

text \<open>
  The sticky round tripper: \<open>holder\<close> is what the request context holds, if anything; \<open>go\<close> performs
  the request on a round tripper.
\<close>

definition containsNTLMorNegotiate :: "string list \<Rightarrow> bool" where
  "containsNTLMorNegotiate vs = list_ex (\<lambda>v. prefix ''NTLM'' v \<or> prefix ''Negotiate'' v) vs"

definition kerberos_RoundTrip ::
  "('rt \<Rightarrow> string + 'resp) \<Rightarrow> ('resp \<Rightarrow> string list) \<Rightarrow> 'rt \<Rightarrow> 'rt \<Rightarrow> 'rt option option
     \<Rightarrow> (string + 'resp) \<times> 'rt option option" where
  "kerberos_RoundTrip go wwwAuthenticate fresh orig holder =
     (case holder of
        None \<Rightarrow> (go orig, None)
      | Some (Some rt) \<Rightarrow> (go rt, Some (Some rt))
      | Some None \<Rightarrow>
          (case go orig of
             Inl e \<Rightarrow> (Inl e, Some None)
           | Inr resp \<Rightarrow> (Inr resp,
               if containsNTLMorNegotiate (wwwAuthenticate resp) then Some (Some fresh) else Some None)))"

section \<open>The manager\<close>

text \<open>A configuration is a pointer, which may be nil; so is a TLS configuration.\<close>

type_synonym configs = "string \<rightharpoonup> ServersTransport option"

record 'cert HTTPTransportManager =
  mg_roundTrippers :: "string \<rightharpoonup> 'cert round_tripper"
  mg_configs :: configs
  mg_tlsConfigs :: "string \<rightharpoonup> 'cert tls_config option"
  mg_spiffe :: bool

definition default_name :: string where "default_name = ''default@internal''"

definition rebuild_transport ::
  "('cert, 'leaf) env \<Rightarrow> string \<Rightarrow> ServersTransport option \<Rightarrow> 'cert HTTPTransportManager
     \<Rightarrow> 'cert HTTPTransportManager go" where
  "rebuild_transport ev configName newConfig m =
     (case newConfig of
        None \<Rightarrow> Inl NilDereference
      | Some cfg \<Rightarrow>
          let tls = (case createTLSConfig (mg_spiffe m) ev cfg of Inl e \<Rightarrow> None | Inr c \<Rightarrow> c);
              rt = (case createRoundTripper newConfig tls of Inl e \<Rightarrow> DefaultTransport | Inr r \<Rightarrow> r)
          in Inr (m\<lparr>mg_tlsConfigs := (mg_tlsConfigs m)(configName \<mapsto> tls),
                    mg_roundTrippers := (mg_roundTrippers m)(configName \<mapsto> rt)\<rparr>))"

fun update_existing ::
  "('cert, 'leaf) env \<Rightarrow> configs \<Rightarrow> string list \<Rightarrow> 'cert HTTPTransportManager \<Rightarrow> 'cert HTTPTransportManager go" where
  "update_existing ev newConfigs [] m = Inr m"
| "update_existing ev newConfigs (n # ns) m =
     (case mg_configs m n of
        None \<Rightarrow> update_existing ev newConfigs ns m
      | Some config \<Rightarrow>
          (case newConfigs n of
             None \<Rightarrow> update_existing ev newConfigs ns
                       (m\<lparr>mg_configs := (mg_configs m)(n := None),
                          mg_roundTrippers := (mg_roundTrippers m)(n := None),
                          mg_tlsConfigs := (mg_tlsConfigs m)(n := None)\<rparr>)
           | Some newConfig \<Rightarrow>
               if newConfig = config then update_existing ev newConfigs ns m
               else bnd (rebuild_transport ev n newConfig m) (update_existing ev newConfigs ns)))"

fun update_new ::
  "('cert, 'leaf) env \<Rightarrow> configs \<Rightarrow> string list \<Rightarrow> 'cert HTTPTransportManager \<Rightarrow> 'cert HTTPTransportManager go" where
  "update_new ev newConfigs [] m = Inr m"
| "update_new ev newConfigs (n # ns) m =
     (case newConfigs n of
        None \<Rightarrow> update_new ev newConfigs ns m
      | Some newConfig \<Rightarrow>
          if mg_configs m n \<noteq> None then update_new ev newConfigs ns m
          else bnd (rebuild_transport ev n newConfig m) (update_new ev newConfigs ns))"

definition with_default :: "configs option \<Rightarrow> configs" where
  "with_default newConfigs =
     (let c = (case newConfigs of None \<Rightarrow> Map.empty | Some c \<Rightarrow> c) in
      if c default_name \<noteq> None then c else c(default_name \<mapsto> Some empty_transport))"

text \<open>\<open>olds\<close> and \<open>news\<close> are the orders in which \<open>range\<close> visits the two maps.\<close>

definition HTTPTransportManager_Update ::
  "('cert, 'leaf) env \<Rightarrow> string list \<Rightarrow> string list \<Rightarrow> configs option \<Rightarrow> 'cert HTTPTransportManager
     \<Rightarrow> 'cert HTTPTransportManager go" where
  "HTTPTransportManager_Update ev olds news newConfigs m =
     (let new = with_default newConfigs in
      bnd (update_existing ev new olds m) (\<lambda>m1.
      bnd (update_new ev new news m1) (\<lambda>m2. Inr (m2\<lparr>mg_configs := new\<rparr>))))"

definition NewHTTPTransportManager :: "('cert, 'leaf) env \<Rightarrow> bool \<Rightarrow> 'cert HTTPTransportManager go" where
  "NewHTTPTransportManager ev has_source =
     HTTPTransportManager_Update ev [] [default_name] (Some [default_name \<mapsto> Some empty_transport])
       \<lparr>mg_roundTrippers = Map.empty, mg_configs = Map.empty, mg_tlsConfigs = Map.empty, mg_spiffe = has_source\<rparr>"

definition or_default :: "string \<Rightarrow> string" where
  "or_default name = (if name = [] then default_name else name)"

definition GetRoundTripper :: "'cert HTTPTransportManager \<Rightarrow> string \<Rightarrow> string + 'cert round_tripper" where
  "GetRoundTripper m name =
     (case mg_roundTrippers m (or_default name) of
        Some rt \<Rightarrow> Inr rt | None \<Rightarrow> Inl (''servers transport not found '' @ or_default name))"

definition GetTransport :: "'cert HTTPTransportManager \<Rightarrow> string \<Rightarrow> string + ServersTransport option" where
  "GetTransport m name =
     (case mg_configs m (or_default name) of
        Some c \<Rightarrow> Inr c | None \<Rightarrow> Inl (''servers transport not found '' @ or_default name))"

definition GetTLSConfig :: "'cert HTTPTransportManager \<Rightarrow> string \<Rightarrow> string + 'cert tls_config option" where
  "GetTLSConfig m name =
     (case mg_tlsConfigs m (or_default name) of
        Some c \<Rightarrow> Inr c | None \<Rightarrow> Inl (''tls config not found '' @ or_default name))"

section \<open>What an update leaves\<close>

text \<open>The manager that holds, for each configuration, what is built for it from scratch.\<close>

definition tls_for :: "('cert, 'leaf) env \<Rightarrow> bool \<Rightarrow> ServersTransport \<Rightarrow> 'cert tls_config option" where
  "tls_for ev src cfg = (case createTLSConfig src ev cfg of Inl e \<Rightarrow> None | Inr c \<Rightarrow> c)"

definition rt_for :: "('cert, 'leaf) env \<Rightarrow> bool \<Rightarrow> ServersTransport \<Rightarrow> 'cert round_tripper" where
  "rt_for ev src cfg =
     (case createRoundTripper (Some cfg) (tls_for ev src cfg) of Inl e \<Rightarrow> DefaultTransport | Inr r \<Rightarrow> r)"

definition pointers :: "(string \<rightharpoonup> 'a) \<Rightarrow> string \<rightharpoonup> 'a option" where
  "pointers cs = (\<lambda>k. map_option Some (cs k))"

lemma pointers_at: "pointers cs k = map_option Some (cs k)"
  by (simp add: pointers_def)

lemma pointers_upd: "pointers (cs(k := v)) = (pointers cs)(k := map_option Some v)"
  by (auto simp: pointers_def)

definition manager_for :: "('cert, 'leaf) env \<Rightarrow> bool \<Rightarrow> (string \<rightharpoonup> ServersTransport) \<Rightarrow> 'cert HTTPTransportManager" where
  "manager_for ev src cs =
     \<lparr>mg_roundTrippers = map_option (rt_for ev src) \<circ> cs, mg_configs = pointers cs,
      mg_tlsConfigs = map_option (tls_for ev src) \<circ> cs, mg_spiffe = src\<rparr>"

lemma rebuild_Some:
  "rebuild_transport ev n (Some cfg) m =
   Inr (m\<lparr>mg_tlsConfigs := (mg_tlsConfigs m)(n \<mapsto> tls_for ev (mg_spiffe m) cfg),
          mg_roundTrippers := (mg_roundTrippers m)(n \<mapsto> rt_for ev (mg_spiffe m) cfg)\<rparr>)"
  by (simp add: rebuild_transport_def tls_for_def rt_for_def Let_def)

text \<open>
  Between the steps of the loops: at the names in \<open>dn\<close> the manager is as built for \<open>new\<close>, elsewhere
  as for \<open>old\<close>; the configurations still are the old ones, without those that went.
\<close>

definition mixed :: "string set \<Rightarrow> (string \<rightharpoonup> 'a) \<Rightarrow> (string \<rightharpoonup> 'a) \<Rightarrow> string \<rightharpoonup> 'a" where
  "mixed dn new old = (\<lambda>k. if k \<in> dn then new k else old k)"

definition between_steps ::
  "('cert, 'leaf) env \<Rightarrow> bool \<Rightarrow> string set \<Rightarrow> (string \<rightharpoonup> ServersTransport) \<Rightarrow> (string \<rightharpoonup> ServersTransport)
     \<Rightarrow> (string \<rightharpoonup> ServersTransport) \<Rightarrow> 'cert HTTPTransportManager" where
  "between_steps ev src dn new old cs =
     \<lparr>mg_roundTrippers = map_option (rt_for ev src) \<circ> mixed dn new old, mg_configs = pointers cs,
      mg_tlsConfigs = map_option (tls_for ev src) \<circ> mixed dn new old, mg_spiffe = src\<rparr>"

definition surviving :: "string set \<Rightarrow> (string \<rightharpoonup> 'a) \<Rightarrow> (string \<rightharpoonup> 'a) \<Rightarrow> string \<rightharpoonup> 'a" where
  "surviving dn new old = (\<lambda>k. if k \<in> dn \<and> new k = None then None else old k)"

lemma mixed_insert: "f \<circ> mixed (insert n dn) new old = (f \<circ> mixed dn new old)(n := f (new n))"
  by (auto simp: mixed_def)

lemma mixed_keep: "n \<in> dn \<or> new n = old n \<Longrightarrow> mixed (insert n dn) new old = mixed dn new old"
  by (auto simp: mixed_def)

lemmas mixed_same = mixed_keep [OF disjI2]

lemma surviving_insert:
  "surviving (insert n dn) new old = (if new n = None then (surviving dn new old)(n := None) else surviving dn new old)"
  by (auto simp: surviving_def fun_eq_iff)

lemma between_insert_rebuild:
  "new n = Some c \<Longrightarrow> rebuild_transport ev n (Some c) (between_steps ev src dn new old cs) =
   Inr (between_steps ev src (insert n dn) new old cs)"
  by (simp add: rebuild_Some between_steps_def mixed_insert)

lemma update_existing_steps:
  "update_existing ev (pointers new) ns (between_steps ev src dn new old (surviving dn new old)) =
   Inr (between_steps ev src (dn \<union> (set ns \<inter> dom old)) new old (surviving (dn \<union> (set ns \<inter> dom old)) new old))"
proof (induction ns arbitrary: dn)
  case (Cons n ns)
  let ?m = "\<lambda>dn. between_steps ev src dn new old (surviving dn new old)"
  have cfg: "mg_configs (?m dn) n = map_option Some (surviving dn new old n)"
    by (simp add: between_steps_def pointers_at)
  have IH: "update_existing ev (pointers new) ns (?m (insert n dn)) =
      Inr (?m (dn \<union> (set (n # ns) \<inter> dom old)))" if "n \<in> dom old"
    using Cons.IH [of "insert n dn"] that by simp
  show ?case
  proof (cases "surviving dn new old n")
    case None
    then have "dn \<union> (set (n # ns) \<inter> dom old) = dn \<union> (set ns \<inter> dom old)"
      by (auto simp: surviving_def split: if_splits)
    moreover have "update_existing ev (pointers new) (n # ns) (?m dn) = update_existing ev (pointers new) ns (?m dn)"
      by (simp only: update_existing.simps cfg None option.simps)
    ultimately show ?thesis using Cons.IH [of dn] by simp
  next
    case (Some c)
    then have old: "old n = Some c" by (auto simp: surviving_def split: if_splits)
    show ?thesis
    proof (cases "new n")
      case new: None
      have u: "(?m dn)\<lparr>mg_configs := (mg_configs (?m dn))(n := None),
          mg_roundTrippers := (mg_roundTrippers (?m dn))(n := None),
          mg_tlsConfigs := (mg_tlsConfigs (?m dn))(n := None)\<rparr> = ?m (insert n dn)"
        by (simp add: between_steps_def mixed_insert surviving_insert new pointers_upd)
      have "update_existing ev (pointers new) (n # ns) (?m dn) = update_existing ev (pointers new) ns (?m (insert n dn))"
        by (simp only: update_existing.simps cfg Some new pointers_at [of new n] option.simps u)
      with IH old show ?thesis by (simp only: domI)
    next
      case new: (Some c')
      show ?thesis
      proof (cases "c' = c")
        case True
        with new old have "?m (insert n dn) = ?m dn"
          by (simp add: between_steps_def mixed_same surviving_insert)
        moreover have "update_existing ev (pointers new) (n # ns) (?m dn) = update_existing ev (pointers new) ns (?m dn)"
          using True by (simp only: update_existing.simps cfg Some new pointers_at [of new n] option.simps simp_thms if_True)
        ultimately show ?thesis using IH old by (simp only: domI)
      next
        case False
        have "surviving (insert n dn) new old = surviving dn new old" using new by (simp add: surviving_insert)
        then have "update_existing ev (pointers new) (n # ns) (?m dn) = update_existing ev (pointers new) ns (?m (insert n dn))"
          using False
          by (simp only: update_existing.simps cfg Some new pointers_at [of new n] option.simps option.inject if_False
              between_insert_rebuild bnd.simps)
        with IH old show ?thesis by (simp only: domI)
      qed
    qed
  qed
qed simp

lemma update_new_steps:
  "dom old \<subseteq> dn \<Longrightarrow>
   update_new ev (pointers new) ns (between_steps ev src dn new old cs) =
   Inr (between_steps ev src (dn \<union> {n \<in> set ns. cs n = None}) new old cs)"
proof (induction ns arbitrary: dn)
  case (Cons n ns)
  let ?m = "\<lambda>dn. between_steps ev src dn new old cs"
  have cfg: "mg_configs (?m dn) n = map_option Some (cs n)" by (simp add: between_steps_def pointers_at)
  show ?case
  proof (cases "cs n")
    case None
    have IH: "update_new ev (pointers new) ns (?m (insert n dn)) =
        Inr (?m (dn \<union> {k \<in> set (n # ns). cs k = None}))"
    proof -
      have "insert n dn \<union> {k \<in> set ns. cs k = None} = dn \<union> {k \<in> set (n # ns). cs k = None}"
        using None by auto
      with Cons.IH [of "insert n dn"] Cons.prems show ?thesis by (simp add: subset_insertI2)
    qed
    show ?thesis
    proof (cases "new n")
      case new: None
      have "mixed (insert n dn) new old = mixed dn new old"
      proof (rule mixed_keep)
        show "n \<in> dn \<or> new n = old n" using Cons.prems new by (cases "old n") auto
      qed
      then have "?m (insert n dn) = ?m dn" by (simp add: between_steps_def)
      with IH show ?thesis by (simp only: update_new.simps new pointers_at [of new n] option.simps)
    next
      case new: (Some c)
      with IH show ?thesis
        by (simp only: update_new.simps new pointers_at [of new n] option.simps cfg None simp_thms if_False
            between_insert_rebuild bnd.simps)
    qed
  next
    case (Some c)
    then have "{k \<in> set (n # ns). cs k = None} = {k \<in> set ns. cs k = None}" by auto
    moreover have "update_new ev (pointers new) (n # ns) (?m dn) = update_new ev (pointers new) ns (?m dn)"
      by (cases "new n") (simp_all add: pointers_at [of new n] cfg Some)
    ultimately show ?thesis using Cons.IH [of dn] Cons.prems by simp
  qed
qed simp


definition add_default :: "(string \<rightharpoonup> ServersTransport) \<Rightarrow> string \<rightharpoonup> ServersTransport" where
  "add_default new = (if new default_name \<noteq> None then new else new(default_name \<mapsto> empty_transport))"

lemma with_default_pointers: "with_default (Some (pointers new)) = pointers (add_default new)"
  by (simp add: with_default_def add_default_def pointers_def fun_eq_iff)

lemma manager_between: "manager_for ev src old = between_steps ev src {} new old (surviving {} new old)"
  by (simp add: manager_for_def between_steps_def mixed_def surviving_def)

lemma update_manager:
  assumes "set olds = dom old" and "set news = dom (add_default new)"
  shows "HTTPTransportManager_Update ev olds news (Some (pointers new)) (manager_for ev src old) =
    Inr (manager_for ev src (add_default new))"
proof -
  let ?new = "add_default new" and ?cs = "surviving (dom old) (add_default new) old"
  have 1: "update_existing ev (pointers ?new) olds (manager_for ev src old) =
      Inr (between_steps ev src (dom old) ?new old ?cs)"
    using update_existing_steps [of ev ?new olds src "{}" old] by (simp add: manager_between [of _ _ _ ?new] assms(1))
  have 2: "update_new ev (pointers ?new) news (between_steps ev src (dom old) ?new old ?cs) =
      Inr (between_steps ev src (dom old \<union> {n \<in> set news. ?cs n = None}) ?new old ?cs)"
    by (rule update_new_steps) simp
  have "mixed (dom old \<union> {n \<in> set news. ?cs n = None}) ?new old = ?new"
  proof
    fix k
    show "mixed (dom old \<union> {n \<in> set news. ?cs n = None}) ?new old k = ?new k"
      by (cases "old k"; cases "?new k") (auto simp: mixed_def surviving_def assms(2))
  qed
  then show ?thesis
    by (simp add: HTTPTransportManager_Update_def with_default_pointers 1 2) (simp add: between_steps_def manager_for_def)
qed


lemma new_manager:
  "NewHTTPTransportManager ev src = Inr (manager_for ev src [default_name \<mapsto> empty_transport])"
proof -
  have "manager_for ev src Map.empty = \<lparr>mg_roundTrippers = Map.empty, mg_configs = Map.empty,
      mg_tlsConfigs = Map.empty, mg_spiffe = src\<rparr>"
    by (simp add: manager_for_def pointers_def comp_def)
  moreover have "pointers [default_name \<mapsto> empty_transport] = [default_name \<mapsto> Some empty_transport]"
    by (simp add: pointers_def fun_eq_iff)
  moreover have "add_default [default_name \<mapsto> empty_transport] = [default_name \<mapsto> empty_transport]"
    by (simp add: add_default_def)
  ultimately show ?thesis
    using update_manager [of "[]" Map.empty "[default_name]" "[default_name \<mapsto> empty_transport]" ev src]
    by (simp add: NewHTTPTransportManager_def)
qed

lemma get_round_tripper:
  "GetRoundTripper (manager_for ev src cs) name =
     (case cs (or_default name) of
        Some cfg \<Rightarrow> Inr (rt_for ev src cfg) | None \<Rightarrow> Inl (''servers transport not found '' @ or_default name))"
  by (simp add: GetRoundTripper_def manager_for_def split: option.splits)

lemma get_tls_config:
  "GetTLSConfig (manager_for ev src cs) name =
     (case cs (or_default name) of
        Some cfg \<Rightarrow> Inr (tls_for ev src cfg) | None \<Rightarrow> Inl (''tls config not found '' @ or_default name))"
  by (simp add: GetTLSConfig_def manager_for_def split: option.splits)

section \<open>Properties\<close>


definition wit_env :: "(unit, unit) env" where
  "wit_env = \<lparr>ev_exists = \<lambda>_. False, ev_ReadFile = Inl, ev_X509KeyPair = \<lambda>_ _. Inr (), ev_verifyChain = \<lambda>_ _. Inr (),
     ev_URIs = \<lambda>_. [], ev_VerifyHostname = \<lambda>_ _. None, ev_EqualFold = (=), ev_spiffeID = Inr, ev_trustDomain = Inr\<rparr>"

definition wit_cfg :: ServersTransport where
  "wit_cfg = empty_transport\<lparr>st_ServerName := ''backend'', st_MinVersion := ''VersionTLS12''\<rparr>"


lemma min_without_max:
  assumes "st_Spiffe cfg = None" and "lookup_ciphers (st_CipherSuites cfg) = Inr cs"
    and "MinVersions (st_MinVersion cfg) = Some v" and "st_MaxVersion cfg = []"
  shows "createTLSConfig src ev cfg =
    Inl (''TLS minimum version '' @ st_MinVersion cfg @ '' is above the maximum version '')"
proof -
  from assms(3) have v: "v \<in> {0x0301, 0x0302, 0x0303, 0x0304}" and m: "st_MinVersion cfg \<noteq> []"
    by (auto simp: MinVersions_def tls_versions_def split: if_splits)
  from v have "0 < v" by auto
  moreover from m have "lookup_version MinVersions msg (st_MinVersion cfg) = Inr v" for msg
    by (simp only: lookup_version_def assms(3) option.simps if_False)
  ultimately have "plain_tls_config ev cfg =
      Inl (''TLS minimum version '' @ st_MinVersion cfg @ '' is above the maximum version '' @ [])"
    by (simp only: plain_tls_config_def assms(2,4) bnd.simps lookup_version_def [of MaxVersions] refl if_True)
  moreover have "wants_plain_tls cfg" using m by (simp add: wants_plain_tls_def)
  ultimately show ?thesis by (simp add: createTLSConfig_def spiffe_config_def assms(1))
qed

text \<open>
  A transport that only sets a minimum TLS version never gets its TLS settings: the unset
  maximum counts as version 0, so \<^verbatim>\<open>createTLSConfig\<close> fails for every minimum; the manager ignores the
  error and serves the name with a transport without TLS settings, dropping its server name, root
  CAs, client certificates and peer checks.
\<close>

theorem min_version_drops_tls:
  assumes "st_Spiffe cfg = None" and "lookup_ciphers (st_CipherSuites cfg) = Inr cs"
    and "MinVersions (st_MinVersion cfg) = Some v" and "st_MaxVersion cfg = []"
    and "configs (or_default name) = Some cfg"
  shows "createTLSConfig src ev cfg =
      Inl (''TLS minimum version '' @ st_MinVersion cfg @ '' is above the maximum version '')
    \<and> GetTLSConfig (manager_for ev src configs) name = Inr None
    \<and> (\<exists>rt. GetRoundTripper (manager_for ev src configs) name = Inr rt
        \<and> createRoundTripper (Some cfg) None = Inr rt)"
proof -
  note e = min_without_max [OF assms(1-4), of src ev]
  have "tls_for ev src cfg = None" unfolding tls_for_def e by simp
  then have "createRoundTripper (Some cfg) None = Inr (rt_for ev src cfg)"
    by (simp add: rt_for_def createRoundTripper_def Let_def)
  then show ?thesis
    by (simp add: e get_tls_config get_round_tripper assms(5) tls_for_def)
qed

lemma min_version_drops_tls_witness:
  "GetTLSConfig (manager_for wit_env False [''a'' \<mapsto> wit_cfg]) ''a'' = Inr None"
proof -
  have "st_Spiffe wit_cfg = None" "lookup_ciphers (st_CipherSuites wit_cfg) = Inr []"
    "MinVersions (st_MinVersion wit_cfg) = Some 0x0303" "st_MaxVersion wit_cfg = []"
    "[''a'' \<mapsto> wit_cfg] (or_default ''a'') = Some wit_cfg"
    by (simp_all add: wit_cfg_def empty_transport_def MinVersions_def tls_versions_def or_default_def)
  from min_version_drops_tls [where configs = "[''a'' \<mapsto> wit_cfg]" and name = "''a''", OF this]
  show ?thesis by blast
qed

end
