(* ===== verification/UdpSession.thy ===== *)
theory UdpSession
  imports Prelude "HOL-Library.Sublist"
begin

text \<open>
  The UDP session listener of \<^verbatim>\<open>net/proxy/udp_conn.go\<close>: one goroutine reads the socket and hands each
  datagram to the session of its sender, each session has a goroutine that queues datagrams and
  serves \<^verbatim>\<open>Read\<close>.  Sections under the listener's lock and rendezvous on unbuffered channels are steps.
  The lock is held over more than one step only by \<^verbatim>\<open>getConn\<close>, which waits for \<^verbatim>\<open>Accept\<close> inside it.
  \<open>ul_packets\<close>, \<open>ul_delivered\<close> and \<open>se_read\<close> record what happened; the code does not keep them.
\<close>

section \<open>State\<close>

definition maxUDPDatagramSize :: nat where "maxUDPDatagramSize = 65535"

text \<open>A session; \<open>se_read\<close> are the buffer sizes and datagrams of its reads.\<close>

record UDPConn =
  se_rAddr :: string
  se_msgs :: "string list"
  se_done :: bool
  se_running :: bool
  se_lastActivity :: int
  se_read :: "(nat \<times> string) list"

text \<open>
  Where the listener's read loop is: reading the socket, in \<^verbatim>\<open>getConn\<close> with the lock, offering a new
  session on \<^verbatim>\<open>acceptCh\<close>, at its \<^verbatim>\<open>select\<close> with a datagram for a session, or ended.
\<close>

datatype read_loop = Reading | Offering nat string | Handing nat string | Ended

record UDPListener =
  ul_accepting :: bool
  ul_closed :: bool
  ul_conns :: "string \<rightharpoonup> nat"
  ul_sessions :: "UDPConn list"
  ul_loop :: read_loop
  ul_timeout :: int
  ul_now :: int
  ul_packets :: "(string \<times> string) list"
  ul_delivered :: "(nat \<times> string) list"

definition ListenUDPPacketConn :: "bool \<Rightarrow> int \<Rightarrow> int \<Rightarrow> string + UDPListener" where
  "ListenUDPPacketConn is_udp timeout now =
     (if timeout \<le> 0 then Inl ''timeout should be greater than zero''
      else if \<not> is_udp then Inl ''packet conn is not a UDPConn''
      else Inr \<lparr>ul_accepting = True, ul_closed = False, ul_conns = Map.empty, ul_sessions = [],
                ul_loop = Reading, ul_timeout = timeout, ul_now = now, ul_packets = [], ul_delivered = []\<rparr>)"

definition lock_free :: "UDPListener \<Rightarrow> bool" where
  "lock_free l \<longleftrightarrow> (case ul_loop l of Offering h d \<Rightarrow> False | _ \<Rightarrow> True)"

definition newConn :: "UDPListener \<Rightarrow> string \<Rightarrow> UDPConn" where
  "newConn l rAddr = \<lparr>se_rAddr = rAddr, se_msgs = [], se_done = False, se_running = False,
     se_lastActivity = ul_now l, se_read = []\<rparr>"

definition upd_session :: "nat \<Rightarrow> (UDPConn \<Rightarrow> UDPConn) \<Rightarrow> UDPListener \<Rightarrow> UDPListener" where
  "upd_session h f l = l\<lparr>ul_sessions := (ul_sessions l)[h := f (ul_sessions l ! h)]\<rparr>"

section \<open>Operations\<close>

text \<open>A datagram is read from the socket, and \<^verbatim>\<open>getConn\<close> up to its channel operation.\<close>

definition getConn :: "string \<Rightarrow> string \<Rightarrow> UDPListener \<Rightarrow> UDPListener" where
  "getConn raddr data l =
     (case ul_conns l raddr of
        Some h \<Rightarrow> l\<lparr>ul_loop := Handing h data\<rparr>
      | None \<Rightarrow>
          if \<not> ul_accepting l then l
          else let h = length (ul_sessions l) in
               l\<lparr>ul_sessions := ul_sessions l @ [newConn l raddr], ul_conns := (ul_conns l)(raddr \<mapsto> h),
                 ul_loop := Offering h data\<rparr>)"

definition listener_packet :: "string \<Rightarrow> string \<Rightarrow> UDPListener \<Rightarrow> UDPListener" where
  "listener_packet raddr data l =
     getConn raddr (take maxUDPDatagramSize data)
       (l\<lparr>ul_packets := ul_packets l @ [(raddr, take maxUDPDatagramSize data)]\<rparr>)"

text \<open>\<^verbatim>\<open>Accept\<close> takes the offered session, whose goroutine starts.\<close>

definition listener_accept :: "nat \<Rightarrow> string \<Rightarrow> UDPListener \<Rightarrow> UDPListener" where
  "listener_accept h data l = (upd_session h (\<lambda>c. c\<lparr>se_running := True\<rparr>) l)\<lparr>ul_loop := Handing h data\<rparr>"

text \<open>The session's goroutine receives the datagram.\<close>

definition session_receive :: "nat \<Rightarrow> string \<Rightarrow> UDPListener \<Rightarrow> UDPListener" where
  "session_receive h data l =
     (upd_session h (\<lambda>c. c\<lparr>se_msgs := se_msgs c @ [data]\<rparr>) l)
       \<lparr>ul_loop := Reading, ul_delivered := ul_delivered l @ [(h, data)]\<rparr>"

text \<open>\<^verbatim>\<open>Read\<close> into a buffer of \<open>n\<close> bytes: the next datagram, cut to the buffer.\<close>

definition session_read :: "nat \<Rightarrow> nat \<Rightarrow> UDPListener \<Rightarrow> string \<times> UDPListener" where
  "session_read h n l =
     (let msg = hd (se_msgs (ul_sessions l ! h)) in
      (take n msg, upd_session h (\<lambda>c. c\<lparr>se_msgs := tl (se_msgs c), se_lastActivity := ul_now l,
                                        se_read := se_read c @ [(n, msg)]\<rparr>) l))"

definition session_write :: "nat \<Rightarrow> UDPListener \<Rightarrow> UDPListener" where
  "session_write h l = upd_session h (\<lambda>c. c\<lparr>se_lastActivity := ul_now l\<rparr>) l"

text \<open>\<^verbatim>\<open>Close\<close> of a session: first its channel, then its entry in the listener's map.\<close>

definition session_done :: "nat \<Rightarrow> UDPListener \<Rightarrow> UDPListener" where
  "session_done h l = upd_session h (\<lambda>c. c\<lparr>se_done := True\<rparr>) l"

definition session_unregister :: "nat \<Rightarrow> UDPListener \<Rightarrow> UDPListener" where
  "session_unregister h l = l\<lparr>ul_conns := (ul_conns l)(se_rAddr (ul_sessions l ! h) := None)\<rparr>"

text \<open>A tick after the deadline: the goroutine closes the session and ends.\<close>

definition session_expire :: "nat \<Rightarrow> UDPListener \<Rightarrow> UDPListener" where
  "session_expire h l = upd_session h (\<lambda>c. c\<lparr>se_done := True, se_running := False\<rparr>) l"

definition listener_stop :: "UDPListener \<Rightarrow> UDPListener" where
  "listener_stop l = l\<lparr>ul_accepting := False\<rparr>"

text \<open>\<^verbatim>\<open>close\<close> of the listener, with all registered sessions.\<close>

definition listener_close :: "UDPListener \<Rightarrow> UDPListener" where
  "listener_close l =
     l\<lparr>ul_closed := True, ul_conns := Map.empty,
       ul_sessions := map (\<lambda>(h, c). if ul_conns l (se_rAddr c) = Some h then c\<lparr>se_done := True\<rparr> else c)
         (zip [0..<length (ul_sessions l)] (ul_sessions l))\<rparr>"

text \<open>
  \<^verbatim>\<open>Close\<close> may be called at any time and any number of times; \<open>unregister\<close> is the second half of a
  call whose first half has run.
\<close>

inductive udp_step :: "UDPListener \<Rightarrow> UDPListener \<Rightarrow> bool" where
  packet: "ul_loop l = Reading \<Longrightarrow> \<not> ul_closed l \<Longrightarrow> udp_step l (listener_packet a d l)"
| socket_closed: "ul_loop l = Reading \<Longrightarrow> ul_closed l \<Longrightarrow> udp_step l (l\<lparr>ul_loop := Ended\<rparr>)"
| accept: "ul_loop l = Offering h d \<Longrightarrow> udp_step l (listener_accept h d l)"
| receive: "ul_loop l = Handing h d \<Longrightarrow> se_running (ul_sessions l ! h) \<Longrightarrow>
    udp_step l (session_receive h d l)"
| dropped: "ul_loop l = Handing h d \<Longrightarrow> se_done (ul_sessions l ! h) \<Longrightarrow>
    udp_step l (l\<lparr>ul_loop := Reading\<rparr>)"
| reads: "h < length (ul_sessions l) \<Longrightarrow> se_running (ul_sessions l ! h) \<Longrightarrow>
    se_msgs (ul_sessions l ! h) \<noteq> [] \<Longrightarrow> udp_step l (snd (session_read h n l))"
| wrote: "h < length (ul_sessions l) \<Longrightarrow> udp_step l (session_write h l)"
| close_done: "h < length (ul_sessions l) \<Longrightarrow> udp_step l (session_done h l)"
| unregister: "h < length (ul_sessions l) \<Longrightarrow> se_done (ul_sessions l ! h) \<Longrightarrow> lock_free l \<Longrightarrow>
    udp_step l (session_unregister h l)"
| expire: "h < length (ul_sessions l) \<Longrightarrow> se_running (ul_sessions l ! h) \<Longrightarrow>
    ul_now l > se_lastActivity (ul_sessions l ! h) + ul_timeout l \<Longrightarrow> udp_step l (session_expire h l)"
| shutdown: "lock_free l \<Longrightarrow> ul_accepting l \<Longrightarrow> udp_step l (listener_stop l)"
| close: "lock_free l \<Longrightarrow> \<not> ul_accepting l \<Longrightarrow> \<not> ul_closed l \<Longrightarrow> udp_step l (listener_close l)"
| clock: "ul_now l \<le> t \<Longrightarrow> udp_step l (l\<lparr>ul_now := t\<rparr>)"

inductive_cases udp_stepE: "udp_step l l'"

inductive udp_reach :: "int \<Rightarrow> int \<Rightarrow> UDPListener \<Rightarrow> bool" for timeout now where
  start: "ListenUDPPacketConn True timeout now = Inr l \<Longrightarrow> udp_reach timeout now l"
| step: "udp_reach timeout now l \<Longrightarrow> udp_step l l' \<Longrightarrow> udp_reach timeout now l'"

section \<open>Invariant\<close>

text \<open>The datagrams handed over, with their senders, and the one in the loop's hands.\<close>

definition addr_of :: "UDPListener \<Rightarrow> nat \<Rightarrow> string" where
  "addr_of l h = se_rAddr (ul_sessions l ! h)"

definition handed :: "UDPListener \<Rightarrow> (string \<times> string) list" where
  "handed l = map (\<lambda>(h, d). (addr_of l h, d)) (ul_delivered l)"

definition in_hand :: "UDPListener \<Rightarrow> (nat \<times> string) list" where
  "in_hand l = (case ul_loop l of Offering h d \<Rightarrow> [(h, d)] | Handing h d \<Rightarrow> [(h, d)] | _ \<Rightarrow> [])"

definition udp_inv :: "UDPListener \<Rightarrow> bool" where
  "udp_inv l \<longleftrightarrow>
     (\<forall>(h, d) \<in> set (ul_delivered l @ in_hand l). h < length (ul_sessions l))
   \<and> (\<forall>a h. ul_conns l a = Some h \<longrightarrow> h < length (ul_sessions l) \<and> addr_of l h = a)
   \<and> subseq (map (\<lambda>(h, d). (addr_of l h, d)) (ul_delivered l @ in_hand l)) (ul_packets l)
   \<and> (\<forall>h < length (ul_sessions l). map snd (se_read (ul_sessions l ! h)) @ se_msgs (ul_sessions l ! h) =
        map snd (filter (\<lambda>p. fst p = h) (ul_delivered l)))"


lemma upd_session_fields [simp]:
  "ul_accepting (upd_session h f l) = ul_accepting l" "ul_closed (upd_session h f l) = ul_closed l"
  "ul_conns (upd_session h f l) = ul_conns l" "ul_loop (upd_session h f l) = ul_loop l"
  "ul_packets (upd_session h f l) = ul_packets l" "ul_delivered (upd_session h f l) = ul_delivered l"
  "length (ul_sessions (upd_session h f l)) = length (ul_sessions l)"
  "ul_now (upd_session h f l) = ul_now l" "ul_timeout (upd_session h f l) = ul_timeout l"
  by (simp_all add: upd_session_def)

lemma addr_of_upd [simp]: "(\<And>c. se_rAddr (f c) = se_rAddr c) \<Longrightarrow> addr_of (upd_session h f l) h' = addr_of l h'"
  by (cases "h < length (ul_sessions l)"; cases "h' = h")
    (simp_all add: addr_of_def upd_session_def nth_list_update list_update_beyond)

lemma session_upd:
  "h < length (ul_sessions l) \<Longrightarrow> ul_sessions (upd_session h f l) ! h' =
     (if h' = h then f (ul_sessions l ! h) else ul_sessions l ! h')"
  by (simp add: upd_session_def)

text \<open>The three ways a step leaves the invariant: nothing observable changed, or only a session did.\<close>

lemma udp_inv_cong:
  assumes "udp_inv l" and "map se_rAddr (ul_sessions l') = map se_rAddr (ul_sessions l)"
    and "ul_delivered l' = ul_delivered l" and "set (in_hand l') \<subseteq> set (in_hand l)"
    and "subseq (in_hand l') (in_hand l)"
    and "ul_packets l' = ul_packets l" and "\<And>a h. ul_conns l' a = Some h \<Longrightarrow> ul_conns l a = Some h"
    and "\<And>h. h < length (ul_sessions l) \<Longrightarrow> map snd (se_read (ul_sessions l' ! h)) @ se_msgs (ul_sessions l' ! h) =
        map snd (se_read (ul_sessions l ! h)) @ se_msgs (ul_sessions l ! h)"
  shows "udp_inv l'"
proof -
  have len: "length (ul_sessions l') = length (ul_sessions l)" using assms(2) by (rule map_eq_imp_length_eq)
  have addr: "h < length (ul_sessions l) \<Longrightarrow> addr_of l' h = addr_of l h" for h
    using arg_cong [OF assms(2), of "\<lambda>xs. xs ! h"] len by (simp add: addr_of_def)
  have bound: "\<forall>(h, d) \<in> set (ul_delivered l' @ in_hand l'). h < length (ul_sessions l)"
    using assms(1,3,4) by (auto simp: udp_inv_def)
  then have eq: "map (\<lambda>(h, d). (addr_of l' h, d)) (ul_delivered l' @ in_hand l') =
      map (\<lambda>(h, d). (addr_of l h, d)) (ul_delivered l @ in_hand l')"
    using addr assms(3) by auto
  have sub: "subseq (map (\<lambda>(h, d). (addr_of l h, d)) (ul_delivered l @ in_hand l'))
      (map (\<lambda>(h, d). (addr_of l h, d)) (ul_delivered l @ in_hand l))"
    using assms(5) by (intro subseq_map list_emb_append_mono subseq_order.order_refl)
  have "subseq (map (\<lambda>(h, d). (addr_of l h, d)) (ul_delivered l @ in_hand l)) (ul_packets l)"
    using assms(1) by (simp add: udp_inv_def)
  with sub have "subseq (map (\<lambda>(h, d). (addr_of l' h, d)) (ul_delivered l' @ in_hand l')) (ul_packets l')"
    unfolding eq assms(6) by (rule subseq_order.order_trans)
  moreover have "h < length (ul_sessions l') \<and> addr_of l' h = a" if "ul_conns l' a = Some h" for a h
  proof -
    have "h < length (ul_sessions l) \<and> addr_of l h = a"
      using assms(1) assms(7) [OF that] unfolding udp_inv_def by blast
    then show ?thesis by (simp add: addr len)
  qed
  moreover have "\<forall>h < length (ul_sessions l'). map snd (se_read (ul_sessions l' ! h)) @ se_msgs (ul_sessions l' ! h) =
        map snd (filter (\<lambda>p. fst p = h) (ul_delivered l'))"
    using assms(1,3,8) by (simp add: udp_inv_def len)
  ultimately show ?thesis using bound len by (simp add: udp_inv_def)
qed

lemma map_rAddr_upd:
  "(\<And>c. se_rAddr (f c) = se_rAddr c) \<Longrightarrow> map se_rAddr (ul_sessions (upd_session h f l)) = map se_rAddr (ul_sessions l)"
  by (cases "h < length (ul_sessions l)")
    (auto intro!: nth_equalityI simp: upd_session_def nth_list_update list_update_beyond)

lemma inv_session:
  assumes "udp_inv l" and "\<And>c. se_rAddr (f c) = se_rAddr c"
    and "map snd (se_read (f (ul_sessions l ! h))) @ se_msgs (f (ul_sessions l ! h)) =
         map snd (se_read (ul_sessions l ! h)) @ se_msgs (ul_sessions l ! h)"
  shows "udp_inv (upd_session h f l)"
proof (rule udp_inv_cong [OF assms(1)])
  show "map se_rAddr (ul_sessions (upd_session h f l)) = map se_rAddr (ul_sessions l)"
    by (rule map_rAddr_upd) (rule assms(2))
  show "map snd (se_read (ul_sessions (upd_session h f l) ! k)) @ se_msgs (ul_sessions (upd_session h f l) ! k) =
      map snd (se_read (ul_sessions l ! k)) @ se_msgs (ul_sessions l ! k)" if "k < length (ul_sessions l)" for k
    using assms(3) that by (cases "k = h") (simp_all add: upd_session_def)
qed (simp_all add: in_hand_def)


lemma inv_read:
  assumes "udp_inv l" and "h < length (ul_sessions l)" and "se_msgs (ul_sessions l ! h) \<noteq> []"
  shows "udp_inv (snd (session_read h n l))"
proof -
  obtain m ms where "se_msgs (ul_sessions l ! h) = m # ms" using assms(3) by (cases "se_msgs (ul_sessions l ! h)") auto
  then show ?thesis by (simp add: session_read_def Let_def) (rule inv_session [OF assms(1)], simp_all)
qed

lemma inv_listener:
  assumes "udp_inv l" and "ul_sessions l' = ul_sessions l" and "ul_delivered l' = ul_delivered l"
    and "in_hand l' = in_hand l \<or> in_hand l' = []" and "ul_packets l' = ul_packets l"
    and "\<And>a h. ul_conns l' a = Some h \<Longrightarrow> ul_conns l a = Some h"
  shows "udp_inv l'"
  by (rule udp_inv_cong [OF assms(1)]) (use assms in auto)

lemma inv_accept:
  assumes "udp_inv l" and "ul_loop l = Offering h d"
  shows "udp_inv (listener_accept h d l)"
proof -
  have "udp_inv (upd_session h (\<lambda>c. c\<lparr>se_running := True\<rparr>) l)" by (rule inv_session [OF assms(1)]) simp_all
  then show ?thesis
    by (rule inv_listener) (simp_all add: listener_accept_def in_hand_def assms(2))
qed

lemma inv_receive:
  assumes inv: "udp_inv l" and loop: "ul_loop l = Handing h d"
  shows "udp_inv (session_receive h d l)"
proof -
  let ?f = "\<lambda>c. c\<lparr>se_msgs := se_msgs c @ [d]\<rparr>"
  let ?l = "upd_session h ?f l" and ?l' = "session_receive h d l"
  have hand: "in_hand l = [(h, d)]" "in_hand ?l' = []" by (simp_all add: in_hand_def loop session_receive_def)
  have h: "h < length (ul_sessions l)" using inv hand by (auto simp: udp_inv_def)
  have addr: "addr_of ?l' k = addr_of l k" for k
    using addr_of_upd [of ?f h l k] by (simp add: session_receive_def addr_of_def)
  have f: "ul_delivered ?l' = ul_delivered l @ [(h, d)]" "ul_packets ?l' = ul_packets l"
      "ul_conns ?l' = ul_conns l" "length (ul_sessions ?l') = length (ul_sessions l)"
      "ul_sessions ?l' = ul_sessions ?l"
    by (simp_all add: session_receive_def)
  have "map snd (se_read (ul_sessions ?l' ! k)) @ se_msgs (ul_sessions ?l' ! k) =
      map snd (filter (\<lambda>p. fst p = k) (ul_delivered ?l'))" if "k < length (ul_sessions l)" for k
    using inv that h by (cases "k = h") (simp_all add: f session_upd udp_inv_def flip: append_assoc)
  with inv show ?thesis unfolding udp_inv_def by (simp add: addr f hand)
qed

lemma inv_packet:
  assumes inv: "udp_inv l" and loop: "ul_loop l = Reading"
  shows "udp_inv (listener_packet a d l)"
proof -
  let ?d = "take maxUDPDatagramSize d"
  let ?m = "l\<lparr>ul_packets := ul_packets l @ [(a, ?d)]\<rparr>"
  have hand: "in_hand l = []" by (simp add: in_hand_def loop)
  have sub: "subseq (map (\<lambda>(h, d). (addr_of l h, d)) (ul_delivered l)) (ul_packets l)"
    using inv hand by (simp add: udp_inv_def)
  have m: "udp_inv ?m"
    using inv list_emb_prefix [OF sub, of "[(a, ?d)]"]
    by (simp add: udp_inv_def hand in_hand_def loop addr_of_def)
  show ?thesis
  proof (cases "ul_conns l a")
    case (Some h)
    then have h: "h < length (ul_sessions l)" "addr_of l h = a" using inv by (auto simp: udp_inv_def)
    have "listener_packet a d l = ?m\<lparr>ul_loop := Handing h ?d\<rparr>"
      by (simp add: listener_packet_def getConn_def Some)
    with inv h sub show ?thesis by (simp add: udp_inv_def hand in_hand_def addr_of_def list_emb_append_mono)
  next
    case None
    show ?thesis
    proof (cases "ul_accepting l")
      case False
      then have "listener_packet a d l = ?m" by (simp add: listener_packet_def getConn_def None)
      with m show ?thesis by simp
    next
      case True
      let ?h = "length (ul_sessions l)"
      define n where "n = listener_packet a d l"
      have f: "ul_sessions n = ul_sessions l @ [newConn ?m a]" "ul_conns n = (ul_conns l)(a \<mapsto> ?h)"
          "ul_packets n = ul_packets l @ [(a, ?d)]" "ul_delivered n = ul_delivered l" "in_hand n = [(?h, ?d)]"
        using True by (simp_all add: n_def listener_packet_def getConn_def None Let_def in_hand_def)
      have addr: "k < ?h \<Longrightarrow> addr_of n k = addr_of l k" "addr_of n ?h = a" for k
        by (simp_all add: addr_of_def f nth_append newConn_def)
      have old: "\<forall>(k, e) \<in> set (ul_delivered l). k < ?h" using inv by (auto simp: udp_inv_def)
      then have eq: "map (\<lambda>(k, e). (addr_of n k, e)) (ul_delivered l) = map (\<lambda>(k, e). (addr_of l k, e)) (ul_delivered l)"
        using addr(1) by auto
      have none: "filter (\<lambda>p. fst p = ?h) (ul_delivered l) = []" using old by (auto simp: filter_empty_conv)
      have logs: "map snd (se_read (ul_sessions n ! k)) @ se_msgs (ul_sessions n ! k) =
          map snd (filter (\<lambda>p. fst p = k) (ul_delivered n))" if "k < Suc ?h" for k
        using that inv none by (cases "k = ?h") (auto simp: f nth_append newConn_def udp_inv_def)
      have conns: "k < Suc ?h \<and> addr_of n k = b" if "ul_conns n b = Some k" for b k
      proof (cases "b = a")
        case True
        with that addr(2) show ?thesis by (simp add: f)
      next
        case False
        with that have "ul_conns l b = Some k" by (simp add: f)
        then have "k < ?h \<and> addr_of l k = b" using inv unfolding udp_inv_def by blast
        then show ?thesis by (simp add: addr(1))
      qed
      have "subseq (map (\<lambda>(k, e). (addr_of n k, e)) (ul_delivered n @ in_hand n)) (ul_packets n)"
        using sub by (simp add: f eq addr(2) list_emb_append_mono)
      moreover have "\<forall>(k, e) \<in> set (ul_delivered n @ in_hand n). k < length (ul_sessions n)"
        using old by (auto simp: f)
      ultimately show ?thesis
        using logs conns unfolding n_def [symmetric] udp_inv_def by (simp add: f)
    qed
  qed
qed

lemma inv_listener_close: "udp_inv l \<Longrightarrow> udp_inv (listener_close l)"
proof (rule udp_inv_cong)
  let ?g = "\<lambda>(h, c). if ul_conns l (se_rAddr c) = Some h then c\<lparr>se_done := True\<rparr> else c"
  have g: "ul_sessions (listener_close l) ! k = ?g (k, ul_sessions l ! k)" if "k < length (ul_sessions l)" for k
    using that by (simp add: listener_close_def)
  show "map se_rAddr (ul_sessions (listener_close l)) = map se_rAddr (ul_sessions l)"
    by (rule nth_equalityI) (simp_all add: listener_close_def)
  show "map snd (se_read (ul_sessions (listener_close l) ! k)) @ se_msgs (ul_sessions (listener_close l) ! k) =
      map snd (se_read (ul_sessions l ! k)) @ se_msgs (ul_sessions l ! k)" if "k < length (ul_sessions l)" for k
    using that by (simp add: g)
qed (simp_all add: listener_close_def in_hand_def)

lemma udp_step_inv: "udp_step l l' \<Longrightarrow> udp_inv l \<Longrightarrow> udp_inv l'"
proof (induction rule: udp_step.induct)
  case (dropped l h d)
  show ?case by (rule inv_listener [OF dropped.prems]) (use dropped.hyps in \<open>simp_all add: in_hand_def\<close>)
next
  case (socket_closed l)
  show ?case by (rule inv_listener [OF socket_closed.prems]) (use socket_closed.hyps in \<open>simp_all add: in_hand_def\<close>)
next
  case (wrote h l)
  show ?case unfolding session_write_def by (rule inv_session [OF wrote.prems]) simp_all
next
  case (close_done h l)
  show ?case unfolding session_done_def by (rule inv_session [OF close_done.prems]) simp_all
next
  case (expire h l)
  show ?case unfolding session_expire_def by (rule inv_session [OF expire.prems]) simp_all
next
  case (unregister h l)
  show ?case
    by (rule inv_listener [OF unregister.prems]) (auto simp: session_unregister_def in_hand_def split: if_splits)
next
  case (shutdown l)
  show ?case by (rule inv_listener [OF shutdown.prems]) (use shutdown.hyps in \<open>simp_all add: listener_stop_def in_hand_def\<close>)
next
  case (clock l t)
  show ?case by (rule inv_listener [OF clock.prems]) (use clock.hyps in \<open>simp_all add: in_hand_def\<close>)
qed (auto intro: inv_packet inv_accept inv_receive inv_read inv_listener_close)

lemma udp_reach_inv: "udp_reach timeout now l \<Longrightarrow> udp_inv l"
proof (induction rule: udp_reach.induct)
  case (start l)
  then show ?case by (auto simp: ListenUDPPacketConn_def udp_inv_def in_hand_def split: if_splits)
next
  case (step l l')
  then show ?case by (blast intro: udp_step_inv)
qed


section \<open>Properties\<close>

text \<open>
  C32. Whatever opens, closes, expires and shuts down in between, a session only ever gets datagrams
  of its own client: what was handed to sessions, with the addresses of the sessions, is a
  subsequence of what came from the socket, so nothing is duplicated, reordered or misdelivered; and
  what a session's reads took, followed by what it still queues, is exactly what it was handed.
\<close>

theorem udp_sessions_deliver:
  assumes "udp_reach timeout now l" and "h < length (ul_sessions l)"
  shows "subseq (handed l) (ul_packets l)
    \<and> map snd (se_read (ul_sessions l ! h)) @ se_msgs (ul_sessions l ! h) =
      map snd (filter (\<lambda>p. fst p = h) (ul_delivered l))"
proof -
  from udp_reach_inv [OF assms(1)] have inv: "udp_inv l" .
  have "subseq (handed l) (map (\<lambda>(h, d). (addr_of l h, d)) (ul_delivered l @ in_hand l))"
    unfolding handed_def map_append by (rule list_emb_prefix [OF subseq_order.order_refl])
  with inv assms(2) show ?thesis by (auto simp: udp_inv_def intro: subseq_order.order_trans)
qed

text \<open>
  While the listener offers a new session, which it does holding its lock, nothing but an
  \<^verbatim>\<open>Accept\<close> moves it: no session leaves the map and neither \<^verbatim>\<open>Shutdown\<close> nor \<^verbatim>\<open>Close\<close> takes effect, so
  a program that stops accepting before it closes the listener may wait for ever.
\<close>

theorem udp_offer_blocks:
  assumes "udp_step l l'" and "ul_loop l = Offering h d"
  shows "l' = listener_accept h d l
    \<or> ul_loop l' = Offering h d \<and> ul_conns l' = ul_conns l \<and> ul_accepting l' = ul_accepting l
      \<and> ul_closed l' = ul_closed l \<and> ul_delivered l' = ul_delivered l"
  using assms
  by (cases rule: udp_step.cases)
    (simp_all add: lock_free_def session_read_def Let_def session_write_def session_done_def session_expire_def)

section \<open>A session whose predecessor expires\<close>

definition wu0 :: UDPListener where
  "wu0 = \<lparr>ul_accepting = True, ul_closed = False, ul_conns = Map.empty, ul_sessions = [],
     ul_loop = Reading, ul_timeout = 3, ul_now = 0, ul_packets = [], ul_delivered = []\<rparr>"

definition opened :: "nat \<Rightarrow> string \<Rightarrow> UDPListener \<Rightarrow> UDPListener" where
  "opened h d l = session_receive h d (listener_accept h d (listener_packet ''a'' d l))"

definition wu1 :: UDPListener where "wu1 = session_unregister 0 (session_done 0 (opened 0 ''x'' wu0))"
definition wu2 :: UDPListener where "wu2 = opened 1 ''y'' (wu1\<lparr>ul_now := 2\<rparr>)"
definition wu3 :: UDPListener where "wu3 = session_unregister 0 (session_expire 0 (wu2\<lparr>ul_now := 4\<rparr>))"

lemmas udp_ops = listener_packet_def getConn_def listener_accept_def session_receive_def session_done_def
  session_unregister_def session_expire_def upd_session_def newConn_def maxUDPDatagramSize_def Let_def

lemma opened_steps:
  assumes "udp_reach t now l" and "ul_loop l = Reading" and "\<not> ul_closed l" and "ul_accepting l"
    and "ul_conns l ''a'' = None" and "h = length (ul_sessions l)" and "length d \<le> 3"
  shows "udp_reach t now (opened h d l)"
proof -
  have off: "ul_loop (listener_packet ''a'' d l) = Offering h d"
    using assms(4-7) by (simp add: listener_packet_def getConn_def Let_def maxUDPDatagramSize_def)
  have r1: "udp_reach t now (listener_packet ''a'' d l)"
    by (rule udp_reach.step [OF assms(1) udp_step.packet]) (rule assms(2,3))+
  have r2: "udp_reach t now (listener_accept h d (listener_packet ''a'' d l))"
    by (rule udp_reach.step [OF r1 udp_step.accept]) (rule off)
  have "h < length (ul_sessions (listener_packet ''a'' d l))"
    using assms(4-6) by (simp add: listener_packet_def getConn_def Let_def)
  then show ?thesis unfolding opened_def
    by (intro udp_reach.step [OF r2 udp_step.receive]) (simp_all add: listener_accept_def upd_session_def)
qed

lemma wu1_eq: "wu1 = \<lparr>ul_accepting = True, ul_closed = False, ul_conns = Map.empty,
   ul_sessions = [\<lparr>se_rAddr = ''a'', se_msgs = [''x''], se_done = True, se_running = True, se_lastActivity = 0, se_read = []\<rparr>],
   ul_loop = Reading, ul_timeout = 3, ul_now = 0, ul_packets = [(''a'', ''x'')], ul_delivered = [(0, ''x'')]\<rparr>"
  by (simp add: wu1_def wu0_def opened_def udp_ops)

lemma wu2_eq: "wu2 = \<lparr>ul_accepting = True, ul_closed = False, ul_conns = [''a'' \<mapsto> 1],
   ul_sessions = [\<lparr>se_rAddr = ''a'', se_msgs = [''x''], se_done = True, se_running = True, se_lastActivity = 0, se_read = []\<rparr>,
     \<lparr>se_rAddr = ''a'', se_msgs = [''y''], se_done = False, se_running = True, se_lastActivity = 2, se_read = []\<rparr>],
   ul_loop = Reading, ul_timeout = 3, ul_now = 2, ul_packets = [(''a'', ''x''), (''a'', ''y'')],
   ul_delivered = [(0, ''x''), (1, ''y'')]\<rparr>"
  by (simp add: wu2_def wu1_eq opened_def udp_ops)

lemma wu2_reach: "udp_reach 3 0 wu2"
proof -
  have r0: "udp_reach 3 0 wu0"
    by (rule udp_reach.start) (simp add: ListenUDPPacketConn_def wu0_def)
  have o: "udp_reach 3 0 (opened 0 ''x'' wu0)"
    by (rule opened_steps [OF r0]) (simp_all add: wu0_def)
  have d: "udp_reach 3 0 (session_done 0 (opened 0 ''x'' wu0))"
    by (rule udp_reach.step [OF o udp_step.close_done]) (simp add: opened_def wu0_def udp_ops)
  have "udp_reach 3 0 wu1" unfolding wu1_def
    by (rule udp_reach.step [OF d udp_step.unregister]) (simp_all add: opened_def wu0_def udp_ops lock_free_def)
  from udp_reach.step [OF this udp_step.clock [of wu1 2]] have "udp_reach 3 0 (wu1\<lparr>ul_now := 2\<rparr>)"
    by (simp add: wu1_eq)
  then show ?thesis unfolding wu2_def by (rule opened_steps) (simp_all add: wu1_eq)
qed

lemma wu3_reach: "udp_reach 3 0 wu3"
proof -
  from udp_reach.step [OF wu2_reach udp_step.clock [of wu2 4]] have c: "udp_reach 3 0 (wu2\<lparr>ul_now := 4\<rparr>)"
    by (simp add: wu2_eq)
  have e: "udp_reach 3 0 (session_expire 0 (wu2\<lparr>ul_now := 4\<rparr>))"
    by (rule udp_reach.step [OF c udp_step.expire]) (simp_all add: wu2_eq)
  show ?thesis unfolding wu3_def
    by (rule udp_reach.step [OF e udp_step.unregister]) (simp_all add: wu2_eq udp_ops lock_free_def)
qed

text \<open>
  A closed session's goroutine runs on until its time-out and then closes the session again,
  which takes the entry of its address out of the map even when it is that of a successor: a state is
  reachable in which a running session within its time-out is not registered, and the next datagram
  of its client opens a third session.
\<close>

theorem udp_successor_unregistered:
  "\<exists>l c. udp_reach 3 0 l \<and> ul_sessions l ! 1 = c \<and> se_rAddr c = ''a'' \<and> se_running c \<and> \<not> se_done c
     \<and> ul_now l \<le> se_lastActivity c + ul_timeout l \<and> ul_conns l ''a'' = None
     \<and> udp_step l (listener_packet ''a'' ''z'' l) \<and> ul_loop (listener_packet ''a'' ''z'' l) = Offering 2 ''z''"
proof -
  have eq: "wu3 = wu2\<lparr>ul_now := 4, ul_conns := Map.empty, ul_sessions := (ul_sessions wu2)[0 := (ul_sessions wu2 ! 0)
      \<lparr>se_done := True, se_running := False\<rparr>]\<rparr>"
    by (simp add: wu3_def udp_ops wu2_eq)
  have "udp_step wu3 (listener_packet ''a'' ''z'' wu3)"
    by (rule udp_step.packet) (simp_all add: eq wu2_eq)
  with wu3_reach show ?thesis
    by (intro exI [of _ wu3] exI [of _ "ul_sessions wu3 ! 1"]) (simp add: eq wu2_eq udp_ops)
qed

lemma udp_sessions_deliver_witness: "subseq (handed wu2) (ul_packets wu2)"
  using udp_sessions_deliver [OF wu2_reach, of 1] by (simp add: wu2_eq)

lemma udp_offer_blocks_witness:
  "ul_loop ((listener_packet ''a'' ''x'' wu0)\<lparr>ul_now := 1\<rparr>) = Offering 0 ''x''"
proof -
  have l: "ul_loop (listener_packet ''a'' ''x'' wu0) = Offering 0 ''x''" "ul_now (listener_packet ''a'' ''x'' wu0) = 0"
    by (simp_all add: wu0_def udp_ops)
  have "udp_step (listener_packet ''a'' ''x'' wu0) ((listener_packet ''a'' ''x'' wu0)\<lparr>ul_now := 1\<rparr>)"
    by (rule udp_step.clock) (simp add: l)
  from udp_offer_blocks [OF this l(1)] l show ?thesis by (auto simp: listener_accept_def)
qed

end
