(* ===== verification/TcpDialer.thy ===== *)
theory TcpDialer
  imports ProxyTransport
begin

text \<open>
  The TCP dialers of \<^verbatim>\<open>net/proxy/tcp_dialer.go\<close>: the manager of their configurations, \<^verbatim>\<open>Build\<close>, and
  dialing with the PROXY protocol and TLS.  Dialing answers what was done to the connection, in
  order; the network's answers are arguments.  Durations are integers in nanoseconds.
\<close>

section \<open>Configuration\<close>

text \<open>A \<^verbatim>\<open>ProxyProtocol\<close> pointer is an optional version.\<close>

definition ProxyProtocol_default :: int where "ProxyProtocol_default = 2"

record TLSClientConfig =
  tl_ServerName :: string
  tl_InsecureSkipVerify :: bool
  tl_RootCAs :: "FileOrContent list"
  tl_Certificates :: "Certificate list"
  tl_PeerCertURI :: string
  tl_PeerCertSANs :: "SAN list"
  tl_Spiffe :: "Spiffe option"

record TCPServersTransport =
  ts_DialKeepAlive :: int
  ts_DialTimeout :: int
  ts_ProxyProtocol :: "int option"
  ts_TerminationDelay :: int
  ts_TLS :: "TLSClientConfig option"

record TCPServersLoadBalancer =
  lb_ServersTransport :: string
  lb_ProxyProtocol :: "int option"
  lb_TerminationDelay :: "int option"

definition empty_tcp_transport :: TCPServersTransport where
  "empty_tcp_transport = \<lparr>ts_DialKeepAlive = 0, ts_DialTimeout = 0, ts_ProxyProtocol = None,
     ts_TerminationDelay = 0, ts_TLS = None\<rparr>"

type_synonym tcp_configs = "string \<rightharpoonup> TCPServersTransport option"

record TCPDialerManager =
  dm_serversTransports :: tcp_configs
  dm_spiffe :: bool

definition TCPDialerManager_Update :: "tcp_configs option \<Rightarrow> TCPDialerManager \<Rightarrow> TCPDialerManager" where
  "TCPDialerManager_Update configs d =
     (let c = (case configs of None \<Rightarrow> Map.empty | Some c \<Rightarrow> c) in
      d\<lparr>dm_serversTransports :=
          if c default_name \<noteq> None then c else c(default_name \<mapsto> Some empty_tcp_transport)\<rparr>)"

definition NewTCPDialerManager :: "bool \<Rightarrow> TCPDialerManager" where
  "NewTCPDialerManager has_source =
     TCPDialerManager_Update (Some [default_name \<mapsto> Some empty_tcp_transport])
       \<lparr>dm_serversTransports = Map.empty, dm_spiffe = has_source\<rparr>"

section \<open>Build\<close>

record tcpDialer =
  td_Timeout :: int
  td_KeepAlive :: int
  td_terminationDelay :: int
  td_proxyProtocol :: "int option"

datatype 'cert TCPDialer = PlainDialer tcpDialer | TLSDialer tcpDialer "'cert tls_config option"

definition tcp_wants_tls :: "TLSClientConfig \<Rightarrow> bool" where
  "tcp_wants_tls c \<longleftrightarrow> tl_InsecureSkipVerify c \<or> tl_RootCAs c \<noteq> [] \<or> tl_ServerName c \<noteq> []
     \<or> tl_Certificates c \<noteq> [] \<or> tl_PeerCertURI c \<noteq> [] \<or> tl_PeerCertSANs c \<noteq> []"

definition tcp_peer_sans :: "TLSClientConfig \<Rightarrow> SAN list" where
  "tcp_peer_sans c = tl_PeerCertSANs c
     @ (if tl_PeerCertURI c \<noteq> [] then [\<lparr>san_Type = SANURIType, san_Value = tl_PeerCertURI c\<rparr>] else [])"

definition createTCPRootCACertPool :: "('cert, 'leaf) env \<Rightarrow> FileOrContent list \<Rightarrow> string list option" where
  "createTCPRootCACertPool ev rootCAs =
     (if rootCAs = [] then None
      else Some (List.map_filter (\<lambda>c. case FileOrContent_Read ev c of Inl e \<Rightarrow> None | Inr s \<Rightarrow> Some s) rootCAs))"

definition buildTCPSpiffeAuthorizer :: "('cert, 'leaf) env \<Rightarrow> Spiffe \<Rightarrow> string + authorizer" where
  "buildTCPSpiffeAuthorizer ev cfg =
     (if sp_IDs cfg \<noteq> [] then map_sum id AuthorizeOneOf (parse_ids ev (sp_IDs cfg))
      else if sp_TrustDomain cfg \<noteq> [] then
        (case ev_trustDomain ev (sp_TrustDomain cfg) of
           Inl e \<Rightarrow> Inl (''invalid SPIFFE trust domain: '' @ e)
         | Inr d \<Rightarrow> Inr (AuthorizeMemberOf d))
      else Inr AuthorizeAny)"

definition tcp_spiffe_config ::
  "bool \<Rightarrow> ('cert, 'leaf) env \<Rightarrow> Spiffe option \<Rightarrow> string + authorizer option" where
  "tcp_spiffe_config has_source ev cfg =
     (case cfg of
        None \<Rightarrow> Inr None
      | Some sp \<Rightarrow>
          if \<not> has_source then Inl ''SPIFFE is enabled for this transport, but not configured''
          else case buildTCPSpiffeAuthorizer ev sp of
                 Inl e \<Rightarrow> Inl (''unable to build SPIFFE authorizer: '' @ e)
               | Inr a \<Rightarrow> Inr (Some a))"

definition tcp_tls_config ::
  "bool \<Rightarrow> ('cert, 'leaf) env \<Rightarrow> TLSClientConfig option \<Rightarrow> string + 'cert tls_config option" where
  "tcp_tls_config has_source ev tlsp =
     (case tlsp of
        None \<Rightarrow> Inr None
      | Some c \<Rightarrow>
          bnd (tcp_spiffe_config has_source ev (tl_Spiffe c)) (\<lambda>spiffe.
            if tcp_wants_tls c
            then (if spiffe \<noteq> None then Inl ''TLS and SPIFFE configuration cannot be defined at the same time''
                  else Inr (Some (PlainTLS
                    \<lparr>tc_ServerName = tl_ServerName c, tc_InsecureSkipVerify = tl_InsecureSkipVerify c,
                     tc_RootCAs = createTCPRootCACertPool ev (tl_RootCAs c),
                     tc_Certificates = GetCertificates ev (tl_Certificates c), tc_CipherSuites = [],
                     tc_MinVersion = 0, tc_MaxVersion = 0,
                     tc_VerifyPeer = (if tcp_peer_sans c \<noteq> [] then Some (tcp_peer_sans c) else None)\<rparr>)))
            else Inr (map_option SpiffeTLS spiffe)))"

datatype build_error = NoTransport string | UnknownVersion int | TLSError string

definition TCPDialerManager_Build ::
  "('cert, 'leaf) env \<Rightarrow> TCPDialerManager \<Rightarrow> TCPServersLoadBalancer \<Rightarrow> bool \<Rightarrow> build_error + 'cert TCPDialer" where
  "TCPDialerManager_Build ev d config isTLS =
     (let name = (if lb_ServersTransport config \<noteq> [] then lb_ServersTransport config else default_name) in
      case dm_serversTransports d name of
        None \<Rightarrow> Inl (NoTransport name)
      | Some None \<Rightarrow> Inl (NoTransport name)
      | Some (Some st) \<Rightarrow>
          let named = (lb_ServersTransport config \<noteq> []);
              terminationDelay = (if named then ts_TerminationDelay st
                                  else case lb_TerminationDelay config of None \<Rightarrow> 0 | Some t \<Rightarrow> t);
              proxyProtocol = (if named then ts_ProxyProtocol st else lb_ProxyProtocol config);
              dialer = \<lparr>td_Timeout = ts_DialTimeout st, td_KeepAlive = ts_DialKeepAlive st,
                        td_terminationDelay = terminationDelay, td_proxyProtocol = proxyProtocol\<rparr>;
              finish = bnd (map_sum TLSError id (tcp_tls_config (dm_spiffe d) ev (ts_TLS st))) (\<lambda>tls.
                Inr (if isTLS then TLSDialer dialer tls else PlainDialer dialer))
          in (case proxyProtocol of
                None \<Rightarrow> finish
              | Some v \<Rightarrow> if v < 1 \<or> v > 2 then Inl (UnknownVersion v) else finish))"

section \<open>Dialing\<close>

datatype 'cert conn_action = Connected | WroteHeader int | Handshook "'cert tls_config option" | ClosedConn

text \<open>What the network answers to the connect, the header and the handshake.\<close>

record net_answers =
  na_dial :: "string option"
  na_header :: "string option"
  na_handshake :: "string option"

definition tcpDialer_DialContext ::
  "net_answers \<Rightarrow> tcpDialer \<Rightarrow> bool \<Rightarrow> string option \<times> 'cert conn_action list" where
  "tcpDialer_DialContext na d has_client =
     (case na_dial na of
        Some e \<Rightarrow> (Some e, [])
      | None \<Rightarrow>
          (case td_proxyProtocol d of
             None \<Rightarrow> (None, [Connected])
           | Some v \<Rightarrow>
               if has_client \<and> 0 < v \<and> v < 3
               then (case na_header na of
                       Some e \<Rightarrow> (Some (''writing PROXY protocol header: '' @ e), [Connected, WroteHeader v, ClosedConn])
                     | None \<Rightarrow> (None, [Connected, WroteHeader v]))
               else (None, [Connected])))"

definition TCPDialer_DialContext ::
  "net_answers \<Rightarrow> 'cert TCPDialer \<Rightarrow> bool \<Rightarrow> string option \<times> 'cert conn_action list" where
  "TCPDialer_DialContext na d has_client =
     (case d of
        PlainDialer p \<Rightarrow> tcpDialer_DialContext na p has_client
      | TLSDialer p tls \<Rightarrow>
          (case tcpDialer_DialContext na p has_client of
             (Some e, acts) \<Rightarrow> (Some e, acts)
           | (None, acts) \<Rightarrow>
               (case na_handshake na of
                  Some e \<Rightarrow> (Some (''TLS handshake failed: '' @ e), acts @ [Handshook tls, ClosedConn])
                | None \<Rightarrow> (None, acts @ [Handshook tls]))))"

fun dialer_of :: "'cert TCPDialer \<Rightarrow> tcpDialer" where
  "dialer_of (PlainDialer p) = p"
| "dialer_of (TLSDialer p tls) = p"

fun handshakes :: "'cert TCPDialer \<Rightarrow> 'cert conn_action list" where
  "handshakes (PlainDialer p) = []"
| "handshakes (TLSDialer p tls) = [Handshook tls]"

text \<open>A dialer that was built only has the versions of the protocol that dialing sends.\<close>

lemma Build_version:
  assumes "TCPDialerManager_Build ev d config isTLS = Inr dl" and "td_proxyProtocol (dialer_of dl) = Some v"
  shows "v = 1 \<or> v = 2"
  using assms
  by (auto simp: TCPDialerManager_Build_def Let_def go_simps split: option.splits if_splits)

lemma Build_tls: "TCPDialerManager_Build ev d config isTLS = Inr dl \<Longrightarrow> (\<exists>p tls. dl = TLSDialer p tls) = isTLS"
  by (auto simp: TCPDialerManager_Build_def Let_def go_simps split: option.splits if_splits)


definition wit_lb :: TCPServersLoadBalancer where
  "wit_lb = \<lparr>lb_ServersTransport = [], lb_ProxyProtocol = Some 2, lb_TerminationDelay = Some 100\<rparr>"

definition wit_dialer :: "unit TCPDialer" where
  "wit_dialer = TLSDialer \<lparr>td_Timeout = 0, td_KeepAlive = 0, td_terminationDelay = 100, td_proxyProtocol = Some 2\<rparr> None"


end
