(* ===== verification/ProxyRewrite.thy ===== *)
theory ProxyRewrite
  imports Prelude "HOL-Library.Sublist"
begin

text \<open>
  The reverse proxy of \<^verbatim>\<open>net/proxy/http_proxy.go\<close>: joining the target's path, rewriting a request for
  the backend, and the status of an error.  What the code uses of \<^verbatim>\<open>net/url\<close> and \<^verbatim>\<open>net\<close> is modelled:
  escaping and unescaping of paths, \<^verbatim>\<open>EscapedPath\<close> and \<^verbatim>\<open>SplitHostPort\<close>.  The parser of request URIs
  and the token parser of the connection header are arguments.
\<close>

section \<open>Path escaping of net/url\<close>

definition ascii_letter :: "char \<Rightarrow> bool" where
  "ascii_letter c \<longleftrightarrow> (let n = (of_char c :: nat) in 97 \<le> n \<and> n \<le> 122 \<or> 65 \<le> n \<and> n \<le> 90)"

definition ascii_digit :: "char \<Rightarrow> bool" where
  "ascii_digit c \<longleftrightarrow> (let n = (of_char c :: nat) in 48 \<le> n \<and> n \<le> 57)"

definition shouldEscape :: "char \<Rightarrow> bool" where
  "shouldEscape c \<longleftrightarrow> \<not> (ascii_letter c \<or> ascii_digit c \<or> c \<in> set ''-_.~$&+,/:;=@'')"

definition upperhex :: "nat \<Rightarrow> char" where
  "upperhex n = (if n < 10 then char_of (48 + n) else char_of (55 + n))"

definition ishex :: "char \<Rightarrow> bool" where
  "ishex c \<longleftrightarrow> (let n = (of_char c :: nat) in ascii_digit c \<or> 97 \<le> n \<and> n \<le> 102 \<or> 65 \<le> n \<and> n \<le> 70)"

definition unhex :: "char \<Rightarrow> nat" where
  "unhex c = (let n = of_char c in if n \<le> 57 then n - 48 else if n \<le> 70 then n - 55 else n - 87)"

fun escape_path :: "string \<Rightarrow> string" where
  "escape_path [] = []"
| "escape_path (c # s) =
     (if shouldEscape c then [CHR ''%'', upperhex (of_char c div 16), upperhex (of_char c mod 16)] else [c])
     @ escape_path s"

fun unescape_path :: "string \<Rightarrow> string option" where
  "unescape_path [] = Some []"
| "unescape_path (c # s) =
     (if c = CHR ''%''
      then (case s of
              a # b # s' \<Rightarrow> if ishex a \<and> ishex b
                then map_option ((#) (char_of (16 * unhex a + unhex b))) (unescape_path (drop 2 s)) else None
            | _ \<Rightarrow> None)
      else map_option ((#) c) (unescape_path s))"

definition validEncoded :: "string \<Rightarrow> bool" where
  "validEncoded s = list_all (\<lambda>c. c \<in> set ''!$&()*+,;=:@[]%'' \<or> c = CHR 0x27 \<or> \<not> shouldEscape c) s"

record URL =
  ur_Scheme :: string
  ur_Host :: string
  ur_Path :: string
  ur_RawPath :: string
  ur_RawQuery :: string

definition EscapedPath :: "URL \<Rightarrow> string" where
  "EscapedPath u =
     (if ur_RawPath u \<noteq> [] \<and> validEncoded (ur_RawPath u) \<and> unescape_path (ur_RawPath u) = Some (ur_Path u)
      then ur_RawPath u
      else if ur_Path u = ''*'' then ''*'' else escape_path (ur_Path u))"

section \<open>Joining paths\<close>

definition slash :: char where "slash = CHR ''/''"

definition HasSuffix_slash :: "string \<Rightarrow> bool" where
  "HasSuffix_slash s \<longleftrightarrow> s \<noteq> [] \<and> last s = slash"

definition HasPrefix_slash :: "string \<Rightarrow> bool" where
  "HasPrefix_slash s \<longleftrightarrow> s \<noteq> [] \<and> hd s = slash"

definition singleJoiningSlash :: "string \<Rightarrow> string \<Rightarrow> string" where
  "singleJoiningSlash a b =
     (if HasSuffix_slash a \<and> HasPrefix_slash b then a @ tl b
      else if \<not> HasSuffix_slash a \<and> \<not> HasPrefix_slash b then a @ [slash] @ b
      else a @ b)"

definition JoinURLPath :: "URL \<Rightarrow> URL \<Rightarrow> (string \<times> string) go" where
  "JoinURLPath a b =
     (if ur_RawPath a = [] \<and> ur_RawPath b = [] then Inr (singleJoiningSlash (ur_Path a) (ur_Path b), [])
      else let apath = EscapedPath a; bpath = EscapedPath b;
               aslash = HasSuffix_slash apath; bslash = HasPrefix_slash bpath
           in if aslash \<and> bslash
              then bnd (slice_range (ur_Path b) 1 (int (length (ur_Path b)))) (\<lambda>bp.
                   bnd (slice_range bpath 1 (int (length bpath))) (\<lambda>bq.
                     Inr (ur_Path a @ bp, apath @ bq)))
              else if \<not> aslash \<and> \<not> bslash then Inr (ur_Path a @ [slash] @ ur_Path b, apath @ [slash] @ bpath)
              else Inr (ur_Path a @ ur_Path b, apath @ bpath))"

lemma unhex_upperhex: "n < 16 \<Longrightarrow> ishex (upperhex n) \<and> unhex (upperhex n) = n"
proof -
  have "list_all (\<lambda>n. ishex (upperhex n) \<and> unhex (upperhex n) = n) [0..<16]"
    by (simp add: upt_rec ishex_def unhex_def upperhex_def ascii_digit_def Let_def)
  then show "n < 16 \<Longrightarrow> ?thesis" by (simp add: list_all_iff)
qed

lemma percent_escaped: "shouldEscape (CHR ''%'')"
  by (simp add: shouldEscape_def ascii_letter_def ascii_digit_def)

lemma unescape_escape: "unescape_path (escape_path s) = Some s"
proof (induction s)
  case (Cons c s)
  show ?case
  proof (cases "shouldEscape c")
    case True
    have "(of_char c :: nat) < 256" by simp
    then have d: "(of_char c :: nat) div 16 < 16" by (simp add: less_mult_imp_div_less)
    have "char_of (16 * (of_char c div 16) + of_char c mod 16 :: nat) = c" by simp
    with True Cons unhex_upperhex [OF d] unhex_upperhex [of "of_char c mod 16"] show ?thesis by simp
  next
    case False
    then have "c \<noteq> CHR ''%''" using percent_escaped by auto
    with False Cons show ?thesis by simp
  qed
qed simp

text \<open>What \<^verbatim>\<open>EscapedPath\<close> answers decodes to the path.\<close>

lemma unescape_EscapedPath: "unescape_path (EscapedPath u) = Some (ur_Path u)"
  by (simp add: EscapedPath_def unescape_escape)

lemma unescape_append:
  "unescape_path a = Some x \<Longrightarrow> unescape_path b = Some y \<Longrightarrow> unescape_path (a @ b) = Some (x @ y)"
proof (induction a arbitrary: x rule: unescape_path.induct)
  case (2 c s)
  show ?case
  proof (cases "c = CHR ''%''")
    case True
    with 2 obtain p q s' where s: "s = p # q # s'" "ishex p" "ishex q"
      by (auto split: list.splits if_splits)
    with 2 True show ?thesis by auto
  next
    case False
    with 2 show ?thesis by auto
  qed
qed simp

lemma slash_decodes: "unescape_path (slash # s) = map_option ((#) slash) (unescape_path s)"
  by (simp add: slash_def)

text \<open>Without one slash at the end, or at the start.\<close>

definition strip_suffix :: "string \<Rightarrow> string" where
  "strip_suffix s = (if HasSuffix_slash s then butlast s else s)"

definition strip_prefix :: "string \<Rightarrow> string" where
  "strip_prefix s = (if HasPrefix_slash s then tl s else s)"

lemma strip_suffix_slash: "HasSuffix_slash a \<Longrightarrow> strip_suffix a @ slash # s = a @ s"
  using append_butlast_last_id [of a] by (simp add: HasSuffix_slash_def strip_suffix_def)

lemma strip_prefix_slash: "HasPrefix_slash b \<Longrightarrow> slash # strip_prefix b = b"
  by (cases b) (simp_all add: HasPrefix_slash_def strip_prefix_def)

lemma strip_prefix_tl: "HasPrefix_slash b \<Longrightarrow> strip_prefix b = tl b"
  by (simp add: strip_prefix_def)

lemma strip_other: "\<not> HasSuffix_slash a \<Longrightarrow> strip_suffix a = a" "\<not> HasPrefix_slash b \<Longrightarrow> strip_prefix b = b"
  by (simp_all add: strip_suffix_def strip_prefix_def)

lemma joined_slash:
  "HasSuffix_slash a \<and> HasPrefix_slash b \<Longrightarrow> a @ tl b = strip_suffix a @ slash # strip_prefix b"
  "HasSuffix_slash a \<and> \<not> HasPrefix_slash b \<Longrightarrow> a @ b = strip_suffix a @ slash # strip_prefix b"
  "\<not> HasSuffix_slash a \<and> HasPrefix_slash b \<Longrightarrow> a @ b = strip_suffix a @ slash # strip_prefix b"
  "\<not> HasSuffix_slash a \<and> \<not> HasPrefix_slash b \<Longrightarrow> a @ slash # b = strip_suffix a @ slash # strip_prefix b"
     apply (simp add: strip_suffix_slash strip_prefix_tl)
    apply (simp add: strip_suffix_slash strip_other)
   apply (simp add: strip_prefix_slash strip_other)
  apply (simp add: strip_other)
  done

lemma singleJoiningSlash_eq: "singleJoiningSlash a b = strip_suffix a @ slash # strip_prefix b"
  using joined_slash [of a b] by (auto simp: singleJoiningSlash_def)

lemma slice_from_one: "slice_range (x # xs) 1 (int (length (x # xs))) = Inr xs"
  by (simp add: slice_range_def)

lemma JoinURLPath_joined:
  "\<exists>p rp. JoinURLPath a b = Inr (p, rp)
     \<and> (if ur_RawPath a = [] \<and> ur_RawPath b = []
        then rp = [] \<and> p = strip_suffix (ur_Path a) @ ''/'' @ strip_prefix (ur_Path b)
        else rp = strip_suffix (EscapedPath a) @ ''/'' @ strip_prefix (EscapedPath b) \<and> unescape_path rp = Some p)"
proof (cases "ur_RawPath a = [] \<and> ur_RawPath b = []")
  case True
  then show ?thesis by (simp add: JoinURLPath_def singleJoiningSlash_eq slash_def)
next
  case False
  let ?a = "EscapedPath a" and ?b = "EscapedPath b"
  note dec = unescape_EscapedPath [of a] unescape_EscapedPath [of b]
  note joined = joined_slash [of ?a ?b, unfolded slash_def]
  show ?thesis
  proof (cases "HasSuffix_slash ?a \<and> HasPrefix_slash ?b")
    case True
    then obtain r where r: "?b = slash # r" by (cases ?b) (auto simp: HasPrefix_slash_def)
    have "map_option ((#) slash) (unescape_path r) = Some (ur_Path b)" using dec(2) unfolding r slash_decodes .
    then obtain y where y': "slash # y = ur_Path b" "unescape_path r = Some y"
      by (cases "unescape_path r") auto
    note y = y'(1) [symmetric] y'(2)
    have "JoinURLPath a b = Inr (ur_Path a @ y, ?a @ r)"
      using False True by (simp only: JoinURLPath_def r y slice_from_one Let_def bnd.simps if_False if_True simp_thms)
    with False True joined(1) unescape_append [OF dec(1) y(2)] r show ?thesis by auto
  next
    case no: False
    show ?thesis
    proof (cases "\<not> HasSuffix_slash ?a \<and> \<not> HasPrefix_slash ?b")
      case True
      have "unescape_path (slash # ?b) = Some (slash # ur_Path b)" by (simp only: slash_decodes dec(2) option.simps)
      from unescape_append [OF dec(1) this] False True joined(4) show ?thesis
        by (auto simp: JoinURLPath_def Let_def slash_def)
    next
      case False2: False
      with no have "?a @ ?b = strip_suffix ?a @ ''/'' @ strip_prefix ?b" using joined(2,3) by auto
      moreover have "JoinURLPath a b = Inr (ur_Path a @ ur_Path b, ?a @ ?b)"
        using False no False2 by (auto simp: JoinURLPath_def Let_def)
      ultimately show ?thesis using False unescape_append [OF dec] by auto
    qed
  qed
qed

lemma JoinURLPath_total: "\<exists>p rp. JoinURLPath a b = Inr (p, rp)"
  using JoinURLPath_joined [of a b] by blast

text \<open>
  \<^verbatim>\<open>JoinURLPath\<close> never panics and puts exactly one slash between the two paths; when one of the
  URLs has a raw path, the raw path it answers is the two escaped paths joined by one slash and
  decodes to the path it answers.
\<close>

theorem JoinURLPath_consistent:
  "\<exists>p rp. JoinURLPath a b = Inr (p, rp)
     \<and> (if ur_RawPath a = [] \<and> ur_RawPath b = []
        then rp = [] \<and> p = strip_suffix (ur_Path a) @ ''/'' @ strip_prefix (ur_Path b)
        else rp = strip_suffix (EscapedPath a) @ ''/'' @ strip_prefix (EscapedPath b) \<and> unescape_path rp = Some p)"
  by (rule JoinURLPath_joined)

lemma JoinURLPath_consistent_witness:
  "JoinURLPath \<lparr>ur_Scheme = [], ur_Host = [], ur_Path = ''/base/'', ur_RawPath = [], ur_RawQuery = []\<rparr>
     \<lparr>ur_Scheme = [], ur_Host = [], ur_Path = ''/x'', ur_RawPath = [], ur_RawQuery = []\<rparr> = Inr (''/base/x'', [])"
  using JoinURLPath_consistent [of "\<lparr>ur_Scheme = [], ur_Host = [], ur_Path = ''/base/'', ur_RawPath = [], ur_RawQuery = []\<rparr>"
     "\<lparr>ur_Scheme = [], ur_Host = [], ur_Path = ''/x'', ur_RawPath = [], ur_RawQuery = []\<rparr>"]
  by (simp add: strip_suffix_def strip_prefix_def HasSuffix_slash_def HasPrefix_slash_def slash_def)


section \<open>SplitHostPort of net\<close>

definition last_index :: "char \<Rightarrow> string \<Rightarrow> nat option" where
  "last_index c s = (if c \<in> set s then Some (length s - 1 - length (takeWhile (\<lambda>d. d \<noteq> c) (rev s))) else None)"

definition first_index :: "char \<Rightarrow> string \<Rightarrow> nat option" where
  "first_index c s = (if c \<in> set s then Some (length (takeWhile (\<lambda>d. d \<noteq> c) s)) else None)"

datatype addr_error = MissingPort | TooManyColons | MissingBracket | UnexpectedOpen | UnexpectedClose

definition split_brackets :: "string \<Rightarrow> nat \<Rightarrow> string \<Rightarrow> nat \<Rightarrow> nat \<Rightarrow> addr_error + string \<times> string" where
  "split_brackets hostport i host j k =
     (if CHR ''['' \<in> set (drop j hostport) then Inl UnexpectedOpen
      else if CHR '']'' \<in> set (drop k hostport) then Inl UnexpectedClose
      else Inr (host, drop (i + 1) hostport))"

definition SplitHostPort :: "string \<Rightarrow> addr_error + string \<times> string" where
  "SplitHostPort hostport =
     (case last_index (CHR '':'') hostport of
        None \<Rightarrow> Inl MissingPort
      | Some i \<Rightarrow>
          if hd hostport = CHR ''['' then
            (case first_index (CHR '']'') hostport of
               None \<Rightarrow> Inl MissingBracket
             | Some e \<Rightarrow>
                 if e + 1 = length hostport then Inl MissingPort
                 else if e + 1 \<noteq> i then
                   (if hostport ! (e + 1) = CHR '':'' then Inl TooManyColons else Inl MissingPort)
                 else split_brackets hostport i (take (e - 1) (drop 1 hostport)) 1 (e + 1))
          else if CHR '':'' \<in> set (take i hostport) then Inl TooManyColons
          else split_brackets hostport i (take i hostport) 0 0)"

lemma split_ipv4: "SplitHostPort ''10.0.0.1:80'' = Inr (''10.0.0.1'', ''80'')"
  by (simp add: SplitHostPort_def last_index_def first_index_def split_brackets_def)

lemma split_ipv6: "SplitHostPort ''[::1]:80'' = Inr (''::1'', ''80'')"
  by (simp add: SplitHostPort_def last_index_def first_index_def split_brackets_def)

section \<open>Rewriting a request\<close>

text \<open>A header value is a slice of strings, which may be nil; a missing key is no value at all.\<close>

type_synonym header = "string \<rightharpoonup> string list option"

definition header_values :: "header \<Rightarrow> string \<Rightarrow> string list" where
  "header_values h k = (case h k of Some (Some vs) \<Rightarrow> vs | _ \<Rightarrow> [])"

record Request =
  rq_Header :: header
  rq_URL :: URL
  rq_RequestURI :: string
  rq_Host :: string
  rq_Proto :: "string \<times> nat \<times> nat"
  rq_RemoteAddr :: string
  rq_NotAppendXFF :: "bool option"

definition ShouldNotAppendXFF :: "Request \<Rightarrow> bool" where
  "ShouldNotAppendXFF r = (case rq_NotAppendXFF r of None \<Rightarrow> False | Some b \<Rightarrow> b)"

definition SetNotAppendXFF :: "Request \<Rightarrow> Request" where
  "SetNotAppendXFF r = r\<lparr>rq_NotAppendXFF := Some True\<rparr>"

definition copy_key :: "string \<Rightarrow> header \<Rightarrow> header \<Rightarrow> header" where
  "copy_key k src dst = (case src k of None \<Rightarrow> dst | Some v \<Rightarrow> dst(k \<mapsto> v))"

definition copyForwardedHeader :: "header \<Rightarrow> header \<Rightarrow> header" where
  "copyForwardedHeader dst src =
     copy_key ''X-Forwarded-Proto'' src (copy_key ''X-Forwarded-Host'' src
       (copy_key ''Forwarded'' src (copy_key ''X-Forwarded-For'' src dst)))"

fun join_comma :: "string list \<Rightarrow> string" where
  "join_comma [] = []"
| "join_comma [s] = s"
| "join_comma (s # t # ss) = s @ '', '' @ join_comma (t # ss)"

definition append_XFF :: "Request \<Rightarrow> header \<Rightarrow> header" where
  "append_XFF inp h =
     (if ShouldNotAppendXFF inp then h
      else case SplitHostPort (rq_RemoteAddr inp) of
             Inl e \<Rightarrow> h
           | Inr (clientIP, port) \<Rightarrow>
               let omit = (h ''X-Forwarded-For'' = Some None);
                   prior = header_values h ''X-Forwarded-For'';
                   v = (if prior \<noteq> [] then join_comma prior @ '', '' @ clientIP else clientIP)
               in if omit then h else h(''X-Forwarded-For'' \<mapsto> Some [v]))"

definition rename_key :: "string \<Rightarrow> string \<Rightarrow> header \<Rightarrow> header" where
  "rename_key new old h = (h(new := Some (case h old of None \<Rightarrow> None | Some v \<Rightarrow> v)))(old := None)"

definition cleanWebSocketHeaders :: "header \<Rightarrow> header" where
  "cleanWebSocketHeaders h =
     rename_key ''Sec-WebSocket-Version'' ''Sec-Websocket-Version''
     (rename_key ''Sec-WebSocket-Protocol'' ''Sec-Websocket-Protocol''
     (rename_key ''Sec-WebSocket-Accept'' ''Sec-Websocket-Accept''
     (rename_key ''Sec-WebSocket-Extensions'' ''Sec-Websocket-Extensions''
     (rename_key ''Sec-WebSocket-Key'' ''Sec-Websocket-Key'' h))))"

text \<open>
  \<^verbatim>\<open>strings.EqualFold\<close> against an ASCII word in lower case: besides the capital letter, the long s
  (U+017F) folds to s and the Kelvin sign (U+212A) to k.
\<close>

definition lower_ascii :: "char \<Rightarrow> char" where
  "lower_ascii c = (let n = (of_char c :: nat) in if 65 \<le> n \<and> n \<le> 90 then char_of (n + 32) else c)"

fun equalFold_ascii :: "string \<Rightarrow> string \<Rightarrow> bool" where
  "equalFold_ascii s [] \<longleftrightarrow> s = []"
| "equalFold_ascii s (d # w) \<longleftrightarrow>
     (case s of
        [] \<Rightarrow> False
      | c # s1 \<Rightarrow>
          if lower_ascii c = d then equalFold_ascii s1 w
          else if d = CHR ''s'' \<and> take 2 s = [CHR 0xC5, CHR 0xBF] then equalFold_ascii (drop 2 s) w
          else if d = CHR ''k'' \<and> take 3 s = [CHR 0xE2, CHR 0x84, CHR 0xAA] then equalFold_ascii (drop 3 s) w
          else False)"

text \<open>\<open>hasToken\<close> is \<^verbatim>\<open>HeaderValuesContainsToken\<close> of \<^verbatim>\<open>golang.org/x/net/http/httpguts\<close>.\<close>

definition isWebSocketUpgrade :: "(string list \<Rightarrow> string \<Rightarrow> bool) \<Rightarrow> header \<Rightarrow> bool" where
  "isWebSocketUpgrade hasToken h \<longleftrightarrow>
     hasToken (header_values h ''Connection'') ''Upgrade''
     \<and> equalFold_ascii (case header_values h ''Upgrade'' of [] \<Rightarrow> [] | v # vs \<Rightarrow> v) ''websocket''"

definition semicolons_to_ampersands :: "string \<Rightarrow> string" where
  "semicolons_to_ampersands = map (\<lambda>c. if c = CHR '';'' then CHR ''&'' else c)"

definition rewriteRequest ::
  "(string \<Rightarrow> URL option) \<Rightarrow> (string list \<Rightarrow> string \<Rightarrow> bool) \<Rightarrow> URL \<Rightarrow> bool \<Rightarrow> bool \<Rightarrow> Request \<Rightarrow> Request \<Rightarrow> Request go" where
  "rewriteRequest parseRequestURI hasToken target passHostHeader preservePath inp out =
     (let h = append_XFF inp (copyForwardedHeader (rq_Header out) (rq_Header inp));
          u0 = (rq_URL out)\<lparr>ur_Scheme := ur_Scheme target, ur_Host := ur_Host target\<rparr>;
          u = (if rq_RequestURI out \<noteq> []
               then (case parseRequestURI (rq_RequestURI out) of Some p \<Rightarrow> p | None \<Rightarrow> u0) else u0)
      in bnd (if preservePath then JoinURLPath target u else Inr (ur_Path u, ur_RawPath u)) (\<lambda>(path, rawpath).
           let u1 = u0\<lparr>ur_Path := path, ur_RawPath := rawpath,
                       ur_RawQuery := semicolons_to_ampersands (ur_RawQuery u)\<rparr>;
               out1 = out\<lparr>rq_Header := h, rq_URL := u1, rq_RequestURI := [], rq_Proto := (''HTTP/1.1'', 1, 1),
                          rq_Host := (if passHostHeader then rq_Host out else ur_Host u1)\<rparr>
           in Inr (if isWebSocketUpgrade hasToken h
                   then out1\<lparr>rq_Header := cleanWebSocketHeaders h\<rparr> else out1)))"

lemma copy_key_apply: "copy_key k src dst j = (if j = k \<and> src j \<noteq> None then src j else dst j)"
  by (auto simp: copy_key_def split: option.split)

definition copied :: "string set \<Rightarrow> header \<Rightarrow> header \<Rightarrow> header" where
  "copied A src dst = (\<lambda>j. if j \<in> A \<and> src j \<noteq> None then src j else dst j)"

lemma copied_empty: "dst = copied {} src dst"
  by (simp add: copied_def)

lemma copy_key_copied: "copy_key k src (copied A src dst) = copied (insert k A) src dst"
  by (rule ext) (auto simp: copied_def copy_key_apply)

lemma copyForwardedHeader_apply:
  "copyForwardedHeader dst src k =
     (if k \<in> {''X-Forwarded-Proto'', ''X-Forwarded-Host'', ''Forwarded'', ''X-Forwarded-For''} \<and> src k \<noteq> None
      then src k else dst k)"
proof -
  have "copyForwardedHeader dst src
      = copied {''X-Forwarded-Proto'', ''X-Forwarded-Host'', ''Forwarded'', ''X-Forwarded-For''} src dst"
    unfolding copyForwardedHeader_def by (subst copied_empty [of dst src]) (simp only: copy_key_copied)
  then show ?thesis by (simp only: copied_def)
qed

lemma join_comma_snoc: "join_comma (ss @ [t]) = (if ss = [] then t else join_comma ss @ '', '' @ t)"
  by (induction ss rule: join_comma.induct) simp_all

text \<open>The values of \<^verbatim>\<open>X-Forwarded-For\<close> the backend is to see.\<close>

definition xff_expected :: "Request \<Rightarrow> Request \<Rightarrow> string list" where
  "xff_expected inp out =
     (let prior = (case rq_Header inp ''X-Forwarded-For'' of
                     None \<Rightarrow> rq_Header out ''X-Forwarded-For'' | Some v \<Rightarrow> Some v);
          vs = (case prior of Some (Some vs) \<Rightarrow> vs | _ \<Rightarrow> [])
      in if rq_NotAppendXFF inp = Some True \<or> prior = Some None then vs
         else case SplitHostPort (rq_RemoteAddr inp) of
                Inl e \<Rightarrow> vs
              | Inr (ip, port) \<Rightarrow> [join_comma (vs @ [ip])])"

lemma append_XFF_expected:
  "header_values (append_XFF inp (copyForwardedHeader (rq_Header out) (rq_Header inp))) ''X-Forwarded-For''
     = xff_expected inp out"
  by (auto simp: append_XFF_def xff_expected_def header_values_def ShouldNotAppendXFF_def
      copyForwardedHeader_apply join_comma_snoc Let_def split: option.splits sum.splits)

lemma cleanWebSocketHeaders_other:
  "k \<notin> {''Sec-WebSocket-Version'', ''Sec-Websocket-Version'', ''Sec-WebSocket-Protocol'', ''Sec-Websocket-Protocol'',
      ''Sec-WebSocket-Accept'', ''Sec-Websocket-Accept'', ''Sec-WebSocket-Extensions'', ''Sec-Websocket-Extensions'',
      ''Sec-WebSocket-Key'', ''Sec-Websocket-Key''} \<Longrightarrow> cleanWebSocketHeaders h k = h k"
  by (simp add: cleanWebSocketHeaders_def rename_key_def)

lemma header_values_clean:
  "header_values (cleanWebSocketHeaders h) ''X-Forwarded-For'' = header_values h ''X-Forwarded-For''"
  by (simp add: header_values_def cleanWebSocketHeaders_other)

lemma semicolons_gone: "CHR '';'' \<notin> set (semicolons_to_ampersands s)"
  by (auto simp: semicolons_to_ampersands_def)

text \<open>
  C33. Rewriting a request for the backend always succeeds.  The request it leaves goes to the target's
  scheme and host, has no request URI, is HTTP/1.1, keeps the client's host exactly when asked to and
  has no semicolon in its query; and its \<^verbatim>\<open>X-Forwarded-For\<close> is the incoming one followed by the
  client's address, unless the context or a nil header forbids it or the address has no port.
\<close>

theorem rewriteRequest_target:
  "\<exists>r. rewriteRequest parse hasToken target passHost preserve inp out = Inr r
     \<and> ur_Scheme (rq_URL r) = ur_Scheme target \<and> ur_Host (rq_URL r) = ur_Host target
     \<and> rq_RequestURI r = [] \<and> rq_Proto r = (''HTTP/1.1'', 1, 1)
     \<and> rq_Host r = (if passHost then rq_Host out else ur_Host target)
     \<and> CHR '';'' \<notin> set (ur_RawQuery (rq_URL r))
     \<and> header_values (rq_Header r) ''X-Forwarded-For'' = xff_expected inp out"
proof -
  have join: "\<exists>p rp. (if preserve then JoinURLPath target u else Inr (ur_Path u, ur_RawPath u)) = Inr (p, rp)" for u
    using JoinURLPath_total [of target u] by simp
  define u where "u = (if rq_RequestURI out \<noteq> []
     then (case parse (rq_RequestURI out) of Some p \<Rightarrow> p
           | None \<Rightarrow> (rq_URL out)\<lparr>ur_Scheme := ur_Scheme target, ur_Host := ur_Host target\<rparr>)
     else (rq_URL out)\<lparr>ur_Scheme := ur_Scheme target, ur_Host := ur_Host target\<rparr>)"
  obtain p rp where "(if preserve then JoinURLPath target u else Inr (ur_Path u, ur_RawPath u)) = Inr (p, rp)"
    using join by blast
  then show ?thesis
    by (cases preserve; cases passHost) (simp_all add: rewriteRequest_def Let_def u_def [symmetric]
        semicolons_gone append_XFF_expected header_values_clean)
qed

section \<open>Errors\<close>

text \<open>
  What \<^verbatim>\<open>ComputeStatusCode\<close> asks of an error: \<^verbatim>\<open>errors.Is\<close> of the end of file and of the cancelled
  context, and the \<^verbatim>\<open>Timeout\<close> of the network error it wraps, if any.
\<close>

record proxy_error =
  pe_EOF :: bool
  pe_Canceled :: bool
  pe_NetError :: "bool option"

definition StatusClientClosedRequest :: nat where "StatusClientClosedRequest = 499"

definition ComputeStatusCode :: "proxy_error \<Rightarrow> nat" where
  "ComputeStatusCode err =
     (if pe_EOF err then 502
      else if pe_Canceled err then StatusClientClosedRequest
      else case pe_NetError err of
             Some timeout \<Rightarrow> if timeout then 504 else 502
           | None \<Rightarrow> 500)"

definition statusText :: "(nat \<Rightarrow> string) \<Rightarrow> nat \<Rightarrow> string" where
  "statusText httpStatusText code =
     (if code = StatusClientClosedRequest then ''Client Closed Request'' else httpStatusText code)"

text \<open>The handler's answer: the status written and the body.\<close>

definition ErrorHandlerWithContext :: "(nat \<Rightarrow> string) \<Rightarrow> proxy_error \<Rightarrow> nat \<times> string" where
  "ErrorHandlerWithContext httpStatusText err =
     (let statusCode = ComputeStatusCode err in (statusCode, statusText httpStatusText statusCode))"

lemma status_is_error: "ComputeStatusCode err \<in> {499, 500, 502, 504}"
  by (simp add: ComputeStatusCode_def StatusClientClosedRequest_def split: option.split)

end
