(* ===== verification/LockedFile.thy ===== *)
theory LockedFile
  imports Prelude
begin

text \<open>
  Locked files, \<^verbatim>\<open>linux/lockedfile\<close>: opening with an advisory lock, \<^verbatim>\<open>Transform\<close>, the file mutex and the
  errors of \<^verbatim>\<open>filelock\<close>.  The file system is a directory of names and a list of contents; every
  system call of every process that uses the package is a step, so that runs interleave.  What the
  operating system answers is free: a call may fail, a write may stop half way.
\<close>

unbundle bit_operations_syntax

section \<open>Errors of filelock\<close>

type_synonym errno = nat

definition EINTR :: errno where "EINTR = 4"
definition ENOSYS :: errno where "ENOSYS = 38"
definition ENOTSUP :: errno where "ENOTSUP = 95"
definition EOPNOTSUPP :: errno where "EOPNOTSUPP = 95"

datatype lockType = readLock | writeLock | unlockLock

fun lockType_String :: "lockType \<Rightarrow> string" where
  "lockType_String writeLock = ''Lock''"
| "lockType_String readLock = ''RLock''"
| "lockType_String unlockLock = ''Unlock''"

text \<open>The error values the code can tell apart; each but the first two wraps another.\<close>

datatype os_error =
    Errno errno
  | ErrNotSupported
  | OtherErr string
  | PathError string string os_error
  | LinkError string string string os_error
  | SyscallError string os_error
  | WrapErr string os_error

fun unwrap :: "os_error \<Rightarrow> os_error option" where
  "unwrap (PathError op path e) = Some e"
| "unwrap (LinkError op old new e) = Some e"
| "unwrap (SyscallError call e) = Some e"
| "unwrap (WrapErr msg e) = Some e"
| "unwrap e = None"

text \<open>\<^verbatim>\<open>errors.As\<close>: the first error of the chain with the wanted type.\<close>

fun errors_As :: "(os_error \<Rightarrow> bool) \<Rightarrow> os_error \<Rightarrow> os_error option" where
  "errors_As P (PathError op path e) = (if P (PathError op path e) then Some (PathError op path e) else errors_As P e)"
| "errors_As P (LinkError op old new e) =
     (if P (LinkError op old new e) then Some (LinkError op old new e) else errors_As P e)"
| "errors_As P (SyscallError call e) = (if P (SyscallError call e) then Some (SyscallError call e) else errors_As P e)"
| "errors_As P (WrapErr msg e) = (if P (WrapErr msg e) then Some (WrapErr msg e) else errors_As P e)"
| "errors_As P e = (if P e then Some e else None)"

fun is_PathError :: "os_error \<Rightarrow> bool" where
  "is_PathError (PathError op path e) = True" | "is_PathError _ = False"
fun is_LinkError :: "os_error \<Rightarrow> bool" where
  "is_LinkError (LinkError op old new e) = True" | "is_LinkError _ = False"
fun is_SyscallError :: "os_error \<Rightarrow> bool" where
  "is_SyscallError (SyscallError call e) = True" | "is_SyscallError _ = False"

definition underlyingError :: "os_error \<Rightarrow> os_error" where
  "underlyingError err =
     (case errors_As is_PathError err of
        Some pathErr \<Rightarrow> pathErr
      | None \<Rightarrow>
          (case errors_As is_LinkError err of
             Some linkErr \<Rightarrow> linkErr
           | None \<Rightarrow> (case errors_As is_SyscallError err of Some syscallErr \<Rightarrow> syscallErr | None \<Rightarrow> err)))"

definition isNotSupported :: "os_error \<Rightarrow> bool" where
  "isNotSupported err \<longleftrightarrow> err = Errno ENOSYS \<or> err = Errno ENOTSUP \<or> err = Errno EOPNOTSUPP \<or> err = ErrNotSupported"

definition IsNotSupported :: "os_error \<Rightarrow> bool" where
  "IsNotSupported err = isNotSupported (underlyingError err)"

text \<open>
  \<^verbatim>\<open>lock\<close> retries an interrupted call.  The list holds the answers of \<^verbatim>\<open>flock\<close>, \<open>None\<close> a success; when
  it runs out the call still blocks.
\<close>

fun flock_retry :: "errno option list \<Rightarrow> errno option option" where
  "flock_retry [] = None"
| "flock_retry (Some e # answers) = (if e = EINTR then flock_retry answers else Some (Some e))"
| "flock_retry (None # answers) = Some None"

definition lock :: "errno option list \<Rightarrow> string \<Rightarrow> lockType \<Rightarrow> os_error option option" where
  "lock answers name lt =
     map_option (map_option (\<lambda>e. PathError (lockType_String lt) name (Errno e))) (flock_retry answers)"

definition RLock :: "errno option list \<Rightarrow> string \<Rightarrow> os_error option option" where
  "RLock answers name = lock answers name readLock"

definition Lock :: "errno option list \<Rightarrow> string \<Rightarrow> os_error option option" where
  "Lock answers name = lock answers name writeLock"

definition unlock :: "errno option list \<Rightarrow> string \<Rightarrow> os_error option option" where
  "unlock answers name = lock answers name unlockLock"

definition Unlock :: "errno option list \<Rightarrow> string \<Rightarrow> os_error option option" where
  "Unlock answers name = unlock answers name"

lemma errors_As_sound: "errors_As P e = Some x \<Longrightarrow> P x"
  by (induction e) (auto split: if_splits)

lemma flock_retry_returns: "\<exists>a\<in>set answers. a \<noteq> Some EINTR \<Longrightarrow> \<exists>r. flock_retry answers = Some r \<and> r \<noteq> Some EINTR"
  by (induction answers rule: flock_retry.induct) auto

lemma IsNotSupported_iff:
  "IsNotSupported err \<longleftrightarrow> err \<in> {Errno ENOSYS, Errno ENOTSUP, Errno EOPNOTSUPP, ErrNotSupported}"
proof -
  have "isNotSupported x \<Longrightarrow> \<not> is_PathError x \<and> \<not> is_LinkError x \<and> \<not> is_SyscallError x" for x
    by (auto simp: isNotSupported_def)
  then have "IsNotSupported err \<Longrightarrow> underlyingError err = err"
    by (auto simp: IsNotSupported_def underlyingError_def split: option.splits dest: errors_As_sound)
  then show ?thesis
    by (auto simp: IsNotSupported_def isNotSupported_def underlyingError_def)
qed

text \<open>
  Locking returns as soon as a call is not interrupted, with its answer; but \<^verbatim>\<open>IsNotSupported\<close> is
  false of every error it returns, also when the system does not support locking, because
  \<^verbatim>\<open>underlyingError\<close> answers the wrapper and not the error in it.
\<close>

theorem lock_never_unsupported:
  assumes "\<exists>a\<in>set answers. a \<noteq> Some EINTR"
  shows "\<exists>r. lock answers name lt = Some r \<and> (\<forall>e. r = Some e \<longrightarrow>
     \<not> IsNotSupported e \<and> (\<exists>n. n \<noteq> EINTR \<and> e = PathError (lockType_String lt) name (Errno n)))"
proof -
  obtain r where r: "flock_retry answers = Some r" "r \<noteq> Some EINTR"
    using flock_retry_returns [OF assms] by blast
  show ?thesis
  proof (cases r)
    case (Some n)
    with r show ?thesis by (auto simp: lock_def IsNotSupported_iff)
  qed (use r in \<open>simp add: lock_def\<close>)
qed

lemma lock_never_unsupported_witness:
  "lock [Some EINTR, Some ENOSYS] ''f'' readLock = Some (Some (PathError ''RLock'' ''f'' (Errno ENOSYS)))
     \<and> \<not> IsNotSupported (PathError ''RLock'' ''f'' (Errno ENOSYS))"
proof -
  have "\<exists>a\<in>set [Some EINTR, Some ENOSYS]. a \<noteq> Some EINTR" by (simp add: EINTR_def ENOSYS_def)
  from lock_never_unsupported [OF this, of "''f''" readLock]
  show ?thesis by (auto simp: lock_def EINTR_def ENOSYS_def)
qed

section \<open>Transform\<close>

text \<open>
  Bytes written at an offset; a hole is filled with zeros.  A write that fails has written a prefix.
\<close>

definition write_at :: "nat \<Rightarrow> string \<Rightarrow> string \<Rightarrow> string" where
  "write_at off data s =
     (let s' = s @ replicate (off - length s) (CHR 0x00) in take off s' @ data @ drop (off + length data) s')"

text \<open>\<open>Some (k, e)\<close>: the write stops after \<open>k\<close> bytes with the error \<open>e\<close>.\<close>

definition WriteAt :: "(nat \<times> string) option \<Rightarrow> string \<Rightarrow> nat \<Rightarrow> string \<Rightarrow> string option \<times> string" where
  "WriteAt answer data off s =
     (case answer of
        None \<Rightarrow> (None, write_at off data s)
      | Some (k, e) \<Rightarrow> (Some e, if data = [] then s else write_at off (take (min k (length data - 1)) data) s))"

definition Truncate :: "string option \<Rightarrow> nat \<Rightarrow> string \<Rightarrow> string option \<times> string" where
  "Truncate answer n s =
     (case answer of None \<Rightarrow> (None, take n s @ replicate (n - length s) (CHR 0x00)) | Some e \<Rightarrow> (Some e, s))"

record os_answers =
  oa_edit :: "string option"
  oa_read :: "string option"
  oa_tail :: "(nat \<times> string) option"
  oa_tail_truncate :: "string option"
  oa_body :: "(nat \<times> string) option"
  oa_shrink :: "string option"
  oa_undo :: "(nat \<times> string) option"
  oa_undo_truncate :: "string option"

text \<open>The deferred function; \<open>err\<close> is the variable it has captured.\<close>

definition undo_transform :: "os_answers \<Rightarrow> string option \<Rightarrow> string \<Rightarrow> string \<Rightarrow> string" where
  "undo_transform a err old s =
     (if err \<noteq> None
      then (case WriteAt (oa_undo a) old 0 s of
              (Some e, s') \<Rightarrow> s'
            | (None, s') \<Rightarrow> snd (Truncate (oa_undo_truncate a) (length old) s'))
      else s)"

text \<open>
  The overwriting part.  Its errors are variables of their own in the conditions of the \<^verbatim>\<open>if\<close>
  statements and are returned through an unnamed result.
\<close>

definition overwrite :: "os_answers \<Rightarrow> string \<Rightarrow> string \<Rightarrow> string \<Rightarrow> string option \<times> string" where
  "overwrite a old new s =
     (if length new \<ge> length old
      then WriteAt (oa_body a) (take (length old) new) 0 s
      else (case WriteAt (oa_body a) new 0 s of
              (Some e, s') \<Rightarrow> (Some e, s')
            | (None, s') \<Rightarrow> Truncate (oa_shrink a) (length new) s'))"

definition Transform :: "os_answers \<Rightarrow> (string \<Rightarrow> string + string) \<Rightarrow> string \<Rightarrow> string option \<times> string" where
  "Transform a t s =
     (case oa_edit a of
        Some e \<Rightarrow> (Some e, s)
      | None \<Rightarrow>
     (case oa_read a of
        Some e \<Rightarrow> (Some e, s)
      | None \<Rightarrow>
     (case t s of
        Inl e \<Rightarrow> (Some e, s)
      | Inr new \<Rightarrow>
          let old = s; err = None;
              finish = (\<lambda>s1. case overwrite a old new s1 of (r, s2) \<Rightarrow> (r, undo_transform a err old s2))
          in if length new > length old
             then (case WriteAt (oa_tail a) (drop (length old) new) (length old) s of
                     (Some e, s1) \<Rightarrow> (Some e, snd (Truncate (oa_tail_truncate a) (length old) s1))
                   | (None, s1) \<Rightarrow> finish s1)
             else finish s)))"

lemma write_at_zero: "write_at 0 d s = d @ drop (length d) s"
  by (simp add: write_at_def)

lemma write_at_end: "write_at (length s) d s = s @ d"
  by (simp add: write_at_def)

lemmas transform_simps = Transform_def overwrite_def undo_transform_def WriteAt_def Truncate_def Let_def
  write_at_zero write_at_end

lemma Transform_result:
  assumes "Transform a t old = (r, s)"
  shows "case r of
      None \<Rightarrow> t old = Inr s
    | Some e \<Rightarrow> oa_body a = None \<and> oa_shrink a = None \<and> oa_tail_truncate a = None \<longrightarrow> s = old"
  using assms
  by (cases "oa_edit a"; cases "oa_read a"; cases "t old"; cases "oa_tail a"; cases "oa_body a"; cases "oa_shrink a")
    (auto simp: transform_simps split: if_splits option.splits)


definition all_ok :: os_answers where
  "all_ok = \<lparr>oa_edit = None, oa_read = None, oa_tail = None, oa_tail_truncate = None, oa_body = None,
     oa_shrink = None, oa_undo = None, oa_undo_truncate = None\<rparr>"


text \<open>
  The overwriting is never undone: when a write over the old contents stops after \<open>k\<close> bytes,
  \<^verbatim>\<open>Transform\<close> leaves \<open>k\<close> new bytes before the old rest, whatever the system would answer to the
  roll-back, since the deferred function looks at a variable that stays nil.
\<close>

theorem Transform_never_undone:
  assumes "oa_edit a = None" and "oa_read a = None" and "t old = Inr new" and "oa_tail a = None"
    and "oa_body a = Some (k, e)" and "k < min (length new) (length old)"
  shows "Transform a t old = (Some e, take k new @ drop k old @ drop (length old) new)"
proof (cases "length old < length new")
  case True
  with assms(6) have m: "min k (length old - 1) = k" "k \<le> length old" "k < length new" by linarith+
  have "take k (take (length old) new) = take k new" using m by (simp add: min_def)
  with True m assms show ?thesis by (auto simp: transform_simps min_def)
next
  case False
  with assms(6) have m: "min k (length new - 1) = k" "k < length old" "k < length new" by linarith+
  have "take (length old) new = new" using False by simp
  with False m assms show ?thesis by (auto simp: transform_simps min_def)
qed

lemma Transform_never_undone_witness:
  "Transform (all_ok\<lparr>oa_body := Some (1, ''io'')\<rparr>) (\<lambda>s. Inr ''XYZ'') ''ab'' = (Some ''io'', ''XbZ'')"
  using Transform_never_undone [of "all_ok\<lparr>oa_body := Some (1, ''io'')\<rparr>" "\<lambda>s. Inr ''XYZ''" "''ab''" "''XYZ''" 1 "''io''"]
  by (simp add: all_ok_def)


section \<open>Locked files of all processes\<close>

type_synonym open_flag = "64 word"

definition O_RDONLY :: open_flag where "O_RDONLY = 0"
definition O_WRONLY :: open_flag where "O_WRONLY = 1"
definition O_RDWR :: open_flag where "O_RDWR = 2"
definition O_CREATE :: open_flag where "O_CREATE = 0x40"
definition O_TRUNC :: open_flag where "O_TRUNC = 0x200"

definition lock_type_of :: "open_flag \<Rightarrow> lockType" where
  "lock_type_of flag =
     (let m = flag AND (O_RDONLY OR O_WRONLY OR O_RDWR) in
      if m = O_WRONLY \<or> m = O_RDWR then writeLock else readLock)"

definition wants_trunc :: "open_flag \<Rightarrow> bool" where
  "wants_trunc flag \<longleftrightarrow> flag AND O_TRUNC = O_TRUNC"

definition Create_flags :: open_flag where "Create_flags = O_RDWR OR O_CREATE OR O_TRUNC"
definition Edit_flags :: open_flag where "Edit_flags = O_RDWR OR O_CREATE"
definition Write_flags :: open_flag where "Write_flags = O_WRONLY OR O_CREATE OR O_TRUNC"

lemma flag_locks:
  "lock_type_of O_RDONLY = readLock" "lock_type_of Create_flags = writeLock"
  "lock_type_of Edit_flags = writeLock" "lock_type_of Write_flags = writeLock"
  "wants_trunc Create_flags" "\<not> wants_trunc Edit_flags" "wants_trunc Write_flags"
  by (simp_all add: lock_type_of_def wants_trunc_def Create_flags_def Edit_flags_def Write_flags_def
      O_RDONLY_def O_WRONLY_def O_RDWR_def O_CREATE_def O_TRUNC_def)

text \<open>
  Where a file is: waiting for its lock, about to be truncated, open, owned by a mutex whose
  in-process half is taken, that half given back, unlocked but not closed, closed.
\<close>

datatype phase = Waiting | Truncating | Held | Owned | GivenBack | Unlocked | Closed

record File =
  lf_name :: string
  lf_ino :: nat
  lf_flag :: open_flag
  lf_mutex :: "nat option"
  lf_phase :: phase

text \<open>\<open>fs_mutexes\<close> are the mutex objects of all processes: the path and the file in whose hands \<^verbatim>\<open>mu\<close> is.\<close>

record fs =
  fs_dir :: "string \<rightharpoonup> nat"
  fs_data :: "string list"
  fs_files :: "File list"
  fs_mutexes :: "(string \<times> nat option) list"

definition has_lock :: "File \<Rightarrow> bool" where
  "has_lock f \<longleftrightarrow> lf_phase f \<in> {Truncating, Held, Owned, GivenBack}"

definition writes :: "File \<Rightarrow> bool" where
  "writes f \<longleftrightarrow> lock_type_of (lf_flag f) = writeLock"

definition conflict :: "File \<Rightarrow> File \<Rightarrow> bool" where
  "conflict f g \<longleftrightarrow> lf_ino f = lf_ino g \<and> (writes f \<or> writes g)"

definition set_phase :: "nat \<Rightarrow> phase \<Rightarrow> fs \<Rightarrow> fs" where
  "set_phase h p s = s\<lparr>fs_files := (fs_files s)[h := (fs_files s ! h)\<lparr>lf_phase := p\<rparr>]\<rparr>"

definition set_data :: "nat \<Rightarrow> string \<Rightarrow> fs \<Rightarrow> fs" where
  "set_data i d s = s\<lparr>fs_data := (fs_data s)[i := d]\<rparr>"

text \<open>\<^verbatim>\<open>os.OpenFile\<close> without the truncation flag: an existing file, or a new empty one.\<close>

definition open_file :: "string \<Rightarrow> open_flag \<Rightarrow> nat option \<Rightarrow> fs \<Rightarrow> fs option" where
  "open_file name flag mu s =
     (case fs_dir s name of
        Some i \<Rightarrow> Some (s\<lparr>fs_files := fs_files s @ [\<lparr>lf_name = name, lf_ino = i, lf_flag = flag, lf_mutex = mu, lf_phase = Waiting\<rparr>]\<rparr>)
      | None \<Rightarrow>
          if flag AND O_CREATE = O_CREATE
          then let i = length (fs_data s) in
               Some (s\<lparr>fs_dir := (fs_dir s)(name \<mapsto> i), fs_data := fs_data s @ [[]],
                       fs_files := fs_files s @ [\<lparr>lf_name = name, lf_ino = i, lf_flag = flag, lf_mutex = mu, lf_phase = Waiting\<rparr>]\<rparr>)
          else None)"

text \<open>The kernel grants a lock when no other open file of the same contents has a conflicting one.\<close>

definition grantable :: "fs \<Rightarrow> nat \<Rightarrow> bool" where
  "grantable s h \<longleftrightarrow> list_all (\<lambda>j. j = h \<or> \<not> has_lock (fs_files s ! j) \<or> \<not> conflict (fs_files s ! h) (fs_files s ! j))
     [0..<length (fs_files s)]"

definition after_lock :: "File \<Rightarrow> phase" where
  "after_lock f = (if wants_trunc (lf_flag f) then Truncating else Held)"

definition mu_set :: "nat \<Rightarrow> nat option \<Rightarrow> fs \<Rightarrow> fs" where
  "mu_set m r s = s\<lparr>fs_mutexes := (fs_mutexes s)[m := (fst (fs_mutexes s ! m), r)]\<rparr>"

text \<open>A mutex needs a path, when it is made and when it is locked.\<close>

definition MutexAt :: "string \<Rightarrow> (string \<times> nat option) go" where
  "MutexAt path = (if path = [] then Inl (PanicMsg ''lockedfile.MutexAt: path must be non-empty'') else Inr (path, None))"

definition Mutex_String :: "string \<times> nat option \<Rightarrow> string" where
  "Mutex_String mu = ''lockedfile.Mutex('' @ fst mu @ '')''"

definition lock_guard :: "string \<Rightarrow> unit go" where
  "lock_guard path = (if path = [] then Inl (PanicMsg ''lockedfile.Mutex: missing Path during Lock'') else Inr ())"

text \<open>
  One system call or lock operation.  With \<open>moves\<close> other programs also rename files, which the locks
  do not prevent.
\<close>

inductive lf_step :: "bool \<Rightarrow> fs \<Rightarrow> fs \<Rightarrow> bool" for moves where
  opened: "open_file name flag None s = Some s' \<Longrightarrow> lf_step moves s s'"
| mutex_opened: "m < length (fs_mutexes s) \<Longrightarrow> open_file (fst (fs_mutexes s ! m)) Edit_flags (Some m) s = Some s' \<Longrightarrow>
    lock_guard (fst (fs_mutexes s ! m)) = Inr () \<Longrightarrow> lf_step moves s s'"
| locked: "h < length (fs_files s) \<Longrightarrow> lf_phase (fs_files s ! h) = Waiting \<Longrightarrow> grantable s h \<Longrightarrow>
    lf_step moves s (set_phase h (after_lock (fs_files s ! h)) s)"
| lock_failed: "h < length (fs_files s) \<Longrightarrow> lf_phase (fs_files s ! h) = Waiting \<Longrightarrow>
    lf_step moves s (set_phase h Closed s)"
| truncated: "h < length (fs_files s) \<Longrightarrow> lf_phase (fs_files s ! h) = Truncating \<Longrightarrow> writes (fs_files s ! h) \<Longrightarrow>
    lf_step moves s (set_phase h Held (set_data (lf_ino (fs_files s ! h)) [] s))"
| trunc_failed: "h < length (fs_files s) \<Longrightarrow> lf_phase (fs_files s ! h) = Truncating \<Longrightarrow>
    lf_step moves s (set_phase h Closed s)"
| wrote: "h < length (fs_files s) \<Longrightarrow> lf_phase (fs_files s ! h) \<in> {Held, Owned} \<Longrightarrow> writes (fs_files s ! h) \<Longrightarrow>
    lf_step moves s (set_data (lf_ino (fs_files s ! h)) d s)"
| mu_locked: "h < length (fs_files s) \<Longrightarrow> lf_phase (fs_files s ! h) = Held \<Longrightarrow> lf_mutex (fs_files s ! h) = Some m \<Longrightarrow>
    snd (fs_mutexes s ! m) = None \<Longrightarrow> lf_step moves s (set_phase h Owned (mu_set m (Some h) s))"
| mu_unlocked: "h < length (fs_files s) \<Longrightarrow> lf_phase (fs_files s ! h) = Owned \<Longrightarrow> lf_mutex (fs_files s ! h) = Some m \<Longrightarrow>
    lf_step moves s (set_phase h GivenBack (mu_set m None s))"
| unlocked: "h < length (fs_files s) \<Longrightarrow> lf_phase (fs_files s ! h) = (if lf_mutex (fs_files s ! h) = None then Held else GivenBack) \<Longrightarrow>
    lf_step moves s (set_phase h Unlocked s)"
| closed: "h < length (fs_files s) \<Longrightarrow> lf_phase (fs_files s ! h) = Unlocked \<Longrightarrow> lf_step moves s (set_phase h Closed s)"
| renamed: "moves \<Longrightarrow> fs_dir s a = Some i \<Longrightarrow> lf_step moves s (s\<lparr>fs_dir := (fs_dir s)(a := None, c := Some i)\<rparr>)"

inductive lf_reach :: "bool \<Rightarrow> fs \<Rightarrow> bool" for moves where
  start: "\<forall>i\<in>ran dir. i < length data \<Longrightarrow> \<forall>m\<in>set mus. snd m = None \<Longrightarrow>
    lf_reach moves \<lparr>fs_dir = dir, fs_data = data, fs_files = [], fs_mutexes = mus\<rparr>"
| step: "lf_reach moves s \<Longrightarrow> lf_step moves s s' \<Longrightarrow> lf_reach moves s'"

section \<open>Invariant of the locks\<close>

definition fs_exclusive :: "fs \<Rightarrow> bool" where
  "fs_exclusive s \<longleftrightarrow> (\<forall>h j. h < length (fs_files s) \<longrightarrow> j < length (fs_files s) \<longrightarrow> h \<noteq> j \<longrightarrow>
     has_lock (fs_files s ! h) \<longrightarrow> has_lock (fs_files s ! j) \<longrightarrow> \<not> conflict (fs_files s ! h) (fs_files s ! j))"

definition fs_mus :: "fs \<Rightarrow> bool" where
  "fs_mus s \<longleftrightarrow> (\<forall>m h. m < length (fs_mutexes s) \<longrightarrow> snd (fs_mutexes s ! m) = Some h \<longrightarrow>
       h < length (fs_files s) \<and> lf_phase (fs_files s ! h) = Owned \<and> lf_mutex (fs_files s ! h) = Some m)
   \<and> (\<forall>h m. h < length (fs_files s) \<longrightarrow> lf_mutex (fs_files s ! h) = Some m \<longrightarrow>
       m < length (fs_mutexes s) \<and> lf_name (fs_files s ! h) = fst (fs_mutexes s ! m) \<and> writes (fs_files s ! h)
       \<and> (lf_phase (fs_files s ! h) = Owned \<longrightarrow> snd (fs_mutexes s ! m) = Some h))"

definition fs_names :: "fs \<Rightarrow> bool" where
  "fs_names s \<longleftrightarrow> (\<forall>h < length (fs_files s). fs_dir s (lf_name (fs_files s ! h)) = Some (lf_ino (fs_files s ! h)))"

definition fs_inos :: "fs \<Rightarrow> bool" where
  "fs_inos s \<longleftrightarrow> (\<forall>i\<in>ran (fs_dir s). i < length (fs_data s))
     \<and> (\<forall>h < length (fs_files s). lf_ino (fs_files s ! h) < length (fs_data s))"

text \<open>A change of one phase that takes no lock keeps the exclusion.\<close>

lemma nth_set_phase:
  "j < length (fs_files s) \<Longrightarrow>
   fs_files (set_phase h p s) ! j = (if j = h then (fs_files s ! h)\<lparr>lf_phase := p\<rparr> else fs_files s ! j)"
  by (simp add: set_phase_def nth_list_update)

lemma set_phase_other [simp]:
  "length (fs_files (set_phase h p s)) = length (fs_files s)" "fs_dir (set_phase h p s) = fs_dir s"
  "fs_data (set_phase h p s) = fs_data s" "fs_mutexes (set_phase h p s) = fs_mutexes s"
  by (simp_all add: set_phase_def)

lemma set_data_other [simp]:
  "fs_files (set_data i d s) = fs_files s" "fs_dir (set_data i d s) = fs_dir s"
  "fs_mutexes (set_data i d s) = fs_mutexes s" "length (fs_data (set_data i d s)) = length (fs_data s)"
  by (simp_all add: set_data_def)

lemma mu_set_other [simp]:
  "fs_files (mu_set m r s) = fs_files s" "fs_dir (mu_set m r s) = fs_dir s" "fs_data (mu_set m r s) = fs_data s"
  "length (fs_mutexes (mu_set m r s)) = length (fs_mutexes s)"
  by (simp_all add: mu_set_def)

lemma nth_mu_set:
  "k < length (fs_mutexes s) \<Longrightarrow>
   fs_mutexes (mu_set m r s) ! k = (if k = m then (fst (fs_mutexes s ! m), r) else fs_mutexes s ! k)"
  by (simp add: mu_set_def nth_list_update)

lemma phase_conflict [simp]:
  "conflict (f\<lparr>lf_phase := p\<rparr>) g = conflict f g" "conflict f (g\<lparr>lf_phase := p\<rparr>) = conflict f g"
  "writes (f\<lparr>lf_phase := p\<rparr>) = writes f"
  by (simp_all add: conflict_def writes_def)

lemma conflict_sym: "conflict f g = conflict g f"
  by (auto simp: conflict_def)

lemma open_file_cases:
  assumes "open_file name flag mu s = Some s'"
  obtains f where "fs_files s' = fs_files s @ [f]" "lf_phase f = Waiting" "lf_mutex f = mu" "lf_name f = name"
    "lf_flag f = flag" "fs_mutexes s' = fs_mutexes s" "fs_dir s \<subseteq>\<^sub>m fs_dir s'" "fs_dir s' name = Some (lf_ino f)"
    "(fs_dir s' = fs_dir s \<and> fs_data s' = fs_data s)
      \<or> (fs_dir s' = (fs_dir s)(name \<mapsto> length (fs_data s)) \<and> fs_data s' = fs_data s @ [[]])"
  using assms by (fastforce simp: open_file_def Let_def map_le_def split: option.splits if_splits)

lemma exclusive_same: "fs_exclusive s \<Longrightarrow> fs_files s' = fs_files s \<Longrightarrow> fs_exclusive s'"
  by (simp add: fs_exclusive_def)

lemma fs_exclusiveD:
  "fs_exclusive s \<Longrightarrow> h < length (fs_files s) \<Longrightarrow> j < length (fs_files s) \<Longrightarrow> h \<noteq> j \<Longrightarrow>
   has_lock (fs_files s ! h) \<Longrightarrow> has_lock (fs_files s ! j) \<Longrightarrow> \<not> conflict (fs_files s ! h) (fs_files s ! j)"
  by (simp add: fs_exclusive_def)

lemma exclusive_phase:
  assumes "fs_exclusive s" and "fs_files s' = (fs_files s)[h := (fs_files s ! h)\<lparr>lf_phase := p\<rparr>]"
    and "p \<in> {Truncating, Held, Owned, GivenBack} \<Longrightarrow> has_lock (fs_files s ! h) \<or> grantable s h"
  shows "fs_exclusive s'"
proof -
  let ?f = "(fs_files s ! h)\<lparr>lf_phase := p\<rparr>"
  have other: "\<not> conflict (fs_files s ! h) (fs_files s ! j)"
    if j: "j < length (fs_files s)" "h < length (fs_files s)" "h \<noteq> j" "has_lock (fs_files s ! j)" "has_lock ?f" for j
  proof -
    from j(5) have "p \<in> {Truncating, Held, Owned, GivenBack}" by (simp add: has_lock_def)
    with assms(3) consider "has_lock (fs_files s ! h)" | "grantable s h" by blast
    then show ?thesis
    proof cases
      case 1
      from fs_exclusiveD [OF assms(1) j(2,1,3) this j(4)] show ?thesis .
    next
      case 2
      with j show ?thesis by (auto simp: grantable_def list_all_iff)
    qed
  qed
  have len: "length (fs_files s') = length (fs_files s)" by (simp add: assms(2))
  have nth: "fs_files s' ! k = (if k = h then ?f else fs_files s ! k)" if "k < length (fs_files s)" for k
    using that by (simp add: assms(2) nth_list_update)
  show ?thesis unfolding fs_exclusive_def len
  proof (intro allI impI)
    fix i j assume ij: "i < length (fs_files s)" "j < length (fs_files s)" "i \<noteq> j"
      and l: "has_lock (fs_files s' ! i)" "has_lock (fs_files s' ! j)"
    consider "i = h" | "j = h" | "i \<noteq> h" "j \<noteq> h" by blast
    then show "\<not> conflict (fs_files s' ! i) (fs_files s' ! j)"
    proof cases
      case 1
      with ij l other [of j] show ?thesis by (simp add: nth)
    next
      case 2
      with ij l other [of i] show ?thesis by (simp add: nth conflict_sym [of "fs_files s ! i"])
    next
      case 3
      with ij l fs_exclusiveD [OF assms(1) ij] show ?thesis by (simp add: nth)
    qed
  qed
qed

lemma exclusive_append:
  assumes "fs_exclusive s" and "fs_files s' = fs_files s @ [f]" and "lf_phase f = Waiting"
  shows "fs_exclusive s'"
proof -
  have "\<not> has_lock f" using assms(3) by (simp add: has_lock_def)
  with assms(1) show ?thesis
    unfolding fs_exclusive_def assms(2) by (auto simp: nth_append less_Suc_eq)
qed

text \<open>What a step does to the files: nothing, one more that waits, or another phase for one.\<close>

lemma step_files:
  assumes "lf_step moves s s'"
  obtains "fs_files s' = fs_files s"
  | f where "fs_files s' = fs_files s @ [f]" "lf_phase f = Waiting"
  | h p where "fs_files s' = (fs_files s)[h := (fs_files s ! h)\<lparr>lf_phase := p\<rparr>]"
      "p \<in> {Truncating, Held, Owned, GivenBack} \<Longrightarrow> has_lock (fs_files s ! h) \<or> grantable s h"
  using assms
proof (cases rule: lf_step.cases)
  case (opened name flag)
  from opened(1) show ?thesis by (rule open_file_cases) (rule that(2))
next
  case (mutex_opened m)
  from mutex_opened(2) show ?thesis by (rule open_file_cases) (rule that(2))
next
  case (locked h)
  then show ?thesis by (intro that(3) [of h]) (auto simp: set_phase_def)
next
  case (lock_failed h)
  then show ?thesis by (intro that(3) [of h Closed]) (auto simp: set_phase_def)
next
  case (truncated h)
  then show ?thesis by (intro that(3) [of h Held]) (auto simp: set_phase_def set_data_def has_lock_def)
next
  case (trunc_failed h)
  then show ?thesis by (intro that(3) [of h Closed]) (auto simp: set_phase_def)
next
  case (mu_locked h m)
  then show ?thesis by (intro that(3) [of h Owned]) (auto simp: set_phase_def mu_set_def has_lock_def)
next
  case (mu_unlocked h m)
  then show ?thesis by (intro that(3) [of h GivenBack]) (auto simp: set_phase_def mu_set_def has_lock_def)
next
  case (unlocked h)
  then show ?thesis by (intro that(3) [of h Unlocked]) (auto simp: set_phase_def)
next
  case (closed h)
  then show ?thesis by (intro that(3) [of h Closed]) (auto simp: set_phase_def)
qed (rule that(1), simp)+

lemma step_exclusive:
  assumes "lf_step moves s s'" and "fs_exclusive s"
  shows "fs_exclusive s'"
  using assms(1)
  by (rule step_files)
    (erule exclusive_same [OF assms(2)] exclusive_append [OF assms(2)] exclusive_phase [OF assms(2)]; simp)+


lemma exclusive_start: "fs_files s = [] \<Longrightarrow> fs_exclusive s"
  by (simp add: fs_exclusive_def)

lemma reach_exclusive: "lf_reach moves s \<Longrightarrow> fs_exclusive s"
  by (induction rule: lf_reach.induct) (auto intro: step_exclusive exclusive_start)

text \<open>The bookkeeping of the mutexes.\<close>

lemma writes_Edit: "lf_flag f = Edit_flags \<Longrightarrow> writes f"
  by (simp add: writes_def flag_locks)

lemma fs_musI:
  "(\<And>m h. m < length (fs_mutexes s) \<Longrightarrow> snd (fs_mutexes s ! m) = Some h \<Longrightarrow>
      h < length (fs_files s) \<and> lf_phase (fs_files s ! h) = Owned \<and> lf_mutex (fs_files s ! h) = Some m) \<Longrightarrow>
   (\<And>h m. h < length (fs_files s) \<Longrightarrow> lf_mutex (fs_files s ! h) = Some m \<Longrightarrow>
      m < length (fs_mutexes s) \<and> lf_name (fs_files s ! h) = fst (fs_mutexes s ! m) \<and> writes (fs_files s ! h)
      \<and> (lf_phase (fs_files s ! h) = Owned \<longrightarrow> snd (fs_mutexes s ! m) = Some h)) \<Longrightarrow> fs_mus s"
  unfolding fs_mus_def by blast

lemma fs_mus_holder:
  "fs_mus s \<Longrightarrow> m < length (fs_mutexes s) \<Longrightarrow> snd (fs_mutexes s ! m) = Some h \<Longrightarrow>
   h < length (fs_files s) \<and> lf_phase (fs_files s ! h) = Owned \<and> lf_mutex (fs_files s ! h) = Some m"
  unfolding fs_mus_def by blast

lemma fs_mus_file:
  "fs_mus s \<Longrightarrow> h < length (fs_files s) \<Longrightarrow> lf_mutex (fs_files s ! h) = Some m \<Longrightarrow>
   m < length (fs_mutexes s) \<and> lf_name (fs_files s ! h) = fst (fs_mutexes s ! m) \<and> writes (fs_files s ! h)
   \<and> (lf_phase (fs_files s ! h) = Owned \<longrightarrow> snd (fs_mutexes s ! m) = Some h)"
  unfolding fs_mus_def by blast

lemma mus_append:
  assumes inv: "fs_mus s" and s': "fs_files s' = fs_files s @ [f]" "fs_mutexes s' = fs_mutexes s"
    and f: "lf_phase f = Waiting"
      "\<And>m. lf_mutex f = Some m \<Longrightarrow> m < length (fs_mutexes s) \<and> lf_name f = fst (fs_mutexes s ! m) \<and> writes f"
  shows "fs_mus s'"
proof (rule fs_musI)
  fix m h assume "m < length (fs_mutexes s')" "snd (fs_mutexes s' ! m) = Some h"
  with fs_mus_holder [OF inv, of m h] show "h < length (fs_files s') \<and> lf_phase (fs_files s' ! h) = Owned
      \<and> lf_mutex (fs_files s' ! h) = Some m"
    by (simp add: s' nth_append)
next
  fix h m assume "h < length (fs_files s')" and m: "lf_mutex (fs_files s' ! h) = Some m"
  then consider "h < length (fs_files s)" | "h = length (fs_files s)"
    by (cases "h = length (fs_files s)") (simp_all add: s')
  then show "m < length (fs_mutexes s') \<and> lf_name (fs_files s' ! h) = fst (fs_mutexes s' ! m) \<and> writes (fs_files s' ! h)
      \<and> (lf_phase (fs_files s' ! h) = Owned \<longrightarrow> snd (fs_mutexes s' ! m) = Some h)"
    by cases (use m fs_mus_file [OF inv, of h m] f in \<open>simp_all add: s' nth_append\<close>)
qed

lemma mus_phase:
  assumes inv: "fs_mus s" and h: "h < length (fs_files s)" "p \<noteq> Owned" "lf_phase (fs_files s ! h) \<noteq> Owned"
  shows "fs_mus (set_phase h p s)"
proof (rule fs_musI)
  fix m k assume "m < length (fs_mutexes (set_phase h p s))" "snd (fs_mutexes (set_phase h p s) ! m) = Some k"
  with fs_mus_holder [OF inv, of m k] h show "k < length (fs_files (set_phase h p s))
      \<and> lf_phase (fs_files (set_phase h p s) ! k) = Owned \<and> lf_mutex (fs_files (set_phase h p s) ! k) = Some m"
    by (cases "k = h") (simp_all add: nth_set_phase)
next
  fix k m assume "k < length (fs_files (set_phase h p s))" "lf_mutex (fs_files (set_phase h p s) ! k) = Some m"
  with fs_mus_file [OF inv, of k m] h show "m < length (fs_mutexes (set_phase h p s))
      \<and> lf_name (fs_files (set_phase h p s) ! k) = fst (fs_mutexes (set_phase h p s) ! m)
      \<and> writes (fs_files (set_phase h p s) ! k)
      \<and> (lf_phase (fs_files (set_phase h p s) ! k) = Owned \<longrightarrow> snd (fs_mutexes (set_phase h p s) ! m) = Some k)"
    by (cases "k = h") (simp_all add: nth_set_phase)
qed

text \<open>The holder of a mutex changes together with the phase of its file.\<close>

lemma mus_handover:
  assumes inv: "fs_mus s" and h: "h < length (fs_files s)" "lf_mutex (fs_files s ! h) = Some m"
    and alone: "\<And>k. k < length (fs_files s) \<Longrightarrow> lf_mutex (fs_files s ! k) = Some m \<Longrightarrow>
      lf_phase (fs_files s ! k) = Owned \<Longrightarrow> k = h"
    and r: "r = (if p = Owned then Some h else None)"
  shows "fs_mus (set_phase h p (mu_set m r s))" (is "fs_mus ?s")
proof (rule fs_musI)
  note hm = fs_mus_file [OF inv h]
  fix n k assume a: "n < length (fs_mutexes ?s)" "snd (fs_mutexes ?s ! n) = Some k"
  show "k < length (fs_files ?s) \<and> lf_phase (fs_files ?s ! k) = Owned \<and> lf_mutex (fs_files ?s ! k) = Some n"
  proof (cases "n = m")
    case True
    with a hm h r show ?thesis by (simp add: nth_mu_set nth_set_phase split: if_splits)
  next
    case False
    with a fs_mus_holder [OF inv, of n k] h show ?thesis
      by (cases "k = h") (simp_all add: nth_mu_set nth_set_phase)
  qed
next
  note hm = fs_mus_file [OF inv h]
  fix k n assume a: "k < length (fs_files ?s)" "lf_mutex (fs_files ?s ! k) = Some n"
  then have kn: "lf_mutex (fs_files s ! k) = Some n" using h by (cases "k = h") (simp_all add: nth_set_phase)
  show "n < length (fs_mutexes ?s) \<and> lf_name (fs_files ?s ! k) = fst (fs_mutexes ?s ! n) \<and> writes (fs_files ?s ! k)
      \<and> (lf_phase (fs_files ?s ! k) = Owned \<longrightarrow> snd (fs_mutexes ?s ! n) = Some k)"
  proof (cases "k = h")
    case True
    with kn h hm r show ?thesis by (simp add: nth_mu_set nth_set_phase)
  next
    case False
    with a fs_mus_file [OF inv _ kn] alone [of k] kn h show ?thesis
      by (cases "n = m") (auto simp: nth_mu_set nth_set_phase)
  qed
qed

lemma mus_locked:
  assumes inv: "fs_mus s" and h: "h < length (fs_files s)" "lf_mutex (fs_files s ! h) = Some m"
    and free: "snd (fs_mutexes s ! m) = None"
  shows "fs_mus (set_phase h Owned (mu_set m (Some h) s))"
  by (rule mus_handover [OF inv h]) (use fs_mus_file [OF inv] free in fastforce)+

lemma mus_unlocked:
  assumes inv: "fs_mus s" and h: "h < length (fs_files s)" "lf_mutex (fs_files s ! h) = Some m"
    and owned: "lf_phase (fs_files s ! h) = Owned"
  shows "fs_mus (set_phase h GivenBack (mu_set m None s))"
  by (rule mus_handover [OF inv h]) (use fs_mus_file [OF inv] fs_mus_file [OF inv h] owned in fastforce)+

lemma mus_same: "fs_mus s \<Longrightarrow> fs_files s' = fs_files s \<Longrightarrow> fs_mutexes s' = fs_mutexes s \<Longrightarrow> fs_mus s'"
  unfolding fs_mus_def by (simp only:)

lemma step_mus:
  assumes "lf_step moves s s'" and "fs_mus s"
  shows "fs_mus s'"
  using assms(1)
proof (cases rule: lf_step.cases)
  case (opened name flag)
  from opened(1) show ?thesis
    by (rule open_file_cases) (auto intro: mus_append [OF assms(2)])
next
  case (mutex_opened m)
  from mutex_opened(2) show ?thesis
    by (rule open_file_cases) (rule mus_append [OF assms(2)], auto simp: mutex_opened(1) writes_Edit)
next
  case (mu_locked h m)
  then show ?thesis using mus_locked [OF assms(2)] by simp
next
  case (mu_unlocked h m)
  then show ?thesis using mus_unlocked [OF assms(2)] by simp
next
  case (truncated h)
  have "fs_mus (set_data (lf_ino (fs_files s ! h)) [] s)" by (rule mus_same [OF assms(2)]) simp_all
  with truncated show ?thesis by (auto intro!: mus_phase)
qed (use assms(2) in \<open>auto intro: mus_phase mus_same [of s] simp: after_lock_def split: if_splits\<close>)

lemma reach_mus: "lf_reach moves s \<Longrightarrow> fs_mus s"
proof (induction rule: lf_reach.induct)
  case (start dir data mus)
  then have "m < length mus \<Longrightarrow> snd (mus ! m) = None" for m by simp
  then show ?case by (auto simp: fs_mus_def)
qed (rule step_mus)

text \<open>Without renames a name keeps its contents.\<close>

lemma step_names:
  assumes "lf_step False s s'" and "fs_names s"
  shows "fs_names s'"
proof -
  have opn: "fs_names s'" if "open_file name flag mu s = Some s'" for name flag mu
    using that
  proof (rule open_file_cases)
    fix f assume f: "fs_files s' = fs_files s @ [f]" "lf_name f = name" "fs_dir s \<subseteq>\<^sub>m fs_dir s'"
      "fs_dir s' name = Some (lf_ino f)"
    have "fs_dir s' (lf_name (fs_files s ! h)) = Some (lf_ino (fs_files s ! h))" if "h < length (fs_files s)" for h
      using f(3) assms(2) that by (fastforce simp: fs_names_def map_le_def dom_def)
    with f show ?thesis by (simp add: fs_names_def nth_append less_Suc_eq)
  qed
  from assms(1) show ?thesis
    by (cases rule: lf_step.cases) (use assms(2) opn in \<open>auto simp: fs_names_def nth_set_phase\<close>)
qed

lemma reach_names: "lf_reach False s \<Longrightarrow> fs_names s"
proof (induction rule: lf_reach.induct)
  case (start dir data mus)
  then show ?case by (simp add: fs_names_def)
qed (rule step_names)


section \<open>What the locks give\<close>

lemma step_data:
  assumes "lf_step moves s s'" and "i < length (fs_data s)" and "fs_data s' ! i \<noteq> fs_data s ! i"
  shows "\<exists>h < length (fs_files s). lf_ino (fs_files s ! h) = i \<and> has_lock (fs_files s ! h) \<and> writes (fs_files s ! h)"
  using assms(1)
proof (cases rule: lf_step.cases)
  case (opened name flag)
  from opened(1) have "fs_data s' ! i = fs_data s ! i"
    by (rule open_file_cases) (use assms(2) in \<open>auto simp: nth_append\<close>)
  with assms(3) show ?thesis by simp
next
  case (mutex_opened m)
  from mutex_opened(2) have "fs_data s' ! i = fs_data s ! i"
    by (rule open_file_cases) (use assms(2) in \<open>auto simp: nth_append\<close>)
  with assms(3) show ?thesis by simp
next
  case (truncated h)
  then have "lf_ino (fs_files s ! h) = i"
    using assms(3) by (cases "lf_ino (fs_files s ! h) = i") (simp_all add: set_data_def)
  with truncated show ?thesis by (auto simp: has_lock_def)
next
  case (wrote h d)
  then have "lf_ino (fs_files s ! h) = i"
    using assms(3) by (cases "lf_ino (fs_files s ! h) = i") (simp_all add: set_data_def)
  with wrote show ?thesis by (auto simp: has_lock_def)
qed (use assms(3) in simp_all)


text \<open>\<^verbatim>\<open>Read\<close> opens and locks the file and then reads whatever has the name.\<close>

definition ReadFile :: "string \<Rightarrow> fs \<Rightarrow> string option" where
  "ReadFile name s = map_option (\<lambda>i. fs_data s ! i) (fs_dir s name)"

text \<open>
  When no file is renamed, a held lock is a lock of the name: \<^verbatim>\<open>Read\<close> reads the contents its lock
  protects, a file opened for writing is the only one of its name with a lock, and a goroutine that
  has the file of a mutex finds the mutex object's in-process lock free, so \<^verbatim>\<open>Mutex.Lock\<close> never
  blocks there.
\<close>

theorem locks_protect_names:
  assumes "lf_reach False s" and "h < length (fs_files s)" and "has_lock (fs_files s ! h)"
  shows "ReadFile (lf_name (fs_files s ! h)) s = Some (fs_data s ! lf_ino (fs_files s ! h))
    \<and> (writes (fs_files s ! h) \<longrightarrow> (\<forall>j < length (fs_files s). j \<noteq> h \<and> has_lock (fs_files s ! j) \<longrightarrow>
         lf_name (fs_files s ! j) \<noteq> lf_name (fs_files s ! h)))
    \<and> (\<forall>m. lf_mutex (fs_files s ! h) = Some m \<and> lf_phase (fs_files s ! h) = Held \<longrightarrow> snd (fs_mutexes s ! m) = None)"
proof -
  note names = reach_names [OF assms(1), unfolded fs_names_def, rule_format]
  note mus = reach_mus [OF assms(1)]
  have other: "lf_name (fs_files s ! j) \<noteq> lf_name (fs_files s ! h)"
    if "j < length (fs_files s)" "j \<noteq> h" "has_lock (fs_files s ! j)" "writes (fs_files s ! h)" for j
    using fs_exclusiveD [OF reach_exclusive [OF assms(1)] that(1) assms(2) that(2,3) assms(3)] that(4)
      names [OF that(1)] names [OF assms(2)] by (auto simp: conflict_def)
  have "snd (fs_mutexes s ! m) = None" if m: "lf_mutex (fs_files s ! h) = Some m" "lf_phase (fs_files s ! h) = Held" for m
  proof (cases "snd (fs_mutexes s ! m)")
    case (Some k)
    note hm = fs_mus_file [OF mus assms(2) m(1)]
    note k = fs_mus_holder [OF mus _ Some]
    from hm k m(2) have "k \<noteq> h" "k < length (fs_files s)" "has_lock (fs_files s ! k)"
      by (auto simp: has_lock_def)
    from other [OF this(2,1,3)] hm fs_mus_file [OF mus this(2), of m] k show ?thesis by simp
  qed
  with other names [OF assms(2)] show ?thesis by (auto simp: ReadFile_def)
qed

section \<open>A rename between the lock and the reading\<close>

definition wf0 :: fs where
  "wf0 = \<lparr>fs_dir = [''f'' \<mapsto> 0, ''g'' \<mapsto> 1], fs_data = [''old'', ''new''], fs_files = [], fs_mutexes = []\<rparr>"

definition with_file :: "string \<Rightarrow> open_flag \<Rightarrow> fs \<Rightarrow> fs" where
  "with_file name flag s = (case open_file name flag None s of Some s' \<Rightarrow> s' | None \<Rightarrow> s)"

definition wf1 :: fs where "wf1 = set_phase 0 Held (with_file ''f'' O_RDONLY wf0)"
definition wf2 :: fs where "wf2 = set_phase 1 Truncating (with_file ''g'' Write_flags wf1)"
definition wf3 :: fs where "wf3 = set_phase 1 Held (set_data 1 [] wf2)"
definition wf4 :: fs where "wf4 = wf3\<lparr>fs_dir := (fs_dir wf3)(''g'' := None, ''f'' := Some 1)\<rparr>"

lemma with_file_eq:
  "fs_dir s name = Some i \<Longrightarrow> with_file name flag s = s\<lparr>fs_files := fs_files s @
     [\<lparr>lf_name = name, lf_ino = i, lf_flag = flag, lf_mutex = None, lf_phase = Waiting\<rparr>]\<rparr>"
  by (simp add: with_file_def open_file_def)

lemma wf1_eq: "wf1 = wf0\<lparr>fs_files := [\<lparr>lf_name = ''f'', lf_ino = 0, lf_flag = O_RDONLY, lf_mutex = None, lf_phase = Held\<rparr>]\<rparr>"
  by (simp add: wf1_def wf0_def with_file_eq set_phase_def)

lemma wf2_eq: "wf2 = wf0\<lparr>fs_files := [\<lparr>lf_name = ''f'', lf_ino = 0, lf_flag = O_RDONLY, lf_mutex = None, lf_phase = Held\<rparr>,
    \<lparr>lf_name = ''g'', lf_ino = 1, lf_flag = Write_flags, lf_mutex = None, lf_phase = Truncating\<rparr>]\<rparr>"
  by (simp add: wf2_def wf1_eq wf0_def with_file_eq set_phase_def)

lemma wf_reach: "lf_reach moves wf1" "lf_reach moves wf2" "lf_reach moves wf3"
proof -
  have r0: "lf_reach moves wf0" unfolding wf0_def by (rule lf_reach.start) (auto simp: ran_def split: if_splits)
  have o: "lf_reach moves (with_file ''f'' O_RDONLY wf0)"
    by (rule lf_reach.step [OF r0 lf_step.opened [of "''f''" O_RDONLY]]) (simp add: with_file_def open_file_def wf0_def)
  have g: "wf1 = set_phase 0 (after_lock (fs_files (with_file ''f'' O_RDONLY wf0) ! 0)) (with_file ''f'' O_RDONLY wf0)"
    by (simp add: wf1_def wf0_def with_file_eq after_lock_def wants_trunc_def O_TRUNC_def O_RDONLY_def)
  show r1: "lf_reach moves wf1" unfolding g
    by (rule lf_reach.step [OF o lf_step.locked]) (simp_all add: wf0_def with_file_eq grantable_def)
  have o: "lf_reach moves (with_file ''g'' Write_flags wf1)"
    by (rule lf_reach.step [OF r1 lf_step.opened [of "''g''" Write_flags]])
      (simp add: with_file_def open_file_def wf1_eq wf0_def)
  have g: "wf2 = set_phase 1 (after_lock (fs_files (with_file ''g'' Write_flags wf1) ! 1)) (with_file ''g'' Write_flags wf1)"
    by (simp add: wf2_def wf1_eq wf0_def with_file_eq after_lock_def flag_locks)
  show r2: "lf_reach moves wf2" unfolding g
    by (rule lf_reach.step [OF o lf_step.locked]) (simp_all add: wf1_eq wf0_def with_file_eq grantable_def conflict_def)
  have "wf3 = set_phase 1 Held (set_data (lf_ino (fs_files wf2 ! 1)) [] wf2)"
    by (simp add: wf3_def wf2_eq wf0_def)
  then show "lf_reach moves wf3"
    using lf_reach.step [OF r2 lf_step.truncated [of 1]] by (simp add: wf2_eq wf0_def writes_def flag_locks)
qed

text \<open>
  \<^verbatim>\<open>Read\<close> reads by name a second time and not through its locked file: when the file is replaced by
  a rename in between it reads another file, here one that \<^verbatim>\<open>Write\<close> has truncated and still has the
  write lock of, so it returns contents no writer has finished.
\<close>

theorem Read_unlocked_after_rename:
  "\<exists>s r w. lf_reach True s \<and> fs_files s = [r, w] \<and> lf_name r = ''f'' \<and> lf_phase r = Held
     \<and> has_lock w \<and> writes w \<and> lf_ino w \<noteq> lf_ino r \<and> ReadFile ''f'' s = Some (fs_data s ! lf_ino w)
     \<and> fs_data s ! lf_ino r = ''old'' \<and> ReadFile ''f'' s = Some ''''"
proof -
  have w3: "wf3 = \<lparr>fs_dir = [''f'' \<mapsto> 0, ''g'' \<mapsto> 1], fs_data = [''old'', ''''],
    fs_files = [\<lparr>lf_name = ''f'', lf_ino = 0, lf_flag = O_RDONLY, lf_mutex = None, lf_phase = Held\<rparr>,
      \<lparr>lf_name = ''g'', lf_ino = 1, lf_flag = Write_flags, lf_mutex = None, lf_phase = Held\<rparr>], fs_mutexes = []\<rparr>"
    by (simp add: wf3_def wf2_eq wf0_def set_data_def set_phase_def)
  have "fs_dir wf3 ''g'' = Some 1" by (simp add: w3)
  from lf_reach.step [OF wf_reach(3) lf_step.renamed [OF TrueI this]] have "lf_reach True wf4"
    by (simp add: wf4_def)
  then show ?thesis
    by (intro exI [of _ wf4] exI [of _ "fs_files wf4 ! 0"] exI [of _ "fs_files wf4 ! 1"])
      (simp add: wf4_def w3 ReadFile_def has_lock_def writes_def flag_locks)
qed

lemma locks_protect_names_witness: "ReadFile ''f'' wf2 = Some ''old''"
  using locks_protect_names [OF wf_reach(2), of 0] by (simp add: wf2_eq wf0_def has_lock_def)


end
