(* ===== verification/TcpProxy.thy ===== *)
theory TcpProxy
  imports Prelude "HOL-Library.Sublist"
begin

text \<open>
  The TCP proxy of \<^verbatim>\<open>net/proxy/tcp_proxy.go\<close>: two goroutines copy between the client and the backend,
  report to \<^verbatim>\<open>ServeTCP\<close> on an unbuffered channel, and half-close the other side.  A side is a truth
  value, \<open>True\<close> for the client; a goroutine is named by the side it reads.  The steps are those of the
  goroutines, of the peers and of the clock; with \<open>faults\<close> any read or write may also fail.
\<close>

section \<open>State\<close>

text \<open>The phases of \<^verbatim>\<open>connCopy\<close>, with the error of the copying.\<close>

datatype copy_phase = Copying | Reporting "string option" | Closing "string option" | Finished "string option"

text \<open>
  \<open>px_in\<close> is what a peer has sent and the proxy not read, \<open>px_got\<close> what a peer has been sent;
  \<open>px_sent\<close> records all a peer has sent.
\<close>

record proxy =
  px_in :: "bool \<Rightarrow> string"
  px_eof :: "bool \<Rightarrow> bool"
  px_sent :: "bool \<Rightarrow> string"
  px_got :: "bool \<Rightarrow> string"
  px_writeClosed :: "bool \<Rightarrow> bool"
  px_readDeadline :: "bool \<Rightarrow> int option"
  px_phase :: "bool \<Rightarrow> copy_phase"
  px_reports :: nat
  px_returned :: bool
  px_now :: int

text \<open>\<^verbatim>\<open>ServeTCP\<close> once the backend is connected.\<close>

definition serveTCP_start :: "int \<Rightarrow> proxy" where
  "serveTCP_start now = \<lparr>px_in = (\<lambda>_. []), px_eof = (\<lambda>_. False), px_sent = (\<lambda>_. []), px_got = (\<lambda>_. []),
     px_writeClosed = (\<lambda>_. False), px_readDeadline = (\<lambda>_. None), px_phase = (\<lambda>_. Copying),
     px_reports = 0, px_returned = False, px_now = now\<rparr>"

definition read_timed_out :: "bool \<Rightarrow> proxy \<Rightarrow> bool" where
  "read_timed_out src p \<longleftrightarrow> (case px_readDeadline p src of None \<Rightarrow> False | Some t \<Rightarrow> t \<le> px_now p)"

definition set_phase_of :: "bool \<Rightarrow> copy_phase \<Rightarrow> proxy \<Rightarrow> proxy" where
  "set_phase_of src ph p = p\<lparr>px_phase := (px_phase p)(src := ph)\<rparr>"

section \<open>Steps\<close>

definition peer_send :: "bool \<Rightarrow> string \<Rightarrow> proxy \<Rightarrow> proxy" where
  "peer_send x d p = p\<lparr>px_in := (px_in p)(x := px_in p x @ d), px_sent := (px_sent p)(x := px_sent p x @ d)\<rparr>"

text \<open>One round of \<^verbatim>\<open>io.Copy\<close>: \<open>n\<close> bytes read of which \<open>k\<close> are written.\<close>

definition copy_round :: "bool \<Rightarrow> nat \<Rightarrow> nat \<Rightarrow> proxy \<Rightarrow> proxy" where
  "copy_round src n k p =
     p\<lparr>px_in := (px_in p)(src := drop n (px_in p src)),
       px_got := (px_got p)(\<not> src := px_got p (\<not> src) @ take (min k n) (px_in p src))\<rparr>"

text \<open>The rendezvous on \<^verbatim>\<open>errChan\<close>.\<close>

definition report :: "bool \<Rightarrow> string option \<Rightarrow> proxy \<Rightarrow> proxy" where
  "report src e p = (set_phase_of src (Closing e) p)\<lparr>px_reports := px_reports p + 1\<rparr>"

text \<open>\<^verbatim>\<open>CloseWrite\<close> of the other side and its read deadline.\<close>

definition half_close :: "int \<Rightarrow> bool \<Rightarrow> string option \<Rightarrow> proxy \<Rightarrow> proxy" where
  "half_close terminationDelay src e p =
     (let p1 = (set_phase_of src (Finished e) p)\<lparr>px_writeClosed := (px_writeClosed p)(\<not> src := True)\<rparr> in
      if terminationDelay \<ge> 0
      then p1\<lparr>px_readDeadline := (px_readDeadline p1)(\<not> src := Some (px_now p + terminationDelay))\<rparr>
      else p1)"

inductive px_step :: "int \<Rightarrow> bool \<Rightarrow> proxy \<Rightarrow> proxy \<Rightarrow> bool" for delay faults where
  sends: "\<not> px_eof p x \<Longrightarrow> px_step delay faults p (peer_send x d p)"
| finishes: "px_step delay faults p (p\<lparr>px_eof := (px_eof p)(x := True)\<rparr>)"
| copies: "px_phase p src = Copying \<Longrightarrow> \<not> read_timed_out src p \<Longrightarrow> n \<le> length (px_in p src) \<Longrightarrow>
    px_step delay faults p (copy_round src n n p)"
| copied: "px_phase p src = Copying \<Longrightarrow> \<not> read_timed_out src p \<Longrightarrow> px_in p src = [] \<Longrightarrow> px_eof p src \<Longrightarrow>
    px_step delay faults p (set_phase_of src (Reporting None) p)"
| timed_out: "px_phase p src = Copying \<Longrightarrow> read_timed_out src p \<Longrightarrow>
    px_step delay faults p (set_phase_of src (Reporting (Some ''i/o timeout'')) p)"
| failed: "faults \<Longrightarrow> px_phase p src = Copying \<Longrightarrow>
    px_step delay faults p (set_phase_of src (Reporting (Some e)) (copy_round src n k p))"
| reported: "px_phase p src = Reporting e \<Longrightarrow> px_step delay faults p (report src e p)"
| half_closed: "px_phase p src = Closing e \<Longrightarrow> px_step delay faults p (half_close delay src e p)"
| close_failed: "faults \<or> px_returned p \<Longrightarrow> px_phase p src = Closing e \<Longrightarrow>
    px_step delay faults p (set_phase_of src (Finished e) p)"
| returns: "px_reports p = 2 \<Longrightarrow> px_step delay faults p (p\<lparr>px_returned := True\<rparr>)"
| clock: "px_now p \<le> t \<Longrightarrow> px_step delay faults p (p\<lparr>px_now := t\<rparr>)"

inductive px_reach :: "int \<Rightarrow> bool \<Rightarrow> int \<Rightarrow> proxy \<Rightarrow> bool" for delay faults now where
  start: "px_reach delay faults now (serveTCP_start now)"
| step: "px_reach delay faults now p \<Longrightarrow> px_step delay faults p p' \<Longrightarrow> px_reach delay faults now p'"

section \<open>Invariant\<close>

fun phase_error :: "copy_phase \<Rightarrow> string option option" where
  "phase_error Copying = None"
| "phase_error (Reporting e) = Some e"
| "phase_error (Closing e) = Some e"
| "phase_error (Finished e) = Some e"

fun has_reported :: "copy_phase \<Rightarrow> bool" where
  "has_reported (Closing e) = True"
| "has_reported (Finished e) = True"
| "has_reported _ = False"

definition reports_of :: "proxy \<Rightarrow> nat" where
  "reports_of p = (if has_reported (px_phase p True) then 1 else 0) + (if has_reported (px_phase p False) then 1 else 0)"

definition direction_ok :: "int \<Rightarrow> bool \<Rightarrow> proxy \<Rightarrow> bool \<Rightarrow> bool" where
  "direction_ok delay faults p x \<longleftrightarrow>
     prefix (px_got p (\<not> x)) (px_sent p x)
     \<and> (px_phase p x = Copying \<longrightarrow> px_sent p x = px_got p (\<not> x) @ px_in p x)
     \<and> (phase_error (px_phase p x) = Some None \<longrightarrow> px_sent p x = px_got p (\<not> x) \<and> px_eof p x)
     \<and> (px_writeClosed p (\<not> x) \<longrightarrow> (\<exists>e. px_phase p x = Finished e))
     \<and> (delay < 0 \<longrightarrow> px_readDeadline p x = None)
     \<and> (delay < 0 \<and> \<not> faults \<longrightarrow> phase_error (px_phase p x) \<in> {None, Some None})"

definition proxy_inv :: "int \<Rightarrow> bool \<Rightarrow> proxy \<Rightarrow> bool" where
  "proxy_inv delay faults p \<longleftrightarrow> direction_ok delay faults p True \<and> direction_ok delay faults p False
     \<and> px_reports p = reports_of p \<and> (px_returned p \<longrightarrow> reports_of p = 2)"

lemmas px_ops = peer_send_def copy_round_def report_def half_close_def set_phase_of_def read_timed_out_def Let_def

lemma proxy_inv_dir: "proxy_inv delay faults p \<Longrightarrow> direction_ok delay faults p x"
  by (cases x) (simp_all add: proxy_inv_def)

lemma dir_both: "(\<And>x. direction_ok delay faults p x) \<Longrightarrow> direction_ok delay faults p True \<and> direction_ok delay faults p False"
  by blast

lemma prefix_sent: "prefix g s \<Longrightarrow> prefix g (s @ d)"
  by (simp add: prefix_def) (metis append.assoc)

lemma step_dir:
  assumes "px_step delay faults p p'" and "proxy_inv delay faults p"
  shows "direction_ok delay faults p' y"
  using assms(1)
proof (cases rule: px_step.cases)
  case (sends x d)
  with proxy_inv_dir [OF assms(2), of y] show ?thesis
    by (cases "y = x") (auto simp: direction_ok_def px_ops prefix_sent)
next
  case (copies src n)
  have "prefix (px_got p (\<not> src) @ take n (px_in p src)) (px_got p (\<not> src) @ px_in p src)"
    by (simp add: take_is_prefix)
  with copies proxy_inv_dir [OF assms(2), of y] show ?thesis
    by (cases "y = src") (simp_all add: direction_ok_def px_ops)
next
  case (failed src e n k)
  have "px_sent p src = (px_got p (\<not> src) @ take (min k n) (px_in p src)) @ drop (min k n) (px_in p src)"
    using failed proxy_inv_dir [OF assms(2), of src] by (simp add: direction_ok_def)
  then have "prefix (px_got p (\<not> src) @ take (min k n) (px_in p src)) (px_sent p src)"
    unfolding prefix_def by blast
  with failed proxy_inv_dir [OF assms(2), of y] show ?thesis
    by (cases "y = src") (auto simp: direction_ok_def px_ops)
next
  case (timed_out src)
  have "\<not> delay < 0"
    using timed_out proxy_inv_dir [OF assms(2), of src] by (auto simp: direction_ok_def read_timed_out_def)
  with timed_out proxy_inv_dir [OF assms(2), of y] show ?thesis
    by (cases "y = src") (auto simp: direction_ok_def px_ops)
next
  case (copied src)
  with proxy_inv_dir [OF assms(2), of y] show ?thesis
    by (cases "y = src") (auto simp: direction_ok_def px_ops)
next
  case (reported src e)
  with proxy_inv_dir [OF assms(2), of y] show ?thesis
    by (cases "y = src") (auto simp: direction_ok_def px_ops)
next
  case (half_closed src e)
  with proxy_inv_dir [OF assms(2), of y] show ?thesis
    by (cases "y = src") (auto simp: direction_ok_def px_ops)
next
  case (close_failed src e)
  with proxy_inv_dir [OF assms(2), of y] show ?thesis
    by (cases "y = src") (auto simp: direction_ok_def px_ops)
qed (use proxy_inv_dir [OF assms(2), of y] in \<open>auto simp: direction_ok_def\<close>)

lemma step_reports:
  assumes "px_step delay faults p p'" and "px_reports p = reports_of p \<and> (px_returned p \<longrightarrow> reports_of p = 2)"
  shows "px_reports p' = reports_of p' \<and> (px_returned p' \<longrightarrow> reports_of p' = 2)"
  using assms(1)
proof (cases rule: px_step.cases)
  case (reported src e)
  with assms(2) show ?thesis by (cases src) (auto simp: px_ops reports_of_def split: if_splits)
next
  case (half_closed src e)
  with assms(2) show ?thesis by (cases src) (auto simp: px_ops reports_of_def split: if_splits)
next
  case (close_failed src e)
  with assms(2) show ?thesis by (cases src) (auto simp: px_ops reports_of_def split: if_splits)
next
  case (copied src)
  with assms(2) show ?thesis by (cases src) (auto simp: px_ops reports_of_def split: if_splits)
next
  case (timed_out src)
  with assms(2) show ?thesis by (cases src) (auto simp: px_ops reports_of_def split: if_splits)
next
  case (failed src e n k)
  with assms(2) show ?thesis by (cases src) (auto simp: px_ops reports_of_def split: if_splits)
qed (use assms(2) in \<open>auto simp: px_ops reports_of_def\<close>)

lemma reach_proxy_inv: "px_reach delay faults now p \<Longrightarrow> proxy_inv delay faults p"
proof (induction rule: px_reach.induct)
  case start
  show ?case by (simp add: proxy_inv_def direction_ok_def reports_of_def serveTCP_start_def)
next
  case (step p p')
  from dir_both [of delay faults p', OF step_dir [OF step.hyps(2) step.IH]]
    step_reports [OF step.hyps(2)] step.IH show ?case by (simp add: proxy_inv_def)
qed

lemma both_reported: "reports_of p = 2 \<Longrightarrow> has_reported (px_phase p x)"
  by (cases x) (auto simp: reports_of_def split: if_splits)

section \<open>Properties\<close>

text \<open>
  C23. The proxy sends a peer only what the other one sent, in order and once; a goroutine that
  reports no error has sent everything up to the end of its source, only then is the write side
  closed, and \<^verbatim>\<open>ServeTCP\<close> returns, which closes both connections, only after both goroutines have
  reported.
\<close>

theorem tcp_proxy_forwards:
  assumes "px_reach delay faults now p"
  shows "prefix (px_got p (\<not> x)) (px_sent p x)
    \<and> (phase_error (px_phase p x) = Some None \<longrightarrow> px_got p (\<not> x) = px_sent p x \<and> px_eof p x)
    \<and> (px_writeClosed p (\<not> x) \<longrightarrow> (\<exists>e. px_phase p x = Finished e))
    \<and> (px_returned p \<longrightarrow> has_reported (px_phase p x))"
  using proxy_inv_dir [OF reach_proxy_inv [OF assms], of x] reach_proxy_inv [OF assms] both_reported [of p x]
  by (auto simp: direction_ok_def proxy_inv_def)

text \<open>
  With a negative termination delay and no fault of the network, both peers have everything the
  other one sent when \<^verbatim>\<open>ServeTCP\<close> returns.
\<close>

theorem tcp_proxy_complete:
  assumes "px_reach delay False now p" and "delay < 0" and "px_returned p"
  shows "px_got p (\<not> x) = px_sent p x \<and> px_eof p x"
proof -
  note inv = reach_proxy_inv [OF assms(1)]
  have "has_reported (px_phase p x)" using inv assms(3) both_reported by (simp add: proxy_inv_def)
  with proxy_inv_dir [OF inv, of x] assms(2) show ?thesis
    by (cases "px_phase p x") (auto simp: direction_ok_def)
qed

section \<open>The default termination delay\<close>

definition wp1 :: proxy where "wp1 = peer_send True ''req'' (serveTCP_start 0)"
definition wp2 :: proxy where "wp2 = copy_round True 3 3 (wp1\<lparr>px_eof := (px_eof wp1)(True := True)\<rparr>)"
definition wp3 :: proxy where "wp3 = half_close 0 True None (report True None (set_phase_of True (Reporting None) wp2))"
definition wp4 :: proxy where
  "wp4 = peer_send False ''answer'' wp3"
definition wp5 :: proxy where
  "wp5 = report False (Some ''i/o timeout'') (set_phase_of False (Reporting (Some ''i/o timeout'')) wp4)"
definition wp6 :: proxy where "wp6 = wp5\<lparr>px_returned := True\<rparr>"

lemmas wp_defs = wp1_def wp2_def wp3_def wp4_def wp5_def wp6_def serveTCP_start_def

lemma wp2_reach: "px_reach delay False 0 wp2"
proof -
  have 1: "px_reach delay False 0 wp1" unfolding wp1_def
    by (rule px_reach.step [OF px_reach.start px_step.sends]) (simp add: serveTCP_start_def)
  have 2: "px_reach delay False 0 (wp1\<lparr>px_eof := (px_eof wp1)(True := True)\<rparr>)"
    by (rule px_reach.step [OF 1 px_step.finishes])
  show ?thesis unfolding wp2_def
    by (rule px_reach.step [OF 2 px_step.copies]) (simp_all add: wp_defs px_ops)
qed

lemma wp6_reach: "px_reach 0 False 0 wp6"
proof -
  have 3: "px_reach 0 False 0 (set_phase_of True (Reporting None) wp2)"
    by (rule px_reach.step [OF wp2_reach px_step.copied]) (simp_all add: wp_defs px_ops)
  have 4: "px_reach 0 False 0 (report True None (set_phase_of True (Reporting None) wp2))"
    by (rule px_reach.step [OF 3 px_step.reported]) (simp add: px_ops)
  have 5: "px_reach 0 False 0 wp3" unfolding wp3_def
    by (rule px_reach.step [OF 4 px_step.half_closed]) (simp add: px_ops)
  have 6: "px_reach 0 False 0 wp4" unfolding wp4_def
    by (rule px_reach.step [OF 5 px_step.sends]) (simp add: wp_defs px_ops)
  have 7: "px_reach 0 False 0 (set_phase_of False (Reporting (Some ''i/o timeout'')) wp4)"
    by (rule px_reach.step [OF 6 px_step.timed_out]) (simp_all add: wp_defs px_ops)
  have 8: "px_reach 0 False 0 wp5" unfolding wp5_def
    by (rule px_reach.step [OF 7 px_step.reported]) (simp add: px_ops)
  show ?thesis unfolding wp6_def
    by (rule px_reach.step [OF 8 px_step.returns]) (simp add: wp_defs px_ops)
qed

text \<open>
  With the termination delay 0, which a dialer has when none is configured, a client that closes
  its writing side after its request gets no answer: without any fault a run exists in which
  \<^verbatim>\<open>ServeTCP\<close> has returned, the backend has the whole request and has answered, and the client got
  nothing.
\<close>

theorem default_delay_loses_answer:
  "\<exists>p. px_reach 0 False 0 p \<and> px_returned p \<and> px_got p False = ''req'' \<and> px_sent p False = ''answer'' \<and> px_got p True = ''''"
  by (rule exI [of _ wp6]) (simp add: wp6_reach, simp add: wp_defs px_ops)

lemma tcp_proxy_forwards_witness: "prefix (px_got wp6 False) (px_sent wp6 True) \<and> has_reported (px_phase wp6 True)"
  using tcp_proxy_forwards [OF wp6_reach, of True] by (simp add: wp6_def)

definition wp7 :: proxy where
  "wp7 = (report False None (set_phase_of False (Reporting None)
     ((report True None (set_phase_of True (Reporting None) wp2))\<lparr>px_eof := \<lambda>_. True\<rparr>)))\<lparr>px_returned := True\<rparr>"

lemma wp7_reach: "px_reach (-1) False 0 wp7"
proof -
  have 3: "px_reach (-1) False 0 (set_phase_of True (Reporting None) wp2)"
    by (rule px_reach.step [OF wp2_reach px_step.copied]) (simp_all add: wp_defs px_ops)
  have 4: "px_reach (-1) False 0 (report True None (set_phase_of True (Reporting None) wp2))" (is "px_reach _ _ _ ?p")
    by (rule px_reach.step [OF 3 px_step.reported]) (simp add: px_ops)
  have "(px_eof ?p)(False := True) = (\<lambda>_. True)" by (auto simp: fun_eq_iff wp_defs px_ops)
  with px_reach.step [OF 4 px_step.finishes [where p = ?p and x = False]] have 5: "px_reach (-1) False 0 (?p\<lparr>px_eof := \<lambda>_. True\<rparr>)" by simp
  have 6: "px_reach (-1) False 0 (set_phase_of False (Reporting None) (?p\<lparr>px_eof := \<lambda>_. True\<rparr>))"
    by (rule px_reach.step [OF 5 px_step.copied]) (simp_all add: wp_defs px_ops)
  have 7: "px_reach (-1) False 0 (report False None (set_phase_of False (Reporting None) (?p\<lparr>px_eof := \<lambda>_. True\<rparr>)))"
    by (rule px_reach.step [OF 6 px_step.reported]) (simp add: px_ops)
  show ?thesis unfolding wp7_def
    by (rule px_reach.step [OF 7 px_step.returns]) (simp add: wp_defs px_ops)
qed

lemma tcp_proxy_complete_witness: "px_got wp7 False = px_sent wp7 True \<and> px_sent wp7 True = ''req''"
  using tcp_proxy_complete [OF wp7_reach, of True] by (simp add: wp7_def wp_defs px_ops)

end
