(* ===== verification/NetAddr.thy ===== *)
theory NetAddr
  imports Prelude
begin

text \<open>
  What the code uses of the standard library's addresses: \<^verbatim>\<open>netip.ParseAddr\<close>, printing, \<^verbatim>\<open>Prefix\<close>,
  \<^verbatim>\<open>net.ParseIP\<close>, \<^verbatim>\<open>net.ParseCIDR\<close> and the membership tests, on bytes as there.  The parser and the
  printer are inverse to each other.
\<close>

unbundle bit_operations_syntax

section \<open>Texts\<close>

fun split_char :: "char \<Rightarrow> string \<Rightarrow> string list" where
  "split_char c [] = [[]]"
| "split_char c (d # s) =
     (if d = c then [] # split_char c s
      else (case split_char c s of [] \<Rightarrow> [[d]] | w # ws \<Rightarrow> (d # w) # ws))"

fun join_with :: "string \<Rightarrow> string list \<Rightarrow> string" where
  "join_with sep [] = []"
| "join_with sep [s] = s"
| "join_with sep (s # t # ss) = s @ sep @ join_with sep (t # ss)"

lemma split_char_nonempty: "split_char c s \<noteq> []"
  by (induction s) (auto split: list.split)

lemma split_char_none: "c \<notin> set s \<Longrightarrow> split_char c s = [s]"
  by (induction s) auto

lemma split_char_append: "c \<notin> set s \<Longrightarrow> split_char c (s @ c # t) = s # split_char c t"
  by (induction s) auto

lemma split_join:
  "ss \<noteq> [] \<Longrightarrow> \<forall>s\<in>set ss. c \<notin> set s \<Longrightarrow> split_char c (join_with [c] ss) = ss"
  by (induction "[c]" ss rule: join_with.induct) (simp_all add: split_char_none split_char_append)

lemma join_split: "join_with [c] (split_char c s) = s"
proof (induction s)
  case (Cons d s)
  obtain w ws where w: "split_char c s = w # ws" using split_char_nonempty [of c s] by (cases "split_char c s") auto
  show ?case
  proof (cases "d = c")
    case True
    with Cons w show ?thesis by simp
  next
    case False
    with Cons w show ?thesis by (cases ws) simp_all
  qed
qed simp

definition digit_of :: "nat \<Rightarrow> char" where "digit_of n = char_of (48 + n)"
definition is_digit :: "char \<Rightarrow> bool" where "is_digit c \<longleftrightarrow> (let n = (of_char c :: nat) in 48 \<le> n \<and> n \<le> 57)"
definition digit_val :: "char \<Rightarrow> nat" where "digit_val c = of_char c - 48"

definition hex_of :: "nat \<Rightarrow> char" where "hex_of n = (if n < 10 then char_of (48 + n) else char_of (87 + n))"

definition is_hex :: "char \<Rightarrow> bool" where
  "is_hex c \<longleftrightarrow> (let n = (of_char c :: nat) in 48 \<le> n \<and> n \<le> 57 \<or> 97 \<le> n \<and> n \<le> 102 \<or> 65 \<le> n \<and> n \<le> 70)"

definition hex_val :: "char \<Rightarrow> nat" where
  "hex_val c = (let n = of_char c in if n \<le> 57 then n - 48 else if n \<le> 70 then n - 55 else n - 87)"

text \<open>Numbers in a base, most significant digit first and without leading zeros.\<close>

fun print_base :: "nat \<Rightarrow> nat \<Rightarrow> nat list" where
  "print_base b n = (if n < b \<or> b < 2 then [n] else print_base b (n div b) @ [n mod b])"

declare print_base.simps [simp del]

definition read_base :: "nat \<Rightarrow> nat list \<Rightarrow> nat" where
  "read_base b ds = foldl (\<lambda>v d. b * v + d) 0 ds"

lemma read_print: "b \<ge> 2 \<Longrightarrow> read_base b (print_base b n) = n"
proof (induction b n rule: print_base.induct)
  case (1 b n)
  then show ?case by (subst print_base.simps) (auto simp: read_base_def)
qed

lemma print_digits: "b \<ge> 2 \<Longrightarrow> d \<in> set (print_base b n) \<Longrightarrow> d < b"
proof (induction b n rule: print_base.induct)
  case (1 b n)
  from "1.prems" show ?case
    by (subst (asm) print_base.simps) (use "1.IH" in \<open>auto split: if_splits\<close>)
qed

lemma print_length: "b \<ge> 2 \<Longrightarrow> n < b ^ Suc k \<Longrightarrow> length (print_base b n) \<le> Suc k"
proof (induction k arbitrary: n)
  case 0
  then show ?case by (subst print_base.simps) simp
next
  case (Suc k)
  then have "n div b < b ^ Suc k" by (simp add: less_mult_imp_div_less mult.commute)
  with Suc.IH [OF Suc.prems(1) this] Suc.prems show ?case by (subst print_base.simps) simp
qed

lemma print_nonempty: "print_base b n \<noteq> []"
  by (subst print_base.simps) simp

lemma print_leading: "b \<ge> 2 \<Longrightarrow> hd (print_base b n) = 0 \<Longrightarrow> n = 0"
proof (induction b n rule: print_base.induct)
  case (1 b n)
  show ?case
  proof (cases "n < b")
    case False
    then have "n div b \<noteq> 0" using "1.prems"(1) by (simp add: div_greater_zero_iff)
    moreover from False "1.prems" have "hd (print_base b (n div b)) = 0"
      by (subst (asm) print_base.simps) (simp add: print_nonempty)
    ultimately show ?thesis using "1.IH" False "1.prems"(1) by simp
  qed (use "1.prems" in \<open>subst (asm) print_base.simps, simp\<close>)
qed

lemma digits_ok: "n < 10 \<Longrightarrow> is_digit (digit_of n) \<and> digit_val (digit_of n) = n \<and> (digit_of n = CHR ''0'' \<longleftrightarrow> n = 0)"
proof -
  assume n: "n < 10"
  have "list_all (\<lambda>n. is_digit (digit_of n) \<and> digit_val (digit_of n) = n) [0..<10]"
    by (simp add: upt_rec is_digit_def digit_val_def digit_of_def Let_def)
  with n have v: "is_digit (digit_of n) \<and> digit_val (digit_of n) = n" by (simp add: list_all_iff)
  moreover have "digit_val (CHR ''0'') = 0" by (simp add: digit_val_def)
  moreover have "digit_of 0 = CHR ''0''"
  proof -
    have "of_char (digit_of 0) = (of_char (CHR ''0'') :: nat)" by (simp add: digit_of_def)
    then show ?thesis by (rule of_char_eq_iff [THEN iffD1])
  qed
  ultimately show ?thesis by metis
qed

lemma hexes_ok: "n < 16 \<Longrightarrow> is_hex (hex_of n) \<and> hex_val (hex_of n) = n"
proof -
  have "list_all (\<lambda>n. is_hex (hex_of n) \<and> hex_val (hex_of n) = n) [0..<16]"
    by (simp add: upt_rec is_hex_def hex_val_def hex_of_def Let_def)
  then show "n < 16 \<Longrightarrow> ?thesis" by (simp add: list_all_iff)
qed

definition decimal :: "nat \<Rightarrow> string" where "decimal n = map digit_of (print_base 10 n)"
definition hexadecimal :: "nat \<Rightarrow> string" where "hexadecimal n = map hex_of (print_base 16 n)"

text \<open>An integer as \<^verbatim>\<open>%d\<close> prints it.\<close>

definition int_text :: "int \<Rightarrow> string" where
  "int_text i = (if i < 0 then ''-'' @ decimal (nat (- i)) else decimal (nat i))"

section \<open>IPv4\<close>

text \<open>A field has digits only, no leading zero and a value below 256.\<close>

definition parse_octet :: "string \<Rightarrow> nat option" where
  "parse_octet s =
     (if s \<noteq> [] \<and> list_all is_digit s \<and> (hd s = CHR ''0'' \<longrightarrow> length s = 1) \<and> read_base 10 (map digit_val s) \<le> 255
      then Some (read_base 10 (map digit_val s)) else None)"

definition parseIPv4Fields :: "string \<Rightarrow> nat list option" where
  "parseIPv4Fields s =
     (case map parse_octet (split_char (CHR ''.'') s) of
        [Some a, Some b, Some c, Some d] \<Rightarrow> Some [a, b, c, d] | _ \<Rightarrow> None)"

definition string4 :: "nat list \<Rightarrow> string" where
  "string4 fields = join_with ''.'' (map decimal fields)"

lemma parse_octet_decimal: "n < 256 \<Longrightarrow> parse_octet (decimal n) = Some n"
proof -
  assume n: "n < 256"
  have d: "d < 10" if "d \<in> set (print_base 10 n)" for d using print_digits [of 10 d n] that by simp
  have val: "map digit_val (decimal n) = print_base 10 n"
    unfolding decimal_def map_map by (rule map_idI) (simp add: d digits_ok)
  have zero: "length (decimal n) = 1" if "hd (decimal n) = CHR ''0''"
  proof -
    have "hd (decimal n) = digit_of (hd (print_base 10 n))"
      by (simp add: decimal_def hd_map print_nonempty)
    with that d [of "hd (print_base 10 n)"] have "hd (print_base 10 n) = 0"
      using digits_ok [of "hd (print_base 10 n)"] print_nonempty [of 10 n] by simp
    then have "n = 0" by (rule print_leading [rotated]) simp
    then show ?thesis by (simp add: decimal_def print_base.simps [of 10 0])
  qed
  have "list_all is_digit (decimal n)"
    using d digits_ok by (auto simp: decimal_def list_all_iff)
  with n val zero show ?thesis
    by (simp add: parse_octet_def read_print) (simp add: decimal_def print_nonempty)
qed

lemma decimal_no_dot: "CHR ''.'' \<notin> set (decimal n)" "CHR '':'' \<notin> set (decimal n)" "CHR ''%'' \<notin> set (decimal n)"
proof -
  have "c \<in> set (decimal n) \<Longrightarrow> is_digit c" for c
    using print_digits [of 10 _ n] digits_ok by (auto simp: decimal_def)
  moreover have "\<not> is_digit (CHR ''.'')" "\<not> is_digit (CHR '':'')" "\<not> is_digit (CHR ''%'')"
    by (simp_all add: is_digit_def)
  ultimately show "CHR ''.'' \<notin> set (decimal n)" "CHR '':'' \<notin> set (decimal n)" "CHR ''%'' \<notin> set (decimal n)"
    by blast+
qed

lemma parse_string4:
  assumes "length fields = 4" and "\<forall>n\<in>set fields. n < 256"
  shows "parseIPv4Fields (string4 fields) = Some fields"
proof -
  from assms(1) obtain a b c d where f: "fields = [a, b, c, d]"
    by (auto simp: length_Suc_conv numeral_eq_Suc)
  have "split_char (CHR ''.'') (string4 fields) = map decimal fields"
    unfolding string4_def by (rule split_join) (auto simp: f decimal_no_dot)
  with assms(2) show ?thesis by (simp add: parseIPv4Fields_def f parse_octet_decimal)
qed


section \<open>IPv6\<close>

lemma shorter_rest:
  "dropWhile P s \<noteq> [] \<Longrightarrow> length (dropWhile P s) - Suc 0 < length s"
  "dropWhile P s \<noteq> [] \<Longrightarrow> length (dropWhile P s) - Suc (Suc 0) < length s"
  using length_dropWhile_le [of P s] by (cases "dropWhile P s"; simp)+

text \<open>The loop over groups: the groups read, where the ellipsis is, and the rest of the text.\<close>

function parse6 :: "nat list \<Rightarrow> nat option \<Rightarrow> string \<Rightarrow> (nat list \<times> nat option \<times> string) option" where
  "parse6 gs ell s =
     (if length gs \<ge> 8 then Some (gs, ell, s)
      else let ds = takeWhile is_hex s; rest = dropWhile is_hex s in
        if ds = [] \<or> length ds > 4 then None
        else if rest \<noteq> [] \<and> hd rest = CHR ''.'' then
          (if ell = None \<and> length gs \<noteq> 6 \<or> length gs > 6 then None
           else case parseIPv4Fields s of
                  Some [a, b, c, d] \<Rightarrow> Some (gs @ [256 * a + b, 256 * c + d], ell, [])
                | _ \<Rightarrow> None)
        else let gs' = gs @ [read_base 16 (map hex_val ds)] in
          if rest = [] then Some (gs', ell, [])
          else if hd rest \<noteq> CHR '':'' \<or> tl rest = [] then None
          else if hd (tl rest) = CHR '':'' then
            (if ell \<noteq> None then None
             else if tl (tl rest) = [] then Some (gs', Some (length gs'), [])
             else parse6 gs' (Some (length gs')) (tl (tl rest)))
          else parse6 gs' ell (tl rest))"
  by pat_completeness auto

termination
  by (relation "measure (\<lambda>(gs, ell, s). length s)") (auto simp: shorter_rest)

declare parse6.simps [simp del]

datatype Addr = V4 "8 word list" | V6 "8 word list" string

fun groups_bytes :: "nat list \<Rightarrow> 8 word list" where
  "groups_bytes [] = []"
| "groups_bytes (g # gs) = word_of_nat (g div 256) # word_of_nat (g mod 256) # groups_bytes gs"

fun bytes_groups :: "8 word list \<Rightarrow> nat list" where
  "bytes_groups (a # b # bs) = (256 * unat a + unat b) # bytes_groups bs"
| "bytes_groups _ = []"

definition expand6 :: "nat list \<times> nat option \<times> string \<Rightarrow> nat list option" where
  "expand6 = (\<lambda>(gs, ell, s).
     if s \<noteq> [] then None
     else if length gs < 8
       then map_option (\<lambda>e. take e gs @ replicate (8 - length gs) 0 @ drop e gs) ell
     else if ell \<noteq> None then None else Some gs)"

definition parseIPv6 :: "string \<Rightarrow> Addr option" where
  "parseIPv6 str =
     (let s = takeWhile (\<lambda>c. c \<noteq> CHR ''%'') str; z = dropWhile (\<lambda>c. c \<noteq> CHR ''%'') str; zone = tl z in
      if z \<noteq> [] \<and> zone = [] then None
      else if take 2 s = ''::'' then
        (if drop 2 s = [] then Some (V6 (groups_bytes (replicate 8 0)) zone)
         else map_option (\<lambda>gs. V6 (groups_bytes gs) zone) (Option.bind (parse6 [] (Some 0) (drop 2 s)) expand6))
      else map_option (\<lambda>gs. V6 (groups_bytes gs) zone) (Option.bind (parse6 [] None s) expand6))"

definition ParseAddr :: "string \<Rightarrow> Addr option" where
  "ParseAddr s =
     (case dropWhile (\<lambda>c. c \<notin> {CHR ''.'', CHR '':'', CHR ''%''}) s of
        [] \<Rightarrow> None
      | c # _ \<Rightarrow>
          if c = CHR ''.'' then map_option (\<lambda>fs. V4 (map word_of_nat fs)) (parseIPv4Fields s)
          else if c = CHR '':'' then parseIPv6 s else None)"

text \<open>The first longest run of at least two zero groups; 255 when there is none.\<close>

definition zeros_at :: "nat list \<Rightarrow> nat \<Rightarrow> nat" where
  "zeros_at gs i = length (takeWhile (\<lambda>g. g = 0) (drop i gs))"

definition zero_run :: "nat list \<Rightarrow> nat \<times> nat" where
  "zero_run gs = foldl (\<lambda>(zs, ze) i. if zeros_at gs i \<ge> 2 \<and> zeros_at gs i > ze - zs then (i, i + zeros_at gs i) else (zs, ze))
     (255, 255) [0..<8]"

definition string6 :: "nat list \<Rightarrow> string" where
  "string6 gs =
     (case zero_run gs of (zs, ze) \<Rightarrow>
        if zs < 8 then join_with '':'' (map hexadecimal (take zs gs)) @ ''::'' @ join_with '':'' (map hexadecimal (drop ze gs))
        else join_with '':'' (map hexadecimal gs))"

definition v4InV6Prefix :: "8 word list" where
  "v4InV6Prefix = replicate 10 0 @ [0xff, 0xff]"

fun Addr_String :: "Addr \<Rightarrow> string" where
  "Addr_String (V4 b) = string4 (map unat b)"
| "Addr_String (V6 b z) =
     (if take 12 b = v4InV6Prefix then ''::ffff:'' @ string4 (map unat (drop 12 b)) else string6 (bytes_groups b))
     @ (if z \<noteq> [] then CHR ''%'' # z else [])"

section \<open>Printing and parsing\<close>

lemma hexadecimal_hex: "list_all is_hex (hexadecimal n)"
  using print_digits [of 16 _ n] hexes_ok by (auto simp: hexadecimal_def list_all_iff)

lemma hexadecimal_val: "read_base 16 (map hex_val (hexadecimal n)) = n"
proof -
  have "map hex_val (hexadecimal n) = print_base 16 n"
    unfolding hexadecimal_def map_map by (rule map_idI) (use print_digits [of 16 _ n] hexes_ok in auto)
  then show ?thesis by (simp add: read_print)
qed

lemma hexadecimal_length: "n < 65536 \<Longrightarrow> hexadecimal n \<noteq> [] \<and> length (hexadecimal n) \<le> 4"
  using print_length [of 16 n 3] by (simp add: hexadecimal_def print_nonempty)

lemma not_hex: "\<not> is_hex (CHR '':'')" "\<not> is_hex (CHR ''.'')" "\<not> is_hex (CHR ''%'')"
  by (simp_all add: is_hex_def)

lemma hexadecimal_chars: "c \<in> set (hexadecimal n) \<Longrightarrow> c \<noteq> CHR '':'' \<and> c \<noteq> CHR ''.'' \<and> c \<noteq> CHR ''%''"
  using hexadecimal_hex [of n] not_hex by (auto simp: list_all_iff)

lemma takeWhile_hexadecimal:
  "r = [] \<or> \<not> is_hex (hd r) \<Longrightarrow> takeWhile is_hex (hexadecimal n @ r) = hexadecimal n"
  "r = [] \<or> \<not> is_hex (hd r) \<Longrightarrow> dropWhile is_hex (hexadecimal n @ r) = r"
  using hexadecimal_hex [of n]
  by (cases r; simp add: list_all_iff takeWhile_append2 dropWhile_append2)+

lemma takeWhile_hexadecimal0 [simp]:
  "takeWhile is_hex (hexadecimal n) = hexadecimal n" "dropWhile is_hex (hexadecimal n) = []"
  using hexadecimal_hex [of n] by (simp_all add: list_all_iff)

lemma parse6_last:
  "length gs < 8 \<Longrightarrow> g < 65536 \<Longrightarrow> parse6 gs ell (hexadecimal g) = Some (gs @ [g], ell, [])"
  using hexadecimal_length [of g]
  by (subst parse6.simps) (simp add: Let_def hexadecimal_val)

lemma parse6_group:
  assumes "length gs < 8" and "g < 65536" and "c \<noteq> CHR '':''"
  shows "parse6 gs ell (hexadecimal g @ CHR '':'' # c # t) = parse6 (gs @ [g]) ell (c # t)"
  using takeWhile_hexadecimal [of "CHR '':'' # c # t" g] hexadecimal_length [of g] assms
  by (subst parse6.simps) (simp add: Let_def hexadecimal_val not_hex)

lemma parse6_ellipsis:
  assumes "length gs < 8" and "g < 65536"
  shows "parse6 gs None (hexadecimal g @ ''::'' @ t) =
    (if t = [] then Some (gs @ [g], Some (Suc (length gs)), []) else parse6 (gs @ [g]) (Some (Suc (length gs))) t)"
  using takeWhile_hexadecimal [of "''::'' @ t" g] hexadecimal_length [of g] assms
  by (subst parse6.simps) (simp add: Let_def hexadecimal_val not_hex)

lemma hex_Cons: "g < 65536 \<Longrightarrow> \<exists>c t. hexadecimal g = c # t \<and> c \<noteq> CHR '':''"
  using hexadecimal_length [of g] hexadecimal_chars [of _ g] by (cases "hexadecimal g") auto

lemma join_Cons:
  assumes "hs \<noteq> []" and "\<forall>h\<in>set hs. h < 65536"
  obtains c t where "join_with '':'' (map hexadecimal hs) = c # t" "c \<noteq> CHR '':''"
proof -
  obtain g hs' where hs: "hs = g # hs'" using assms(1) by (cases hs) auto
  obtain c t where "hexadecimal g = c # t" "c \<noteq> CHR '':''" using hex_Cons [of g] assms(2) hs by auto
  with that show ?thesis by (cases hs') (auto simp: hs)
qed

lemma parse6_join:
  "hs \<noteq> [] \<Longrightarrow> length gs + length hs \<le> 8 \<Longrightarrow> \<forall>h\<in>set hs. h < 65536 \<Longrightarrow>
   parse6 gs ell (join_with '':'' (map hexadecimal hs)) = Some (gs @ hs, ell, [])"
proof (induction hs arbitrary: gs)
  case (Cons g hs)
  show ?case
  proof (cases "hs = []")
    case True
    with Cons.prems show ?thesis by (simp add: parse6_last)
  next
    case False
    have small: "\<forall>h\<in>set hs. h < 65536" using Cons.prems by simp
    obtain c t where ct: "join_with '':'' (map hexadecimal hs) = c # t" "c \<noteq> CHR '':''"
      using join_Cons [OF False small] .
    have "join_with '':'' (map hexadecimal (g # hs)) = hexadecimal g @ CHR '':'' # c # t"
      using False ct by (cases hs) simp_all
    moreover have "parse6 gs ell (hexadecimal g @ CHR '':'' # c # t) = parse6 (gs @ [g]) ell (c # t)"
      by (rule parse6_group) (use Cons.prems ct in auto)
    ultimately show ?thesis using Cons.IH [of "gs @ [g]"] False Cons.prems ct by simp
  qed
qed simp

lemma parse6_join_ellipsis:
  "hs \<noteq> [] \<Longrightarrow> length gs + length hs \<le> 8 \<Longrightarrow> \<forall>h\<in>set hs. h < 65536 \<Longrightarrow>
   parse6 gs None (join_with '':'' (map hexadecimal hs) @ ''::'' @ t) =
     (if t = [] then Some (gs @ hs, Some (length (gs @ hs)), []) else parse6 (gs @ hs) (Some (length (gs @ hs))) t)"
proof (induction hs arbitrary: gs)
  case (Cons g hs)
  show ?case
  proof (cases "hs = []")
    case True
    with Cons.prems parse6_ellipsis [of gs g t] show ?thesis by simp
  next
    case False
    have small: "\<forall>h\<in>set hs. h < 65536" using Cons.prems by simp
    obtain c u where cu: "join_with '':'' (map hexadecimal hs) = c # u" "c \<noteq> CHR '':''"
      using join_Cons [OF False small] .
    have "join_with '':'' (map hexadecimal (g # hs)) @ ''::'' @ t = hexadecimal g @ CHR '':'' # c # (u @ ''::'' @ t)"
      using False cu by (cases hs) simp_all
    moreover have "parse6 gs None (hexadecimal g @ CHR '':'' # c # (u @ ''::'' @ t)) = parse6 (gs @ [g]) None (c # u @ ''::'' @ t)"
      by (rule parse6_group) (use Cons.prems cu in auto)
    ultimately show ?thesis using Cons.IH [of "gs @ [g]"] False Cons.prems cu by simp
  qed
qed simp


lemma foldl_invariant: "P s \<Longrightarrow> (\<And>s i. P s \<Longrightarrow> P (f s i)) \<Longrightarrow> P (foldl f s xs)"
  by (induction xs arbitrary: s) auto

definition run_ok :: "nat list \<Rightarrow> nat \<times> nat \<Rightarrow> bool" where
  "run_ok gs = (\<lambda>(zs, ze). zs = 255
     \<or> zs + 2 \<le> ze \<and> ze \<le> length gs \<and> take (ze - zs) (drop zs gs) = replicate (ze - zs) 0)"

lemma zeros_at_run: "zeros_at gs i \<ge> 2 \<Longrightarrow> run_ok gs (i, i + zeros_at gs i)"
proof -
  assume l: "zeros_at gs i \<ge> 2"
  let ?w = "takeWhile (\<lambda>g. g = 0) (drop i gs)"
  have "take (length ?w) (drop i gs) = ?w"
    by (metis takeWhile_eq_take)
  moreover have "?w = replicate (length ?w) 0"
    by (rule nth_equalityI) (use nth_mem set_takeWhileD in fastforce)+
  moreover have "length ?w \<le> length (drop i gs)" by (rule length_takeWhile_le)
  ultimately show ?thesis using l by (auto simp: run_ok_def zeros_at_def)
qed

lemma run_none: "run_ok gs (255, 255)"
  by (simp add: run_ok_def)

lemma zero_run_ok: "run_ok gs (zero_run gs)"
  unfolding zero_run_def
  by (rule foldl_invariant) (auto intro: zeros_at_run split: prod.splits simp: run_none)

lemma run_around:
  assumes "run_ok gs (zs, ze)" and "zs < 8"
  shows "take zs gs @ replicate (ze - zs) 0 @ drop ze gs = gs" "zs + 2 \<le> ze" "ze \<le> length gs"
proof -
  from assms have r: "zs + 2 \<le> ze" "ze \<le> length gs" "take (ze - zs) (drop zs gs) = replicate (ze - zs) 0"
    by (auto simp: run_ok_def)
  have "take zs gs @ take (ze - zs) (drop zs gs) @ drop ze gs = take zs gs @ take (ze - zs) (drop zs gs) @ drop (ze - zs) (drop zs gs)"
    using r by simp
  also have "\<dots> = gs" by (simp only: append_take_drop_id)
  finally show "take zs gs @ replicate (ze - zs) 0 @ drop ze gs = gs" using r(3) by simp
  show "zs + 2 \<le> ze" "ze \<le> length gs" using r by auto
qed

text \<open>The groups part of the parser: with the optional ellipsis in front.\<close>

definition parse_groups :: "string \<Rightarrow> nat list option" where
  "parse_groups s =
     (if take 2 s = ''::'' then (if drop 2 s = [] then Some (replicate 8 0) else Option.bind (parse6 [] (Some 0) (drop 2 s)) expand6)
      else Option.bind (parse6 [] None s) expand6)"

lemma parseIPv6_groups:
  "CHR ''%'' \<notin> set s \<Longrightarrow> parseIPv6 (s @ (if z \<noteq> [] then CHR ''%'' # z else [])) = map_option (\<lambda>gs. V6 (groups_bytes gs) z) (parse_groups s)"
proof -
  assume s: "CHR ''%'' \<notin> set s"
  have "takeWhile (\<lambda>c. c \<noteq> CHR ''%'') (s @ (if z \<noteq> [] then CHR ''%'' # z else [])) = s"
    "dropWhile (\<lambda>c. c \<noteq> CHR ''%'') (s @ (if z \<noteq> [] then CHR ''%'' # z else [])) = (if z \<noteq> [] then CHR ''%'' # z else [])"
    using s by (auto simp: takeWhile_tail dropWhile_append3 intro!: takeWhile_eq_all_conv [THEN iffD2])
  then show ?thesis by (simp add: parseIPv6_def parse_groups_def Let_def)
qed

lemma parse_groups_string6:
  assumes len: "length gs = 8" and small: "\<forall>g\<in>set gs. g < 65536"
  shows "parse_groups (string6 gs) = Some gs"
proof -
  obtain zs ze where z: "zero_run gs = (zs, ze)" by fastforce
  have ok: "run_ok gs (zs, ze)" using zero_run_ok [of gs] z by simp
  let ?h = "take zs gs" and ?t = "drop ze gs"
  have sh: "\<forall>g\<in>set ?h. g < 65536" and st: "\<forall>g\<in>set ?t. g < 65536"
    using small by (auto dest: in_set_takeD in_set_dropD)
  have front: "take 2 (join_with '':'' (map hexadecimal hs) @ u) \<noteq> ''::''" if "hs \<noteq> []" "\<forall>g\<in>set hs. g < 65536" for hs u
    using join_Cons [OF that] by (metis append_Cons list.sel(1) take_Suc_Cons numeral_2_eq_2)
  show ?thesis
  proof (cases "zs < 8")
    case False
    have "parse6 [] None (join_with '':'' (map hexadecimal gs)) = Some (gs, None, [])"
      using parse6_join [of gs "[]" None] len small by fastforce
    with False z front [of gs "[]"] len small show ?thesis
      by (simp add: string6_def parse_groups_def expand6_def) fastforce
  next
    case True
    note r = run_around [OF ok True]
    have n: "8 - length ?t = ze" "8 - (zs + (8 - ze)) = ze - zs" "length ?h = zs" "length ?t = 8 - ze"
      using r len by simp_all
    have tail: "parse6 ?h (Some zs) (join_with '':'' (map hexadecimal ?t)) = Some (?h @ ?t, Some zs, [])" if "?t \<noteq> []"
      by (rule parse6_join [OF that _ st]) (use r len in simp)
    have join0: "join_with '':'' (map hexadecimal ?t) = [] \<longleftrightarrow> ?t = []"
    proof (cases "?t = []")
      case False
      from False obtain c u where "join_with '':'' (map hexadecimal ?t) = c # u" using join_Cons [OF False st] by blast
      with False show ?thesis by simp
    qed simp
    have expand: "expand6 (?h @ ?t, Some zs, []) = Some gs"
      using r len n by (simp add: expand6_def)
    show ?thesis
    proof (cases "zs = 0")
      case True
      with z tail join0 expand r len show ?thesis
        by (cases "?t = []") (auto simp: string6_def parse_groups_def)
    next
      case False
      then have h: "?h \<noteq> []" using len by auto
      have "parse6 [] None (join_with '':'' (map hexadecimal ?h) @ ''::'' @ join_with '':'' (map hexadecimal ?t))
          = Some (?h @ ?t, Some zs, [])"
        using parse6_join_ellipsis [OF h, of "[]"] sh n(3) True tail join0 by (cases "?t = []") auto
      with True z front [OF h sh] expand show ?thesis
        by (simp add: string6_def parse_groups_def)
    qed
  qed
qed


lemma byte_small: "unat (b :: 8 word) < 256"
  using unsigned_less [of b] by simp

lemma length_four: "length xs = 4 \<Longrightarrow> \<exists>a b c d. xs = [a, b, c, d]"
  by (auto simp: length_Suc_conv numeral_eq_Suc)

lemma groups_of_bytes: "even (length bs) \<Longrightarrow> groups_bytes (bytes_groups bs) = bs"
  by (induction bs rule: bytes_groups.induct) (simp_all add: byte_small)

lemma bytes_groups_small: "g \<in> set (bytes_groups bs) \<Longrightarrow> g < 65536"
proof (induction bs rule: bytes_groups.induct)
  case (1 a b bs)
  have "unat a < 256" "unat b < 256" using byte_small [of a] byte_small [of b] by simp_all
  with 1 show ?case by auto
qed simp_all

lemma length_bytes_groups: "length (bytes_groups bs) = length bs div 2"
  by (induction bs rule: bytes_groups.induct) simp_all

lemma set_join_with: "set (join_with sep ss) \<subseteq> set sep \<union> (\<Union>s\<in>set ss. set s)"
  by (induction sep ss rule: join_with.induct) auto

lemma set_string6: "c \<in> set (string6 gs) \<Longrightarrow> c \<noteq> CHR ''.'' \<and> c \<noteq> CHR ''%''"
proof -
  have j: "c \<in> set (join_with '':'' (map hexadecimal hs)) \<Longrightarrow> c \<noteq> CHR ''.'' \<and> c \<noteq> CHR ''%''" for hs
    using set_join_with [of "'':''" "map hexadecimal hs"] hexadecimal_chars by fastforce
  show "c \<in> set (string6 gs) \<Longrightarrow> ?thesis"
    using j by (auto simp: string6_def split: prod.splits if_splits)
qed

lemma colon_join: "length hs \<ge> 2 \<Longrightarrow> CHR '':'' \<in> set (join_with '':'' hs)"
  by (cases hs rule: remdups_adj.cases) auto

lemma colon_string6: "length gs = 8 \<Longrightarrow> CHR '':'' \<in> set (string6 gs)"
  using colon_join [of "map hexadecimal gs"] by (cases "zero_run gs") (auto simp: string6_def)

lemma ParseAddr_colon:
  assumes "CHR '':'' \<in> set s" and "CHR ''.'' \<notin> set s" and "CHR ''%'' \<notin> set s"
  shows "ParseAddr (s @ t) = parseIPv6 (s @ t)"
proof -
  let ?P = "\<lambda>c. c \<notin> {CHR ''.'', CHR '':'', CHR ''%''}"
  have "dropWhile ?P s \<noteq> []" using assms(1) by (auto simp: dropWhile_eq_Nil_conv)
  then obtain c u where d: "dropWhile ?P s = c # u" by (cases "dropWhile ?P s") auto
  then have "\<not> ?P c" and "c \<in> set s"
    using hd_dropWhile [of ?P s] set_dropWhileD [of c ?P s] by auto
  with assms have "c = CHR '':''" by auto
  moreover have "dropWhile ?P (s @ t) = c # u @ t"
    using d dropWhile_append1 [of "CHR '':''" s ?P t] assms(1) by simp
  ultimately show ?thesis by (simp add: ParseAddr_def)
qed

lemma zeros5: "replicate 5 (x :: 'a) = [x, x, x, x, x]"
  by (simp add: numeral_eq_Suc)

lemma zeros10: "replicate 10 (x :: 'a) = [x, x, x, x, x, x, x, x, x, x]"
  by (simp add: numeral_eq_Suc)

lemma hex_f: "hex_of 15 = CHR ''f''"
proof -
  have "of_char (hex_of 15) = (of_char (CHR ''f'') :: nat)" by (simp add: hex_of_def)
  then show ?thesis by (rule of_char_eq_iff [THEN iffD1])
qed

lemma parse_groups_4in6:
  assumes "length fields = 4" and "\<forall>n\<in>set fields. n < 256"
  shows "parse_groups (''::ffff:'' @ string4 fields) = Some (replicate 5 0 @ [65535, 256 * fields ! 0 + fields ! 1, 256 * fields ! 2 + fields ! 3])"
proof -
  from assms(1) obtain a b c d where f: "fields = [a, b, c, d]"
    by (auto simp: length_Suc_conv numeral_eq_Suc)
  have digit_hex: "is_digit x \<Longrightarrow> is_hex x" for x by (auto simp: is_digit_def is_hex_def Let_def)
  have dec: "list_all is_hex (decimal a)" "decimal a \<noteq> []" "length (decimal a) \<le> 4"
    using print_digits [of 10 _ a] digits_ok digit_hex print_length [of 10 a 3] assms(2) f
    by (fastforce simp: decimal_def list_all_iff print_nonempty)+
  have s4: "string4 fields = decimal a @ CHR ''.'' # join_with ''.'' [decimal b, decimal c, decimal d]"
    by (simp add: string4_def f)
  have tw: "takeWhile is_hex (string4 fields) = decimal a" "dropWhile is_hex (string4 fields) = CHR ''.'' # join_with ''.'' [decimal b, decimal c, decimal d]"
    using dec(1) not_hex unfolding s4 by (simp_all add: list_all_iff takeWhile_append2 dropWhile_append2)
  have p4: "parseIPv4Fields (string4 fields) = Some [a, b, c, d]" using parse_string4 [OF assms] by (simp add: f)
  have p2: "parse6 [65535] (Some 0) (string4 fields) = Some ([65535, 256 * a + b, 256 * c + d], Some 0, [])"
    using dec by (subst parse6.simps) (simp add: Let_def tw p4)
  have hx: "hexadecimal 65535 = ''ffff''"
    by (simp add: hexadecimal_def print_base.simps hex_f)
  obtain x u where xu: "string4 fields = x # u" "x \<noteq> CHR '':''"
    using dec decimal_no_dot(2) [of a] unfolding s4 by (cases "decimal a") auto
  have "parse6 [] (Some 0) (''ffff:'' @ string4 fields) = parse6 [65535] (Some 0) (string4 fields)"
    using parse6_group [of "[]" 65535 x "Some 0" u] xu by (simp add: hx)
  with p2 show ?thesis by (simp add: parse_groups_def expand6_def f zeros5)
qed

lemma string4_chars: "c \<in> set (string4 fields) \<Longrightarrow> c \<noteq> CHR ''%'' \<and> c \<noteq> CHR '':''"
  using set_join_with [of "''.''" "map decimal fields"] decimal_no_dot by (fastforce simp: string4_def)

fun Addr_ok :: "Addr \<Rightarrow> bool" where
  "Addr_ok (V4 b) = (length b = 4)"
| "Addr_ok (V6 b z) = (length b = 16)"

lemma map_unat_small: "\<forall>n\<in>set (map unat (b :: 8 word list)). n < 256"
  using byte_small by auto

text \<open>Parsing what was printed gives the address back.\<close>

lemma ParseAddr_String: "Addr_ok a \<Longrightarrow> ParseAddr (Addr_String a) = Some a"
proof (cases a)
  case (V4 b)
  assume "Addr_ok a"
  with V4 have len: "length (map unat b) = 4" by simp
  note p = parse_string4 [OF len map_unat_small]
  from len obtain x y z w where b: "b = [x, y, z, w]" using length_four [of b] by auto
  let ?P = "\<lambda>c. c \<notin> {CHR ''.'', CHR '':'', CHR ''%''}"
  have "\<forall>c\<in>set (decimal (unat x)). ?P c" using decimal_no_dot [of "unat x"] by blast
  then have "dropWhile ?P (string4 (map unat b)) = CHR ''.'' # join_with ''.'' [decimal (unat y), decimal (unat z), decimal (unat w)]"
    by (simp add: string4_def b dropWhile_append2)
  then have "ParseAddr (Addr_String a) = map_option (\<lambda>fs. V4 (map word_of_nat fs)) (parseIPv4Fields (string4 (map unat b)))"
    by (simp add: ParseAddr_def V4)
  with p show ?thesis by (simp add: V4 comp_def)
next
  case (V6 b z)
  assume "Addr_ok a"
  with V6 have len: "length b = 16" by simp
  show ?thesis
  proof (cases "take 12 b = v4InV6Prefix")
    case True
    let ?f = "map unat (drop 12 b)"
    have f: "length ?f = 4" using len by simp
    have np: "CHR ''%'' \<notin> set (''::ffff:'' @ string4 ?f)" using string4_chars by fastforce
    from f obtain x y u w where d: "drop 12 b = [x, y, u, w]" using length_four [of "drop 12 b"] by auto
    have "b = v4InV6Prefix @ [x, y, u, w]" using append_take_drop_id [of 12 b] True d by simp
    then have "groups_bytes (replicate 5 0 @ [65535, 256 * unat x + unat y, 256 * unat u + unat w]) = b"
      using byte_small [of x] byte_small [of y] byte_small [of u] byte_small [of w]
      by (simp add: v4InV6Prefix_def zeros5 zeros10)
    then have pg: "map_option (\<lambda>gs. V6 (groups_bytes gs) z) (parse_groups (''::ffff:'' @ string4 ?f)) = Some (V6 b z)"
      unfolding parse_groups_4in6 [OF f map_unat_small] by (simp add: d)
    have "ParseAddr (''::ffff:'' @ string4 ?f @ (if z \<noteq> [] then CHR ''%'' # z else []))
        = parseIPv6 (''::ffff:'' @ string4 ?f @ (if z \<noteq> [] then CHR ''%'' # z else []))"
      by (rule ParseAddr_colon) simp_all
    also have "\<dots> = Some (V6 b z)"
      using parseIPv6_groups [OF np, of z] pg by (simp only: append_assoc)
    finally show ?thesis using True by (simp only: V6 Addr_String.simps if_True append_assoc simp_thms)
  next
    case False
    let ?gs = "bytes_groups b"
    have g: "length ?gs = 8" using len by (simp add: length_bytes_groups)
    have c: "CHR ''.'' \<notin> set (string6 ?gs)" "CHR ''%'' \<notin> set (string6 ?gs)" using set_string6 by blast+
    have "parse_groups (string6 ?gs) = Some ?gs"
      by (rule parse_groups_string6 [OF g]) (use bytes_groups_small in blast)
    with parseIPv6_groups [OF c(2), of z] ParseAddr_colon [OF colon_string6 [OF g] c] groups_of_bytes [of b] len False
    show ?thesis by (simp add: V6)
  qed
qed


section \<open>Masks and networks\<close>

definition mask_byte :: "nat \<Rightarrow> 8 word" where
  "mask_byte k = (if k \<ge> 8 then 0xff else NOT (drop_bit k 0xff))"

definition CIDRMask :: "nat \<Rightarrow> nat \<Rightarrow> 8 word list" where
  "CIDRMask n len = map (\<lambda>i. mask_byte (n - 8 * i)) [0..<len]"

definition and_bytes :: "8 word list \<Rightarrow> 8 word list \<Rightarrow> 8 word list" where
  "and_bytes = map2 (AND)"

text \<open>\<^verbatim>\<open>Addr.Prefix\<close>, the address part.\<close>

fun Addr_Prefix :: "int \<Rightarrow> Addr \<Rightarrow> Addr option" where
  "Addr_Prefix b (V4 bs) = (if b < 0 \<or> b > 32 then None else Some (V4 (and_bytes bs (CIDRMask (nat b) 4))))"
| "Addr_Prefix b (V6 bs z) = (if b < 0 \<or> b > 128 then None else Some (V6 (and_bytes bs (CIDRMask (nat b) 16)) []))"

fun Is6 :: "Addr \<Rightarrow> bool" where
  "Is6 (V4 b) = False"
| "Is6 (V6 b z) = True"

fun As16 :: "Addr \<Rightarrow> 8 word list" where
  "As16 (V4 b) = v4InV6Prefix @ b"
| "As16 (V6 b z) = b"

fun Zone :: "Addr \<Rightarrow> string" where
  "Zone (V4 b) = []"
| "Zone (V6 b z) = z"

definition To4 :: "8 word list \<Rightarrow> 8 word list option" where
  "To4 ip = (if length ip = 4 then Some ip
     else if length ip = 16 \<and> take 12 ip = v4InV6Prefix then Some (drop 12 ip) else None)"

definition ParseIP :: "string \<Rightarrow> 8 word list option" where
  "ParseIP s = (case ParseAddr s of None \<Rightarrow> None | Some a \<Rightarrow> if Zone a \<noteq> [] then None else Some (As16 a))"

record IPNet =
  net_IP :: "8 word list"
  net_Mask :: "8 word list"

definition parse_bits :: "string \<Rightarrow> nat option" where
  "parse_bits s = (if s \<noteq> [] \<and> list_all is_digit s then Some (read_base 10 (map digit_val s)) else None)"

definition ParseCIDR :: "string \<Rightarrow> IPNet option" where
  "ParseCIDR s =
     (if CHR ''/'' \<notin> set s then None
      else case (ParseAddr (takeWhile (\<lambda>c. c \<noteq> CHR ''/'') s), parse_bits (tl (dropWhile (\<lambda>c. c \<noteq> CHR ''/'') s))) of
             (Some (V4 b), Some n) \<Rightarrow>
               if n \<le> 32 then Some \<lparr>net_IP = and_bytes b (CIDRMask n 4), net_Mask = CIDRMask n 4\<rparr> else None
           | (Some (V6 b z), Some n) \<Rightarrow>
               if z = [] \<and> n \<le> 128 then Some \<lparr>net_IP = and_bytes b (CIDRMask n 16), net_Mask = CIDRMask n 16\<rparr> else None
           | _ \<Rightarrow> None)"

definition networkNumberAndMask :: "IPNet \<Rightarrow> (8 word list \<times> 8 word list) option" where
  "networkNumberAndMask n =
     (case (case To4 (net_IP n) of Some x \<Rightarrow> Some x | None \<Rightarrow> if length (net_IP n) = 16 then Some (net_IP n) else None) of
        None \<Rightarrow> None
      | Some ip \<Rightarrow>
          if length (net_Mask n) = 4 then (if length ip \<noteq> 4 then None else Some (ip, net_Mask n))
          else if length (net_Mask n) = 16 then Some (ip, if length ip = 4 then drop 12 (net_Mask n) else net_Mask n)
          else None)"

definition IPNet_Contains :: "IPNet \<Rightarrow> 8 word list \<Rightarrow> bool" where
  "IPNet_Contains n ip =
     (let x = (case To4 ip of Some x \<Rightarrow> x | None \<Rightarrow> ip) in
      case networkNumberAndMask n of
        None \<Rightarrow> x = []
      | Some (nn, m) \<Rightarrow> length x = length nn \<and> and_bytes nn m = and_bytes x m)"

definition IP_Equal :: "8 word list \<Rightarrow> 8 word list \<Rightarrow> bool" where
  "IP_Equal ip x =
     (if length ip = length x then ip = x
      else if length ip = 4 \<and> length x = 16 then take 12 x = v4InV6Prefix \<and> ip = drop 12 x
      else if length ip = 16 \<and> length x = 4 then take 12 ip = v4InV6Prefix \<and> drop 12 ip = x
      else False)"

section \<open>Networks as leading bits\<close>

definition byte_bits :: "8 word \<Rightarrow> bool list" where
  "byte_bits w = map (\<lambda>j. bit w (7 - j)) [0..<8]"

definition bits_of :: "8 word list \<Rightarrow> bool list" where
  "bits_of bs = concat (map byte_bits bs)"

lemma bit_mask_byte: "j < 8 \<Longrightarrow> bit (mask_byte k) j \<longleftrightarrow> 8 \<le> j + k"
proof -
  assume j: "j < 8"
  have ff: "bit (0xff :: 8 word) i \<longleftrightarrow> i < 8" for i
  proof -
    have "(0xff :: 8 word) = mask 8" by (simp add: mask_eq_exp_minus_1)
    then show ?thesis by (simp only: bit_mask_iff) simp
  qed
  show ?thesis
  proof (cases "k \<ge> 8")
    case True
    with j show ?thesis by (simp only: mask_byte_def if_True ff) simp
  next
    case False
    with j have "bit (mask_byte k) j \<longleftrightarrow> \<not> bit (0xff :: 8 word) (k + j)"
      by (simp add: mask_byte_def bit_not_iff bit_drop_bit_eq)
    then show ?thesis by (simp only: ff) (use j False in auto)
  qed
qed

lemma masked_byte: "x AND mask_byte n = y AND mask_byte n \<longleftrightarrow> take n (byte_bits x) = take n (byte_bits y)"
proof -
  have "x AND mask_byte n = y AND mask_byte n \<longleftrightarrow> (\<forall>j<8. 8 \<le> j + n \<longrightarrow> bit x j = bit y j)"
    by (auto simp: bit_eq_iff bit_and_iff bit_mask_byte)
  also have "\<dots> \<longleftrightarrow> (\<forall>i<8. i < n \<longrightarrow> bit x (7 - i) = bit y (7 - i))"
  proof safe
    fix i :: nat assume "\<forall>j<8. 8 \<le> j + n \<longrightarrow> bit x j = bit y j" "i < 8" "i < n" and "bit x (7 - i)"
    then show "bit y (7 - i)" by (auto dest: spec [of _ "7 - i"])
  next
    fix i :: nat assume "\<forall>j<8. 8 \<le> j + n \<longrightarrow> bit x j = bit y j" "i < 8" "i < n" and "bit y (7 - i)"
    then show "bit x (7 - i)" by (auto dest: spec [of _ "7 - i"])
  next
    fix j :: nat assume a: "\<forall>i<8. i < n \<longrightarrow> bit x (7 - i) = bit y (7 - i)" "j < 8" "8 \<le> j + n"
    then have "bit x (7 - (7 - j)) = bit y (7 - (7 - j))" by (intro a(1) [rule_format]) auto
    with a(2) show "bit x j \<Longrightarrow> bit y j" "bit y j \<Longrightarrow> bit x j" by simp_all
  qed
  also have "\<dots> \<longleftrightarrow> take n (byte_bits x) = take n (byte_bits y)"
    by (auto simp: list_eq_iff_nth_eq byte_bits_def)
  finally show ?thesis .
qed

lemma CIDRMask_Suc: "CIDRMask n (Suc len) = mask_byte n # CIDRMask (n - 8) len"
  by (simp add: CIDRMask_def upt_rec [of 0] map_Suc_upt [symmetric] comp_def del: upt_Suc)

lemma masked_bits:
  "length a = len \<Longrightarrow> length b = len \<Longrightarrow>
   and_bytes a (CIDRMask n len) = and_bytes b (CIDRMask n len) \<longleftrightarrow> take n (bits_of a) = take n (bits_of b)"
proof (induction len arbitrary: a b n)
  case (Suc len)
  then obtain x xs y ys where ab: "a = x # xs" "b = y # ys" "length xs = len" "length ys = len"
    by (auto simp: length_Suc_conv)
  have l: "length (byte_bits w) = 8" for w by (simp add: byte_bits_def)
  show ?case
    using Suc.IH [OF ab(3,4), of "n - 8"] masked_byte [of x n y]
    by (auto simp: ab CIDRMask_Suc and_bytes_def bits_of_def l)
qed simp


lemma parse6_length: "parse6 gs ell s = Some (gs', ell', s') \<Longrightarrow> length gs \<le> 8 \<Longrightarrow> length gs' \<le> 8"
proof (induction "length s" arbitrary: gs ell s rule: less_induct)
  case less
  have rest: "length u < length s \<Longrightarrow> parse6 (gs @ [g]) e u = Some (gs', ell', s') \<Longrightarrow> length gs < 8 \<Longrightarrow> length gs' \<le> 8" for u g e
    using less.hyps [of u "gs @ [g]" e] by simp
  have shorter: "dropWhile is_hex s \<noteq> [] \<Longrightarrow> length (tl (dropWhile is_hex s)) < length s"
    "dropWhile is_hex s \<noteq> [] \<Longrightarrow> length (tl (tl (dropWhile is_hex s))) < length s"
    using shorter_rest [of is_hex s] by simp_all
  from less.prems show ?case
    by (subst (asm) parse6.simps)
      (auto simp: Let_def split: if_splits option.splits list.splits simp del: dropWhile_eq_Nil_conv
        dest: rest [OF shorter(1)] rest [OF shorter(2)])
qed

lemma length_groups_bytes: "length (groups_bytes gs) = 2 * length gs"
  by (induction gs) simp_all

lemma expand6_length: "parse6 [] ell s = Some r \<Longrightarrow> expand6 r = Some gs \<Longrightarrow> length gs = 8"
  using parse6_length [of "[]" ell s] by (cases r) (fastforce simp: expand6_def split: if_splits)

lemma ParseAddr_ok: "ParseAddr s = Some a \<Longrightarrow> Addr_ok a"
proof -
  have v6: "parseIPv6 s = Some a \<Longrightarrow> Addr_ok a"
    by (auto simp: parseIPv6_def Let_def bind_eq_Some_conv length_groups_bytes dest!: expand6_length split: if_splits)
  have v4: "parseIPv4Fields s = Some fs \<Longrightarrow> length fs = 4" for fs
    by (auto simp: parseIPv4Fields_def split: list.splits option.splits)
  assume "ParseAddr s = Some a"
  with v6 v4 show ?thesis
    by (auto simp: ParseAddr_def split: list.splits if_splits)
qed


definition to16 :: "8 word list \<Rightarrow> 8 word list" where
  "to16 ip = (if length ip = 4 then v4InV6Prefix @ ip else ip)"

lemma length_bits_of [simp]: "length (bits_of bs) = 8 * length bs"
  by (induction bs) (simp_all add: bits_of_def byte_bits_def)

lemma bits_of_append [simp]: "bits_of (a @ b) = bits_of a @ bits_of b"
  by (simp add: bits_of_def)

lemma length_v4Prefix [simp]: "length v4InV6Prefix = 12"
  by (simp add: v4InV6Prefix_def)

lemma length_and_bytes [simp]: "length (and_bytes a b) = min (length a) (length b)"
  by (simp add: and_bytes_def)

lemma length_CIDRMask [simp]: "length (CIDRMask n len) = len"
  by (simp add: CIDRMask_def)

lemma and_bytes_idem: "length a = length m \<Longrightarrow> and_bytes (and_bytes a m) m = and_bytes a m"
  unfolding and_bytes_def by (induction a m rule: list_induct2) (simp_all add: and.assoc)

lemma To4_length: "To4 ip = Some x \<Longrightarrow> length x = 4"
  by (auto simp: To4_def split: if_splits)

lemma To4_to16: "To4 ip = Some x \<Longrightarrow> to16 ip = v4InV6Prefix @ x"
proof -
  have "take 12 ip = v4InV6Prefix \<Longrightarrow> v4InV6Prefix @ drop 12 ip = ip"
    using append_take_drop_id [of 12 ip] by simp
  then show "To4 ip = Some x \<Longrightarrow> ?thesis" by (auto simp: To4_def to16_def split: if_splits)
qed

lemma To4_None: "length ip \<in> {4, 16} \<Longrightarrow> To4 ip = None \<Longrightarrow> length ip = 16 \<and> to16 ip = ip"
  by (auto simp: To4_def to16_def split: if_splits)

lemma take_bits_prefix: "take (n + 96) (bits_of (v4InV6Prefix @ x)) = bits_of v4InV6Prefix @ take n (bits_of x)"
  by simp

text \<open>A masked address is of the IPv4 form only when the mask covers the form's prefix.\<close>

lemma mask_byte_ff: "x AND mask_byte k = 0xff \<Longrightarrow> 8 \<le> k"
proof -
  assume a: "x AND mask_byte k = 0xff"
  have "(0xff :: 8 word) = mask 8" by (simp add: mask_eq_exp_minus_1)
  then have "bit (0xff :: 8 word) 0" by (simp only: bit_mask_iff) simp
  then have "bit (mask_byte k) 0" unfolding a [symmetric] by (simp add: bit_and_iff)
  then show "8 \<le> k" by (simp add: bit_mask_byte)
qed

lemma CIDRMask_drop: "CIDRMask n (a + b) = CIDRMask n a @ CIDRMask (n - 8 * a) b"
proof (rule nth_equalityI)
  fix i assume i: "i < length (CIDRMask n (a + b))"
  show "CIDRMask n (a + b) ! i = (CIDRMask n a @ CIDRMask (n - 8 * a) b) ! i"
  proof (cases "i < a")
    case False
    then have "n - 8 * i = n - 8 * a - 8 * (i - a)" by (simp add: diff_mult_distrib2)
    moreover have "i - a < b" using False i by simp
    then have "[0..<b] ! (i - a) = i - a" by simp
    ultimately show ?thesis using False i by (simp add: CIDRMask_def nth_append)
  qed (use i in \<open>simp add: CIDRMask_def nth_append\<close>)
qed simp

lemma mask_split:
  assumes "length b = 16" and n: "96 \<le> n"
  shows "and_bytes b (CIDRMask n 16) = take 12 b @ and_bytes (drop 12 b) (CIDRMask (n - 96) 4)"
proof -
  have m16: "CIDRMask n 16 = CIDRMask n 12 @ CIDRMask (n - 96) 4" using CIDRMask_drop [of n 12 4] by simp
  have full: "CIDRMask n 12 = replicate 12 0xff"
    using n by (auto simp: CIDRMask_def mask_byte_def list_eq_iff_nth_eq)
  have split: "and_bytes b (CIDRMask n 16) = and_bytes (take 12 b) (CIDRMask n 12) @ and_bytes (drop 12 b) (CIDRMask (n - 96) 4)"
    using assms(1) unfolding m16 and_bytes_def by (subst append_take_drop_id [of 12 b, symmetric], subst zip_append) simp_all
  have "and_bytes (take 12 b) (replicate 12 0xff) = take 12 b"
  proof -
    have "(0xff :: 8 word) = -1" by simp
    then show ?thesis using assms(1) unfolding and_bytes_def by (simp only:) (auto simp: list_eq_iff_nth_eq)
  qed
  with split full show ?thesis by simp
qed

lemma masked_4in6:
  assumes "length b = 16" and "To4 (and_bytes b (CIDRMask n 16)) = Some x"
  shows "96 \<le> n \<and> take 12 b = v4InV6Prefix \<and> x = and_bytes (drop 12 b) (CIDRMask (n - 96) 4)"
proof -
  let ?m = "and_bytes b (CIDRMask n 16)"
  have len: "length ?m = 16" using assms(1) by simp
  with assms(2) have p: "take 12 ?m = v4InV6Prefix" and x: "x = drop 12 ?m"
    by (auto simp: To4_def split: if_splits)
  have "?m ! 11 = v4InV6Prefix ! 11" using p nth_take [of 11 12 ?m] by simp
  then have "b ! 11 AND mask_byte (n - 88) = 0xff"
    using assms(1) by (simp add: and_bytes_def CIDRMask_def v4InV6Prefix_def nth_append)
  from mask_byte_ff [OF this] have n: "96 \<le> n" by simp
  from mask_split [OF assms(1) n] p x assms(1) n show ?thesis by simp
qed

lemma masked_4in6_iff:
  assumes "length b = 16"
  shows "To4 (and_bytes b (CIDRMask n 16)) =
    (if 96 \<le> n \<and> take 12 b = v4InV6Prefix then Some (and_bytes (drop 12 b) (CIDRMask (n - 96) 4)) else None)"
proof (cases "96 \<le> n \<and> take 12 b = v4InV6Prefix")
  case True
  with mask_split [OF assms, of n] assms show ?thesis by (simp add: To4_def)
next
  case False
  with masked_4in6 [OF assms, of n] show ?thesis by (cases "To4 (and_bytes b (CIDRMask n 16))") auto
qed

text \<open>
  An address is in a network when both are of the same family and the leading bits agree.  A network
  written in IPv6 is of the IPv4 family when its length covers the prefix of the IPv4 form.
\<close>

fun in_cidr :: "Addr \<Rightarrow> nat \<Rightarrow> 8 word list \<Rightarrow> bool" where
  "in_cidr (V4 b) n ip \<longleftrightarrow> To4 ip \<noteq> None \<and> take (n + 96) (bits_of (As16 (V4 b))) = take (n + 96) (bits_of (to16 ip))"
| "in_cidr (V6 b z) n ip \<longleftrightarrow>
     (To4 ip \<noteq> None) = (96 \<le> n \<and> take 12 b = v4InV6Prefix) \<and> take n (bits_of b) = take n (bits_of (to16 ip))"

lemma Contains_v4:
  assumes "length b = 4" and "length ip \<in> {4, 16}"
  shows "IPNet_Contains \<lparr>net_IP = and_bytes b (CIDRMask n 4), net_Mask = CIDRMask n 4\<rparr> ip = in_cidr (V4 b) n ip"
proof -
  have nm: "networkNumberAndMask \<lparr>net_IP = and_bytes b (CIDRMask n 4), net_Mask = CIDRMask n 4\<rparr>
      = Some (and_bytes b (CIDRMask n 4), CIDRMask n 4)"
    using assms(1) by (simp add: networkNumberAndMask_def To4_def)
  show ?thesis
  proof (cases "To4 ip")
    case None
    with To4_None [OF assms(2)] assms(1) show ?thesis by (simp add: IPNet_Contains_def nm)
  next
    case (Some x)
    with masked_bits [OF assms(1) To4_length [OF Some], of n] assms(1) To4_length [OF Some] To4_to16 [OF Some] show ?thesis
      by (simp add: IPNet_Contains_def nm and_bytes_idem)
  qed
qed

lemma Contains_v6:
  assumes "length b = 16" and "length ip \<in> {4, 16}"
  shows "IPNet_Contains \<lparr>net_IP = and_bytes b (CIDRMask n 16), net_Mask = CIDRMask n 16\<rparr> ip = in_cidr (V6 b z) n ip"
proof (cases "96 \<le> n \<and> take 12 b = v4InV6Prefix")
  case True
  have m4: "drop 12 (CIDRMask n 16) = CIDRMask (n - 96) 4" using CIDRMask_drop [of n 12 4] by simp
  have nm: "networkNumberAndMask \<lparr>net_IP = and_bytes b (CIDRMask n 16), net_Mask = CIDRMask n 16\<rparr>
      = Some (and_bytes (drop 12 b) (CIDRMask (n - 96) 4), CIDRMask (n - 96) 4)"
    using True assms(1) by (simp add: networkNumberAndMask_def masked_4in6_iff m4)
  have b: "b = v4InV6Prefix @ drop 12 b" using True append_take_drop_id [of 12 b] by simp
  show ?thesis
  proof (cases "To4 ip")
    case None
    with To4_None [OF assms(2)] assms(1) True show ?thesis by (simp add: IPNet_Contains_def nm)
  next
    case (Some x)
    have "take n (bits_of b) = take n (bits_of (to16 ip)) \<longleftrightarrow> take (n - 96) (bits_of (drop 12 b)) = take (n - 96) (bits_of x)"
      using True by (subst b) (simp add: To4_to16 [OF Some])
    with masked_bits [of "drop 12 b" 4 x "n - 96"] assms(1) To4_length [OF Some] Some True show ?thesis
      by (simp add: IPNet_Contains_def nm and_bytes_idem)
  qed
next
  case False
  then have nm: "networkNumberAndMask \<lparr>net_IP = and_bytes b (CIDRMask n 16), net_Mask = CIDRMask n 16\<rparr>
      = Some (and_bytes b (CIDRMask n 16), CIDRMask n 16)"
    using assms(1) by (auto simp: networkNumberAndMask_def masked_4in6_iff)
  show ?thesis
  proof (cases "To4 ip")
    case None
    with To4_None [OF assms(2) None] masked_bits [OF assms(1), of ip n] assms(1) False show ?thesis
      by (auto simp: IPNet_Contains_def nm and_bytes_idem)
  next
    case (Some x)
    with To4_length [OF Some] assms(1) False show ?thesis by (auto simp: IPNet_Contains_def nm)
  qed
qed

definition cidr_addr :: "string \<Rightarrow> Addr option" where
  "cidr_addr s = ParseAddr (takeWhile (\<lambda>c. c \<noteq> CHR ''/'') s)"

definition cidr_len :: "string \<Rightarrow> nat option" where
  "cidr_len s = parse_bits (tl (dropWhile (\<lambda>c. c \<noteq> CHR ''/'') s))"

lemma ParseCIDR_spec:
  assumes "ParseCIDR s = Some net"
  obtains a n where "cidr_addr s = Some a" "cidr_len s = Some n"
    "\<And>ip. length ip \<in> {4, 16} \<Longrightarrow> IPNet_Contains net ip = in_cidr a n ip"
proof -
  from assms obtain a n where a: "cidr_addr s = Some a" and n: "cidr_len s = Some n"
    by (auto simp: ParseCIDR_def cidr_addr_def cidr_len_def split: if_splits option.splits Addr.splits)
  from ParseAddr_ok a have ok: "Addr_ok a" by (simp add: cidr_addr_def)
  show ?thesis
  proof (cases a)
    case (V4 b)
    with assms a n have "net = \<lparr>net_IP = and_bytes b (CIDRMask n 4), net_Mask = CIDRMask n 4\<rparr>"
      by (auto simp: ParseCIDR_def cidr_addr_def cidr_len_def split: if_splits)
    with V4 ok Contains_v4 [of b] that [OF a n] show ?thesis by simp
  next
    case (V6 b z)
    with assms a n have "net = \<lparr>net_IP = and_bytes b (CIDRMask n 16), net_Mask = CIDRMask n 16\<rparr>"
      by (auto simp: ParseCIDR_def cidr_addr_def cidr_len_def split: if_splits)
    with V6 ok Contains_v6 [of b] that [OF a n] show ?thesis by simp
  qed
qed

section \<open>White space\<close>

text \<open>\<^verbatim>\<open>strings.TrimSpace\<close>: the white space of Unicode in UTF-8, from both ends.\<close>

definition white_space :: "string list" where
  "white_space = [[CHR 0x09], [CHR 0x0A], [CHR 0x0B], [CHR 0x0C], [CHR 0x0D], '' '', [CHR 0xC2, CHR 0x85],
     [CHR 0xC2, CHR 0xA0], [CHR 0xE1, CHR 0x9A, CHR 0x80], [CHR 0xE2, CHR 0x80, CHR 0x80],
     [CHR 0xE2, CHR 0x80, CHR 0x81], [CHR 0xE2, CHR 0x80, CHR 0x82], [CHR 0xE2, CHR 0x80, CHR 0x83],
     [CHR 0xE2, CHR 0x80, CHR 0x84], [CHR 0xE2, CHR 0x80, CHR 0x85], [CHR 0xE2, CHR 0x80, CHR 0x86],
     [CHR 0xE2, CHR 0x80, CHR 0x87], [CHR 0xE2, CHR 0x80, CHR 0x88], [CHR 0xE2, CHR 0x80, CHR 0x89],
     [CHR 0xE2, CHR 0x80, CHR 0x8A], [CHR 0xE2, CHR 0x80, CHR 0xA8], [CHR 0xE2, CHR 0x80, CHR 0xA9],
     [CHR 0xE2, CHR 0x80, CHR 0xAF], [CHR 0xE2, CHR 0x81, CHR 0x9F], [CHR 0xE3, CHR 0x80, CHR 0x80]]"

function trim_front :: "string list \<Rightarrow> string \<Rightarrow> string" where
  "trim_front ws s =
     (case find (\<lambda>w. w \<noteq> [] \<and> take (length w) s = w) ws of
        None \<Rightarrow> s | Some w \<Rightarrow> if s = [] then s else trim_front ws (drop (length w) s))"
  by pat_completeness auto

termination
  by (relation "measure (\<lambda>(ws, s). length s)") (auto simp: find_Some_iff)

declare trim_front.simps [simp del]

definition TrimSpace :: "string \<Rightarrow> string" where
  "TrimSpace s = rev (trim_front (map rev white_space) (rev (trim_front white_space s)))"

end
