(* ===== verification/IpStrategy.thy ===== *)
theory IpStrategy
  imports ProxyRewrite NetAddr
begin

text \<open>
  The strategies that select a client address from a request, and the checker of trusted addresses,
  \<^verbatim>\<open>net/ip\<close>.  The addresses of the standard library are those of \<^verbatim>\<open>NetAddr\<close>.
\<close>

section \<open>Checker\<close>

record Checker =
  ck_authorizedIPs :: "8 word list list"
  ck_authorizedIPsNet :: "IPNet list"

fun add_trusted :: "string list \<Rightarrow> Checker \<Rightarrow> string + Checker" where
  "add_trusted [] c = Inr c"
| "add_trusted (ipMask # rest) c =
     (case ParseIP ipMask of
        Some ipAddr \<Rightarrow> add_trusted rest (c\<lparr>ck_authorizedIPs := ck_authorizedIPs c @ [ipAddr]\<rparr>)
      | None \<Rightarrow>
          (case ParseCIDR ipMask of
             None \<Rightarrow> Inl (''parsing CIDR trusted IPs <nil>: invalid CIDR address: '' @ ipMask)
           | Some ipNet \<Rightarrow> add_trusted rest (c\<lparr>ck_authorizedIPsNet := ck_authorizedIPsNet c @ [ipNet]\<rparr>)))"

definition NewChecker :: "string list \<Rightarrow> string + Checker" where
  "NewChecker trustedIPs =
     (if trustedIPs = [] then Inl ''no trusted IPs provided''
      else add_trusted trustedIPs \<lparr>ck_authorizedIPs = [], ck_authorizedIPsNet = []\<rparr>)"

definition ContainsIP :: "Checker \<Rightarrow> 8 word list \<Rightarrow> bool" where
  "ContainsIP c addr \<longleftrightarrow>
     list_ex (\<lambda>authorizedIP. IP_Equal authorizedIP addr) (ck_authorizedIPs c)
     \<or> list_ex (\<lambda>authorizedNet. IPNet_Contains authorizedNet addr) (ck_authorizedIPsNet c)"

definition parseIP :: "string \<Rightarrow> string + 8 word list" where
  "parseIP addr =
     (case ParseAddr addr of
        None \<Rightarrow> Inl (''can't parse IP from address '' @ addr)
      | Some a \<Rightarrow> Inr (As16 a))"

definition Checker_Contains :: "Checker \<Rightarrow> string \<Rightarrow> string + bool" where
  "Checker_Contains c addr =
     (if addr = [] then Inl ''empty IP address''
      else case parseIP addr of
             Inl err \<Rightarrow> Inl (''unable to parse address: '' @ addr @ '': '' @ err)
           | Inr ipAddr \<Rightarrow> Inr (ContainsIP c ipAddr))"

text \<open>The error of \<^verbatim>\<open>Contains\<close>, or the message that quotes the address which matched none.\<close>

datatype authorize_error = ContainsError string | MatchedNone string

definition IsAuthorized :: "Checker \<Rightarrow> string \<Rightarrow> authorize_error option" where
  "IsAuthorized c addr =
     (let host = (case SplitHostPort addr of Inl err \<Rightarrow> addr | Inr (h, p) \<Rightarrow> h) in
      case Checker_Contains c host of
        Inl err \<Rightarrow> Some (ContainsError err)
      | Inr ok \<Rightarrow> if \<not> ok then Some (MatchedNone addr) else None)"

section \<open>What a trusted text stands for\<close>


text \<open>
  An address without a zone stands for itself, in either form, anything else for the addresses of its
  family that agree with it in the leading bits.
\<close>

definition trusts :: "string \<Rightarrow> 8 word list \<Rightarrow> bool" where
  "trusts entry ip \<longleftrightarrow>
     (case ParseIP entry of
        Some a \<Rightarrow> to16 ip = a
      | None \<Rightarrow> (case (cidr_addr entry, cidr_len entry) of
                    (Some a, Some n) \<Rightarrow> in_cidr a n ip | _ \<Rightarrow> False))"

lemma As16_length: "Addr_ok a \<Longrightarrow> length (As16 a) = 16"
  by (cases a) simp_all

lemma IP_Equal_to16:
  assumes "length a = 16" and "length ip \<in> {4, 16}"
  shows "IP_Equal a ip \<longleftrightarrow> to16 ip = a"
proof -
  have "take 12 a = v4InV6Prefix \<Longrightarrow> v4InV6Prefix @ drop 12 a = a"
    using append_take_drop_id [of 12 a] by simp
  with assms show ?thesis by (auto simp: IP_Equal_def to16_def)
qed

lemma add_trusted_spec:
  assumes "add_trusted entries c = Inr c'" and "length ip \<in> {4, 16}"
  shows "ContainsIP c' ip \<longleftrightarrow> ContainsIP c ip \<or> list_ex (\<lambda>e. trusts e ip) entries"
  using assms(1)
proof (induction entries arbitrary: c)
  case (Cons e entries)
  show ?case
  proof (cases "ParseIP e")
    case (Some a)
    then obtain A where A: "ParseAddr e = Some A" "a = As16 A"
      by (auto simp: ParseIP_def split: option.splits if_splits)
    have "IP_Equal a ip \<longleftrightarrow> trusts e ip"
      using As16_length [OF ParseAddr_ok [OF A(1)]] A(2) assms(2) Some by (simp add: IP_Equal_to16 trusts_def)
    with Cons.IH Cons.prems Some show ?thesis by (auto simp: ContainsIP_def)
  next
    case None
    with Cons.prems obtain net where net: "ParseCIDR e = Some net" by (auto split: option.splits)
    from ParseCIDR_spec [OF net] obtain a n where an: "cidr_addr e = Some a" "cidr_len e = Some n"
      "IPNet_Contains net ip = in_cidr a n ip" using assms(2) by metis
    then have "IPNet_Contains net ip \<longleftrightarrow> trusts e ip" by (simp add: trusts_def None)
    with Cons.IH Cons.prems None net show ?thesis by (auto simp: ContainsIP_def)
  qed
qed simp

lemma NewChecker_spec:
  "NewChecker entries = Inr c \<Longrightarrow> length ip \<in> {4, 16} \<Longrightarrow> ContainsIP c ip = list_ex (\<lambda>e. trusts e ip) entries"
  using add_trusted_spec [of entries "\<lparr>ck_authorizedIPs = [], ck_authorizedIPsNet = []\<rparr>" c ip]
  by (auto simp: NewChecker_def ContainsIP_def split: if_splits)

text \<open>
  C14. A checker made from a list of trusted texts contains exactly the addresses that one of the texts
  stands for, whether they come as 4 or as 16 bytes; and \<^verbatim>\<open>Contains\<close> answers that for every text of an
  address, its zone ignored, and an error for every other text.
\<close>

theorem Checker_correct:
  assumes "NewChecker entries = Inr c"
  shows "(length ip \<in> {4, 16} \<longrightarrow> ContainsIP c ip = list_ex (\<lambda>e. trusts e ip) entries)
    \<and> (case ParseAddr addr of
         Some a \<Rightarrow> Checker_Contains c addr = Inr (list_ex (\<lambda>e. trusts e (As16 a)) entries)
       | None \<Rightarrow> \<exists>err. Checker_Contains c addr = Inl err)"
proof -
  have "ParseAddr [] = None" by (simp add: ParseAddr_def)
  then show ?thesis
    using NewChecker_spec [OF assms] As16_length [OF ParseAddr_ok, of addr]
    by (cases "ParseAddr addr") (auto simp: Checker_Contains_def parseIP_def)
qed

section \<open>Strategies\<close>

definition header_Get :: "header \<Rightarrow> string \<Rightarrow> string" where
  "header_Get h k = (case header_values h k of [] \<Rightarrow> [] | v # _ \<Rightarrow> v)"

definition xForwardedFor :: string where "xForwardedFor = ''X-Forwarded-For''"

definition getIPv6SubnetIP :: "string \<Rightarrow> int \<Rightarrow> string" where
  "getIPv6SubnetIP ip ipv6Subnet =
     (case ParseAddr ip of
        None \<Rightarrow> ip
      | Some addr \<Rightarrow>
          if \<not> Is6 addr then ip
          else case Addr_Prefix ipv6Subnet addr of
                 None \<Rightarrow> ip
               | Some pfx \<Rightarrow> Addr_String pfx)"

definition RemoteAddr_GetIP :: "int option \<Rightarrow> string \<Rightarrow> string" where
  "RemoteAddr_GetIP IPv6Subnet RemoteAddr =
     (case SplitHostPort RemoteAddr of
        Inl err \<Rightarrow> RemoteAddr
      | Inr (ip, port) \<Rightarrow> (case IPv6Subnet of Some n \<Rightarrow> getIPv6SubnetIP ip n | None \<Rightarrow> ip))"

definition Depth_GetIP :: "int \<Rightarrow> int option \<Rightarrow> header \<Rightarrow> string go" where
  "Depth_GetIP Depth IPv6Subnet h =
     (let xffs = split_char (CHR '','') (header_Get h xForwardedFor) in
      if int (length xffs) < Depth then Inr ''''
      else bnd (slice_get xffs (int (length xffs) - Depth)) (\<lambda>x.
             let ip = TrimSpace x in
             Inr (case IPv6Subnet of Some n \<Rightarrow> getIPv6SubnetIP ip n | None \<Rightarrow> ip)))"

fun pool_scan :: "Checker \<Rightarrow> string list \<Rightarrow> string" where
  "pool_scan c [] = ''''"
| "pool_scan c (v # vs) =
     (let xffTrimmed = TrimSpace v in
      if xffTrimmed = [] then pool_scan c vs
      else if \<not> (case Checker_Contains c xffTrimmed of Inl err \<Rightarrow> False | Inr contain \<Rightarrow> contain) then xffTrimmed
      else pool_scan c vs)"

definition Pool_GetIP :: "Checker option \<Rightarrow> header \<Rightarrow> string" where
  "Pool_GetIP checker h =
     (case checker of
        None \<Rightarrow> ''''
      | Some c \<Rightarrow> pool_scan c (rev (split_char (CHR '','') (header_Get h xForwardedFor))))"

section \<open>Properties of the strategies\<close>

lemma subnet_cases:
  "getIPv6SubnetIP ip n = ip
   \<or> (\<exists>b z. ParseAddr ip = Some (V6 b z) \<and> 0 \<le> n \<and> n \<le> 128
       \<and> getIPv6SubnetIP ip n = Addr_String (V6 (and_bytes b (CIDRMask (nat n) 16)) []))"
proof (cases "ParseAddr ip")
  case None
  then show ?thesis by (simp add: getIPv6SubnetIP_def)
next
  case (Some a)
  then show ?thesis by (cases a) (simp_all add: getIPv6SubnetIP_def)
qed

lemma subnet_parses:
  assumes "ParseAddr ip = Some (V6 b z)" and "0 \<le> n" and "n \<le> 128"
  shows "ParseAddr (getIPv6SubnetIP ip n) = Some (V6 (and_bytes b (CIDRMask (nat n) 16)) [])"
proof -
  have "Addr_ok (V6 (and_bytes b (CIDRMask (nat n) 16)) [])"
    using ParseAddr_ok [OF assms(1)] by simp
  from ParseAddr_String [OF this] assms show ?thesis by (simp add: getIPv6SubnetIP_def del: Addr_String.simps)
qed

lemma subnet_idem: "getIPv6SubnetIP (getIPv6SubnetIP ip n) n = getIPv6SubnetIP ip n"
proof -
  consider "getIPv6SubnetIP ip n = ip"
    | b z where "ParseAddr ip = Some (V6 b z)" "0 \<le> n" "n \<le> 128"
        "getIPv6SubnetIP ip n = Addr_String (V6 (and_bytes b (CIDRMask (nat n) 16)) [])"
    using subnet_cases [of ip n] by blast
  then show ?thesis
  proof cases
    case (2 b z)
    let ?m = "and_bytes b (CIDRMask (nat n) 16)"
    from ParseAddr_ok [OF 2(1)] have "and_bytes ?m (CIDRMask (nat n) 16) = ?m" by (intro and_bytes_idem) simp
    with subnet_parses [OF 2(1-3)] 2(2,3) have "getIPv6SubnetIP (getIPv6SubnetIP ip n) n = Addr_String (V6 ?m [])"
      by (simp add: getIPv6SubnetIP_def [of "getIPv6SubnetIP ip n"] del: Addr_String.simps)
    with 2(4) show ?thesis by simp
  qed simp
qed

lemma subnet_same:
  assumes "ParseAddr ip = Some (V6 b z)" and "ParseAddr ip' = Some (V6 b' z')" and "0 \<le> n" and "n \<le> 128"
  shows "getIPv6SubnetIP ip n = getIPv6SubnetIP ip' n \<longleftrightarrow> take (nat n) (bits_of b) = take (nat n) (bits_of b')"
proof -
  have ok: "length b = 16" "length b' = 16"
    using ParseAddr_ok [OF assms(1)] ParseAddr_ok [OF assms(2)] by simp_all
  have "getIPv6SubnetIP ip n = getIPv6SubnetIP ip' n \<longleftrightarrow>
      and_bytes b (CIDRMask (nat n) 16) = and_bytes b' (CIDRMask (nat n) 16)"
  proof
    assume "getIPv6SubnetIP ip n = getIPv6SubnetIP ip' n"
    with subnet_parses [OF assms(1,3,4)] subnet_parses [OF assms(2,3,4)]
    show "and_bytes b (CIDRMask (nat n) 16) = and_bytes b' (CIDRMask (nat n) 16)" by simp
  next
    assume "and_bytes b (CIDRMask (nat n) 16) = and_bytes b' (CIDRMask (nat n) 16)"
    with assms show "getIPv6SubnetIP ip n = getIPv6SubnetIP ip' n"
      by (simp add: getIPv6SubnetIP_def del: Addr_String.simps)
  qed
  with masked_bits [OF ok] show ?thesis by simp
qed

text \<open>
  The subnet of an IPv6 address is printed as an address of that subnet and parses back to the
  masked address without a zone: taking it again changes nothing, and two addresses get the same text
  exactly when their leading bits agree.  Texts that are no IPv6 address are left alone.
\<close>

theorem IPv6Subnet_roundtrip:
  "getIPv6SubnetIP (getIPv6SubnetIP ip n) n = getIPv6SubnetIP ip n
   \<and> (case ParseAddr ip of
        Some (V6 b z) \<Rightarrow>
          n < 0 \<or> n > 128
          \<or> ParseAddr (getIPv6SubnetIP ip n) = Some (V6 (and_bytes b (CIDRMask (nat n) 16)) [])
            \<and> (case ParseAddr ip' of
                 Some (V6 b' z') \<Rightarrow>
                   (getIPv6SubnetIP ip n = getIPv6SubnetIP ip' n) = (take (nat n) (bits_of b) = take (nat n) (bits_of b'))
               | _ \<Rightarrow> True)
      | _ \<Rightarrow> getIPv6SubnetIP ip n = ip)"
proof -
  have idem: "getIPv6SubnetIP (getIPv6SubnetIP ip n) n = getIPv6SubnetIP ip n" by (rule subnet_idem)
  show ?thesis
  proof (cases "ParseAddr ip")
    case None
    with idem show ?thesis by (simp add: getIPv6SubnetIP_def)
  next
    case (Some a)
    show ?thesis
    proof (cases a)
      case (V4 b)
      with Some have "getIPv6SubnetIP ip n = ip" by (simp add: getIPv6SubnetIP_def)
      with idem Some V4 show ?thesis by simp
    next
      case (V6 b z)
      show ?thesis
      proof (cases "0 \<le> n \<and> n \<le> 128")
        case True
        with idem Some V6 subnet_parses [of ip b z n] subnet_same [of ip b z ip' _ _ n] show ?thesis
          by (auto split: option.split Addr.split)
      qed (use idem Some V6 in auto)
    qed
  qed
qed

text \<open>
  The depth strategy answers the trimmed element at that depth from the right, or nothing when
  there are fewer elements, for every header and every depth from 1 on; a depth of 0 or less always
  panics with an index out of range.
\<close>

theorem Depth_GetIP_correct:
  "Depth_GetIP depth None h =
     (let xffs = split_char (CHR '','') (header_Get h ''X-Forwarded-For'') in
      if depth \<le> 0 then Inl IndexOutOfRange
      else if nat depth > length xffs then Inr ''''
      else Inr (TrimSpace (rev xffs ! (nat depth - 1))))"
proof -
  have "slice_get xs (int (length xs) - depth) = Inl IndexOutOfRange" if "depth \<le> 0" for xs :: "string list"
    using that by (simp add: slice_get_def)
  moreover have "slice_get xs (int (length xs) - depth) = Inr (rev xs ! (nat depth - 1))"
    if "0 < depth" "depth \<le> int (length xs)" for xs :: "string list"
  proof -
    from that have "nat (int (length xs) - depth) = length xs - Suc (nat depth - 1)" "nat depth - 1 < length xs" by linarith+
    with that show ?thesis by (simp add: slice_get_def rev_nth)
  qed
  ultimately show ?thesis
    by (auto simp: Depth_GetIP_def xForwardedFor_def Let_def)
qed

text \<open>
  The pool strategy answers the rightmost non-empty element that is not the text of an address of
  the pool, so it trusts a proxy's entry only behind trusted entries; it answers an element that is no
  address as it is.
\<close>

theorem Pool_GetIP_correct:
  assumes "NewChecker entries = Inr c"
  shows "Pool_GetIP (Some c) h =
    (let xffs = map TrimSpace (split_char (CHR '','') (header_Get h ''X-Forwarded-For''));
         trusted = (\<lambda>x. case ParseAddr x of Some a \<Rightarrow> list_ex (\<lambda>e. trusts e (As16 a)) entries | None \<Rightarrow> False)
     in case rev (filter (\<lambda>x. x \<noteq> [] \<and> \<not> trusted x) xffs) of [] \<Rightarrow> '''' | x # xs \<Rightarrow> x)"
proof -
  let ?trusted = "\<lambda>x. case ParseAddr x of Some a \<Rightarrow> list_ex (\<lambda>e. trusts e (As16 a)) entries | None \<Rightarrow> False"
  have cc: "(case Checker_Contains c x of Inl err \<Rightarrow> False | Inr contain \<Rightarrow> contain) = ?trusted x" if "x \<noteq> []" for x
    using that NewChecker_spec [OF assms] As16_length [OF ParseAddr_ok, of x]
    by (auto simp: Checker_Contains_def parseIP_def split: option.splits)
  have scan: "pool_scan c vs = (case filter (\<lambda>x. x \<noteq> [] \<and> \<not> ?trusted x) (map TrimSpace vs) of [] \<Rightarrow> '''' | x # xs \<Rightarrow> x)" for vs
    by (induction vs) (simp_all add: Let_def cc split: list.split)
  show ?thesis
    by (simp only: Pool_GetIP_def xForwardedFor_def Let_def scan option.simps rev_map rev_filter)
qed


section \<open>A checker of one network\<close>

definition wit_checker :: Checker where
  "wit_checker = \<lparr>ck_authorizedIPs = [], ck_authorizedIPsNet = [\<lparr>net_IP = [10, 0, 0, 0], net_Mask = [255, 0, 0, 0]\<rparr>]\<rparr>"

lemma wit_checker_new: "NewChecker [''10.0.0.0/8''] = Inr wit_checker"
  by code_simp

lemma Checker_correct_witness:
  "Checker_Contains wit_checker ''10.1.2.3'' = Inr (list_ex (\<lambda>e. trusts e (As16 (V4 [10, 1, 2, 3]))) [''10.0.0.0/8''])"
proof -
  have "ParseAddr ''10.1.2.3'' = Some (V4 [10, 1, 2, 3])" by code_simp
  with Checker_correct [OF wit_checker_new, of "[]" "''10.1.2.3''"] show ?thesis by (simp only: option.simps Addr.simps)
qed

definition wit_header :: header where
  "wit_header = [''X-Forwarded-For'' \<mapsto> Some [''1.2.3.4, 10.1.2.3'']]"

lemma Pool_GetIP_correct_witness: "\<exists>x xs. rev (filter (\<lambda>x. x \<noteq> [] \<and>
    \<not> (case ParseAddr x of Some a \<Rightarrow> list_ex (\<lambda>e. trusts e (As16 a)) [''10.0.0.0/8''] | None \<Rightarrow> False))
      (map TrimSpace (split_char (CHR '','') (header_Get wit_header ''X-Forwarded-For'')))) = x # xs \<and> x = ''1.2.3.4''"
proof -
  have "Pool_GetIP (Some wit_checker) wit_header = ''1.2.3.4''" by code_simp
  with Pool_GetIP_correct [OF wit_checker_new, of wit_header] show ?thesis
    unfolding Let_def by (auto simp del: filter.simps map_map split: list.splits)
qed

end
