(* ===== verification/TcpListen.thy ===== *)
theory TcpListen
  imports IpStrategy
begin

text \<open>
  The entry points of \<^verbatim>\<open>net/tcp\<close>: the configuration types, domains and their matching, the address and
  protocol of an entry point, and the listeners it builds, with the policy that decides whose PROXY
  header is used.  What the operating system answers is an argument; durations are nanoseconds.
\<close>

section \<open>Domains\<close>

record Domain =
  dn_Main :: string
  dn_SANs :: "string list"

definition Domain_ToStrArray :: "Domain \<Rightarrow> string list" where
  "Domain_ToStrArray d = (if length (dn_Main d) > 0 then [dn_Main d] else []) @ dn_SANs d"

definition Domain_Set :: "string list \<Rightarrow> Domain \<Rightarrow> Domain" where
  "Domain_Set domains d =
     (case domains of [] \<Rightarrow> d | main # sans \<Rightarrow> d\<lparr>dn_Main := main, dn_SANs := sans\<rparr>)"

text \<open>\<^verbatim>\<open>certDomain\<close> without its trailing dots.\<close>

definition trim_dots :: "string \<Rightarrow> string" where
  "trim_dots s = rev (dropWhile (\<lambda>c. c = CHR ''.'') (rev s))"

text \<open>The loop overwrites the labels from the left; \<open>don\<close> are those it has overwritten.\<close>

fun match_labels :: "string \<Rightarrow> string list \<Rightarrow> string list \<Rightarrow> bool" where
  "match_labels certDomain don [] = False"
| "match_labels certDomain don (l # labels) =
     (certDomain = join_with ''.'' (don @ ''*'' # labels) \<or> match_labels certDomain (don @ [''*'']) labels)"

definition MatchDomain :: "string \<Rightarrow> string \<Rightarrow> bool" where
  "MatchDomain domain certDomain \<longleftrightarrow>
     domain = certDomain \<or> match_labels (trim_dots certDomain) [] (split_char (CHR ''.'') domain)"

definition CanonicalDomain :: "(string \<Rightarrow> string) \<Rightarrow> string \<Rightarrow> string" where
  "CanonicalDomain toLower domain = toLower (TrimSpace domain)"

lemma match_labels_iff:
  "match_labels c don ls \<longleftrightarrow> (\<exists>k. 1 \<le> k \<and> k \<le> length ls \<and> c = join_with ''.'' (don @ replicate k ''*'' @ drop k ls))"
proof (induction ls arbitrary: don)
  case (Cons l ls)
  have "(\<exists>k. 1 \<le> k \<and> k \<le> length (l # ls) \<and> c = join_with ''.'' (don @ replicate k ''*'' @ drop k (l # ls)))
      \<longleftrightarrow> (\<exists>k \<le> length ls. c = join_with ''.'' ((don @ [''*'']) @ replicate k ''*'' @ drop k ls))" (is "?L \<longleftrightarrow> ?R")
  proof
    assume ?L
    then obtain k where k: "1 \<le> k" "k \<le> length (l # ls)" "c = join_with ''.'' (don @ replicate k ''*'' @ drop k (l # ls))" by blast
    then obtain j where "k = Suc j" by (cases k) auto
    with k show ?R by (intro exI [of _ j]) simp
  next
    assume ?R
    then obtain k where "k \<le> length ls" "c = join_with ''.'' ((don @ [''*'']) @ replicate k ''*'' @ drop k ls)" by blast
    then show ?L by (intro exI [of _ "Suc k"]) simp
  qed
  also have "\<dots> \<longleftrightarrow> c = join_with ''.'' (don @ ''*'' # ls)
      \<or> (\<exists>k. 1 \<le> k \<and> k \<le> length ls \<and> c = join_with ''.'' ((don @ [''*'']) @ replicate k ''*'' @ drop k ls))" (is "?R \<longleftrightarrow> ?S")
  proof
    assume ?R
    then obtain k where k: "k \<le> length ls" "c = join_with ''.'' ((don @ [''*'']) @ replicate k ''*'' @ drop k ls)" by blast
    show ?S
    proof (cases k)
      case 0
      with k show ?thesis by simp
    next
      case (Suc j)
      with k show ?thesis by (intro disjI2 exI [of _ k]) simp
    qed
  next
    assume ?S
    then show ?R by (auto intro: exI [of _ "0 :: nat"])
  qed
  finally show ?case using Cons.IH [of "don @ [''*'']"] by simp
qed simp

lemma split_no_sep: "w \<in> set (split_char c s) \<Longrightarrow> c \<notin> set w"
proof (induction s arbitrary: w)
  case (Cons d s)
  then show ?case by (cases "split_char c s") (auto split: if_splits)
qed simp

lemma join_eq_iff_split:
  "ls \<noteq> [] \<Longrightarrow> \<forall>l\<in>set ls. c \<notin> set l \<Longrightarrow> s = join_with [c] ls \<longleftrightarrow> split_char c s = ls"
  using split_join [of ls c] join_split [of c s] by auto

lemma MatchDomain_labels:
  "MatchDomain domain certDomain \<longleftrightarrow>
     domain = certDomain
     \<or> (let labels = split_char (CHR ''.'') domain in
        \<exists>k. 1 \<le> k \<and> k \<le> length labels \<and> split_char (CHR ''.'') (trim_dots certDomain) = replicate k ''*'' @ drop k labels)"
proof -
  let ?l = "split_char (CHR ''.'') domain"
  have "trim_dots certDomain = join_with ''.'' (replicate k ''*'' @ drop k ?l)
      \<longleftrightarrow> split_char (CHR ''.'') (trim_dots certDomain) = replicate k ''*'' @ drop k ?l" if "1 \<le> k" for k
    using that split_no_sep [of _ "CHR ''.''" domain] by (intro join_eq_iff_split) (auto dest: in_set_dropD)
  then show ?thesis unfolding MatchDomain_def match_labels_iff Let_def by auto
qed

text \<open>
  A certificate's domain matches when it is the domain itself, or when, without trailing dots, it
  has as many labels, the first one or several of them are stars and the others are those of the
  domain.
\<close>

theorem MatchDomain_by_labels:
  "MatchDomain domain certDomain \<longleftrightarrow>
     domain = certDomain
     \<or> (let labels = split_char (CHR ''.'') domain in
        \<exists>k. 1 \<le> k \<and> k \<le> length labels \<and> split_char (CHR ''.'') (trim_dots certDomain) = replicate k ''*'' @ drop k labels)"
  by (rule MatchDomain_labels)

lemma Domain_roundtrip:
  "dn_Main d \<noteq> [] \<Longrightarrow> Domain_Set (Domain_ToStrArray d) d' = d"
  "ds \<noteq> [] \<Longrightarrow> hd ds \<noteq> [] \<Longrightarrow> Domain_ToStrArray (Domain_Set ds d') = ds"
  by (simp add: Domain_Set_def Domain_ToStrArray_def) (cases ds, simp_all add: Domain_Set_def Domain_ToStrArray_def)

section \<open>Configuration\<close>

record ProxyProtocol =
  pp_Insecure :: bool
  pp_TrustedIPs :: "string list"

record LifeCycle =
  lc_RequestAcceptGraceTimeout :: int
  lc_GraceTimeOut :: int

record RespondingTimeouts =
  rt_ReadTimeout :: int
  rt_WriteTimeout :: int
  rt_IdleTimeout :: int

record EntryPointsTransport =
  et_LifeCycle :: "LifeCycle option"
  et_RespondingTimeouts :: "RespondingTimeouts option"
  et_KeepAliveMaxTime :: int
  et_KeepAliveMaxRequests :: int

record ForwardedHeaders =
  fh_Insecure :: bool
  fh_TrustedIPs :: "string list"
  fh_Connection :: "string list"
  fh_NotAppendXForwardedFor :: bool
  fh_AddXForwardedSchemeHeaders :: bool

record RedirectEntryPoint =
  re_To :: string
  re_Scheme :: string
  re_Permanent :: bool
  re_Priority :: int

record Redirections =
  rd_EntryPoint :: "RedirectEntryPoint option"

record TLSConfig =
  tg_Options :: string
  tg_CertResolver :: string
  tg_Domains :: "Domain list"

record EncodedCharacters =
  ec_AllowEncodedSlash :: bool
  ec_AllowEncodedBackSlash :: bool
  ec_AllowEncodedNullCharacter :: bool
  ec_AllowEncodedSemicolon :: bool
  ec_AllowEncodedPercent :: bool
  ec_AllowEncodedQuestionMark :: bool
  ec_AllowEncodedHash :: bool

record HTTPConfig =
  hc_Redirections :: "Redirections option"
  hc_Middlewares :: "string list"
  hc_TLS :: "TLSConfig option"
  hc_EncodedCharacters :: "EncodedCharacters option"
  hc_EncodeQuerySemicolons :: bool
  hc_SanitizePath :: "bool option"
  hc_MaxHeaderBytes :: int
  hc_UnderscoreHeadersStrategy :: string

record HTTP2Config =
  h2_MaxConcurrentStreams :: "32 word"
  h2_MaxDecoderHeaderTableSize :: "32 word"
  h2_MaxEncoderHeaderTableSize :: "32 word"

record HTTP3Config =
  h3_AdvertisedPort :: int

record UDPConfig =
  uc_Timeout :: int

record EntryPoint =
  ep_Address :: string
  ep_AllowACMEByPass :: bool
  ep_ReusePort :: bool
  ep_AsDefault :: bool
  ep_Transport :: "EntryPointsTransport option"
  ep_ProxyProtocol :: "ProxyProtocol option"
  ep_ForwardedHeaders :: "ForwardedHeaders option"
  ep_HTTP :: HTTPConfig
  ep_HTTP2 :: "HTTP2Config option"
  ep_HTTP3 :: "HTTP3Config option"
  ep_UDP :: "UDPConfig option"

text \<open>\<^verbatim>\<open>strings.SplitN(s, "/", 2)\<close>.\<close>

definition split_address :: "string \<Rightarrow> string list" where
  "split_address s =
     (case dropWhile (\<lambda>c. c \<noteq> slash) s of
        [] \<Rightarrow> [s] | c # rest \<Rightarrow> [takeWhile (\<lambda>c. c \<noteq> slash) s, rest])"

definition GetAddress :: "EntryPoint \<Rightarrow> string go" where
  "GetAddress ep = slice_get (split_address (ep_Address ep)) 0"

text \<open>Lower case of ASCII letters is enough: no other character has one of the compared letters as its lower case.\<close>

definition GetProtocol :: "EntryPoint \<Rightarrow> (string + string) go" where
  "GetProtocol ep =
     (let splitN = split_address (ep_Address ep) in
      if length splitN < 2 then Inr (Inr ''tcp'')
      else bnd (slice_get splitN 1) (\<lambda>p.
             let protocol = map lower_ascii p in
             Inr (if protocol = ''tcp'' \<or> protocol = ''udp'' then Inr protocol else Inl (''invalid protocol: '' @ p))))"

lemma GetAddress_total: "GetAddress ep = Inr (takeWhile (\<lambda>c. c \<noteq> slash) (ep_Address ep))"
proof (cases "dropWhile (\<lambda>c. c \<noteq> slash) (ep_Address ep)")
  case Nil
  then have "takeWhile (\<lambda>c. c \<noteq> slash) (ep_Address ep) = ep_Address ep"
    by (simp add: takeWhile_eq_all_conv)
  moreover from Nil have "GetAddress ep = Inr (ep_Address ep)"
    by (simp add: GetAddress_def split_address_def slice_get_def del: dropWhile_eq_Nil_conv)
  ultimately show ?thesis by (simp only:)
qed (simp add: GetAddress_def split_address_def slice_get_def)

lemma GetProtocol_total:
  "\<exists>r. GetProtocol ep = Inr r \<and> (case r of Inr p \<Rightarrow> p = ''tcp'' \<or> p = ''udp'' | Inl e \<Rightarrow> slash \<in> set (ep_Address ep))"
proof (cases "dropWhile (\<lambda>c. c \<noteq> slash) (ep_Address ep)")
  case Nil
  then show ?thesis by (simp add: GetProtocol_def split_address_def del: dropWhile_eq_Nil_conv)
next
  case (Cons c rest)
  then have "slash \<in> set (ep_Address ep)" using hd_dropWhile [of "\<lambda>c. c \<noteq> slash" "ep_Address ep"]
      set_dropWhileD [of c "\<lambda>c. c \<noteq> slash" "ep_Address ep"] by auto
  with Cons show ?thesis by (auto simp: GetProtocol_def split_address_def slice_get_def Let_def)
qed

section \<open>Listeners\<close>

datatype policy = REJECT | IGNORE | USE

text \<open>The listener under the PROXY protocol; without a checker every header is used.\<close>

record proxy_listener =
  pl_ReadHeaderTimeout :: int
  pl_Policy :: "Checker option"

text \<open>The address of the peer is that of a TCP connection, or of another kind.\<close>

definition run_policy :: "proxy_listener \<Rightarrow> 8 word list option \<Rightarrow> policy" where
  "run_policy pl upstream =
     (case pl_Policy pl of
        None \<Rightarrow> USE
      | Some checker \<Rightarrow>
          (case upstream of
             None \<Rightarrow> REJECT
           | Some ip \<Rightarrow> if \<not> ContainsIP checker ip then IGNORE else USE))"

definition buildProxyProtocolListener :: "EntryPoint \<Rightarrow> (string + proxy_listener) go" where
  "buildProxyProtocolListener ep =
     (case ep_Transport ep of
        None \<Rightarrow> Inl NilDereference
      | Some tr \<Rightarrow>
     (case et_RespondingTimeouts tr of
        None \<Rightarrow> Inl NilDereference
      | Some rt \<Rightarrow>
          let timeout = (if rt_ReadTimeout rt = 0 then -1 else rt_ReadTimeout rt) in
          case ep_ProxyProtocol ep of
            None \<Rightarrow> Inl NilDereference
          | Some pp \<Rightarrow>
              if pp_Insecure pp then Inr (Inr \<lparr>pl_ReadHeaderTimeout = timeout, pl_Policy = None\<rparr>)
              else Inr (case NewChecker (pp_TrustedIPs pp) of
                          Inl err \<Rightarrow> Inl err
                        | Inr checker \<Rightarrow> Inr \<lparr>pl_ReadHeaderTimeout = timeout, pl_Policy = Some checker\<rparr>)))"

record listen_config =
  lc_reusePort :: bool
  lc_multipathTCP_off :: bool

definition newListenConfig :: "EntryPoint option \<Rightarrow> listen_config" where
  "newListenConfig configuration =
     \<lparr>lc_reusePort = (case configuration of None \<Rightarrow> False | Some c \<Rightarrow> ep_ReusePort c), lc_multipathTCP_off = False\<rparr>"

text \<open>\<^verbatim>\<open>controlReusePort\<close>: the error of the control call, or that of the socket option.\<close>

definition controlReusePort :: "string option \<Rightarrow> string option \<Rightarrow> string option" where
  "controlReusePort control_err setsockopt_err =
     (case control_err of
        Some e \<Rightarrow> Some (''control: '' @ e)
      | None \<Rightarrow> map_option (\<lambda>e. ''setsockopt: '' @ e) setsockopt_err)"

text \<open>\<^verbatim>\<open>Accept\<close> of the keep-alive listener; the last error tells whether it is \<^verbatim>\<open>ENOPROTOOPT\<close>.\<close>

definition keepAlive_Accept :: "string + 'conn \<Rightarrow> string option \<Rightarrow> (string \<times> bool) option \<Rightarrow> string + 'conn" where
  "keepAlive_Accept accepted set_err period_err =
     (case accepted of
        Inl e \<Rightarrow> Inl e
      | Inr tc \<Rightarrow>
          (case set_err of
             Some e \<Rightarrow> Inl e
           | None \<Rightarrow>
               (case period_err of
                  Some (e, noprotoopt) \<Rightarrow> if \<not> noprotoopt then Inl e else Inr tc
                | None \<Rightarrow> Inr tc)))"

text \<open>A listener that is closed once; \<open>oc_closes\<close> counts the calls of the listener's \<^verbatim>\<open>Close\<close>.\<close>

record onceCloseListener =
  oc_done :: bool
  oc_closeErr :: "string option"
  oc_closes :: nat

definition onceClose_Close :: "string option \<Rightarrow> onceCloseListener \<Rightarrow> string option \<times> onceCloseListener" where
  "onceClose_Close answer oc =
     (let oc1 = (if oc_done oc then oc else oc\<lparr>oc_done := True, oc_closeErr := answer, oc_closes := oc_closes oc + 1\<rparr>)
      in (oc_closeErr oc1, oc1))"

fun onceClose_run :: "string option list \<Rightarrow> onceCloseListener \<Rightarrow> string option list \<times> onceCloseListener" where
  "onceClose_run [] oc = ([], oc)"
| "onceClose_run (a # as) oc =
     (case onceClose_Close a oc of (r, oc1) \<Rightarrow> case onceClose_run as oc1 of (rs, oc2) \<Rightarrow> (r # rs, oc2))"

lemma onceClose_done: "oc_done oc \<Longrightarrow> onceClose_run as oc = (replicate (length as) (oc_closeErr oc), oc)"
  by (induction as) (simp_all add: onceClose_Close_def)

lemma onceClose_once:
  "onceClose_run (a # as) \<lparr>oc_done = False, oc_closeErr = None, oc_closes = 0\<rparr>
     = (replicate (Suc (length as)) a, \<lparr>oc_done = True, oc_closeErr = a, oc_closes = 1\<rparr>)"
  by (simp add: onceClose_Close_def onceClose_done)

text \<open>The listener of an entry point: the configuration it listens with and its layers.\<close>

record built_listener =
  bl_config :: listen_config
  bl_address :: string
  bl_proxy :: "proxy_listener option"

definition buildListener :: "bool \<Rightarrow> (string \<Rightarrow> string option) \<Rightarrow> EntryPoint \<Rightarrow> (string + built_listener) go" where
  "buildListener multipath listen_err config =
     (let lc = (newListenConfig (Some config))\<lparr>lc_multipathTCP_off := \<not> multipath\<rparr> in
      bnd (GetAddress config) (\<lambda>address.
        case listen_err address of
          Some err \<Rightarrow> Inr (Inl (''failed to listen on '' @ address @ '': '' @ err))
        | None \<Rightarrow>
            if ep_ProxyProtocol config \<noteq> None
            then bnd (buildProxyProtocolListener config) (\<lambda>r.
                   Inr (case r of
                          Inl err \<Rightarrow> Inl (''error creating proxy protocol listener: '' @ err)
                        | Inr pl \<Rightarrow> Inr \<lparr>bl_config = lc, bl_address = address, bl_proxy = Some pl\<rparr>))
            else Inr (Inr \<lparr>bl_config = lc, bl_address = address, bl_proxy = None\<rparr>)))"

text \<open>
  When a listener for the PROXY protocol is built, a peer's header is used exactly when the
  configuration trusts all or one of its trusted texts stands for the peer's address; the headers of
  other TCP peers are ignored and peers of another kind are rejected.  The read time-out 0 becomes no
  time-out.
\<close>

theorem listener_policy:
  assumes "buildListener multipath listen_err ep = Inr (Inr bl)" and "ep_ProxyProtocol ep = Some pp"
  shows "\<exists>pl tr rt. bl_proxy bl = Some pl \<and> ep_Transport ep = Some tr \<and> et_RespondingTimeouts tr = Some rt
    \<and> pl_ReadHeaderTimeout pl = (if rt_ReadTimeout rt = 0 then -1 else rt_ReadTimeout rt)
    \<and> run_policy pl None = (if pp_Insecure pp then USE else REJECT)
    \<and> (\<forall>ip. length ip \<in> {4, 16} \<longrightarrow>
         run_policy pl (Some ip) =
           (if pp_Insecure pp \<or> list_ex (\<lambda>e. trusts e ip) (pp_TrustedIPs pp) then USE else IGNORE))"
proof -
  from assms obtain r where r: "buildProxyProtocolListener ep = Inr r"
    by (cases "buildProxyProtocolListener ep") (auto simp: buildListener_def GetAddress_total Let_def split: option.splits)
  with assms obtain pl where pl: "buildProxyProtocolListener ep = Inr (Inr pl)" "bl_proxy bl = Some pl"
    by (cases r) (auto simp: buildListener_def GetAddress_total Let_def split: option.splits)
  then obtain tr rt where tr: "ep_Transport ep = Some tr" "et_RespondingTimeouts tr = Some rt"
    by (auto simp: buildProxyProtocolListener_def split: option.splits)
  show ?thesis
  proof (cases "pp_Insecure pp")
    case True
    with pl tr assms(2) show ?thesis
      by (auto simp: buildProxyProtocolListener_def run_policy_def Let_def)
  next
    case False
    with pl tr assms(2) obtain c where c: "NewChecker (pp_TrustedIPs pp) = Inr c" "pl_Policy pl = Some c"
      "pl_ReadHeaderTimeout pl = (if rt_ReadTimeout rt = 0 then -1 else rt_ReadTimeout rt)"
      by (auto simp: buildProxyProtocolListener_def Let_def split: sum.splits)
    from NewChecker_spec [OF c(1)] have "length ip \<in> {4, 16} \<Longrightarrow>
        ContainsIP c ip = list_ex (\<lambda>e. trusts e ip) (pp_TrustedIPs pp)" for ip .
    with False pl tr c show ?thesis by (auto simp: run_policy_def)
  qed
qed

text \<open>
  An entry point with the PROXY protocol and without a transport section, or without its time-outs,
  panics when its listener is built, when the socket already listens.
\<close>

theorem listener_needs_timeouts:
  assumes "ep_ProxyProtocol ep \<noteq> None" and "listen_err (takeWhile (\<lambda>c. c \<noteq> slash) (ep_Address ep)) = None"
    and "\<forall>tr. ep_Transport ep = Some tr \<longrightarrow> et_RespondingTimeouts tr = None"
  shows "buildListener multipath listen_err ep = Inl NilDereference"
  using assms
  by (auto simp: buildListener_def GetAddress_total buildProxyProtocolListener_def Let_def split: option.splits)

section \<open>An entry point that trusts one network\<close>

definition wit_ep :: EntryPoint where
  "wit_ep = \<lparr>ep_Address = '':80'', ep_AllowACMEByPass = False, ep_ReusePort = False, ep_AsDefault = True,
     ep_Transport = Some \<lparr>et_LifeCycle = None, et_RespondingTimeouts =
       Some \<lparr>rt_ReadTimeout = 0, rt_WriteTimeout = 0, rt_IdleTimeout = 0\<rparr>, et_KeepAliveMaxTime = 0, et_KeepAliveMaxRequests = 0\<rparr>,
     ep_ProxyProtocol = Some \<lparr>pp_Insecure = False, pp_TrustedIPs = [''10.0.0.0/8'']\<rparr>, ep_ForwardedHeaders = None,
     ep_HTTP = \<lparr>hc_Redirections = None, hc_Middlewares = [], hc_TLS = None, hc_EncodedCharacters = None,
       hc_EncodeQuerySemicolons = False, hc_SanitizePath = None, hc_MaxHeaderBytes = 0, hc_UnderscoreHeadersStrategy = []\<rparr>,
     ep_HTTP2 = None, ep_HTTP3 = None, ep_UDP = None\<rparr>"

lemma listener_policy_witness:
  "\<exists>bl pl. buildListener False (\<lambda>_. None) wit_ep = Inr (Inr bl) \<and> bl_proxy bl = Some pl
     \<and> pl_ReadHeaderTimeout pl = -1 \<and> run_policy pl None = REJECT"
proof -
  obtain bl where bl: "buildListener False (\<lambda>_. None) wit_ep = Inr (Inr bl)"
    by (simp add: buildListener_def GetAddress_total buildProxyProtocolListener_def wit_ep_def wit_checker_new)
  from listener_policy [OF bl, of "\<lparr>pp_Insecure = False, pp_TrustedIPs = [''10.0.0.0/8'']\<rparr>"]
  show ?thesis using bl by (auto simp: wit_ep_def)
qed

lemma listener_needs_timeouts_witness:
  "buildListener False (\<lambda>_. None) (wit_ep\<lparr>ep_Transport := None\<rparr>) = Inl NilDereference"
  by (rule listener_needs_timeouts) (simp_all add: wit_ep_def)

end
