(* ===== verification/DurationText.thy ===== *)
theory DurationText
  imports NetAddr
begin

text \<open>
  The configuration type \<^verbatim>\<open>Duration\<close> of \<^verbatim>\<open>net/proxy/types\<close> and \<^verbatim>\<open>net/tcp\<close>, which are the same code:
  setting it from a text and printing it.  What it uses of \<^verbatim>\<open>time\<close> and \<^verbatim>\<open>strconv\<close> is modelled, with the
  rounding of \<^verbatim>\<open>float64\<close> that \<^verbatim>\<open>ParseDuration\<close> does for fractions.  A duration is an integer of 64 bits.
\<close>

section \<open>Integers of 64 bits\<close>

definition int64 :: "int \<Rightarrow> int" where
  "int64 n = sint (word_of_int n :: 64 word)"

definition max63 :: nat where "max63 = 9223372036854775808"

lemma int64_id: "- (2 ^ 63) \<le> n \<Longrightarrow> n < 2 ^ 63 \<Longrightarrow> int64 n = n"
  using signed_take_bit_int_eq_self [of 63 n]
  by (simp add: int64_def sint_uint unsigned_of_int signed_take_bit_take_bit)

text \<open>\<^verbatim>\<open>strconv.ParseInt(s, 10, 64)\<close>; \<open>None\<close> for a syntax or a range error.\<close>

definition ParseInt :: "string \<Rightarrow> int option" where
  "ParseInt s =
     (let neg = (s \<noteq> [] \<and> hd s = CHR ''-'');
          ds = (if s \<noteq> [] \<and> (hd s = CHR ''-'' \<or> hd s = CHR ''+'') then tl s else s);
          n = read_base 10 (map digit_val ds)
      in if ds = [] \<or> \<not> list_all is_digit ds then None
         else if neg then (if n \<le> max63 then Some (- int n) else None)
         else if n < max63 then Some (int n) else None)"

section \<open>Printing\<close>

fun fmtFrac :: "nat \<Rightarrow> bool \<Rightarrow> nat \<Rightarrow> string \<Rightarrow> string \<times> nat" where
  "fmtFrac 0 pr v w = (if pr then CHR ''.'' # w else w, v)"
| "fmtFrac (Suc prec) pr v w =
     (let digit = v mod 10; pr' = (pr \<or> digit \<noteq> 0) in
      fmtFrac prec pr' (v div 10) (if pr' then digit_of digit # w else w))"

definition fmt_small :: "nat \<Rightarrow> string \<Rightarrow> nat \<Rightarrow> string" where
  "fmt_small prec u v = (case fmtFrac prec False v [] of (frac, n) \<Rightarrow> decimal n @ frac @ u)"

definition micro :: string where "micro = [CHR 0xC2, CHR 0xB5, CHR ''s'']"

definition format_duration :: "nat \<Rightarrow> string" where
  "format_duration u =
     (if u < 1000000000 then
        (if u = 0 then ''0s''
         else if u < 1000 then fmt_small 0 ''ns'' u
         else if u < 1000000 then fmt_small 3 micro u
         else fmt_small 6 ''ms'' u)
      else (case fmtFrac 9 False u [] of (frac, secs) \<Rightarrow>
        let mins = secs div 60; hours = mins div 60 in
        (if mins > 0 then (if hours > 0 then decimal hours @ ''h'' else []) @ decimal (mins mod 60) @ ''m'' else [])
        @ decimal (secs mod 60) @ frac @ ''s''))"

definition time_String :: "int \<Rightarrow> string" where
  "time_String d = (if d < 0 then CHR ''-'' # format_duration (nat (- d)) else format_duration (nat d))"

section \<open>Floating-point rounding\<close>

text \<open>
  The \<^verbatim>\<open>float64\<close> nearest to a positive quotient, ties to even, as a numerator over \<open>2 ^ 200\<close>; all
  values that occur are far from the ends of the range of the format.
\<close>

fun bit_length :: "nat \<Rightarrow> nat" where
  "bit_length n = (if n = 0 then 0 else Suc (bit_length (n div 2)))"

declare bit_length.simps [simp del]

definition round_even :: "nat \<Rightarrow> nat \<Rightarrow> nat" where
  "round_even n d =
     (let q = n div d; r = n mod d in
      if 2 * r > d \<or> (2 * r = d \<and> odd q) then q + 1 else q)"

definition float_prec :: nat where "float_prec = 200"

definition float64 :: "nat \<Rightarrow> nat \<Rightarrow> nat" where
  "float64 n d =
     (let shift = bit_length (n * 2 ^ float_prec div d) - 53
      in round_even (n * 2 ^ float_prec) (d * 2 ^ shift) * 2 ^ shift)"

definition float_unit :: nat where "float_unit = 2 ^ float_prec"

text \<open>\<^verbatim>\<open>uint64(float64(f) * (float64(unit) / scale))\<close>.\<close>

definition frac_ns :: "nat \<Rightarrow> nat \<Rightarrow> nat \<Rightarrow> nat" where
  "frac_ns f unit scale =
     (let ff = float64 f 1; q = float64 unit scale in
      float64 (ff * q) (float_unit * float_unit) div float_unit)"

lemma bit_length_bound: "0 < n \<Longrightarrow> 2 ^ (bit_length n - 1) \<le> n \<and> n < 2 ^ bit_length n \<and> 0 < bit_length n"
proof (induction n rule: bit_length.induct)
  case (1 n)
  show ?case
  proof (cases "n div 2 = 0")
    case True
    with "1.prems" have "n = 1" by auto
    then show ?thesis by (simp add: bit_length.simps)
  next
    case False
    then obtain k where k: "bit_length (n div 2) = Suc k" using "1.IH" "1.prems" by (cases "bit_length (n div 2)") auto
    have "bit_length n = Suc (Suc k)" using "1.prems" k by (subst bit_length.simps) simp
    with "1.IH" "1.prems" False k show ?thesis by auto
  qed
qed

lemma bit_length_mult: "0 < k \<Longrightarrow> bit_length (k * 2 ^ m) = bit_length k + m"
proof (induction m)
  case (Suc m)
  have "bit_length (k * 2 ^ Suc m) = Suc (bit_length (k * 2 ^ m))"
    using Suc.prems by (subst bit_length.simps) simp
  with Suc show ?case by simp
qed simp

lemma round_even_mult: "0 < c \<Longrightarrow> round_even (a * c) c = a"
  by (simp add: round_even_def Let_def)

lemma float64_exact:
  assumes "0 < k" and "k < 2 ^ 53" and "0 < d"
  shows "float64 (k * d) d = k * float_unit"
proof -
  let ?b = "bit_length k"
  have b: "0 < ?b" "?b \<le> 53"
  proof -
    from bit_length_bound [OF assms(1)] have "2 ^ (?b - 1) \<le> k" "0 < ?b" by blast+
    from le_less_trans [OF this(1) assms(2)] have "(2 :: nat) ^ (?b - 1) < 2 ^ 53" .
    then have "?b - 1 < 53" by (rule power_less_imp_less_exp [rotated]) simp
    then show "0 < ?b" "?b \<le> 53" using \<open>0 < ?b\<close> by linarith+
  qed
  define s where "s = ?b + float_prec - 53"
  define t where "t = float_prec - s"
  have s: "float_prec = t + s" using b by (simp add: s_def t_def float_prec_def)
  have q: "k * d * 2 ^ float_prec div d = k * 2 ^ float_prec" using assms(3) by simp
  have len: "bit_length (k * d * 2 ^ float_prec div d) - 53 = s"
    unfolding q bit_length_mult [OF assms(1)] s_def ..
  have pow: "(2 :: nat) ^ float_prec = 2 ^ t * 2 ^ s" unfolding s by (rule power_add)
  have eq: "k * d * 2 ^ float_prec = (k * 2 ^ t) * (d * 2 ^ s)" unfolding pow by (simp only: mult_ac)
  have "round_even (k * d * 2 ^ float_prec) (d * 2 ^ s) = k * 2 ^ t"
    unfolding eq by (rule round_even_mult) (use assms(3) in simp)
  then have "float64 (k * d) d = k * 2 ^ t * 2 ^ s" unfolding float64_def Let_def len by (simp only:)
  also have "\<dots> = k * float_unit" unfolding float_unit_def pow by (simp only: mult_ac)
  finally show ?thesis .
qed

lemma float_unit_pos: "0 < float_unit" by (simp add: float_unit_def)

lemma frac_ns_exact:
  assumes "0 < f" and "0 < m" and "0 < scale" and "f * m < 2 ^ 53"
  shows "frac_ns f (m * scale) scale = f * m"
proof -
  have le: "f \<le> f * m" "m \<le> f * m" using assms(1,2) by simp_all
  then have fm: "f < 2 ^ 53" "m < 2 ^ 53" using assms(4) by linarith+
  have 1: "float64 f 1 = f * float_unit" using float64_exact [OF assms(1) fm(1), of 1] by simp
  have 2: "float64 (m * scale) scale = m * float_unit" by (rule float64_exact [OF assms(2) fm(2) assms(3)])
  have 3: "f * float_unit * (m * float_unit) = f * m * (float_unit * float_unit)" by (simp only: mult_ac)
  have 4: "float64 (f * m * (float_unit * float_unit)) (float_unit * float_unit) = f * m * float_unit"
    by (rule float64_exact) (use assms float_unit_pos in auto)
  show ?thesis unfolding frac_ns_def Let_def 1 2 3 4 using float_unit_pos by simp
qed


section \<open>\<^verbatim>\<open>ParseDuration\<close>\<close>

definition nat_val :: "string \<Rightarrow> nat" where "nat_val s = read_base 10 (map digit_val s)"

definition fraction_digit :: "nat \<times> nat \<times> bool \<Rightarrow> char \<Rightarrow> nat \<times> nat \<times> bool" where
  "fraction_digit = (\<lambda>(x, scale, overflow) c.
     if overflow \<or> x > (max63 - 1) div 10 then (x, scale, True)
     else let y = x * 10 + digit_val c in if y > max63 then (x, scale, True) else (y, scale * 10, False))"

definition leadingFraction :: "string \<Rightarrow> nat \<times> nat" where
  "leadingFraction ds = (case foldl fraction_digit (0, 1, False) ds of (x, scale, _) \<Rightarrow> (x, scale))"

definition unit_char :: "char \<Rightarrow> bool" where "unit_char c \<longleftrightarrow> c \<noteq> CHR ''.'' \<and> \<not> is_digit c"

definition unitMap :: "string \<Rightarrow> nat option" where
  "unitMap = [''ns'' \<mapsto> 1, micro \<mapsto> 1000, [CHR 0xCE, CHR 0xBC, CHR ''s''] \<mapsto> 1000, ''us'' \<mapsto> 1000,
     ''ms'' \<mapsto> 1000000, ''s'' \<mapsto> 1000000000, ''m'' \<mapsto> 60000000000, ''h'' \<mapsto> 3600000000000]"

definition fraction_part :: "string \<Rightarrow> string \<times> string" where
  "fraction_part s =
     (if s \<noteq> [] \<and> hd s = CHR ''.'' then (takeWhile is_digit (tl s), dropWhile is_digit (tl s)) else ([], s))"

definition quantity :: "string \<Rightarrow> string \<Rightarrow> nat \<Rightarrow> nat option" where
  "quantity ds fs unit =
     (if nat_val ds > max63 div unit then None
      else case leadingFraction fs of (f, scale) \<Rightarrow>
        if f = 0 then Some (nat_val ds * unit)
        else let v = nat_val ds * unit + frac_ns f unit scale in if v > max63 then None else Some v)"

lemma parse_units_shorter:
  assumes "fraction_part (dropWhile is_digit s) = (fs, s2)" and "takeWhile is_digit s \<noteq> [] \<or> fs \<noteq> []"
  shows "length (dropWhile unit_char s2) < length s"
proof -
  have "length (takeWhile is_digit s) + length (dropWhile is_digit s) = length s"
    by (metis length_append takeWhile_dropWhile_id)
  moreover have "length fs + length s2 \<le> length (dropWhile is_digit s)"
  proof -
    have "length (takeWhile is_digit t) + length (dropWhile is_digit t) = length t" for t
      by (metis length_append takeWhile_dropWhile_id)
    from this [of "tl (dropWhile is_digit s)"] show ?thesis
      using assms(1) by (auto simp: fraction_part_def split: if_splits)
  qed
  moreover have "length (dropWhile unit_char s2) \<le> length s2" by (rule length_dropWhile_le)
  ultimately show ?thesis using assms(2) by (auto simp: length_greater_0_conv [symmetric] simp del: length_greater_0_conv)
qed

text \<open>The sum is kept in 64 bits without sign.\<close>

function parse_units :: "nat \<Rightarrow> string \<Rightarrow> nat option" where
  "parse_units d s =
     (if s = [] then Some d
      else let ds = takeWhile is_digit s in
        case fraction_part (dropWhile is_digit s) of (fs, s2) \<Rightarrow>
          if nat_val ds > max63 \<or> ds = [] \<and> fs = [] then None
          else case unitMap (takeWhile unit_char s2) of
            None \<Rightarrow> None
          | Some unit \<Rightarrow>
              (case quantity ds fs unit of
                 None \<Rightarrow> None
               | Some v \<Rightarrow>
                   let d' = (d + v) mod 2 ^ 64 in
                   if d' > max63 then None else parse_units d' (dropWhile unit_char s2)))"
  by pat_completeness auto

termination
  by (relation "measure (\<lambda>(d, s). length s)") (auto intro: parse_units_shorter [OF sym])

declare parse_units.simps [simp del]

text \<open>\<^verbatim>\<open>-Duration(d)\<close> is the negation of 64 bits.\<close>

definition ParseDuration :: "string \<Rightarrow> int option" where
  "ParseDuration orig =
     (let neg = (orig \<noteq> [] \<and> hd orig = CHR ''-'');
          s = (if orig \<noteq> [] \<and> (hd orig = CHR ''-'' \<or> hd orig = CHR ''+'') then tl orig else orig)
      in if s = ''0'' then Some 0
         else if s = [] then None
         else case parse_units 0 s of
           None \<Rightarrow> None
         | Some d \<Rightarrow> if neg then Some (int64 (- int d)) else if d > max63 - 1 then None else Some (int d))"

section \<open>The configuration type\<close>

text \<open>The result is the stored duration and whether there is no error.\<close>

definition Duration_Set :: "string \<Rightarrow> int \<times> bool" where
  "Duration_Set s =
     (case ParseInt s of
        Some v \<Rightarrow> (int64 (v * 1000000000), True)
      | None \<Rightarrow> (case ParseDuration s of None \<Rightarrow> (0, False) | Some v \<Rightarrow> (v, True)))"

definition Duration_String :: "int \<Rightarrow> string" where "Duration_String d = time_String d"

definition MarshalText :: "int \<Rightarrow> string" where "MarshalText d = Duration_String d"

definition UnmarshalText :: "string \<Rightarrow> int \<times> bool" where "UnmarshalText s = Duration_Set s"

section \<open>Round trip\<close>

lemma nat_val_snoc: "nat_val (s @ [c]) = 10 * nat_val s + digit_val c" by (simp add: nat_val_def read_base_def)

lemma nat_val_bound: "list_all is_digit s \<Longrightarrow> nat_val s < 10 ^ length s"
proof (induction s rule: rev_induct)
  case (snoc c s)
  then have "is_digit c" by simp
  then have "digit_val c \<le> 9" unfolding is_digit_def digit_val_def Let_def by linarith
  with snoc show ?case by (simp add: nat_val_snoc)
qed (simp add: nat_val_def read_base_def)

lemma decimal_digits: "list_all is_digit (decimal n)"
  using print_digits [of 10 _ n] digits_ok by (auto simp: decimal_def list_all_iff)

lemma decimal_val: "nat_val (decimal n) = n"
proof -
  have "map digit_val (decimal n) = print_base 10 n"
    unfolding decimal_def map_map by (rule map_idI) (use print_digits [of 10 _ n] digits_ok in auto)
  then show ?thesis by (simp add: nat_val_def read_print)
qed

lemma decimal_nonempty: "decimal n \<noteq> []" by (simp add: decimal_def print_nonempty)

lemma leadingFraction_short:
  assumes "list_all is_digit ds" and "length ds \<le> 18"
  shows "leadingFraction ds = (nat_val ds, 10 ^ length ds)"
proof -
  have "foldl fraction_digit (0, 1, False) ds = (nat_val ds, 10 ^ length ds, False)"
    using assms
  proof (induction ds rule: rev_induct)
    case (snoc c ds)
    have "nat_val (ds @ [c]) < 10 ^ length (ds @ [c])" using snoc.prems(1) by (rule nat_val_bound)
    also have "(10 :: nat) ^ length (ds @ [c]) \<le> 10 ^ 18" using snoc.prems(2) by (intro power_increasing) auto
    finally have bound: "10 * nat_val ds + digit_val c < 10 ^ 18" by (simp only: nat_val_snoc)
    then have "\<not> nat_val ds > (max63 - 1) div 10" "\<not> 10 * nat_val ds + digit_val c > max63" by (auto simp: max63_def)
    moreover have "foldl fraction_digit (0, 1, False) ds = (nat_val ds, 10 ^ length ds, False)" using snoc by simp
    ultimately show ?case by (simp add: nat_val_snoc fraction_digit_def Let_def mult.commute)
  qed (simp add: nat_val_def read_base_def)
  then show ?thesis by (simp add: leadingFraction_def)
qed

definition frac_ok :: "nat \<Rightarrow> nat \<Rightarrow> string \<Rightarrow> bool" where
  "frac_ok prec v frac \<longleftrightarrow>
     (if v mod 10 ^ prec = 0 then frac = []
      else frac \<noteq> [] \<and> hd frac = CHR ''.'' \<and> list_all is_digit (tl frac) \<and> tl frac \<noteq> [] \<and> length (tl frac) \<le> prec
        \<and> nat_val (tl frac) * 10 ^ (prec - length (tl frac)) = v mod 10 ^ prec)"

lemma mod_power_Suc: "(v :: nat) mod 10 ^ Suc p = 10 * (v div 10 mod 10 ^ p) + v mod 10"
  by (simp add: mod_mult2_eq)

lemma fmtFrac_printing:
  "\<exists>ds. fmtFrac prec True v w = (CHR ''.'' # ds @ w, v div 10 ^ prec)
     \<and> list_all is_digit ds \<and> length ds = prec \<and> nat_val ds = v mod 10 ^ prec"
proof (induction prec arbitrary: v w)
  case (Suc p)
  from Suc [of "v div 10" "digit_of (v mod 10) # w"] obtain ds where
    ds: "fmtFrac p True (v div 10) (digit_of (v mod 10) # w) = (CHR ''.'' # ds @ digit_of (v mod 10) # w, v div 10 div 10 ^ p)"
    "list_all is_digit ds" "length ds = p" "nat_val ds = v div 10 mod 10 ^ p" by blast
  have "nat_val (ds @ [digit_of (v mod 10)]) = v mod 10 ^ Suc p"
    unfolding nat_val_snoc ds(4) mod_power_Suc using digits_ok [of "v mod 10"] by simp
  with ds digits_ok [of "v mod 10"] show ?case
    by (intro exI [of _ "ds @ [digit_of (v mod 10)]"]) (simp add: Let_def div_mult2_eq)
qed (simp add: nat_val_def read_base_def)

lemma fmtFrac_ok: "\<exists>frac. fmtFrac prec False v [] = (frac, v div 10 ^ prec) \<and> frac_ok prec v frac"
proof (induction prec arbitrary: v)
  case (Suc p)
  show ?case
  proof (cases "v mod 10 = 0")
    case True
    from Suc [of "v div 10"] obtain frac where f: "fmtFrac p False (v div 10) [] = (frac, v div 10 div 10 ^ p)"
      "frac_ok p (v div 10) frac" by blast
    from f(2) have "frac_ok (Suc p) v frac"
      unfolding frac_ok_def mod_power_Suc True by (auto simp: Suc_diff_le)
    with f True show ?thesis by (simp add: Let_def div_mult2_eq)
  next
    case False
    from fmtFrac_printing [of p "v div 10" "[digit_of (v mod 10)]"] obtain ds where
      ds: "fmtFrac p True (v div 10) [digit_of (v mod 10)] = (CHR ''.'' # ds @ [digit_of (v mod 10)], v div 10 div 10 ^ p)"
      "list_all is_digit ds" "length ds = p" "nat_val ds = v div 10 mod 10 ^ p" by blast
    have "nat_val (ds @ [digit_of (v mod 10)]) = v mod 10 ^ Suc p"
      unfolding nat_val_snoc ds(4) mod_power_Suc using digits_ok [of "v mod 10"] by simp
    moreover have "v mod 10 ^ Suc p \<noteq> 0" using False unfolding mod_power_Suc by simp
    ultimately have "frac_ok (Suc p) v (CHR ''.'' # ds @ [digit_of (v mod 10)])"
      using ds digits_ok [of "v mod 10"] by (simp add: frac_ok_def)
    with ds False show ?thesis by (simp add: Let_def div_mult2_eq)
  qed
qed (simp add: frac_ok_def)

lemma takeWhile_digits:
  assumes "list_all P ds" and "rest = [] \<or> \<not> P (hd rest)"
  shows "takeWhile P (ds @ rest) = ds \<and> dropWhile P (ds @ rest) = rest"
  using assms by (induction ds) (cases rest; auto)+

text \<open>One number with its unit.\<close>

lemma unit_chars:
  "list_all unit_char ''h''" "list_all unit_char ''m''" "list_all unit_char ''s''" "list_all unit_char ''ms''"
  "list_all unit_char ''ns''" "list_all unit_char micro"
  by (simp_all add: unit_char_def is_digit_def micro_def)

lemma unit_letters [simp]: "unit_char CHR ''h''" "unit_char CHR ''m''" "unit_char CHR ''s''" "unit_char CHR ''n''"
  by (simp_all add: unit_char_def is_digit_def)

lemma unit_start: "list_all unit_char u \<Longrightarrow> u \<noteq> [] \<Longrightarrow> \<not> is_digit (hd u) \<and> hd u \<noteq> CHR ''.''"
  by (cases u) (auto simp: unit_char_def)

lemma quantity_exact:
  assumes "frac_ok prec v frac" and "prec \<le> 9" and "n * (m * 10 ^ prec) + m * (v mod 10 ^ prec) \<le> max63"
    and "0 < m" "m * 10 ^ prec < 2 ^ 53"
  shows "quantity (decimal n) (tl frac) (m * 10 ^ prec) = Some (n * (m * 10 ^ prec) + m * (v mod 10 ^ prec))"
proof -
  have "n * (m * 10 ^ prec) \<le> max63" using assms(3) by linarith
  then have le: "\<not> n > max63 div (m * 10 ^ prec)" using assms(4) by (simp add: less_eq_div_iff_mult_less_eq not_less)
  show ?thesis
  proof (cases "v mod 10 ^ prec = 0")
    case True
    with assms(1) have "frac = []" by (simp add: frac_ok_def)
    moreover have "leadingFraction [] = (0, 1)" by (simp add: leadingFraction_def)
    ultimately show ?thesis using le True by (simp add: quantity_def decimal_val)
  next
    case False
    with assms(1) have f: "list_all is_digit (tl frac)" "tl frac \<noteq> []" "length (tl frac) \<le> prec"
      "nat_val (tl frac) * 10 ^ (prec - length (tl frac)) = v mod 10 ^ prec" by (simp_all add: frac_ok_def)
    let ?x = "nat_val (tl frac)" and ?k = "length (tl frac)"
    have lf: "leadingFraction (tl frac) = (?x, 10 ^ ?k)" by (rule leadingFraction_short) (use f assms(2) in auto)
    have pos: "0 < ?x" using f(4) False by (metis gr0I mult_0)
    have pw: "(10 :: nat) ^ prec = 10 ^ (prec - ?k) * 10 ^ ?k" using f(3) by (simp add: power_add [symmetric])
    have val: "?x * (m * 10 ^ (prec - ?k)) = m * (v mod 10 ^ prec)" unfolding f(4) [symmetric] by (simp only: mult_ac)
    have "m * (v mod 10 ^ prec) < m * 10 ^ prec" using assms(4) by simp
    from less_trans [OF this assms(5)] have "m * (v mod 10 ^ prec) < 2 ^ 53" .
    then have "?x * (m * 10 ^ (prec - ?k)) < 2 ^ 53" unfolding val .
    from frac_ns_exact [OF pos _ _ this, of "10 ^ ?k"] assms(4)
    have "frac_ns ?x (m * 10 ^ (prec - ?k) * 10 ^ ?k) (10 ^ ?k) = ?x * (m * 10 ^ (prec - ?k))" by simp
    moreover have "m * 10 ^ (prec - ?k) * 10 ^ ?k = m * 10 ^ prec" unfolding pw by (simp only: mult_ac)
    ultimately have "frac_ns ?x (m * 10 ^ prec) (10 ^ ?k) = m * (v mod 10 ^ prec)" by (simp only: val)
    then show ?thesis using le pos assms(3) by (simp add: quantity_def decimal_val lf Let_def)
  qed
qed


lemma parse_one:
  assumes "frac_ok prec v frac" and "prec \<le> 9" and "0 < m" "m * 10 ^ prec < 2 ^ 53"
    and "d + (n * (m * 10 ^ prec) + m * (v mod 10 ^ prec)) \<le> max63"
    and "unitMap u = Some (m * 10 ^ prec)" and "list_all unit_char u" "u \<noteq> []"
    and "rest = [] \<or> is_digit (hd rest)"
  shows "parse_units d (decimal n @ frac @ u @ rest)
    = parse_units (d + (n * (m * 10 ^ prec) + m * (v mod 10 ^ prec))) rest"
proof -
  let ?t = "n * (m * 10 ^ prec) + m * (v mod 10 ^ prec)"
  have tw: "takeWhile is_digit (decimal n @ frac @ u @ rest) = decimal n \<and>
      dropWhile is_digit (decimal n @ frac @ u @ rest) = frac @ u @ rest"
  proof (rule takeWhile_digits [OF decimal_digits])
    show "frac @ u @ rest = [] \<or> \<not> is_digit (hd (frac @ u @ rest))"
      using assms(1) unit_start [OF assms(7,8)] assms(8)
      by (cases frac) (auto simp: frac_ok_def is_digit_def split: if_splits)
  qed
  have u: "takeWhile is_digit (tl frac @ u @ rest) = tl frac \<and> dropWhile is_digit (tl frac @ u @ rest) = u @ rest"
    if "list_all is_digit (tl frac)"
    by (rule takeWhile_digits [OF that]) (use unit_start [OF assms(7,8)] assms(8) in simp)
  have fp: "fraction_part (frac @ u @ rest) = (tl frac, u @ rest)"
  proof (cases frac)
    case Nil
    then show ?thesis using unit_start [OF assms(7,8)] assms(8) by (simp add: fraction_part_def)
  next
    case (Cons c fs)
    then show ?thesis using u assms(1) by (auto simp: fraction_part_def frac_ok_def split: if_splits)
  qed
  have uc: "takeWhile unit_char (u @ rest) = u \<and> dropWhile unit_char (u @ rest) = rest"
    by (rule takeWhile_digits [OF assms(7)]) (use assms(9) in \<open>auto simp: unit_char_def\<close>)
  have q: "quantity (decimal n) (tl frac) (m * 10 ^ prec) = Some ?t"
    by (rule quantity_exact [OF assms(1,2) _ assms(3,4)]) (use assms(5) in linarith)
  have "n * 1 \<le> n * (m * 10 ^ prec)" by (rule mult_le_mono2) (use assms(3) in simp)
  then have small: "\<not> nat_val (decimal n) > max63" using assms(5) unfolding decimal_val by linarith
  have "d + ?t < 2 ^ 64" using assms(5) by (simp add: max63_def)
  then have "(d + ?t) mod 2 ^ 64 = d + ?t" by (rule mod_less)
  moreover have "decimal n @ frac @ u @ rest \<noteq> []" using decimal_nonempty by simp
  moreover have "\<not> max63 < d + ?t" using assms(5) by (simp only: not_less)
  ultimately show ?thesis
    using tw fp uc q small assms(6) decimal_nonempty [of n]
    by (subst parse_units.simps) (simp only: Let_def prod.case option.case if_False if_True simp_thms)
qed

lemma unitMap_simps:
  "unitMap ''ns'' = Some 1" "unitMap micro = Some 1000" "unitMap ''ms'' = Some 1000000" "unitMap ''s'' = Some 1000000000"
  "unitMap ''m'' = Some 60000000000" "unitMap ''h'' = Some 3600000000000"
  by (simp_all add: unitMap_def micro_def)

lemma frac_none: "frac_ok 0 v []" by (simp add: frac_ok_def)

lemma parse_whole:
  assumes "d + n * unit \<le> max63" and "unitMap u = Some unit" "0 < unit" "unit < 2 ^ 53" and "list_all unit_char u" "u \<noteq> []"
    and "rest = [] \<or> is_digit (hd rest)"
  shows "parse_units d (decimal n @ u @ rest) = parse_units (d + n * unit) rest"
  using parse_one [OF frac_none, where m = unit and d = d and n = n and u = u and rest = rest and v = 0] assms by simp

lemma decimal_start: "is_digit (hd (decimal n @ s))"
  using decimal_digits [of n] decimal_nonempty [of n] by (cases "decimal n") auto

lemma parse_end: "parse_units d [] = Some d" by (subst parse_units.simps) simp


text \<open>The text of a magnitude below \<open>2 ^ 63 + 1\<close> reads back as it.\<close>

lemma parse_small:
  assumes "prec \<le> 9" and "v \<le> max63" and "unitMap u = Some (10 ^ prec)" and "list_all unit_char u" "u \<noteq> []"
  shows "parse_units 0 (fmt_small prec u v) = Some v"
proof -
  obtain frac where f: "fmtFrac prec False v [] = (frac, v div 10 ^ prec)" "frac_ok prec v frac"
    using fmtFrac_ok by blast
  have "(10 :: nat) ^ prec \<le> 10 ^ 9" using assms(1) by (rule power_increasing) simp
  also have "\<dots> < 2 ^ 53" by simp
  finally have p: "(10 :: nat) ^ prec < 2 ^ 53" .
  have v: "v div 10 ^ prec * 10 ^ prec + v mod 10 ^ prec = v" by (rule div_mult_mod_eq)
  have "fmt_small prec u v = decimal (v div 10 ^ prec) @ frac @ u @ []" by (simp add: fmt_small_def f(1))
  also have "parse_units 0 \<dots> = parse_units (0 + (v div 10 ^ prec * (1 * 10 ^ prec) + 1 * (v mod 10 ^ prec))) []"
    by (rule parse_one [OF f(2) assms(1)]) (use assms p in \<open>simp_all add: v\<close>)
  also have "\<dots> = Some v" by (simp add: v parse_end)
  finally show ?thesis .
qed

lemma parse_seconds:
  assumes "frac_ok 9 v frac" and "d + (n * 1000000000 + v mod 1000000000) \<le> max63"
  shows "parse_units d (decimal n @ frac @ ''s'') = Some (d + (n * 1000000000 + v mod 1000000000))"
proof -
  have "parse_units d (decimal n @ frac @ ''s'' @ []) =
      parse_units (d + (n * (1 * 10 ^ 9) + 1 * (v mod 10 ^ 9))) []"
    by (rule parse_one [OF assms(1)]) (use assms(2) in \<open>simp_all add: unitMap_simps unit_chars\<close>)
  then show ?thesis by (simp add: parse_end)
qed

lemma format_duration_parses:
  assumes "v \<le> max63"
  shows "parse_units 0 (format_duration v) = Some v"
proof -
  consider "v = 0" | "0 < v" "v < 1000" | "1000 \<le> v" "v < 1000000" | "1000000 \<le> v" "v < 1000000000" | "1000000000 \<le> v"
    by linarith
  then show ?thesis
  proof cases
    case 1
    have "parse_units 0 (decimal 0 @ ''s'' @ []) = parse_units (0 + 0 * 1000000000) []"
      by (rule parse_whole) (simp_all add: unitMap_simps unit_chars)
    moreover have "decimal 0 = ''0''" using digits_ok [of 0] by (simp add: decimal_def print_base.simps)
    ultimately show ?thesis using 1 by (simp add: format_duration_def parse_end)
  next
    case 2
    then show ?thesis using parse_small [of 0 v "''ns''"] assms by (simp add: format_duration_def unitMap_simps unit_chars)
  next
    case 3
    then show ?thesis
      using parse_small [of 3 v micro] assms by (simp add: format_duration_def unitMap_simps unit_chars) (simp add: micro_def)
  next
    case 4
    then show ?thesis using parse_small [of 6 v "''ms''"] assms by (simp add: format_duration_def unitMap_simps unit_chars)
  next
    case 5
    obtain frac where f: "fmtFrac 9 False v [] = (frac, v div 10 ^ 9)" "frac_ok 9 v frac" using fmtFrac_ok by blast
    define s where "s = v div 1000000000"
    define m where "m = s div 60"
    define h where "h = m div 60"
    have s: "v = s * 1000000000 + v mod 1000000000" "s = m * 60 + s mod 60" "m = h * 60 + m mod 60"
      by (simp_all add: s_def m_def h_def)
    have fmt: "format_duration v =
        (if m > 0 then (if h > 0 then decimal h @ ''h'' else []) @ decimal (m mod 60) @ ''m'' else []) @ decimal (s mod 60) @ frac @ ''s''"
      using 5 f(1) by (simp add: format_duration_def s_def m_def h_def Let_def)
    have secs: "parse_units (m * 60000000000) (decimal (s mod 60) @ frac @ ''s'') = Some v"
      using parse_seconds [OF f(2), of "m * 60000000000" "s mod 60"] s(1,2) assms by simp
    have mins: "parse_units (h * 3600000000000) (decimal (m mod 60) @ ''m'' @ decimal (s mod 60) @ frac @ ''s'') = Some v"
    proof -
      have "parse_units (h * 3600000000000) (decimal (m mod 60) @ ''m'' @ decimal (s mod 60) @ frac @ ''s'')
          = parse_units (h * 3600000000000 + m mod 60 * 60000000000) (decimal (s mod 60) @ frac @ ''s'')"
        by (rule parse_whole) (use s assms in \<open>simp_all add: unitMap_simps unit_chars decimal_start\<close>)
      also have "h * 3600000000000 + m mod 60 * 60000000000 = m * 60000000000" using s(3) by linarith
      finally show ?thesis using secs by simp
    qed
    have hours: "parse_units 0 (decimal h @ ''h'' @ decimal (m mod 60) @ ''m'' @ decimal (s mod 60) @ frac @ ''s'') = Some v"
    proof -
      have "parse_units 0 (decimal h @ ''h'' @ decimal (m mod 60) @ ''m'' @ decimal (s mod 60) @ frac @ ''s'')
          = parse_units (0 + h * 3600000000000) (decimal (m mod 60) @ ''m'' @ decimal (s mod 60) @ frac @ ''s'')"
        by (rule parse_whole) (use s assms in \<open>simp_all add: unitMap_simps unit_chars decimal_start\<close>)
      then show ?thesis using mins by simp
    qed
    show ?thesis unfolding fmt using secs mins hours by (cases "m = 0"; cases "h = 0") simp_all
  qed
qed


lemma format_duration_start: "format_duration v \<noteq> [] \<and> hd (format_duration v) \<noteq> CHR ''-'' \<and> hd (format_duration v) \<noteq> CHR ''+''"
proof -
  have start: "hd (decimal n @ s) \<noteq> CHR ''-''" "hd (decimal n @ s) \<noteq> CHR ''+''" for n s
    using decimal_start [of n s] by (auto simp: is_digit_def)
  have app: "decimal n @ s \<noteq> []" for n s using decimal_nonempty by simp
  show ?thesis
    unfolding format_duration_def fmt_small_def Let_def
    by (simp add: start start [where s = "[]", simplified] app decimal_nonempty split: prod.split)
qed

lemma format_duration_not_digits: "\<not> list_all is_digit (format_duration v)"
proof -
  have "\<not> is_digit (CHR ''s'')" by (simp add: is_digit_def)
  then show ?thesis by (simp add: format_duration_def fmt_small_def micro_def Let_def split: prod.split)
qed

lemma ParseInt_format: "ParseInt (time_String d) = None"
  using format_duration_start format_duration_not_digits by (simp add: ParseInt_def time_String_def Let_def)

lemma format_duration_not_0: "format_duration v \<noteq> ''0''"
proof
  assume "format_duration v = ''0''"
  moreover have "is_digit (CHR ''0'')" by (simp add: is_digit_def)
  ultimately show False using format_duration_not_digits [of v] by simp
qed

lemma ParseDuration_String:
  assumes "- (2 ^ 63) \<le> d" and "d < 2 ^ 63"
  shows "ParseDuration (time_String d) = Some d"
proof (cases "d < 0")
  case True
  have "nat (- d) \<le> max63" using assms(1) True by (simp add: max63_def)
  from format_duration_parses [OF this] True show ?thesis
    using format_duration_start [of "nat (- d)"] format_duration_not_0 int64_id [OF assms]
    by (simp add: ParseDuration_def time_String_def Let_def)
next
  case False
  have "nat d \<le> max63 - 1" using assms(2) False by (simp add: max63_def)
  moreover from this have "nat d \<le> max63" by simp
  ultimately show ?thesis
    using False format_duration_start [of "nat d"] format_duration_not_0 format_duration_parses [of "nat d"]
    by (simp add: ParseDuration_def time_String_def Let_def)
qed

text \<open>C21. A duration written to a configuration and read again is the same, for every value of 64 bits.\<close>

theorem Duration_roundtrip:
  assumes "- (2 ^ 63) \<le> d" and "d < 2 ^ 63"
  shows "UnmarshalText (MarshalText d) = (d, True)"
  unfolding UnmarshalText_def MarshalText_def Duration_String_def Duration_Set_def
  by (simp add: ParseInt_format ParseDuration_String [OF assms])

theorem Duration_roundtrip_witness:
  "UnmarshalText (MarshalText (- (2 ^ 63))) = (- (2 ^ 63), True)"
  by (rule Duration_roundtrip) simp_all

text \<open>
  Digits without a suffix are seconds; the product is taken in 64 bits without a check, so a number of
  seconds above \<open>9223372036\<close> is accepted and stored as some other duration.
\<close>

lemma seconds_text:
  "ParseInt (decimal n) = (if n < max63 then Some (int n) else None)"
proof -
  have "hd (decimal n) \<noteq> CHR ''-''" "hd (decimal n) \<noteq> CHR ''+''" using decimal_start [of n "[]"] by (auto simp: is_digit_def)
  then show ?thesis using decimal_digits [of n] decimal_val [of n] decimal_nonempty [of n]
    by (simp add: ParseInt_def Let_def nat_val_def)
qed


lemma int64_range: "- (2 ^ 63) \<le> int64 n \<and> int64 n < 2 ^ 63"
  using sint_range_size [of "word_of_int n :: 64 word"] by (simp add: int64_def word_size)

lemma int64_exact_iff: "int64 n = n \<longleftrightarrow> - (2 ^ 63) \<le> n \<and> n < 2 ^ 63"
  using int64_id [of n] int64_range [of n] by metis

text \<open>
  Digits without a suffix are always accepted and the product with a second is taken in 64 bits: the
  stored duration is the one written exactly up to \<open>9223372036\<close> seconds; any larger number is stored as
  some other duration without an error.
\<close>

theorem Duration_Set_seconds:
  assumes "n < 2 ^ 63"
  shows "snd (Duration_Set (decimal n))
    \<and> (fst (Duration_Set (decimal n)) = int n * 1000000000 \<longleftrightarrow> n \<le> 9223372036)"
proof -
  have "ParseInt (decimal n) = Some (int n)" using assms by (simp add: seconds_text max63_def)
  then have "Duration_Set (decimal n) = (int64 (int n * 1000000000), True)" by (simp add: Duration_Set_def)
  moreover have "int n * 1000000000 < 2 ^ 63 \<longleftrightarrow> n \<le> 9223372036" by (simp, linarith)
  ultimately show ?thesis by (simp only: fst_conv snd_conv simp_thms int64_exact_iff) simp
qed

theorem Duration_Set_seconds_witness:
  "fst (Duration_Set (decimal 9223372037)) \<noteq> 9223372037000000000
    \<and> Duration_Set ''9223372037'' = (- 9223372036709551616, True)"
proof
  have small: "(9223372037 :: nat) < 2 ^ 63" by simp
  show "fst (Duration_Set (decimal 9223372037)) \<noteq> 9223372037000000000"
    using Duration_Set_seconds [OF small] by simp
  have "ParseInt ''9223372037'' = Some 9223372037"
    by (simp add: ParseInt_def is_digit_def digit_val_def read_base_def max63_def Let_def)
  moreover have "int64 9223372037000000000 = - 9223372036709551616" by (simp add: int64_def)
  ultimately show "Duration_Set ''9223372037'' = (- 9223372036709551616, True)" by (simp add: Duration_Set_def)
qed

end
