(* ===== verification/ChanPipe.thy ===== *)
theory ChanPipe
  imports NetAddr "HOL-Library.Sublist"
begin

text \<open>
  Pipelines of goroutines over unbuffered channels: \<^verbatim>\<open>Generator\<close>, \<^verbatim>\<open>Multiply\<close>, \<^verbatim>\<open>Add\<close> and \<^verbatim>\<open>Or\<close> of
  \<^verbatim>\<open>concurrency/channel/pipeline.go\<close> and \<^verbatim>\<open>AddOnPipe\<close> of \<^verbatim>\<open>cmd/pipleline/main.go\<close>.  A goroutine is a
  record with its place in its loop; a send on an unbuffered channel is one step of both sides.
\<close>

section \<open>Stages\<close>

text \<open>A stage is in its select, at its send, or has returned and closed its stream.\<close>

datatype 'a stage_phase = Selecting | Sending 'a | Exited

text \<open>
  \<open>st_zero\<close> is the zero value of the input type when the stage receives without asking whether the
  channel is closed.
\<close>

record 'a stage =
  st_fun :: "'a \<Rightarrow> 'a"
  st_zero :: "'a option"
  st_phase :: "'a stage_phase"

definition Multiply :: "64 word \<Rightarrow> 64 word stage" where
  "Multiply factor = \<lparr>st_fun = (\<lambda>v. v * factor), st_zero = None, st_phase = Selecting\<rparr>"

definition Add :: "64 word \<Rightarrow> 64 word stage" where
  "Add delta = \<lparr>st_fun = (\<lambda>v. v + delta), st_zero = None, st_phase = Selecting\<rparr>"

definition AddOnPipe :: "'a \<Rightarrow> ('a \<Rightarrow> 'a) \<Rightarrow> 'a stage" where
  "AddOnPipe zero f = \<lparr>st_fun = f, st_zero = Some zero, st_phase = Selecting\<rparr>"

text \<open>
  The source sends \<open>pp_todo\<close>; it watches the done channel and closes its stream when it is
  \<^verbatim>\<open>Generator\<close>, and does neither when it is the loop of \<^verbatim>\<open>main\<close>.  The consumer may stop reading.
\<close>

record 'a pipe =
  pp_generator :: bool
  pp_done :: bool
  pp_todo :: "'a list"
  pp_exited :: bool
  pp_stages :: "'a stage list"
  pp_got :: "'a list"
  pp_reading :: bool

definition pipeline :: "bool \<Rightarrow> 'a list \<Rightarrow> 'a stage list \<Rightarrow> 'a pipe" where
  "pipeline generator values stages =
     \<lparr>pp_generator = generator, pp_done = False, pp_todo = values, pp_exited = False, pp_stages = stages,
      pp_got = [], pp_reading = True\<rparr>"

definition set_st :: "nat \<Rightarrow> 'a stage_phase \<Rightarrow> 'a pipe \<Rightarrow> 'a pipe" where
  "set_st i ph p = p\<lparr>pp_stages := (pp_stages p)[i := (pp_stages p ! i)\<lparr>st_phase := ph\<rparr>]\<rparr>"

text \<open>Stream \<open>i\<close> is the input of stage \<open>i\<close>; the stream after the last stage is the consumer's.\<close>

fun closed_stream :: "'a pipe \<Rightarrow> nat \<Rightarrow> bool" where
  "closed_stream p 0 = pp_exited p"
| "closed_stream p (Suc i) = (st_phase (pp_stages p ! i) = Exited)"

fun offered :: "'a pipe \<Rightarrow> nat \<Rightarrow> 'a option" where
  "offered p 0 = (if pp_exited p then None else case pp_todo p of [] \<Rightarrow> None | v # _ \<Rightarrow> Some v)"
| "offered p (Suc i) = (case st_phase (pp_stages p ! i) of Sending v \<Rightarrow> Some v | _ \<Rightarrow> None)"

fun after_send :: "nat \<Rightarrow> 'a pipe \<Rightarrow> 'a pipe" where
  "after_send 0 p = p\<lparr>pp_todo := tl (pp_todo p)\<rparr>"
| "after_send (Suc i) p = set_st i Selecting p"

definition receives :: "'a pipe \<Rightarrow> nat \<Rightarrow> bool" where
  "receives p i \<longleftrightarrow>
     (if i < length (pp_stages p) then st_phase (pp_stages p ! i) = Selecting
      else i = length (pp_stages p) \<and> pp_reading p)"

definition after_receive :: "nat \<Rightarrow> 'a \<Rightarrow> 'a pipe \<Rightarrow> 'a pipe" where
  "after_receive i v p =
     (if i < length (pp_stages p) then set_st i (Sending (st_fun (pp_stages p ! i) v)) p
      else p\<lparr>pp_got := pp_got p @ [v]\<rparr>)"

text \<open>What the goroutines do by themselves.\<close>

inductive pipe_step :: "'a pipe \<Rightarrow> 'a pipe \<Rightarrow> bool" where
  transfer: "i \<le> length (pp_stages p) \<Longrightarrow> offered p i = Some v \<Longrightarrow> receives p i \<Longrightarrow>
    pipe_step p (after_receive i v (after_send i p))"
| gen_done: "pp_generator p \<Longrightarrow> pp_done p \<Longrightarrow> \<not> pp_exited p \<Longrightarrow> pp_todo p \<noteq> [] \<Longrightarrow> pipe_step p (p\<lparr>pp_exited := True\<rparr>)"
| gen_end: "pp_generator p \<Longrightarrow> pp_todo p = [] \<Longrightarrow> \<not> pp_exited p \<Longrightarrow> pipe_step p (p\<lparr>pp_exited := True\<rparr>)"
| stage_done: "i < length (pp_stages p) \<Longrightarrow> pp_done p \<Longrightarrow> st_phase (pp_stages p ! i) = Selecting \<Longrightarrow>
    pipe_step p (set_st i Exited p)"
| stage_closed: "i < length (pp_stages p) \<Longrightarrow> closed_stream p i \<Longrightarrow> st_phase (pp_stages p ! i) = Selecting \<Longrightarrow>
    st_zero (pp_stages p ! i) = None \<Longrightarrow> pipe_step p (set_st i Exited p)"
| stage_zero: "i < length (pp_stages p) \<Longrightarrow> closed_stream p i \<Longrightarrow> st_phase (pp_stages p ! i) = Selecting \<Longrightarrow>
    st_zero (pp_stages p ! i) = Some z \<Longrightarrow> pipe_step p (set_st i (Sending (st_fun (pp_stages p ! i) z)) p)"

text \<open>What its user does.\<close>

inductive user_step :: "'a pipe \<Rightarrow> 'a pipe \<Rightarrow> bool" where
  close_done: "user_step p (p\<lparr>pp_done := True\<rparr>)"
| stop_reading: "user_step p (p\<lparr>pp_reading := False\<rparr>)"

inductive pipe_reach :: "'a pipe \<Rightarrow> 'a pipe \<Rightarrow> bool" for p0 where
  start: "pipe_reach p0 p0"
| goroutine: "pipe_reach p0 p \<Longrightarrow> pipe_step p p' \<Longrightarrow> pipe_reach p0 p'"
| user: "pipe_reach p0 p \<Longrightarrow> user_step p p' \<Longrightarrow> pipe_reach p0 p'"

section \<open>Order and completeness\<close>

text \<open>What the stages make of a value, and the finished forms of the values inside, oldest first.\<close>

definition run_stages :: "'a stage list \<Rightarrow> 'a \<Rightarrow> 'a" where
  "run_stages stages v = fold st_fun stages v"

fun in_flight :: "'a stage list \<Rightarrow> 'a list" where
  "in_flight [] = []"
| "in_flight (s # ss) = in_flight ss @ (case st_phase s of Sending w \<Rightarrow> [run_stages ss w] | _ \<Rightarrow> [])"

definition asks :: "'a pipe \<Rightarrow> bool" where
  "asks p \<longleftrightarrow> list_all (\<lambda>s. st_zero s = None) (pp_stages p)"

definition nobody_exits :: "'a pipe \<Rightarrow> bool" where
  "nobody_exits p \<longleftrightarrow> \<not> pp_generator p \<and> \<not> pp_done p \<and> \<not> pp_exited p
     \<and> list_all (\<lambda>s. st_phase s \<noteq> Exited) (pp_stages p)"

definition in_order :: "'a list \<Rightarrow> 'a pipe \<Rightarrow> bool" where
  "in_order values p \<longleftrightarrow> pp_got p @ in_flight (pp_stages p) @ map (run_stages (pp_stages p)) (pp_todo p)
     = map (run_stages (pp_stages p)) values"

lemma run_stages_phase: "run_stages (ss[i := (ss ! i)\<lparr>st_phase := ph\<rparr>]) = run_stages ss"
proof (rule ext)
  show "run_stages (ss[i := (ss ! i)\<lparr>st_phase := ph\<rparr>]) v = run_stages ss v" for v
    by (induction ss arbitrary: i v) (auto simp: run_stages_def split: nat.splits)
qed

lemma run_stages_append: "run_stages (xs @ s # ys) v = run_stages ys (st_fun s (run_stages xs v))"
  by (simp add: run_stages_def)

lemma flight_append:
  "in_flight (xs @ ys) = in_flight ys @ map (run_stages ys) (in_flight xs)"
proof (induction xs)
  case (Cons s xs)
  then show ?case
    by (auto simp: run_stages_def split: stage_phase.split)
qed simp

lemma split_at: "i < length ss \<Longrightarrow> \<exists>xs s ys. ss = xs @ s # ys \<and> length xs = i \<and> ss ! i = s"
  by (metis id_take_nth_drop length_take min.absorb4)


lemma stages_set_st: "pp_stages (set_st i ph p) = (pp_stages p)[i := (pp_stages p ! i)\<lparr>st_phase := ph\<rparr>]"
  by (simp add: set_st_def)

lemma set_st_fields [simp]:
  "pp_generator (set_st i ph p) = pp_generator p" "pp_done (set_st i ph p) = pp_done p"
  "pp_todo (set_st i ph p) = pp_todo p" "pp_exited (set_st i ph p) = pp_exited p"
  "pp_got (set_st i ph p) = pp_got p" "pp_reading (set_st i ph p) = pp_reading p"
  by (simp_all add: set_st_def)

lemma run_stages_set_st: "run_stages (pp_stages (set_st i ph p)) = run_stages (pp_stages p)"
  unfolding stages_set_st by (rule run_stages_phase)

text \<open>A change of one stage that hands over no value.\<close>

lemma flight_exit:
  assumes "i < length ss" and "st_phase (ss ! i) = Selecting"
  shows "in_flight (ss[i := (ss ! i)\<lparr>st_phase := Exited\<rparr>]) = in_flight ss"
proof -
  obtain xs s ys where s: "ss = xs @ s # ys" "length xs = i" "ss ! i = s" using split_at [OF assms(1)] by blast
  have "ss[i := (ss ! i)\<lparr>st_phase := Exited\<rparr>] = xs @ s\<lparr>st_phase := Exited\<rparr> # ys"
    unfolding s(3) unfolding s(1) using s(2) by (simp add: list_update_append)
  moreover have "run_stages (s\<lparr>st_phase := Exited\<rparr> # ys) = run_stages (s # ys)" by (rule ext) (simp add: run_stages_def)
  ultimately show ?thesis using assms(2) s by (simp add: flight_append)
qed

lemma flight_receive:
  assumes "ss = s # ys" and "st_phase s = Selecting"
  shows "in_flight (ss[0 := s\<lparr>st_phase := Sending (st_fun s v)\<rparr>]) = in_flight ss @ [run_stages ss v]"
  using assms by (simp add: run_stages_def)

lemma flight_handover:
  assumes "ss = xs @ a # b # ys" and "st_phase a = Sending w" and "st_phase b = Selecting"
  shows "in_flight (xs @ a\<lparr>st_phase := Selecting\<rparr> # b\<lparr>st_phase := Sending (st_fun b w)\<rparr> # ys) = in_flight ss"
proof -
  have "run_stages (a\<lparr>st_phase := Selecting\<rparr> # b\<lparr>st_phase := Sending (st_fun b w)\<rparr> # ys) = run_stages (a # b # ys)"
    by (rule ext) (simp add: run_stages_def)
  with assms show ?thesis by (simp add: flight_append run_stages_def)
qed

lemma flight_deliver:
  assumes "ss = xs @ [a]" and "st_phase a = Sending w"
  shows "in_flight ss = w # in_flight (xs @ [a\<lparr>st_phase := Selecting\<rparr>])"
proof -
  have "run_stages [a\<lparr>st_phase := Selecting\<rparr>] = run_stages [a]" by (rule ext) (simp add: run_stages_def)
  with assms show ?thesis by (simp add: flight_append run_stages_def)
qed

text \<open>The three kinds of transfer.\<close>

lemma transfer_cases:
  assumes "i \<le> length (pp_stages p)" and "offered p i = Some v" and "receives p i"
  obtains (direct) t where "pp_stages p = []" "pp_todo p = v # t" "\<not> pp_exited p" "pp_reading p"
      "after_receive i v (after_send i p) = p\<lparr>pp_todo := t, pp_got := pp_got p @ [v]\<rparr>"
    | (feed) s ys t where "pp_stages p = s # ys" "st_phase s = Selecting" "pp_todo p = v # t" "\<not> pp_exited p"
      "after_receive i v (after_send i p)
        = p\<lparr>pp_todo := t, pp_stages := s\<lparr>st_phase := Sending (st_fun s v)\<rparr> # ys\<rparr>"
    | (hand) xs a b ys where "pp_stages p = xs @ a # b # ys" "st_phase a = Sending v" "st_phase b = Selecting"
      "after_receive i v (after_send i p)
        = p\<lparr>pp_stages := xs @ a\<lparr>st_phase := Selecting\<rparr> # b\<lparr>st_phase := Sending (st_fun b v)\<rparr> # ys\<rparr>"
    | (out) xs a where "pp_stages p = xs @ [a]" "st_phase a = Sending v" "pp_reading p"
      "after_receive i v (after_send i p) = p\<lparr>pp_stages := xs @ [a\<lparr>st_phase := Selecting\<rparr>], pp_got := pp_got p @ [v]\<rparr>"
proof (cases i)
  case 0
  from assms(2) 0 obtain t where t: "pp_todo p = v # t" "\<not> pp_exited p" by (auto split: list.splits if_splits)
  show ?thesis
  proof (cases "pp_stages p")
    case Nil
    with 0 assms(3) t show ?thesis by (intro direct) (simp_all add: receives_def after_receive_def)
  next
    case (Cons s ys)
    with 0 assms(3) t show ?thesis
      by (intro feed [OF Cons]) (simp_all add: receives_def after_receive_def set_st_def)
  qed
next
  case (Suc j)
  with assms(1) have j: "j < length (pp_stages p)" by simp
  from split_at [OF j] obtain xs a ys where s: "pp_stages p = xs @ a # ys" "length xs = j" "pp_stages p ! j = a" by blast
  have ph: "st_phase a = Sending v" using assms(2) Suc s(3) by (auto split: stage_phase.splits)
  show ?thesis
  proof (cases ys)
    case Nil
    with assms(3) Suc s ph show ?thesis
      by (intro out) (auto simp: receives_def after_receive_def set_st_def list_update_append)
  next
    case (Cons b zs)
    with s have b: "pp_stages p ! Suc j = b" "Suc j < length (pp_stages p)" by (simp_all add: nth_append)
    have nth: "(xs @ c # b # zs) ! Suc j = b" for c using s(2) by (simp add: nth_append)
    from b assms(3) Suc have "st_phase b = Selecting" by (simp add: receives_def)
    with Suc s ph b Cons nth show ?thesis
      by (intro hand [of xs a b zs]) (simp_all add: after_receive_def set_st_def list_update_append)
  qed
qed

lemma step_in_order:
  assumes "pipe_step p p'" and "in_order values p" and "asks p \<or> nobody_exits p"
  shows "in_order values p'"
  using assms(1)
proof cases
  case (transfer i v)
  note tr = this
  from tr(2-4) show ?thesis
  proof (cases rule: transfer_cases)
    case (direct t)
    then show ?thesis using assms(2) unfolding tr(1) direct(5) by (simp add: in_order_def run_stages_def)
  next
    case (feed s ys t)
    have "run_stages (s\<lparr>st_phase := Sending (st_fun s v)\<rparr> # ys) = run_stages (s # ys)"
      by (rule ext) (simp add: run_stages_def)
    with feed assms(2) show ?thesis unfolding tr(1) feed(5) by (simp add: in_order_def) (simp add: run_stages_def)
  next
    case (hand xs a b ys)
    have "run_stages (xs @ a\<lparr>st_phase := Selecting\<rparr> # b\<lparr>st_phase := Sending (st_fun b v)\<rparr> # ys)
        = run_stages (pp_stages p)" unfolding hand(1) by (rule ext) (simp add: run_stages_def)
    with hand flight_handover [OF hand(1-3)] assms(2) show ?thesis unfolding tr(1) hand(4) by (simp add: in_order_def)
  next
    case (out xs a)
    have "run_stages (xs @ [a\<lparr>st_phase := Selecting\<rparr>]) = run_stages (pp_stages p)"
      unfolding out(1) by (rule ext) (simp add: run_stages_def)
    with out flight_deliver [OF out(1,2)] assms(2) show ?thesis unfolding tr(1) out(4) by (simp add: in_order_def)
  qed
next
  case (stage_done i)
  then show ?thesis using assms(2) flight_exit [of i "pp_stages p"]
    by (simp add: in_order_def stages_set_st run_stages_phase)
next
  case (stage_closed i)
  then show ?thesis using assms(2) flight_exit [of i "pp_stages p"]
    by (simp add: in_order_def stages_set_st run_stages_phase)
next
  case (stage_zero i z)
  have "\<not> closed_stream p i" if "nobody_exits p" using that stage_zero(2)
    by (cases i) (auto simp: nobody_exits_def list_all_length)
  with stage_zero assms(3) show ?thesis by (auto simp: asks_def list_all_length)
qed (use assms(2) in \<open>simp_all add: in_order_def\<close>)


lemma asks_step: "pipe_step p p' \<Longrightarrow> asks p' = asks p"
proof (induction rule: pipe_step.induct)
  case (transfer i p v)
  then show ?case by (cases rule: transfer_cases [OF transfer]) (auto simp: asks_def)
qed (auto simp: asks_def stages_set_st list_all_length nth_list_update)


lemma constant_step:
  "pipe_step p p' \<Longrightarrow> pp_generator p' = pp_generator p \<and> pp_done p' = pp_done p \<and> pp_reading p' = pp_reading p
     \<and> map st_fun (pp_stages p') = map st_fun (pp_stages p)"
proof (induction rule: pipe_step.induct)
  case (transfer i p v)
  then show ?case by (cases rule: transfer_cases [OF transfer]) simp_all
qed (auto simp: stages_set_st intro!: nth_equalityI simp: nth_list_update)

lemma nobody_exits_step: "pipe_step p p' \<Longrightarrow> nobody_exits p \<Longrightarrow> nobody_exits p'"
proof (induction rule: pipe_step.induct)
  case (transfer i p v)
  then show ?case by (cases rule: transfer_cases [OF transfer(1-3)]) (auto simp: nobody_exits_def)
next
  case (stage_closed i p)
  then show ?case by (cases i) (auto simp: nobody_exits_def list_all_length)
next
  case (stage_zero i p z)
  then show ?case by (cases i) (auto simp: nobody_exits_def list_all_length)
qed (auto simp: nobody_exits_def)

lemma run_stages_funs: "map st_fun ss = map st_fun ts \<Longrightarrow> run_stages ss = run_stages ts"
proof (rule ext)
  fix v assume "map st_fun ss = map st_fun ts"
  moreover have "fold st_fun us v = fold (\<lambda>f v. f v) (map st_fun us) v" for us v
    by (induction us arbitrary: v) auto
  ultimately show "run_stages ss v = run_stages ts v" unfolding run_stages_def by metis
qed

definition fresh_stages :: "'a stage list \<Rightarrow> bool" where
  "fresh_stages stages \<longleftrightarrow> list_all (\<lambda>s. st_phase s = Selecting) stages"

lemma flight_fresh: "fresh_stages ss \<Longrightarrow> in_flight ss = []"
  by (induction ss) (auto simp: fresh_stages_def)

lemma pipe_reach_order:
  assumes "pipe_reach (pipeline gen values stages) p" and "fresh_stages stages"
  shows "map st_fun (pp_stages p) = map st_fun stages \<and> pp_generator p = gen
    \<and> (asks p \<longleftrightarrow> list_all (\<lambda>s. st_zero s = None) stages)
    \<and> (\<not> gen \<and> \<not> pp_done p \<longrightarrow> nobody_exits p)
    \<and> (asks p \<or> \<not> gen \<and> \<not> pp_done p \<longrightarrow> in_order values p)"
  using assms(1)
proof (induction rule: pipe_reach.induct)
  case start
  from assms(2) show ?case
    by (auto simp: pipeline_def asks_def nobody_exits_def in_order_def flight_fresh fresh_stages_def list_all_iff)
next
  case (goroutine p p')
  from goroutine.IH goroutine.hyps(2) show ?case
    using step_in_order asks_step nobody_exits_step constant_step by metis
next
  case (user p p')
  from user.hyps(2) user.IH show ?case
    by cases (auto simp: asks_def nobody_exits_def in_order_def)
qed

text \<open>While the done channel is open, a closed stream has nothing left before it.\<close>

definition closed_ok :: "'a pipe \<Rightarrow> bool" where
  "closed_ok p \<longleftrightarrow> (pp_exited p \<longrightarrow> pp_todo p = [])
     \<and> (\<forall>i < length (pp_stages p). st_phase (pp_stages p ! i) = Exited \<longrightarrow> closed_stream p i)"

lemma closed_set_st:
  "i < length (pp_stages p) \<Longrightarrow> st_phase (pp_stages p ! i) \<noteq> Exited \<Longrightarrow> closed_stream p k \<Longrightarrow> closed_stream (set_st i ph p) k"
  by (cases k) (auto simp: stages_set_st nth_list_update)

lemma closed_ok_step:
  assumes "pipe_step p p'" and "closed_ok p" and "\<not> pp_done p"
  shows "closed_ok p'"
  using assms
proof (induction rule: pipe_step.induct)
  case (transfer i p v)
  show ?case
    using transfer(1-3)
  proof (cases rule: transfer_cases)
    case (hand xs a b ys)
    have "st_phase ((xs @ a\<lparr>st_phase := Selecting\<rparr> # b\<lparr>st_phase := Sending (st_fun b v)\<rparr> # ys) ! k) = Exited
        \<longleftrightarrow> st_phase ((xs @ a # b # ys) ! k) = Exited" for k
      using hand(2,3) by (auto simp: nth_append nth_Cons split: nat.splits)
    moreover have "closed_stream (p\<lparr>pp_stages := ss\<rparr>) k = closed_stream p k"
      if "\<And>k. st_phase (ss ! k) = Exited \<longleftrightarrow> st_phase (pp_stages p ! k) = Exited" for ss k
      using that by (cases k) auto
    ultimately show ?thesis using transfer.prems unfolding hand(4) closed_ok_def by (simp add: hand(1))
  next
    case (out xs a)
    have "st_phase ((xs @ [a\<lparr>st_phase := Selecting\<rparr>]) ! k) = Exited
        \<longleftrightarrow> st_phase ((xs @ [a]) ! k) = Exited" for k
      using out(2) by (auto simp: nth_append nth_Cons split: nat.splits)
    moreover have "closed_stream (p\<lparr>pp_stages := ss, pp_got := g\<rparr>) k = closed_stream p k"
      if "\<And>k. st_phase (ss ! k) = Exited \<longleftrightarrow> st_phase (pp_stages p ! k) = Exited" for ss k g
      using that by (cases k) auto
    ultimately show ?thesis using transfer.prems unfolding out(4) closed_ok_def by (simp add: out(1))
  next
    case (feed s ys t)
    have "st_phase ((s\<lparr>st_phase := Sending (st_fun s v)\<rparr> # ys) ! k) = Exited
        \<longleftrightarrow> st_phase ((s # ys) ! k) = Exited" for k
      using feed(2) by (auto simp: nth_Cons split: nat.splits)
    moreover have "closed_stream (p\<lparr>pp_todo := t, pp_stages := ss\<rparr>) k = closed_stream p k"
      if "\<And>k. st_phase (ss ! k) = Exited \<longleftrightarrow> st_phase (pp_stages p ! k) = Exited" for ss k
      using that by (cases k) auto
    ultimately show ?thesis using transfer.prems feed(4) unfolding feed(5) closed_ok_def by (simp add: feed(1))
  qed (use transfer.prems in \<open>simp add: closed_ok_def\<close>)
next
  case (gen_end p)
  have "closed_stream (p\<lparr>pp_exited := True\<rparr>) k" if "closed_stream p k" for k using that by (cases k) auto
  with gen_end show ?case by (auto simp: closed_ok_def)
next
  case (stage_closed i p)
  then show ?case by (auto simp: closed_ok_def stages_set_st nth_list_update intro!: closed_set_st)
next
  case (stage_zero i p z)
  then show ?case by (auto simp: closed_ok_def stages_set_st nth_list_update intro!: closed_set_st split: if_splits)
qed (auto simp: closed_ok_def)


lemma reach_closed_ok:
  assumes "pipe_reach (pipeline gen values stages) p" and "fresh_stages stages" and "\<not> pp_done p"
  shows "closed_ok p"
  using assms(1,3)
proof (induction rule: pipe_reach.induct)
  case start
  from assms(2) show ?case by (auto simp: pipeline_def closed_ok_def fresh_stages_def list_all_length)
next
  case (goroutine p p')
  then show ?case using closed_ok_step constant_step by metis
next
  case (user p p')
  have "closed_stream (p\<lparr>pp_reading := False\<rparr>) k = closed_stream p k" for k by (cases k) auto
  with user.hyps(2) user.IH user.prems show ?case by cases (auto simp: closed_ok_def)
qed

section \<open>Termination\<close>

fun stage_work :: "'a stage list \<Rightarrow> nat" where
  "stage_work [] = 0"
| "stage_work (s # ss) =
     (case st_phase s of Selecting \<Rightarrow> 1 | Sending w \<Rightarrow> length ss + 2 | Exited \<Rightarrow> 0) + stage_work ss"

definition work :: "'a pipe \<Rightarrow> nat" where
  "work p = (length (pp_stages p) + 1) * length (pp_todo p) + (if pp_exited p then 0 else 1) + stage_work (pp_stages p)"

lemma stage_work_less:
  "length ys = length zs \<Longrightarrow> stage_work ys < stage_work zs \<Longrightarrow> stage_work (xs @ ys) < stage_work (xs @ zs)"
  by (induction xs) (auto split: stage_phase.splits)

lemma stage_work_exit:
  assumes "i < length ss" and "st_phase (ss ! i) = Selecting"
  shows "stage_work (ss[i := (ss ! i)\<lparr>st_phase := Exited\<rparr>]) < stage_work ss"
  using assms
proof (induction ss arbitrary: i)
  case (Cons a ss)
  then show ?case by (cases i) (auto split: stage_phase.splits)
qed simp

lemma step_work:
  assumes "pipe_step p p'" and "asks p"
  shows "work p' < work p"
  using assms
proof (induction rule: pipe_step.induct)
  case (transfer i p v)
  from transfer(1-3) show ?case
  proof (cases rule: transfer_cases)
    case (hand xs a b ys)
    have len: "length (xs @ a\<lparr>st_phase := Selecting\<rparr> # b\<lparr>st_phase := Sending (st_fun b v)\<rparr> # ys) = length (pp_stages p)"
      by (simp add: hand(1))
    have "stage_work (xs @ a\<lparr>st_phase := Selecting\<rparr> # b\<lparr>st_phase := Sending (st_fun b v)\<rparr> # ys) < stage_work (pp_stages p)"
      unfolding hand(1) using hand(2,3) by (intro stage_work_less) simp_all
    then show ?thesis unfolding hand(4) by (simp add: work_def len [unfolded hand(1)] hand(1))
  next
    case (out xs a)
    then have "stage_work (xs @ [a\<lparr>st_phase := Selecting\<rparr>]) < stage_work (xs @ [a])"
      by (intro stage_work_less) simp_all
    then show ?thesis unfolding out(4) by (simp add: work_def out(1))
  next
    case (feed s ys t)
    then show ?thesis unfolding feed(5) by (simp add: work_def)
  next
    case (direct t)
    then show ?thesis unfolding direct(5) by (simp add: work_def)
  qed
next
  case (stage_done i p)
  then show ?case using stage_work_exit [of i "pp_stages p"] by (simp add: work_def stages_set_st)
next
  case (stage_closed i p)
  then show ?case using stage_work_exit [of i "pp_stages p"] by (simp add: work_def stages_set_st)
qed (auto simp: work_def asks_def list_all_length)

lemma nothing_offered:
  assumes "\<And>p'. \<not> pipe_step p p'" and "closed_ok p" and "pp_reading p" and "i \<le> length (pp_stages p)"
  shows "offered p i = None"
  using assms(4)
proof (induction i rule: inc_induct)
  case base
  show ?case
  proof (cases "offered p (length (pp_stages p))")
    case (Some v)
    with pipe_step.transfer [of "length (pp_stages p)" p v] assms(1,3) show ?thesis by (simp add: receives_def)
  qed
next
  case (step i)
  show ?case
  proof (cases "offered p i")
    case (Some v)
    then have "\<not> receives p i" using pipe_step.transfer [of i p v] assms(1) step.hyps by auto
    with step.hyps have "st_phase (pp_stages p ! i) \<noteq> Selecting" by (simp add: receives_def)
    with step.IH have "st_phase (pp_stages p ! i) = Exited" by (auto split: stage_phase.splits)
    with assms(2) step.hyps have "closed_stream p i" by (simp add: closed_ok_def)
    with Some show ?thesis by (cases i) (auto split: stage_phase.splits)
  qed
qed

lemma stuck_closed:
  assumes "\<And>p'. \<not> pipe_step p p'" and "closed_ok p" and "pp_reading p" and "asks p" and "pp_generator p" "\<not> pp_done p"
    and "i \<le> length (pp_stages p)"
  shows "closed_stream p i"
  using assms(7)
proof (induction i)
  case 0
  have "\<not> (\<not> pp_exited p \<and> pp_todo p = [])" using pipe_step.gen_end assms(1,5) by blast
  moreover have "offered p 0 = None" by (rule nothing_offered [OF assms(1-3)]) simp
  ultimately show ?case by (auto split: list.splits if_splits)
next
  case (Suc i)
  have "offered p (Suc i) = None" by (rule nothing_offered [OF assms(1-3)]) (use Suc.prems in simp)
  moreover have "st_phase (pp_stages p ! i) \<noteq> Selecting"
    using pipe_step.stage_closed [of i p] Suc assms(1,4) by (auto simp: asks_def list_all_length)
  ultimately show ?case by (cases "st_phase (pp_stages p ! i)") auto
qed

lemma flight_exited: "list_all (\<lambda>s. st_phase s = Exited) ss \<Longrightarrow> in_flight ss = []"
  by (induction ss) auto

lemma stuck_complete:
  assumes "\<And>p'. \<not> pipe_step p p'" and "closed_ok p" and "pp_reading p" and "asks p" and "pp_generator p" "\<not> pp_done p"
    and "in_order values p"
  shows "pp_got p = map (run_stages (pp_stages p)) values \<and> pp_exited p \<and> list_all (\<lambda>s. st_phase s = Exited) (pp_stages p)"
proof -
  note closed = stuck_closed [OF assms(1-6)]
  have e: "list_all (\<lambda>s. st_phase s = Exited) (pp_stages p)"
    using closed [of "Suc _"] by (auto simp: list_all_length)
  moreover have x: "pp_exited p" using closed [of 0] by simp
  moreover have "pp_todo p = []" using x assms(2) by (simp add: closed_ok_def)
  ultimately show ?thesis using assms(7) flight_exited [OF e] by (simp add: in_order_def)
qed


section \<open>The bakery\<close>

text \<open>The values of \<^verbatim>\<open>cmd/pipleline/main.go\<close>: the input is a number, all later streams carry texts.\<close>

datatype bakery = Number int | Text string

definition PrepareTray :: "int \<Rightarrow> string" where "PrepareTray trayNumber = ''tray number '' @ int_text trayNumber"
definition Mixture :: "string \<Rightarrow> string" where "Mixture tray = ''cupcake in '' @ tray"
definition Bake :: "string \<Rightarrow> string" where "Bake mixture = ''baked '' @ mixture"
definition AddToppings :: "string \<Rightarrow> string" where "AddToppings bakedCupCake = ''topping on '' @ bakedCupCake"
definition Box :: "string \<Rightarrow> string" where "Box finishedCupCake = finishedCupCake @ '' boxed''"

fun on_number :: "(int \<Rightarrow> string) \<Rightarrow> bakery \<Rightarrow> bakery" where
  "on_number f (Number n) = Text (f n)" | "on_number f (Text s) = Text s"

fun on_text :: "(string \<Rightarrow> string) \<Rightarrow> bakery \<Rightarrow> bakery" where
  "on_text f (Text s) = Text (f s)" | "on_text f (Number n) = Number n"

definition bakery_main :: "bakery pipe" where
  "bakery_main = pipeline False (map (\<lambda>i. Number (int i)) [0..<10])
     [AddOnPipe (Number 0) (on_number PrepareTray), AddOnPipe (Text '''') (on_text Mixture), AddOnPipe (Text '''') (on_text Bake),
      AddOnPipe (Text '''') (on_text AddToppings), AddOnPipe (Text '''') (on_text Box)]"

section \<open>Properties of the pipelines\<close>

text \<open>
  In every interleaving the consumer of a pipeline has received the results of the first
  values, in their order, each once: for stages that ask whether their input is closed through closing
  and stopping as well, for those of \<^verbatim>\<open>AddOnPipe\<close> as long as nobody quits.
\<close>

theorem pipeline_in_order:
  assumes "pipe_reach (pipeline gen values stages) p" and "fresh_stages stages"
    and "list_all (\<lambda>s. st_zero s = None) stages \<or> \<not> gen \<and> \<not> pp_done p"
  shows "prefix (pp_got p) (map (run_stages stages) values)"
proof -
  note inv = pipe_reach_order [OF assms(1,2)]
  from inv assms(3) have "in_order values p" by blast
  moreover from inv have "run_stages (pp_stages p) = run_stages stages" by (intro run_stages_funs) simp
  ultimately show ?thesis unfolding in_order_def prefix_def by metis
qed

lemma bakery_stages_fun:
  "run_stages (pp_stages bakery_main) (Number n)
    = Text (''topping on baked cupcake in tray number '' @ int_text n @ '' boxed'')"
  by (simp add: run_stages_def bakery_main_def pipeline_def AddOnPipe_def PrepareTray_def Mixture_def Bake_def
      AddToppings_def Box_def)

text \<open>The run of one value through one stage.\<close>

definition sum_pipe :: "64 word pipe" where "sum_pipe = pipeline True [3] [Multiply 2]"

lemma sum_pipe_runs:
  "pipe_reach sum_pipe (sum_pipe\<lparr>pp_todo := [], pp_stages := [(Multiply 2)\<lparr>st_phase := Sending 6\<rparr>]\<rparr>)"
proof -
  have "pipe_step sum_pipe (after_receive 0 3 (after_send 0 sum_pipe))"
    by (rule pipe_step.transfer) (simp_all add: sum_pipe_def pipeline_def receives_def Multiply_def)
  from pipe_reach.goroutine [OF pipe_reach.start this] show ?thesis
    by (simp add: sum_pipe_def pipeline_def after_receive_def set_st_def Multiply_def)
qed

lemma sum_pipe_sent:
  "pipe_reach sum_pipe (sum_pipe\<lparr>pp_todo := [], pp_stages := [Multiply 2], pp_got := [6]\<rparr>)"
proof -
  let ?p = "sum_pipe\<lparr>pp_todo := [], pp_stages := [(Multiply 2)\<lparr>st_phase := Sending 6\<rparr>]\<rparr>"
  have "pipe_step ?p (after_receive 1 6 (after_send 1 ?p))"
    by (rule pipe_step.transfer) (simp_all add: sum_pipe_def pipeline_def receives_def Multiply_def)
  from pipe_reach.goroutine [OF sum_pipe_runs this] show ?thesis
    by (simp add: sum_pipe_def pipeline_def after_receive_def set_st_def Multiply_def)
qed

theorem pipeline_in_order_witness: "prefix [6] (map (run_stages [Multiply 2]) [3])"
  using pipeline_in_order [OF sum_pipe_sent [unfolded sum_pipe_def]]
  by (simp add: fresh_stages_def Multiply_def)

text \<open>
  C17. A pipeline from \<^verbatim>\<open>Generator\<close> through \<^verbatim>\<open>Multiply\<close> and \<^verbatim>\<open>Add\<close> always comes to an end: every step of
  its goroutines leaves less to do, and when none can go on although the done channel is open and the
  consumer reads, the consumer has all results and every goroutine has returned.
\<close>

theorem pipeline_terminates:
  assumes "pipe_reach (pipeline True values stages) p" and "fresh_stages stages" and "list_all (\<lambda>s. st_zero s = None) stages"
  shows "(\<forall>p'. pipe_step p p' \<longrightarrow> work p' < work p)
    \<and> (\<not> pp_done p \<and> pp_reading p \<and> (\<nexists>p'. pipe_step p p') \<longrightarrow>
         pp_got p = map (run_stages stages) values \<and> pp_exited p \<and> list_all (\<lambda>s. st_phase s = Exited) (pp_stages p))"
proof -
  note inv = pipe_reach_order [OF assms(1,2)]
  from inv assms(3) have asks: "asks p" and order: "in_order values p" and gen: "pp_generator p" by blast+
  from inv have "run_stages (pp_stages p) = run_stages stages" by (intro run_stages_funs) simp
  then show ?thesis
    using step_work [OF _ asks] stuck_complete [OF _ _ _ asks gen _ order] reach_closed_ok [OF assms(1,2)] by metis
qed

theorem pipeline_terminates_witness:
  "work (sum_pipe\<lparr>pp_todo := [], pp_stages := [(Multiply 2)\<lparr>st_phase := Selecting\<rparr>], pp_got := [6]\<rparr>)
    < work (sum_pipe\<lparr>pp_todo := [], pp_stages := [(Multiply 2)\<lparr>st_phase := Sending 6\<rparr>]\<rparr>)"
proof -
  let ?p = "sum_pipe\<lparr>pp_todo := [], pp_stages := [(Multiply 2)\<lparr>st_phase := Sending 6\<rparr>]\<rparr>"
  have "pipe_step ?p (after_receive 1 6 (after_send 1 ?p))"
    by (rule pipe_step.transfer) (simp_all add: sum_pipe_def pipeline_def receives_def Multiply_def)
  moreover have "after_receive 1 6 (after_send 1 ?p)
      = sum_pipe\<lparr>pp_todo := [], pp_stages := [(Multiply 2)\<lparr>st_phase := Selecting\<rparr>], pp_got := [6]\<rparr>"
    by (simp add: sum_pipe_def pipeline_def after_receive_def set_st_def Multiply_def)
  ultimately show ?thesis
    using pipeline_terminates [of "[3]" "[Multiply 2]", folded sum_pipe_def, OF sum_pipe_runs]
    by (simp add: fresh_stages_def Multiply_def)
qed

text \<open>
  Closing the done channel does not end a pipeline whose consumer has left: \<^verbatim>\<open>Multiply\<close> and \<^verbatim>\<open>Add\<close>
  send their result outside of the select, so the goroutine stays at its send for ever.
\<close>

theorem stage_leaks:
  "\<exists>p. pipe_reach sum_pipe p \<and> pp_done p \<and> st_phase (pp_stages p ! 0) = Sending 6
     \<and> (\<forall>p'. pipe_step p p' \<longrightarrow> st_phase (pp_stages p' ! 0) = Sending 6 \<and> pp_exited p' \<and> (\<forall>p''. \<not> pipe_step p' p''))"
proof -
  define p where "p = sum_pipe\<lparr>pp_todo := [], pp_stages := [(Multiply 2)\<lparr>st_phase := Sending 6\<rparr>], pp_reading := False, pp_done := True\<rparr>"
  have reach: "pipe_reach sum_pipe p"
    unfolding p_def
    using pipe_reach.user [OF pipe_reach.user [OF sum_pipe_runs user_step.stop_reading] user_step.close_done]
    by (simp add: sum_pipe_def pipeline_def)
  have stuck: "p' = q\<lparr>pp_exited := True\<rparr> \<and> \<not> pp_exited q"
    if "pipe_step q p'" "pp_stages q = [(Multiply 2)\<lparr>st_phase := Sending 6\<rparr>]" "pp_todo q = []" "\<not> pp_reading q" for q p' :: "64 word pipe"
    using that(1)
  proof cases
    case (transfer i v)
    with that(2-4) have "i = 1" by (cases i) (auto split: if_splits)
    with transfer that(2-4) show ?thesis by (simp add: receives_def)
  qed (use that(2-4) in \<open>auto simp: less_Suc_eq\<close>)
  have fields: "pp_stages p = [(Multiply 2)\<lparr>st_phase := Sending 6\<rparr>]" "pp_todo p = []" "\<not> pp_reading p" "pp_done p"
    by (simp_all add: p_def)
  have "st_phase (pp_stages p' ! 0) = Sending 6 \<and> pp_exited p' \<and> (\<forall>p''. \<not> pipe_step p' p'')" if "pipe_step p p'" for p'
  proof -
    from stuck [OF that fields(1-3)] have eq: "p' = p\<lparr>pp_exited := True\<rparr>" by simp
    moreover have "\<not> pipe_step p' p''" for p'' using stuck [of p' p''] fields unfolding eq by auto
    ultimately show ?thesis using fields by (simp add: Multiply_def)
  qed
  with reach fields show ?thesis by (intro exI [of _ p]) (simp add: Multiply_def)
qed


text \<open>
  When the pipeline of \<^verbatim>\<open>AddOnPipe\<close> is told to quit, a stage may take the closed stream before it for a
  value: it does not ask, so the consumer receives a result of no input at all.
\<close>

theorem quit_makes_results:
  "\<exists>p. pipe_reach (pipeline False values [AddOnPipe x f, AddOnPipe y g]) p \<and> pp_got p = [g y]"
proof -
  let ?ss = "\<lambda>a b. [(AddOnPipe x f)\<lparr>st_phase := a\<rparr>, (AddOnPipe y g)\<lparr>st_phase := b\<rparr>]"
  let ?p = "\<lambda>a b got. \<lparr>pp_generator = False, pp_done = True, pp_todo = values, pp_exited = False, pp_stages = ?ss a b,
      pp_got = got, pp_reading = True\<rparr>"
  let ?r = "pipe_reach (pipeline False values [AddOnPipe x f, AddOnPipe y g])"
  have "?r (?p Selecting Selecting [])"
    using pipe_reach.user [OF pipe_reach.start user_step.close_done,
        of "pipeline False values [AddOnPipe x f, AddOnPipe y g]"] by (simp add: pipeline_def AddOnPipe_def)
  moreover have "pipe_step (?p Selecting Selecting []) (?p Exited Selecting [])"
    using pipe_step.stage_done [of 0 "?p Selecting Selecting []"] by (simp add: set_st_def AddOnPipe_def)
  moreover have "pipe_step (?p Exited Selecting []) (?p Exited (Sending (g y)) [])"
    using pipe_step.stage_zero [of 1 "?p Exited Selecting []" y] by (simp add: set_st_def AddOnPipe_def)
  moreover have "pipe_step (?p Exited (Sending (g y)) []) (?p Exited Selecting [g y])"
    using pipe_step.transfer [of 2 "?p Exited (Sending (g y)) []" "g y"]
    by (simp add: set_st_def AddOnPipe_def receives_def after_receive_def numeral_2_eq_2)
  ultimately have "?r (?p Exited Selecting [g y])" by (meson pipe_reach.goroutine)
  then show ?thesis by (intro exI [of _ "?p Exited Selecting [g y]"]) simp
qed


section \<open>The or-channel\<close>

text \<open>
  Goroutine \<open>k\<close> of a call of \<^verbatim>\<open>Or\<close> has its own channel \<open>base + k\<close> and is waiting in its select, or
  has returned, which closes the channel, or has not evaluated its select yet; that evaluation calls
  \<^verbatim>\<open>Or\<close> again for the channels after the third and its own one.
\<close>

datatype or_phase = Starting | Waiting "nat list" | Returned

record or_state =
  or_base :: nat
  or_closed :: "nat set"
  or_go :: "(nat list \<times> or_phase) list"

text \<open>The result of a call, \<open>None\<close> the nil channel, and the goroutine it starts.\<close>

fun Or :: "nat \<Rightarrow> nat list \<Rightarrow> nat option \<times> (nat list \<times> or_phase) list" where
  "Or new [] = (None, [])"
| "Or new [c] = (Some c, [])"
| "Or new channels = (Some new, [(channels, Starting)])"

definition or_start :: "nat \<Rightarrow> nat list \<Rightarrow> or_state" where
  "or_start base channels = \<lparr>or_base = base, or_closed = {}, or_go = snd (Or base channels)\<rparr>"

definition eval_select :: "nat \<Rightarrow> or_state \<Rightarrow> or_state" where
  "eval_select k s =
     (let channels = fst (or_go s ! k); orDone = or_base s + k in
      if length channels = 2 then s\<lparr>or_go := (or_go s)[k := (channels, Waiting channels)]\<rparr>
      else case Or (or_base s + length (or_go s)) (drop 3 channels @ [orDone]) of (r, go) \<Rightarrow>
        s\<lparr>or_go := (or_go s)[k := (channels, Waiting (take 3 channels @ (case r of None \<Rightarrow> [] | Some c \<Rightarrow> [c])))] @ go\<rparr>)"

definition or_return :: "nat \<Rightarrow> or_state \<Rightarrow> or_state" where
  "or_return k s = s\<lparr>or_go := (or_go s)[k := (fst (or_go s ! k), Returned)], or_closed := insert (or_base s + k) (or_closed s)\<rparr>"

inductive or_step :: "or_state \<Rightarrow> or_state \<Rightarrow> bool" where
  eval: "k < length (or_go s) \<Longrightarrow> snd (or_go s ! k) = Starting \<Longrightarrow> or_step s (eval_select k s)"
| ready: "k < length (or_go s) \<Longrightarrow> snd (or_go s ! k) = Waiting ws \<Longrightarrow> c \<in> set ws \<Longrightarrow> c \<in> or_closed s \<Longrightarrow>
    or_step s (or_return k s)"

text \<open>The inputs, the numbers below the base, are closed by others.\<close>

inductive or_reach :: "nat \<Rightarrow> nat list \<Rightarrow> or_state \<Rightarrow> bool" for base channels where
  start: "or_reach base channels (or_start base channels)"
| goroutine: "or_reach base channels s \<Longrightarrow> or_step s s' \<Longrightarrow> or_reach base channels s'"
| input: "or_reach base channels s \<Longrightarrow> c < base \<Longrightarrow> or_reach base channels (s\<lparr>or_closed := insert c (or_closed s)\<rparr>)"


text \<open>The goroutines of nested calls form a chain.\<close>

abbreviation chs :: "or_state \<Rightarrow> nat \<Rightarrow> nat list" where "chs s k \<equiv> fst (or_go s ! k)"
abbreviation ph :: "or_state \<Rightarrow> nat \<Rightarrow> or_phase" where "ph s k \<equiv> snd (or_go s ! k)"

definition waits_for :: "nat \<Rightarrow> nat list \<Rightarrow> nat \<Rightarrow> nat list" where
  "waits_for base cs k =
     (if length cs = 2 then cs else take 3 cs @ [if length cs = 3 then base + k else base + Suc k])"

definition or_inv :: "nat \<Rightarrow> nat list \<Rightarrow> or_state \<Rightarrow> bool" where
  "or_inv base channels s \<longleftrightarrow>
     or_base s = base \<and> or_go s \<noteq> [] \<and> chs s 0 = channels
     \<and> (\<forall>k < length (or_go s). 2 \<le> length (chs s k) \<and> (\<forall>c\<in>set (chs s k). c < base \<longrightarrow> c \<in> set channels)
          \<and> (ph s k = Returned \<longleftrightarrow> base + k \<in> or_closed s)
          \<and> (ph s k \<noteq> Starting \<and> 4 \<le> length (chs s k) \<longleftrightarrow> Suc k < length (or_go s))
          \<and> (Suc k < length (or_go s) \<longrightarrow> chs s (Suc k) = drop 3 (chs s k) @ [base + k])
          \<and> (\<forall>ws. ph s k = Waiting ws \<longrightarrow> ws = waits_for base (chs s k) k))
     \<and> (\<forall>c\<in>or_closed s. base \<le> c \<longrightarrow> c < base + length (or_go s) \<and> (\<exists>i\<in>set channels. i < base \<and> i \<in> or_closed s))"

lemma or_invD:
  assumes "or_inv base channels s" and "k < length (or_go s)"
  shows "2 \<le> length (chs s k)" and "\<And>c. c \<in> set (chs s k) \<Longrightarrow> c < base \<Longrightarrow> c \<in> set channels"
    and "ph s k = Returned \<longleftrightarrow> base + k \<in> or_closed s"
    and "ph s k \<noteq> Starting \<and> 4 \<le> length (chs s k) \<longleftrightarrow> Suc k < length (or_go s)"
    and "Suc k < length (or_go s) \<Longrightarrow> chs s (Suc k) = drop 3 (chs s k) @ [base + k]"
    and "ph s k = Waiting ws \<Longrightarrow> ws = waits_for base (chs s k) k"
  using assms unfolding or_inv_def by blast+

lemma or_start_inv:
  assumes "2 \<le> length channels" and "\<forall>c\<in>set channels. c < base"
  shows "or_inv base channels (or_start base channels)"
proof -
  from assms(1) obtain a b cs where "channels = a # b # cs" by (cases channels; cases "tl channels") auto
  then show ?thesis by (simp add: or_inv_def or_start_def)
qed

lemma or_two: "2 \<le> length cs \<Longrightarrow> Or new cs = (Some new, [(cs, Starting)])"
  by (cases cs; cases "tl cs") auto

text \<open>What evaluating the select of the last goroutine gives.\<close>

lemma eval_cases:
  assumes "or_inv base channels s" and "k < length (or_go s)" and "ph s k = Starting"
  obtains (short) "k = length (or_go s) - 1" "length (chs s k) < 4"
      "eval_select k s = s\<lparr>or_go := (or_go s)[k := (chs s k, Waiting (waits_for base (chs s k) k))]\<rparr>"
    | (long) "k = length (or_go s) - 1" "4 \<le> length (chs s k)"
      "eval_select k s = s\<lparr>or_go := (or_go s)[k := (chs s k, Waiting (waits_for base (chs s k) k))]
         @ [(drop 3 (chs s k) @ [base + k], Starting)]\<rparr>"
proof -
  note inv = or_invD [OF assms(1,2)]
  from inv(4) assms(2,3) have last: "length (or_go s) = Suc k" by auto
  have base: "or_base s = base" using assms(1) by (simp add: or_inv_def)
  consider "length (chs s k) = 2" | "length (chs s k) = 3" | "4 \<le> length (chs s k)" using inv(1) by linarith
  then show ?thesis
  proof cases
    case 1
    then show ?thesis using last by (intro short) (simp_all add: eval_select_def waits_for_def Let_def)
  next
    case 2
    then show ?thesis using last base by (intro short) (simp_all add: eval_select_def waits_for_def Let_def)
  next
    case 3
    have "2 \<le> length (drop 3 (chs s k) @ [base + k])" using 3 by simp
    from or_two [OF this] show ?thesis using 3 last base
      by (intro long) (simp_all add: eval_select_def waits_for_def Let_def)
  qed
qed

lemma or_step_inv:
  assumes "or_step s s'" and inv: "or_inv base channels s"
  shows "or_inv base channels s'"
  using assms(1)
proof cases
  case (eval k)
  show ?thesis
    using inv eval(2,3)
  proof (cases rule: eval_cases)
    case short
    then have last: "length (or_go s) = Suc k" using eval(2) by simp
    let ?go = "(or_go s)[k := (chs s k, Waiting (waits_for base (chs s k) k))]"
    have fst: "fst (?go ! j) = chs s j" for j by (cases "j = k") (use eval(2) in \<open>simp_all add: nth_list_update\<close>)
    have "snd (?go ! j) = (if j = k then Waiting (waits_for base (chs s k) k) else ph s j)" for j
      using eval(2) by (simp add: nth_list_update)
    moreover have "base + k \<notin> or_closed s" using or_invD(3) [OF inv eval(2)] eval(3) by simp
    ultimately show ?thesis unfolding eval(1) short(3) using inv short(2) last fst
      by (auto simp: or_inv_def less_Suc_eq)
  next
    case long
    then have last: "length (or_go s) = Suc k" using eval(2) by simp
    let ?go = "(or_go s)[k := (chs s k, Waiting (waits_for base (chs s k) k))] @ [(drop 3 (chs s k) @ [base + k], Starting)]"
    have fst: "fst (?go ! j) = chs s j" if "j \<le> k" for j
      using that last by (cases "j = k") (simp_all add: nth_append)
    have snd: "snd (?go ! j) = (if j = k then Waiting (waits_for base (chs s k) k) else ph s j)" if "j \<le> k" for j
      using that last by (simp add: nth_append nth_list_update)
    have new: "?go ! Suc k = (drop 3 (chs s k) @ [base + k], Starting)" using last by (simp add: nth_append)
    have k: "base + k \<notin> or_closed s" using or_invD(3) [OF inv eval(2)] eval(3) by simp
    have k1: "base + Suc k \<notin> or_closed s" using inv last by (auto simp: or_inv_def)
    have sub: "c \<in> set channels" if "c \<in> set (drop 3 (chs s k))" "c < base" for c
      using or_invD(2) [OF inv eval(2)] that by (meson in_set_dropD)
    have pos: "chs s 0 = channels" "or_base s = base" using inv by (simp_all add: or_inv_def)
    have each: "2 \<le> length (fst (?go ! j)) \<and> (\<forall>c\<in>set (fst (?go ! j)). c < base \<longrightarrow> c \<in> set channels)
          \<and> (snd (?go ! j) = Returned \<longleftrightarrow> base + j \<in> or_closed s)
          \<and> (snd (?go ! j) \<noteq> Starting \<and> 4 \<le> length (fst (?go ! j)) \<longleftrightarrow> Suc j < Suc (Suc k))
          \<and> (Suc j < Suc (Suc k) \<longrightarrow> fst (?go ! Suc j) = drop 3 (fst (?go ! j)) @ [base + j])
          \<and> (\<forall>ws. snd (?go ! j) = Waiting ws \<longrightarrow> ws = waits_for base (fst (?go ! j)) j)" if "j < Suc (Suc k)" for j
    proof -
      consider "j < k" | "j = k" | "j = Suc k" using \<open>j < Suc (Suc k)\<close> by linarith
      then show ?thesis
      proof cases
        case 1
        then have j: "j < length (or_go s)" using last by simp
        from or_invD [OF inv j] 1 last fst [of j] fst [of "Suc j"] snd [of j] show ?thesis by auto
      next
        case 2
        from or_invD [OF inv eval(2)] 2 long(2) fst [of k] snd [of k] new k show ?thesis by auto
      next
        case 3
        then show ?thesis using new long(2) k1 sub by (auto simp del: drop_append)
      qed
    qed
    have len: "length ?go = Suc (Suc k)" using last by simp
    have closed: "\<forall>c\<in>or_closed s. base \<le> c \<longrightarrow> c < base + Suc (Suc k) \<and> (\<exists>i\<in>set channels. i < base \<and> i \<in> or_closed s)"
      using inv last unfolding or_inv_def by (metis add_Suc_right less_SucI)
    have zero: "fst (?go ! 0) = channels" using fst [of 0] pos by simp
    have "or_base (s\<lparr>or_go := ?go\<rparr>) = base \<and> or_go (s\<lparr>or_go := ?go\<rparr>) = ?go \<and> or_closed (s\<lparr>or_go := ?go\<rparr>) = or_closed s"
      using pos by simp
    then show ?thesis unfolding eval(1) long(3) or_inv_def using each closed zero len by (simp only: simp_thms) blast
  qed
next
  case (ready k ws c)
  let ?go = "(or_go s)[k := (chs s k, Returned)]"
  have fst: "fst (?go ! j) = chs s j" for j by (cases "j = k") (use ready(2) in \<open>simp_all add: nth_list_update\<close>)
  have snd: "snd (?go ! j) = (if j = k then Returned else ph s j)" for j
    using ready(2) by (simp add: nth_list_update)
  have base: "or_base s = base" using inv by (simp add: or_inv_def)
  have "\<exists>i\<in>set channels. i < base \<and> i \<in> or_closed s"
  proof (cases "c < base")
    case True
    have "c \<in> set (waits_for base (chs s k) k)" using or_invD(6) [OF inv ready(2,3)] ready(4) by simp
    with True have "c \<in> set (chs s k)" by (auto simp: waits_for_def dest: in_set_takeD split: if_splits)
    with or_invD(2) [OF inv ready(2) this True] True ready(5) show ?thesis by blast
  next
    case False
    with inv ready(5) show ?thesis by (auto simp: or_inv_def)
  qed
  note some = this
  let ?s = "s\<lparr>or_go := ?go, or_closed := insert (base + k) (or_closed s)\<rparr>"
  have each: "2 \<le> length (chs ?s j) \<and> (\<forall>c\<in>set (chs ?s j). c < base \<longrightarrow> c \<in> set channels)
          \<and> (ph ?s j = Returned \<longleftrightarrow> base + j \<in> or_closed ?s)
          \<and> (ph ?s j \<noteq> Starting \<and> 4 \<le> length (chs ?s j) \<longleftrightarrow> Suc j < length (or_go ?s))
          \<and> (Suc j < length (or_go ?s) \<longrightarrow> chs ?s (Suc j) = drop 3 (chs ?s j) @ [base + j])
          \<and> (\<forall>ws. ph ?s j = Waiting ws \<longrightarrow> ws = waits_for base (chs ?s j) j)" if "j < length (or_go s)" for j
    using or_invD [OF inv that] or_invD(4) [OF inv ready(2)] ready(3) by (simp add: fst snd)
  have closed: "\<forall>c\<in>or_closed ?s. base \<le> c \<longrightarrow> c < base + length (or_go ?s) \<and> (\<exists>i\<in>set channels. i < base \<and> i \<in> or_closed ?s)"
  proof (intro ballI impI)
    fix c assume c: "c \<in> or_closed ?s" "base \<le> c"
    have "c < base + length (or_go s)"
    proof (cases "c = base + k")
      case False
      with c have "c \<in> or_closed s" by simp
      with inv c(2) show ?thesis by (simp add: or_inv_def)
    qed (use ready(2) in simp)
    with some show "c < base + length (or_go ?s) \<and> (\<exists>i\<in>set channels. i < base \<and> i \<in> or_closed ?s)" by auto
  qed
  have zero: "or_base ?s = base \<and> or_go ?s \<noteq> [] \<and> chs ?s 0 = channels" using inv base fst by (auto simp: or_inv_def)
  have "or_return k s = ?s" by (simp add: or_return_def base)
  then show ?thesis unfolding ready(1) or_inv_def using each closed zero by (simp only: simp_thms) simp
qed


lemma or_reach_inv:
  assumes "or_reach base channels s" and "2 \<le> length channels" and "\<forall>c\<in>set channels. c < base"
  shows "or_inv base channels s"
  using assms(1)
proof (induction rule: or_reach.induct)
  case start
  show ?case by (rule or_start_inv [OF assms(2,3)])
next
  case (goroutine s s')
  then show ?case by (blast intro: or_step_inv)
next
  case (input s c)
  then show ?case by (auto simp: or_inv_def)
qed

fun or_phase_work :: "nat list \<times> or_phase \<Rightarrow> nat" where
  "or_phase_work (cs, Starting) = 2 * length cs"
| "or_phase_work (cs, Waiting ws) = 1"
| "or_phase_work (cs, Returned) = 0"

definition or_work :: "or_state \<Rightarrow> nat" where
  "or_work s = sum_list (map or_phase_work (or_go s))"

lemma or_step_work:
  assumes "or_step s s'" and "or_inv base channels s"
  shows "or_work s' < or_work s"
  using assms(1)
proof cases
  case (eval k)
  note go = or_invD [OF assms(2) eval(2)]
  have old: "or_phase_work (or_go s ! k) = 2 * length (chs s k)" using eval(3) by (cases "or_go s ! k") simp
  show ?thesis
    using assms(2) eval(2,3)
  proof (cases rule: eval_cases)
    case short
    with go(1) old sum_list_change [OF eval(2), of or_phase_work "(chs s k, Waiting (waits_for base (chs s k) k))"]
    show ?thesis by (simp add: eval(1) or_work_def)
  next
    case long
    with old sum_list_change [OF eval(2), of or_phase_work "(chs s k, Waiting (waits_for base (chs s k) k))"]
    show ?thesis by (simp add: eval(1) or_work_def) linarith
  qed
next
  case (ready k ws c)
  have "or_phase_work (or_go s ! k) = 1" using ready(3) by (cases "or_go s ! k") simp
  with sum_list_change [OF ready(2), of or_phase_work "(chs s k, Returned)"] show ?thesis
    by (simp add: ready(1) or_work_def or_return_def)
qed

lemma stuck_returned:
  assumes inv: "or_inv base channels s" and stuck: "\<And>s'. \<not> or_step s s'"
    and "k < length (or_go s)" and "c \<in> set (chs s k)" and "c \<in> or_closed s"
  shows "ph s k = Returned"
  using assms(3-5)
proof (induction "length (or_go s) - k" arbitrary: k c rule: less_induct)
  case less
  note go = or_invD [OF inv less.prems(1)]
  have fire: "ph s k = Returned" if "x \<in> set (waits_for base (chs s k) k)" "x \<in> or_closed s" for x
  proof (cases "ph s k")
    case Starting
    with or_step.eval [OF less.prems(1)] stuck show ?thesis by blast
  next
    case (Waiting ws)
    with go(6) or_step.ready [OF less.prems(1) Waiting _ that(2)] that(1) stuck show ?thesis by blast
  qed
  show ?case
  proof (cases "c \<in> set (waits_for base (chs s k) k)")
    case True
    then show ?thesis using fire less.prems(3) by blast
  next
    case False
    have c_in: "c \<in> set (take 3 (chs s k)) \<or> c \<in> set (drop 3 (chs s k))"
      using less.prems(2) by (metis Un_iff append_take_drop_id set_append)
    have not2: "length (chs s k) \<noteq> 2" using False less.prems(2) by (auto simp: waits_for_def)
    with False have "c \<notin> set (take 3 (chs s k))" by (simp add: waits_for_def)
    with c_in have c: "c \<in> set (drop 3 (chs s k))" by blast
    then have "drop 3 (chs s k) \<noteq> []" by auto
    then have long: "4 \<le> length (chs s k)" by simp
    have "ph s k \<noteq> Starting" using or_step.eval [OF less.prems(1)] stuck by blast
    with go(4) long have next': "Suc k < length (or_go s)" by simp
    with go(5) c have "c \<in> set (chs s (Suc k))" by simp
    with less.hyps [of "Suc k" c] next' less.prems(1,3) have "ph s (Suc k) = Returned" by simp
    with or_invD(3) [OF inv next'] have "base + Suc k \<in> or_closed s" by simp
    moreover have "base + Suc k \<in> set (waits_for base (chs s k) k)" using long by (simp add: waits_for_def)
    ultimately show ?thesis using fire by blast
  qed
qed

lemma stuck_all_returned:
  assumes inv: "or_inv base channels s" and stuck: "\<And>s'. \<not> or_step s s'"
    and "c \<in> set channels" and "c \<in> or_closed s" and "k < length (or_go s)"
  shows "ph s k = Returned"
  using assms(5)
proof (induction k)
  case 0
  from inv assms(3) have c: "c \<in> set (chs s 0)" by (simp add: or_inv_def)
  show ?case by (rule stuck_returned [OF inv stuck 0 c assms(4)])
next
  case (Suc k)
  then have k: "k < length (or_go s)" by simp
  from Suc.IH [OF k] or_invD(3) [OF inv k] have "base + k \<in> or_closed s" by simp
  moreover have "base + k \<in> set (chs s (Suc k))" using or_invD(5) [OF inv k] Suc.prems by simp
  ultimately show ?case using stuck_returned [OF inv stuck Suc.prems] by blast
qed



end
