(* ===== verification/Labels.thy ===== *)
theory Labels
  imports Prelude "HOL-Library.Char_ord" "HOL-Library.List_Lexorder"
begin

text \<open>
  The label sets of \<^verbatim>\<open>yaml/labels.go\<close> and the configuration of \<^verbatim>\<open>yaml/unmarshal.go\<close> and
  \<^verbatim>\<open>yaml/inline.go\<close>.  A string is its list of bytes, ordered as \<^verbatim>\<open>strings.Compare\<close> does; the order in which
  \<^verbatim>\<open>range\<close> visits a map, the decoders of YAML and JSON and \<^verbatim>\<open>strconv.AppendQuote\<close>, which depends on the
  tables of printable characters, are arguments.
\<close>

section \<open>Labels\<close>

record Label =
  lb_Name :: string
  lb_Value :: string

type_synonym labels = "Label list"

text \<open>\<^verbatim>\<open>Range\<close> with a callback that threads a state.\<close>

definition Labels_Range :: "(Label \<Rightarrow> 's \<Rightarrow> 's) \<Rightarrow> labels \<Rightarrow> 's \<Rightarrow> 's" where
  "Labels_Range f ls s = fold f ls s"

definition labelSep :: char where "labelSep = CHR 0xFE"
definition sep :: char where "sep = CHR 0xFF"

text \<open>The loop is over characters; one of several bytes is above all these ranges, as its bytes are.\<close>

definition in_range :: "char \<Rightarrow> char \<Rightarrow> char \<Rightarrow> bool" where
  "in_range a z b \<longleftrightarrow> a \<le> b \<and> b \<le> z"

definition legacy_char :: "nat \<Rightarrow> char \<Rightarrow> bool" where
  "legacy_char i b \<longleftrightarrow> in_range (CHR ''a'') (CHR ''z'') b \<or> in_range (CHR ''A'') (CHR ''Z'') b \<or> b = CHR ''_''
     \<or> in_range (CHR ''0'') (CHR ''9'') b \<and> i > 0"

fun legacy_from :: "nat \<Rightarrow> string \<Rightarrow> bool" where
  "legacy_from i [] = True"
| "legacy_from i (b # bs) = (if \<not> legacy_char i b then False else legacy_from (Suc i) bs)"

definition IsValidLegacy :: "string \<Rightarrow> bool" where
  "IsValidLegacy ln = (if ln = [] then False else legacy_from 0 ln)"

definition write_label :: "(string \<Rightarrow> string) \<Rightarrow> Label \<Rightarrow> nat \<times> string \<Rightarrow> nat \<times> string" where
  "write_label quote l = (\<lambda>(i, b).
     (i + 1, b @ (if i > 0 then '', '' else [])
       @ (if \<not> IsValidLegacy (lb_Name l) then quote (lb_Name l) else lb_Name l)
       @ ''='' @ quote (lb_Value l)))"

definition Labels_String :: "(string \<Rightarrow> string) \<Rightarrow> labels \<Rightarrow> string" where
  "Labels_String quote ls = snd (Labels_Range (write_label quote) ls (0, ''{'')) @ ''}''"

fun bytes_from :: "nat \<Rightarrow> labels \<Rightarrow> string" where
  "bytes_from i [] = []"
| "bytes_from i (l # ls) = (if i > 0 then [sep] else []) @ lb_Name l @ [sep] @ lb_Value l @ bytes_from (Suc i) ls"

definition Labels_Bytes :: "labels \<Rightarrow> string" where
  "Labels_Bytes ls = labelSep # bytes_from 0 ls"

definition Labels_Len :: "labels \<Rightarrow> nat" where "Labels_Len ls = length ls"

definition Labels_Swap :: "int \<Rightarrow> int \<Rightarrow> labels \<Rightarrow> labels go" where
  "Labels_Swap i j ls =
     bnd (slice_get ls j) (\<lambda>b. bnd (slice_get ls i) (\<lambda>a.
     bnd (slice_set ls i b) (\<lambda>ls'. slice_set ls' j a)))"

definition Labels_Less :: "int \<Rightarrow> int \<Rightarrow> labels \<Rightarrow> bool go" where
  "Labels_Less i j ls = bnd (slice_get ls i) (\<lambda>a. bnd (slice_get ls j) (\<lambda>b. Inr (lb_Name a < lb_Name b)))"

definition Labels_Map :: "labels \<Rightarrow> (string \<rightharpoonup> string)" where
  "Labels_Map ls = Labels_Range (\<lambda>l m. m(lb_Name l \<mapsto> lb_Value l)) ls Map.empty"

text \<open>
  The caller of \<^verbatim>\<open>New\<close> guarantees that all names are different, so which sorted order the sort picks for equal
  ones does not matter.
\<close>

definition Labels_New :: "labels \<Rightarrow> labels" where
  "Labels_New ls = sort_key lb_Name ls"

definition FromMap :: "string list \<Rightarrow> (string \<rightharpoonup> string) \<Rightarrow> labels" where
  "FromMap order m = Labels_New (map (\<lambda>k. \<lparr>lb_Name = k, lb_Value = the (m k)\<rparr>) order)"

definition Labels_MarshalYAML :: "labels \<Rightarrow> (string \<rightharpoonup> string)" where
  "Labels_MarshalYAML ls = Labels_Map ls"

definition Labels_UnmarshalYAML :: "string list \<Rightarrow> string + (string \<rightharpoonup> string) \<Rightarrow> labels \<Rightarrow> string option \<times> labels" where
  "Labels_UnmarshalYAML order unmarshal ls =
     (case unmarshal of Inl err \<Rightarrow> (Some err, ls) | Inr m \<Rightarrow> (None, FromMap order m))"

definition Labels_MarshalJSON :: "((string \<rightharpoonup> string) \<Rightarrow> 'json) \<Rightarrow> labels \<Rightarrow> 'json" where
  "Labels_MarshalJSON marshal ls = marshal (Labels_Map ls)"

definition Labels_UnmarshalJSON ::
  "string list \<Rightarrow> ('json \<Rightarrow> string + (string \<rightharpoonup> string)) \<Rightarrow> 'json \<Rightarrow> labels \<Rightarrow> string option \<times> labels" where
  "Labels_UnmarshalJSON order unmarshal b ls =
     (case unmarshal b of Inl err \<Rightarrow> (Some err, ls) | Inr m \<Rightarrow> (None, FromMap order m))"

section \<open>Configuration\<close>

record BaseConfig =
  bc_Kind :: string
  bc_Name :: string

record ServerConfig =
  sc_ExternalLabels :: labels
  sc_Port :: int
  sc_Host :: string

record DatabaseConfig =
  dc_URL :: string
  dc_MaxConns :: int

record Config =
  cf_BaseConfig :: BaseConfig
  cf_ServerConfig :: ServerConfig
  cf_DatabaseConfig :: DatabaseConfig

definition BaseConfig_UnmarshalYAML ::
  "(BaseConfig \<Rightarrow> string + BaseConfig) \<Rightarrow> BaseConfig \<Rightarrow> string option \<times> BaseConfig" where
  "BaseConfig_UnmarshalYAML unmarshal c =
     (case unmarshal \<lparr>bc_Kind = [], bc_Name = []\<rparr> of
        Inl err \<Rightarrow> (Some err, c)
      | Inr bc \<Rightarrow>
          let bc1 = (if bc_Kind bc = [] then bc\<lparr>bc_Kind := ''ServerConfig''\<rparr> else bc);
              bc2 = (if bc_Name bc1 = [] then bc1\<lparr>bc_Name := ''default''\<rparr> else bc1)
          in (None, bc2))"

definition LoadConfig :: "(string \<Rightarrow> Config \<Rightarrow> string + Config) \<Rightarrow> string \<Rightarrow> string + Config" where
  "LoadConfig unmarshal content =
     unmarshal content
       \<lparr>cf_BaseConfig = \<lparr>bc_Kind = [], bc_Name = []\<rparr>,
        cf_ServerConfig = \<lparr>sc_ExternalLabels = [], sc_Port = 0, sc_Host = []\<rparr>,
        cf_DatabaseConfig = \<lparr>dc_URL = [], dc_MaxConns = 0\<rparr>\<rparr>"

record ImageConfig =
  im_Repository :: string
  im_Tag :: string
  im_ImagePullPolicy :: string

record ImageConfigs =
  ims_App :: ImageConfig
  ims_StartSeq :: ImageConfig
  ims_Sidecar :: ImageConfig

record GImages =
  gi_Prefix :: string
  gi_ImagePrefix :: string
  gi_ImagePullPolicy :: string
  gi_ImageConfigs :: ImageConfigs

section \<open>Maps and label sets\<close>

text \<open>A label set is sorted by name, and no name occurs twice.\<close>

definition labels_ok :: "labels \<Rightarrow> bool" where
  "labels_ok ls \<longleftrightarrow> sorted (map lb_Name ls) \<and> distinct (map lb_Name ls)"

lemma Labels_Map_eq: "distinct (map lb_Name ls) \<Longrightarrow> Labels_Map ls = map_of (map (\<lambda>l. (lb_Name l, lb_Value l)) ls)"
proof (induction ls rule: rev_induct)
  case (snoc l ls)
  then have "map_of (map (\<lambda>l. (lb_Name l, lb_Value l)) ls) (lb_Name l) = None"
    by (auto simp: map_of_eq_None_iff)
  with snoc show ?case
    by (auto simp: Labels_Map_def Labels_Range_def map_add_def fun_eq_iff split: option.split)
qed (simp add: Labels_Map_def Labels_Range_def)

lemma label_eta: "\<lparr>lb_Name = lb_Name l, lb_Value = lb_Value l\<rparr> = l" by (cases l) simp

lemma Labels_Map_in: "distinct (map lb_Name ls) \<Longrightarrow> Labels_Map ls k = Some v \<longleftrightarrow> \<lparr>lb_Name = k, lb_Value = v\<rparr> \<in> set ls"
proof -
  assume d: "distinct (map lb_Name ls)"
  have "map fst (map (\<lambda>l. (lb_Name l, lb_Value l)) ls) = map lb_Name ls" by (simp add: comp_def)
  with d have "Labels_Map ls k = Some v \<longleftrightarrow> (k, v) \<in> set (map (\<lambda>l. (lb_Name l, lb_Value l)) ls)"
    by (simp only: Labels_Map_eq map_of_eq_Some_iff)
  moreover have "(k, v) \<in> set (map (\<lambda>l. (lb_Name l, lb_Value l)) ls) \<longleftrightarrow> \<lparr>lb_Name = k, lb_Value = v\<rparr> \<in> set ls"
  proof
    assume "(k, v) \<in> set (map (\<lambda>l. (lb_Name l, lb_Value l)) ls)"
    then obtain l where "l \<in> set ls" "k = lb_Name l" "v = lb_Value l" by auto
    then show "\<lparr>lb_Name = k, lb_Value = v\<rparr> \<in> set ls" by (simp add: label_eta)
  next
    assume "\<lparr>lb_Name = k, lb_Value = v\<rparr> \<in> set ls"
    from imageI [OF this, of "\<lambda>l. (lb_Name l, lb_Value l)"] show "(k, v) \<in> set (map (\<lambda>l. (lb_Name l, lb_Value l)) ls)"
      by simp
  qed
  ultimately show ?thesis by simp
qed

lemma FromMap_ok:
  assumes "set order = dom m" and "distinct order"
  shows "labels_ok (FromMap order m)" and "\<lparr>lb_Name = k, lb_Value = v\<rparr> \<in> set (FromMap order m) \<longleftrightarrow> m k = Some v"
proof -
  let ?ls = "map (\<lambda>k. \<lparr>lb_Name = k, lb_Value = the (m k)\<rparr>) order"
  have sort: "distinct (map lb_Name (sort_key lb_Name xs)) = distinct (map lb_Name xs)" for xs
    by (simp add: distinct_map)
  have "distinct (map lb_Name ?ls)" using assms(2) by (simp add: comp_def)
  then have "distinct (map lb_Name (sort_key lb_Name ?ls))" by (simp only: sort)
  then show "labels_ok (FromMap order m)"
    unfolding labels_ok_def FromMap_def Labels_New_def using sorted_sort_key by blast
  show "\<lparr>lb_Name = k, lb_Value = v\<rparr> \<in> set (FromMap order m) \<longleftrightarrow> m k = Some v"
    using assms(1) by (auto simp: FromMap_def Labels_New_def)
qed


text \<open>Two label sets with the same members are the same list.\<close>

lemma labels_ok_unique:
  assumes "labels_ok ls" and "labels_ok ls'" and "set ls = set ls'"
  shows "ls = ls'"
proof -
  have "map lb_Name ls = map lb_Name ls'"
    using assms by (intro sorted_distinct_set_unique) (simp_all add: labels_ok_def)
  moreover have "inj_on lb_Name (set ls \<union> set ls')" using assms by (simp add: labels_ok_def distinct_map)
  ultimately show ?thesis by (rule map_inj_on)
qed

lemma FromMap_Map:
  assumes "set order = dom m" and "distinct order"
  shows "Labels_Map (FromMap order m) = m \<and> labels_ok (FromMap order m)
    \<and> (\<forall>ls. labels_ok ls \<and> Labels_Map ls = m \<longrightarrow> FromMap order m = ls)"
proof -
  note ok = FromMap_ok [OF assms]
  have d: "distinct (map lb_Name (FromMap order m))" using ok(1) by (simp add: labels_ok_def)
  have "Labels_Map (FromMap order m) k = Some v \<longleftrightarrow> m k = Some v" for k v
    using Labels_Map_in [OF d] ok(2) by simp
  then have map: "Labels_Map (FromMap order m) = m" by (metis ext not_None_eq)
  have "FromMap order m = ls" if "labels_ok ls" "Labels_Map ls = m" for ls
  proof (rule labels_ok_unique [OF ok(1) that(1)])
    have dl: "distinct (map lb_Name ls)" using that(1) by (simp add: labels_ok_def)
    have "\<lparr>lb_Name = k, lb_Value = v\<rparr> \<in> set (FromMap order m) \<longleftrightarrow> \<lparr>lb_Name = k, lb_Value = v\<rparr> \<in> set ls" for k v
      using Labels_Map_in [OF dl] ok(2) that(2) by simp
    then have "l \<in> set (FromMap order m) \<longleftrightarrow> l \<in> set ls" for l
      by (cases l) simp
    then show "set (FromMap order m) = set ls" by blast
  qed
  with map ok(1) show ?thesis by blast
qed

text \<open>
  C22. A label set survives being written and read: what \<^verbatim>\<open>UnmarshalYAML\<close> makes of the map of a label set is
  that label set, whatever order the map is visited in; and of any map it makes a sorted label set without
  duplicates whose map is that map.
\<close>

theorem Labels_roundtrip:
  assumes "set order = dom m" and "distinct order"
  shows "case Labels_UnmarshalYAML order (Inr m) old of (err, ls) \<Rightarrow>
      err = None \<and> sorted (map lb_Name ls) \<and> distinct (map lb_Name ls) \<and> Labels_MarshalYAML ls = m
      \<and> (\<forall>ls'. sorted (map lb_Name ls') \<and> distinct (map lb_Name ls') \<and> Labels_MarshalYAML ls' = m \<longrightarrow> ls = ls')"
  using FromMap_Map [OF assms]
  by (auto simp: Labels_UnmarshalYAML_def Labels_MarshalYAML_def labels_ok_def)

theorem Labels_roundtrip_witness:
  "fst (Labels_UnmarshalYAML [''b'', ''a''] (Inr [''a'' \<mapsto> ''1'', ''b'' \<mapsto> ''2'']) []) = None
   \<and> snd (Labels_UnmarshalYAML [''b'', ''a''] (Inr [''a'' \<mapsto> ''1'', ''b'' \<mapsto> ''2'']) [])
     = [\<lparr>lb_Name = ''a'', lb_Value = ''1''\<rparr>, \<lparr>lb_Name = ''b'', lb_Value = ''2''\<rparr>]"
proof -
  let ?m = "[''a'' \<mapsto> ''1'', ''b'' \<mapsto> ''2'']" and ?ls = "[\<lparr>lb_Name = ''a'', lb_Value = ''1''\<rparr>, \<lparr>lb_Name = ''b'', lb_Value = ''2''\<rparr>]"
  have o: "set [''b'', ''a''] = dom ?m" "distinct [''b'', ''a'']" by auto
  have "sorted (map lb_Name ?ls) \<and> distinct (map lb_Name ?ls) \<and> Labels_MarshalYAML ?ls = ?m"
    by (simp add: Labels_MarshalYAML_def Labels_Map_def Labels_Range_def fun_upd_twist less_eq_char_def)
  with Labels_roundtrip [OF o, of "[]"] show ?thesis by (auto split: prod.splits)
qed

section \<open>Bytes\<close>

text \<open>The labels as one list of fields.\<close>

fun fields :: "labels \<Rightarrow> string list" where
  "fields [] = []"
| "fields (l # ls) = lb_Name l # lb_Value l # fields ls"

lemma fields_inj: "fields ls = fields ls' \<Longrightarrow> ls = ls'"
proof (induction ls arbitrary: ls')
  case Nil
  then show ?case by (cases ls') auto
next
  case (Cons l ls)
  then show ?case by (cases ls') auto
qed

lemma bytes_from_pos: "bytes_from (Suc i) ls = concat (map (\<lambda>f. sep # f) (fields ls))"
  by (induction ls arbitrary: i) auto

lemma bytes_zero: "bytes_from 0 (l # ls) = lb_Name l @ concat (map (\<lambda>f. sep # f) (lb_Value l # fields ls))"
  by (simp add: bytes_from_pos)

lemma sep_fields_inj:
  assumes "a @ concat (map (\<lambda>f. c # f) fs) = b @ concat (map (\<lambda>f. c # f) gs)"
    and "c \<notin> set a" "c \<notin> set b" "\<forall>f\<in>set fs. c \<notin> set f" "\<forall>g\<in>set gs. c \<notin> set g"
  shows "a = b \<and> fs = gs"
  using assms
proof (induction fs arbitrary: a b gs)
  case Nil
  then show ?case by (cases gs) auto
next
  case (Cons f fs)
  show ?case
  proof (cases gs)
    case Nil
    with Cons.prems have "c \<in> set b" by (auto dest: arg_cong [where f = set])
    with Cons.prems show ?thesis by simp
  next
    case (Cons g gs')
    let ?x = "f @ concat (map (\<lambda>f. c # f) fs)" and ?y = "g @ concat (map (\<lambda>f. c # f) gs')"
    from Cons.prems(1) Cons have eq: "a @ c # ?x = b @ c # ?y" by simp
    then have "takeWhile (\<lambda>d. d \<noteq> c) (a @ c # ?x) = takeWhile (\<lambda>d. d \<noteq> c) (b @ c # ?y)" by simp
    moreover have "takeWhile (\<lambda>d. d \<noteq> c) (w @ c # z) = w" if "c \<notin> set w" for w z
      using that by (induction w) auto
    ultimately have "a = b" using Cons.prems(2,3) by simp
    with eq have "?x = ?y" by simp
    with Cons.IH [of f g gs'] Cons.prems(4,5) Cons \<open>a = b\<close> show ?thesis by simp
  qed
qed


definition no_sep :: "labels \<Rightarrow> bool" where
  "no_sep ls \<longleftrightarrow> list_all (\<lambda>l. sep \<notin> set (lb_Name l) \<and> sep \<notin> set (lb_Value l)) ls"

lemma no_sep_fields: "no_sep ls \<Longrightarrow> f \<in> set (fields ls) \<Longrightarrow> sep \<notin> set f"
  by (induction ls) (auto simp: no_sep_def)

lemma bytes_inj:
  assumes "no_sep ls" and "no_sep ls'" and "bytes_from 0 ls = bytes_from 0 ls'"
  shows "ls = ls'"
proof (cases ls)
  case Nil
  with assms(3) show ?thesis by (cases ls') auto
next
  case (Cons l ks)
  show ?thesis
  proof (cases ls')
    case Nil
    with assms(3) Cons show ?thesis by simp
  next
    case l': (Cons l' ks')
    have "lb_Name l = lb_Name l' \<and> lb_Value l # fields ks = lb_Value l' # fields ks'"
    proof (rule sep_fields_inj)
      show "lb_Name l @ concat (map (\<lambda>f. sep # f) (lb_Value l # fields ks))
          = lb_Name l' @ concat (map (\<lambda>f. sep # f) (lb_Value l' # fields ks'))"
        using assms(3) unfolding Cons l' bytes_zero .
    qed (use no_sep_fields [OF assms(1)] no_sep_fields [OF assms(2)] in \<open>auto simp: Cons l'\<close>)
    then show ?thesis using Cons l' fields_inj by auto
  qed
qed

text \<open>
  \<^verbatim>\<open>Bytes\<close> tells any two label sets apart whose names and values are without the separator byte, as
  every UTF-8 text is; with that byte in a value two label sets can have the same bytes.
\<close>

theorem Labels_Bytes_inj:
  assumes "no_sep ls" and "no_sep ls'"
  shows "Labels_Bytes ls = Labels_Bytes ls' \<longleftrightarrow> ls = ls'"
  using bytes_inj [OF assms] by (auto simp: Labels_Bytes_def)

theorem Labels_Bytes_inj_witness:
  "Labels_Bytes [\<lparr>lb_Name = ''a'', lb_Value = ''b''\<rparr>] \<noteq> Labels_Bytes [\<lparr>lb_Name = ''a'', lb_Value = ''''\<rparr>]
   \<and> Labels_Bytes [\<lparr>lb_Name = ''a'', lb_Value = ''b''\<rparr>, \<lparr>lb_Name = ''c'', lb_Value = ''d''\<rparr>]
     = Labels_Bytes [\<lparr>lb_Name = ''a'', lb_Value = ''b'' @ [sep] @ ''c'' @ [sep] @ ''d''\<rparr>]"
proof
  show "Labels_Bytes [\<lparr>lb_Name = ''a'', lb_Value = ''b''\<rparr>] \<noteq> Labels_Bytes [\<lparr>lb_Name = ''a'', lb_Value = ''''\<rparr>]"
    using Labels_Bytes_inj [of "[\<lparr>lb_Name = ''a'', lb_Value = ''b''\<rparr>]" "[\<lparr>lb_Name = ''a'', lb_Value = ''''\<rparr>]"]
    by (simp add: no_sep_def sep_def)
qed (simp add: Labels_Bytes_def)

section \<open>Printing\<close>

definition label_text :: "(string \<Rightarrow> string) \<Rightarrow> Label \<Rightarrow> string" where
  "label_text quote l =
     (if \<not> IsValidLegacy (lb_Name l) then quote (lb_Name l) else lb_Name l) @ ''='' @ quote (lb_Value l)"

lemma write_labels:
  "i > 0 \<Longrightarrow> snd (fold (write_label quote) ls (i, b)) = b @ concat (map (\<lambda>l. '', '' @ label_text quote l) ls)"
  by (induction ls arbitrary: i b) (simp_all add: write_label_def label_text_def)

lemma String_eq:
  "Labels_String quote ls = (case ls of [] \<Rightarrow> ''{}''
     | l # ks \<Rightarrow> ''{'' @ label_text quote l @ concat (map (\<lambda>l. '', '' @ label_text quote l) ks) @ ''}'')"
proof (cases ls)
  case (Cons l ks)
  then show ?thesis
    using write_labels [of 1 quote ks "''{'' @ label_text quote l"]
    by (simp add: Labels_String_def Labels_Range_def write_label_def label_text_def)
qed (simp add: Labels_String_def Labels_Range_def)

lemma legacy_char_not: "\<not> legacy_char i (CHR ''='')" "\<not> legacy_char i (CHR ''\"'')" "\<not> legacy_char i (CHR ''}'')"
  by (simp_all add: legacy_char_def in_range_def less_eq_char_def)

lemma legacy_chars: "legacy_from i n \<Longrightarrow> c \<in> set n \<Longrightarrow> \<exists>j. legacy_char j c"
  by (induction i n rule: legacy_from.induct) (auto split: if_splits)

lemma legacy_name:
  assumes "IsValidLegacy n"
  shows "n \<noteq> []" and "CHR ''='' \<notin> set n" and "hd n \<noteq> CHR ''\"''" and "hd n \<noteq> CHR ''}''"
proof -
  from assms show ne: "n \<noteq> []" by (auto simp: IsValidLegacy_def)
  have c: "\<exists>j. legacy_char j c" if "c \<in> set n" for c
    using legacy_chars [of 0 n c] assms that by (simp add: IsValidLegacy_def split: if_splits)
  then show "CHR ''='' \<notin> set n" using legacy_char_not(1) by blast
  from c [of "hd n"] ne have "\<exists>j. legacy_char j (hd n)" by simp
  then show "hd n \<noteq> CHR ''\"''" "hd n \<noteq> CHR ''}''" using legacy_char_not(2,3) by metis+
qed

text \<open>Documented of quoted texts: they begin with a quote, and none is the beginning of the quoting of another text.\<close>

definition quoting :: "(string \<Rightarrow> string) \<Rightarrow> bool" where
  "quoting quote \<longleftrightarrow> (\<forall>s t x y. quote s @ x = quote t @ y \<longrightarrow> s = t) \<and> (\<forall>s. \<exists>r. quote s = CHR ''\"'' # r)"

lemma quotingD: "quoting quote \<Longrightarrow> quote s @ x = quote t @ y \<Longrightarrow> s = t \<and> x = y"
  unfolding quoting_def by (metis same_append_eq)

lemma label_text_inj:
  assumes "quoting quote" and "label_text quote l @ x = label_text quote l' @ y"
  shows "l = l' \<and> x = y"
proof -
  let ?n = "\<lambda>l. if \<not> IsValidLegacy (lb_Name l) then quote (lb_Name l) else lb_Name l"
  have eq: "?n l @ CHR ''='' # quote (lb_Value l) @ x = ?n l' @ CHR ''='' # quote (lb_Value l') @ y"
    using assms(2) by (simp add: label_text_def)
  have start: "\<exists>c r. n = c # r \<and> c \<noteq> CHR ''\"''" if "IsValidLegacy n" for n
    using legacy_name(1,3) [OF that] by (cases n) auto
  have tw: "takeWhile (\<lambda>d. d \<noteq> CHR ''='') (w @ CHR ''='' # z) = w" if "IsValidLegacy w" for w z
  proof -
    from legacy_name(2) [OF that] show ?thesis by (induction w) auto
  qed
  have q: "\<exists>r. quote n = CHR ''\"'' # r" for n using assms(1) by (simp add: quoting_def)
  have "lb_Name l = lb_Name l' \<and> quote (lb_Value l) @ x = quote (lb_Value l') @ y"
  proof (cases "IsValidLegacy (lb_Name l)"; cases "IsValidLegacy (lb_Name l')")
    assume v: "IsValidLegacy (lb_Name l)" "IsValidLegacy (lb_Name l')"
    with eq have eq': "lb_Name l @ CHR ''='' # quote (lb_Value l) @ x = lb_Name l' @ CHR ''='' # quote (lb_Value l') @ y" by simp
    then have "lb_Name l = lb_Name l'" using tw [OF v(1)] tw [OF v(2)] by metis
    with eq' show ?thesis by simp
  next
    assume v: "IsValidLegacy (lb_Name l)" "\<not> IsValidLegacy (lb_Name l')"
    with eq start [OF v(1)] q [of "lb_Name l'"] show ?thesis by auto
  next
    assume v: "\<not> IsValidLegacy (lb_Name l)" "IsValidLegacy (lb_Name l')"
    with eq start [OF v(2)] q [of "lb_Name l"] show ?thesis by auto
  next
    assume v: "\<not> IsValidLegacy (lb_Name l)" "\<not> IsValidLegacy (lb_Name l')"
    with eq have "quote (lb_Name l) @ CHR ''='' # quote (lb_Value l) @ x = quote (lb_Name l') @ CHR ''='' # quote (lb_Value l') @ y"
      by simp
    from quotingD [OF assms(1) this] show ?thesis by simp
  qed
  then have n: "lb_Name l = lb_Name l'" and v: "quote (lb_Value l) @ x = quote (lb_Value l') @ y" by blast+
  from quotingD [OF assms(1) v] n show ?thesis by (metis label_eta)
qed

lemma label_texts_inj:
  assumes "quoting quote"
    and "concat (map (\<lambda>l. '', '' @ label_text quote l) ks) @ ''}'' = concat (map (\<lambda>l. '', '' @ label_text quote l) ks') @ ''}''"
  shows "ks = ks'"
  using assms(2)
proof (induction ks arbitrary: ks')
  case Nil
  then show ?case by (cases ks') auto
next
  case (Cons k ks)
  show ?case
  proof (cases ks')
    case Nil
    with Cons.prems show ?thesis by simp
  next
    case k': (Cons k' ks'')
    from Cons.prems k' have "label_text quote k @ concat (map (\<lambda>l. '', '' @ label_text quote l) ks) @ ''}''
        = label_text quote k' @ concat (map (\<lambda>l. '', '' @ label_text quote l) ks'') @ ''}''" by simp
    from label_text_inj [OF assms(1) this] Cons.IH k' show ?thesis by simp
  qed
qed

text \<open>Two different label sets are never printed alike.\<close>

theorem Labels_String_inj:
  assumes "quoting quote" and "Labels_String quote ls = Labels_String quote ls'"
  shows "ls = ls'"
proof -
  have nonempty: "label_text quote l @ x \<noteq> CHR ''}'' # y" for l x y
  proof -
    obtain r where "quote (lb_Name l) = CHR ''\"'' # r" using assms(1) unfolding quoting_def by blast
    then show ?thesis using legacy_name(1,4) [of "lb_Name l"]
      by (cases "lb_Name l") (auto simp: label_text_def)
  qed
  show ?thesis
  proof (cases ls; cases ls')
    fix l ks l' ks' assume c: "ls = l # ks" "ls' = l' # ks'"
    with assms(2) have "label_text quote l @ concat (map (\<lambda>l. '', '' @ label_text quote l) ks) @ ''}''
        = label_text quote l' @ concat (map (\<lambda>l. '', '' @ label_text quote l) ks') @ ''}''" by (simp add: String_eq)
    from label_text_inj [OF assms(1) this] label_texts_inj [OF assms(1)] c show ?thesis by simp
  next
    fix l' ks' assume c: "ls = []" "ls' = l' # ks'"
    with assms(2) have "label_text quote l' @ concat (map (\<lambda>l. '', '' @ label_text quote l) ks') @ ''}'' = CHR ''}'' # []"
      by (simp add: String_eq)
    with nonempty show ?thesis by blast
  next
    fix l ks assume c: "ls = l # ks" "ls' = []"
    with assms(2) have "label_text quote l @ concat (map (\<lambda>l. '', '' @ label_text quote l) ks) @ ''}'' = CHR ''}'' # []"
      by (simp add: String_eq)
    with nonempty show ?thesis by blast
  qed simp
qed


text \<open>A quoting of printable texts.\<close>

fun escape_ascii :: "string \<Rightarrow> string" where
  "escape_ascii [] = ''\"''"
| "escape_ascii (c # s) =
     (if c = CHR ''\"'' \<or> c = CHR 0x5C then CHR 0x5C # c # escape_ascii s else c # escape_ascii s)"

definition quote_ascii :: "string \<Rightarrow> string" where "quote_ascii s = CHR ''\"'' # escape_ascii s"

lemma escape_prefix_free: "escape_ascii s @ x = escape_ascii t @ y \<Longrightarrow> s = t"
proof (induction s arbitrary: t)
  case Nil
  then show ?case by (cases t) (auto split: if_splits)
next
  case (Cons c s)
  then show ?case by (cases t) (auto split: if_splits)
qed

lemma quoting_ascii: "quoting quote_ascii"
  using escape_prefix_free by (auto simp: quoting_def quote_ascii_def)

theorem Labels_String_inj_witness:
  "Labels_String quote_ascii [\<lparr>lb_Name = ''a'', lb_Value = ''b''\<rparr>, \<lparr>lb_Name = ''c-d'', lb_Value = ''''\<rparr>]
     = ''{a='' @ quote_ascii ''b'' @ '', '' @ quote_ascii ''c-d'' @ ''='' @ quote_ascii '''' @ ''}''
   \<and> Labels_String quote_ascii [\<lparr>lb_Name = ''a'', lb_Value = ''b''\<rparr>] \<noteq> Labels_String quote_ascii [\<lparr>lb_Name = ''a'', lb_Value = ''c''\<rparr>]"
proof
  show "Labels_String quote_ascii [\<lparr>lb_Name = ''a'', lb_Value = ''b''\<rparr>] \<noteq> Labels_String quote_ascii [\<lparr>lb_Name = ''a'', lb_Value = ''c''\<rparr>]"
    using Labels_String_inj [OF quoting_ascii] by fastforce
  have "IsValidLegacy ''a''" "\<not> IsValidLegacy ''c-d''"
    by (simp_all add: IsValidLegacy_def legacy_char_def in_range_def less_eq_char_def)
  then show "Labels_String quote_ascii [\<lparr>lb_Name = ''a'', lb_Value = ''b''\<rparr>, \<lparr>lb_Name = ''c-d'', lb_Value = ''''\<rparr>]
     = ''{a='' @ quote_ascii ''b'' @ '', '' @ quote_ascii ''c-d'' @ ''='' @ quote_ascii '''' @ ''}''"
    by (simp add: String_eq label_text_def)
qed

section \<open>Defaults\<close>

text \<open>
  A configuration that decodes has a kind and a name, those of the text where it gives them; when the
  decoder fails the configuration is as before.
\<close>

theorem BaseConfig_defaults:
  "case BaseConfig_UnmarshalYAML unmarshal c of
     (Some err, c') \<Rightarrow> c' = c \<and> unmarshal \<lparr>bc_Kind = [], bc_Name = []\<rparr> = Inl err
   | (None, c') \<Rightarrow> \<exists>bc. unmarshal \<lparr>bc_Kind = [], bc_Name = []\<rparr> = Inr bc
        \<and> bc_Kind c' = (if bc_Kind bc = [] then ''ServerConfig'' else bc_Kind bc)
        \<and> bc_Name c' = (if bc_Name bc = [] then ''default'' else bc_Name bc)"
  by (cases "unmarshal \<lparr>bc_Kind = [], bc_Name = []\<rparr>") (auto simp: BaseConfig_UnmarshalYAML_def Let_def)

end
