(* ===== verification/Exporter.thy ===== *)
theory Exporter
  imports DurationText "HOL-Library.Multiset"
begin

text \<open>
  The metrics exporter, \<^verbatim>\<open>exporter\<close>: the node collector that runs all collectors at once, the values it
  pushes, the example collector, and the handler with its options.  Descriptions, constant metrics and
  registries of the prometheus library are data without behaviour of their own; its answers are arguments.
\<close>

section \<open>Metrics\<close>

text \<open>A whole number as a \<^verbatim>\<open>float64\<close>, or a number of nanoseconds in seconds.\<close>

datatype metric_value = Whole int | Seconds int

datatype value_type = CounterValue | GaugeValue | UntypedValue

record Desc =
  ds_name :: "string \<times> string \<times> string"
  ds_help :: string
  ds_labels :: "string list"

record metric =
  mt_desc :: Desc
  mt_type :: value_type
  mt_value :: metric_value
  mt_labels :: "string list"

definition namespace :: string where "namespace = ''node''"

definition scrapeDurationDesc :: Desc where
  "scrapeDurationDesc = \<lparr>ds_name = (namespace, ''scrape'', ''collector_duration_seconds''),
     ds_help = ''node_exporter: Duration of a collector scrape.'', ds_labels = [''collector'']\<rparr>"

definition scrapeSuccessDesc :: Desc where
  "scrapeSuccessDesc = \<lparr>ds_name = (namespace, ''scrape'', ''collector_success''),
     ds_help = ''node_exporter: Whether a collector succeeded.'', ds_labels = [''collector'']\<rparr>"

definition const_metric :: "Desc \<Rightarrow> value_type \<Rightarrow> metric_value \<Rightarrow> string list \<Rightarrow> metric" where
  "const_metric d t v labels = \<lparr>mt_desc = d, mt_type = t, mt_value = v, mt_labels = labels\<rparr>"

section \<open>Node collector\<close>

text \<open>A factory answers an error or a collector; the factories are visited in the order of the list.\<close>

type_synonym 'c factories = "(string \<times> (string + 'c)) list"

fun new_collectors :: "'c factories \<Rightarrow> (string \<rightharpoonup> 'c) \<Rightarrow> string + (string \<rightharpoonup> 'c)" where
  "new_collectors [] collectors = Inr collectors"
| "new_collectors ((key, f) # fs) collectors =
     (case f of Inl err \<Rightarrow> Inl err | Inr collector \<Rightarrow> new_collectors fs (collectors(key \<mapsto> collector)))"

definition registerCollector :: "string \<Rightarrow> 'f \<Rightarrow> (string \<rightharpoonup> 'f) \<Rightarrow> (string \<rightharpoonup> 'f)" where
  "registerCollector collector factory factories = factories(collector \<mapsto> factory)"

definition NewNodeCollector :: "'c factories \<Rightarrow> string + (string \<rightharpoonup> 'c)" where
  "NewNodeCollector factories = new_collectors factories Map.empty"

definition NodeCollector_Describe :: "Desc list" where
  "NodeCollector_Describe = [scrapeDurationDesc, scrapeSuccessDesc]"

text \<open>Errors with what they wrap.\<close>

datatype collect_error = ErrNoData | WrappedError string collect_error | OtherError string

fun IsNoDataError :: "collect_error \<Rightarrow> bool" where
  "IsNoDataError ErrNoData = True"
| "IsNoDataError (WrappedError msg e) = IsNoDataError e"
| "IsNoDataError (OtherError msg) = False"

definition duration_metric :: "string \<Rightarrow> int \<Rightarrow> metric" where
  "duration_metric name d = const_metric scrapeDurationDesc GaugeValue (Seconds d) [name]"

definition success_metric :: "string \<Rightarrow> collect_error option \<Rightarrow> metric" where
  "success_metric name err = const_metric scrapeSuccessDesc GaugeValue (Whole (if err \<noteq> None then 0 else 1)) [name]"

text \<open>
  A goroutine of \<^verbatim>\<open>Collect\<close> runs \<^verbatim>\<open>execute\<close>: it sends the metrics of its collector, whose run ends with an
  error or none, then the duration and the success.
\<close>

datatype exec_phase =
    Updating "metric list" "collect_error option"
  | Measured int "collect_error option"
  | Judging "collect_error option"
  | WaitDone

text \<open>The channel is the list of the metrics received from it, each with the goroutine that sent it.\<close>

record collect =
  cl_names :: "string list"
  cl_phase :: "exec_phase list"
  cl_ch :: "(nat \<times> metric) list"
  cl_returned :: bool

definition Collect_start :: "(string \<times> metric list \<times> collect_error option) list \<Rightarrow> collect" where
  "Collect_start cs = \<lparr>cl_names = map fst cs, cl_phase = map (\<lambda>(name, ms, err). Updating ms err) cs, cl_ch = [], cl_returned = False\<rparr>"

definition execute_send :: "nat \<Rightarrow> metric \<Rightarrow> exec_phase \<Rightarrow> collect \<Rightarrow> collect" where
  "execute_send i m ph s = s\<lparr>cl_ch := cl_ch s @ [(i, m)], cl_phase := (cl_phase s)[i := ph]\<rparr>"

inductive collect_step :: "collect \<Rightarrow> collect \<Rightarrow> bool" where
  update_sends: "i < length (cl_phase s) \<Longrightarrow> cl_phase s ! i = Updating (m # ms) err \<Longrightarrow>
    collect_step s (execute_send i m (Updating ms err) s)"
| update_ends: "i < length (cl_phase s) \<Longrightarrow> cl_phase s ! i = Updating [] err \<Longrightarrow> 0 \<le> duration \<Longrightarrow>
    collect_step s (s\<lparr>cl_phase := (cl_phase s)[i := Measured duration err]\<rparr>)"
| sends_duration: "i < length (cl_phase s) \<Longrightarrow> cl_phase s ! i = Measured duration err \<Longrightarrow>
    collect_step s (execute_send i (duration_metric (cl_names s ! i) duration) (Judging err) s)"
| sends_success: "i < length (cl_phase s) \<Longrightarrow> cl_phase s ! i = Judging err \<Longrightarrow>
    collect_step s (execute_send i (success_metric (cl_names s ! i) err) WaitDone s)"
| returns: "list_all (\<lambda>ph. ph = WaitDone) (cl_phase s) \<Longrightarrow> \<not> cl_returned s \<Longrightarrow> collect_step s (s\<lparr>cl_returned := True\<rparr>)"

inductive collect_reach :: "(string \<times> metric list \<times> collect_error option) list \<Rightarrow> collect \<Rightarrow> bool" for cs where
  start: "collect_reach cs (Collect_start cs)"
| step: "collect_reach cs s \<Longrightarrow> collect_step s s' \<Longrightarrow> collect_reach cs s'"

section \<open>Pushed values\<close>

datatype pushed_any =
    U8 "8 word" | U16 "16 word" | U32 "32 word" | U64 "64 word" | I64 "64 word"
  | PU8 "8 word option" | PU16 "16 word option" | PU32 "32 word option" | PU64 "64 word option" | PI64 "64 word option"
  | OtherType

text \<open>A whole number as the nearest \<^verbatim>\<open>float64\<close>.\<close>

definition float_whole :: "int \<Rightarrow> int" where
  "float_whole n = sgn n * int (float64 (nat \<bar>n\<bar>) 1 div float_unit)"

fun pushed_value :: "pushed_any \<Rightarrow> int option" where
  "pushed_value (U8 v) = Some (uint v)"
| "pushed_value (U16 v) = Some (uint v)"
| "pushed_value (U32 v) = Some (uint v)"
| "pushed_value (U64 v) = Some (uint v)"
| "pushed_value (I64 v) = Some (sint v)"
| "pushed_value (PU8 p) = map_option uint p"
| "pushed_value (PU16 p) = map_option uint p"
| "pushed_value (PU32 p) = map_option uint p"
| "pushed_value (PU64 p) = map_option uint p"
| "pushed_value (PI64 p) = map_option sint p"
| "pushed_value OtherType = None"

definition pushMetric :: "Desc \<Rightarrow> pushed_any \<Rightarrow> value_type \<Rightarrow> string list \<Rightarrow> metric list" where
  "pushMetric fieldDesc value valueType labelValues =
     (case pushed_value value of
        None \<Rightarrow> []
      | Some n \<Rightarrow> [const_metric fieldDesc valueType (Whole (float_whole n)) labelValues])"

record typedDesc =
  td_desc :: Desc
  td_valueType :: value_type

definition mustNewConstMetric :: "typedDesc \<Rightarrow> metric_value \<Rightarrow> string list \<Rightarrow> metric" where
  "mustNewConstMetric d value labels = const_metric (td_desc d) (td_valueType d) value labels"

section \<open>Example collector\<close>

record exampleCollector =
  ex_subsystem :: string
  ex_metricDescs :: "string \<rightharpoonup> Desc"

definition NewNetClassCollector :: exampleCollector where
  "NewNetClassCollector = \<lparr>ex_subsystem = ''network'', ex_metricDescs = Map.empty\<rparr>"

definition getFieldDesc :: "string \<Rightarrow> exampleCollector \<Rightarrow> Desc \<times> exampleCollector" where
  "getFieldDesc name c =
     (case ex_metricDescs c name of
        Some fieldDesc \<Rightarrow> (fieldDesc, c)
      | None \<Rightarrow>
          let fieldDesc = \<lparr>ds_name = (namespace, ex_subsystem c, name),
                ds_help = ''Network device property: '' @ name, ds_labels = [''device'']\<rparr>
          in (fieldDesc, c\<lparr>ex_metricDescs := (ex_metricDescs c)(name \<mapsto> fieldDesc)\<rparr>))"

text \<open>The second value pushed_any is a text, \<^verbatim>\<open>type\<close>.\<close>

definition netClassSysfsUpdate :: "exampleCollector \<Rightarrow> metric list \<times> exampleCollector" where
  "netClassSysfsUpdate c =
     (let upDesc = \<lparr>ds_name = (namespace, ex_subsystem c, ''up''),
            ds_help = ''Value is 1 if operstate is 'up', 0 otherwise.'', ds_labels = [''device'']\<rparr>;
          (fieldDesc, c') = getFieldDesc ''address_assign_type'' c
      in ([const_metric upDesc GaugeValue (Whole 0) [''eth0'']] @ pushMetric fieldDesc OtherType GaugeValue [''eth0''], c'))"

definition exampleCollector_Update :: "exampleCollector \<Rightarrow> metric list \<times> exampleCollector" where
  "exampleCollector_Update c = netClassSysfsUpdate c"

section \<open>Handler\<close>

text \<open>What \<^verbatim>\<open>promhttp\<close> is asked for: the registries served, the limit, and whether the handler is instrumented.\<close>

datatype registry = ExporterRegistry | NodeRegistry

record inner_handler =
  ih_gatherers :: "registry list"
  ih_maxRequestsInFlight :: int
  ih_instrumented :: bool

record metrics_handler =
  hn_handler :: "inner_handler option"
  hn_includeExporterMetrics :: bool
  hn_exporterMetricsRegistry :: bool
  hn_maxRequests :: int
  hn_metricsPaths :: "string list"
  hn_logger :: bool

definition innerHandler :: "'c factories \<Rightarrow> string option \<Rightarrow> metrics_handler \<Rightarrow> string + inner_handler" where
  "innerHandler factories register_answer h =
     (case NewNodeCollector factories of
        Inl err \<Rightarrow> Inl (''couldn't create collector: '' @ err)
      | Inr nc \<Rightarrow>
          (case register_answer of
             Some err \<Rightarrow> Inl (''couldn't register node collector: '' @ err)
           | None \<Rightarrow>
               if hn_includeExporterMetrics h
               then Inr \<lparr>ih_gatherers = [ExporterRegistry, NodeRegistry], ih_maxRequestsInFlight = hn_maxRequests h, ih_instrumented = True\<rparr>
               else Inr \<lparr>ih_gatherers = [NodeRegistry], ih_maxRequestsInFlight = hn_maxRequests h, ih_instrumented = False\<rparr>))"

definition SetMetricsPath :: "string \<Rightarrow> metrics_handler \<Rightarrow> metrics_handler" where
  "SetMetricsPath metricsPath h = h\<lparr>hn_metricsPaths := hn_metricsPaths h @ [metricsPath]\<rparr>"

definition SetMaxRequests :: "int \<Rightarrow> metrics_handler \<Rightarrow> metrics_handler" where
  "SetMaxRequests maxRequests h = h\<lparr>hn_maxRequests := maxRequests\<rparr>"

definition SetIncludeExporterMetrics :: "bool \<Rightarrow> metrics_handler \<Rightarrow> metrics_handler" where
  "SetIncludeExporterMetrics includeExporterMetrics h = h\<lparr>hn_includeExporterMetrics := includeExporterMetrics\<rparr>"

definition SetLogger :: "bool \<Rightarrow> metrics_handler \<Rightarrow> metrics_handler" where
  "SetLogger logger h = h\<lparr>hn_logger := logger\<rparr>"

text \<open>\<^verbatim>\<open>Start\<close> answers the routes it adds to the engine, all to one handler; the logger is used first.\<close>

definition Start :: "'c factories \<Rightarrow> string option \<Rightarrow> (metrics_handler \<Rightarrow> metrics_handler) list \<Rightarrow> (string option \<times> metrics_handler \<times> string list) go" where
  "Start factories register_answer opts =
     (let h = fold (\<lambda>opt h. opt h) opts
            \<lparr>hn_handler = None, hn_includeExporterMetrics = False, hn_exporterMetricsRegistry = False, hn_maxRequests = 0,
             hn_metricsPaths = [], hn_logger = False\<rparr>
      in if \<not> hn_logger h then Inl NilDereference
         else bnd (slice_get (hn_metricsPaths h) 0) (\<lambda>_.
           let h1 = (if hn_includeExporterMetrics h then h\<lparr>hn_exporterMetricsRegistry := True\<rparr> else h) in
           case innerHandler factories register_answer h1 of
             Inl err \<Rightarrow> Inr (Some err, h1, [])
           | Inr ih \<Rightarrow> Inr (None, h1\<lparr>hn_handler := Some ih\<rparr>, hn_metricsPaths h1)))"


section \<open>Collecting\<close>

definition sent_by :: "nat \<Rightarrow> collect \<Rightarrow> metric list" where
  "sent_by i s = map snd (filter (\<lambda>p. fst p = i) (cl_ch s))"

fun phase_ok :: "string \<times> metric list \<times> collect_error option \<Rightarrow> metric list \<Rightarrow> exec_phase \<Rightarrow> bool" where
  "phase_ok (name, ms, err) sent (Updating rest e) = (e = err \<and> sent @ rest = ms)"
| "phase_ok (name, ms, err) sent (Measured d e) = (e = err \<and> sent = ms \<and> 0 \<le> d)"
| "phase_ok (name, ms, err) sent (Judging e) = (e = err \<and> (\<exists>d\<ge>0. sent = ms @ [duration_metric name d]))"
| "phase_ok (name, ms, err) sent WaitDone = (\<exists>d\<ge>0. sent = ms @ [duration_metric name d, success_metric name err])"

definition collect_inv :: "(string \<times> metric list \<times> collect_error option) list \<Rightarrow> collect \<Rightarrow> bool" where
  "collect_inv cs s \<longleftrightarrow> cl_names s = map fst cs \<and> length (cl_phase s) = length cs
     \<and> (\<forall>i < length cs. phase_ok (cs ! i) (sent_by i s) (cl_phase s ! i))
     \<and> list_all (\<lambda>p. fst p < length cs) (cl_ch s)
     \<and> (cl_returned s \<longrightarrow> list_all (\<lambda>ph. ph = WaitDone) (cl_phase s))"

lemma sent_by_execute:
  "sent_by j (execute_send i m ph s) = sent_by j s @ (if i = j then [m] else [])"
  by (simp add: sent_by_def execute_send_def)

lemma execute_send_fields:
  "cl_names (execute_send i m ph s) = cl_names s" "cl_phase (execute_send i m ph s) = (cl_phase s)[i := ph]"
  "cl_ch (execute_send i m ph s) = cl_ch s @ [(i, m)]" "cl_returned (execute_send i m ph s) = cl_returned s"
  by (simp_all add: execute_send_def)

lemma inv_send:
  assumes "collect_inv cs s" and "i < length (cl_phase s)" and "cl_phase s ! i \<noteq> WaitDone"
    and "phase_ok (cs ! i) (sent_by i s @ [m]) ph"
  shows "collect_inv cs (execute_send i m ph s)"
proof -
  have "\<not> cl_returned s" using assms(1-3) by (auto simp: collect_inv_def list_all_length)
  moreover have "phase_ok (cs ! j) (sent_by j (execute_send i m ph s)) (cl_phase (execute_send i m ph s) ! j)"
    if "j < length cs" for j
    using assms that by (cases "j = i") (auto simp: sent_by_execute execute_send_fields collect_inv_def)
  ultimately show ?thesis using assms(1,2) by (simp add: collect_inv_def execute_send_fields)
qed

lemma inv_collect_step:
  assumes "collect_step s s'" and "collect_inv cs s"
  shows "collect_inv cs s'"
  using assms
proof (induction rule: collect_step.induct)
  case (update_sends i s m ms err)
  then have "phase_ok (cs ! i) (sent_by i s) (Updating (m # ms) err)" by (metis collect_inv_def)
  then show ?case using update_sends by (intro inv_send) (cases "cs ! i"; simp)+
next
  case (update_ends i s err duration)
  then have ok: "phase_ok (cs ! i) (sent_by i s) (Updating [] err)" by (metis collect_inv_def)
  let ?s = "s\<lparr>cl_phase := (cl_phase s)[i := Measured duration err]\<rparr>"
  have "sent_by j ?s = sent_by j s" for j by (simp add: sent_by_def)
  moreover have "phase_ok (cs ! i) (sent_by i s) (Measured duration err)"
    using ok update_ends(3) by (cases "cs ! i") simp
  moreover have "\<not> cl_returned s" using update_ends by (auto simp: collect_inv_def list_all_length)
  ultimately show ?case using update_ends by (auto simp: collect_inv_def nth_list_update)
next
  case (sends_duration i s duration err)
  then have ok: "phase_ok (cs ! i) (sent_by i s) (Measured duration err)" "cl_names s ! i = fst (cs ! i)"
    by (auto simp: collect_inv_def)
  then show ?case using sends_duration by (intro inv_send) (cases "cs ! i"; auto)+
next
  case (sends_success i s err)
  then have ok: "phase_ok (cs ! i) (sent_by i s) (Judging err)" "cl_names s ! i = fst (cs ! i)"
    by (auto simp: collect_inv_def)
  then show ?case using sends_success by (intro inv_send) (cases "cs ! i"; auto)+
next
  case (returns s)
  moreover have "sent_by j (s\<lparr>cl_returned := True\<rparr>) = sent_by j s" for j by (simp add: sent_by_def)
  ultimately show ?case by (simp add: collect_inv_def)
qed

lemma collect_reach_inv: "collect_reach cs s \<Longrightarrow> collect_inv cs s"
proof (induction rule: collect_reach.induct)
  case start
  have "phase_ok (cs ! i) [] (case cs ! i of (name, ms, err) \<Rightarrow> Updating ms err)" for i by (cases "cs ! i") simp
  then show ?case by (auto simp: collect_inv_def Collect_start_def sent_by_def list_all_length)
next
  case (step s s')
  then show ?case by (blast intro: inv_collect_step)
qed

fun exec_work :: "exec_phase \<Rightarrow> nat" where
  "exec_work (Updating ms e) = length ms + 3"
| "exec_work (Measured d e) = 2"
| "exec_work (Judging e) = 1"
| "exec_work WaitDone = 0"

definition collect_work :: "collect \<Rightarrow> nat" where
  "collect_work s = sum_list (map exec_work (cl_phase s)) + (if cl_returned s then 0 else 1)"

lemma collect_step_work:
  assumes "collect_step s s'"
  shows "collect_work s' < collect_work s"
  using assms
proof (induction rule: collect_step.induct)
  case (update_sends i s m ms err)
  with sum_list_change [of i "cl_phase s" exec_work "Updating ms err"] show ?case
    by (simp add: collect_work_def execute_send_def)
next
  case (update_ends i s err duration)
  with sum_list_change [of i "cl_phase s" exec_work "Measured duration err"] show ?case
    by (simp add: collect_work_def)
next
  case (sends_duration i s duration err)
  with sum_list_change [of i "cl_phase s" exec_work "Judging err"] show ?case
    by (simp add: collect_work_def execute_send_def)
next
  case (sends_success i s err)
  with sum_list_change [of i "cl_phase s" exec_work WaitDone] show ?case
    by (simp add: collect_work_def execute_send_def)
qed (simp add: collect_work_def)

lemma collect_stuck:
  assumes "\<And>s'. \<not> collect_step s s'"
  shows "cl_returned s"
proof -
  have "cl_phase s ! i = WaitDone" if i: "i < length (cl_phase s)" for i
  proof (cases "cl_phase s ! i")
    case (Updating ms err)
    with assms update_sends [OF i] update_ends [OF i, of err 0] show ?thesis by (cases ms) auto
  next
    case (Measured d err)
    with assms sends_duration [OF i] show ?thesis by blast
  next
    case (Judging err)
    with assms sends_success [OF i] show ?thesis by blast
  qed
  then have "list_all (\<lambda>ph. ph = WaitDone) (cl_phase s)" by (simp add: list_all_length)
  with assms collect_step.returns show ?thesis by blast
qed

text \<open>
  C20. However the goroutines of \<^verbatim>\<open>Collect\<close> interleave, it returns, and then the channel has had from each
  collector exactly its own metrics in their order, followed by one duration and one success metric, which is 1
  when and only when the collector had no error; and nothing else.
\<close>

theorem Collect_complete:
  assumes "collect_reach cs s" and "cs ! i = (name, ms, err)" and "i < length cs"
  shows "(\<forall>s'. collect_step s s' \<longrightarrow> collect_work s' < collect_work s)
    \<and> ((\<nexists>s'. collect_step s s') \<longrightarrow> cl_returned s)
    \<and> (cl_returned s \<longrightarrow> (\<exists>d\<ge>0. map snd (filter (\<lambda>p. fst p = i) (cl_ch s))
         = ms @ [duration_metric name d, success_metric name err]))
    \<and> (\<forall>p\<in>set (cl_ch s). fst p < length cs)"
proof -
  note inv = collect_reach_inv [OF assms(1)]
  have "\<exists>d\<ge>0. sent_by i s = ms @ [duration_metric name d, success_metric name err]" if "cl_returned s"
  proof -
    from inv that assms(3) have "cl_phase s ! i = WaitDone" by (simp add: collect_inv_def list_all_length)
    moreover from inv assms(3) have "phase_ok (cs ! i) (sent_by i s) (cl_phase s ! i)" by (simp add: collect_inv_def)
    ultimately show ?thesis using assms(2) by simp
  qed
  then show ?thesis using collect_step_work collect_stuck [of s] inv
    by (auto simp: sent_by_def collect_inv_def list_all_iff)
qed

definition wit_metric :: metric where
  "wit_metric = const_metric \<lparr>ds_name = (namespace, ''network'', ''up''), ds_help = [], ds_labels = []\<rparr> GaugeValue (Whole 0) []"

definition wit_collect :: collect where
  "wit_collect = \<lparr>cl_names = [''net''], cl_phase = [WaitDone],
     cl_ch = [(0, wit_metric), (0, duration_metric ''net'' 5), (0, success_metric ''net'' (Some ErrNoData))], cl_returned = True\<rparr>"

lemma wit_collect_reach: "collect_reach [(''net'', [wit_metric], Some ErrNoData)] wit_collect"
proof -
  let ?cs = "[(''net'', [wit_metric], Some ErrNoData)]"
  let ?s = "\<lambda>ph ch r. \<lparr>cl_names = [''net''], cl_phase = [ph], cl_ch = ch, cl_returned = r\<rparr>"
  let ?d = "(0 :: nat, duration_metric ''net'' 5)"
  have 0: "collect_reach ?cs (?s (Updating [wit_metric] (Some ErrNoData)) [] False)"
    using collect_reach.start [of ?cs] by (simp add: Collect_start_def)
  have 1: "collect_reach ?cs (?s (Updating [] (Some ErrNoData)) [(0, wit_metric)] False)"
    using collect_reach.step [OF 0 collect_step.update_sends [of 0]] by (simp add: execute_send_def)
  have 2: "collect_reach ?cs (?s (Measured 5 (Some ErrNoData)) [(0, wit_metric)] False)"
    using collect_reach.step [OF 1 collect_step.update_ends [of 0 _ _ 5]] by simp
  have 3: "collect_reach ?cs (?s (Judging (Some ErrNoData)) [(0, wit_metric), ?d] False)"
    using collect_reach.step [OF 2 collect_step.sends_duration [of 0]] by (simp add: execute_send_def)
  have 4: "collect_reach ?cs (?s WaitDone [(0, wit_metric), ?d, (0, success_metric ''net'' (Some ErrNoData))] False)"
    using collect_reach.step [OF 3 collect_step.sends_success [of 0]] by (simp add: execute_send_def)
  show ?thesis unfolding wit_collect_def
    using collect_reach.step [OF 4 collect_step.returns] by simp
qed

theorem Collect_complete_witness:
  "\<exists>d\<ge>0. map snd (filter (\<lambda>p. fst p = 0) (cl_ch wit_collect))
     = [wit_metric] @ [duration_metric ''net'' d, success_metric ''net'' (Some ErrNoData)]"
  using Collect_complete [OF wit_collect_reach, of 0 "''net''" "[wit_metric]" "Some ErrNoData"]
  by (simp add: wit_collect_def)


section \<open>Values, factories and routes\<close>

lemma float_whole_exact: "\<bar>n\<bar> < 2 ^ 53 \<Longrightarrow> float_whole n = n"
proof (cases "n = 0")
  case False
  assume small: "\<bar>n\<bar> < 2 ^ 53"
  have "0 < nat \<bar>n\<bar>" using False by simp
  moreover have "nat \<bar>n\<bar> < 2 ^ 53" using small by (simp add: nat_less_iff)
  ultimately have "float64 (nat \<bar>n\<bar> * 1) 1 = nat \<bar>n\<bar> * float_unit" by (rule float64_exact) simp
  then have "float64 (nat \<bar>n\<bar>) 1 div float_unit = nat \<bar>n\<bar>" using float_unit_pos by simp
  then show ?thesis by (simp add: float_whole_def mult_sgn_abs)
qed (simp add: float_whole_def)

text \<open>
  A number of a known type is pushed with its value, exactly up to 53 bits; a nil pointer and any other
  type push nothing, so the example collector, which pushes a text, sends its first metric only.
\<close>

theorem pushMetric_exact:
  assumes "\<And>n. pushed_value value = Some n \<Longrightarrow> \<bar>n\<bar> < 2 ^ 53"
  shows "pushMetric fieldDesc value valueType labelValues =
      (case pushed_value value of None \<Rightarrow> [] | Some n \<Rightarrow> [const_metric fieldDesc valueType (Whole n) labelValues])
    \<and> length (fst (exampleCollector_Update c)) = 1"
proof
  show "pushMetric fieldDesc value valueType labelValues =
      (case pushed_value value of None \<Rightarrow> [] | Some n \<Rightarrow> [const_metric fieldDesc valueType (Whole n) labelValues])"
    using assms by (cases "pushed_value value") (simp_all add: pushMetric_def float_whole_exact)
  show "length (fst (exampleCollector_Update c)) = 1"
    by (simp add: exampleCollector_Update_def netClassSysfsUpdate_def pushMetric_def Let_def split: prod.split)
qed

theorem pushMetric_exact_witness:
  "pushMetric scrapeSuccessDesc (I64 (- 5)) GaugeValue [] = [const_metric scrapeSuccessDesc GaugeValue (Whole (- 5)) []]"
  using pushMetric_exact [of "I64 (- 5)" scrapeSuccessDesc GaugeValue "[]" NewNetClassCollector] by simp

lemma getFieldDesc_cached:
  "getFieldDesc name (snd (getFieldDesc name c)) = (fst (getFieldDesc name c), snd (getFieldDesc name c))"
  by (simp add: getFieldDesc_def Let_def split: option.split)

lemma new_collectors_ok:
  assumes "distinct (map fst fs)"
  shows "new_collectors fs cs = (case find (\<lambda>(k, f). \<exists>err. f = Inl err) fs of
      Some (k, f) \<Rightarrow> Inl (projl f)
    | None \<Rightarrow> Inr (cs ++ map_of (map (\<lambda>(k, f). (k, projr f)) fs)))"
  using assms
proof (induction fs arbitrary: cs)
  case (Cons kf fs)
  obtain k f where kf: "kf = (k, f)" by (cases kf)
  show ?case
  proof (cases f)
    case (Inr c)
    have "map_of (map (\<lambda>(k, f). (k, projr f)) fs) k = None"
      using Cons.prems kf by (force simp: map_of_eq_None_iff)
    then have "cs(k \<mapsto> c) ++ map_of (map (\<lambda>(k, f). (k, projr f)) fs)
        = cs ++ map_of (map (\<lambda>(k, f). (k, projr f)) fs) ++ [k \<mapsto> c]"
      by (auto simp: map_add_def fun_eq_iff split: option.split)
    with Cons kf Inr show ?thesis by (auto simp: map_add_def split: option.split)
  qed (simp add: kf)
qed simp

text \<open>
  Starting the exporter panics without a logger or without a path; otherwise it either adds no route and
  answers an error, or adds all paths in the order of the options, all for the one handler made from every
  registered collector.
\<close>

theorem Start_routes:
  "case Start factories register_answer opts of
     Inl e \<Rightarrow> (let h = fold (\<lambda>opt h. opt h) opts
            \<lparr>hn_handler = None, hn_includeExporterMetrics = False, hn_exporterMetricsRegistry = False, hn_maxRequests = 0,
             hn_metricsPaths = [], hn_logger = False\<rparr> in \<not> hn_logger h \<or> hn_metricsPaths h = [])
   | Inr (Some err, h, routes) \<Rightarrow> routes = [] \<and> (\<exists>e. NewNodeCollector factories = Inl e \<or> register_answer = Some e)
   | Inr (None, h, routes) \<Rightarrow> routes = hn_metricsPaths h \<and> routes \<noteq> [] \<and> hn_handler h \<noteq> None
        \<and> (\<forall>ih. hn_handler h = Some ih \<longrightarrow> ih_maxRequestsInFlight ih = hn_maxRequests h
             \<and> (ExporterRegistry \<in> set (ih_gatherers ih) \<longleftrightarrow> hn_includeExporterMetrics h)
             \<and> (ExporterRegistry \<in> set (ih_gatherers ih) \<longrightarrow> hn_exporterMetricsRegistry h))"
  by (auto simp: Start_def Let_def innerHandler_def slice_get_def split: sum.splits option.splits)

end
