(* ===== verification/ProcessLife.thy ===== *)
theory ProcessLife
  imports NetAddr
begin

text \<open>
  The pid file, \<^verbatim>\<open>utils/pidfile/pidfile.go\<close>, and the signal handler, \<^verbatim>\<open>exit/exit.go\<close>.  The processes are
  interleaved at their system calls; a lock belongs to an open file and goes when it is closed.
\<close>

section \<open>Pid file\<close>

datatype pid_phase =
    PStart
  | POpened nat
  | PLocked nat
  | PWritten nat
  | PReturned "string option"

text \<open>
  \<open>pd_name\<close> is the file that has the name, \<open>pd_holder\<close> the process whose open file has the lock of a file.
\<close>

record pidfs =
  pd_name :: "nat option"
  pd_data :: "string list"
  pd_holder :: "nat \<Rightarrow> nat option"
  pd_procs :: "pid_phase list"

record process_info =
  pi_pid :: nat
  pi_startTime :: string
  pi_execPath :: string
  pi_hostname :: string

definition pid_content :: "process_info \<Rightarrow> string" where
  "pid_content p = ''PID: '' @ decimal (pi_pid p) @ [CHR 0x0A] @ ''StartTime: '' @ pi_startTime p @ [CHR 0x0A]
     @ ''Executable: '' @ pi_execPath p @ [CHR 0x0A] @ ''Hostname: '' @ pi_hostname p @ [CHR 0x0A]"

definition set_proc :: "nat \<Rightarrow> pid_phase \<Rightarrow> pidfs \<Rightarrow> pidfs" where
  "set_proc i ph s = s\<lparr>pd_procs := (pd_procs s)[i := ph]\<rparr>"

text \<open>\<^verbatim>\<open>os.OpenFile\<close> with \<^verbatim>\<open>O_CREATE|O_TRUNC\<close> empties the file before any lock is taken.\<close>

definition pid_open :: "nat \<Rightarrow> pidfs \<Rightarrow> pidfs" where
  "pid_open i s =
     (case pd_name s of
        Some ino \<Rightarrow> set_proc i (POpened ino) (s\<lparr>pd_data := (pd_data s)[ino := []]\<rparr>)
      | None \<Rightarrow>
          let ino = length (pd_data s) in
          set_proc i (POpened ino) (s\<lparr>pd_name := Some ino, pd_data := pd_data s @ [[]]\<rparr>))"

text \<open>The lock is tried without blocking.\<close>

definition pid_lock :: "nat \<Rightarrow> nat \<Rightarrow> pidfs \<Rightarrow> pidfs" where
  "pid_lock i ino s =
     (if pd_holder s ino = None
      then set_proc i (PLocked ino) (s\<lparr>pd_holder := (pd_holder s)(ino := Some i)\<rparr>)
      else set_proc i (PReturned (Some ''flock'')) s)"

definition pid_write :: "nat \<Rightarrow> nat \<Rightarrow> string \<Rightarrow> pidfs \<Rightarrow> pidfs" where
  "pid_write i ino content s =
     set_proc i (PWritten ino) (s\<lparr>pd_data := (pd_data s)[ino := content @ drop (length content) (pd_data s ! ino)]\<rparr>)"

text \<open>The deferred \<^verbatim>\<open>Close\<close> gives the lock back, on success too.\<close>

definition pid_return :: "nat \<Rightarrow> nat \<Rightarrow> string option \<Rightarrow> pidfs \<Rightarrow> pidfs" where
  "pid_return i ino err s = set_proc i (PReturned err) (s\<lparr>pd_holder := (pd_holder s)(ino := None)\<rparr>)"

text \<open>\<^verbatim>\<open>RemovePidFile\<close> unlocks an open file of its own, which has no lock, and removes the name.\<close>

definition RemovePidFile :: "pidfs \<Rightarrow> pidfs" where
  "RemovePidFile s = s\<lparr>pd_name := None\<rparr>"

inductive pid_step :: "(nat \<Rightarrow> process_info) \<Rightarrow> pidfs \<Rightarrow> pidfs \<Rightarrow> bool" for info where
  mkdir_failed: "i < length (pd_procs s) \<Longrightarrow> pd_procs s ! i = PStart \<Longrightarrow> pid_step info s (set_proc i (PReturned (Some e)) s)"
| opened: "i < length (pd_procs s) \<Longrightarrow> pd_procs s ! i = PStart \<Longrightarrow> pid_step info s (pid_open i s)"
| locked: "i < length (pd_procs s) \<Longrightarrow> pd_procs s ! i = POpened ino \<Longrightarrow> pid_step info s (pid_lock i ino s)"
| wrote: "i < length (pd_procs s) \<Longrightarrow> pd_procs s ! i = PLocked ino \<Longrightarrow>
    pid_step info s (pid_write i ino (pid_content (info i)) s)"
| write_failed: "i < length (pd_procs s) \<Longrightarrow> pd_procs s ! i = PLocked ino \<Longrightarrow>
    pid_step info s (pid_return i ino (Some e) s)"
| synced: "i < length (pd_procs s) \<Longrightarrow> pd_procs s ! i = PWritten ino \<Longrightarrow> pid_step info s (pid_return i ino None s)"
| sync_failed: "i < length (pd_procs s) \<Longrightarrow> pd_procs s ! i = PWritten ino \<Longrightarrow> pid_step info s (pid_return i ino (Some e) s)"
| removed: "i < length (pd_procs s) \<Longrightarrow> pd_procs s ! i = PReturned None \<Longrightarrow> pid_step info s (RemovePidFile s)"

text \<open>\<open>n\<close> processes and no file.\<close>

definition pid_start :: "nat \<Rightarrow> pidfs" where
  "pid_start n = \<lparr>pd_name = None, pd_data = [], pd_holder = (\<lambda>_. None), pd_procs = replicate n PStart\<rparr>"

inductive pid_reach :: "(nat \<Rightarrow> process_info) \<Rightarrow> nat \<Rightarrow> pidfs \<Rightarrow> bool" for info n where
  start: "pid_reach info n (pid_start n)"
| step: "pid_reach info n s \<Longrightarrow> pid_step info s s' \<Longrightarrow> pid_reach info n s'"

section \<open>What the lock protects\<close>

fun in_lock :: "nat \<Rightarrow> pid_phase \<Rightarrow> bool" where
  "in_lock ino (PLocked j) = (ino = j)"
| "in_lock ino (PWritten j) = (ino = j)"
| "in_lock ino _ = False"

definition pid_inv :: "nat \<Rightarrow> pidfs \<Rightarrow> bool" where
  "pid_inv n s \<longleftrightarrow> length (pd_procs s) = n
     \<and> (\<forall>ino i. pd_holder s ino = Some i \<longleftrightarrow> i < n \<and> in_lock ino (pd_procs s ! i))"

lemma set_proc_fields [simp]:
  "pd_name (set_proc i ph s) = pd_name s" "pd_data (set_proc i ph s) = pd_data s" "pd_holder (set_proc i ph s) = pd_holder s"
  "pd_procs (set_proc i ph s) = (pd_procs s)[i := ph]"
  by (simp_all add: set_proc_def)

lemma pid_inv_move:
  assumes "pid_inv n s" and "i < n" and "\<And>ino. \<not> in_lock ino (pd_procs s ! i)" and "\<And>ino. \<not> in_lock ino ph"
    and "pd_procs s' = (pd_procs s)[i := ph]" and "pd_holder s' = pd_holder s"
  shows "pid_inv n s'"
  using assms by (auto simp: pid_inv_def nth_list_update)

lemma pid_inv_len: "pid_inv n s \<Longrightarrow> length (pd_procs s) = n" by (simp add: pid_inv_def)

lemma pid_inv_holder:
  "pid_inv n s \<Longrightarrow> pd_holder s ino = Some i \<longleftrightarrow> i < n \<and> in_lock ino (pd_procs s ! i)"
  by (simp add: pid_inv_def)

text \<open>The holder of a lock goes on in it or gives it back; a process without one takes a free lock.\<close>

lemma pid_inv_in_lock:
  assumes "pid_inv n s" and "i < n" and "\<And>k. in_lock k (pd_procs s ! i) \<longleftrightarrow> k = ino" and "\<And>k. in_lock k ph \<longleftrightarrow> k = ino"
    and "pd_procs s' = (pd_procs s)[i := ph]" and "pd_holder s' = pd_holder s"
  shows "pid_inv n s'"
  unfolding pid_inv_def using assms pid_inv_len [OF assms(1)] pid_inv_holder [OF assms(1)]
  by (simp add: nth_list_update)

lemma pid_inv_release:
  assumes "pid_inv n s" and "i < n" and "\<And>k. in_lock k (pd_procs s ! i) \<longleftrightarrow> k = ino"
  shows "pid_inv n (pid_return i ino err s)"
proof -
  have i: "pd_holder s ino = Some i" using pid_inv_holder [OF assms(1)] assms(2,3) by simp
  have other: "\<not> in_lock ino (pd_procs s ! j)" if "j < n" "j \<noteq> i" for j
    using pid_inv_holder [OF assms(1), of ino j] that i by simp
  show ?thesis unfolding pid_inv_def
    using assms pid_inv_len [OF assms(1)] pid_inv_holder [OF assms(1)] other
    by (simp add: pid_return_def nth_list_update)
qed

lemma pid_step_inv:
  assumes "pid_step info s s'" and inv: "pid_inv n s"
  shows "pid_inv n s'"
  using assms(1)
proof cases
  case (mkdir_failed i e)
  show ?thesis unfolding mkdir_failed(1)
    by (rule pid_inv_move [OF inv, of i]) (use mkdir_failed pid_inv_len [OF inv] in simp_all)
next
  case (opened i)
  show ?thesis unfolding opened(1)
  proof (cases "pd_name s")
    case None
    show "pid_inv n (pid_open i s)"
      by (rule pid_inv_move [OF inv, of i "POpened (length (pd_data s))"])
        (use opened pid_inv_len [OF inv] None in \<open>simp_all add: pid_open_def Let_def\<close>)
  next
    case (Some ino)
    show "pid_inv n (pid_open i s)"
      by (rule pid_inv_move [OF inv, of i "POpened ino"]) (use opened pid_inv_len [OF inv] Some in \<open>simp_all add: pid_open_def\<close>)
  qed
next
  case (locked i ino)
  show ?thesis unfolding locked(1)
  proof (cases "pd_holder s ino")
    case None
    then have other: "\<not> in_lock ino (pd_procs s ! j)" if "j < n" for j using pid_inv_holder [OF inv, of ino j] that by simp
    show "pid_inv n (pid_lock i ino s)" unfolding pid_inv_def
      using None locked pid_inv_len [OF inv] pid_inv_holder [OF inv] other by (auto simp: pid_lock_def nth_list_update)
  next
    case (Some j)
    show "pid_inv n (pid_lock i ino s)"
      by (rule pid_inv_move [OF inv, of i "PReturned (Some ''flock'')"])
        (use locked pid_inv_len [OF inv] Some in \<open>simp_all add: pid_lock_def\<close>)
  qed
next
  case (wrote i ino)
  show ?thesis unfolding wrote(1)
    by (rule pid_inv_in_lock [OF inv, of i ino "PWritten ino"]) (use wrote pid_inv_len [OF inv] in \<open>auto simp: pid_write_def\<close>)
next
  case (write_failed i ino e)
  show ?thesis unfolding write_failed(1)
    by (rule pid_inv_release [OF inv]) (use write_failed pid_inv_len [OF inv] in auto)
next
  case (synced i ino)
  show ?thesis unfolding synced(1)
    by (rule pid_inv_release [OF inv]) (use synced pid_inv_len [OF inv] in auto)
next
  case (sync_failed i ino e)
  show ?thesis unfolding sync_failed(1)
    by (rule pid_inv_release [OF inv]) (use sync_failed pid_inv_len [OF inv] in auto)
next
  case (removed i)
  then show ?thesis using inv by (simp add: RemovePidFile_def pid_inv_def)
qed

lemma pid_reach_inv: "pid_reach info n s \<Longrightarrow> pid_inv n s"
proof (induction rule: pid_reach.induct)
  case start
  show ?case by (auto simp: pid_start_def pid_inv_def)
next
  case (step s s')
  then show ?case by (blast intro: pid_step_inv)
qed


text \<open>At any time at most one process is between taking and giving back the lock of a file.\<close>

lemma pid_lock_exclusive:
  assumes "pid_reach info n s" and "i < n" "j < n" and "in_lock ino (pd_procs s ! i)" "in_lock ino (pd_procs s ! j)"
  shows "i = j"
  using pid_inv_holder [OF pid_reach_inv [OF assms(1)]] assms(2-5) by (metis option.inject)

text \<open>
  The pid file does not keep a second instance from running: \<^verbatim>\<open>CreatePidFile\<close> gives its lock back when it
  returns, so a later call succeeds as well and overwrites the file of the process that is running.  And a
  call that is refused has already emptied the file of the call that has the lock.
\<close>

theorem pidfile_not_exclusive:
  "(\<exists>s. pid_reach info 2 s \<and> pd_procs s = [PReturned None, PReturned None] \<and> pd_name s = Some 0
      \<and> pd_data s = [pid_content (info 1)])
   \<and> (\<exists>s. pid_reach info 2 s \<and> pd_procs s = [PReturned None, PReturned (Some ''flock'')] \<and> pd_name s = Some 0
      \<and> pd_data s = [''''])"
proof -
  let ?s = "\<lambda>d h a b. \<lparr>pd_name = Some 0, pd_data = [d], pd_holder = h, pd_procs = [a, b]\<rparr>"
  let ?free = "\<lambda>_ :: nat. None :: nat option"
  note step = pid_reach.step [of info 2]
  have len: "(0 :: nat) < 2" "Suc 0 < 2" by simp_all
  have 0: "pid_reach info 2 (?s [] ?free (POpened 0) PStart)"
    using step [OF pid_reach.start pid_step.opened [of 0]] by (simp add: pid_start_def pid_open_def set_proc_def numeral_2_eq_2)
  have 1: "pid_reach info 2 (?s [] (?free(0 := Some 0)) (PLocked 0) PStart)"
    using step [OF 0 pid_step.locked [of 0]] by (simp add: pid_lock_def set_proc_def)
  have 2: "pid_reach info 2 (?s (pid_content (info 0)) (?free(0 := Some 0)) (PWritten 0) PStart)"
    using step [OF 1 pid_step.wrote [of 0]] by (simp add: pid_write_def set_proc_def)
  have 3: "pid_reach info 2 (?s (pid_content (info 0)) ?free (PReturned None) PStart)"
    using step [OF 2 pid_step.synced [of 0]] by (simp add: pid_return_def set_proc_def)
  have 4: "pid_reach info 2 (?s [] ?free (PReturned None) (POpened 0))"
    using step [OF 3 pid_step.opened [of 1]] by (simp add: pid_open_def set_proc_def)
  have 5: "pid_reach info 2 (?s [] (?free(0 := Some 1)) (PReturned None) (PLocked 0))"
    using step [OF 4 pid_step.locked [of 1]] by (simp add: pid_lock_def set_proc_def)
  have 6: "pid_reach info 2 (?s (pid_content (info 1)) (?free(0 := Some 1)) (PReturned None) (PWritten 0))"
    using step [OF 5 pid_step.wrote [of 1]] by (simp add: pid_write_def set_proc_def)
  have 7: "pid_reach info 2 (?s (pid_content (info 1)) ?free (PReturned None) (PReturned None))"
    using step [OF 6 pid_step.synced [of 1]] by (simp add: pid_return_def set_proc_def)
  have a: "pid_reach info 2 (?s [] (?free(0 := Some 0)) (PWritten 0) (POpened 0))"
    using step [OF 2 pid_step.opened [of 1]] by (simp add: pid_open_def set_proc_def)
  have b: "pid_reach info 2 (?s [] (?free(0 := Some 0)) (PWritten 0) (PReturned (Some ''flock'')))"
    using step [OF a pid_step.locked [of 1]] by (simp add: pid_lock_def set_proc_def)
  have c: "pid_reach info 2 (?s [] ?free (PReturned None) (PReturned (Some ''flock'')))"
    using step [OF b pid_step.synced [of 0]] by (simp add: pid_return_def set_proc_def)
  from 7 c show ?thesis by fastforce
qed

section \<open>Signals\<close>

definition ExitCodeSuccess :: int where "ExitCodeSuccess = 0"
definition ExitCodeFailedStartup :: int where "ExitCodeFailedStartup = 1"
definition ExitCodeForceQuit :: int where "ExitCodeForceQuit = 2"
definition ExitCodeFailedQuit :: int where "ExitCodeFailedQuit = 3"

text \<open>
  The channel buffers one signal and others are dropped; \<open>sg_count\<close> is the loop variable, \<open>sg_quitting\<close> says
  that the goroutine which ends the process has been started.
\<close>

record sig_state =
  sg_buffered :: bool
  sg_count :: nat
  sg_quitting :: bool
  sg_code :: "int option"

definition TrapSignals :: sig_state where
  "TrapSignals = \<lparr>sg_buffered = False, sg_count = 0, sg_quitting = False, sg_code = None\<rparr>"

definition handle_signal :: "sig_state \<Rightarrow> sig_state" where
  "handle_signal s =
     (if sg_count s > 0 then s\<lparr>sg_buffered := False, sg_code := Some ExitCodeForceQuit\<rparr>
      else s\<lparr>sg_buffered := False, sg_quitting := True, sg_count := sg_count s + 1\<rparr>)"

definition exitProcessFromSignal :: "sig_state \<Rightarrow> sig_state" where
  "exitProcessFromSignal s = s\<lparr>sg_code := Some ExitCodeSuccess\<rparr>"

inductive sig_reach :: "sig_state \<Rightarrow> bool" where
  start: "sig_reach TrapSignals"
| signal: "sig_reach s \<Longrightarrow> sg_code s = None \<Longrightarrow> sig_reach (s\<lparr>sg_buffered := True\<rparr>)"
| handled: "sig_reach s \<Longrightarrow> sg_code s = None \<Longrightarrow> sg_buffered s \<Longrightarrow> sig_reach (handle_signal s)"
| quits: "sig_reach s \<Longrightarrow> sg_code s = None \<Longrightarrow> sg_quitting s \<Longrightarrow> sig_reach (exitProcessFromSignal s)"

text \<open>The process ends only after a signal, normally after the first and by force after the second.\<close>

lemma signal_exit_codes:
  "sig_reach s \<Longrightarrow> (sg_quitting s \<longleftrightarrow> sg_count s = 1) \<and> sg_count s \<le> 1
     \<and> (case sg_code s of None \<Rightarrow> True | Some c \<Rightarrow> c \<in> {ExitCodeSuccess, ExitCodeForceQuit} \<and> sg_quitting s)"
  by (induction rule: sig_reach.induct) (auto simp: TrapSignals_def handle_signal_def exitProcessFromSignal_def)

end
