(* ===== verification/UdpProxy.thy ===== *)
theory UdpProxy
  imports Prelude "HOL-Library.Sublist"
begin

text \<open>
  The UDP proxy of \<^verbatim>\<open>net/proxy/udp_proxy.go\<close>: two goroutines copy datagrams between a session and the
  backend.  Unlike the TCP proxy a goroutine that ends closes the other side completely.  A side is a truth
  value, \<open>True\<close> for the client; a goroutine is named by the side it reads.
\<close>

section \<open>State\<close>

datatype udp_phase = UCopying | UReporting "string option" | UClosing | UFinished

record udp_proxy =
  ux_in :: "bool \<Rightarrow> string list"
  ux_sent :: "bool \<Rightarrow> string list"
  ux_got :: "bool \<Rightarrow> string list"
  ux_ended :: "bool \<Rightarrow> bool"
  ux_open :: "bool \<Rightarrow> bool"
  ux_phase :: "bool \<Rightarrow> udp_phase"
  ux_reports :: nat
  ux_returned :: bool

text \<open>\<^verbatim>\<open>ServeUDP\<close> once the backend is dialled; a failed dial returns at once.\<close>

definition ServeUDP :: udp_proxy where
  "ServeUDP = \<lparr>ux_in = (\<lambda>_. []), ux_sent = (\<lambda>_. []), ux_got = (\<lambda>_. []), ux_ended = (\<lambda>_. False), ux_open = (\<lambda>_. True),
     ux_phase = (\<lambda>_. UCopying), ux_reports = 0, ux_returned = False\<rparr>"

definition set_udp_phase :: "bool \<Rightarrow> udp_phase \<Rightarrow> udp_proxy \<Rightarrow> udp_proxy" where
  "set_udp_phase src ph p = p\<lparr>ux_phase := (ux_phase p)(src := ph)\<rparr>"

text \<open>One datagram read, and one datagram written.\<close>

definition copy_datagram :: "bool \<Rightarrow> udp_proxy \<Rightarrow> udp_proxy" where
  "copy_datagram src p =
     p\<lparr>ux_in := (ux_in p)(src := tl (ux_in p src)),
       ux_got := (ux_got p)(\<not> src := ux_got p (\<not> src) @ take 1 (ux_in p src))\<rparr>"

definition udp_report :: "bool \<Rightarrow> udp_proxy \<Rightarrow> udp_proxy" where
  "udp_report src p = (set_udp_phase src UClosing p)\<lparr>ux_reports := ux_reports p + 1\<rparr>"

definition close_dst :: "bool \<Rightarrow> udp_proxy \<Rightarrow> udp_proxy" where
  "close_dst src p = (set_udp_phase src UFinished p)\<lparr>ux_open := (ux_open p)(\<not> src := False)\<rparr>"

text \<open>
  The peers send, and a side may end: the session times out, or the backend answers an error.  A read from
  a closed or ended side fails.
\<close>

inductive udp_env :: "udp_proxy \<Rightarrow> udp_proxy \<Rightarrow> bool" where
  sends: "udp_env p (p\<lparr>ux_in := (ux_in p)(x := ux_in p x @ [d]), ux_sent := (ux_sent p)(x := ux_sent p x @ [d])\<rparr>)"
| ends: "udp_env p (p\<lparr>ux_ended := (ux_ended p)(x := True)\<rparr>)"
| drops: "udp_env p (p\<lparr>ux_open := (ux_open p)(x := False)\<rparr>)"

inductive udp_go :: "udp_proxy \<Rightarrow> udp_proxy \<Rightarrow> bool" where
  copies: "ux_phase p src = UCopying \<Longrightarrow> ux_open p src \<Longrightarrow> ux_open p (\<not> src) \<Longrightarrow> ux_in p src \<noteq> [] \<Longrightarrow>
    udp_go p (copy_datagram src p)"
| write_fails: "ux_phase p src = UCopying \<Longrightarrow> ux_open p src \<Longrightarrow> \<not> ux_open p (\<not> src) \<Longrightarrow> ux_in p src \<noteq> [] \<Longrightarrow>
    udp_go p (set_udp_phase src (UReporting (Some ''write'')) p)"
| read_fails: "ux_phase p src = UCopying \<Longrightarrow> \<not> ux_open p src \<Longrightarrow> udp_go p (set_udp_phase src (UReporting (Some ''read'')) p)"
| read_ends: "ux_phase p src = UCopying \<Longrightarrow> ux_ended p src \<Longrightarrow> udp_go p (set_udp_phase src (UReporting e) p)"
| reported: "ux_phase p src = UReporting e \<Longrightarrow> udp_go p (udp_report src p)"
| closes: "ux_phase p src = UClosing \<Longrightarrow> udp_go p (close_dst src p)"
| returns: "ux_reports p = 2 \<Longrightarrow> \<not> ux_returned p \<Longrightarrow> udp_go p (p\<lparr>ux_returned := True\<rparr>)"

inductive udp_proxy_reach :: "udp_proxy \<Rightarrow> bool" where
  start: "udp_proxy_reach ServeUDP"
| env: "udp_proxy_reach p \<Longrightarrow> udp_env p p' \<Longrightarrow> udp_proxy_reach p'"
| go: "udp_proxy_reach p \<Longrightarrow> udp_go p p' \<Longrightarrow> udp_proxy_reach p'"

section \<open>Invariant\<close>

fun done_reporting :: "udp_phase \<Rightarrow> bool" where
  "done_reporting UCopying = False"
| "done_reporting (UReporting e) = False"
| "done_reporting UClosing = True"
| "done_reporting UFinished = True"

definition udp_proxy_inv :: "udp_proxy \<Rightarrow> bool" where
  "udp_proxy_inv p \<longleftrightarrow>
     (\<forall>x. ux_got p (\<not> x) @ ux_in p x = ux_sent p x)
     \<and> (\<forall>x. ux_phase p x = UFinished \<longrightarrow> \<not> ux_open p (\<not> x))
     \<and> ux_reports p = (if done_reporting (ux_phase p True) then 1 else 0) + (if done_reporting (ux_phase p False) then 1 else 0)"

lemma both_sides: "(\<forall>x :: bool. P x) \<longleftrightarrow> P True \<and> P False" by (metis (full_types))

lemma udp_env_inv: "udp_env p p' \<Longrightarrow> udp_proxy_inv p \<Longrightarrow> udp_proxy_inv p'"
  by (induction rule: udp_env.induct) (auto simp: udp_proxy_inv_def both_sides)

lemma udp_go_inv: "udp_go p p' \<Longrightarrow> udp_proxy_inv p \<Longrightarrow> udp_proxy_inv p'"
proof (induction rule: udp_go.induct)
  case (copies p src)
  then show ?case by (cases src; cases "ux_in p src") (auto simp: udp_proxy_inv_def copy_datagram_def both_sides)
next
  case (closes p src)
  then show ?case by (cases src) (auto simp: udp_proxy_inv_def close_dst_def set_udp_phase_def)
next
  case (reported p src e)
  then show ?case by (cases src) (auto simp: udp_proxy_inv_def udp_report_def set_udp_phase_def)
next
  case (write_fails p src)
  then show ?case by (cases src) (auto simp: udp_proxy_inv_def set_udp_phase_def)
next
  case (read_fails p src)
  then show ?case by (cases src) (auto simp: udp_proxy_inv_def set_udp_phase_def)
next
  case (read_ends p src e)
  then show ?case by (cases src) (auto simp: udp_proxy_inv_def set_udp_phase_def)
qed (simp add: udp_proxy_inv_def)

lemma udp_proxy_reach_inv: "udp_proxy_reach p \<Longrightarrow> udp_proxy_inv p"
proof (induction rule: udp_proxy_reach.induct)
  case start
  show ?case by (simp add: ServeUDP_def udp_proxy_inv_def)
qed (blast intro: udp_env_inv udp_go_inv)+

fun udp_phase_work :: "udp_phase \<Rightarrow> nat" where
  "udp_phase_work UCopying = 3"
| "udp_phase_work (UReporting e) = 2"
| "udp_phase_work UClosing = 1"
| "udp_phase_work UFinished = 0"

definition udp_work :: "udp_proxy \<Rightarrow> nat" where
  "udp_work p = (\<Sum>x\<in>{True, False}. length (ux_in p x) + udp_phase_work (ux_phase p x)) + (if ux_returned p then 0 else 1)"

lemma udp_go_work: "udp_go p p' \<Longrightarrow> udp_work p' < udp_work p"
proof (induction rule: udp_go.induct)
  case (copies p src)
  then show ?case by (cases src; cases "ux_in p src") (simp_all add: udp_work_def copy_datagram_def)
next
  case (closes p src)
  then show ?case by (cases src) (simp_all add: udp_work_def close_dst_def set_udp_phase_def)
next
  case (reported p src e)
  then show ?case by (cases src) (simp_all add: udp_work_def udp_report_def set_udp_phase_def)
next
  case (write_fails p src)
  then show ?case by (cases src) (simp_all add: udp_work_def set_udp_phase_def)
next
  case (read_fails p src)
  then show ?case by (cases src) (simp_all add: udp_work_def set_udp_phase_def)
next
  case (read_ends p src e)
  then show ?case by (cases src) (simp_all add: udp_work_def set_udp_phase_def)
qed (simp add: udp_work_def)

lemma udp_stuck:
  assumes "\<And>p'. \<not> udp_go p p'" and "udp_proxy_inv p"
  shows "ux_phase p x = UFinished \<or> ux_phase p x = UCopying \<and> ux_open p x \<and> \<not> ux_ended p x"
proof (cases "ux_phase p x")
  case UCopying
  with assms(1) udp_go.read_fails [of p x] udp_go.read_ends [of p x] show ?thesis by blast
next
  case (UReporting e)
  with assms(1) udp_go.reported [of p x] show ?thesis by blast
next
  case UClosing
  with assms(1) udp_go.closes [of p x] show ?thesis by blast
qed simp


definition wit_udp :: udp_proxy where
  "wit_udp = copy_datagram True (ServeUDP\<lparr>ux_in := (\<lambda>_. [])(True := [''query'']), ux_sent := (\<lambda>_. [])(True := [''query''])\<rparr>)"


end
