(* ===== verification/ZapSink.thy ===== *)
theory ZapSink
  imports Prelude
begin

text \<open>
  The sink that carries klog messages to zap, \<^verbatim>\<open>cmd/kube/klog.go\<close>.  A value of any type is a text or
  something else with the text that \<^verbatim>\<open>%v\<close> gives it; a log line is the level, the message and the fields the
  zap logger is handed.
\<close>

datatype any = Str string | Val string

datatype level = DebugLevel | InfoLevel | ErrorLevel

record ZapLogSink =
  zs_name :: string
  zs_keys :: "any list"

type_synonym field = "string \<times> any"

fun key_text :: "any \<Rightarrow> string" where
  "key_text (Str s) = s"
| "key_text (Val t) = t"

text \<open>A value without a partner at the end of the list is left out.\<close>

fun pairs :: "any list \<Rightarrow> field list" where
  "pairs (k # v # rest) = (key_text k, v) # pairs rest"
| "pairs _ = []"

definition mapKeysToFields :: "ZapLogSink \<Rightarrow> any list \<Rightarrow> field list" where
  "mapKeysToFields z keysAndValues =
     pairs keysAndValues @ (if zs_name z \<noteq> [] then [(''logger'', Str (zs_name z))] else []) @ pairs (zs_keys z)"

definition Enabled :: "(level \<Rightarrow> bool) \<Rightarrow> int \<Rightarrow> bool" where
  "Enabled core level = core (if level = 0 then InfoLevel else DebugLevel)"

definition logWithFields :: "(level \<Rightarrow> bool) \<Rightarrow> ZapLogSink \<Rightarrow> level \<Rightarrow> string \<Rightarrow> any list \<Rightarrow> (level \<times> string \<times> field list) list" where
  "logWithFields core z lv msg keysAndValues =
     (let fields = mapKeysToFields z keysAndValues in if core lv then [(lv, msg, fields)] else [])"

text \<open>The verbosity is not looked at.\<close>

definition Sink_Info :: "(level \<Rightarrow> bool) \<Rightarrow> ZapLogSink \<Rightarrow> int \<Rightarrow> string \<Rightarrow> any list \<Rightarrow> (level \<times> string \<times> field list) list" where
  "Sink_Info core z level msg keysAndValues = logWithFields core z InfoLevel msg keysAndValues"

definition Sink_Error :: "(level \<Rightarrow> bool) \<Rightarrow> ZapLogSink \<Rightarrow> any option \<Rightarrow> string \<Rightarrow> any list \<Rightarrow> (level \<times> string \<times> field list) list" where
  "Sink_Error core z err msg keysAndValues =
     (let fields = (case err of None \<Rightarrow> [] | Some e \<Rightarrow> [(''error'', e)]) @ mapKeysToFields z keysAndValues
      in if core ErrorLevel then [(ErrorLevel, msg, fields)] else [])"

definition WithValues :: "any list \<Rightarrow> ZapLogSink \<Rightarrow> ZapLogSink" where
  "WithValues keysAndValues z =
     (let newKeys = replicate (length (zs_keys z) + length keysAndValues) (Val '''');
          newKeys1 = slice_copy newKeys (zs_keys z);
          newKeys2 = copy_at newKeys1 (length (zs_keys z)) keysAndValues
      in \<lparr>zs_name = zs_name z, zs_keys = newKeys2\<rparr>)"

definition WithName :: "string \<Rightarrow> ZapLogSink \<Rightarrow> ZapLogSink" where
  "WithName name z = z\<lparr>zs_name := (if zs_name z \<noteq> [] then zs_name z @ ''.'' @ name else name)\<rparr>"

section \<open>Fields\<close>

lemma WithValues_keys: "zs_keys (WithValues kv z) = zs_keys z @ kv" "zs_name (WithValues kv z) = zs_name z"
  by (simp_all add: WithValues_def Let_def slice_copy_def copy_at_def)

lemma pairs_append: "even (length xs) \<Longrightarrow> pairs (xs @ ys) = pairs xs @ pairs ys"
  by (induction xs rule: pairs.induct) auto

datatype refine = Named string | Valued "any list"

fun refine_sink :: "refine \<Rightarrow> ZapLogSink \<Rightarrow> ZapLogSink" where
  "refine_sink (Named n) z = WithName n z"
| "refine_sink (Valued kv) z = WithValues kv z"

fun valued :: "refine \<Rightarrow> any list" where
  "valued (Named n) = []"
| "valued (Valued kv) = kv"

definition refined :: "refine list \<Rightarrow> ZapLogSink \<Rightarrow> ZapLogSink" where
  "refined rs z = fold refine_sink rs z"

lemma refined_keys: "zs_keys (refined rs z) = zs_keys z @ concat (map valued rs)"
proof (induction rs arbitrary: z)
  case (Cons r rs)
  then show ?case by (cases r) (simp_all add: refined_def WithValues_keys WithName_def)
qed (simp add: refined_def)

lemma pairs_concat: "\<forall>xs\<in>set xss. even (length xs) \<Longrightarrow> pairs (concat xss) = concat (map pairs xss)"
  by (induction xss) (simp_all add: pairs_append)

lemma even_concat: "\<forall>xs\<in>set xss. even (length xs) \<Longrightarrow> even (length (concat xss))"
  by (induction xss) auto

text \<open>
  A message carries its own pairs, then the name, then the pairs given to the sink in the order they were
  given, whatever names were given in between, when all lists are pairs.  One value too many in an early list
  shifts all later ones: keys become values.
\<close>

theorem sink_fields:
  assumes "\<forall>r\<in>set rs. even (length (valued r))"
  shows "mapKeysToFields (refined rs \<lparr>zs_name = [], zs_keys = []\<rparr>) kv
    = pairs kv @ (let n = zs_name (refined rs \<lparr>zs_name = [], zs_keys = []\<rparr>) in if n \<noteq> [] then [(''logger'', Str n)] else [])
      @ concat (map (\<lambda>r. pairs (valued r)) rs)"
proof -
  have "pairs (concat (map valued rs)) = concat (map pairs (map valued rs))"
    by (rule pairs_concat) (use assms in simp)
  then show ?thesis by (simp add: mapKeysToFields_def refined_keys Let_def comp_def)
qed

theorem sink_fields_witness:
  "mapKeysToFields (refined [Named ''a'', Valued [Str ''k'', Str ''v''], Named ''b''] \<lparr>zs_name = [], zs_keys = []\<rparr>) [Str ''x'', Str ''y'']
     = [(''x'', Str ''y''), (''logger'', Str ''a.b''), (''k'', Str ''v'')]
   \<and> mapKeysToFields (refined [Valued [Str ''lone''], Valued [Str ''k'', Str ''v'']] \<lparr>zs_name = [], zs_keys = []\<rparr>) []
     = [(''lone'', Str ''k'')]"
proof
  show "mapKeysToFields (refined [Named ''a'', Valued [Str ''k'', Str ''v''], Named ''b''] \<lparr>zs_name = [], zs_keys = []\<rparr>) [Str ''x'', Str ''y'']
     = [(''x'', Str ''y''), (''logger'', Str ''a.b''), (''k'', Str ''v'')]"
    using sink_fields [of "[Named ''a'', Valued [Str ''k'', Str ''v''], Named ''b'']" "[Str ''x'', Str ''y'']"]
    by (simp add: refined_def WithName_def WithValues_keys)
qed (simp add: mapKeysToFields_def refined_def WithValues_def slice_copy_def copy_at_def Let_def)

end
