(* ===== verification/Patterns.thy ===== *)
theory Patterns
  imports NetAddr
begin

text \<open>
  The behavioural patterns of \<^verbatim>\<open>design_pattern\<close> that compute something, and its pool of connections: the
  template interpreter, the chain of handlers, the chat room, mementos, iterators, observers, states,
  commands, visitors, and the tree of files.  What a program prints is a list of events.
\<close>

section \<open>Template interpreter\<close>

text \<open>\<^verbatim>\<open>strings.Index\<close>.\<close>

fun Index :: "string \<Rightarrow> string \<Rightarrow> nat option" where
  "Index s w = (if take (length w) s = w then Some 0 else case s of [] \<Rightarrow> None | _ # r \<Rightarrow> map_option Suc (Index r w))"

declare Index.simps [simp del]

datatype tnode = TextNode string | VarNode string

text \<open>A value has the text that \<^verbatim>\<open>%v\<close> gives it; an unknown key has the empty text.\<close>

fun Node_Interpreter :: "(string \<rightharpoonup> string) \<Rightarrow> tnode \<Rightarrow> string" where
  "Node_Interpreter ctx (TextNode content) = content"
| "Node_Interpreter ctx (VarNode key) = (case ctx key of None \<Rightarrow> [] | Some val \<Rightarrow> val)"

definition Template_Interpreter :: "(string \<rightharpoonup> string) \<Rightarrow> tnode list \<Rightarrow> string" where
  "Template_Interpreter ctx tree = foldl (\<lambda>s node. s @ Node_Interpreter ctx node) [] tree"

lemma Index_bound: "Index s w = Some i \<Longrightarrow> i \<le> length s"
  by (induction s arbitrary: i) (auto simp: Index.simps split: if_splits)

text \<open>
  \<^verbatim>\<open>ParseTemplate\<close> from an index on; \<open>None\<close> would be the panic of a slice whose end is before its start.
\<close>

function parse_from :: "string \<Rightarrow> tnode list option" where
  "parse_from t =
     (case Index t ''{{'' of
        None \<Rightarrow> Some [TextNode t]
      | Some startIndex \<Rightarrow>
          (case Index (drop startIndex t) ''}}'' of
             None \<Rightarrow> Some [TextNode (take startIndex t)]
           | Some endIndex \<Rightarrow>
               if endIndex < 2 then None
               else map_option (\<lambda>nodes. TextNode (take startIndex t)
                        # VarNode (TrimSpace (take (endIndex - 2) (drop (startIndex + 2) t))) # nodes)
                      (parse_from (drop (startIndex + endIndex + 2) t))))"
  by pat_completeness auto

termination
proof (relation "measure length")
  fix t i e assume "Index t ''{{'' = Some i" "Index (drop i t) ''}}'' = Some e" "\<not> e < 2"
  then show "(drop (i + e + 2) t, t) \<in> measure length"
    using Index_bound [of t "''{{''" i] Index_bound [of "drop i t" "''}}''" e] by (simp add: less_diff_conv2)
qed simp

declare parse_from.simps [simp del]

definition ParseTemplate :: "string \<Rightarrow> tnode list option" where
  "ParseTemplate tmpl = parse_from tmpl"

lemma Index_append:
  assumes "w = c # w'" and "c \<notin> set s"
  shows "Index (s @ w @ t) w = Some (length s)"
  using assms(2)
proof (induction s)
  case Nil
  then show ?case by (simp add: Index.simps)
next
  case (Cons d s)
  then have "take (length w) ((d # s) @ w @ t) \<noteq> w" using assms(1) by auto
  with Cons show ?case by (subst Index.simps) simp
qed

lemma Index_none: "c \<notin> set s \<Longrightarrow> Index s (c # w) = None"
  by (induction s) (auto simp: Index.simps)

lemma Index_found: "Index s w = Some i \<Longrightarrow> take (length w) (drop i s) = w"
  by (induction s arbitrary: i) (auto simp: Index.simps split: if_splits)

text \<open>The end is never found inside the opening braces, so no slice panics.\<close>

lemma end_after_start:
  assumes "Index t ''{{'' = Some i" and "Index (drop i t) ''}}'' = Some e"
  shows "2 \<le> e"
proof (rule ccontr)
  assume "\<not> 2 \<le> e"
  then have e: "e = 0 \<or> e = 1" by auto
  from Index_found [OF assms(1)] have "take 2 (drop i t) = ''{{''" by (simp add: numeral_2_eq_2)
  then obtain r where r: "drop i t = ''{{'' @ r" by (metis append_take_drop_id)
  from Index_found [OF assms(2)] have "take 2 (drop e (drop i t)) = ''}}''" by (simp add: numeral_2_eq_2)
  with e r show False by auto
qed

lemma parse_total: "\<exists>nodes. parse_from t = Some nodes"
proof (induction t rule: parse_from.induct)
  case (1 t)
  show ?case
  proof (cases "Index t ''{{''")
    case None
    then show ?thesis by (subst parse_from.simps) simp
  next
    case (Some i)
    show ?thesis
    proof (cases "Index (drop i t) ''}}''")
      case None
      with Some show ?thesis by (subst parse_from.simps) simp
    next
      case e: (Some e)
      from end_after_start [OF Some e] have "\<not> e < 2" by simp
      with 1 [OF Some e this] Some e show ?thesis by (subst parse_from.simps) auto
    qed
  qed
qed

text \<open>A template written from pieces.\<close>

fun print_template :: "(string \<times> string) list \<Rightarrow> string \<Rightarrow> string" where
  "print_template [] end_text = end_text"
| "print_template ((text, key) # rest) end_text = text @ ''{{'' @ key @ ''}}'' @ print_template rest end_text"

fun template_nodes :: "(string \<times> string) list \<Rightarrow> string \<Rightarrow> tnode list" where
  "template_nodes [] end_text = [TextNode end_text]"
| "template_nodes ((text, key) # rest) end_text = TextNode text # VarNode (TrimSpace key) # template_nodes rest end_text"

lemma parse_print:
  assumes "\<forall>(text, key)\<in>set ps. CHR ''{'' \<notin> set text \<and> CHR ''}'' \<notin> set key" and "CHR ''{'' \<notin> set end_text"
  shows "parse_from (print_template ps end_text) = Some (template_nodes ps end_text)"
  using assms(1)
proof (induction ps)
  case Nil
  with assms(2) show ?case using Index_none [of "CHR ''{''" end_text "''{''"] by (subst parse_from.simps) simp
next
  case (Cons p ps)
  obtain s key where p: "p = (s, key)" by (cases p)
  let ?t = "s @ ''{{'' @ key @ ''}}'' @ print_template ps end_text"
  from Cons.prems p have t: "CHR ''{'' \<notin> set s" and k: "CHR ''}'' \<notin> set key" by auto
  have 1: "Index ?t ''{{'' = Some (length s)" using t by (intro Index_append) simp_all
  have "Index ((''{{'' @ key) @ ''}}'' @ print_template ps end_text) ''}}'' = Some (length (''{{'' @ key))"
    by (rule Index_append [where c = "CHR ''}''" and w' = "''}''"]) (use k in auto)
  then have 2: "Index (drop (length s) ?t) ''}}'' = Some (length key + 2)" by simp
  have IH: "parse_from (print_template ps end_text) = Some (template_nodes ps end_text)" using Cons by simp
  have "parse_from ?t = Some (template_nodes ((s, key) # ps) end_text)"
  proof -
    have pieces: "take (length s) ?t = s" "take (length key + 2 - 2) (drop (length s + 2) ?t) = key" by simp_all
    have split: "?t = (s @ ''{{'' @ key @ ''}}'') @ print_template ps end_text"
      and len: "length (s @ ''{{'' @ key @ ''}}'') = length s + (length key + 2) + 2" by simp_all
    have rest: "drop (length s + (length key + 2) + 2) ?t = print_template ps end_text"
      unfolding split len [symmetric] by (rule append_eq_conv_conj [THEN iffD1, THEN conjunct2, symmetric]) simp
    have no: "\<not> length key + 2 < 2" by simp
    show ?thesis
      by (subst parse_from.simps)
        (simp only: 1 2 option.case pieces rest no if_False IH option.map template_nodes.simps)
  qed
  then show ?case using p by simp
qed

lemma interpret_nodes:
  "Template_Interpreter ctx nodes = concat (map (Node_Interpreter ctx) nodes)"
proof -
  have "foldl (\<lambda>s node. s @ Node_Interpreter ctx node) acc nodes = acc @ concat (map (Node_Interpreter ctx) nodes)" for acc
    by (induction nodes arbitrary: acc) simp_all
  then show ?thesis by (simp add: Template_Interpreter_def)
qed

text \<open>
  Parsing a template never panics, and a template of texts without opening braces and keys without
  closing braces means the texts with the values of the trimmed keys between them.
\<close>

theorem template_meaning:
  assumes "\<forall>(text, key)\<in>set ps. CHR ''{'' \<notin> set text \<and> CHR ''}'' \<notin> set key" and "CHR ''{'' \<notin> set end_text"
  shows "ParseTemplate t \<noteq> None
    \<and> map_option (Template_Interpreter ctx) (ParseTemplate (print_template ps end_text))
      = Some (concat (map (\<lambda>(text, key). text @ (case ctx (TrimSpace key) of None \<Rightarrow> [] | Some v \<Rightarrow> v)) ps) @ end_text)"
proof -
  have "concat (map (Node_Interpreter ctx) (template_nodes ps end_text))
      = concat (map (\<lambda>(text, key). text @ (case ctx (TrimSpace key) of None \<Rightarrow> [] | Some v \<Rightarrow> v)) ps) @ end_text"
    by (induction ps end_text rule: template_nodes.induct) auto
  then show ?thesis
    using parse_total [of t] parse_print [OF assms] by (auto simp: ParseTemplate_def interpret_nodes)
qed


theorem template_meaning_witness:
  "map_option (Template_Interpreter [''Age'' \<mapsto> ''21'']) (ParseTemplate (print_template [(''You are '', ''Age'')] '' years old.''))
    = Some (''You are '' @ (case [''Age'' \<mapsto> ''21''] (TrimSpace ''Age'') of None \<Rightarrow> [] | Some v \<Rightarrow> v) @ '' years old.'')"
  using template_meaning [of "[(''You are '', ''Age'')]" "'' years old.''" "''x''" "[''Age'' \<mapsto> ''21'']"] by simp

text \<open>Without the closing braces the rest of a template, opening braces included, is lost.\<close>

lemma unclosed_lost:
  assumes "Index t ''{{'' = Some i" and "Index (drop i t) ''}}'' = None"
  shows "ParseTemplate t = Some [TextNode (take i t)]"
  unfolding ParseTemplate_def using assms by (subst parse_from.simps) simp

section \<open>Chain of handlers\<close>

text \<open>A handler is the list of what it does: printing, and calls of \<^verbatim>\<open>Next\<close> and \<^verbatim>\<open>Abort\<close>.\<close>

datatype action = Print string | CallNext | CallAbort

text \<open>
  The stack holds what the running handlers have still to do; \<^verbatim>\<open>Next\<close> runs the handler at the next index
  at once, when there is one.
\<close>

function run_chain :: "action list list \<Rightarrow> int \<Rightarrow> action list list \<Rightarrow> string list" where
  "run_chain handlers index [] = []"
| "run_chain handlers index ([] # st) = run_chain handlers index st"
| "run_chain handlers index ((Print m # as) # st) = m # run_chain handlers index (as # st)"
| "run_chain handlers index ((CallNext # as) # st) =
     (let index' = index + 1 in
      if index' < int (length handlers) then run_chain handlers index' (handlers ! nat index' # as # st)
      else run_chain handlers index' (as # st))"
| "run_chain handlers index ((CallAbort # as) # st) = run_chain handlers (int (length handlers)) (as # st)"
  by pat_completeness auto

termination
  by (relation "inv_image (less_than <*lex*> less_than)
      (\<lambda>(hs, i, st). (nat (int (length hs) - i), sum_list (map (\<lambda>as. Suc (length as)) st)))") auto

record Engine =
  en_handlers :: "action list list"

definition Engine_Use :: "action list \<Rightarrow> Engine \<Rightarrow> Engine" where
  "Engine_Use f e = e\<lparr>en_handlers := en_handlers e @ [f]\<rparr>"

text \<open>A request starts with the index before the first handler and one call of \<^verbatim>\<open>Next\<close>.\<close>

definition Engine_ServeHTTP :: "Engine \<Rightarrow> string list" where
  "Engine_ServeHTTP e = run_chain (en_handlers e) (- 1) [[CallNext]]"

definition AuthMiddleware :: "action list" where "AuthMiddleware = [Print ''auth'']"
definition LogMiddleware :: "action list" where "LogMiddleware = [Print ''log'', CallNext]"

lemma run_prints: "run_chain hs i ((map Print ms @ as) # st) = ms @ run_chain hs i (as # st)"
  by (induction ms) simp_all

lemma run_posts: "run_chain hs i (map (map Print) mss) = concat mss"
proof (induction mss)
  case (Cons ms mss)
  then show ?case using run_prints [of hs i ms "[]"] by simp
qed simp

definition onion :: "string list \<times> string list \<Rightarrow> action list" where
  "onion p = map Print (fst p) @ CallNext # map Print (snd p)"

lemma run_onion:
  assumes "k \<le> length ps"
  shows "run_chain (map onion ps) (int k - 1) ((CallNext # as) # st)
    = concat (map fst (drop k ps)) @ run_chain (map onion ps) (int (length ps)) (map (map Print \<circ> snd) (rev (drop k ps)) @ as # st)"
  using assms
proof (induction "length ps - k" arbitrary: k as st)
  case 0
  then show ?case by simp
next
  case (Suc n)
  then have k: "k < length ps" by simp
  have drop: "drop k ps = ps ! k # drop (Suc k) ps" using k by (rule Cons_nth_drop_Suc [symmetric])
  have IH: "run_chain (map onion ps) (int k) ((CallNext # map Print (snd (ps ! k))) # as # st)
      = concat (map fst (drop (Suc k) ps)) @ run_chain (map onion ps) (int (length ps))
          (map (map Print \<circ> snd) (rev (drop (Suc k) ps)) @ map Print (snd (ps ! k)) # as # st)"
    using Suc.hyps(1) [of "Suc k" "map Print (snd (ps ! k))" "as # st"] Suc.hyps(2) k by simp
  have "run_chain (map onion ps) (int k - 1) ((CallNext # as) # st)
      = run_chain (map onion ps) (int k) (onion (ps ! k) # as # st)" using k by simp
  also have "\<dots> = fst (ps ! k) @ run_chain (map onion ps) (int k) ((CallNext # map Print (snd (ps ! k))) # as # st)"
    unfolding onion_def by (rule run_prints)
  finally show ?case unfolding IH drop by simp
qed

text \<open>
  Handlers that print, call \<^verbatim>\<open>Next\<close> once and print again enclose each other: a request prints the first
  parts in the order of registration and then the second parts in the reverse order, each once.
\<close>

theorem handlers_enclose:
  "Engine_ServeHTTP \<lparr>en_handlers = map onion ps\<rparr> = concat (map fst ps) @ concat (rev (map snd ps))"
proof -
  have "run_chain (map onion ps) (int (length ps)) (map (map Print \<circ> snd) (rev ps) @ [[]])
      = concat (map snd (rev ps))"
    using run_posts [of "map onion ps" "int (length ps)" "map snd (rev ps) @ [[]]"] by (simp add: comp_def)
  with run_onion [of 0 ps "[]" "[]"] show ?thesis by (simp add: Engine_ServeHTTP_def rev_map)
qed

lemma auth_ends_chain:
  "Engine_ServeHTTP (Engine_Use AuthMiddleware (Engine_Use LogMiddleware \<lparr>en_handlers = []\<rparr>)) = [''log'', ''auth'']"
  by (simp add: Engine_ServeHTTP_def Engine_Use_def AuthMiddleware_def LogMiddleware_def)

section \<open>Pool of connections\<close>

text \<open>A connection is known by its number.\<close>

record DBPool =
  dp_pool :: "int \<rightharpoonup> int"
  dp_nextID :: int

definition NewDBPool :: "int \<Rightarrow> DBPool" where
  "NewDBPool num = \<lparr>dp_pool = (\<lambda>i. if 0 \<le> i \<and> i < num then Some i else None), dp_nextID = num - 1\<rparr>"

text \<open>\<open>pick\<close> is the number the visit of the map begins with.\<close>

definition GetDB :: "int \<Rightarrow> DBPool \<Rightarrow> int \<times> DBPool" where
  "GetDB pick p =
     (case dp_pool p pick of
        Some db \<Rightarrow> (db, p\<lparr>dp_pool := (dp_pool p)(pick := None)\<rparr>)
      | None \<Rightarrow> (dp_nextID p + 1, p\<lparr>dp_nextID := dp_nextID p + 1\<rparr>))"

definition DBPool_Release :: "int \<Rightarrow> DBPool \<Rightarrow> DBPool" where
  "DBPool_Release db p = p\<lparr>dp_pool := (dp_pool p)(db \<mapsto> db)\<rparr>"

text \<open>Clients that give back only what they have, and once; \<open>held\<close> lists the connections they have.\<close>

inductive pool_reach :: "int \<Rightarrow> DBPool \<Rightarrow> int list \<Rightarrow> bool" for num where
  start: "pool_reach num (NewDBPool num) []"
| get: "pool_reach num p held \<Longrightarrow> pick \<in> dom (dp_pool p) \<or> dom (dp_pool p) = {} \<Longrightarrow> GetDB pick p = (db, p') \<Longrightarrow>
    pool_reach num p' (db # held)"
| release: "pool_reach num p held \<Longrightarrow> db \<in> set held \<Longrightarrow> pool_reach num (DBPool_Release db p) (remove1 db held)"

text \<open>
  No connection is handed to two clients: those handed out are all different, none of them is in the pool,
  and a connection made anew has a number that none ever had.
\<close>

lemma pool_inv:
  "pool_reach num p held \<Longrightarrow> distinct held \<and> set held \<inter> dom (dp_pool p) = {}
     \<and> (\<forall>k db. dp_pool p k = Some db \<longrightarrow> k = db \<and> db \<le> dp_nextID p) \<and> (\<forall>db\<in>set held. db \<le> dp_nextID p)"
proof (induction rule: pool_reach.induct)
  case start
  show ?case by (simp add: NewDBPool_def)
next
  case (get p held pick db p')
  show ?case
  proof (cases "dp_pool p pick")
    case None
    with get.hyps(2) have "dom (dp_pool p) = {}" by auto
    with None get.hyps(3) get.IH show ?thesis by (auto simp: GetDB_def)
  next
    case (Some d)
    with get.IH have "d = pick" "d \<le> dp_nextID p" by auto
    with Some get.hyps(3) get.IH show ?thesis by (auto simp: GetDB_def split: if_splits)
  qed
next
  case (release p held db)
  then show ?case by (auto simp: DBPool_Release_def split: if_splits dest: notin_set_remove1)
qed

text \<open>
  However connections are taken and given back, no two users hold the same one, no held connection is in
  the pool, and a connection that is made when the pool is empty is held by nobody.
\<close>

theorem pool_exclusive:
  assumes "pool_reach num p held"
  shows "distinct held \<and> set held \<inter> dom (dp_pool p) = {} \<and> (\<forall>db\<in>set held. db \<noteq> dp_nextID p + 1)"
  using pool_inv [OF assms] by fastforce

theorem pool_exclusive_witness:
  "distinct [1, 0 :: int] \<and> pool_reach 1 \<lparr>dp_pool = (\<lambda>_. None), dp_nextID = 1\<rparr> [1, 0]"
proof -
  have 0: "pool_reach 1 \<lparr>dp_pool = (\<lambda>_. None), dp_nextID = 0\<rparr> [0]"
  proof (rule pool_reach.get [OF pool_reach.start [of 1]])
    show "GetDB 0 (NewDBPool 1) = (0, \<lparr>dp_pool = (\<lambda>_. None), dp_nextID = 0\<rparr>)"
      by (auto simp: GetDB_def NewDBPool_def fun_eq_iff)
  qed (auto simp: NewDBPool_def dom_def)
  have "pool_reach 1 \<lparr>dp_pool = (\<lambda>_. None), dp_nextID = 1\<rparr> [1, 0]"
    using pool_reach.get [OF 0, of 0 1] by (simp add: GetDB_def)
  with pool_exclusive [OF this] show ?thesis by blast
qed


text \<open>A connection that is given back twice is handed to two clients.\<close>

lemma double_release_shares:
  "\<exists>p p' p''. GetDB 0 (DBPool_Release 0 p) = (0, p') \<and> GetDB 0 (DBPool_Release 0 p') = (0, p'')"
  by (simp add: GetDB_def DBPool_Release_def)

section \<open>Chat room\<close>

text \<open>Users are structures: two users of one name in one room are the same to \<^verbatim>\<open>==\<close>.\<close>

record ChatUser =
  us_Name :: string
  us_room :: nat

datatype chat_event = Sends string string | Receives string string

definition RevMsg :: "ChatUser \<Rightarrow> string \<Rightarrow> chat_event" where "RevMsg u msg = Receives (us_Name u) msg"

definition ChatRoom_Register :: "ChatUser \<Rightarrow> ChatUser list \<Rightarrow> ChatUser list" where
  "ChatRoom_Register user users = users @ [user]"

fun ChatRoom_SendMsg :: "ChatUser list \<Rightarrow> string \<Rightarrow> ChatUser \<Rightarrow> chat_event list" where
  "ChatRoom_SendMsg [] msg user = []"
| "ChatRoom_SendMsg (u # us) msg user =
     (if u = user then ChatRoom_SendMsg us msg user else RevMsg u msg # ChatRoom_SendMsg us msg user)"

definition User_SendMsg :: "(nat \<Rightarrow> ChatUser list) \<Rightarrow> ChatUser \<Rightarrow> string \<Rightarrow> chat_event list" where
  "User_SendMsg rooms u msg = Sends (us_Name u) msg # ChatRoom_SendMsg (rooms (us_room u)) msg u"

lemma chat_receivers:
  "ChatRoom_SendMsg users msg user = map (\<lambda>u. Receives (us_Name u) msg) (filter (\<lambda>u. u \<noteq> user) users)"
  by (induction users) (simp_all add: RevMsg_def)

section \<open>Mementos\<close>

record TextState =
  tx_state :: string

definition SetState :: "string \<Rightarrow> TextState \<Rightarrow> TextState" where "SetState state t = t\<lparr>tx_state := state\<rparr>"
definition GetState :: "TextState \<Rightarrow> string" where "GetState t = tx_state t"
definition TextNode_Save :: "TextState \<Rightarrow> string" where "TextNode_Save t = tx_state t"
definition Manage_Save :: "string \<Rightarrow> string list \<Rightarrow> string list" where "Manage_Save m states = states @ [m]"
definition Manage_Back :: "int \<Rightarrow> string list \<Rightarrow> string go" where "Manage_Back index states = slice_get states index"

text \<open>A state saved as the \<open>k\<close>th comes back whatever is set and saved later.\<close>

lemma memento_back:
  "k < length states \<Longrightarrow> Manage_Back (int k) (fold Manage_Save later states) = Manage_Back (int k) states
     \<and> Manage_Back (int (length states)) (Manage_Save (TextNode_Save t) states) = Inr (GetState t)"
proof -
  assume k: "k < length states"
  have "fold Manage_Save later states = states @ later"
    by (induction later arbitrary: states) (simp_all add: Manage_Save_def)
  with k show ?thesis
    by (simp add: Manage_Back_def Manage_Save_def TextNode_Save_def GetState_def slice_get_def nth_append)
qed

section \<open>Iterator\<close>

record IntSliceIterator =
  it_slice :: "int list"
  it_index :: int

definition NewIntSliceIterator :: "int list \<Rightarrow> IntSliceIterator" where
  "NewIntSliceIterator xs = \<lparr>it_slice = xs, it_index = - 1\<rparr>"

definition HasNext :: "IntSliceIterator \<Rightarrow> bool" where
  "HasNext it = (if it_index it + 1 < int (length (it_slice it)) then True else False)"

definition Iterator_Next :: "IntSliceIterator \<Rightarrow> ((int \<times> bool) \<times> IntSliceIterator) go" where
  "Iterator_Next it =
     (if \<not> HasNext it then Inr ((0, False), it)
      else let it' = it\<lparr>it_index := it_index it + 1\<rparr> in
           bnd (slice_get (it_slice it') (it_index it')) (\<lambda>v. Inr ((v, True), it')))"

text \<open>The loop of \<^verbatim>\<open>main\<close>.\<close>

partial_function (option) iterate :: "IntSliceIterator \<Rightarrow> int list option" where
  "iterate it =
     (if \<not> HasNext it then Some []
      else case Iterator_Next it of
             Inl e \<Rightarrow> None
           | Inr ((v, ok), it') \<Rightarrow> if \<not> ok then Some [] else Option.bind (iterate it') (\<lambda>vs. Some (v # vs)))"

lemma iterate_from:
  "k \<le> length xs \<Longrightarrow> iterate \<lparr>it_slice = xs, it_index = int k - 1\<rparr> = Some (drop k xs)"
proof (induction "length xs - k" arbitrary: k)
  case 0
  then show ?case by (subst iterate.simps) (simp add: HasNext_def)
next
  case (Suc n)
  then have k: "k < length xs" by simp
  from Suc.hyps(1) [of "Suc k"] Suc.hyps(2) k
  have IH: "iterate \<lparr>it_slice = xs, it_index = int k\<rparr> = Some (drop (Suc k) xs)" by simp
  from k show ?case
    by (subst iterate.simps) (simp add: HasNext_def Iterator_Next_def Let_def slice_get_def IH Cons_nth_drop_Suc)
qed

text \<open>The loop ends and visits every element once, in order.\<close>

theorem iterator_visits_all: "iterate (NewIntSliceIterator xs) = Some xs"
  using iterate_from [of 0 xs] by (simp add: NewIntSliceIterator_def)

section \<open>Observers, states, commands, visitors\<close>

record Weather =
  wz_observerList :: "string list"
  wz_wd :: int

definition RegisterObserver :: "string \<Rightarrow> Weather \<Rightarrow> Weather" where
  "RegisterObserver observer w = w\<lparr>wz_observerList := wz_observerList w @ [observer]\<rparr>"

definition Weather_Notify :: "Weather \<Rightarrow> (string \<times> int) list" where
  "Weather_Notify w = map (\<lambda>observer. (observer, wz_wd w)) (wz_observerList w)"

definition Weather_SendMsg :: "int \<Rightarrow> Weather \<Rightarrow> Weather \<times> (string \<times> int) list" where
  "Weather_SendMsg wd w = (let w' = w\<lparr>wz_wd := wd\<rparr> in (w', Weather_Notify w'))"

datatype switch_state = OnState | OffState
datatype switch_event = SwitchedOff | SwitchedOn

fun Context_Switch :: "switch_state \<Rightarrow> switch_event \<times> switch_state" where
  "Context_Switch OnState = (SwitchedOff, OffState)"
| "Context_Switch OffState = (SwitchedOn, OnState)"

datatype command = PrintCommand string | SendEmail string string | SendTel string string
datatype command_event = Printed string | Emailed string string | Texted string string

fun Execute :: "command \<Rightarrow> command_event" where
  "Execute (PrintCommand content) = Printed content"
| "Execute (SendEmail to content) = Emailed to content"
| "Execute (SendTel to content) = Texted to content"

definition AddCommand :: "command \<Rightarrow> command list \<Rightarrow> command list" where "AddCommand c queue = queue @ [c]"
definition TaskQueue_Command :: "command list \<Rightarrow> command_event list" where "TaskQueue_Command queue = map Execute queue"

datatype element = TextElement string | ImageElement string

record 'e Visitor =
  VisitText :: "string \<Rightarrow> 'e"
  VisitImage :: "string \<Rightarrow> 'e"

datatype visit_event = PdfText string | PdfImage string | HtmlText string | HtmlImage string

definition PDFVisitor :: "visit_event Visitor" where "PDFVisitor = \<lparr>VisitText = PdfText, VisitImage = PdfImage\<rparr>"
definition HTMLVisitor :: "visit_event Visitor" where "HTMLVisitor = \<lparr>VisitText = HtmlText, VisitImage = HtmlImage\<rparr>"

fun Element_Accept :: "'e Visitor \<Rightarrow> element \<Rightarrow> 'e" where
  "Element_Accept v (TextElement content) = VisitText v content"
| "Element_Accept v (ImageElement src) = VisitImage v src"

definition AddElement :: "element \<Rightarrow> element list \<Rightarrow> element list" where "AddElement e elements = elements @ [e]"
definition Document_Accept :: "'e Visitor \<Rightarrow> element list \<Rightarrow> 'e list" where
  "Document_Accept visitor elements = map (Element_Accept visitor) elements"

section \<open>Tree of files\<close>

datatype fnode = FileNode string | DirNode string "fnode list"

fun Display :: "string \<Rightarrow> fnode \<Rightarrow> string list" where
  "Display ident (FileNode name) = [ident @ name]"
| "Display ident (DirNode name children) = (ident @ name) # concat (map (Display (ident @ ''  '')) children)"

fun names_with_depth :: "nat \<Rightarrow> fnode \<Rightarrow> (nat \<times> string) list" where
  "names_with_depth d (FileNode name) = [(d, name)]"
| "names_with_depth d (DirNode name children) = (d, name) # concat (map (names_with_depth (Suc d)) children)"

fun indent :: "nat \<Rightarrow> string" where
  "indent 0 = []"
| "indent (Suc d) = indent d @ ''  ''"

text \<open>Every node is printed once, parents before their children, indented by two for each level.\<close>

lemma display_lines: "Display (indent d) t = map (\<lambda>(d, name). indent d @ name) (names_with_depth d t)"
proof (induction t arbitrary: d)
  case (DirNode name children)
  have "concat (map (Display (indent (Suc d))) cs) = map (\<lambda>(d, name). indent d @ name) (concat (map (names_with_depth (Suc d)) cs))"
    if "set cs \<subseteq> set children" for cs
    using that DirNode.IH [where d = "Suc d"] by (induction cs) auto
  then show ?case by simp
qed simp

end
