(* ===== verification/Objects.thy ===== *)
theory Objects
  imports Prelude "HOL-Library.Word"
begin

text \<open>
  The creational and structural patterns of \<^verbatim>\<open>design_pattern\<close>.  What is printed is a list of events, a
  call through a nil interface or pointer is a panic, and objects that are shared or copied live on a heap.
\<close>

section \<open>Payment pages: factories and adapters\<close>

datatype pay = AliPay | WeiXinPay | YinLianPay

text \<open>The page of each way to pay, a fixed text whatever the price.\<close>

datatype page = AliPage | WeiXinPage | YinLianPage | AliLink | WeiXinLink

fun Pay_PayPage :: "pay \<Rightarrow> 64 word \<Rightarrow> page" where
  "Pay_PayPage AliPay price = AliPage"
| "Pay_PayPage WeiXinPay price = WeiXinPage"
| "Pay_PayPage YinLianPay price = YinLianPage"

text \<open>\<^verbatim>\<open>FactoryMethod\<close>: one factory for each product.\<close>

datatype pay_factory = AliPayFactory | WeiXinPayFactory | YinLianPayFactory

fun CreatePay :: "pay_factory \<Rightarrow> pay" where
  "CreatePay AliPayFactory = AliPay"
| "CreatePay WeiXinPayFactory = WeiXinPay"
| "CreatePay YinLianPayFactory = YinLianPay"

text \<open>\<^verbatim>\<open>SimpleFactoryPattern\<close>: an unknown type has a nil product, whose use panics.\<close>

definition AliPayType :: "8 word" where "AliPayType = 1"
definition WeiXinPayType :: "8 word" where "WeiXinPayType = 2"

definition NewPayPage :: "8 word \<Rightarrow> pay option" where
  "NewPayPage payType =
     (if payType = AliPayType then Some AliPay else if payType = WeiXinPayType then Some WeiXinPay else None)"

definition pay_page_of :: "pay option \<Rightarrow> 64 word \<Rightarrow> page go" where
  "pay_page_of p price = (case p of None \<Rightarrow> Inl NilDereference | Some pay \<Rightarrow> Inr (Pay_PayPage pay price))"

text \<open>\<^verbatim>\<open>AbstractFactory\<close>: a factory makes a family, the payment and its refund.\<close>

datatype refund = AliRefund | WeiXinRefund
datatype refund_event = AliRefunded | WeiXinRefunded
datatype family_factory = AliFamily | WeiXinFamily

fun Refund_Refund :: "refund \<Rightarrow> string \<Rightarrow> refund_event \<times> string option" where
  "Refund_Refund AliRefund no = (AliRefunded, None)"
| "Refund_Refund WeiXinRefund no = (WeiXinRefunded, None)"

fun Family_CreatePay :: "family_factory \<Rightarrow> pay" where
  "Family_CreatePay AliFamily = AliPay"
| "Family_CreatePay WeiXinFamily = WeiXinPay"

fun Family_CreateRefund :: "family_factory \<Rightarrow> refund" where
  "Family_CreateRefund AliFamily = AliRefund"
| "Family_CreateRefund WeiXinFamily = WeiXinRefund"

lemma family_matches:
  "Pay_PayPage (Family_CreatePay f) price = AliPage \<longleftrightarrow> fst (Refund_Refund (Family_CreateRefund f) no) = AliRefunded"
  by (cases f) simp_all

text \<open>\<^verbatim>\<open>Adapter\<close>: the adapter holds a pointer that may be nil.\<close>

datatype pay_i = WeiXinPayI | AliPayAdapter "unit option"

definition GetPayPage :: "64 word \<Rightarrow> page" where "GetPayPage price = AliLink"

fun PayPage :: "pay_i \<Rightarrow> 64 word \<Rightarrow> page go" where
  "PayPage WeiXinPayI price = Inr WeiXinLink"
| "PayPage (AliPayAdapter aliPay) price = (case aliPay of None \<Rightarrow> Inl NilDereference | Some _ \<Rightarrow> Inr (GetPayPage price))"

text \<open>\<^verbatim>\<open>Strategy\<close>: the way to pay is set later.\<close>

datatype pay_event = PaidByAli "64 word" | PaidByWei "64 word"

fun pay_with :: "pay_factory \<Rightarrow> 64 word \<Rightarrow> pay_event" where
  "pay_with AliPayFactory money = PaidByAli money"
| "pay_with _ money = PaidByWei money"

record PayStrategy =
  ps_pay :: "pay_factory option"

definition SetPay :: "pay_factory \<Rightarrow> PayStrategy \<Rightarrow> PayStrategy" where "SetPay pay p = p\<lparr>ps_pay := Some pay\<rparr>"

definition PayStrategy_Pay :: "64 word \<Rightarrow> PayStrategy \<Rightarrow> pay_event go" where
  "PayStrategy_Pay money p = (case ps_pay p of None \<Rightarrow> Inl NilDereference | Some pay \<Rightarrow> Inr (pay_with pay money))"

section \<open>Templates, facades and bridges\<close>

datatype drink = Coffee | Tea
datatype brew_event = BoilWater | Brew | AddSugar

fun HasAddSugar :: "drink \<Rightarrow> bool" where
  "HasAddSugar Coffee = True"
| "HasAddSugar Tea = False"

definition MakeTemplate :: "drink \<Rightarrow> brew_event list" where
  "MakeTemplate tmp = [BoilWater, Brew] @ (if HasAddSugar tmp then [AddSugar] else [])"

datatype order_event = Deduction | OrderPaid | SendOutGoods

record ShopOrder =
  or_inventory :: "unit option"
  or_pay :: "unit option"
  or_logistics :: "unit option"

definition NewOrder :: ShopOrder where "NewOrder = \<lparr>or_inventory = Some (), or_pay = Some (), or_logistics = Some ()\<rparr>"

text \<open>The events before a panic are printed too.\<close>

fun call_each :: "(unit option \<times> 'e) list \<Rightarrow> 'e list \<times> unit go" where
  "call_each [] = ([], Inr ())"
| "call_each ((p, e) # ps) = (case p of None \<Rightarrow> ([], Inl NilDereference) | Some _ \<Rightarrow> (case call_each ps of (es, r) \<Rightarrow> (e # es, r)))"

definition Order_Place :: "ShopOrder \<Rightarrow> order_event list \<times> unit go" where
  "Order_Place o' = call_each [(or_inventory o', Deduction), (or_pay o', OrderPaid), (or_logistics o', SendOutGoods)]"

lemma new_order_places: "Order_Place NewOrder = ([Deduction, OrderPaid, SendOutGoods], Inr ())"
  by (simp add: Order_Place_def NewOrder_def)

datatype printer = Epson | Hp
datatype machine = Mac | Windows
datatype print_event = UsesMachine machine | PrintsWith printer

record Computer =
  cp_machine :: machine
  cp_printer :: "printer option"

definition SetPrinter :: "printer \<Rightarrow> Computer \<Rightarrow> Computer" where "SetPrinter printer m = m\<lparr>cp_printer := Some printer\<rparr>"

definition Computer_Print :: "string \<Rightarrow> Computer \<Rightarrow> print_event list \<times> unit go" where
  "Computer_Print file m =
     (case cp_printer m of
        None \<Rightarrow> ([UsesMachine (cp_machine m)], Inl NilDereference)
      | Some p \<Rightarrow> ([UsesMachine (cp_machine m), PrintsWith p], Inr ()))"

section \<open>Decorators and proxies\<close>

datatype req = Req | LogReqDecorator req | MonitorDecorator req

datatype req_event = Requests string | LogBefore | LogAfter | Elapsed

fun Handler :: "req \<Rightarrow> string \<Rightarrow> req_event list \<times> string" where
  "Handler Req url = ([Requests url], [])"
| "Handler (LogReqDecorator r) url = (case Handler r url of (es, res) \<Rightarrow> ([LogBefore] @ es @ [LogAfter], res))"
| "Handler (MonitorDecorator r) url = (case Handler r url of (es, res) \<Rightarrow> (es @ [Elapsed], res))"

text \<open>Decorators do not change the answer, and the request is made once.\<close>

lemma decorated_request: "snd (Handler r url) = [] \<and> filter (\<lambda>e. e = Requests u) (fst (Handler r url)) = (if u = url then [Requests url] else [])"
  by (induction r) (auto split: prod.splits)

datatype proxy_log_event = LogStored | LogRecorded

record ProxyLog =
  pl_log :: "unit option"

definition ProxyLog_Info :: "string \<Rightarrow> ProxyLog \<Rightarrow> proxy_log_event list \<times> ProxyLog" where
  "ProxyLog_Info content p =
     (let p' = (if pl_log p = None then p\<lparr>pl_log := Some ()\<rparr> else p) in ([LogStored, LogRecorded], p'))"

section \<open>Builder, prototype and singleton\<close>

record House =
  hs_Door :: string
  hs_Window :: string

text \<open>The builder holds a pointer to its house, an address of the heap.\<close>

definition NewBao :: "House list \<Rightarrow> nat \<times> House list" where
  "NewBao heap = (length heap, heap @ [\<lparr>hs_Door = [], hs_Window = []\<rparr>])"

definition BuildDoor :: "string \<Rightarrow> nat \<Rightarrow> House list \<Rightarrow> House list" where
  "BuildDoor val b heap = heap[b := (heap ! b)\<lparr>hs_Door := val\<rparr>]"

definition BuildWindow :: "string \<Rightarrow> nat \<Rightarrow> House list \<Rightarrow> House list" where
  "BuildWindow val b heap = heap[b := (heap ! b)\<lparr>hs_Window := val\<rparr>]"

definition Boos_GetHouse :: "string \<Rightarrow> string \<Rightarrow> nat \<Rightarrow> House list \<Rightarrow> nat \<times> House list" where
  "Boos_GetHouse door window b heap = (b, BuildWindow window b (BuildDoor door b heap))"

text \<open>A manager always answers the one house of its builder: a second call answers the same pointer.\<close>

lemma boos_same_house:
  assumes "NewBao heap = (b, heap1)"
  shows "fst (Boos_GetHouse d w b (snd (Boos_GetHouse d w b heap1))) = fst (Boos_GetHouse d w b heap1)
    \<and> snd (Boos_GetHouse d w b heap1) ! b = \<lparr>hs_Door = d, hs_Window = w\<rparr>"
  using assms by (auto simp: NewBao_def Boos_GetHouse_def BuildDoor_def BuildWindow_def nth_append)

record Student =
  sd_Name :: string
  sd_Age :: int

definition Clone :: "nat \<Rightarrow> Student list \<Rightarrow> nat \<times> Student list" where
  "Clone s heap = (length heap, heap @ [\<lparr>sd_Name = sd_Name (heap ! s), sd_Age = sd_Age (heap ! s)\<rparr>])"

text \<open>What is done to a clone is not seen in the original.\<close>

lemma clone_separate:
  assumes "Clone s heap = (c, heap1)" and "s < length heap"
  shows "heap1 ! c = heap ! s \<and> heap1[c := x] ! s = heap ! s \<and> c \<noteq> s"
  using assms by (auto simp: Clone_def nth_append nth_list_update)

text \<open>
  \<^verbatim>\<open>Singleton\<close>: \<open>sg_once\<close> says that the function of \<^verbatim>\<open>once\<close> has run; \<open>sg_made\<close> counts the databases made, and a
  database is known by that count.
\<close>

record singleton =
  sg_once :: bool
  sg_db :: "nat option"
  sg_made :: nat

definition InitDB :: "string \<Rightarrow> singleton \<Rightarrow> nat \<times> singleton" where
  "InitDB dsn s = (sg_made s, s\<lparr>sg_made := sg_made s + 1\<rparr>)"

definition GetDB_once :: "singleton \<Rightarrow> nat option \<times> singleton" where
  "GetDB_once s =
     (let s' = (if sg_once s then s else case InitDB [] s of (d, s1) \<Rightarrow> s1\<lparr>sg_db := Some d, sg_once := True\<rparr>)
      in (sg_db s', s'))"

fun get_many :: "nat \<Rightarrow> singleton \<Rightarrow> nat option list \<times> singleton" where
  "get_many 0 s = ([], s)"
| "get_many (Suc n) s = (case GetDB_once s of (d, s1) \<Rightarrow> case get_many n s1 of (ds, s2) \<Rightarrow> (d # ds, s2))"

text \<open>All calls answer one database, made by the first.\<close>

theorem singleton_one:
  "get_many (Suc n) \<lparr>sg_once = False, sg_db = None, sg_made = 0\<rparr>
    = (replicate (Suc n) (Some 0), \<lparr>sg_once = True, sg_db = Some 0, sg_made = 1\<rparr>)"
proof -
  have later: "get_many n \<lparr>sg_once = True, sg_db = Some d, sg_made = m\<rparr>
      = (replicate n (Some d), \<lparr>sg_once = True, sg_db = Some d, sg_made = m\<rparr>)" for n d m
    by (induction n) (simp_all add: GetDB_once_def)
  show ?thesis by (simp add: GetDB_once_def InitDB_def later)
qed

end
