(* ===== verification/FsWorker.thy ===== *)
theory FsWorker
  imports FsPoll
begin

text \<open>
  The worker goroutine of a file watch (\<^verbatim>\<open>fspollWorker\<close> of \<^verbatim>\<open>uvgo/fspoll.go\<close>) beside the loop that
  dispatches its jobs and the callers of \<^verbatim>\<open>Stop\<close>.  Every section under the lock, channel operation and
  blocking call is a step.  The results of \<^verbatim>\<open>stat\<close> are arbitrary; \<open>fw_room\<close> says whether the queue of the
  loop, which all watches share, has room.
\<close>

section \<open>State\<close>

datatype worker_phase =
  WTop | WChecking | WStat | WSending fspollJob | WAwaiting | WSleeping int | WReturned

record watch =
  fw_fp :: fspollState
  fw_ctx :: bool
  fw_phase :: worker_phase
  fw_room :: bool
  fw_queue :: "fspollJob list"
  fw_dispatch :: "fspollJob option"
  fw_resume :: "int option"
  fw_stopped :: bool

  fw_jobs :: "fspollJob list"
  fw_calls :: "fs_callback list"
  fw_late :: nat

text \<open>
  The last three record for the properties which jobs were judged, which callbacks were made, and how
  many of them after a call of \<^verbatim>\<open>Stop\<close> had returned.
\<close>

definition watch_start :: "fspollState \<Rightarrow> watch" where
  "watch_start fp = \<lparr>fw_fp = fp, fw_ctx = False, fw_phase = WTop, fw_room = True, fw_queue = [], fw_dispatch = None,
     fw_resume = None, fw_stopped = False, fw_jobs = [], fw_calls = [], fw_late = 0\<rparr>"

section \<open>Steps\<close>

inductive worker_step :: "watch \<Rightarrow> watch \<Rightarrow> bool" where
  top_done: "fw_phase w = WTop \<Longrightarrow> fw_ctx w \<Longrightarrow> worker_step w (w\<lparr>fw_phase := WReturned\<rparr>)"
| top_goes_on: "fw_phase w = WTop \<Longrightarrow> \<not> fw_ctx w \<Longrightarrow> worker_step w (w\<lparr>fw_phase := WChecking\<rparr>)"
| inactive: "fw_phase w = WChecking \<Longrightarrow> \<not> fp_active (fw_fp w) \<Longrightarrow> worker_step w (w\<lparr>fw_phase := WReturned\<rparr>)"
| active: "fw_phase w = WChecking \<Longrightarrow> fp_active (fw_fp w) \<Longrightarrow> worker_step w (w\<lparr>fw_phase := WStat\<rparr>)"
| stats: "fw_phase w = WStat \<Longrightarrow> worker_step w (w\<lparr>fw_phase := WSending j\<rparr>)"
| sends: "fw_phase w = WSending j \<Longrightarrow> fw_room w \<Longrightarrow>
    worker_step w (w\<lparr>fw_phase := WAwaiting, fw_queue := fw_queue w @ [j], fw_resume := None\<rparr>)"
| send_done: "fw_phase w = WSending j \<Longrightarrow> fw_ctx w \<Longrightarrow> worker_step w (w\<lparr>fw_phase := WReturned\<rparr>)"
| resumes: "fw_phase w = WAwaiting \<Longrightarrow> fw_resume w = Some d \<Longrightarrow>
    worker_step w (w\<lparr>fw_phase := WSleeping (fspollWorker_wait d), fw_resume := None\<rparr>)"
| await_done: "fw_phase w = WAwaiting \<Longrightarrow> fw_ctx w \<Longrightarrow> worker_step w (w\<lparr>fw_phase := WReturned\<rparr>)"
| elapses: "fw_phase w = WSleeping d \<Longrightarrow> worker_step w (w\<lparr>fw_phase := WTop\<rparr>)"
| sleep_done: "fw_phase w = WSleeping d \<Longrightarrow> fw_ctx w \<Longrightarrow> worker_step w (w\<lparr>fw_phase := WReturned\<rparr>)"

text \<open>
  What \<^verbatim>\<open>fspollDispatch\<close> does once it has seen that the watch is active: it does not look again, so it
  does the same for a watch that is stopped meanwhile.
\<close>

definition dispatch_judge :: "fspollState \<Rightarrow> fspollJob \<Rightarrow> fspollState \<times> fs_callback option \<times> int" where
  "dispatch_judge fp j =
     (case fspollDispatch (fp\<lparr>fp_active := True\<rparr>) j of (fp', cb, d) \<Rightarrow> (fp'\<lparr>fp_active := fp_active fp\<rparr>, cb, d))"

definition loop_judges :: "fspollJob \<Rightarrow> watch \<Rightarrow> watch" where
  "loop_judges j w =
     (case dispatch_judge (fw_fp w) j of (fp, cb, d) \<Rightarrow>
        w\<lparr>fw_fp := fp, fw_dispatch := None, fw_resume := Some d, fw_jobs := fw_jobs w @ [j],
          fw_calls := fw_calls w @ (case cb of None \<Rightarrow> [] | Some c \<Rightarrow> [c]),
          fw_late := fw_late w + (if cb \<noteq> None \<and> fw_stopped w then 1 else 0)\<rparr>)"

text \<open>The loop can send on \<^verbatim>\<open>resume\<close>, a channel with room for one value, only when it is empty.\<close>

inductive loop_step :: "watch \<Rightarrow> watch \<Rightarrow> bool" where
  takes_inactive: "fw_queue w = j # js \<Longrightarrow> fw_dispatch w = None \<Longrightarrow> \<not> fp_active (fw_fp w) \<Longrightarrow> fw_resume w = None \<Longrightarrow>
    loop_step w (w\<lparr>fw_queue := js, fw_resume := Some 0\<rparr>)"
| takes_active: "fw_queue w = j # js \<Longrightarrow> fw_dispatch w = None \<Longrightarrow> fp_active (fw_fp w) \<Longrightarrow>
    loop_step w (w\<lparr>fw_queue := js, fw_dispatch := Some j\<rparr>)"
| judges: "fw_dispatch w = Some j \<Longrightarrow> fw_resume w = None \<Longrightarrow> loop_step w (loop_judges j w)"

text \<open>\<^verbatim>\<open>Stop\<close> in its two parts, the end of the loop's context, and the other watches.\<close>

inductive others_step :: "watch \<Rightarrow> watch \<Rightarrow> bool" where
  stop_locks: "others_step w (w\<lparr>fw_fp := the (FSPoll_Stop (Some (fw_fp w)))\<rparr>)"
| stop_cancels: "\<not> fp_active (fw_fp w) \<Longrightarrow> others_step w (w\<lparr>fw_ctx := True, fw_stopped := True\<rparr>)"
| loop_cancelled: "others_step w (w\<lparr>fw_ctx := True\<rparr>)"
| queue_changes: "others_step w (w\<lparr>fw_room := b\<rparr>)"

inductive watch_reach :: "fspollState \<Rightarrow> watch \<Rightarrow> bool" for fp where
  start: "watch_reach fp (watch_start fp)"
| worker: "watch_reach fp w \<Longrightarrow> worker_step w w' \<Longrightarrow> watch_reach fp w'"
| loop: "watch_reach fp w \<Longrightarrow> loop_step w w' \<Longrightarrow> watch_reach fp w'"
| others: "watch_reach fp w \<Longrightarrow> others_step w w' \<Longrightarrow> watch_reach fp w'"

section \<open>Invariant\<close>

definition outstanding :: "watch \<Rightarrow> nat" where
  "outstanding w = length (fw_queue w) + (if fw_dispatch w = None then 0 else 1) + (if fw_resume w = None then 0 else 1)"

definition reported :: "fs_callback option list \<Rightarrow> fs_callback list" where
  "reported cbs = concat (map (\<lambda>cb. case cb of None \<Rightarrow> [] | Some c \<Rightarrow> [c]) cbs)"

lemma reported_simps [simp]:
  "reported [] = []" "reported (cbs @ [cb]) = reported cbs @ (case cb of None \<Rightarrow> [] | Some c \<Rightarrow> [c])"
  by (simp_all add: reported_def)

definition watch_inv :: "fspollState \<Rightarrow> watch \<Rightarrow> bool" where
  "watch_inv fp w \<longleftrightarrow>
     (case fw_phase w of WAwaiting \<Rightarrow> outstanding w = 1 | WReturned \<Rightarrow> outstanding w \<le> 1 | _ \<Rightarrow> outstanding w = 0)
     \<and> (fw_stopped w \<longrightarrow> fw_ctx w \<and> \<not> fp_active (fw_fp w) \<and> fw_late w + (if fw_dispatch w = None then 0 else 1) \<le> 1)
     \<and> (\<not> fw_stopped w \<longrightarrow> fw_late w = 0)
     \<and> fst (fspoll_run fp (fw_jobs w)) = (fw_fp w)\<lparr>fp_active := True\<rparr>
     \<and> fw_calls w = reported (snd (fspoll_run fp (fw_jobs w)))"

text \<open>The wait before the next stat is at most the interval.\<close>

definition wait_inv :: "fspollState \<Rightarrow> watch \<Rightarrow> bool" where
  "wait_inv fp w \<longleftrightarrow> fp_interval (fw_fp w) = fp_interval fp
     \<and> (\<forall>d. fw_resume w = Some d \<longrightarrow> 0 \<le> d \<and> d \<le> fp_interval fp)
     \<and> (\<forall>d. fw_phase w = WSleeping d \<longrightarrow> 0 \<le> d \<and> d \<le> fp_interval fp)"

lemma dispatch_keeps_active: "fp_active (fst (fspollDispatch fp j)) = fp_active fp"
  by (simp add: fspollDispatch_def Let_def split: option.splits)

lemma dispatch_interval: "fp_interval (fst (fspollDispatch fp j)) = fp_interval fp"
  by (simp add: fspollDispatch_def Let_def split: option.splits)

lemma dispatch_delay: "0 < fp_interval fp \<Longrightarrow> 0 \<le> snd (snd (fspollDispatch fp j)) \<and> snd (snd (fspollDispatch fp j)) \<le> fp_interval fp"
  by (simp add: fspollDispatch_def Let_def less_imp_le split: option.splits)

lemma worker_inv: "worker_step w w' \<Longrightarrow> watch_inv fp w \<Longrightarrow> watch_inv fp w'"
  by (induction rule: worker_step.induct) (auto simp: watch_inv_def outstanding_def split: if_splits)

lemma others_inv: "others_step w w' \<Longrightarrow> watch_inv fp w \<Longrightarrow> watch_inv fp w'"
  by (induction rule: others_step.induct)
    (auto simp: watch_inv_def outstanding_def FSPoll_Stop_def split: if_splits worker_phase.splits)

lemma loop_judges_inv:
  assumes "fw_dispatch w = Some j" and "fw_resume w = None" and "watch_inv fp w"
  shows "watch_inv fp (loop_judges j w)"
proof -
  obtain fp' cb d where d: "fspollDispatch ((fw_fp w)\<lparr>fp_active := True\<rparr>) j = (fp', cb, d)" by (metis prod_cases3)
  have act: "fp_active fp'" using dispatch_keeps_active [of "(fw_fp w)\<lparr>fp_active := True\<rparr>" j] d by simp
  have run: "fspoll_run fp (fw_jobs w @ [j]) = (fp', snd (fspoll_run fp (fw_jobs w)) @ [cb])"
    using assms(3) d by (auto simp: watch_inv_def run_append Let_def split: prod.splits)
  have same: "fp'\<lparr>fp_active := True\<rparr> = fp'" using act by simp
  show ?thesis
    using assms run same
    by (auto simp: watch_inv_def loop_judges_def dispatch_judge_def d outstanding_def split: worker_phase.splits)
qed

lemma loop_inv: "loop_step w w' \<Longrightarrow> watch_inv fp w \<Longrightarrow> watch_inv fp w'"
proof (induction rule: loop_step.induct)
  case (judges w j)
  then show ?case by (rule loop_judges_inv)
qed (auto simp: watch_inv_def outstanding_def split: worker_phase.splits if_splits)

lemma watch_reach_inv: "watch_reach fp w \<Longrightarrow> fp_active fp \<Longrightarrow> watch_inv fp w"
proof (induction rule: watch_reach.induct)
  case start
  then show ?case by (simp add: watch_inv_def watch_start_def outstanding_def)
qed (blast intro: worker_inv loop_inv others_inv)+

lemma worker_wait: "worker_step w w' \<Longrightarrow> wait_inv fp w \<Longrightarrow> wait_inv fp w'"
  by (induction rule: worker_step.induct) (auto simp: wait_inv_def fspollWorker_wait_def)

lemma loop_wait: "loop_step w w' \<Longrightarrow> 0 < fp_interval fp \<Longrightarrow> wait_inv fp w \<Longrightarrow> wait_inv fp w'"
proof (induction rule: loop_step.induct)
  case (judges w j)
  then show ?case
    using dispatch_delay [of "(fw_fp w)\<lparr>fp_active := True\<rparr>" j] dispatch_interval [of "(fw_fp w)\<lparr>fp_active := True\<rparr>" j]
    by (auto simp: wait_inv_def loop_judges_def dispatch_judge_def split: prod.splits)
qed (auto simp: wait_inv_def)

lemma watch_reach_wait: "watch_reach fp w \<Longrightarrow> 0 < fp_interval fp \<Longrightarrow> wait_inv fp w"
proof (induction rule: watch_reach.induct)
  case start
  then show ?case by (simp add: wait_inv_def watch_start_def)
next
  case (others w w')
  from others(2) others(3) [OF others(4)] show ?case by cases (auto simp: wait_inv_def FSPoll_Stop_def)
qed (blast intro: worker_wait loop_wait)+

section \<open>Properties\<close>

fun worker_rank :: "worker_phase \<Rightarrow> nat" where
  "worker_rank WReturned = 0"
| "worker_rank WTop = 1"
| "worker_rank (WSleeping d) = 2"
| "worker_rank WAwaiting = 3"
| "worker_rank (WSending j) = 4"
| "worker_rank WStat = 5"
| "worker_rank WChecking = 6"

lemma worker_descends: "worker_step w w' \<Longrightarrow> fw_ctx w \<Longrightarrow> worker_rank (fw_phase w') < worker_rank (fw_phase w)"
  by (induction rule: worker_step.induct) simp_all

lemma worker_stuck: "fw_ctx w \<Longrightarrow> (\<nexists>w'. worker_step w w') \<Longrightarrow> fw_phase w = WReturned"
  by (cases "fw_phase w") (metis worker_step.intros)+


text \<open>A watch whose second stat fails while it is being stopped.\<close>

definition watched :: fspollState where
  "watched = \<lparr>fp_path = ''f'', fp_interval = 1000000, fp_active = True, fp_busy = 0, fp_prev = zeroStat\<rparr>"

definition late_watch :: watch where
  "late_watch = \<lparr>fw_fp = watched\<lparr>fp_active := False, fp_busy := 2\<rparr>, fw_ctx = True, fw_phase = WAwaiting, fw_room = True,
     fw_queue = [], fw_dispatch = None, fw_resume = Some 1000000, fw_stopped = True, fw_jobs = [enoent],
     fw_calls = [(2, zeroStat, zeroStat)], fw_late = 1\<rparr>"

lemma late_watch_reach: "watch_reach watched late_watch"
proof -
  let ?w = "watch_start watched"
  note step = watch_reach.worker [OF _ worker_step.top_goes_on] watch_reach.worker [OF _ worker_step.active]
    watch_reach.worker [OF _ worker_step.stats [where j = enoent]] watch_reach.worker [OF _ worker_step.sends]
  have 0: "watch_reach watched (?w\<lparr>fw_phase := WChecking\<rparr>)"
    using step(1) [OF watch_reach.start] by (simp add: watch_start_def)
  have 1: "watch_reach watched (?w\<lparr>fw_phase := WStat\<rparr>)"
    using step(2) [OF 0] by (simp add: watch_start_def watched_def)
  have 2: "watch_reach watched (?w\<lparr>fw_phase := WSending enoent\<rparr>)"
    using step(3) [OF 1] by (simp add: watch_start_def)
  have 3: "watch_reach watched (?w\<lparr>fw_phase := WAwaiting, fw_queue := [enoent]\<rparr>)"
    using step(4) [OF 2] by (simp add: watch_start_def)
  have 4: "watch_reach watched (?w\<lparr>fw_phase := WAwaiting, fw_dispatch := Some enoent\<rparr>)"
    using watch_reach.loop [OF 3 loop_step.takes_active] by (simp add: watch_start_def watched_def)
  have 5: "watch_reach watched (?w\<lparr>fw_phase := WAwaiting, fw_dispatch := Some enoent, fw_fp := watched\<lparr>fp_active := False\<rparr>\<rparr>)"
    using watch_reach.others [OF 4 others_step.stop_locks] by (simp add: watch_start_def FSPoll_Stop_def)
  have 6: "watch_reach watched (?w\<lparr>fw_phase := WAwaiting, fw_dispatch := Some enoent, fw_fp := watched\<lparr>fp_active := False\<rparr>,
      fw_ctx := True, fw_stopped := True\<rparr>)"
    using watch_reach.others [OF 5 others_step.stop_cancels] by (simp add: watch_start_def)
  have "loop_judges enoent (?w\<lparr>fw_phase := WAwaiting, fw_dispatch := Some enoent, fw_fp := watched\<lparr>fp_active := False\<rparr>,
      fw_ctx := True, fw_stopped := True\<rparr>) = late_watch"
    by (simp add: loop_judges_def dispatch_judge_def fspollDispatch_def watched_def late_watch_def watch_start_def enoent_def
        errnoFromStatError_def)
  with watch_reach.loop [OF 6 loop_step.judges] show ?thesis by (simp add: watch_start_def)
qed


text \<open>A callback may begin after a call of \<^verbatim>\<open>Stop\<close> has returned.\<close>

theorem callback_after_stop: "\<exists>w. watch_reach watched w \<and> fw_stopped w \<and> 0 < fw_late w"
  using late_watch_reach by (intro exI [of _ late_watch]) (simp add: late_watch_def)

end
