(* ===== verification/OrderClients.thy ===== *)
theory OrderClients
  imports OrderServers "HOL-Library.Sublist"
begin

text \<open>
  The clients of the order management servers (\<^verbatim>\<open>client.go\<close> of \<^verbatim>\<open>gRPC/stream\<close>, \<^verbatim>\<open>cancellation\<close>,
  \<^verbatim>\<open>grpcprometheus\<close>, \<^verbatim>\<open>errorhandling\<close>, \<^verbatim>\<open>timeout\<close>, \<^verbatim>\<open>multiplexing\<close> and \<^verbatim>\<open>compression\<close>) composed with the
  handlers of \<^verbatim>\<open>OrderServers\<close>.  A call of \<^verbatim>\<open>ProcessOrders\<close> is a step relation of three parties: the main
  goroutine of the client, its receiving goroutine and the handler, over the two directions of a stream.
  What the library promises of a stream is in the steps: messages arrive in order, \<^verbatim>\<open>Recv\<close> answers the
  end of the stream after all messages of a handler that returned nil, and an error when the call is
  cancelled, broken or the handler returned an error.
\<close>

section \<open>Clients of ProcessOrders\<close>

text \<open>What the main goroutine does in turn; \<open>CSignal\<close> is its use of the unbuffered channel.\<close>

datatype client_op = CSend string | CSpawn | CCancel | CCloseSend | CSignal

text \<open>
  The receiving goroutines differ in whether an error other than the end of the stream ends their loop
  or, the shipment being nil, panics; the main goroutines in whether an error of \<^verbatim>\<open>Send\<close> is fatal.
\<close>

record client_kind =
  ck_any_error :: bool
  ck_fatal :: bool

definition stream_kind :: client_kind where
  "stream_kind = \<lparr>ck_any_error = False, ck_fatal = True\<rparr>"

definition cancellation_kind :: client_kind where
  "cancellation_kind = \<lparr>ck_any_error = True, ck_fatal = False\<rparr>"

definition grpcprometheus_kind :: client_kind where
  "grpcprometheus_kind = \<lparr>ck_any_error = True, ck_fatal = False\<rparr>"

definition stream_ops :: "client_op list" where
  "stream_ops = [CSend ''102'', CSend ''103'', CSend ''104'', CSpawn, CSend ''101'', CCloseSend, CSignal]"

definition cancellation_ops :: "client_op list" where
  "cancellation_ops = [CSend ''102'', CSend ''103'', CSend ''104'', CSpawn, CCancel, CSend ''101'', CCloseSend, CSignal]"

definition grpcprometheus_ops :: "client_op list" where
  "grpcprometheus_ops = [CSend ''102'', CSend ''103'', CSend ''104'', CSpawn, CCancel, CSend ''101'', CCloseSend, CSignal]"

datatype go_phase = GNone | GReceiving | GSignalling | GEnded | GDied

record call_state =
  cs_ops :: "client_op list"
  cs_go :: go_phase
  cs_printed :: "CombinedShipment list"
  cs_sentq :: "string list"
  cs_halfclosed :: bool
  cs_over :: bool
  cs_recvs :: "(bool \<times> string recv) list"

text \<open>
  \<open>cs_over\<close>: the call was cancelled, its deadline has passed or its connection broke.  \<open>cs_recvs\<close> is what the
  handler has received so far, which determines how far it is and what it has sent.
\<close>

definition call_start :: "client_op list \<Rightarrow> call_state" where
  "call_start ops = \<lparr>cs_ops = ops, cs_go = GNone, cs_printed = [], cs_sentq = [], cs_halfclosed = False, cs_over = False,
     cs_recvs = []\<rparr>"

definition handler_at :: "process_fn \<Rightarrow> (shipmentMap \<Rightarrow> shipmentMap) \<Rightarrow> orderMap \<Rightarrow> call_state \<Rightarrow> outcome \<times> CombinedShipment list" where
  "handler_at process rng om s = process rng (\<lambda>_ _. None) om (cs_recvs s)"

definition process_exits :: "go_phase \<Rightarrow> call_state \<Rightarrow> call_state" where
  "process_exits ph s = s\<lparr>cs_ops := [], cs_go := ph\<rparr>"

inductive call_step :: "client_kind \<Rightarrow> process_fn \<Rightarrow> (shipmentMap \<Rightarrow> shipmentMap) \<Rightarrow> orderMap \<Rightarrow> call_state \<Rightarrow> call_state \<Rightarrow> bool"
  for k process rng om where
  send: "cs_ops s = CSend i # ops \<Longrightarrow> \<not> cs_over s \<Longrightarrow> call_step k process rng om s (s\<lparr>cs_ops := ops, cs_sentq := cs_sentq s @ [i]\<rparr>)"
| send_fatal: "cs_ops s = CSend i # ops \<Longrightarrow> cs_over s \<Longrightarrow> ck_fatal k \<Longrightarrow> call_step k process rng om s (process_exits GDied s)"
| send_ignored: "cs_ops s = CSend i # ops \<Longrightarrow> cs_over s \<Longrightarrow> \<not> ck_fatal k \<Longrightarrow> call_step k process rng om s (s\<lparr>cs_ops := ops\<rparr>)"
| spawn: "cs_ops s = CSpawn # ops \<Longrightarrow> call_step k process rng om s (s\<lparr>cs_ops := ops, cs_go := GReceiving\<rparr>)"
| cancel: "cs_ops s = CCancel # ops \<Longrightarrow> call_step k process rng om s (s\<lparr>cs_ops := ops, cs_over := True\<rparr>)"
| close: "cs_ops s = CCloseSend # ops \<Longrightarrow> call_step k process rng om s (s\<lparr>cs_ops := ops, cs_halfclosed := True\<rparr>)"
| meets: "cs_ops s = CSignal # ops \<Longrightarrow> cs_go s = GSignalling \<Longrightarrow> call_step k process rng om s (s\<lparr>cs_ops := ops, cs_go := GEnded\<rparr>)"
| recv_shipment: "cs_go s = GReceiving \<Longrightarrow> length (cs_printed s) < length (snd (handler_at process rng om s)) \<Longrightarrow>
    call_step k process rng om s (s\<lparr>cs_printed := cs_printed s @ [snd (handler_at process rng om s) ! length (cs_printed s)]\<rparr>)"
| recv_eof: "cs_go s = GReceiving \<Longrightarrow> \<not> cs_over s \<Longrightarrow> length (cs_printed s) = length (snd (handler_at process rng om s)) \<Longrightarrow>
    fst (handler_at process rng om s) = Returned None \<Longrightarrow> call_step k process rng om s (s\<lparr>cs_go := GSignalling\<rparr>)"
| recv_error: "cs_go s = GReceiving \<Longrightarrow>
    cs_over s \<or> (length (cs_printed s) = length (snd (handler_at process rng om s)) \<and> fst (handler_at process rng om s) = Returned (Some e)) \<Longrightarrow>
    call_step k process rng om s (if ck_any_error k then s\<lparr>cs_go := GSignalling\<rparr> else process_exits GDied s)"
| serve: "fst (handler_at process rng om s) = Waiting \<Longrightarrow> cs_sentq s = i # q \<Longrightarrow> cancelled \<longrightarrow> cs_over s \<Longrightarrow>
    call_step k process rng om s (s\<lparr>cs_sentq := q, cs_recvs := cs_recvs s @ [(cancelled, RecvMsg i)]\<rparr>)"
| serve_eof: "fst (handler_at process rng om s) = Waiting \<Longrightarrow> cs_sentq s = [] \<Longrightarrow> cs_halfclosed s \<Longrightarrow> cancelled \<longrightarrow> cs_over s \<Longrightarrow>
    call_step k process rng om s (s\<lparr>cs_recvs := cs_recvs s @ [(cancelled, RecvEOF)]\<rparr>)"
| serve_error: "fst (handler_at process rng om s) = Waiting \<Longrightarrow> cs_over s \<Longrightarrow>
    call_step k process rng om s (s\<lparr>cs_recvs := cs_recvs s @ [(cancelled, RecvErr e)]\<rparr>)"

text \<open>Runs of an undisturbed call, and runs in which the deadline may pass or the connection break.\<close>

inductive call_reach :: "client_kind \<Rightarrow> process_fn \<Rightarrow> (shipmentMap \<Rightarrow> shipmentMap) \<Rightarrow> orderMap \<Rightarrow> client_op list \<Rightarrow> bool \<Rightarrow> call_state \<Rightarrow> bool"
  for k process rng om ops0 fails where
  start: "call_reach k process rng om ops0 fails (call_start ops0)"
| step: "call_reach k process rng om ops0 fails s \<Longrightarrow> call_step k process rng om s s' \<Longrightarrow> call_reach k process rng om ops0 fails s'"
| breaks: "call_reach k process rng om ops0 fails s \<Longrightarrow> fails \<Longrightarrow> call_reach k process rng om ops0 fails (s\<lparr>cs_over := True\<rparr>)"

section \<open>Handlers\<close>

text \<open>The handlers of all servers are one loop.\<close>

definition order_handler :: "process_fn \<Rightarrow> bool" where
  "order_handler process \<longleftrightarrow> (\<exists>cc sc. process = (\<lambda>rng send om rs. ProcessOrders_loop cc sc rng send om rs 1 [] []))"

lemma order_handlers: "srv \<in> set order_servers \<Longrightarrow> order_handler (srv_ProcessOrders srv)"
proof -
  have "order_handler stream_ProcessOrders" "order_handler cancellation_ProcessOrders" "order_handler errorhandling_ProcessOrders"
    unfolding order_handler_def stream_ProcessOrders_def [abs_def] cancellation_ProcessOrders_def [abs_def]
      errorhandling_ProcessOrders_def [abs_def] by blast+
  then show "srv \<in> set order_servers \<Longrightarrow> order_handler (srv_ProcessOrders srv)" by (auto simp: order_server_defs)
qed

definition ids_received :: "string list \<Rightarrow> (bool \<times> string recv) list" where
  "ids_received ids = map (\<lambda>i. (False, RecvMsg i)) ids"

lemma loop_waiting: "fst (ProcessOrders_loop cc sc rng (\<lambda>_ _. None) om (ids_received ids) b m sent) = Waiting"
  by (induction ids arbitrary: b m sent) (simp_all add: ids_received_def Let_def)

lemma loop_sent_mono: "prefix sent (snd (ProcessOrders_loop cc sc rng (\<lambda>_ _. None) om rs b m sent))"
proof (induction rs arbitrary: b m sent)
  case (Cons r rs)
  obtain c x where r: "r = (c, x)" by fastforce
  have "prefix sent (snd (ProcessOrders_loop cc sc rng (\<lambda>_ _. None) om rs b' m' (sent @ ys)))" for b' m' ys
    using Cons.IH [of "sent @ ys" b' m'] prefix_order.trans [OF prefixI [OF refl]] by blast
  note more = this
  from more [where ys = "[]"] more r show ?case by (cases x) (simp_all add: Let_def)
qed simp

lemma loop_prefix:
  "prefix (snd (ProcessOrders_loop cc sc rng (\<lambda>_ _. None) om rs b m sent))
    (snd (ProcessOrders_loop cc sc rng (\<lambda>_ _. None) om (rs @ rs') b m sent))"
proof (induction rs arbitrary: b m sent)
  case Nil
  then show ?case by (simp add: loop_sent_mono)
next
  case (Cons r rs)
  obtain c x where "r = (c, x)" by fastforce
  with Cons.IH show ?case by (cases x) (simp_all add: Let_def)
qed

lemma loop_ends:
  "(\<And>i. x \<noteq> RecvMsg i) \<Longrightarrow> fst (ProcessOrders_loop cc sc rng (\<lambda>_ _. None) om (rs @ [(c, x)]) b m sent) \<noteq> Waiting"
proof (induction rs arbitrary: b m sent)
  case Nil
  then show ?case by (cases x) (auto simp: Let_def)
next
  case (Cons r rs)
  obtain c' x' where "r = (c', x')" by fastforce
  with Cons show ?case by (cases x') (simp_all add: Let_def)
qed

definition messages :: "(bool \<times> 'a recv) list \<Rightarrow> nat" where
  "messages rs = length (filter (\<lambda>(_, r). \<exists>i. r = RecvMsg i) rs)"

lemma messages_simps [simp]:
  "messages [] = 0" "messages ((c, RecvMsg i) # rs) = Suc (messages rs)"
  "messages ((c, RecvEOF) # rs) = messages rs" "messages ((c, RecvErr e) # rs) = messages rs"
  "messages (rs @ rs') = messages rs + messages rs'"
  by (simp_all add: messages_def)

lemma length_shipment_put: "length (shipment_put d s m) \<le> Suc (length m)"
  by (induction d s m rule: shipment_put.induct) simp_all

lemma length_combine_order: "length (combine_order om i m) \<le> Suc (length m)"
  by (simp add: combine_order_def Let_def length_shipment_put split: option.splits)

lemma loop_sent_bound:
  assumes "\<And>m. length (rng m) = length m"
  shows "length (snd (ProcessOrders_loop cc sc rng (\<lambda>_ _. None) om rs b m sent)) \<le> length sent + length m + messages rs"
proof (induction rs arbitrary: b m sent)
  case (Cons r rs)
  obtain c x where r: "r = (c, x)" by fastforce
  show ?case
  proof (cases x)
    case (RecvMsg i)
    have len: "length (combine_order om i m) \<le> Suc (length m)" by (rule length_combine_order)
    show ?thesis
      using Cons.IH [of 0 "[]" "sent @ map snd (rng (combine_order om i m))"] Cons.IH [of "b + 1" "combine_order om i m" sent] len
      by (simp add: r RecvMsg Let_def assms)
  qed (simp_all add: r Let_def assms)
qed simp

section \<open>Work\<close>

fun go_rank :: "go_phase \<Rightarrow> nat" where
  "go_rank GReceiving = 2"
| "go_rank GSignalling = 1"
| "go_rank _ = 0"

definition call_work :: "process_fn \<Rightarrow> (shipmentMap \<Rightarrow> shipmentMap) \<Rightarrow> orderMap \<Rightarrow> call_state \<Rightarrow> nat" where
  "call_work process rng om s = 3 * length (cs_ops s) + 2 * length (cs_sentq s) + (messages (cs_recvs s) - length (cs_printed s))
     + (if fst (handler_at process rng om s) = Waiting then 1 else 0) + go_rank (cs_go s)"

definition printed_inv :: "process_fn \<Rightarrow> (shipmentMap \<Rightarrow> shipmentMap) \<Rightarrow> orderMap \<Rightarrow> call_state \<Rightarrow> bool" where
  "printed_inv process rng om s \<longleftrightarrow> prefix (cs_printed s) (snd (handler_at process rng om s))"

lemma handler_bound:
  "order_handler process \<Longrightarrow> (\<And>m. length (rng m) = length m) \<Longrightarrow>
   length (snd (handler_at process rng om s)) \<le> messages (cs_recvs s)"
  using loop_sent_bound [where sent = "[]" and m = "[]"] by (fastforce simp: order_handler_def handler_at_def)

lemma handler_fields [simp]:
  "handler_at process rng om (s\<lparr>cs_ops := a\<rparr>) = handler_at process rng om s"
  "handler_at process rng om (s\<lparr>cs_go := b\<rparr>) = handler_at process rng om s"
  "handler_at process rng om (s\<lparr>cs_printed := c\<rparr>) = handler_at process rng om s"
  "handler_at process rng om (s\<lparr>cs_sentq := d\<rparr>) = handler_at process rng om s"
  "handler_at process rng om (s\<lparr>cs_halfclosed := e\<rparr>) = handler_at process rng om s"
  "handler_at process rng om (s\<lparr>cs_over := f\<rparr>) = handler_at process rng om s"
  by (simp_all add: handler_at_def)

lemma handler_mono:
  "order_handler process \<Longrightarrow>
   prefix (snd (handler_at process rng om s)) (snd (handler_at process rng om (s\<lparr>cs_recvs := cs_recvs s @ rs\<rparr>)))"
  by (auto simp: order_handler_def handler_at_def intro: loop_prefix)

lemma handler_mono_sentq:
  "order_handler process \<Longrightarrow>
   prefix (snd (handler_at process rng om s)) (snd (handler_at process rng om (s\<lparr>cs_sentq := q, cs_recvs := cs_recvs s @ rs\<rparr>)))"
  by (auto simp: order_handler_def handler_at_def intro: loop_prefix)

lemma handler_ended:
  "order_handler process \<Longrightarrow> (\<And>i. x \<noteq> RecvMsg i) \<Longrightarrow>
   fst (handler_at process rng om (s\<lparr>cs_recvs := cs_recvs s @ [(c, x)]\<rparr>)) \<noteq> Waiting"
  using loop_ends [of x] by (fastforce simp: order_handler_def handler_at_def)

lemma prefix_nth_snoc: "prefix xs ys \<Longrightarrow> length xs < length ys \<Longrightarrow> prefix (xs @ [ys ! length xs]) ys"
proof (erule prefixE)
  fix zs assume "ys = xs @ zs" "length xs < length ys"
  then show ?thesis by (cases zs) simp_all
qed

lemma step_printed: "call_step k process rng om s s' \<Longrightarrow> order_handler process \<Longrightarrow> printed_inv process rng om s \<Longrightarrow> printed_inv process rng om s'"
proof (induction rule: call_step.induct)
  case (recv_shipment s)
  then show ?case by (simp add: printed_inv_def prefix_nth_snoc)
next
  case (serve s i q cancelled)
  then show ?case using handler_mono_sentq prefix_order.trans by (fastforce simp: printed_inv_def)
next
  case (serve_eof s cancelled)
  then show ?case using handler_mono prefix_order.trans by (fastforce simp: printed_inv_def)
next
  case (serve_error s cancelled e)
  then show ?case using handler_mono prefix_order.trans by (fastforce simp: printed_inv_def)
qed (simp_all add: printed_inv_def process_exits_def)

lemma reach_printed: "call_reach k process rng om ops0 fails s \<Longrightarrow> order_handler process \<Longrightarrow> printed_inv process rng om s"
proof (induction rule: call_reach.induct)
  case (breaks s)
  then show ?case by (simp add: printed_inv_def)
next
  case (step s s')
  from step(2,4) step(3) [OF step(4)] show ?case by (rule step_printed)
qed (simp add: printed_inv_def call_start_def)

text \<open>No interleaving of the three parties is infinite.\<close>

lemma call_step_work:
  assumes "call_step k process rng om s s'" and "order_handler process" and "\<And>m. length (rng m) = length m"
    and "printed_inv process rng om s"
  shows "call_work process rng om s' < call_work process rng om s"
  using assms(1)
proof cases
  case (spawn ops)
  then show ?thesis by (cases "cs_go s") (simp_all add: call_work_def)
next
  case recv_shipment
  with handler_bound [OF assms(2,3), of om s] show ?thesis by (simp add: call_work_def)
next
  case (recv_error e)
  then show ?thesis by (auto simp: call_work_def process_exits_def)
next
  case (serve i q cancelled)
  from handler_bound [OF assms(2,3), of om s] assms(4) have "length (cs_printed s) \<le> messages (cs_recvs s)"
    by (auto simp: printed_inv_def dest: prefix_length_le)
  with serve show ?thesis by (simp add: call_work_def Suc_diff_le)
next
  case (serve_eof cancelled)
  with handler_ended [OF assms(2), of RecvEOF rng om s] show ?thesis by (simp add: call_work_def)
next
  case (serve_error cancelled e)
  with handler_ended [OF assms(2), of "RecvErr e" rng om s] show ?thesis by (simp add: call_work_def)
qed (auto simp: call_work_def process_exits_def)

section \<open>The undisturbed call\<close>

text \<open>A client that sends some ids, starts to receive, sends the others and closes its side.\<close>

definition sending_ops :: "string list \<Rightarrow> string list \<Rightarrow> client_op list" where
  "sending_ops ids1 ids2 = map CSend ids1 @ CSpawn # map CSend ids2 @ [CCloseSend, CSignal]"

lemma stream_ops_sending: "stream_ops = sending_ops [''102'', ''103'', ''104''] [''101'']"
  by (simp add: stream_ops_def sending_ops_def)

text \<open>Where the main goroutine is, given the ids the handler has received.\<close>

definition main_at :: "string list \<Rightarrow> string list \<Rightarrow> string list \<Rightarrow> call_state \<Rightarrow> bool" where
  "main_at ids ids2 rcv s \<longleftrightarrow>
     (\<exists>a. cs_ops s = map CSend a @ CSpawn # map CSend ids2 @ [CCloseSend, CSignal] \<and> cs_go s = GNone \<and> \<not> cs_halfclosed s
        \<and> rcv @ cs_sentq s @ a @ ids2 = ids)
   \<or> (\<exists>b. cs_ops s = map CSend b @ [CCloseSend, CSignal] \<and> cs_go s = GReceiving \<and> \<not> cs_halfclosed s
        \<and> rcv @ cs_sentq s @ b = ids)
   \<or> (cs_ops s = [CSignal] \<and> cs_go s \<in> {GReceiving, GSignalling} \<and> cs_halfclosed s \<and> rcv @ cs_sentq s = ids)
   \<or> (cs_ops s = [] \<and> cs_go s = GEnded \<and> cs_halfclosed s \<and> rcv @ cs_sentq s = ids)"

definition calm_inv :: "process_fn \<Rightarrow> (shipmentMap \<Rightarrow> shipmentMap) \<Rightarrow> orderMap \<Rightarrow> string list \<Rightarrow> string list \<Rightarrow> call_state \<Rightarrow> bool" where
  "calm_inv process rng om ids ids2 s \<longleftrightarrow> \<not> cs_over s \<and> (\<exists>rcv.
     main_at ids ids2 rcv s
     \<and> (cs_recvs s = ids_received rcv \<and> cs_go s \<notin> {GSignalling, GEnded}
        \<or> cs_recvs s = id_stream rcv \<and> cs_halfclosed s \<and> cs_sentq s = []
           \<and> (cs_go s \<in> {GSignalling, GEnded} \<longrightarrow> length (cs_printed s) = length (snd (handler_at process rng om s)))))"

lemma handler_waiting:
  "order_handler process \<Longrightarrow> cs_recvs s = ids_received rcv \<Longrightarrow> fst (handler_at process rng om s) = Waiting"
  by (auto simp: order_handler_def handler_at_def loop_waiting)

lemma handler_returned:
  "order_handler process \<Longrightarrow> cs_recvs s = id_stream rcv \<Longrightarrow>
   handler_at process rng om s = (Returned None, concat (map (ship rng om) (batches 3 rcv)))"
  by (auto simp: order_handler_def handler_at_def loop_result)

lemma map_CSend_head:
  "map CSend a @ CSpawn # r = CSend i # ops \<longleftrightarrow> (\<exists>a'. a = i # a' \<and> ops = map CSend a' @ CSpawn # r)"
  "map CSend a @ CSpawn # r = CSpawn # ops \<longleftrightarrow> a = [] \<and> ops = r"
  "map CSend a @ CSpawn # r = CCancel # ops \<longleftrightarrow> False"
  "map CSend a @ CSpawn # r = CCloseSend # ops \<longleftrightarrow> False"
  "map CSend a @ CSpawn # r = CSignal # ops \<longleftrightarrow> False"
  "map CSend a @ [CCloseSend, CSignal] = CSend i # ops \<longleftrightarrow> (\<exists>a'. a = i # a' \<and> ops = map CSend a' @ [CCloseSend, CSignal])"
  "map CSend a @ [CCloseSend, CSignal] = CSpawn # ops \<longleftrightarrow> False"
  "map CSend a @ [CCloseSend, CSignal] = CCancel # ops \<longleftrightarrow> False"
  "map CSend a @ [CCloseSend, CSignal] = CCloseSend # ops \<longleftrightarrow> a = [] \<and> ops = [CSignal]"
  "map CSend a @ [CCloseSend, CSignal] = CSignal # ops \<longleftrightarrow> False"
  by (cases a; auto)+

lemma head_map_CSend:
  "CSend i # ops = map CSend a @ CSpawn # r \<longleftrightarrow> (\<exists>a'. a = i # a' \<and> ops = map CSend a' @ CSpawn # r)"
  "CSpawn # ops = map CSend a @ CSpawn # r \<longleftrightarrow> a = [] \<and> ops = r"
  "CCancel # ops = map CSend a @ CSpawn # r \<longleftrightarrow> False"
  "CCloseSend # ops = map CSend a @ CSpawn # r \<longleftrightarrow> False"
  "CSignal # ops = map CSend a @ CSpawn # r \<longleftrightarrow> False"
  "CSend i # ops = map CSend a @ [CCloseSend, CSignal] \<longleftrightarrow> (\<exists>a'. a = i # a' \<and> ops = map CSend a' @ [CCloseSend, CSignal])"
  "CSpawn # ops = map CSend a @ [CCloseSend, CSignal] \<longleftrightarrow> False"
  "CCancel # ops = map CSend a @ [CCloseSend, CSignal] \<longleftrightarrow> False"
  "CCloseSend # ops = map CSend a @ [CCloseSend, CSignal] \<longleftrightarrow> a = [] \<and> ops = [CSignal]"
  "CSignal # ops = map CSend a @ [CCloseSend, CSignal] \<longleftrightarrow> False"
  by (cases a; auto)+

lemma ids_received_snoc: "ids_received rcv @ [(False, RecvMsg i)] = ids_received (rcv @ [i])" "ids_received rcv @ [(False, RecvEOF)] = id_stream rcv"
  by (simp_all add: ids_received_def id_stream_def)

lemma calm_step:
  assumes "call_step k process rng om s s'" and "order_handler process" and "calm_inv process rng om ids ids2 s"
  shows "calm_inv process rng om ids ids2 s'"
proof -
  from assms(3) obtain rcv where calm: "\<not> cs_over s" and at: "main_at ids ids2 rcv s"
    and st: "cs_recvs s = ids_received rcv \<and> cs_go s \<notin> {GSignalling, GEnded}
        \<or> cs_recvs s = id_stream rcv \<and> cs_halfclosed s \<and> cs_sentq s = []
           \<and> (cs_go s \<in> {GSignalling, GEnded} \<longrightarrow> length (cs_printed s) = length (snd (handler_at process rng om s)))"
    unfolding calm_inv_def by blast
  note waiting = handler_waiting [OF assms(2), of s rcv rng om] and returned = handler_returned [OF assms(2), of s rcv rng om]
  from assms(1) show ?thesis
  proof cases
    case (send i ops)
    with at calm st show ?thesis unfolding calm_inv_def
      by (intro conjI exI [of _ rcv]) (auto simp: main_at_def map_CSend_head head_map_CSend)
  next
    case (spawn ops)
    with at calm st show ?thesis unfolding calm_inv_def
      by (intro conjI exI [of _ rcv]) (auto simp: main_at_def map_CSend_head head_map_CSend)
  next
    case (close ops)
    with at calm st show ?thesis unfolding calm_inv_def
      by (intro conjI exI [of _ rcv]) (auto simp: main_at_def map_CSend_head head_map_CSend)
  next
    case (meets ops)
    with at calm st show ?thesis unfolding calm_inv_def
      by (intro conjI exI [of _ rcv]) (auto simp: main_at_def map_CSend_head head_map_CSend)
  next
    case recv_shipment
    with at calm st show ?thesis unfolding calm_inv_def
      by (intro conjI exI [of _ rcv]) (auto simp: main_at_def)
  next
    case recv_eof
    with at calm st waiting show ?thesis unfolding calm_inv_def
      by (intro conjI exI [of _ rcv]) (auto simp: main_at_def)
  next
    case (serve i q cancelled)
    with st returned have recv: "cs_recvs s = ids_received rcv" "cs_go s \<notin> {GSignalling, GEnded}" by auto
    from serve calm at recv show ?thesis unfolding calm_inv_def
      by (intro conjI exI [of _ "rcv @ [i]"]) (auto simp: main_at_def ids_received_snoc)
  next
    case (serve_eof cancelled)
    with st returned have recv: "cs_recvs s = ids_received rcv" "cs_go s \<notin> {GSignalling, GEnded}" by auto
    from serve_eof calm at recv show ?thesis unfolding calm_inv_def
      by (intro conjI exI [of _ rcv]) (auto simp: main_at_def ids_received_snoc)
  next
    case (cancel ops)
    with at show ?thesis by (auto simp: main_at_def map_CSend_head head_map_CSend)
  next
    case (recv_error e)
    with calm st waiting returned show ?thesis by auto
  qed (use calm in simp_all)
qed

lemma calm_reach:
  "call_reach k process rng om (sending_ops ids1 ids2) False s \<Longrightarrow> order_handler process \<Longrightarrow>
   calm_inv process rng om (ids1 @ ids2) ids2 s"
proof (induction rule: call_reach.induct)
  case start
  show ?case unfolding calm_inv_def
    by (intro conjI exI [of _ "[]"]) (auto simp: call_start_def sending_ops_def main_at_def ids_received_def)
next
  case (step s s')
  from calm_step [OF step(2,4) step(3) [OF step(4)]] show ?case .
qed simp

lemma main_can_go:
  assumes "main_at ids ids2 rcv s" and "\<not> cs_over s" and "\<not> cs_halfclosed s"
  shows "\<exists>s'. call_step k process rng om s s'"
proof -
  from assms(1,3) consider a where "cs_ops s = map CSend a @ CSpawn # map CSend ids2 @ [CCloseSend, CSignal]"
    | b where "cs_ops s = map CSend b @ [CCloseSend, CSignal]" by (auto simp: main_at_def)
  then show ?thesis
  proof cases
    case 1
    then show ?thesis using call_step.send [OF _ assms(2)] call_step.spawn by (cases a) fastforce+
  next
    case 2
    then show ?thesis using call_step.send [OF _ assms(2)] call_step.close by (cases b) fastforce+
  qed
qed

lemma calm_stuck:
  assumes "calm_inv process rng om ids ids2 s" and "order_handler process" and "printed_inv process rng om s"
    and stuck: "\<nexists>s'. call_step k process rng om s s'"
  shows "cs_ops s = [] \<and> cs_go s = GEnded \<and> cs_printed s = concat (map (ship rng om) (batches 3 ids))"
proof -
  from assms(1) obtain rcv where calm: "\<not> cs_over s" and at: "main_at ids ids2 rcv s"
    and st: "cs_recvs s = ids_received rcv \<and> cs_go s \<notin> {GSignalling, GEnded}
        \<or> cs_recvs s = id_stream rcv \<and> cs_halfclosed s \<and> cs_sentq s = []
           \<and> (cs_go s \<in> {GSignalling, GEnded} \<longrightarrow> length (cs_printed s) = length (snd (handler_at process rng om s)))"
    unfolding calm_inv_def by blast
  note returned = handler_returned [OF assms(2), of s rcv rng om]
  have closed: "cs_halfclosed s" using main_can_go [OF at calm] stuck by blast
  have sent: "cs_recvs s = id_stream rcv" "cs_sentq s = []"
  proof -
    have "cs_recvs s \<noteq> ids_received rcv"
    proof
      assume "cs_recvs s = ids_received rcv"
      from handler_waiting [OF assms(2) this] have w: "fst (handler_at process rng om s) = Waiting" .
      show False
      proof (cases "cs_sentq s")
        case Nil
        from call_step.serve_eof [OF w this closed] stuck show False by blast
      next
        case (Cons i q)
        from call_step.serve [OF w this] stuck show False by blast
      qed
    qed
    with st show "cs_recvs s = id_stream rcv" "cs_sentq s = []" by auto
  qed
  note r = returned [OF sent(1)]
  from at closed have "rcv @ cs_sentq s = ids" by (auto simp: main_at_def)
  with sent(2) have ids: "rcv = ids" by simp
  from assms(3) have le: "length (cs_printed s) \<le> length (snd (handler_at process rng om s))"
    by (auto simp: printed_inv_def dest: prefix_length_le)
  have go: "cs_go s \<noteq> GReceiving"
    using stuck le call_step.recv_shipment [of s process rng om k] call_step.recv_eof [OF _ calm, of process rng om k] r
    by (metis fst_conv le_neq_implies_less)
  have "cs_go s \<noteq> GSignalling"
    using at closed stuck call_step.meets [of s _ k process rng om] by (auto simp: main_at_def)
  with at closed go have main: "cs_ops s = []" "cs_go s = GEnded" by (auto simp: main_at_def)
  with st sent(1) have "length (cs_printed s) = length (snd (handler_at process rng om s))"
    by (auto simp: ids_received_def id_stream_def)
  with assms(3) have "cs_printed s = snd (handler_at process rng om s)"
    by (auto simp: printed_inv_def prefix_def)
  with main r ids show ?thesis by simp
qed

section \<open>Properties of the calls\<close>

text \<open>
  C15. A client that sends ids, starts to receive, sends more and closes its side, as the \<^verbatim>\<open>stream\<close> client
  does, against the handler of any of the servers: every interleaving ends, and when it has ended without
  a broken connection the client has printed exactly the shipments of all its ids, in order, and both of
  its goroutines have returned; before, it has printed the first of what the handler sent.
\<close>

theorem stream_client_complete:
  assumes "call_reach k (srv_ProcessOrders srv) rng om (sending_ops ids1 ids2) False s"
    and "srv \<in> set order_servers" and "\<And>m. length (rng m) = length m"
  shows "prefix (cs_printed s) (snd (handler_at (srv_ProcessOrders srv) rng om s))
    \<and> (\<forall>s'. call_step k (srv_ProcessOrders srv) rng om s s' \<longrightarrow>
          call_work (srv_ProcessOrders srv) rng om s' < call_work (srv_ProcessOrders srv) rng om s)
    \<and> ((\<nexists>s'. call_step k (srv_ProcessOrders srv) rng om s s') \<longrightarrow>
         cs_ops s = [] \<and> cs_go s = GEnded \<and> cs_printed s = concat (map (ship rng om) (batches 3 (ids1 @ ids2))))"
proof -
  note h = order_handlers [OF assms(2)]
  note printed = reach_printed [OF assms(1) h]
  show ?thesis
    using printed call_step_work [OF _ h assms(3) printed] calm_stuck [OF calm_reach [OF assms(1) h] h printed]
    by (auto simp: printed_inv_def)
qed

text \<open>A call for one order that has come to its end.\<close>

definition ended_call :: call_state where
  "ended_call = \<lparr>cs_ops = [], cs_go = GEnded, cs_printed = [shipment_for ''Mountain View, CA'' [order_at initSampleData ''102'']],
     cs_sentq = [], cs_halfclosed = True, cs_over = False, cs_recvs = id_stream [''102'']\<rparr>"

lemma order_102: "or_Destination (order_at initSampleData ''102'') = ''Mountain View, CA''"
  by (simp add: order_at_def initSampleData_def mk_order_def)

lemma ended_call_reach: "call_reach stream_kind stream_ProcessOrders id initSampleData (sending_ops [''102''] []) False ended_call"
proof -
  let ?reach = "call_reach stream_kind stream_ProcessOrders id initSampleData (sending_ops [''102''] []) False"
  let ?s = "\<lambda>ops q go closed. \<lparr>cs_ops = ops, cs_go = go, cs_printed = [], cs_sentq = q, cs_halfclosed = closed, cs_over = False, cs_recvs = []\<rparr>"
  let ?e = "\<lambda>ops go printed. \<lparr>cs_ops = ops, cs_go = go, cs_printed = printed, cs_sentq = [], cs_halfclosed = True, cs_over = False,
      cs_recvs = id_stream [''102'']\<rparr>"
  let ?ship = "shipment_for ''Mountain View, CA'' [order_at initSampleData ''102'']"
  have h: "handler_at stream_ProcessOrders id initSampleData s = (Returned None, [?ship])" if "cs_recvs s = id_stream [''102'']" for s
    using that by (simp add: handler_at_def stream_ProcessOrders_def loop_result batches.simps [of 3] ship_def shipments_of_def uniq_def order_102)
  have "?reach (?s [CSend ''102'', CSpawn, CCloseSend, CSignal] [] GNone False)"
    using call_reach.start [of _ _ _ _ "sending_ops [''102''] []"] by (simp add: call_start_def sending_ops_def)
  from call_reach.step [OF this call_step.send] have "?reach (?s [CSpawn, CCloseSend, CSignal] [''102''] GNone False)" by simp
  from call_reach.step [OF this call_step.spawn] have "?reach (?s [CCloseSend, CSignal] [''102''] GReceiving False)" by simp
  from call_reach.step [OF this call_step.close] have "?reach (?s [CSignal] [''102''] GReceiving True)" by simp
  from call_reach.step [OF this call_step.serve [of _ _ _ _ "''102''" "[]" False]]
  have "?reach ((?s [CSignal] [] GReceiving True)\<lparr>cs_recvs := ids_received [''102'']\<rparr>)"
    by (simp add: handler_at_def stream_ProcessOrders_def ids_received_def)
  moreover have "fst (handler_at stream_ProcessOrders id initSampleData ((?s [CSignal] [] GReceiving True)\<lparr>cs_recvs := ids_received [''102'']\<rparr>)) = Waiting"
    using loop_waiting [where ids = "[''102'']"] by (simp only: handler_at_def stream_ProcessOrders_def call_state.simps)
  ultimately have "?reach (?e [CSignal] GReceiving [])"
    using call_reach.step [OF _ call_step.serve_eof [where cancelled = False]]
    by (fastforce simp: ids_received_def id_stream_def)
  from call_reach.step [OF this call_step.recv_shipment] have "?reach (?e [CSignal] GReceiving [?ship])" by (simp add: h)
  from call_reach.step [OF this call_step.recv_eof] have "?reach (?e [CSignal] GSignalling [?ship])" by (simp add: h)
  from call_reach.step [OF this call_step.meets] show ?thesis by (simp add: ended_call_def)
qed

theorem stream_client_complete_witness:
  "prefix (cs_printed ended_call) (snd (handler_at (srv_ProcessOrders stream_server) id initSampleData ended_call))
   \<and> (\<forall>s'. \<not> call_step stream_kind (srv_ProcessOrders stream_server) id initSampleData ended_call s')
   \<and> length (cs_printed ended_call) = 1"
proof -
  have srv: "srv_ProcessOrders stream_server = stream_ProcessOrders" "stream_server \<in> set order_servers"
    by (simp_all add: stream_server_def order_servers_def)
  have reach: "call_reach stream_kind (srv_ProcessOrders stream_server) id initSampleData (sending_ops [''102''] []) False ended_call"
    using ended_call_reach by (simp add: srv)
  have "\<not> call_step stream_kind stream_ProcessOrders id initSampleData ended_call s'" for s'
    using handler_returned [of stream_ProcessOrders ended_call "[''102'']" id initSampleData] order_handlers [OF srv(2)]
    by (auto elim!: call_step.cases simp: ended_call_def srv)
  moreover have "length (cs_printed ended_call) = 1" by (simp add: ended_call_def)
  ultimately show ?thesis using stream_client_complete [OF reach srv(2)] unfolding srv by (metis id_apply)
qed

text \<open>A client that cancels its call after it has started to receive, then sends and closes.\<close>

definition cancelling_ops :: "string list \<Rightarrow> string list \<Rightarrow> client_op list" where
  "cancelling_ops ids1 ids2 = map CSend ids1 @ CSpawn # CCancel # map CSend ids2 @ [CCloseSend, CSignal]"

lemma cancellation_ops_cancelling:
  "cancellation_ops = cancelling_ops [''102'', ''103'', ''104''] [''101'']"
  "grpcprometheus_ops = cancelling_ops [''102'', ''103'', ''104''] [''101'']"
  by (simp_all add: cancellation_ops_def grpcprometheus_ops_def cancelling_ops_def)

definition cancel_inv :: "string list \<Rightarrow> call_state \<Rightarrow> bool" where
  "cancel_inv ids2 s \<longleftrightarrow>
     (\<exists>a. cs_ops s = map CSend a @ CSpawn # CCancel # map CSend ids2 @ [CCloseSend, CSignal] \<and> cs_go s = GNone)
   \<or> (cs_ops s = CCancel # map CSend ids2 @ [CCloseSend, CSignal] \<and> cs_go s \<in> {GReceiving, GSignalling})
   \<or> (\<exists>b. cs_ops s = map CSend b @ [CCloseSend, CSignal] \<and> cs_over s \<and> cs_go s \<in> {GReceiving, GSignalling})
   \<or> (cs_ops s = [CSignal] \<and> cs_over s \<and> cs_go s \<in> {GReceiving, GSignalling})
   \<or> (cs_ops s = [] \<and> cs_go s = GEnded)"

lemma cancel_step:
  "call_step k process rng om s s' \<Longrightarrow> ck_any_error k \<Longrightarrow> \<not> ck_fatal k \<Longrightarrow> cancel_inv ids2 s \<Longrightarrow> cancel_inv ids2 s'"
proof (induction rule: call_step.induct)
  case (send s i ops)
  then show ?case by (auto simp: cancel_inv_def map_CSend_head head_map_CSend)
next
  case (send_ignored s i ops)
  then show ?case by (auto simp: cancel_inv_def map_CSend_head head_map_CSend)
next
  case (spawn s ops)
  then show ?case by (auto simp: cancel_inv_def map_CSend_head head_map_CSend)
next
  case (cancel s ops)
  then show ?case by (auto simp: cancel_inv_def map_CSend_head head_map_CSend)
next
  case (close s ops)
  then show ?case by (auto simp: cancel_inv_def map_CSend_head head_map_CSend)
next
  case (meets s ops)
  then show ?case by (auto simp: cancel_inv_def map_CSend_head head_map_CSend)
qed (auto simp: cancel_inv_def)

lemma cancel_reach:
  "call_reach k process rng om (cancelling_ops ids1 ids2) f s \<Longrightarrow> ck_any_error k \<Longrightarrow> \<not> ck_fatal k \<Longrightarrow> cancel_inv ids2 s"
proof (induction rule: call_reach.induct)
  case start
  show ?case by (auto simp: cancel_inv_def call_start_def cancelling_ops_def)
next
  case (step s s')
  then show ?case using cancel_step by blast
next
  case (breaks s)
  then show ?case by (auto simp: cancel_inv_def)
qed

lemma cancel_stuck:
  assumes "cancel_inv ids2 s" and "\<nexists>s'. call_step k process rng om s s'" and "\<not> ck_fatal k"
  shows "cs_ops s = [] \<and> cs_go s = GEnded"
proof -
  have no: "cs_ops s \<noteq> CSend i # ops" "cs_ops s \<noteq> CSpawn # ops" "cs_ops s \<noteq> CCancel # ops" "cs_ops s \<noteq> CCloseSend # ops"
    for i ops
    using assms(2,3) call_step.send call_step.send_ignored call_step.spawn call_step.cancel call_step.close by metis+
  have "cs_ops s \<noteq> map CSend a @ CSpawn # r" for a r using no(1,2) by (cases a) auto
  moreover have "cs_ops s \<noteq> map CSend b @ [CCloseSend, CSignal]" for b using no(1,4) by (cases b) auto
  moreover have "\<not> (cs_go s = GReceiving \<and> cs_over s)" using assms(2) call_step.recv_error by blast
  moreover have "\<not> (cs_ops s = [CSignal] \<and> cs_go s = GSignalling)" using assms(2) call_step.meets by blast
  ultimately show ?thesis using assms(1) no(3) unfolding cancel_inv_def by blast
qed

text \<open>
  A client that cancels, as those of \<^verbatim>\<open>cancellation\<close> and \<^verbatim>\<open>grpcprometheus\<close> do, always comes to its end:
  whatever the handler does and even when the connection breaks at any moment, every step leaves less to
  do and when none is left both goroutines have returned; what it has printed the handler has sent.
\<close>

theorem cancelling_client_ends:
  assumes "call_reach k (srv_ProcessOrders srv) rng om (cancelling_ops ids1 ids2) True s"
    and "srv \<in> set order_servers" and "\<And>m. length (rng m) = length m" and "k \<in> {cancellation_kind, grpcprometheus_kind}"
  shows "prefix (cs_printed s) (snd (handler_at (srv_ProcessOrders srv) rng om s))
    \<and> (\<forall>s'. call_step k (srv_ProcessOrders srv) rng om s s' \<longrightarrow>
          call_work (srv_ProcessOrders srv) rng om s' < call_work (srv_ProcessOrders srv) rng om s)
    \<and> ((\<nexists>s'. call_step k (srv_ProcessOrders srv) rng om s s') \<longrightarrow> cs_ops s = [] \<and> cs_go s = GEnded)"
proof -
  note h = order_handlers [OF assms(2)]
  note printed = reach_printed [OF assms(1) h]
  from assms(4) have k: "ck_any_error k" "\<not> ck_fatal k" by (auto simp: cancellation_kind_def grpcprometheus_kind_def)
  show ?thesis
    using printed call_step_work [OF _ h assms(3) printed] cancel_stuck [OF cancel_reach [OF assms(1) k] _ k(2)]
    by (auto simp: printed_inv_def)
qed

text \<open>
  When the connection breaks while the \<^verbatim>\<open>stream\<close> client is receiving, its goroutine reads the orders of a nil
  shipment and the whole client dies.
\<close>

theorem stream_client_dies:
  "\<exists>s. call_reach stream_kind stream_ProcessOrders rng om stream_ops True s \<and> cs_go s = GDied"
proof -
  let ?reach = "call_reach stream_kind stream_ProcessOrders rng om stream_ops True"
  let ?s = "\<lambda>ops q go. \<lparr>cs_ops = ops, cs_go = go, cs_printed = [], cs_sentq = q, cs_halfclosed = False, cs_over = False, cs_recvs = []\<rparr>"
  have sends: "?reach (?s ops (q @ [i]) GNone)" if "?reach (?s (CSend i # ops) q GNone)" for i ops q
    using call_reach.step [OF that call_step.send] by simp
  have "?reach (?s stream_ops [] GNone)" using call_reach.start [of _ _ _ _ stream_ops] by (simp add: call_start_def)
  then have "?reach (?s (CSend ''102'' # CSend ''103'' # CSend ''104'' # [CSpawn, CSend ''101'', CCloseSend, CSignal]) [] GNone)"
    by (simp only: stream_ops_def)
  from sends [OF sends [OF sends [OF this]]]
  have "?reach (?s [CSpawn, CSend ''101'', CCloseSend, CSignal] [''102'', ''103'', ''104''] GNone)" by (simp only: append.simps)
  from call_reach.step [OF this call_step.spawn]
  have "?reach (?s [CSend ''101'', CCloseSend, CSignal] [''102'', ''103'', ''104''] GReceiving)" by simp
  from call_reach.step [OF call_reach.breaks [OF this] call_step.recv_error]
  have "?reach (process_exits GDied (?s [CSend ''101'', CCloseSend, CSignal] [''102'', ''103'', ''104''] GReceiving\<lparr>cs_over := True\<rparr>))"
    by (simp add: stream_kind_def)
  then show ?thesis by (intro exI conjI) (assumption, simp add: process_exits_def)
qed

definition cancelled_call :: call_state where
  "cancelled_call = \<lparr>cs_ops = [], cs_go = GEnded, cs_printed = [], cs_sentq = [], cs_halfclosed = True, cs_over = True,
     cs_recvs = [(True, RecvErr ''context canceled'')]\<rparr>"

theorem cancelling_client_ends_witness:
  "call_reach cancellation_kind (srv_ProcessOrders cancellation_server) rev initSampleData (cancelling_ops [] []) True cancelled_call
   \<and> (\<nexists>s'. call_step cancellation_kind (srv_ProcessOrders cancellation_server) rev initSampleData cancelled_call s')
   \<and> prefix (cs_printed cancelled_call) (snd (handler_at (srv_ProcessOrders cancellation_server) rev initSampleData cancelled_call))"
proof -
  have srv: "srv_ProcessOrders cancellation_server = cancellation_ProcessOrders" "cancellation_server \<in> set order_servers"
    by (simp_all add: cancellation_server_def order_servers_def)
  let ?reach = "call_reach cancellation_kind cancellation_ProcessOrders rev initSampleData (cancelling_ops [] []) True"
  let ?s = "\<lambda>ops go closed over rs. \<lparr>cs_ops = ops, cs_go = go, cs_printed = [], cs_sentq = [], cs_halfclosed = closed, cs_over = over, cs_recvs = rs\<rparr>"
  have w: "fst (handler_at cancellation_ProcessOrders rev initSampleData (?s ops go c ov [])) = Waiting" for ops go c ov
    by (simp add: handler_at_def cancellation_ProcessOrders_def)
  have "?reach (?s [CSpawn, CCancel, CCloseSend, CSignal] GNone False False [])"
    using call_reach.start [of _ _ _ _ "cancelling_ops [] []"] by (simp add: call_start_def cancelling_ops_def)
  from call_reach.step [OF this call_step.spawn] have "?reach (?s [CCancel, CCloseSend, CSignal] GReceiving False False [])" by simp
  from call_reach.step [OF this call_step.cancel] have "?reach (?s [CCloseSend, CSignal] GReceiving False True [])" by simp
  from call_reach.step [OF this call_step.recv_error] have "?reach (?s [CCloseSend, CSignal] GSignalling False True [])"
    by (simp add: cancellation_kind_def)
  from call_reach.step [OF this call_step.close] have "?reach (?s [CSignal] GSignalling True True [])" by simp
  from call_reach.step [OF this call_step.meets] have "?reach (?s [] GEnded True True [])" by simp
  from call_reach.step [OF this call_step.serve_error [OF w, where cancelled = True and e = "''context canceled''"]]
  have reach: "?reach cancelled_call" by (simp add: cancelled_call_def)
  moreover have "\<not> call_step cancellation_kind cancellation_ProcessOrders rev initSampleData cancelled_call s'" for s'
    by (auto elim!: call_step.cases simp: cancelled_call_def handler_at_def cancellation_ProcessOrders_def)
  ultimately show ?thesis
    using cancelling_client_ends [of cancellation_kind cancellation_server rev initSampleData "[]" "[]" cancelled_call] srv
    by (simp add: srv)
qed

section \<open>Receiving a search\<close>

text \<open>
  The loop of the \<^verbatim>\<open>stream\<close> client over the answers of \<^verbatim>\<open>SearchOrders\<close>: only the end of the stream
  breaks it, an error is passed over.  A stream answers its messages, then for ever how it ended.
\<close>

partial_function (option) search_receive :: "(nat \<Rightarrow> 'a recv) \<Rightarrow> nat \<Rightarrow> 'a list option" where
  "search_receive recv n =
     (case recv n of
        RecvEOF \<Rightarrow> Some []
      | RecvMsg m \<Rightarrow> Option.bind (search_receive recv (Suc n)) (\<lambda>ms. Some (m # ms))
      | RecvErr e \<Rightarrow> search_receive recv (Suc n))"

definition stream_answers :: "'a list \<Rightarrow> 'a recv \<Rightarrow> nat \<Rightarrow> 'a recv" where
  "stream_answers msgs final n = (if n < length msgs then RecvMsg (msgs ! n) else final)"

lemma search_needs_eof:
  assumes "search_receive recv n = Some ms"
  shows "\<exists>k. recv k = RecvEOF"
  using assms
proof (rule search_receive.raw_induct [where P = "\<lambda>recv n ms. \<exists>k. recv k = RecvEOF", rotated])
  fix search :: "(nat \<Rightarrow> 'a recv) \<Rightarrow> nat \<Rightarrow> 'a list option" and recv n ms
  assume "\<And>recv n ms. search recv n = Some ms \<Longrightarrow> \<exists>k. recv k = RecvEOF"
    and "(case recv n of RecvMsg m \<Rightarrow> Option.bind (search recv (Suc n)) (\<lambda>ms. Some (m # ms)) | RecvEOF \<Rightarrow> Some []
      | RecvErr e \<Rightarrow> search recv (Suc n)) = Some ms"
  then show "\<exists>k. recv k = RecvEOF" by (cases "recv n") (auto simp: bind_eq_Some_conv)
qed

lemma search_from:
  "k \<le> length msgs \<Longrightarrow> search_receive (stream_answers msgs RecvEOF) (length msgs - k) = Some (drop (length msgs - k) msgs)"
proof (induction k)
  case 0
  then show ?case by (subst search_receive.simps) (simp add: stream_answers_def)
next
  case (Suc k)
  let ?n = "length msgs - Suc k"
  from Suc.prems have n: "?n < length msgs" "Suc ?n = length msgs - k" by auto
  show ?case
    by (subst search_receive.simps)
      (use n Suc.IH Suc.prems in \<open>simp add: stream_answers_def [of msgs RecvEOF ?n] Cons_nth_drop_Suc [symmetric]\<close>)
qed

text \<open>
  The search of the client answers all orders of a stream that comes to its end, and never returns when
  the stream breaks off with an error.
\<close>

theorem search_ends_at_eof_only:
  "search_receive (stream_answers msgs RecvEOF) 0 = Some msgs \<and> search_receive (stream_answers msgs (RecvErr e)) 0 = None"
proof
  show "search_receive (stream_answers msgs RecvEOF) 0 = Some msgs" using search_from [of "length msgs" msgs] by simp
  have "stream_answers msgs (RecvErr e) k \<noteq> RecvEOF" for k by (simp add: stream_answers_def)
  then show "search_receive (stream_answers msgs (RecvErr e)) 0 = None"
    using search_needs_eof by (metis not_None_eq)
qed

lemma search_found: "search_receive (stream_answers msgs RecvEOF) 0 = Some msgs"
  using search_from [of "length msgs" msgs] by simp

section \<open>The other calls of the clients\<close>

definition order1 :: Order where
  "order1 = mk_order ''101'' [''iPhone XS'', ''Mac Book Pro''] ''San Jose, CA'' 2300"

definition updOrder1 :: Order where
  "updOrder1 = mk_order ''102'' [''Google Pixel 3A'', ''Google Pixel Book''] ''Mountain View, CA'' 1100"

definition updOrder2 :: Order where
  "updOrder2 = mk_order ''103'' [''Apple Watch S4'', ''Mac Book Pro'', ''iPad Pro''] ''San Jose, CA'' 2800"

definition updOrder3 :: Order where
  "updOrder3 = mk_order ''104'' [''Google Home Mini'', ''Google Nest Hub'', ''iPad Mini''] ''Mountain View, CA'' 2200"

record client_prints =
  pr_add :: "string option"
  pr_get :: "Order option"
  pr_found :: "Order list"
  pr_update :: string

text \<open>How far the \<^verbatim>\<open>stream\<close> client comes before its call of \<^verbatim>\<open>ProcessOrders\<close>; \<^verbatim>\<open>log.Fatalf\<close> ends it.\<close>

datatype client_end = Hangs | Fatal string | GoesOn client_prints orderMap

definition answer_of :: "'e + 'a \<Rightarrow> 'a option" where
  "answer_of r = (case r of Inl e \<Rightarrow> None | Inr v \<Rightarrow> Some v)"

definition ended_by :: "string option \<Rightarrow> 'a recv" where
  "ended_by err = (case err of None \<Rightarrow> RecvEOF | Some e \<Rightarrow> RecvErr e)"

definition stream_client ::
  "order_server \<Rightarrow> call_ctx \<Rightarrow> Order send_fn \<Rightarrow> (string \<Rightarrow> string option) \<Rightarrow> string list \<Rightarrow> orderMap \<Rightarrow> client_end" where
  "stream_client srv ctx send close keys om =
     (let (res, om1) = srv_AddOrder srv ctx order1 om;
          retrieved = srv_GetOrder srv ctx om1 ''106'';
          (err, sent) = srv_SearchOrders srv send om1 keys ''Google''
      in case search_receive (stream_answers sent (ended_by err)) 0 of
           None \<Rightarrow> Hangs
         | Some found \<Rightarrow>
             (case srv_UpdateOrders srv close [RecvMsg updOrder1, RecvMsg updOrder2, RecvMsg updOrder3, RecvEOF] om1 of
                (Returned None, Some reply, om2) \<Rightarrow>
                  GoesOn \<lparr>pr_add = answer_of res, pr_get = answer_of retrieved, pr_found = found, pr_update = reply\<rparr> om2
              | (Returned (Some e), _, om2) \<Rightarrow> Fatal e
              | _ \<Rightarrow> Fatal ''no answer''))"

text \<open>The client of \<^verbatim>\<open>compression\<close> reads the value of a nil answer when the call failed.\<close>

definition compression_client :: "order_server \<Rightarrow> call_ctx \<Rightarrow> orderMap \<Rightarrow> string go" where
  "compression_client srv ctx om = (case fst (srv_AddOrder srv ctx order1 om) of Inl e \<Rightarrow> Inl NilDereference | Inr v \<Rightarrow> Inr v)"

definition timeout_client :: "order_server \<Rightarrow> call_ctx \<Rightarrow> orderMap \<Rightarrow> string option \<times> (status + Order)" where
  "timeout_client srv ctx om =
     (let (res, om1) = srv_AddOrder srv ctx order1 om in (answer_of res, srv_GetOrder srv ctx om1 ''106''))"

datatype add_report = AddResponse string | InvalidFields "(string \<times> string) list" | UnhandledError grpc_code

definition errorhandling_order :: Order where
  "errorhandling_order = mk_order ''-1'' [''iPhone XS'', ''Mac Book Pro''] ''San Jose, CA'' 2300"

definition errorhandling_client :: "order_server \<Rightarrow> call_ctx \<Rightarrow> orderMap \<Rightarrow> add_report" where
  "errorhandling_client srv ctx om =
     (case fst (srv_AddOrder srv ctx errorhandling_order om) of
        Inr v \<Rightarrow> AddResponse v
      | Inl ((code, msg), details) \<Rightarrow>
          if code = InvalidArgument then InvalidFields (case details of None \<Rightarrow> [] | Some d \<Rightarrow> [d])
          else UnhandledError code)"

section \<open>The timeout server\<close>

definition timeout_AddOrder :: "bool \<Rightarrow> Order \<Rightarrow> orderMap \<Rightarrow> (status + string) \<times> orderMap" where
  "timeout_AddOrder exceeded orderReq om =
     (let om1 = om(or_Id orderReq \<mapsto> orderReq) in
      if exceeded then (Inl (DeadlineExceeded, ''Deadline exceeded for order '' @ or_Id orderReq), om1)
      else (Inr (order_added orderReq), om1))"

definition timeout_GetOrder :: "orderMap \<Rightarrow> string \<Rightarrow> status + Order" where
  "timeout_GetOrder om orderId =
     (case om orderId of Some ord \<Rightarrow> Inr ord | None \<Rightarrow> Inl (NotFound, ''Order does not exist. : '' @ orderId))"

text \<open>The service has these two methods only; the library refuses a call of any other.\<close>

definition timeout_server :: order_server where
  "timeout_server =
     \<lparr>srv_AddOrder = \<lambda>ctx req om. plain_error (timeout_AddOrder (ctx_exceeded ctx) req om),
      srv_GetOrder = \<lambda>ctx. timeout_GetOrder,
      srv_SearchOrders = \<lambda>send om keys query. (Some ''unknown method SearchOrders'', []),
      srv_UpdateOrders = \<lambda>close rs om. (Returned (Some ''unknown method UpdateOrders''), None, om),
      srv_ProcessOrders = \<lambda>rng send om rs. (Returned (Some ''unknown method ProcessOrders''), []),
      srv_init = initSampleData\<rparr>"

section \<open>Whole runs\<close>

text \<open>
  The whole run of the \<^verbatim>\<open>stream\<close> client against the \<^verbatim>\<open>stream\<close> server and its data: what it prints, the orders
  the server is left with, and the shipments it receives at the end; and what the client of the
  \<^verbatim>\<open>timeout\<close> server prints within its deadline and after it, when the order is stored all the same.
\<close>

theorem demo_runs:
  "stream_client stream_server ctx (\<lambda>_ _. None) (\<lambda>_. None) [''101'', ''102'', ''103'', ''104'', ''105'', ''106''] initSampleData
     = GoesOn \<lparr>pr_add = Some ''Order Added: 101'', pr_get = initSampleData ''106'',
         pr_found = [order_at initSampleData ''102'', order_at initSampleData ''104''],
         pr_update = ''Orders processed Updated Order IDs : 102, 103, 104, ''\<rparr>
       (put_orders [order1, updOrder1, updOrder2, updOrder3] initSampleData)
   \<and> concat (map (ship id (put_orders [order1, updOrder1, updOrder2, updOrder3] initSampleData)) (batches 3 ([''102'', ''103'', ''104''] @ [''101''])))
     = [shipment_for ''Mountain View, CA'' [updOrder1, updOrder3], shipment_for ''San Jose, CA'' [updOrder2],
        shipment_for ''San Jose, CA'' [order1]]
   \<and> timeout_client timeout_server ctx initSampleData
     = (if ctx_exceeded ctx then None else Some ''Order Added: 101'', Inr (order_at initSampleData ''106''))
   \<and> snd (srv_AddOrder timeout_server ctx order1 initSampleData) = initSampleData(''101'' \<mapsto> order1)"
proof (intro conjI)
  let ?om = "initSampleData(''101'' \<mapsto> order1)"
  have hits: "search_hits ?om [''101'', ''102'', ''103'', ''104'', ''105'', ''106''] ''Google''
      = [order_at initSampleData ''102'', order_at initSampleData ''104'']"
    by (simp add: search_hits_def order_at_def initSampleData_def order1_def mk_order_def contains_str_def)
  have upd: "stream_UpdateOrders (\<lambda>_. None) [RecvMsg updOrder1, RecvMsg updOrder2, RecvMsg updOrder3, RecvEOF] ?om
      = (Returned None, Some ''Orders processed Updated Order IDs : 102, 103, 104, '',
         put_orders [order1, updOrder1, updOrder2, updOrder3] initSampleData)"
    by (simp add: stream_UpdateOrders_def put_orders_def order1_def updOrder1_def updOrder2_def updOrder3_def mk_order_def Let_def)
  have ids: "or_Id order1 = ''101''" by (simp add: order1_def mk_order_def)
  have get: "stream_GetOrder f ?om ''106'' = Inr (order_at initSampleData ''106'')" for f
    by (simp add: stream_GetOrder_def initSampleData_def order_at_def)
  have get': "initSampleData ''106'' = Some (order_at initSampleData ''106'')" by (simp add: initSampleData_def order_at_def)
  show "stream_client stream_server ctx (\<lambda>_ _. None) (\<lambda>_. None) [''101'', ''102'', ''103'', ''104'', ''105'', ''106''] initSampleData
     = GoesOn \<lparr>pr_add = Some ''Order Added: 101'', pr_get = initSampleData ''106'',
         pr_found = [order_at initSampleData ''102'', order_at initSampleData ''104''],
         pr_update = ''Orders processed Updated Order IDs : 102, 103, 104, ''\<rparr>
       (put_orders [order1, updOrder1, updOrder2, updOrder3] initSampleData)"
    by (simp add: stream_client_def stream_server_def plain_error_def stream_AddOrder_def stream_SearchOrders_def hits upd get get' ids
        answer_of_def ended_by_def search_found order_added_def)
  show "snd (srv_AddOrder timeout_server ctx order1 initSampleData) = ?om"
    by (simp add: timeout_server_def timeout_AddOrder_def plain_error_def Let_def ids)
  show "timeout_client timeout_server ctx initSampleData
     = (if ctx_exceeded ctx then None else Some ''Order Added: 101'', Inr (order_at initSampleData ''106''))"
    by (simp add: timeout_client_def timeout_server_def timeout_AddOrder_def plain_error_def Let_def answer_of_def ids
        order_added_def timeout_GetOrder_def initSampleData_def order_at_def)
  show "concat (map (ship id (put_orders [order1, updOrder1, updOrder2, updOrder3] initSampleData)) (batches 3 ([''102'', ''103'', ''104''] @ [''101''])))
     = [shipment_for ''Mountain View, CA'' [updOrder1, updOrder3], shipment_for ''San Jose, CA'' [updOrder2],
        shipment_for ''San Jose, CA'' [order1]]"
    by (simp add: batches.simps ship_def shipments_of_def uniq_def shipment_for_def put_orders_def order_at_def
        order1_def updOrder1_def updOrder2_def updOrder3_def mk_order_def)
qed

end
