(* ===== verification/ProductClients.thy ===== *)
theory ProductClients
  imports ProductServers OrderClients
begin

text \<open>
  The clients of the product servers and the greeters (\<^verbatim>\<open>client.go\<close> of \<^verbatim>\<open>gRPC/basicauth\<close>, \<^verbatim>\<open>token\<close>,
  \<^verbatim>\<open>mutualls\<close>, \<^verbatim>\<open>sendmessage\<close>, \<^verbatim>\<open>helloworld\<close> and \<^verbatim>\<open>multiplexing\<close>) composed with the handlers of
  \<^verbatim>\<open>ProductServers\<close> behind the interceptors their servers install.  The \<^verbatim>\<open>mutualls\<close> server checks
  certificates and has no interceptor.
\<close>

section \<open>base64 is injective\<close>

lemma length_b64_alphabet: "length b64_alphabet = 64"
  by (simp add: b64_alphabet_def)

lemma distinct_b64_alphabet: "distinct b64_alphabet"
  by (simp add: b64_alphabet_def)

lemma b64_char_inj: "b64_char m = b64_char n \<longleftrightarrow> m mod 64 = n mod 64"
  using nth_eq_iff_index_eq [OF distinct_b64_alphabet, of "m mod 64" "n mod 64"]
  by (simp add: b64_char_def length_b64_alphabet)

lemma b64_char_no_pad: "b64_char n \<noteq> CHR ''=''" "CHR ''='' \<noteq> b64_char n"
proof -
  have "b64_char n \<in> set b64_alphabet" by (simp add: b64_char_def length_b64_alphabet)
  moreover have "CHR ''='' \<notin> set b64_alphabet" by (simp add: b64_alphabet_def)
  ultimately show "b64_char n \<noteq> CHR ''=''" "CHR ''='' \<noteq> b64_char n" by metis+
qed

lemma digit:
  fixes m n :: nat
  shows "m div 64 = n div 64 \<Longrightarrow> m mod 64 = n mod 64 \<Longrightarrow> m = n"
  by (metis div_mult_mod_eq)

lemma digits2:
  fixes m n :: nat
  assumes "m < 4096" "n < 4096" and "m div 64 mod 64 = n div 64 mod 64" "m mod 64 = n mod 64"
  shows "m = n"
proof -
  have "m div 64 < 64" "n div 64 < 64" using assms(1,2) by (simp_all add: less_mult_imp_div_less)
  with assms(3) show ?thesis by (intro digit [OF _ assms(4)]) simp
qed

lemma digits3:
  fixes m n :: nat
  assumes "m < 262144" "n < 262144" and "m div 4096 mod 64 = n div 4096 mod 64"
    "m div 64 mod 64 = n div 64 mod 64" "m mod 64 = n mod 64"
  shows "m = n"
proof -
  have "m div 64 < 4096" "n div 64 < 4096" using assms(1,2) by (simp_all add: less_mult_imp_div_less)
  moreover have "m div 64 div 64 mod 64 = n div 64 div 64 mod 64" using assms(3) by (simp add: div_mult2_eq [symmetric])
  ultimately show ?thesis using digits2 [OF _ _ _ assms(4)] by (intro digit [OF _ assms(5)])
qed

lemma digits4:
  fixes m n :: nat
  assumes "m < 16777216" "n < 16777216" and "m div 262144 mod 64 = n div 262144 mod 64" "m div 4096 mod 64 = n div 4096 mod 64"
    "m div 64 mod 64 = n div 64 mod 64" "m mod 64 = n mod 64"
  shows "m = n"
proof -
  have "m div 64 < 262144" "n div 64 < 262144" using assms(1,2) by (simp_all add: less_mult_imp_div_less)
  moreover have "m div 64 div 4096 mod 64 = n div 64 div 4096 mod 64" "m div 64 div 64 mod 64 = n div 64 div 64 mod 64"
    using assms(3,4) by (simp_all add: div_mult2_eq [symmetric])
  ultimately show ?thesis using digits3 [OF _ _ _ _ assms(5)] by (intro digit [OF _ assms(6)])
qed

lemma bytes2:
  fixes a a' b b' :: nat
  shows "b < 256 \<Longrightarrow> b' < 256 \<Longrightarrow> a * 256 + b = a' * 256 + b' \<Longrightarrow> a = a' \<and> b = b'"
proof -
  assume less: "b < 256" "b' < 256" and eq: "a * 256 + b = a' * 256 + b'"
  have "a = (a * 256 + b) div 256" "a' = (a' * 256 + b') div 256" using less by simp_all
  with eq show ?thesis by simp
qed

lemma bytes_bound:
  fixes a b c :: nat
  assumes "a < 256" "b < 256" "c < 256"
  shows "(a * 256 + b) * 4 < 262144" and "(a * 256 + b) * 256 + c < 16777216"
proof -
  have "a * 256 \<le> 255 * 256" "(a * 256 + b) * 256 \<le> 65535 * 256"
    using assms(1,2) by (intro mult_right_mono; simp)+
  with assms show "(a * 256 + b) * 4 < 262144" "(a * 256 + b) * 256 + c < 16777216" by linarith+
qed

lemma b64_inj: "b64_encode s = b64_encode t \<Longrightarrow> s = t"
proof (induction s arbitrary: t rule: b64_encode.induct)
  case 1
  then show ?case by (cases t rule: b64_encode.cases) (simp_all add: Let_def)
next
  case (2 a)
  show ?case
  proof (cases t rule: b64_encode.cases)
    case (2 a')
    let ?m = "of_char a * 16 :: nat" and ?n = "of_char a' * 16 :: nat"
    have "?m < 4096" "?n < 4096" using nat_of_char_less_256 [of a] nat_of_char_less_256 [of a'] by linarith+
    moreover from 2 "2.prems" have "?m div 64 mod 64 = ?n div 64 mod 64" "?m mod 64 = ?n mod 64"
      by (simp_all add: Let_def b64_char_inj)
    ultimately have "?m = ?n" by (rule digits2)
    with 2 show ?thesis by simp
  qed (use "2.prems" in \<open>simp_all add: Let_def b64_char_no_pad\<close>)
next
  case (3 a b)
  show ?case
  proof (cases t rule: b64_encode.cases)
    case (3 a' b')
    let ?m = "(of_char a * 256 + of_char b) * 4 :: nat" and ?n = "(of_char a' * 256 + of_char b') * 4 :: nat"
    note lt = nat_of_char_less_256 [of a] nat_of_char_less_256 [of a'] nat_of_char_less_256 [of b] nat_of_char_less_256 [of b']
    have "?m < 262144" "?n < 262144" using bytes_bound(1) [OF lt(1,3,1)] bytes_bound(1) [OF lt(2,4,1)] by blast+
    moreover from 3 "3.prems" have "?m div 4096 mod 64 = ?n div 4096 mod 64" "?m div 64 mod 64 = ?n div 64 mod 64" "?m mod 64 = ?n mod 64"
      by (simp_all add: Let_def b64_char_inj)
    ultimately have "?m = ?n" by (rule digits3)
    then have "of_char a * 256 + of_char b = (of_char a' * 256 + of_char b' :: nat)" by simp
    from bytes2 [OF lt(3,4) this] 3 show ?thesis by simp
  qed (use "3.prems" in \<open>simp_all add: Let_def b64_char_no_pad\<close>)
next
  case (4 a b c s)
  show ?case
  proof (cases t rule: b64_encode.cases)
    case (4 a' b' c' s')
    let ?m = "(of_char a * 256 + of_char b) * 256 + of_char c :: nat"
      and ?n = "(of_char a' * 256 + of_char b') * 256 + of_char c' :: nat"
    note lt = nat_of_char_less_256 [of a] nat_of_char_less_256 [of a'] nat_of_char_less_256 [of b] nat_of_char_less_256 [of b']
      nat_of_char_less_256 [of c] nat_of_char_less_256 [of c']
    have "?m < 16777216" "?n < 16777216" using bytes_bound(2) [OF lt(1,3,5)] bytes_bound(2) [OF lt(2,4,6)] by blast+
    moreover from 4 "4.prems" have "?m div 262144 mod 64 = ?n div 262144 mod 64" "?m div 4096 mod 64 = ?n div 4096 mod 64"
      "?m div 64 mod 64 = ?n div 64 mod 64" "?m mod 64 = ?n mod 64"
      by (simp_all add: Let_def b64_char_inj)
    ultimately have "?m = ?n" by (rule digits4)
    from 4 "4.prems" have s: "b64_encode s = b64_encode s'" by (simp add: Let_def)
    from bytes2 [OF lt(5,6) \<open>?m = ?n\<close>] have c: "c = c'" and ab: "of_char a * 256 + of_char b = (of_char a' * 256 + of_char b' :: nat)"
      by auto
    from bytes2 [OF lt(3,4) ab] c 4 "4.IH" [OF refl s] show ?thesis by simp
  qed (use "4.prems" in \<open>simp_all add: Let_def b64_char_no_pad\<close>)
qed

section \<open>Clients and servers\<close>

datatype product_reply = IdReply string | ProductReply Product | ServerGone go_panic

type_synonym product_handler = "productMap \<Rightarrow> (status + product_reply) \<times> productMap"

definition add_handler :: "string + string \<Rightarrow> Product \<Rightarrow> product_handler" where
  "add_handler uuid inp s =
     (case ProductInfo_AddProduct uuid inp s of Inl p \<Rightarrow> (Inr (ServerGone p), s) | Inr (i, s') \<Rightarrow> (Inr (IdReply i), s'))"

definition get_handler :: "string \<Rightarrow> product_handler" where
  "get_handler i s = (case ProductInfo_GetProduct s i of Inl e \<Rightarrow> (Inl (Unknown, e), s) | Inr p \<Rightarrow> (Inr (ProductReply p), s))"

text \<open>The interceptors the servers are created with; that of \<^verbatim>\<open>basicauth\<close> is the one for tokens.\<close>

definition basicauth_guard :: "metadata option \<Rightarrow> product_handler \<Rightarrow> product_handler" where
  "basicauth_guard md handler = ensureValidToken md handler"

definition token_guard :: "metadata option \<Rightarrow> product_handler \<Rightarrow> product_handler" where
  "token_guard md handler = ensureValidBasicCredentials md handler"

definition mutualls_guard :: "metadata option \<Rightarrow> product_handler \<Rightarrow> product_handler" where
  "mutualls_guard md handler = handler"

text \<open>A server of products: its interceptor and its two methods, which are the same in the three servers.\<close>

record product_server =
  ps_guard :: "metadata option \<Rightarrow> product_handler \<Rightarrow> product_handler"
  ps_AddProduct :: "string + string \<Rightarrow> Product \<Rightarrow> product_handler"
  ps_GetProduct :: "string \<Rightarrow> product_handler"

definition product_info :: "(metadata option \<Rightarrow> product_handler \<Rightarrow> product_handler) \<Rightarrow> product_server" where
  "product_info guard = \<lparr>ps_guard = guard, ps_AddProduct = add_handler, ps_GetProduct = get_handler\<rparr>"

definition basicauth_server :: product_server where
  "basicauth_server = product_info basicauth_guard"

definition token_server :: product_server where
  "token_server = product_info token_guard"

definition mutualls_server :: product_server where
  "mutualls_server = product_info mutualls_guard"

text \<open>What the clients do after they have connected: add a product and get it back.\<close>

datatype client_report = ClientFatal status | ServerExited | Printed string Product

definition product_client ::
  "product_server \<Rightarrow> metadata option \<Rightarrow> string + string \<Rightarrow> Product \<Rightarrow> productMap
     \<Rightarrow> client_report \<times> productMap" where
  "product_client srv md uuid p s =
     (case ps_guard srv md (ps_AddProduct srv uuid p) s of
        (Inl err, s1) \<Rightarrow> (ClientFatal err, s1)
      | (Inr (IdReply i), s1) \<Rightarrow>
          (case ps_guard srv md (ps_GetProduct srv i) s1 of
             (Inl err, s2) \<Rightarrow> (ClientFatal err, s2)
           | (Inr (ProductReply q), s2) \<Rightarrow> (Printed i q, s2)
           | (Inr r, s2) \<Rightarrow> (ServerExited, s2))
      | (Inr r, s1) \<Rightarrow> (ServerExited, s1))"

definition authorization :: "string \<Rightarrow> metadata" where
  "authorization v k = (if k = ''authorization'' then [v] else [])"

definition GetRequestMetadata :: "string \<Rightarrow> string \<Rightarrow> metadata" where
  "GetRequestMetadata username password = authorization (''Basic '' @ b64_encode (username @ '':'' @ password))"

definition fetchToken :: string where
  "fetchToken = ''some-secret-token''"

definition new_product :: "string \<Rightarrow> Product" where
  "new_product name = \<lparr>pr_Id = [], pr_Name = name,
     pr_Description = ''Samsung Galaxy S10 is the latest smart phone, launched in February 2019'', pr_Price = 700\<rparr>"

definition basicauth_client ::
  "product_server \<Rightarrow> string + string \<Rightarrow> productMap \<Rightarrow> client_report \<times> productMap" where
  "basicauth_client srv uuid s =
     product_client srv (Some (GetRequestMetadata ''admin'' ''admin'')) uuid (new_product ''Sumsung S10'') s"

text \<open>\<open>oauth\<close>: the metadata that the credentials of the \<^verbatim>\<open>oauth\<close> package make of an access token.\<close>

definition token_client ::
  "(string \<Rightarrow> metadata) \<Rightarrow> product_server \<Rightarrow> string + string \<Rightarrow> productMap
     \<Rightarrow> client_report \<times> productMap" where
  "token_client oauth srv uuid s = product_client srv (Some (oauth fetchToken)) uuid (new_product ''Sumsung S10'') s"

definition mutualls_client ::
  "product_server \<Rightarrow> string + string \<Rightarrow> productMap \<Rightarrow> client_report \<times> productMap" where
  "mutualls_client srv uuid s = product_client srv (Some (\<lambda>_. [])) uuid (new_product ''Samsung S10'') s"

definition sendmessage_client :: "(32 word \<rightharpoonup> MsgProduct) \<Rightarrow> (status + 32 word \<times> string) \<times> (32 word \<rightharpoonup> MsgProduct)" where
  "sendmessage_client products =
     (let (i, m) = SendMessage_AddProduct \<lparr>mp_Id = 1, mp_Name = ''product id is 1'', mp_Description = ''add production''\<rparr> products
      in (case SendMessage_GetProduct m 1 of Inl err \<Rightarrow> Inl err | Inr p \<Rightarrow> Inr (i, mp_Name p), m))"

definition helloworld_client :: "(string \<Rightarrow> status + string) \<Rightarrow> string \<Rightarrow> status + string" where
  "helloworld_client hello name = hello name"

definition multiplexing_client ::
  "order_server \<Rightarrow> (string \<Rightarrow> status + string) \<Rightarrow> call_ctx \<Rightarrow> orderMap \<Rightarrow> (grpc_code + string) \<times> (status + string)" where
  "multiplexing_client srv hello ctx om =
     (case fst (srv_AddOrder srv ctx order1 om) of Inl ((code, msg), details) \<Rightarrow> Inl code | Inr v \<Rightarrow> Inr v,
      hello ''gRPC Up and Running!'')"

section \<open>Sessions\<close>

lemma served_session:
  "guard = (\<lambda>md handler. handler) \<Longrightarrow>
   product_client (product_info guard) md (Inr i) p s
     = (Printed i (p\<lparr>pr_Id := i\<rparr>), Some ((case s of None \<Rightarrow> Map.empty | Some m \<Rightarrow> m)(i \<mapsto> p\<lparr>pr_Id := i\<rparr>)))"
  by (simp add: product_client_def product_info_def add_handler_def get_handler_def ProductInfo_AddProduct_def ProductInfo_GetProduct_def Let_def)

lemma product_client_open:
  "guard md = (\<lambda>handler. handler) \<Longrightarrow> product_client (product_info guard) md uuid p s = product_client (product_info (\<lambda>md handler. handler)) md uuid p s"
  unfolding product_client_def product_info_def by (simp only: product_server.simps)

lemma product_client_shut: "guard md = (\<lambda>handler s. (Inl err, s)) \<Longrightarrow> product_client (product_info guard) md uuid p s = (ClientFatal err, s)"
  by (simp add: product_client_def product_info_def)

lemma admin_credentials: "username @ '':'' @ password = ''admin:admin'' \<longleftrightarrow> username = ''admin'' \<and> password = ''admin''"
proof
  assume eq: "username @ '':'' @ password = ''admin:admin''"
  then have "takeWhile (\<lambda>c. c \<noteq> CHR '':'') (username @ '':'' @ password) = ''admin''" by simp
  moreover from eq have "username = take (length username) ''admin:admin''" by (metis append_eq_conv_conj)
  ultimately show "username = ''admin'' \<and> password = ''admin''"
    using eq by (auto simp: append_eq_Cons_conv)
qed simp

lemma basic_guard:
  "ensureValidBasicCredentials (Some (GetRequestMetadata username password)) handler s =
     (if username = ''admin'' \<and> password = ''admin'' then handler s else (Inl (Unauthenticated, ''invalid credentials''), s))"
proof -
  have valid: "basic_valid [''Basic '' @ b64_encode t] \<longleftrightarrow> t = ''admin:admin''" for t
    using b64_inj [of t "''admin:admin''"] by (auto simp: basic_valid_def TrimPrefix_def)
  show ?thesis
    unfolding ensureValidBasicCredentials_def GetRequestMetadata_def authorization_def
    by (simp only: option.case refl if_True valid admin_credentials) simp
qed

text \<open>
  A client with the user name and password of \<^verbatim>\<open>basicauth\<close>, or with the token of \<^verbatim>\<open>token\<close>, gets its product
  back from a server with the interceptor made for it, under the id the server has chosen, and any other
  user name or password is refused and leaves the server as it was.  But each of the two servers has the
  interceptor of the other: both clients are refused by their own servers.
\<close>

theorem product_sessions:
  assumes "\<And>t. oauth t = authorization (''Bearer '' @ t)"
  shows "product_client (product_info ensureValidBasicCredentials) (Some (GetRequestMetadata username password)) (Inr i) p s
       = (if username = ''admin'' \<and> password = ''admin''
          then (Printed i (p\<lparr>pr_Id := i\<rparr>), Some ((case s of None \<Rightarrow> Map.empty | Some m \<Rightarrow> m)(i \<mapsto> p\<lparr>pr_Id := i\<rparr>)))
          else (ClientFatal (Unauthenticated, ''invalid credentials''), s))
    \<and> token_client oauth (product_info ensureValidToken) (Inr i) s
       = (let q = (new_product ''Sumsung S10'')\<lparr>pr_Id := i\<rparr> in
          (Printed i q, Some ((case s of None \<Rightarrow> Map.empty | Some m \<Rightarrow> m)(i \<mapsto> q))))
    \<and> basicauth_client basicauth_server uuid s = (ClientFatal (Unauthenticated, ''invalid token''), s)
    \<and> token_client oauth token_server uuid s = (ClientFatal (Unauthenticated, ''invalid credentials''), s)"
proof (intro conjI)
  show "product_client (product_info ensureValidBasicCredentials) (Some (GetRequestMetadata username password)) (Inr i) p s
       = (if username = ''admin'' \<and> password = ''admin''
          then (Printed i (p\<lparr>pr_Id := i\<rparr>), Some ((case s of None \<Rightarrow> Map.empty | Some m \<Rightarrow> m)(i \<mapsto> p\<lparr>pr_Id := i\<rparr>)))
          else (ClientFatal (Unauthenticated, ''invalid credentials''), s))"
  proof (cases "username = ''admin'' \<and> password = ''admin''")
    case True
    then have "ensureValidBasicCredentials (Some (GetRequestMetadata username password)) = (\<lambda>handler. handler)"
      by (intro ext) (simp only: basic_guard simp_thms if_True)
    from product_client_open [of ensureValidBasicCredentials, OF this] True show ?thesis by (simp add: served_session)
  next
    case False
    then have "ensureValidBasicCredentials (Some (GetRequestMetadata username password))
        = (\<lambda>handler s. (Inl (Unauthenticated, ''invalid credentials''), s))"
      by (intro ext) (simp only: basic_guard if_False)
    from product_client_shut [of ensureValidBasicCredentials, OF this] False show ?thesis by simp
  qed
  have "ensureValidToken (Some (authorization (''Bearer '' @ fetchToken))) = (\<lambda>handler. handler)"
    by (intro ext) (simp add: ensureValidToken_def authorization_def token_valid_def TrimPrefix_def fetchToken_def)
  from product_client_open [of ensureValidToken, OF this]
  show "token_client oauth (product_info ensureValidToken) (Inr i) s
       = (let q = (new_product ''Sumsung S10'')\<lparr>pr_Id := i\<rparr> in
          (Printed i q, Some ((case s of None \<Rightarrow> Map.empty | Some m \<Rightarrow> m)(i \<mapsto> q))))"
    by (simp add: token_client_def assms served_session Let_def)
  have "basicauth_guard (Some (GetRequestMetadata ''admin'' ''admin'')) = (\<lambda>handler s. (Inl (Unauthenticated, ''invalid token''), s))"
    by (intro ext) (simp add: basicauth_guard_def ensureValidToken_def GetRequestMetadata_def authorization_def token_valid_def
        TrimPrefix_def)
  from product_client_shut [of basicauth_guard, OF this]
  show "basicauth_client basicauth_server uuid s = (ClientFatal (Unauthenticated, ''invalid token''), s)"
    by (simp only: basicauth_client_def basicauth_server_def)
  have "token_guard (Some (authorization (''Bearer '' @ fetchToken))) = (\<lambda>handler s. (Inl (Unauthenticated, ''invalid credentials''), s))"
    by (intro ext) (simp add: token_guard_def ensureValidBasicCredentials_def authorization_def basic_valid_def b64_admin
        TrimPrefix_def fetchToken_def)
  from product_client_shut [of token_guard, OF this]
  show "token_client oauth token_server uuid s = (ClientFatal (Unauthenticated, ''invalid credentials''), s)"
    by (simp only: token_client_def token_server_def assms)
qed

theorem product_sessions_witness:
  "basicauth_client token_server (Inr ''u1'') None
     = (Printed ''u1'' ((new_product ''Sumsung S10'')\<lparr>pr_Id := ''u1''\<rparr>), Some [''u1'' \<mapsto> (new_product ''Sumsung S10'')\<lparr>pr_Id := ''u1''\<rparr>])
   \<and> basicauth_client basicauth_server (Inr ''u1'') None = (ClientFatal (Unauthenticated, ''invalid token''), None)"
  using product_sessions [OF refl, of "''admin''" "''admin''" "''u1''" "new_product ''Sumsung S10''" None "Inr ''u1''"]
  by (simp add: basicauth_client_def token_server_def token_guard_def [abs_def])

text \<open>The other clients against their servers.\<close>

lemma other_sessions:
  "mutualls_client mutualls_server (Inr i) None
     = (let q = (new_product ''Samsung S10'')\<lparr>pr_Id := i\<rparr> in (Printed i q, Some [i \<mapsto> q]))"
  "fst (sendmessage_client products) = Inr (1, ''product id is 1'')"
  "multiplexing_client multiplexing_server (\<lambda>n. Inr (SayHello n)) ctx om
     = (Inr ''Order Added: 101'', Inr ''Hello, gRPC Up and Running!! Welcome to gRPC.'')"
  "helloworld_client (\<lambda>n. Inr (SayHello n)) ''world'' = Inr ''Hello, world! Welcome to gRPC.''"
  by (simp_all add: mutualls_client_def mutualls_server_def served_session mutualls_guard_def [abs_def] sendmessage_client_def SendMessage_AddProduct_def
      SendMessage_GetProduct_def multiplexing_client_def multiplexing_server_def errorhandling_AddOrder_def order1_def
      mk_order_def order_added_def SayHello_def helloworld_client_def Let_def)

end
