(* ===== verification/TransportParts.thy ===== *)
theory TransportParts
  imports ProxyTransport ProxyRewrite
begin

text \<open>
  The remaining parts of the HTTP transports of \<^verbatim>\<open>net/proxy\<close>: names of cipher suites and curves
  (\<^verbatim>\<open>cipher.go\<close>, \<^verbatim>\<open>certificate.go\<close>), names and chains of certificates, connections with time-outs, the
  transports behind the smart round tripper and the sticky round tripper over a run of requests
  (\<^verbatim>\<open>http_transport.go\<close>), defaults and the builder (\<^verbatim>\<open>http_builder.go\<close>), and the constructors of a proxy
  (\<^verbatim>\<open>http_proxy.go\<close>, \<^verbatim>\<open>http_bufferpool.go\<close>).
\<close>

section \<open>Names\<close>

definition CipherSuitesReversed :: "(16 word \<times> string) list" where
  "CipherSuitesReversed =
    [(0x0005, ''TLS_RSA_WITH_RC4_128_SHA''),
     (0x000a, ''TLS_RSA_WITH_3DES_EDE_CBC_SHA''),
     (0x002f, ''TLS_RSA_WITH_AES_128_CBC_SHA''),
     (0x0035, ''TLS_RSA_WITH_AES_256_CBC_SHA''),
     (0x003c, ''TLS_RSA_WITH_AES_128_CBC_SHA256''),
     (0x009c, ''TLS_RSA_WITH_AES_128_GCM_SHA256''),
     (0x009d, ''TLS_RSA_WITH_AES_256_GCM_SHA384''),
     (0xc007, ''TLS_ECDHE_ECDSA_WITH_RC4_128_SHA''),
     (0xc009, ''TLS_ECDHE_ECDSA_WITH_AES_128_CBC_SHA''),
     (0xc00a, ''TLS_ECDHE_ECDSA_WITH_AES_256_CBC_SHA''),
     (0xc011, ''TLS_ECDHE_RSA_WITH_RC4_128_SHA''),
     (0xc012, ''TLS_ECDHE_RSA_WITH_3DES_EDE_CBC_SHA''),
     (0xc013, ''TLS_ECDHE_RSA_WITH_AES_128_CBC_SHA''),
     (0xc014, ''TLS_ECDHE_RSA_WITH_AES_256_CBC_SHA''),
     (0xc023, ''TLS_ECDHE_ECDSA_WITH_AES_128_CBC_SHA256''),
     (0xc027, ''TLS_ECDHE_RSA_WITH_AES_128_CBC_SHA256''),
     (0xc02f, ''TLS_ECDHE_RSA_WITH_AES_128_GCM_SHA256''),
     (0xc02b, ''TLS_ECDHE_ECDSA_WITH_AES_128_GCM_SHA256''),
     (0xc030, ''TLS_ECDHE_RSA_WITH_AES_256_GCM_SHA384''),
     (0xc02c, ''TLS_ECDHE_ECDSA_WITH_AES_256_GCM_SHA384''),
     (0xcca8, ''TLS_ECDHE_RSA_WITH_CHACHA20_POLY1305_SHA256''),
     (0xcca9, ''TLS_ECDHE_ECDSA_WITH_CHACHA20_POLY1305_SHA256''),
     (0x1301, ''TLS_AES_128_GCM_SHA256''),
     (0x1302, ''TLS_AES_256_GCM_SHA384''),
     (0x1303, ''TLS_CHACHA20_POLY1305_SHA256''),
     (0x5600, ''TLS_FALLBACK_SCSV'')]"

definition GetCipherName :: "16 word \<Rightarrow> string" where
  "GetCipherName cipherSuite = (case map_of CipherSuitesReversed cipherSuite of Some cipher \<Rightarrow> cipher | None \<Rightarrow> ''unknown'')"

definition CurveIDs :: "(string \<times> 16 word) list" where
  "CurveIDs =
    [(''secp256r1'', 23), (''CurveP256'', 23), (''secp384r1'', 24), (''CurveP384'', 24), (''secp521r1'', 25), (''CurveP521'', 25),
     (''x25519'', 29), (''X25519'', 29), (''x25519mlkem768'', 4588), (''X25519MLKEM768'', 4588),
     (''secp256r1mlkem768'', 4587), (''SecP256r1MLKEM768'', 4587), (''secp384r1mlkem1024'', 4589), (''SecP384r1MLKEM1024'', 4589)]"

text \<open>
  The name printed for the id of a configured suite is configured to that id again; it is the configured
  name itself except for the two suites that have an older name.
\<close>

theorem cipher_names_roundtrip:
  "map (\<lambda>(name, i). map_of CipherSuites (GetCipherName i)) CipherSuites = map (\<lambda>(name, i). Some i) CipherSuites
   \<and> filter (\<lambda>(name, i). GetCipherName i \<noteq> name) CipherSuites
     = [(''TLS_ECDHE_RSA_WITH_CHACHA20_POLY1305'', 0xcca8), (''TLS_ECDHE_ECDSA_WITH_CHACHA20_POLY1305'', 0xcca9)]
   \<and> map (map_of CipherSuites \<circ> snd) CipherSuitesReversed = map (Some \<circ> fst) CipherSuitesReversed"
  by code_simp

section \<open>Certificates\<close>

definition GetCertificateFromBytes :: "('cert, 'leaf) env \<Rightarrow> Certificate \<Rightarrow> string + 'cert" where
  "GetCertificateFromBytes ev c =
     (case ev_X509KeyPair ev (ce_CertFile c) (ce_KeyFile c) of
        Inl e \<Rightarrow> Inl (''unable to parse TLS certificate: '' @ e)
      | Inr cert \<Rightarrow> Inr cert)"

definition certificateHeader :: string where
  "certificateHeader = ''-----BEGIN CERTIFICATE-----'' @ [CHR 10]"

definition IsPath :: "('cert, 'leaf) env \<Rightarrow> FileOrContent \<Rightarrow> bool" where
  "IsPath ev f = ev_exists ev f"

definition GetTruncatedCertificateName :: "('cert, 'leaf) env \<Rightarrow> Certificate \<Rightarrow> string go" where
  "GetTruncatedCertificateName ev c =
     (let certName = ce_CertFile c in
      if \<not> IsPath ev certName \<and> prefix certificateHeader certName \<and> length certName > length certificateHeader + 50
      then slice_range (drop (length certificateHeader) certName) 0 50
      else Inr certName)"

lemma truncated_name:
  "\<exists>name. GetTruncatedCertificateName ev c = Inr name \<and> sublist name (ce_CertFile c)
     \<and> (IsPath ev (ce_CertFile c) \<longrightarrow> name = ce_CertFile c)"
proof (cases "\<not> IsPath ev (ce_CertFile c) \<and> prefix certificateHeader (ce_CertFile c) \<and> length (ce_CertFile c) > length certificateHeader + 50")
  case True
  let ?rest = "drop (length certificateHeader) (ce_CertFile c)"
  from True have "slice_range ?rest 0 50 = Inr (take 50 ?rest)" by (simp add: slice_range_def)
  moreover have "sublist (take 50 ?rest) (ce_CertFile c)"
    unfolding sublist_def
    by (rule exI [of _ "take (length certificateHeader) (ce_CertFile c)"], rule exI [of _ "drop 50 ?rest"]) (simp only: append_take_drop_id)
  ultimately show ?thesis using True by (simp add: GetTruncatedCertificateName_def)
qed (auto simp: GetTruncatedCertificateName_def Let_def)

text \<open>
  The rest of \<^verbatim>\<open>verifyChain\<close>: every certificate of the peer is parsed, the first one is verified with the
  others as intermediates.
\<close>

fun parse_certs :: "(string \<Rightarrow> string + 'c) \<Rightarrow> string list \<Rightarrow> string + 'c list" where
  "parse_certs ParseCertificate [] = Inr []"
| "parse_certs ParseCertificate (asn1Data # rawCerts) =
     (case ParseCertificate asn1Data of
        Inl e \<Rightarrow> Inl (''tls: failed to parse certificate from peer: '' @ e)
      | Inr cert \<Rightarrow> (case parse_certs ParseCertificate rawCerts of Inl e \<Rightarrow> Inl e | Inr certs \<Rightarrow> Inr (cert # certs)))"

definition verify_chain ::
  "(string \<Rightarrow> string + 'c) \<Rightarrow> ('c \<Rightarrow> string list option \<Rightarrow> 'c list \<Rightarrow> string option) \<Rightarrow> string list option \<Rightarrow> string list
     \<Rightarrow> (string + 'c) go" where
  "verify_chain ParseCertificate Verify rootCAs rawCerts =
     (if rawCerts = [] then Inr (Inl ''tls: no certificates from peer'')
      else case parse_certs ParseCertificate rawCerts of
        Inl e \<Rightarrow> Inr (Inl e)
      | Inr certs \<Rightarrow>
          bnd (slice_range certs 1 (int (length certs))) (\<lambda>intermediates.
          bnd (slice_get certs 0) (\<lambda>leaf.
            case Verify leaf rootCAs intermediates of Some e \<Rightarrow> Inr (Inl e) | None \<Rightarrow> Inr (Inr leaf))))"

lemma length_parse_certs: "parse_certs p raws = Inr certs \<Longrightarrow> length certs = length raws"
  by (induction raws arbitrary: certs) (auto split: sum.splits)

lemma parse_certs_map: "parse_certs p raws = Inr certs \<Longrightarrow> map p raws = map Inr certs"
  by (induction raws arbitrary: certs) (auto split: sum.splits)

text \<open>
  Verifying a chain never panics, and a leaf is answered only when every certificate parses, the leaf is the
  first of them, and it was verified against the given roots with exactly the others as intermediates.
\<close>

theorem verify_chain_sound:
  "case verify_chain ParseCertificate Verify rootCAs rawCerts of
     Inl p \<Rightarrow> False
   | Inr (Inl e) \<Rightarrow> True
   | Inr (Inr leaf) \<Rightarrow> \<exists>others. map ParseCertificate rawCerts = map Inr (leaf # others) \<and> Verify leaf rootCAs others = None"
proof (cases "rawCerts = []")
  case False
  show ?thesis
  proof (cases "parse_certs ParseCertificate rawCerts")
    case (Inr certs)
    with False obtain c cs where certs: "certs = c # cs" using length_parse_certs [OF Inr] by (cases certs) auto
    then have "slice_range certs 1 (int (length certs)) = Inr cs" by (simp add: slice_range_def)
    with False Inr certs show ?thesis
      using parse_certs_map [OF Inr] by (auto simp: verify_chain_def slice_get_def split: option.splits)
  qed (use False in \<open>simp add: verify_chain_def\<close>)
qed (simp add: verify_chain_def)

section \<open>Connections with time-outs\<close>

text \<open>
  The deadlines of a connection, nil when there is none.  \<open>readConn\<close> and \<open>writeConn\<close> are the connection's
  own operations, which may depend on the deadline in force.
\<close>

record deadlines =
  dl_read :: "int option"
  dl_write :: "int option"

definition timeout_Read :: "int \<Rightarrow> int \<Rightarrow> (int option \<Rightarrow> 'r) \<Rightarrow> deadlines \<Rightarrow> 'r \<times> deadlines" where
  "timeout_Read now readTimeout readConn d =
     (if readTimeout > 0
      then (let d1 = d\<lparr>dl_read := Some (now + readTimeout)\<rparr> in (readConn (dl_read d1), d1\<lparr>dl_read := None\<rparr>))
      else (readConn (dl_read d), d))"

definition timeout_Write :: "int \<Rightarrow> int \<Rightarrow> (int option \<Rightarrow> 'r) \<Rightarrow> deadlines \<Rightarrow> 'r \<times> deadlines" where
  "timeout_Write now writeTimeout writeConn d =
     (if writeTimeout > 0
      then (let d1 = d\<lparr>dl_write := Some (now + writeTimeout)\<rparr> in (writeConn (dl_write d1), d1\<lparr>dl_write := None\<rparr>))
      else (writeConn (dl_write d), d))"

section \<open>The transports of the smart round tripper\<close>

record protocols =
  pr_HTTP1 :: bool
  pr_HTTP2 :: bool
  pr_UnencryptedHTTP2 :: bool

definition no_protocols :: protocols where
  "no_protocols = \<lparr>pr_HTTP1 = False, pr_HTTP2 = False, pr_UnencryptedHTTP2 = False\<rparr>"

text \<open>A transport is what it was created with and its protocols, nil at first.\<close>

type_synonym 't http_transport = "'t \<times> protocols option"

record 't smart =
  sm_http2 :: "'t http_transport"
  sm_http :: "'t http_transport"
  sm_h2c :: "'t http_transport"

definition newHTTPSmartRoundTripper :: "'t http_transport \<Rightarrow> 't smart" where
  "newHTTPSmartRoundTripper transport =
     \<lparr>sm_http2 = (fst transport, Some (no_protocols\<lparr>pr_HTTP1 := True, pr_HTTP2 := True\<rparr>)),
      sm_http = (fst transport, Some (no_protocols\<lparr>pr_HTTP1 := True\<rparr>)),
      sm_h2c = (fst transport, Some (no_protocols\<lparr>pr_UnencryptedHTTP2 := True\<rparr>))\<rparr>"

definition smart_Clone :: "'t smart \<Rightarrow> 't smart" where
  "smart_Clone m = \<lparr>sm_http2 = sm_http2 m, sm_http = sm_http m, sm_h2c = sm_h2c m\<rparr>"

definition smart_transport :: "'t smart \<Rightarrow> protocol \<Rightarrow> 't http_transport" where
  "smart_transport m p = (case p of UseHTTP1 \<Rightarrow> sm_http m | UseHTTP2 \<Rightarrow> sm_http2 m | UseH2C \<Rightarrow> sm_h2c m)"

text \<open>
  A request is sent by the transport that was configured, with the protocols its kind needs: an upgrade with
  HTTP/1 only, \<^verbatim>\<open>h2c\<close> with unencrypted HTTP/2 only, any other with HTTP/1 and HTTP/2; by a clone as well.
\<close>

theorem smart_protocols:
  "smart_transport (smart_Clone (newHTTPSmartRoundTripper t)) (snd (smart_RoundTrip upgrade scheme))
     = (fst t, Some \<lparr>pr_HTTP1 = (upgrade \<or> scheme \<noteq> ''h2c''), pr_HTTP2 = (\<not> upgrade \<and> scheme \<noteq> ''h2c''),
                    pr_UnencryptedHTTP2 = (\<not> upgrade \<and> scheme = ''h2c'')\<rparr>)
   \<and> fst (smart_RoundTrip upgrade scheme) = (if scheme = ''h2c'' then ''http'' else scheme)"
  by (simp add: smart_transport_def smart_Clone_def newHTTPSmartRoundTripper_def smart_RoundTrip_def Let_def no_protocols_def)

section \<open>A run of requests in one context\<close>

text \<open>The context of a connection starts with an empty holder.\<close>

definition AddHTTPTransportOnContext :: "'rt option option" where
  "AddHTTPTransportOnContext = Some None"

fun kerberos_run ::
  "('req \<Rightarrow> 'rt \<Rightarrow> string + 'resp) \<Rightarrow> ('resp \<Rightarrow> string list) \<Rightarrow> 'rt \<Rightarrow> 'rt \<Rightarrow> 'rt option option \<Rightarrow> 'req list
     \<Rightarrow> (string + 'resp) list" where
  "kerberos_run go auth fresh orig holder [] = []"
| "kerberos_run go auth fresh orig holder (req # reqs) =
     (case kerberos_RoundTrip (go req) auth fresh orig holder of
        (answer, holder') \<Rightarrow> answer # kerberos_run go auth fresh orig holder' reqs)"

definition challenged :: "('resp \<Rightarrow> string list) \<Rightarrow> string + 'resp \<Rightarrow> bool" where
  "challenged auth answer = (case answer of Inl e \<Rightarrow> False | Inr resp \<Rightarrow> containsNTLMorNegotiate (auth resp))"

lemma kerberos_stuck: "kerberos_run go auth fresh orig (Some (Some rt)) reqs = map (\<lambda>req. go req rt) reqs"
  by (induction reqs) (simp_all add: kerberos_RoundTrip_def)

text \<open>
  The requests of one context go over the shared transport up to and including the first one that is
  answered with an NTLM or Negotiate challenge, and all later ones over the transport made for the context;
  without a context all go over the shared one.
\<close>

theorem sticky_after_challenge:
  "kerberos_run go auth fresh orig AddHTTPTransportOnContext reqs
     = (let calm = takeWhile (\<lambda>req. \<not> challenged auth (go req orig)) reqs; rest = dropWhile (\<lambda>req. \<not> challenged auth (go req orig)) reqs
        in map (\<lambda>req. go req orig) (calm @ take 1 rest) @ map (\<lambda>req. go req fresh) (drop 1 rest))
   \<and> kerberos_run go auth fresh orig None reqs = map (\<lambda>req. go req orig) reqs"
proof
  show "kerberos_run go auth fresh orig AddHTTPTransportOnContext reqs
     = (let calm = takeWhile (\<lambda>req. \<not> challenged auth (go req orig)) reqs; rest = dropWhile (\<lambda>req. \<not> challenged auth (go req orig)) reqs
        in map (\<lambda>req. go req orig) (calm @ take 1 rest) @ map (\<lambda>req. go req fresh) (drop 1 rest))"
    by (induction reqs)
      (auto simp: AddHTTPTransportOnContext_def kerberos_RoundTrip_def challenged_def kerberos_stuck Let_def split: sum.splits)
  show "kerberos_run go auth fresh orig None reqs = map (\<lambda>req. go req orig) reqs"
    by (induction reqs) (simp_all add: kerberos_RoundTrip_def)
qed

section \<open>Building proxies\<close>

definition SetDefaults :: "ForwardingTimeouts \<Rightarrow> ForwardingTimeouts" where
  "SetDefaults f = f\<lparr>fo_DialTimeout := seconds 30, fo_IdleConnTimeout := seconds 90, fo_PingTimeout := seconds 15\<rparr>"

text \<open>The pool gives back some buffer that was put into it, or makes a new one; \<open>pick\<close> chooses.\<close>

definition httpBufferSize :: nat where
  "httpBufferSize = 32 * 1024"

type_synonym buffer_pool = "8 word list list"

definition newHTTPBufferPool :: buffer_pool where
  "newHTTPBufferPool = []"

definition BufferPool_Get :: "nat option \<Rightarrow> buffer_pool \<Rightarrow> 8 word list \<times> buffer_pool" where
  "BufferPool_Get pick pool =
     (case pick of
        Some i \<Rightarrow> if i < length pool then (pool ! i, take i pool @ drop (Suc i) pool) else (replicate httpBufferSize 0, pool)
      | None \<Rightarrow> (replicate httpBufferSize 0, pool))"

definition BufferPool_Put :: "8 word list \<Rightarrow> buffer_pool \<Rightarrow> buffer_pool" where
  "BufferPool_Put bytes pool = bytes # pool"

record 'rt reverse_proxy =
  rp_target :: URL
  rp_passHostHeader :: bool
  rp_preservePath :: bool
  rp_Transport :: 'rt
  rp_FlushInterval :: int
  rp_BufferPool :: buffer_pool

definition buildSingleHostHTTPProxy :: "URL \<Rightarrow> bool \<Rightarrow> bool \<Rightarrow> int \<Rightarrow> 'rt \<Rightarrow> buffer_pool \<Rightarrow> 'rt reverse_proxy" where
  "buildSingleHostHTTPProxy target passHostHeader preservePath flushInterval roundTripper bufferPool =
     \<lparr>rp_target = target, rp_passHostHeader = passHostHeader, rp_preservePath = preservePath, rp_Transport = roundTripper,
      rp_FlushInterval = flushInterval, rp_BufferPool = bufferPool\<rparr>"

definition rewriteRequestBuilder ::
  "(string \<Rightarrow> URL option) \<Rightarrow> (string list \<Rightarrow> string \<Rightarrow> bool) \<Rightarrow> 'rt reverse_proxy \<Rightarrow> Request \<Rightarrow> Request \<Rightarrow> Request go" where
  "rewriteRequestBuilder parseRequestURI hasToken p =
     rewriteRequest parseRequestURI hasToken (rp_target p) (rp_passHostHeader p) (rp_preservePath p)"

text \<open>The target and the round tripper are pointers and may be nil; \<open>dflt\<close> is \<^verbatim>\<open>http.DefaultTransport\<close>.\<close>

definition NewSingleHostReverseProxy ::
  "'rt \<Rightarrow> URL option \<Rightarrow> bool \<Rightarrow> bool \<Rightarrow> int \<Rightarrow> 'rt option \<Rightarrow> string + 'rt reverse_proxy" where
  "NewSingleHostReverseProxy dflt target passHostHeader preservePath flushInterval roundTripper =
     (case target of
        None \<Rightarrow> Inl ''target URL is nil''
      | Some t \<Rightarrow> Inr (buildSingleHostHTTPProxy t passHostHeader preservePath flushInterval
                        (case roundTripper of None \<Rightarrow> dflt | Some rt \<Rightarrow> rt) newHTTPBufferPool))"

record 'cert proxy_builder =
  pb_bufferPool :: buffer_pool
  pb_transportManager :: "'cert HTTPTransportManager"

definition NewHTTPProxyBuilder :: "'cert HTTPTransportManager \<Rightarrow> 'cert proxy_builder" where
  "NewHTTPProxyBuilder transportManager = \<lparr>pb_bufferPool = newHTTPBufferPool, pb_transportManager = transportManager\<rparr>"

definition proxy_Build ::
  "'cert proxy_builder \<Rightarrow> string \<Rightarrow> URL \<Rightarrow> bool \<Rightarrow> bool \<Rightarrow> int \<Rightarrow> string + 'cert round_tripper reverse_proxy" where
  "proxy_Build b cfgName targetURL passHostHeader preservePath flushInterval =
     (case GetRoundTripper (pb_transportManager b) cfgName of
        Inl e \<Rightarrow> Inl (''getting round tripper: '' @ e)
      | Inr roundTripper \<Rightarrow>
          Inr (buildSingleHostHTTPProxy targetURL passHostHeader preservePath flushInterval roundTripper (pb_bufferPool b)))"

text \<open>
  A run of updates of the manager, each with the orders in which the two maps are visited; and when these are
  orders of the maps in force.
\<close>

fun run_updates ::
  "('cert, 'leaf) env \<Rightarrow> (string list \<times> string list \<times> (string \<rightharpoonup> ServersTransport)) list \<Rightarrow> 'cert HTTPTransportManager
     \<Rightarrow> 'cert HTTPTransportManager go" where
  "run_updates ev [] m = Inr m"
| "run_updates ev ((olds, news, new) # ups) m =
     bnd (HTTPTransportManager_Update ev olds news (Some (pointers new)) m) (run_updates ev ups)"

fun orders_ok :: "(string \<rightharpoonup> ServersTransport) \<Rightarrow> (string list \<times> string list \<times> (string \<rightharpoonup> ServersTransport)) list \<Rightarrow> bool" where
  "orders_ok cs [] = True"
| "orders_ok cs ((olds, news, new) # ups) =
     (set olds = dom cs \<and> set news = dom (add_default new) \<and> orders_ok (add_default new) ups)"

fun last_configs :: "(string \<rightharpoonup> ServersTransport) \<Rightarrow> (string list \<times> string list \<times> (string \<rightharpoonup> ServersTransport)) list \<Rightarrow> string \<rightharpoonup> ServersTransport" where
  "last_configs cs [] = cs"
| "last_configs cs ((olds, news, new) # ups) = last_configs (add_default new) ups"

lemma run_updates_last:
  "orders_ok cs ups \<Longrightarrow> run_updates ev ups (manager_for ev src cs) = Inr (manager_for ev src (last_configs cs ups))"
  by (induction ups arbitrary: cs) (auto simp: update_manager)

text \<open>
  A proxy that is built after any run of updates of a new manager forwards with the transport built from
  scratch for the last configuration of its name, the default one for the empty name, and rewrites every
  request for its target; only a name without configuration is refused.
\<close>

theorem built_proxy_is_current:
  assumes "orders_ok [default_name \<mapsto> empty_transport] ups"
  shows "\<exists>m. bnd (NewHTTPTransportManager ev src) (run_updates ev ups) = Inr m
    \<and> proxy_Build (NewHTTPProxyBuilder m) name target passHost preserve flush
      = (case last_configs [default_name \<mapsto> empty_transport] ups (or_default name) of
           None \<Rightarrow> Inl (''getting round tripper: servers transport not found '' @ or_default name)
         | Some cfg \<Rightarrow> Inr (buildSingleHostHTTPProxy target passHost preserve flush (rt_for ev src cfg) newHTTPBufferPool))
    \<and> (\<forall>p parse tok. proxy_Build (NewHTTPProxyBuilder m) name target passHost preserve flush = Inr p \<longrightarrow>
         rewriteRequestBuilder parse tok p = rewriteRequest parse tok target passHost preserve)"
proof (intro exI conjI)
  let ?m = "manager_for ev src (last_configs [default_name \<mapsto> empty_transport] ups)"
  show "bnd (NewHTTPTransportManager ev src) (run_updates ev ups) = Inr ?m"
    by (simp add: new_manager run_updates_last [OF assms])
  show built: "proxy_Build (NewHTTPProxyBuilder ?m) name target passHost preserve flush
      = (case last_configs [default_name \<mapsto> empty_transport] ups (or_default name) of
           None \<Rightarrow> Inl (''getting round tripper: servers transport not found '' @ or_default name)
         | Some cfg \<Rightarrow> Inr (buildSingleHostHTTPProxy target passHost preserve flush (rt_for ev src cfg) newHTTPBufferPool))"
    by (simp add: proxy_Build_def NewHTTPProxyBuilder_def get_round_tripper split: option.splits)
  show "\<forall>p parse tok. proxy_Build (NewHTTPProxyBuilder ?m) name target passHost preserve flush = Inr p \<longrightarrow>
         rewriteRequestBuilder parse tok p = rewriteRequest parse tok target passHost preserve"
    unfolding built by (auto simp: rewriteRequestBuilder_def buildSingleHostHTTPProxy_def split: option.splits)
qed

definition wit_target :: URL where
  "wit_target = \<lparr>ur_Scheme = ''http'', ur_Host = ''backend:8080'', ur_Path = ''/api'', ur_RawPath = [], ur_RawQuery = []\<rparr>"

theorem built_proxy_is_current_witness:
  "\<exists>m. bnd (NewHTTPTransportManager wit_env False)
        (run_updates wit_env [([default_name], [''a'', default_name], [''a'' \<mapsto> wit_cfg])]) = Inr m
     \<and> proxy_Build (NewHTTPProxyBuilder m) ''a'' wit_target True False 0
       = Inr (buildSingleHostHTTPProxy wit_target True False 0 (rt_for wit_env False wit_cfg) newHTTPBufferPool)
     \<and> proxy_Build (NewHTTPProxyBuilder m) ''b'' wit_target True False 0
       = Inl (''getting round tripper: servers transport not found b'')"
proof -
  let ?ups = "[([default_name], [''a'', default_name], [''a'' \<mapsto> wit_cfg])]"
  have ok: "orders_ok [default_name \<mapsto> empty_transport] ?ups"
    by (auto simp: add_default_def default_name_def)
  from built_proxy_is_current [OF ok, of wit_env False "''a''" wit_target True False 0]
    built_proxy_is_current [OF ok, of wit_env False "''b''" wit_target True False 0]
  show ?thesis by (auto simp: or_default_def add_default_def default_name_def)
qed

section \<open>Answers to errors\<close>

definition isTLSConfigError :: "bool \<Rightarrow> bool \<Rightarrow> bool" where
  "isTLSConfigError isRecordHeaderError isCertificateVerificationError = (isRecordHeaderError \<or> isCertificateVerificationError)"

definition ErrorHandler :: "(nat \<Rightarrow> string) \<Rightarrow> proxy_error \<Rightarrow> nat \<times> string" where
  "ErrorHandler httpStatusText err = ErrorHandlerWithContext httpStatusText err"

end
