(* ===== verification/RingProgram.thy ===== *)
theory RingProgram
  imports Buffer
begin

text \<open>
  Programs over the whole interface of the ring buffer of \<^verbatim>\<open>go/range/buffer.go\<close>: the operations as the
  constructors of a datatype, run one after the other on a buffer and on a plain list.
\<close>

datatype ('s, 'a) ring_op =
  OpPush 'a | OpPop | OpPeek | OpLen | OpIsEmpty | OpClear | OpDiscard int
  | OpForEach "('s, 'a) visitor" 's | OpForEachReverse "('s, 'a) visitor" 's

datatype ('s, 'a) ring_answer = Done | Popped 'a bool | Peeked "'a option" | Count int | Flag bool | Captured 's

definition ring_exec :: "'a \<Rightarrow> ('s, 'a) ring_op \<Rightarrow> 'a RingBuffer \<Rightarrow> (('s, 'a) ring_answer \<times> 'a RingBuffer) go" where
  "ring_exec z op r =
     (case op of
        OpPush x \<Rightarrow> bnd (RingBuffer_Push z r x) (\<lambda>r'. Inr (Done, r'))
      | OpPop \<Rightarrow> bnd (RingBuffer_Pop z r) (\<lambda>(x, ok, r'). Inr (Popped x ok, r'))
      | OpPeek \<Rightarrow> bnd (RingBuffer_Peek r) (\<lambda>p. Inr (Peeked (map_option snd p), r))
      | OpLen \<Rightarrow> Inr (Count (int (RingBuffer_Len r)), r)
      | OpIsEmpty \<Rightarrow> Inr (Flag (RingBuffer_IsEmpty r), r)
      | OpClear \<Rightarrow> bnd (RingBuffer_Clear z r) (\<lambda>r'. Inr (Done, r'))
      | OpDiscard n \<Rightarrow> bnd (RingBuffer_Discard z r n) (\<lambda>(k, r'). Inr (Count k, r'))
      | OpForEach fn s \<Rightarrow> bnd (RingBuffer_ForEach fn s r) (\<lambda>(s', r'). Inr (Captured s', r'))
      | OpForEachReverse fn s \<Rightarrow> bnd (RingBuffer_ForEachReverse fn s r) (\<lambda>(s', r'). Inr (Captured s', r')))"

definition list_exec :: "'a \<Rightarrow> ('s, 'a) ring_op \<Rightarrow> 'a list \<Rightarrow> ('s, 'a) ring_answer \<times> 'a list" where
  "list_exec z op xs =
     (case op of
        OpPush x \<Rightarrow> (Done, xs @ [x])
      | OpPop \<Rightarrow> (case xs of [] \<Rightarrow> (Popped z False, []) | x # ys \<Rightarrow> (Popped x True, ys))
      | OpPeek \<Rightarrow> (Peeked (case xs of [] \<Rightarrow> None | x # ys \<Rightarrow> Some x), xs)
      | OpLen \<Rightarrow> (Count (int (length xs)), xs)
      | OpIsEmpty \<Rightarrow> (Flag (xs = []), xs)
      | OpClear \<Rightarrow> (Done, [])
      | OpDiscard n \<Rightarrow> (Count (min n (int (length xs))), drop (nat n) xs)
      | OpForEach fn s \<Rightarrow> (case visit_list fn xs s of (c, s', ys) \<Rightarrow> (Captured s', ys))
      | OpForEachReverse fn s \<Rightarrow> (case visit_list fn (rev xs) s of (c, s', ys) \<Rightarrow> (Captured s', rev ys)))"

fun ring_program :: "'a \<Rightarrow> ('s, 'a) ring_op list \<Rightarrow> 'a RingBuffer \<Rightarrow> (('s, 'a) ring_answer list \<times> 'a RingBuffer) go" where
  "ring_program z [] r = Inr ([], r)"
| "ring_program z (op # ops) r =
     bnd (ring_exec z op r) (\<lambda>(a, r'). bnd (ring_program z ops r') (\<lambda>(as, r''). Inr (a # as, r'')))"

fun list_program :: "'a \<Rightarrow> ('s, 'a) ring_op list \<Rightarrow> 'a list \<Rightarrow> ('s, 'a) ring_answer list \<times> 'a list" where
  "list_program z [] xs = ([], xs)"
| "list_program z (op # ops) xs =
     (let (a, ys) = list_exec z op xs; (as, zs) = list_program z ops ys in (a # as, zs))"

section \<open>One operation\<close>

text \<open>What it means that an operation behaves as on the list: it does not panic and keeps the invariant.\<close>

definition ring_agrees :: "'a \<Rightarrow> ('s, 'a) ring_op \<Rightarrow> 'a RingBuffer \<Rightarrow> bool" where
  "ring_agrees z op r \<longleftrightarrow>
     (\<exists>r'. ring_exec z op r = Inr (fst (list_exec z op (ring_contents r)), r')
         \<and> ring_ok z r' \<and> ring_contents r' = snd (list_exec z op (ring_contents r)))"

lemma Peek_contents:
  assumes "ring_ok z r"
  shows "\<exists>p. RingBuffer_Peek r = Inr p \<and> map_option snd p = (case ring_contents r of [] \<Rightarrow> None | x # xs \<Rightarrow> Some x)"
proof (cases "RingBuffer_Len r = 0")
  case True
  then show ?thesis by (simp add: RingBuffer_Peek_def length_ring_contents [symmetric])
next
  case False
  show ?thesis
    using ring_okD(1) [OF assms] False
    by (subst ring_drop_contents [OF ring_okD(1) [OF assms] False]) (simp add: RingBuffer_Peek_def slice_get_ok ring_inv_def)
qed

lemma Discard_agrees: "ring_ok z r \<Longrightarrow> ring_agrees z (OpDiscard n) r"
proof (cases "0 \<le> n")
  case True
  assume "ring_ok z r"
  from RingBuffer_Discard_correct [OF this True] show ?thesis
    by (auto simp: ring_agrees_def ring_exec_def list_exec_def length_ring_contents)
next
  case False
  assume "ring_ok z r"
  with False show ?thesis
    by (simp add: ring_agrees_def ring_exec_def list_exec_def RingBuffer_Discard_def Let_def length_ring_contents)
qed

lemma iteration_agrees:
  assumes "ring_ok z r"
  shows "ring_agrees z (OpForEach fn s) r" "ring_agrees z (OpForEachReverse fn s) r"
  using RingBuffer_iteration_order [OF assms, of fn s]
  by (auto simp: ring_agrees_def ring_exec_def list_exec_def split: prod.splits)

lemma ring_exec_agrees:
  assumes "ring_ok z r"
  shows "ring_agrees z op r"
proof (cases op)
  case (OpPush x)
  with rbq.enq_ok [OF assms, of x] show ?thesis by (auto simp: ring_agrees_def ring_exec_def list_exec_def)
next
  case OpPop
  then show ?thesis
    using rbq.deq_Nil [OF assms] rbq.deq_Cons [OF assms] assms
    by (cases "ring_contents r") (fastforce simp: ring_agrees_def ring_exec_def list_exec_def)+
next
  case OpPeek
  with Peek_contents [OF assms] assms show ?thesis by (auto simp: ring_agrees_def ring_exec_def list_exec_def)
next
  case OpClear
  have "ring_ok z \<lparr>rb_head = 0, rb_tail = 0, rb_elements = replicate (length (rb_elements r)) z\<rparr>"
    using ring_okD(1) [OF assms] by (intro empty_ring_ok) (auto simp: ring_inv_def)
  with OpClear Clear_correct [OF assms] show ?thesis
    by (simp add: ring_agrees_def ring_exec_def list_exec_def ring_contents_def ring_slots_def)
next
  case OpIsEmpty
  have "rb_head r = rb_tail r \<longleftrightarrow> RingBuffer_Len r = 0"
    using ring_okD(1) [OF assms] by (auto simp: RingBuffer_Len_def ring_inv_def)
  with OpIsEmpty assms show ?thesis
    by (simp add: ring_agrees_def ring_exec_def list_exec_def RingBuffer_IsEmpty_def flip: length_0_conv length_ring_contents)
qed (use assms in \<open>simp_all add: Discard_agrees iteration_agrees ring_agrees_def [of z OpLen]
      ring_exec_def list_exec_def length_ring_contents\<close>)

section \<open>Programs\<close>

lemma ring_program_from:
  "ring_ok z r \<Longrightarrow>
   \<exists>r'. ring_program z ops r = Inr (fst (list_program z ops (ring_contents r)), r')
      \<and> ring_ok z r' \<and> ring_contents r' = snd (list_program z ops (ring_contents r))"
proof (induction ops arbitrary: r)
  case Nil
  then show ?case by simp
next
  case (Cons op ops)
  from ring_exec_agrees [OF Cons.prems, of op] obtain r' where
    "ring_exec z op r = Inr (fst (list_exec z op (ring_contents r)), r')" "ring_ok z r'"
    "ring_contents r' = snd (list_exec z op (ring_contents r))"
    by (auto simp: ring_agrees_def)
  with Cons.IH [of r'] show ?case by (auto simp: Let_def split: prod.splits)
qed

text \<open>
  C1. A well-formed buffer never goes wrong: every program of operations on a new buffer runs to its end without
  a panic, whatever was asked for as its size; its answers are those of the same program on a list, and it
  leaves a buffer with its indices in range whose free slots all hold the zero value.
\<close>

theorem ring_programs_safe:
  "\<exists>r'. ring_program z ops (NewRingBuffer z n) = Inr (fst (list_program z ops []), r')
      \<and> ring_ok z r' \<and> ring_contents r' = snd (list_program z ops [])"
  using ring_program_from [of z "NewRingBuffer z n" ops] by simp

end
