(* ===== verification/DurationJson.thy ===== *)
theory DurationJson
  imports DurationText
begin

text \<open>
  The JSON methods of the \<^verbatim>\<open>Duration\<close> types of \<^verbatim>\<open>net/tcp\<close> and \<^verbatim>\<open>net/proxy/types\<close>, with what they use of
  \<^verbatim>\<open>encoding/json\<close>: reading a text into a string, with its escapes, surrogate pairs and the replacement of
  bytes that are not UTF-8.
\<close>

section \<open>Strings of JSON\<close>

definition byte :: "char \<Rightarrow> nat" where "byte c = of_char c"

definition cont :: "nat \<Rightarrow> bool" where "cont b \<longleftrightarrow> 128 \<le> b \<and> b \<le> 191"

text \<open>The length of the UTF-8 sequence a text starts with, 0 when it starts with none.\<close>

definition utf8_len :: "string \<Rightarrow> nat" where
  "utf8_len s =
     (case map byte s of
        [] \<Rightarrow> 0
      | b # bs \<Rightarrow>
          if b < 128 then 1
          else if 194 \<le> b \<and> b \<le> 223 then (case bs of c # _ \<Rightarrow> if cont c then 2 else 0 | _ \<Rightarrow> 0)
          else if 224 \<le> b \<and> b \<le> 239 then
            (case bs of
               c # d # _ \<Rightarrow> if cont c \<and> cont d \<and> (b = 224 \<longrightarrow> 160 \<le> c) \<and> (b = 237 \<longrightarrow> c \<le> 159) then 3 else 0
             | _ \<Rightarrow> 0)
          else if 240 \<le> b \<and> b \<le> 244 then
            (case bs of
               c # d # e # _ \<Rightarrow> if cont c \<and> cont d \<and> cont e \<and> (b = 240 \<longrightarrow> 144 \<le> c) \<and> (b = 244 \<longrightarrow> c \<le> 143) then 4 else 0
             | _ \<Rightarrow> 0)
          else 0)"

definition utf8_encode :: "nat \<Rightarrow> string" where
  "utf8_encode r =
     (if r < 128 then [char_of r]
      else if r < 2048 then [char_of (192 + r div 64), char_of (128 + r mod 64)]
      else if r < 65536 then [char_of (224 + r div 4096), char_of (128 + r div 64 mod 64), char_of (128 + r mod 64)]
      else [char_of (240 + r div 262144), char_of (128 + r div 4096 mod 64), char_of (128 + r div 64 mod 64), char_of (128 + r mod 64)])"

definition ReplacementChar :: nat where "ReplacementChar = 0xFFFD"

text \<open>Four hexadecimal digits, and what they stand for when a second half may follow.\<close>

definition getu4 :: "string \<Rightarrow> nat option" where
  "getu4 s = (if 4 \<le> length s \<and> list_all is_hex (take 4 s) then Some (read_base 16 (map hex_val (take 4 s))) else None)"

definition second_half :: "string \<Rightarrow> nat option" where
  "second_half s =
     (if take 2 s = [CHR 0x5C, CHR ''u'']
      then (case getu4 (drop 2 s) of Some r \<Rightarrow> if 0xDC00 \<le> r \<and> r \<le> 0xDFFF then Some r else None | None \<Rightarrow> None)
      else None)"

definition unicode_escape :: "nat \<Rightarrow> string \<Rightarrow> nat \<times> nat" where
  "unicode_escape r s =
     (if 0xD800 \<le> r \<and> r \<le> 0xDFFF
      then (if r \<le> 0xDBFF then (case second_half s of Some r2 \<Rightarrow> (65536 + (r - 0xD800) * 1024 + (r2 - 0xDC00), 6) | None \<Rightarrow> (ReplacementChar, 0))
            else (ReplacementChar, 0))
      else (r, 0))"

definition simple_escape :: "char \<Rightarrow> char option" where
  "simple_escape = [CHR 0x22 \<mapsto> CHR 0x22, CHR 0x5C \<mapsto> CHR 0x5C, CHR ''/'' \<mapsto> CHR ''/'', CHR ''b'' \<mapsto> CHR 0x08,
     CHR ''f'' \<mapsto> CHR 0x0C, CHR ''n'' \<mapsto> CHR 0x0A, CHR ''r'' \<mapsto> CHR 0x0D, CHR ''t'' \<mapsto> CHR 0x09]"

text \<open>The characters up to the closing quote, and what follows it.\<close>

function json_chars :: "string \<Rightarrow> (string \<times> string) option" where
  "json_chars [] = None"
| "json_chars (c # s) =
     (if c = CHR 0x22 then Some ([], s)
      else if c = CHR 0x5C then
        (case s of
           [] \<Rightarrow> None
         | e # t \<Rightarrow>
             if e = CHR ''u'' then
               (case getu4 t of
                  None \<Rightarrow> None
                | Some r \<Rightarrow> (case unicode_escape r (drop 4 t) of (x, k) \<Rightarrow>
                    map_option (map_prod ((@) (utf8_encode x)) id) (json_chars (drop k (drop 4 t)))))
             else (case simple_escape e of
                  None \<Rightarrow> None
                | Some x \<Rightarrow> map_option (map_prod ((#) x) id) (json_chars t)))
      else if byte c < 32 then None
      else let n = utf8_len (c # s) in
        if n = 0 then map_option (map_prod ((@) (utf8_encode ReplacementChar)) id) (json_chars s)
        else map_option (map_prod ((@) (take n (c # s))) id) (json_chars (drop (n - 1) s)))"
  by pat_completeness auto

termination
  by (relation "measure length") (auto simp: less_Suc_eq_le)

definition json_space :: "char \<Rightarrow> bool" where
  "json_space c \<longleftrightarrow> c \<in> {CHR '' '', CHR 0x09, CHR 0x0A, CHR 0x0D}"

text \<open>
  \<^verbatim>\<open>json.Unmarshal\<close> into an empty string: \<^verbatim>\<open>null\<close> leaves it empty, and any other value, or a text that is no
  value, is an error.
\<close>

definition json_string :: "string \<Rightarrow> string option" where
  "json_string text =
     (let t = dropWhile json_space text in
      if t \<noteq> [] \<and> hd t = CHR 0x22
      then (case json_chars (tl t) of Some (s, rest) \<Rightarrow> if list_all json_space rest then Some s else None | None \<Rightarrow> None)
      else if take 4 t = ''null'' \<and> list_all json_space (drop 4 t) then Some []
      else None)"

section \<open>The methods\<close>

definition MarshalJSON :: "int \<Rightarrow> string" where
  "MarshalJSON d = [CHR 0x22] @ time_String d @ [CHR 0x22]"

text \<open>The result is the stored duration and whether there is no error.\<close>

definition UnmarshalJSON :: "int \<Rightarrow> string \<Rightarrow> int \<times> bool" where
  "UnmarshalJSON d text =
     (case ParseInt text of
        Some v \<Rightarrow> (int64 (v * 1000000000), True)
      | None \<Rightarrow>
          (case json_string text of
             None \<Rightarrow> (d, False)
           | Some value \<Rightarrow> (case ParseDuration value of None \<Rightarrow> (0, False) | Some v \<Rightarrow> (v, True))))"

section \<open>Texts without escapes\<close>

definition transparent :: "string \<Rightarrow> bool" where
  "transparent u \<longleftrightarrow> (\<forall>t. json_chars (u @ t) = map_option (map_prod ((@) u) id) (json_chars t))"

lemma transparent_Nil: "transparent []"
  unfolding transparent_def by (metis append_Nil eq_id_iff map_prod.id option.map_id0)

lemma transparent_append: "transparent u \<Longrightarrow> transparent v \<Longrightarrow> transparent (u @ v)"
  unfolding transparent_def
proof
  fix t
  assume "\<forall>t. json_chars (u @ t) = map_option (map_prod ((@) u) id) (json_chars t)"
    and "\<forall>t. json_chars (v @ t) = map_option (map_prod ((@) v) id) (json_chars t)"
  then show "json_chars ((u @ v) @ t) = map_option (map_prod ((@) (u @ v)) id) (json_chars t)"
    by (cases "json_chars t") auto
qed

definition plain :: "char \<Rightarrow> bool" where
  "plain c \<longleftrightarrow> 32 \<le> byte c \<and> byte c < 128 \<and> c \<noteq> CHR 0x22 \<and> c \<noteq> CHR 0x5C"

lemma plain_letters:
  "plain CHR ''h''" "plain CHR ''m''" "plain CHR ''s''" "plain CHR ''n''" "plain CHR ''.''" "plain CHR ''-''" "plain CHR ''0''"
  by (simp_all add: plain_def byte_def)

lemma plain_digit: "is_digit c \<Longrightarrow> plain c"
  by (auto simp: is_digit_def plain_def byte_def Let_def)

lemma transparent_Cons: "plain c \<Longrightarrow> transparent u \<Longrightarrow> transparent (c # u)"
proof -
  assume c: "plain c" and u: "transparent u"
  then have "utf8_len (c # t) = 1" for t by (simp add: plain_def utf8_len_def)
  with c have "transparent [c]" by (simp add: plain_def transparent_def json_chars.simps(2))
  from transparent_append [OF this u] show ?thesis by simp
qed

lemma transparent_digits: "list_all is_digit ds \<Longrightarrow> transparent ds"
  by (induction ds) (auto intro: transparent_Nil transparent_Cons plain_digit)

lemmas transparent_decimal = transparent_digits [OF decimal_digits]

lemma transparent_micro: "transparent micro"
proof -
  have "utf8_len (CHR 0xC2 # CHR 0xB5 # t) = 2" for t by (simp add: utf8_len_def byte_def cont_def)
  then have "transparent [CHR 0xC2, CHR 0xB5]"
    by (simp add: transparent_def json_chars.simps(2) byte_def numeral_2_eq_2)
  from transparent_append [OF this transparent_Cons [OF plain_letters(3) transparent_Nil]] show ?thesis by (simp add: micro_def)
qed

lemma transparent_frac: "frac_ok p v f \<Longrightarrow> transparent f"
  using transparent_digits [of "tl f"] transparent_Cons [OF plain_letters(5), of "tl f"]
  by (cases f) (auto simp: frac_ok_def transparent_Nil split: if_splits)

lemmas transparent_pieces = transparent_Nil transparent_Cons plain_letters transparent_append transparent_decimal transparent_micro

lemma transparent_small: "transparent u \<Longrightarrow> transparent (fmt_small p u v)"
proof -
  obtain f where "fmtFrac p False v [] = (f, v div 10 ^ p)" "frac_ok p v f" using fmtFrac_ok by blast
  then show "transparent u \<Longrightarrow> ?thesis"
    by (simp add: fmt_small_def transparent_pieces transparent_frac [of p v f])
qed

lemma transparent_duration: "transparent (time_String d)"
proof -
  have format: "transparent (format_duration v)" for v
  proof -
    obtain f where f: "fmtFrac 9 False v [] = (f, v div 10 ^ 9)" "frac_ok 9 v f" using fmtFrac_ok by blast
    show ?thesis
      unfolding format_duration_def Let_def f(1)
      by (simp add: transparent_pieces transparent_small transparent_frac [OF f(2)])
  qed
  then show ?thesis by (simp add: time_String_def transparent_pieces)
qed

lemma json_string_transparent: "transparent u \<Longrightarrow> json_string ([CHR 0x22] @ u @ [CHR 0x22]) = Some u"
  by (simp add: json_string_def json_space_def transparent_def)

lemma ParseInt_quoted: "ParseInt (CHR 0x22 # s) = None"
  by (simp add: ParseInt_def is_digit_def)

section \<open>Properties\<close>

text \<open>
  A duration written as JSON and read again is the same, for every value of 64 bits, whatever was stored
  before.
\<close>

theorem Duration_json_roundtrip:
  assumes "- (2 ^ 63) \<le> d" and "d < 2 ^ 63"
  shows "UnmarshalJSON old (MarshalJSON d) = (d, True)"
  using json_string_transparent [OF transparent_duration [of d]]
  by (simp add: UnmarshalJSON_def MarshalJSON_def ParseInt_quoted ParseDuration_String [OF assms])

theorem Duration_json_roundtrip_witness: "UnmarshalJSON 7 (MarshalJSON 1500) = (1500, True)"
  by (rule Duration_json_roundtrip) simp_all

text \<open>
  Digits without a unit are seconds in a text and as a JSON number, but an error as a JSON string, except
  for zero; such an error sets the duration to zero, while a text that is no JSON string leaves it.
\<close>

theorem json_digits:
  assumes "n < 2 ^ 63" and "n \<noteq> 0"
  shows "UnmarshalText (decimal n) = (int64 (int n * 1000000000), True)
    \<and> UnmarshalJSON old (decimal n) = UnmarshalText (decimal n)
    \<and> UnmarshalJSON old ([CHR 0x22] @ decimal n @ [CHR 0x22]) = (0, False)
    \<and> UnmarshalJSON old ''0x'' = (old, False)"
proof -
  have start: "hd (decimal n) \<noteq> CHR ''-''" "hd (decimal n) \<noteq> CHR ''+''"
    using decimal_start [of n "[]"] by (auto simp: is_digit_def)
  have rest: "takeWhile is_digit (decimal n) = decimal n" "dropWhile is_digit (decimal n) = []"
    using decimal_digits [of n] by (auto simp: list_all_iff)
  have "decimal n \<noteq> ''0''"
  proof
    assume "decimal n = ''0''"
    with decimal_val [of n] have "nat_val ''0'' = n" by simp
    with assms(2) show False by (simp add: nat_val_def read_base_def digit_val_def)
  qed
  moreover have "parse_units 0 (decimal n) = None"
    using decimal_nonempty [of n]
    by (subst parse_units.simps) (simp add: Let_def rest fraction_part_def unitMap_def micro_def split: prod.split)
  ultimately have "ParseDuration (decimal n) = None"
    using start decimal_nonempty [of n] by (simp add: ParseDuration_def Let_def)
  moreover have "json_string ([CHR 0x22] @ decimal n @ [CHR 0x22]) = Some (decimal n)"
    by (rule json_string_transparent [OF transparent_decimal])
  moreover have "ParseInt (decimal n) = Some (int n)" using assms(1) by (simp add: seconds_text max63_def)
  moreover have "ParseInt ''0x'' = None" "json_string ''0x'' = None"
    by (simp_all add: ParseInt_def is_digit_def json_string_def json_space_def)
  ultimately show ?thesis
    by (simp add: UnmarshalText_def Duration_Set_def UnmarshalJSON_def ParseInt_quoted)
qed

theorem json_digits_witness:
  "UnmarshalText (decimal 30) = (30000000000, True) \<and> UnmarshalJSON 5 ([CHR 0x22] @ decimal 30 @ [CHR 0x22]) = (0, False)"
  using json_digits [of 30 5] by (simp add: int64_id)

section \<open>The second package\<close>

text \<open>The two packages have the same code; these are the methods of the other type.\<close>

definition tcp_Duration_Set :: "string \<Rightarrow> int \<times> bool" where "tcp_Duration_Set = Duration_Set"
definition tcp_Duration_String :: "int \<Rightarrow> string" where "tcp_Duration_String = Duration_String"
definition tcp_MarshalText :: "int \<Rightarrow> string" where "tcp_MarshalText = MarshalText"
definition tcp_UnmarshalText :: "string \<Rightarrow> int \<times> bool" where "tcp_UnmarshalText = UnmarshalText"
definition types_MarshalJSON :: "int \<Rightarrow> string" where "types_MarshalJSON = MarshalJSON"
definition types_UnmarshalJSON :: "int \<Rightarrow> string \<Rightarrow> int \<times> bool" where "types_UnmarshalJSON = UnmarshalJSON"

end
