(* ===== verification/FileHandle.thy ===== *)
theory FileHandle
  imports LockedFile "HOL-Library.Sublist"
begin

text \<open>
  The life of one \<^verbatim>\<open>lockedfile.File\<close> (\<^verbatim>\<open>linux/lockedfile/lockedfile.go\<close>): opening with a lock and a finalizer,
  closing, and \<^verbatim>\<open>Write\<close> from a reader.  The other processes are in \<^verbatim>\<open>LockedFile\<close>; here every answer of the
  operating system is an argument, and a call that never returns is \<open>None\<close>.
\<close>

section \<open>Opening and closing\<close>

datatype fd = NoFd | FdLocked | FdClosed

text \<open>
  \<open>oo_stat\<close>: whether the file is regular, \<open>None\<close> when \<^verbatim>\<open>Stat\<close> fails.  A descriptor is gone after \<^verbatim>\<open>close\<close>
  whatever that answers, and the lock with it.
\<close>

record os_open =
  oo_open :: "os_error option"
  oo_flock :: "errno option list"
  oo_truncate :: "os_error option"
  oo_stat :: "bool option"
  oo_unlock :: "errno option list"
  oo_close :: "os_error option"

definition openFile :: "os_open \<Rightarrow> string \<Rightarrow> open_flag \<Rightarrow> string \<Rightarrow> ((os_error + unit) \<times> fd \<times> string) option" where
  "openFile ans name flag data =
     (case oo_open ans of
        Some e \<Rightarrow> Some (Inl e, NoFd, data)
      | None \<Rightarrow>
          (case (if lock_type_of flag = writeLock then Lock (oo_flock ans) name else RLock (oo_flock ans) name) of
             None \<Rightarrow> None
           | Some (Some e) \<Rightarrow> Some (Inl e, FdClosed, data)
           | Some None \<Rightarrow>
               if wants_trunc flag
               then (case oo_truncate ans of
                       None \<Rightarrow> Some (Inr (), FdLocked, [])
                     | Some e \<Rightarrow> if oo_stat ans = None \<or> oo_stat ans = Some True
                                then Some (Inl e, FdClosed, data) else Some (Inr (), FdLocked, data))
               else Some (Inr (), FdLocked, data)))"

definition closeFile :: "os_open \<Rightarrow> string \<Rightarrow> (os_error option \<times> fd) option" where
  "closeFile ans name =
     (case Unlock (oo_unlock ans) name of
        None \<Rightarrow> None
      | Some (Some e) \<Rightarrow> Some (Some e, FdLocked)
      | Some None \<Rightarrow> Some (oo_close ans, FdClosed))"

record handle =
  hd_name :: string
  hd_fd :: fd
  hd_closed :: bool
  hd_finalizer :: bool

definition OpenFile :: "os_open \<Rightarrow> string \<Rightarrow> open_flag \<Rightarrow> string \<Rightarrow> ((os_error + handle) \<times> string) option" where
  "OpenFile ans name flag data =
     (case openFile ans name flag data of
        None \<Rightarrow> None
      | Some (Inl e, fd, s) \<Rightarrow> Some (Inl e, s)
      | Some (Inr u, fd, s) \<Rightarrow> Some (Inr \<lparr>hd_name = name, hd_fd = fd, hd_closed = False, hd_finalizer = True\<rparr>, s))"

lemma OpenFile_ok:
  assumes "OpenFile ans name flag data = Some (Inr f, s)"
  shows "f = \<lparr>hd_name = name, hd_fd = FdLocked, hd_closed = False, hd_finalizer = True\<rparr>"
proof -
  have locked: "fd = FdLocked" if "openFile ans name flag data = Some (Inr u, fd, s)" for u fd s
    using that by (auto simp: openFile_def split: option.splits if_splits)
  show ?thesis
  proof (cases "openFile ans name flag data")
    case (Some x)
    obtain r fd t where x: "x = (r, fd, t)" by (cases x) auto
    show ?thesis using assms Some x locked by (cases r) (auto simp: OpenFile_def)
  qed (use assms in \<open>simp add: OpenFile_def\<close>)
qed

definition ErrClosed :: os_error where "ErrClosed = OtherErr ''file already closed''"

definition Close :: "os_open \<Rightarrow> handle \<Rightarrow> (os_error option \<times> handle) option" where
  "Close ans f =
     (if hd_closed f then Some (Some (PathError ''close'' (hd_name f) ErrClosed), f)
      else (case closeFile ans (hd_name f) of
              None \<Rightarrow> None
            | Some (err, fd) \<Rightarrow> Some (err, f\<lparr>hd_closed := True, hd_fd := fd, hd_finalizer := False\<rparr>)))"

text \<open>The collector finds a file unreachable.\<close>

definition collect :: "handle \<Rightarrow> unit go" where
  "collect f =
     (if hd_finalizer f
      then Inl (PanicMsg (''lockedfile.File '' @ hd_name f @ '' became unreachable without a call to Close'')) else Inr ())"

fun close_times :: "os_open list \<Rightarrow> handle \<Rightarrow> (os_error option list \<times> handle) option" where
  "close_times [] f = Some ([], f)"
| "close_times (ans # anss) f =
     (case Close ans f of
        None \<Rightarrow> None
      | Some (e, f1) \<Rightarrow> map_option (\<lambda>(es, f2). (e # es, f2)) (close_times anss f1))"

lemma close_again:
  "hd_closed f \<Longrightarrow> close_times anss f = Some (map (\<lambda>_. Some (PathError ''close'' (hd_name f) ErrClosed)) anss, f)"
  by (induction anss) (simp_all add: Close_def)

text \<open>
  The first \<^verbatim>\<open>Close\<close> of an opened file answers what unlocking and closing answer, every later one an error;
  the file may then be collected without a panic, and before the first one not.  When unlocking fails the
  descriptor is not closed, by no later \<^verbatim>\<open>Close\<close> either.
\<close>

theorem handle_closes_once:
  assumes "OpenFile opening name flag data = Some (Inr f, s)" and "Unlock (oo_unlock ans) name = Some r"
  shows "\<exists>f'. close_times (ans # later) f
      = Some ((if r = None then oo_close ans else r) # map (\<lambda>_. Some (PathError ''close'' name ErrClosed)) later, f')
    \<and> (collect f \<noteq> Inr ()) \<and> collect f' = Inr () \<and> hd_fd f = FdLocked \<and> hd_fd f' = (if r = None then FdClosed else FdLocked)"
proof -
  note f = OpenFile_ok [OF assms(1)]
  show ?thesis
    using assms(2) by (cases r) (simp_all add: f Close_def closeFile_def close_again collect_def)
qed

section \<open>Write\<close>

text \<open>A read of the content answers bytes and how it ended; it comes with the answer of writing these bytes.\<close>

datatype read_end = More | AtEOF | Broken os_error

type_synonym reads = "(string \<times> (nat \<times> os_error) option \<times> read_end) list"

fun copy_all :: "reads \<Rightarrow> nat \<Rightarrow> string \<Rightarrow> (os_error option \<times> string) option" where
  "copy_all [] off s = None"
| "copy_all ((chunk, answer, fin) # reads) off s =
     (case (if chunk = [] then None else answer) of
        Some (k, e) \<Rightarrow> Some (Some e, write_at off (take k chunk) s)
      | None \<Rightarrow>
          let s1 = write_at off chunk s in
          (case fin of
             More \<Rightarrow> copy_all reads (off + length chunk) s1
           | AtEOF \<Rightarrow> Some (None, s1)
           | Broken e \<Rightarrow> Some (Some e, s1)))"

fun content :: "reads \<Rightarrow> string" where
  "content [] = []"
| "content ((chunk, answer, fin) # reads) = chunk @ (if fin = More then content reads else [])"

fun read_result :: "reads \<Rightarrow> read_end" where
  "read_result [] = More"
| "read_result ((chunk, answer, fin) # reads) = (if fin = More then read_result reads else fin)"

definition Write :: "os_open \<Rightarrow> reads \<Rightarrow> string \<Rightarrow> string \<Rightarrow> (os_error option \<times> string) option" where
  "Write ans reads name data =
     (case OpenFile ans name Write_flags data of
        None \<Rightarrow> None
      | Some (Inl e, s) \<Rightarrow> Some (Some e, s)
      | Some (Inr f, s) \<Rightarrow>
          (case copy_all reads 0 s of
             None \<Rightarrow> None
           | Some (err, s1) \<Rightarrow>
               (case Close ans f of
                  None \<Rightarrow> None
                | Some (closeErr, f') \<Rightarrow> Some (if err = None then closeErr else err, s1))))"

lemma copy_all_content:
  "read_result reads \<noteq> More \<Longrightarrow>
   \<exists>err s'. copy_all reads (length s) s = Some (err, s')
     \<and> (if err = None then s' = s @ content reads \<and> read_result reads = AtEOF else prefix s' (s @ content reads))"
proof (induction reads arbitrary: s)
  case (Cons r reads)
  obtain chunk answer fin where r: "r = (chunk, answer, fin)" by (cases r) auto
  show ?case
  proof (cases "if chunk = [] then None else answer")
    case (Some p)
    then show ?thesis
      using r by (auto simp: write_at_end take_is_prefix split: prod.split if_splits intro!: prefix_prefix)
  next
    case None
    show ?thesis
    proof (cases fin)
      case More
      with r Cons.prems have "read_result reads \<noteq> More" by simp
      from Cons.IH [OF this, of "s @ chunk"] obtain err s' where
        "copy_all reads (length (s @ chunk)) (s @ chunk) = Some (err, s')"
        "if err = None then s' = (s @ chunk) @ content reads \<and> read_result reads = AtEOF else prefix s' ((s @ chunk) @ content reads)"
        by blast
      with None r More show ?thesis by (intro exI [of _ err] exI [of _ s']) (cases err; simp add: write_at_end)
    qed (use None r in \<open>simp_all add: write_at_end\<close>)
  qed
qed simp

text \<open>
  When the lock is granted at last, the content comes to an end and unlocking answers, \<^verbatim>\<open>Write\<close> returns.  If it
  reports no error, the content was read to its end and the file holds exactly that; if it does, the file
  is as before or holds only the beginning of the content: the old content may be lost.
\<close>

theorem Write_correct:
  assumes "\<exists>a\<in>set (oo_flock ans). a \<noteq> Some EINTR" and "\<exists>a\<in>set (oo_unlock ans). a \<noteq> Some EINTR"
    and "read_result reads \<noteq> More" and "oo_stat ans \<noteq> Some False"
  shows "\<exists>err s. Write ans reads name data = Some (err, s)
    \<and> (if err = None then s = content reads \<and> read_result reads = AtEOF else s = data \<or> prefix s (content reads))"
proof -
  obtain r where l: "flock_retry (oo_flock ans) = Some r" using flock_retry_returns [OF assms(1)] by blast
  obtain u where u: "flock_retry (oo_unlock ans) = Some u" using flock_retry_returns [OF assms(2)] by blast
  obtain err s where c: "copy_all reads 0 [] = Some (err, s)"
    "if err = None then s = content reads \<and> read_result reads = AtEOF else prefix s (content reads)"
    using copy_all_content [OF assms(3), of "[]"] by (metis append_Nil list.size(3))
  have closes: "\<exists>e f'. Close ans \<lparr>hd_name = name, hd_fd = FdLocked, hd_closed = False, hd_finalizer = True\<rparr> = Some (e, f')"
    using u by (cases u) (simp_all add: Close_def closeFile_def Unlock_def unlock_def lock_def)
  show ?thesis
  proof (cases "OpenFile ans name Write_flags data")
    case None
    with l show ?thesis
      by (auto simp: OpenFile_def openFile_def flag_locks Lock_def lock_def split: option.splits if_splits)
  next
    case (Some x)
    then obtain r' s' where x: "OpenFile ans name Write_flags data = Some (r', s')" by (cases x) auto
    show ?thesis
    proof (cases r')
      case (Inl e)
      have "s' = data"
        using x Inl by (auto simp: OpenFile_def openFile_def flag_locks split: option.splits if_splits)
      with x Inl show ?thesis by (simp add: Write_def)
    next
      case (Inr f)
      have "s' = []"
        using x Inr assms(4) by (auto simp: OpenFile_def openFile_def flag_locks split: option.splits if_splits)
      moreover from OpenFile_ok x Inr have "f = \<lparr>hd_name = name, hd_fd = FdLocked, hd_closed = False, hd_finalizer = True\<rparr>" by blast
      ultimately show ?thesis using x Inr closes c by (auto simp: Write_def split: if_splits)
    qed
  qed
qed

definition wit_answers :: os_open where
  "wit_answers = \<lparr>oo_open = None, oo_flock = [Some EINTR, None], oo_truncate = None, oo_stat = Some True,
     oo_unlock = [None], oo_close = None\<rparr>"

theorem Write_correct_witness:
  "\<exists>err s. Write wit_answers [(''ab'', None, More), (''c'', None, AtEOF)] ''f'' ''old'' = Some (err, s)
    \<and> (if err = None then s = ''abc'' else s = ''old'' \<or> prefix s ''abc'')"
proof -
  have "\<exists>a\<in>set (oo_flock wit_answers). a \<noteq> Some EINTR" "\<exists>a\<in>set (oo_unlock wit_answers). a \<noteq> Some EINTR"
    "read_result [(''ab'', None, More), (''c'', None, AtEOF)] \<noteq> More" "oo_stat wit_answers \<noteq> Some False"
    by (simp_all add: wit_answers_def)
  from Write_correct [OF this, of "''f''" "''old''"] obtain err s where
    "Write wit_answers [(''ab'', None, More), (''c'', None, AtEOF)] ''f'' ''old'' = Some (err, s)"
    "if err = None then s = content [(''ab'', None, More), (''c'', None, AtEOF)] \<and> read_result [(''ab'', None, More), (''c'', None, AtEOF)] = AtEOF
     else s = ''old'' \<or> prefix s (content [(''ab'', None, More), (''c'', None, AtEOF)])" by blast
  then show ?thesis by (intro exI [of _ err] exI [of _ s]) (cases err; simp)
qed

theorem handle_closes_once_witness:
  "\<exists>f f'. OpenFile wit_answers ''f'' Edit_flags ''old'' = Some (Inr f, ''old'')
    \<and> close_times [wit_answers, wit_answers] f = Some ([None, Some (PathError ''close'' ''f'' ErrClosed)], f')"
proof -
  let ?f = "\<lparr>hd_name = ''f'', hd_fd = FdLocked, hd_closed = False, hd_finalizer = True\<rparr>"
  have opened: "OpenFile wit_answers ''f'' Edit_flags ''old'' = Some (Inr ?f, ''old'')"
    by (simp add: OpenFile_def openFile_def flag_locks wit_answers_def Lock_def lock_def EINTR_def)
  moreover have "Unlock (oo_unlock wit_answers) ''f'' = Some None" by (simp add: wit_answers_def Unlock_def unlock_def lock_def)
  from handle_closes_once [OF opened this, of "[wit_answers]"]
  obtain f' where "close_times [wit_answers, wit_answers] ?f = Some ([None, Some (PathError ''close'' ''f'' ErrClosed)], f')"
    by (auto simp: wit_answers_def)
  ultimately show ?thesis by blast
qed

end
