(* ===== verification/TunnelAgent.thy ===== *)
theory TunnelAgent
  imports Tunnel "HOL-Library.Multiset"
begin

text \<open>
  The agent of the HTTP-over-gRPC tunnel as a whole (\<^verbatim>\<open>net/grpc/cmd/client/client.go\<close>): its receive loop starts a
  goroutine for every request, and these answer on the stream at any time and in any order.  \<open>handle k\<close> is
  the response \<^verbatim>\<open>handleRequest\<close> computes for the request received as number \<open>k\<close>.
\<close>

section \<open>The agent\<close>

datatype job = Working TunnelRequest | Sending TunnelResponse | Sent TunnelResponse | Lost TunnelResponse

record TunnelClient =
  ag_inbox :: "TunnelRequest list"
  ag_over :: bool
  ag_loop :: bool
  ag_jobs :: "job list"
  ag_stream :: "TunnelResponse list"

text \<open>The stream is given the requests that will arrive on it; \<^verbatim>\<open>respChan\<close> and \<^verbatim>\<open>mu\<close> are not used.\<close>

definition StartAgent :: "TunnelRequest list \<Rightarrow> TunnelClient" where
  "StartAgent reqs = \<lparr>ag_inbox = reqs, ag_over = False, ag_loop = True, ag_jobs = [], ag_stream = []\<rparr>"

definition set_job :: "nat \<Rightarrow> job \<Rightarrow> TunnelClient \<Rightarrow> TunnelClient" where
  "set_job k j a = a\<lparr>ag_jobs := (ag_jobs a)[k := j]\<rparr>"

inductive agent_step :: "(nat \<Rightarrow> TunnelRequest \<Rightarrow> TunnelResponse) \<Rightarrow> TunnelClient \<Rightarrow> TunnelClient \<Rightarrow> bool" for handle where
  receives: "ag_loop a \<Longrightarrow> ag_inbox a = req # reqs \<Longrightarrow>
    agent_step handle a (a\<lparr>ag_inbox := reqs, ag_jobs := ag_jobs a @ [Working req]\<rparr>)"
| loop_ends: "ag_loop a \<Longrightarrow> ag_over a \<or> ag_inbox a = [] \<Longrightarrow> agent_step handle a (a\<lparr>ag_loop := False\<rparr>)"
| computes: "k < length (ag_jobs a) \<Longrightarrow> ag_jobs a ! k = Working req \<Longrightarrow>
    agent_step handle a (set_job k (Sending (handle k req)) a)"
| sends: "k < length (ag_jobs a) \<Longrightarrow> ag_jobs a ! k = Sending resp \<Longrightarrow> \<not> ag_over a \<Longrightarrow>
    agent_step handle a ((set_job k (Sent resp) a)\<lparr>ag_stream := ag_stream a @ [resp]\<rparr>)"
| send_fails: "k < length (ag_jobs a) \<Longrightarrow> ag_jobs a ! k = Sending resp \<Longrightarrow> ag_over a \<Longrightarrow>
    agent_step handle a (set_job k (Lost resp) a)"

text \<open>Runs, in which the stream may break.\<close>

inductive agent_reach :: "(nat \<Rightarrow> TunnelRequest \<Rightarrow> TunnelResponse) \<Rightarrow> TunnelRequest list \<Rightarrow> TunnelClient \<Rightarrow> bool"
  for handle reqs where
  start: "agent_reach handle reqs (StartAgent reqs)"
| step: "agent_reach handle reqs a \<Longrightarrow> agent_step handle a a' \<Longrightarrow> agent_reach handle reqs a'"
| breaks: "agent_reach handle reqs a \<Longrightarrow> agent_reach handle reqs (a\<lparr>ag_over := True\<rparr>)"

text \<open>The health check knows nothing of the stream.\<close>

definition agent_ServeHTTP :: "TunnelClient \<Rightarrow> nat \<times> string" where
  "agent_ServeHTTP a = (200, ''agent running'')"

section \<open>Invariant\<close>

text \<open>What a goroutine has sent, and how much it has left to do.\<close>

fun sent_of :: "job \<Rightarrow> TunnelResponse multiset" where
  "sent_of (Sent p) = {#p#}"
| "sent_of _ = {#}"

fun job_work :: "job \<Rightarrow> nat" where
  "job_work (Working r) = 2"
| "job_work (Sending p) = 1"
| "job_work _ = 0"

fun job_ok :: "(nat \<Rightarrow> TunnelRequest \<Rightarrow> TunnelResponse) \<Rightarrow> bool \<Rightarrow> nat \<Rightarrow> TunnelRequest \<Rightarrow> job \<Rightarrow> bool" where
  "job_ok handle over k req (Working r) \<longleftrightarrow> r = req"
| "job_ok handle over k req (Sending p) \<longleftrightarrow> p = handle k req"
| "job_ok handle over k req (Sent p) \<longleftrightarrow> p = handle k req"
| "job_ok handle over k req (Lost p) \<longleftrightarrow> p = handle k req \<and> over"

definition agent_inv :: "(nat \<Rightarrow> TunnelRequest \<Rightarrow> TunnelResponse) \<Rightarrow> TunnelRequest list \<Rightarrow> TunnelClient \<Rightarrow> bool" where
  "agent_inv handle reqs a \<longleftrightarrow>
     length (ag_jobs a) \<le> length reqs \<and> ag_inbox a = drop (length (ag_jobs a)) reqs
   \<and> (\<forall>k < length (ag_jobs a). job_ok handle (ag_over a) k (reqs ! k) (ag_jobs a ! k))
   \<and> mset (ag_stream a) = sum_list (map sent_of (ag_jobs a))
   \<and> (ag_loop a \<or> ag_over a \<or> ag_inbox a = [])"

definition agent_work :: "TunnelClient \<Rightarrow> nat" where
  "agent_work a = 3 * length (ag_inbox a) + sum_list (map job_work (ag_jobs a)) + (if ag_loop a then 1 else 0)"

lemma sum_list_update_job:
  fixes f :: "job \<Rightarrow> 'm :: comm_monoid_add"
  shows "k < length js \<Longrightarrow> sum_list (map f (js[k := j])) + f (js ! k) = sum_list (map f js) + f j"
proof (induction js arbitrary: k)
  case (Cons x js)
  then show ?case by (cases k) (auto simp: ac_simps)
qed simp

lemma sent_update: "k < length js \<Longrightarrow> sent_of (js ! k) = {#} \<Longrightarrow> sum_list (map sent_of (js[k := j])) = sum_list (map sent_of js) + sent_of j"
  using sum_list_update_job [of k js sent_of j] by simp

lemma agent_inv_start: "agent_inv handle reqs (StartAgent reqs)"
  by (simp add: agent_inv_def StartAgent_def)

lemma job_ok_over: "job_ok handle over k req j \<Longrightarrow> job_ok handle True k req j"
  by (cases j) auto

lemma agent_inv_step: "agent_step handle a a' \<Longrightarrow> agent_inv handle reqs a \<Longrightarrow> agent_inv handle reqs a'"
proof (induction rule: agent_step.induct)
  case (receives a req rest)
  let ?n = "length (ag_jobs a)"
  from receives have d: "drop ?n reqs = req # rest" and n: "?n \<le> length reqs" by (auto simp: agent_inv_def)
  then have "?n < length reqs" by (metis drop_all leI list.distinct(1))
  with d have "reqs ! ?n = req" "rest = drop (Suc ?n) reqs" by (simp_all add: Cons_nth_drop_Suc [symmetric])
  with \<open>?n < length reqs\<close> receives show ?case by (auto simp: agent_inv_def nth_append less_Suc_eq)
next
  case (computes a k req)
  then show ?case by (auto simp: agent_inv_def set_job_def sent_update nth_list_update)
next
  case (sends a k resp)
  then show ?case by (auto simp: agent_inv_def set_job_def sent_update nth_list_update)
next
  case (send_fails a k resp)
  then show ?case by (auto simp: agent_inv_def set_job_def sent_update nth_list_update)
qed (auto simp: agent_inv_def)

lemma agent_reach_inv: "agent_reach handle reqs a \<Longrightarrow> agent_inv handle reqs a"
proof (induction rule: agent_reach.induct)
  case (breaks a)
  then show ?case by (auto simp: agent_inv_def intro: job_ok_over)
qed (auto intro: agent_inv_start agent_inv_step)

lemma work_update: "k < length js \<Longrightarrow> job_work j < job_work (js ! k) \<Longrightarrow>
   sum_list (map job_work (js[k := j])) < sum_list (map job_work js)"
  using sum_list_update_job [of k js job_work j] by linarith

lemma agent_descends: "agent_step handle a a' \<Longrightarrow> agent_work a' < agent_work a"
  by (induction rule: agent_step.induct) (auto simp: agent_work_def set_job_def intro: work_update)

lemma agent_stuck:
  assumes "\<nexists>a'. agent_step handle a a'"
  shows "\<not> ag_loop a" "\<forall>j\<in>set (ag_jobs a). \<exists>p. j = Sent p \<or> j = Lost p"
proof -
  show "\<not> ag_loop a"
    using assms agent_step.receives [of a] agent_step.loop_ends [of a] by (cases "ag_inbox a") auto
  show "\<forall>j\<in>set (ag_jobs a). \<exists>p. j = Sent p \<or> j = Lost p"
  proof
    fix j
    assume "j \<in> set (ag_jobs a)"
    then obtain k where k: "k < length (ag_jobs a)" "ag_jobs a ! k = j" by (auto simp: in_set_conv_nth)
    then show "\<exists>p. j = Sent p \<or> j = Lost p"
      using assms agent_step.computes [of k a] agent_step.sends [of k a] agent_step.send_fails [of k a]
      by (cases j) (auto, metis)
  qed
qed

lemma sum_singletons:
  "(\<And>k. k < length js \<Longrightarrow> sent_of (js ! k) \<subseteq># {#g k#}) \<Longrightarrow> sum_list (map sent_of js) \<subseteq># mset (map g [0..<length js])"
  "(\<And>k. k < length js \<Longrightarrow> sent_of (js ! k) = {#g k#}) \<Longrightarrow> sum_list (map sent_of js) = mset (map g [0..<length js])"
proof (induction js rule: rev_induct)
  case (snoc j js)
  {
    case 1
    from 1 [of "length js"] have "sent_of j \<subseteq># {#g (length js)#}" by simp
    moreover have "sum_list (map sent_of js) \<subseteq># mset (map g [0..<length js])"
    proof (rule snoc.IH(1))
      show "sent_of (js ! k) \<subseteq># {#g k#}" if "k < length js" for k using 1 [of k] that by (simp add: nth_append)
    qed
    ultimately have "sum_list (map sent_of js) + sent_of j \<subseteq># mset (map g [0..<length js]) + {#g (length js)#}"
      by (intro subset_mset.add_mono)
    then show ?case by simp
  next
    case 2
    from 2 [of "length js"] have "sent_of j = {#g (length js)#}" by simp
    moreover have "sum_list (map sent_of js) = mset (map g [0..<length js])"
    proof (rule snoc.IH(2))
      show "sent_of (js ! k) = {#g k#}" if "k < length js" for k using 2 [of k] that by (simp add: nth_append)
    qed
    ultimately show ?case by simp
  }
qed simp_all

section \<open>Properties\<close>


text \<open>An agent that has answered two requests in the other order.\<close>

definition wit_req :: "string \<Rightarrow> TunnelRequest" where
  "wit_req i = \<lparr>tq_Id = i, tq_Method = ''GET'', tq_Url = ''http://local/'', tq_Headers = Map.empty, tq_Body = []\<rparr>"

definition wit_handle :: "nat \<Rightarrow> TunnelRequest \<Rightarrow> TunnelResponse" where
  "wit_handle k req = sendError (tq_Id req) 502 ''refused''"

definition wit_agent :: TunnelClient where
  "wit_agent = \<lparr>ag_inbox = [], ag_over = False, ag_loop = False,
     ag_jobs = [Sent (wit_handle 0 (wit_req ''1'')), Sent (wit_handle 1 (wit_req ''2''))],
     ag_stream = [wit_handle 1 (wit_req ''2''), wit_handle 0 (wit_req ''1'')]\<rparr>"

lemma wit_agent_reach: "agent_reach wit_handle [wit_req ''1'', wit_req ''2''] wit_agent"
proof -
  let ?r = "agent_reach wit_handle [wit_req ''1'', wit_req ''2'']"
  let ?a = "\<lambda>inb loop jobs out. \<lparr>ag_inbox = inb, ag_over = False, ag_loop = loop, ag_jobs = jobs, ag_stream = out\<rparr>"
  let ?p = "wit_handle 0 (wit_req ''1'')" and ?q = "wit_handle 1 (wit_req ''2'')"
  have "?r (?a [wit_req ''1'', wit_req ''2''] True [] [])" using agent_reach.start by (simp add: StartAgent_def)
  from agent_reach.step [OF this agent_step.receives] have "?r (?a [wit_req ''2''] True [Working (wit_req ''1'')] [])" by simp
  from agent_reach.step [OF this agent_step.receives]
  have "?r (?a [] True [Working (wit_req ''1''), Working (wit_req ''2'')] [])" by simp
  from agent_reach.step [OF this agent_step.computes [of 0]]
  have "?r (?a [] True [Sending ?p, Working (wit_req ''2'')] [])" by (simp add: set_job_def)
  from agent_reach.step [OF this agent_step.computes [of 1]]
  have "?r (?a [] True [Sending ?p, Sending ?q] [])" by (simp add: set_job_def)
  from agent_reach.step [OF this agent_step.sends [of 1]]
  have "?r (?a [] True [Sending ?p, Sent ?q] [?q])" by (simp add: set_job_def)
  from agent_reach.step [OF this agent_step.sends [of 0]]
  have "?r (?a [] True [Sent ?p, Sent ?q] [?q, ?p])" by (simp add: set_job_def)
  from agent_reach.step [OF this agent_step.loop_ends] show ?thesis by (simp add: wit_agent_def)
qed


text \<open>
  What the HTTP client gets through the tunnel is the status and the body of the local service, but of every
  header only the first value; the request loses the other values in the same way.
\<close>

lemma tunnel_end_to_end:
  assumes "newRequest (hr_Method r) (hr_Url r) = None"
    and "client_do (hr_Method r) (hr_Url r) (first_headers (hr_Header r)) (hr_Body r) = Inr resp"
    and "100 \<le> hs_StatusCode resp" and "hs_StatusCode resp \<le> 999"
  shows "write_response (handleRequest newRequest client_do (mk_TunnelRequest i r))
    = Inr (resp\<lparr>hs_Header := (\<lambda>k. map_option (\<lambda>v. [v]) (first_headers (hs_Header resp) k))\<rparr>)"
  using assms by (simp add: write_response_def handleRequest_def mk_TunnelRequest_def)

end
