(* ===== verification/UdpShutdown.thy ===== *)
theory UdpShutdown
  imports UdpSession
begin

text \<open>
  Opening and shutting down the UDP listener of \<^verbatim>\<open>net/proxy/udp_conn.go\<close>: \<^verbatim>\<open>ListenUDP\<close>, and \<^verbatim>\<open>Shutdown\<close> with its loop
  that polls the sessions until they are gone or the grace period is over, while the steps of \<^verbatim>\<open>UdpSession\<close>
  go on.  Times are in nanoseconds; what the clock says at each poll is an argument.
\<close>

section \<open>ListenUDP\<close>

definition proxy_ListenUDP :: "string + bool \<Rightarrow> int \<Rightarrow> int \<Rightarrow> string + UDPListener" where
  "proxy_ListenUDP packetConn timeout now =
     (if timeout \<le> 0 then Inl ''timeout should be greater than zero''
      else case packetConn of
        Inl e \<Rightarrow> Inl (''listen packet: '' @ e)
      | Inr is_udp \<Rightarrow>
          (case ListenUDPPacketConn is_udp timeout now of
             Inl e \<Rightarrow> Inl (''listen packet conn: '' @ e) | Inr l \<Rightarrow> Inr l))"

section \<open>Shutdown\<close>

definition udpCloseRetryDelay :: int where "udpCloseRetryDelay = 500000000"

definition retryInterval :: "int \<Rightarrow> int" where
  "retryInterval graceTimeout = min udpCloseRetryDelay graceTimeout"

text \<open>
  The loop from poll \<open>i\<close> on: \<open>clock i\<close> is read before the sessions are counted, which gives \<open>conns i\<close>.  It answers
  the number of the poll it leaves at.
\<close>

partial_function (option) shutdown_wait :: "(nat \<Rightarrow> int) \<Rightarrow> (nat \<Rightarrow> nat) \<Rightarrow> int \<Rightarrow> nat \<Rightarrow> nat option" where
  "shutdown_wait clock conns end_time i =
     (if clock i > end_time then Some i
      else if conns i = 0 then Some i
      else shutdown_wait clock conns end_time (Suc i))"

text \<open>
  \<open>states i\<close> is the listener at poll \<open>i\<close>, as the other goroutines have left it.  A \<^verbatim>\<open>Shutdown\<close> of a listener
  that does not accept any more returns nil and does nothing.
\<close>

definition Shutdown ::
  "(nat \<Rightarrow> int) \<Rightarrow> (nat \<Rightarrow> nat) \<Rightarrow> (nat \<Rightarrow> UDPListener) \<Rightarrow> int \<Rightarrow> int \<Rightarrow> UDPListener \<Rightarrow> UDPListener option" where
  "Shutdown clock conns states start graceTimeout l =
     (if \<not> ul_accepting l then Some l
      else map_option (\<lambda>n. listener_close (states n)) (shutdown_wait clock conns (start + graceTimeout) 0))"

definition CloseListener :: "(nat \<Rightarrow> int) \<Rightarrow> (nat \<Rightarrow> nat) \<Rightarrow> (nat \<Rightarrow> UDPListener) \<Rightarrow> int \<Rightarrow> UDPListener \<Rightarrow> UDPListener option" where
  "CloseListener clock conns states start l = Shutdown clock conns states start 0 l"

text \<open>The clock goes on, and between two polls at least by the time slept.\<close>

definition clock_runs :: "int \<Rightarrow> int \<Rightarrow> (nat \<Rightarrow> int) \<Rightarrow> bool" where
  "clock_runs start graceTimeout clock \<longleftrightarrow>
     start \<le> clock 0 \<and> (\<forall>i. clock i + max 1 (retryInterval graceTimeout) \<le> clock (Suc i))"

lemma clock_at:
  assumes "clock_runs start grace clock"
  shows "start + int i * max 1 (retryInterval grace) \<le> clock i"
proof (induction i)
  case (Suc i)
  moreover have "clock i + max 1 (retryInterval grace) \<le> clock (Suc i)" using assms by (simp add: clock_runs_def)
  ultimately show ?case by (simp add: distrib_right)
qed (use assms in \<open>simp add: clock_runs_def\<close>)

lemma wait_from:
  assumes "clock m > end_time" and "i \<le> m"
  shows "\<exists>n. shutdown_wait clock conns end_time i = Some n \<and> i \<le> n \<and> n \<le> m
    \<and> (end_time < clock n \<or> conns n = 0) \<and> (\<forall>k. i \<le> k \<and> k < n \<longrightarrow> clock k \<le> end_time \<and> conns k \<noteq> 0)"
  using assms(2)
proof (induction "m - i" arbitrary: i)
  case 0
  then have "i = m" by simp
  with assms(1) show ?case by (subst shutdown_wait.simps) simp
next
  case (Suc d)
  show ?case
  proof (cases "clock i > end_time \<or> conns i = 0")
    case True
    with Suc.prems show ?thesis by (subst shutdown_wait.simps) auto
  next
    case False
    from Suc have "d = m - Suc i" "Suc i \<le> m" by auto
    from Suc.hyps(1) [OF this] obtain n where n: "shutdown_wait clock conns end_time (Suc i) = Some n" "Suc i \<le> n" "n \<le> m"
      "end_time < clock n \<or> conns n = 0" "\<forall>k. Suc i \<le> k \<and> k < n \<longrightarrow> clock k \<le> end_time \<and> conns k \<noteq> 0" by blast
    have "shutdown_wait clock conns end_time i = Some n" using False n(1) by (subst shutdown_wait.simps) auto
    moreover have "\<forall>k. i \<le> k \<and> k < n \<longrightarrow> clock k \<le> end_time \<and> conns k \<noteq> 0"
      using n(5) False by (metis Suc_leI le_neq_implies_less not_less)
    ultimately show ?thesis using n(2-4) by auto
  qed
qed


definition wit_listener :: UDPListener where
  "wit_listener = \<lparr>ul_accepting = True, ul_closed = False, ul_conns = [''a'' \<mapsto> 0], ul_sessions = [], ul_loop = Reading,
     ul_timeout = 1, ul_now = 0, ul_packets = [], ul_delivered = []\<rparr>"


text \<open>\<^verbatim>\<open>ListenUDP\<close> refuses what \<^verbatim>\<open>ListenUDPPacketConn\<close> refuses, and an address it cannot listen at.\<close>

lemma ListenUDP_result:
  "proxy_ListenUDP (Inr True) timeout now
     = (if timeout \<le> 0 then Inl ''timeout should be greater than zero''
        else Inr (projr (ListenUDPPacketConn True timeout now)))"
  by (simp add: proxy_ListenUDP_def ListenUDPPacketConn_def)

end
