(* ===== verification/LogSetup.thy ===== *)
theory LogSetup
  imports Prelude
begin

text \<open>
  The set-up of the loggers: the options and the zap logger of \<^verbatim>\<open>utils/log.go\<close>, the wrapper that gives a
  third party its logging function (\<^verbatim>\<open>logger/wrapper_logger.go\<close>, \<^verbatim>\<open>logger/3rd/3rd.go\<close>) and \<^verbatim>\<open>utils/version.go\<close>.  zap
  and lumberjack are arguments: what a core does, and what the sugared logger does at a level.
\<close>

section \<open>utils/log.go\<close>

record lumberjack_Logger =
  lj_Filename :: string
  lj_MaxSize :: int
  lj_MaxAge :: int
  lj_MaxBackups :: int
  lj_Compress :: bool

record LogConfig =
  lg_lumberjackLogger :: lumberjack_Logger
  lg_level :: int
  lg_levelKey :: string
  lg_consoleWriter :: bool

text \<open>An option is a function on the configuration.\<close>

type_synonym log_option = "LogConfig \<Rightarrow> LogConfig"

definition SetLogFilename :: "string \<Rightarrow> log_option" where
  "SetLogFilename filename c = c\<lparr>lg_lumberjackLogger := (lg_lumberjackLogger c)\<lparr>lj_Filename := filename\<rparr>\<rparr>"

definition SetLogMaxSize :: "int \<Rightarrow> log_option" where
  "SetLogMaxSize maxSize c = c\<lparr>lg_lumberjackLogger := (lg_lumberjackLogger c)\<lparr>lj_MaxSize := maxSize\<rparr>\<rparr>"

definition SetLogMaxAge :: "int \<Rightarrow> log_option" where
  "SetLogMaxAge maxAge c = c\<lparr>lg_lumberjackLogger := (lg_lumberjackLogger c)\<lparr>lj_MaxAge := maxAge\<rparr>\<rparr>"

definition SetLogMaxBackups :: "int \<Rightarrow> log_option" where
  "SetLogMaxBackups maxBackups c = c\<lparr>lg_lumberjackLogger := (lg_lumberjackLogger c)\<lparr>lj_MaxBackups := maxBackups\<rparr>\<rparr>"

definition SetLogCompress :: "bool \<Rightarrow> log_option" where
  "SetLogCompress compress c = c\<lparr>lg_lumberjackLogger := (lg_lumberjackLogger c)\<lparr>lj_Compress := compress\<rparr>\<rparr>"

definition SetLogLevel :: "int \<Rightarrow> log_option" where
  "SetLogLevel level c = c\<lparr>lg_level := level\<rparr>"

definition SetLogLevelKey :: "string \<Rightarrow> log_option" where
  "SetLogLevelKey levelKey c = c\<lparr>lg_levelKey := levelKey\<rparr>"

definition SetConsoleWriterSyncer :: "bool \<Rightarrow> log_option" where
  "SetConsoleWriterSyncer consoleWriter c = c\<lparr>lg_consoleWriter := consoleWriter\<rparr>"

definition zero_config :: LogConfig where
  "zero_config = \<lparr>lg_lumberjackLogger = \<lparr>lj_Filename = [], lj_MaxSize = 0, lj_MaxAge = 0, lj_MaxBackups = 0, lj_Compress = False\<rparr>,
     lg_level = 0, lg_levelKey = [], lg_consoleWriter = False\<rparr>"

text \<open>Where a line goes, and a core: the fields given to it and its calls.\<close>

datatype writer = FileWriter lumberjack_Logger | Stdout

type_synonym field = "string \<times> string"

record 'core core_ops =
  co_Enabled :: "'core \<Rightarrow> int \<Rightarrow> bool"
  co_With :: "'core \<Rightarrow> field list \<Rightarrow> 'core"
  co_Check :: "'core \<Rightarrow> int \<Rightarrow> bool"

text \<open>The core of a logger is one of zap's, or one of zap's with the goroutine's id.\<close>

datatype 'core zcore = Plain 'core | GidCore 'core

text \<open>\<^verbatim>\<open>goid.Get\<close> is the argument \<open>gid\<close>.  \<^verbatim>\<open>With\<close> answers the inner core, without the wrapper.\<close>

definition gidCore_Enabled :: "'core core_ops \<Rightarrow> 'core \<Rightarrow> int \<Rightarrow> bool" where
  "gidCore_Enabled ops g lvl = co_Enabled ops g lvl"

definition gidCore_With :: "'core core_ops \<Rightarrow> string \<Rightarrow> 'core \<Rightarrow> field list \<Rightarrow> 'core zcore" where
  "gidCore_With ops gid g fs = Plain (co_With ops g (fs @ [(''gid'', gid)]))"

definition gidCore_Check :: "'core core_ops \<Rightarrow> 'core \<Rightarrow> int \<Rightarrow> bool" where
  "gidCore_Check ops g ent = co_Check ops g ent"

definition logger_With :: "'core core_ops \<Rightarrow> string \<Rightarrow> field list \<Rightarrow> 'core zcore \<Rightarrow> 'core zcore" where
  "logger_With ops gid fs c =
     (case c of Plain k \<Rightarrow> Plain (co_With ops k fs) | GidCore k \<Rightarrow> gidCore_With ops gid k fs)"

text \<open>\<open>newCore\<close> is \<^verbatim>\<open>zapcore.NewCore\<close> with the JSON encoder: the key of the level, the writers and the level.\<close>

definition CreateProductZapLogger :: "(string \<Rightarrow> writer list \<Rightarrow> int \<Rightarrow> 'core) \<Rightarrow> log_option list \<Rightarrow> 'core zcore" where
  "CreateProductZapLogger newCore op =
     (let logConfig = fold (\<lambda>opt c. opt c) op zero_config;
          fileWriteSyncer = FileWriter (lg_lumberjackLogger logConfig);
          multiWriteSyncer = (if lg_consoleWriter logConfig then [fileWriteSyncer, Stdout] else [fileWriteSyncer])
      in GidCore (newCore (lg_levelKey logConfig) multiWriteSyncer (lg_level logConfig)))"

text \<open>Options that set different things commute, and the last of those that set the same one counts.\<close>

lemmas option_defs = SetLogFilename_def SetLogMaxSize_def SetLogMaxAge_def SetLogMaxBackups_def SetLogCompress_def
  SetLogLevel_def SetLogLevelKey_def SetConsoleWriterSyncer_def

lemma options_last:
  "SetLogFilename a \<circ> SetLogFilename b = SetLogFilename a" "SetLogMaxSize i \<circ> SetLogMaxSize j = SetLogMaxSize i"
  "SetLogMaxAge i \<circ> SetLogMaxAge j = SetLogMaxAge i" "SetLogMaxBackups i \<circ> SetLogMaxBackups j = SetLogMaxBackups i"
  "SetLogCompress p \<circ> SetLogCompress q = SetLogCompress p" "SetLogLevel i \<circ> SetLogLevel j = SetLogLevel i"
  "SetLogLevelKey a \<circ> SetLogLevelKey b = SetLogLevelKey a"
  "SetConsoleWriterSyncer p \<circ> SetConsoleWriterSyncer q = SetConsoleWriterSyncer p"
  by (simp_all add: fun_eq_iff option_defs)

text \<open>The options one after the other, as setters of the six things a logger is made of.\<close>

datatype log_setting = Filename string | MaxSize int | MaxAge int | MaxBackups int | Compress bool | Level int
  | LevelKey string | ConsoleWriter bool

fun setting :: "log_setting \<Rightarrow> log_option" where
  "setting (Filename f) = SetLogFilename f"
| "setting (MaxSize i) = SetLogMaxSize i"
| "setting (MaxAge i) = SetLogMaxAge i"
| "setting (MaxBackups i) = SetLogMaxBackups i"
| "setting (Compress b) = SetLogCompress b"
| "setting (Level i) = SetLogLevel i"
| "setting (LevelKey k) = SetLogLevelKey k"
| "setting (ConsoleWriter b) = SetConsoleWriterSyncer b"

text \<open>The last value that a list of settings gives.\<close>

definition last_set :: "(log_setting \<Rightarrow> 'v option) \<Rightarrow> 'v \<Rightarrow> log_setting list \<Rightarrow> 'v" where
  "last_set sel d ss = fold (\<lambda>s v. case sel s of None \<Rightarrow> v | Some x \<Rightarrow> x) ss d"

lemma fold_setting:
  "fold (\<lambda>opt c. opt c) (map setting ss) c =
     \<lparr>lg_lumberjackLogger =
        \<lparr>lj_Filename = last_set (\<lambda>s. case s of Filename f \<Rightarrow> Some f | _ \<Rightarrow> None) (lj_Filename (lg_lumberjackLogger c)) ss,
         lj_MaxSize = last_set (\<lambda>s. case s of MaxSize i \<Rightarrow> Some i | _ \<Rightarrow> None) (lj_MaxSize (lg_lumberjackLogger c)) ss,
         lj_MaxAge = last_set (\<lambda>s. case s of MaxAge i \<Rightarrow> Some i | _ \<Rightarrow> None) (lj_MaxAge (lg_lumberjackLogger c)) ss,
         lj_MaxBackups = last_set (\<lambda>s. case s of MaxBackups i \<Rightarrow> Some i | _ \<Rightarrow> None) (lj_MaxBackups (lg_lumberjackLogger c)) ss,
         lj_Compress = last_set (\<lambda>s. case s of Compress b \<Rightarrow> Some b | _ \<Rightarrow> None) (lj_Compress (lg_lumberjackLogger c)) ss\<rparr>,
      lg_level = last_set (\<lambda>s. case s of Level i \<Rightarrow> Some i | _ \<Rightarrow> None) (lg_level c) ss,
      lg_levelKey = last_set (\<lambda>s. case s of LevelKey k \<Rightarrow> Some k | _ \<Rightarrow> None) (lg_levelKey c) ss,
      lg_consoleWriter = last_set (\<lambda>s. case s of ConsoleWriter b \<Rightarrow> Some b | _ \<Rightarrow> None) (lg_consoleWriter c) ss\<rparr>"
proof (induction ss arbitrary: c)
  case (Cons s ss)
  show ?case by (cases s) (simp_all add: Cons last_set_def option_defs)
qed (simp add: last_set_def)

text \<open>
  Every line goes to the file, and to the console exactly when the last setting of it says so.  Without a
  setting the key of the level is empty, so that the lines carry no level.
\<close>

theorem CreateProductZapLogger_settings:
  "\<exists>lj. CreateProductZapLogger newCore (map setting ss) =
     GidCore (newCore (last_set (\<lambda>s. case s of LevelKey k \<Rightarrow> Some k | _ \<Rightarrow> None) [] ss)
       (FileWriter lj # (if last_set (\<lambda>s. case s of ConsoleWriter b \<Rightarrow> Some b | _ \<Rightarrow> None) False ss then [Stdout] else []))
       (last_set (\<lambda>s. case s of Level i \<Rightarrow> Some i | _ \<Rightarrow> None) 0 ss))
   \<and> lj_Filename lj = last_set (\<lambda>s. case s of Filename f \<Rightarrow> Some f | _ \<Rightarrow> None) [] ss"
  by (intro exI [of _ "lg_lumberjackLogger (fold (\<lambda>opt c. opt c) (map setting ss) zero_config)"])
    (simp add: CreateProductZapLogger_def fold_setting zero_config_def)

text \<open>The first \<^verbatim>\<open>With\<close> adds the id of the goroutine that calls it; a further one, in any goroutine, adds none.\<close>

theorem gid_once:
  "logger_With ops gid2 fs2 (logger_With ops gid1 fs1 (GidCore k)) =
     Plain (co_With ops (co_With ops k (fs1 @ [(''gid'', gid1)])) fs2)"
  by (simp add: logger_With_def gidCore_With_def)

section \<open>logger/3rd and its wrapper\<close>

datatype rd_level = DebugLevel | InfoLevel | WarnLevel | ErrorLevel | FatalLevel | PanicLevel

fun level_index :: "rd_level \<Rightarrow> int" where
  "level_index DebugLevel = 0"
| "level_index InfoLevel = 1"
| "level_index WarnLevel = 2"
| "level_index ErrorLevel = 3"
| "level_index FatalLevel = 4"
| "level_index PanicLevel = 5"

definition MaxLevel :: int where "MaxLevel = 6"

text \<open>What a call of the sugared logger does to the program, after it has written its line.\<close>

datatype effect = Continues | Panics | Exits

type_synonym 's sugar = "rd_level \<Rightarrow> string \<Rightarrow> 's \<Rightarrow> effect \<times> 's"
type_synonym 's loggerFunc = "string \<Rightarrow> 's \<Rightarrow> effect \<times> 's"

record 's WrapperLogger =
  wr_loggers :: "'s loggerFunc option list"

definition CreateWrapperLogger :: "'s sugar \<Rightarrow> 's WrapperLogger" where
  "CreateWrapperLogger sugarLogger =
     \<lparr>wr_loggers = fold (\<lambda>l ls. ls[nat (level_index l) := Some (sugarLogger l)])
        [DebugLevel, InfoLevel, WarnLevel, ErrorLevel, PanicLevel, FatalLevel] (replicate (nat MaxLevel) None)\<rparr>"

text \<open>The package variable \<open>w\<close> is nil before the wrapper is made.\<close>

definition Logf :: "'s WrapperLogger option \<Rightarrow> int \<Rightarrow> string \<Rightarrow> 's \<Rightarrow> (effect \<times> 's) go" where
  "Logf w level msg s =
     (case w of None \<Rightarrow> Inl NilDereference
      | Some wl \<Rightarrow> bnd (slice_get (wr_loggers wl) level) (\<lambda>f. case f of None \<Rightarrow> Inl NilDereference | Some g \<Rightarrow> Inr (g msg s)))"

text \<open>A sequence of lines ends with the first call that does not return.\<close>

fun log_lines :: "(int \<Rightarrow> string \<Rightarrow> 's \<Rightarrow> (effect \<times> 's) go) \<Rightarrow> string \<Rightarrow> rd_level list \<Rightarrow> 's \<Rightarrow> (effect \<times> 's) go" where
  "log_lines logger msg [] s = Inr (Continues, s)"
| "log_lines logger msg (l # ls) s =
     bnd (logger (level_index l) msg s) (\<lambda>(e, s'). if e = Continues then log_lines logger msg ls s' else Inr (e, s'))"

definition New3rdResource :: "(int \<Rightarrow> string \<Rightarrow> 's \<Rightarrow> (effect \<times> 's) go) option \<Rightarrow> string \<Rightarrow> 's \<Rightarrow> (effect \<times> 's) go" where
  "New3rdResource logger name s =
     (case logger of None \<Rightarrow> Inl NilDereference
      | Some lf \<Rightarrow> log_lines lf (''New3rdResource: '' @ name) [InfoLevel, DebugLevel, ErrorLevel, FatalLevel, PanicLevel, WarnLevel] s)"

text \<open>The wrapper hands a line to the function of zap of the same level, and panics on any other number.\<close>

lemma Logf_at: "Logf (Some (CreateWrapperLogger sugar)) (level_index l) msg s = Inr (sugar l msg s)"
  by (cases l) (simp_all add: Logf_def CreateWrapperLogger_def slice_get_def MaxLevel_def numeral_eq_Suc)

theorem Logf_level:
  "Logf (Some (CreateWrapperLogger sugar)) i msg s =
     (if i < 0 \<or> MaxLevel \<le> i then Inl IndexOutOfRange
      else Inr (sugar ([DebugLevel, InfoLevel, WarnLevel, ErrorLevel, FatalLevel, PanicLevel] ! nat i) msg s))"
proof (cases "i < 0 \<or> MaxLevel \<le> i")
  case True
  then show ?thesis by (auto simp: Logf_def CreateWrapperLogger_def slice_get_def MaxLevel_def)
next
  case False
  then consider "i = level_index DebugLevel" | "i = level_index InfoLevel" | "i = level_index WarnLevel"
    | "i = level_index ErrorLevel" | "i = level_index FatalLevel" | "i = level_index PanicLevel"
    unfolding MaxLevel_def level_index.simps by linarith
  then show ?thesis by cases (simp_all only: Logf_at, simp_all add: MaxLevel_def numeral_eq_Suc)
qed

text \<open>
  When zap's \<^verbatim>\<open>Fatalf\<close> ends the process and the levels below continue, \<^verbatim>\<open>New3rdResource\<close> never returns: it writes
  four lines, and the lines of the levels panic and warn are never reached.
\<close>

theorem New3rdResource_exits:
  assumes "\<And>l m s. l \<in> {InfoLevel, DebugLevel, ErrorLevel} \<Longrightarrow> sugar l m s = (Continues, put l m s)"
    and "\<And>m s. sugar FatalLevel m s = (Exits, put FatalLevel m s)"
  shows "New3rdResource (Some (Logf (Some (CreateWrapperLogger sugar)))) name s =
    Inr (Exits, fold (\<lambda>l. put l (''New3rdResource: '' @ name)) [InfoLevel, DebugLevel, ErrorLevel, FatalLevel] s)"
  using assms by (simp add: New3rdResource_def Logf_at del: level_index.simps)

lemma New3rdResource_exits_witness:
  "New3rdResource (Some (Logf (Some (CreateWrapperLogger (\<lambda>l m s. (if l = FatalLevel then Exits else Continues, s @ [l])))))) ''x'' []
     = Inr (Exits, [InfoLevel, DebugLevel, ErrorLevel, FatalLevel])"
  by (subst New3rdResource_exits [where put = "\<lambda>l m s. s @ [l]"]) auto

section \<open>utils/version.go\<close>

record Info =
  in_Version :: string
  in_GitBranch :: string
  in_GitTag :: string
  in_GitCommit :: string
  in_GitTreeState :: string
  in_BuildDate :: string
  in_GoVersion :: string
  in_Compiler :: string
  in_Platform :: string

definition Info_String :: "Info \<Rightarrow> string" where
  "Info_String info = in_GitCommit info"

text \<open>The package variables are set by the linker; the runtime gives its version, compiler and platform.\<close>

record build_vars =
  bv_version :: string
  bv_gitBranch :: string
  bv_gitTag :: string
  bv_gitCommit :: string
  bv_gitTreeState :: string
  bv_buildDate :: string

definition GetVersion :: "build_vars \<Rightarrow> string \<Rightarrow> string \<Rightarrow> string \<Rightarrow> string \<Rightarrow> Info" where
  "GetVersion b goVersion compiler goos goarch =
     \<lparr>in_Version = bv_version b, in_GitBranch = bv_gitBranch b, in_GitTag = bv_gitTag b, in_GitCommit = bv_gitCommit b,
      in_GitTreeState = bv_gitTreeState b, in_BuildDate = bv_buildDate b, in_GoVersion = goVersion,
      in_Compiler = compiler, in_Platform = goos @ ''/'' @ goarch\<rparr>"

end
