(* ===== verification/ExternalUrl.thy ===== *)
theory ExternalUrl
  imports ProxyRewrite
begin

text \<open>
  The external URL of a server, \<^verbatim>\<open>net/http/http_path.go\<close>.  The host name of the machine and the parser
  \<^verbatim>\<open>url.Parse\<close> are arguments; \<^verbatim>\<open>net.SplitHostPort\<close> is the one of the reverse proxy.
\<close>

datatype url_error = HostnameError string | AddressError addr_error | QuotesError | ParseError string

definition quote_chars :: "char list" where "quote_chars = [CHR 0x22, CHR 0x27]"

definition startsOrEndsWithQuote :: "string \<Rightarrow> bool" where
  "startsOrEndsWithQuote s \<longleftrightarrow> s \<noteq> [] \<and> (hd s \<in> set quote_chars \<or> last s \<in> set quote_chars)"

definition TrimRight_slash :: "string \<Rightarrow> string" where
  "TrimRight_slash s = rev (dropWhile (\<lambda>c. c = slash) (rev s))"

definition ComputeExternalURL :: "string + string \<Rightarrow> (string \<Rightarrow> string + URL) \<Rightarrow> string \<Rightarrow> string \<Rightarrow> url_error + URL" where
  "ComputeExternalURL hostname parse u listenAddr =
     bnd (if u = [] then
            (case hostname of Inl err \<Rightarrow> Inl (HostnameError err)
             | Inr host \<Rightarrow>
                 case SplitHostPort listenAddr of Inl err \<Rightarrow> Inl (AddressError err)
                 | Inr (_, port) \<Rightarrow> Inr (''http://'' @ host @ '':'' @ port @ ''/''))
          else Inr u)
       (\<lambda>u. if startsOrEndsWithQuote u then Inl QuotesError
            else case parse u of Inl err \<Rightarrow> Inl (ParseError err)
            | Inr eu \<Rightarrow>
                let ppref = TrimRight_slash (ur_Path eu);
                    ppref1 = (if ppref \<noteq> [] \<and> \<not> HasPrefix_slash ppref then slash # ppref else ppref)
                in Inr (eu\<lparr>ur_Path := ppref1\<rparr>))"

lemma TrimRight_last: "TrimRight_slash s \<noteq> [] \<Longrightarrow> last (TrimRight_slash s) \<noteq> slash"
  unfolding TrimRight_slash_def using hd_dropWhile [of "\<lambda>c. c = slash" "rev s"] by (simp add: last_rev del: hd_dropWhile)

lemma TrimRight_fixed: "s = [] \<or> last s \<noteq> slash \<Longrightarrow> TrimRight_slash s = s"
  by (cases s rule: rev_cases) (auto simp: TrimRight_slash_def)

lemma TrimRight_append: "\<exists>n. s = TrimRight_slash s @ replicate n slash"
proof -
  have "takeWhile (\<lambda>c. c = slash) (rev s) = replicate (length (takeWhile (\<lambda>c. c = slash) (rev s))) slash"
    by (metis (full_types) replicate_eqI set_takeWhileD)
  then have "rev (takeWhile (\<lambda>c. c = slash) (rev s)) = replicate (length (takeWhile (\<lambda>c. c = slash) (rev s))) slash"
    by (metis rev_replicate)
  moreover have "s = rev (dropWhile (\<lambda>c. c = slash) (rev s)) @ rev (takeWhile (\<lambda>c. c = slash) (rev s))"
    by (metis rev_append rev_rev_ident takeWhile_dropWhile_id)
  ultimately show ?thesis unfolding TrimRight_slash_def by metis
qed

text \<open>The path of a URL that is cleaned up: empty, or from the root and without a slash at its end.\<close>

definition clean_path :: "string \<Rightarrow> bool" where
  "clean_path p \<longleftrightarrow> p = [] \<or> HasPrefix_slash p \<and> last p \<noteq> slash"

text \<open>
  A given URL without quotes at its ends keeps all its parts but the path, which is clean and differs from the
  parsed one only by a slash in front and slashes at the end; a clean path is not changed.
\<close>

theorem ComputeExternalURL_path:
  assumes "u \<noteq> []" and "\<not> startsOrEndsWithQuote u" and "parse u = Inr eu"
  shows "\<exists>p n. ComputeExternalURL hostname parse u listenAddr = Inr (eu\<lparr>ur_Path := p\<rparr>) \<and> clean_path p
    \<and> (ur_Path eu = p @ replicate n slash \<or> slash # ur_Path eu = p @ replicate n slash)
    \<and> (clean_path (ur_Path eu) \<longrightarrow> p = ur_Path eu)"
proof -
  let ?t = "TrimRight_slash (ur_Path eu)"
  let ?p = "if ?t \<noteq> [] \<and> \<not> HasPrefix_slash ?t then slash # ?t else ?t"
  obtain n where n: "ur_Path eu = ?t @ replicate n slash" using TrimRight_append by blast
  have "ComputeExternalURL hostname parse u listenAddr = Inr (eu\<lparr>ur_Path := ?p\<rparr>)"
    using assms by (simp add: ComputeExternalURL_def Let_def)
  moreover have "clean_path ?p"
    using TrimRight_last [of "ur_Path eu"] by (auto simp: clean_path_def HasPrefix_slash_def)
  moreover have "ur_Path eu = ?p @ replicate n slash \<or> slash # ur_Path eu = ?p @ replicate n slash" using n by auto
  moreover have "clean_path (ur_Path eu) \<Longrightarrow> ?p = ur_Path eu"
    using TrimRight_fixed [of "ur_Path eu"] by (auto simp: clean_path_def)
  ultimately show ?thesis by blast
qed

lemma ComputeExternalURL_path_witness:
  "\<exists>p n. ComputeExternalURL (Inl ''none'')
      (\<lambda>u. Inr \<lparr>ur_Scheme = [], ur_Host = [], ur_Path = u, ur_RawPath = [], ur_RawQuery = []\<rparr>) ''data//'' ''''
    = Inr \<lparr>ur_Scheme = [], ur_Host = [], ur_Path = p, ur_RawPath = [], ur_RawQuery = []\<rparr> \<and> clean_path p
    \<and> (''data//'' = p @ replicate n slash \<or> ''/data//'' = p @ replicate n slash)"
  using ComputeExternalURL_path [of "''data//''"
      "\<lambda>u. Inr \<lparr>ur_Scheme = [], ur_Host = [], ur_Path = u, ur_RawPath = [], ur_RawQuery = []\<rparr>"
      "\<lparr>ur_Scheme = [], ur_Host = [], ur_Path = ''data//'', ur_RawPath = [], ur_RawQuery = []\<rparr>" "Inl ''none''" "''''"]
  by (auto simp: startsOrEndsWithQuote_def quote_chars_def slash_def)

text \<open>The empty URL is replaced by the root of the machine at the port it listens on.\<close>

theorem ComputeExternalURL_default:
  "ComputeExternalURL hostname parse [] listenAddr =
     (case hostname of Inl err \<Rightarrow> Inl (HostnameError err)
      | Inr host \<Rightarrow>
          case SplitHostPort listenAddr of Inl err \<Rightarrow> Inl (AddressError err)
          | Inr (_, port) \<Rightarrow> ComputeExternalURL hostname parse (''http://'' @ host @ '':'' @ port @ ''/'') listenAddr)"
  by (auto simp: ComputeExternalURL_def split: sum.split prod.split)

end
