(* ===== verification/ContextWorkers.thy ===== *)
theory ContextWorkers
  imports Prelude
begin

text \<open>
  Goroutines that end with a context: the program \<^verbatim>\<open>go/context/main.go\<close>, whose workers and shutdown handler are
  waited for, and the counting goroutine of \<^verbatim>\<open>context/context_run.go\<close>.
\<close>

section \<open>go/context/main.go\<close>

text \<open>The handler is at its select, has taken the signal, or has returned; a worker works or has returned.\<close>

datatype handler = HSelect | HCancel | HStop | HReturned
datatype waiter = MWaits | MReturned

record program =
  pr_done :: bool
  pr_sigs :: nat
  pr_notified :: bool
  pr_handler :: handler
  pr_workers :: "bool list"
  pr_wg :: nat
  pr_main :: waiter

definition program_start :: program where
  "program_start = \<lparr>pr_done = False, pr_sigs = 0, pr_notified = True, pr_handler = HSelect,
     pr_workers = replicate 3 True, pr_wg = 4, pr_main = MWaits\<rparr>"

text \<open>
  The channel of signals holds one; a signal that does not fit is dropped.  A select with a default takes the
  default only when nothing else is ready.
\<close>

inductive prog_step :: "program \<Rightarrow> program \<Rightarrow> bool" where
  signal: "pr_notified s \<Longrightarrow> prog_step s (s\<lparr>pr_sigs := 1\<rparr>)"
| handler_done: "pr_handler s = HSelect \<Longrightarrow> pr_done s \<Longrightarrow> prog_step s (s\<lparr>pr_handler := HStop\<rparr>)"
| handler_signal: "pr_handler s = HSelect \<Longrightarrow> pr_sigs s > 0 \<Longrightarrow>
    prog_step s (s\<lparr>pr_handler := HCancel, pr_sigs := pr_sigs s - 1\<rparr>)"
| handler_cancels: "pr_handler s = HCancel \<Longrightarrow> prog_step s (s\<lparr>pr_handler := HStop, pr_done := True\<rparr>)"
| handler_stops: "pr_handler s = HStop \<Longrightarrow>
    prog_step s (s\<lparr>pr_handler := HReturned, pr_notified := False, pr_wg := pr_wg s - 1\<rparr>)"
| works: "i < length (pr_workers s) \<Longrightarrow> pr_workers s ! i \<Longrightarrow> \<not> pr_done s \<Longrightarrow> prog_step s s"
| worker_exits: "i < length (pr_workers s) \<Longrightarrow> pr_workers s ! i \<Longrightarrow> pr_done s \<Longrightarrow>
    prog_step s (s\<lparr>pr_workers := (pr_workers s)[i := False], pr_wg := pr_wg s - 1\<rparr>)"
| main_returns: "pr_main s = MWaits \<Longrightarrow> pr_wg s = 0 \<Longrightarrow> prog_step s (s\<lparr>pr_main := MReturned, pr_done := True\<rparr>)"

inductive prog_reach :: "program \<Rightarrow> bool" where
  start: "prog_reach program_start"
| step: "prog_reach s \<Longrightarrow> prog_step s s' \<Longrightarrow> prog_reach s'"

definition running :: "program \<Rightarrow> nat" where "running s = length (filter id (pr_workers s))"

lemma filter_exit: "i < length bs \<Longrightarrow> bs ! i \<Longrightarrow> length (filter id bs) = Suc (length (filter id (bs[i := False])))"
proof (induction bs arbitrary: i)
  case (Cons b bs)
  then show ?case by (cases i) auto
qed simp

lemma running_exit:
  "i < length (pr_workers s) \<Longrightarrow> pr_workers s ! i \<Longrightarrow>
   running s = Suc (running (s\<lparr>pr_workers := (pr_workers s)[i := False], pr_wg := n\<rparr>))"
  by (simp add: running_def filter_exit)

text \<open>The wait group counts the handler and the workers that run; the context is done only after the handler took a signal.\<close>

definition prog_inv :: "program \<Rightarrow> bool" where
  "prog_inv s \<longleftrightarrow> pr_wg s = running s + (if pr_handler s = HReturned then 0 else 1)
     \<and> (pr_main s = MReturned \<longrightarrow> pr_wg s = 0) \<and> (pr_handler s \<in> {HStop, HReturned} \<longrightarrow> pr_done s)
     \<and> (pr_handler s = HSelect \<longrightarrow> pr_notified s) \<and> pr_sigs s \<le> 1 \<and> length (pr_workers s) = 3"

lemma prog_inv_step: "prog_step s s' \<Longrightarrow> prog_inv s \<Longrightarrow> prog_inv s'"
proof (induction rule: prog_step.induct)
  case (worker_exits i s)
  with running_exit [of i s "pr_wg s - 1"] show ?case by (auto simp: prog_inv_def)
qed (auto simp: prog_inv_def running_def)

lemma prog_reach_inv: "prog_reach s \<Longrightarrow> prog_inv s"
proof (induction rule: prog_reach.induct)
  case start
  show ?case by (simp add: prog_inv_def program_start_def running_def numeral_3_eq_3)
next
  case (step s s')
  then show ?case using prog_inv_step by blast
qed

text \<open>What is left to do: the stations of the handler, the workers that run, and the return of \<^verbatim>\<open>main\<close>.\<close>

fun handler_left :: "handler \<Rightarrow> nat" where
  "handler_left HSelect = 3"
| "handler_left HCancel = 2"
| "handler_left HStop = 1"
| "handler_left HReturned = 0"

definition left :: "program \<Rightarrow> nat" where
  "left s = handler_left (pr_handler s) + running s + (if pr_main s = MWaits then 1 else 0)"

text \<open>\<open>asked\<close>: a signal has come in, or the context is done.\<close>

definition asked :: "program \<Rightarrow> bool" where
  "asked s \<longleftrightarrow> pr_sigs s > 0 \<or> pr_handler s \<noteq> HSelect \<or> pr_done s"

lemma asked_step: "prog_step s s' \<Longrightarrow> asked s \<Longrightarrow> asked s'"
  by (induction rule: prog_step.induct) (auto simp: asked_def)

lemma left_step: "prog_step s s' \<Longrightarrow> left s' < left s \<or> left s' = left s"
proof (induction rule: prog_step.induct)
  case (worker_exits i s)
  with running_exit [of i s "pr_wg s - 1"] show ?case by (simp add: left_def)
qed (auto simp: left_def running_def)

lemma worker_runs: "running s > 0 \<Longrightarrow> \<exists>i<length (pr_workers s). pr_workers s ! i"
  unfolding running_def by (metis (full_types) filter_False id_apply in_set_conv_nth length_greater_0_conv)

text \<open>Somebody can always go on.\<close>

lemma asked_progress:
  assumes "prog_inv s" and "asked s" and "pr_main s = MWaits"
  shows "\<exists>s'. prog_step s s' \<and> left s' < left s"
proof -
  note inv = assms(1) [unfolded prog_inv_def]
  consider "pr_handler s = HSelect" "pr_done s" | "pr_handler s = HSelect" "\<not> pr_done s" | "pr_handler s = HCancel"
    | "pr_handler s = HStop" | "pr_handler s = HReturned" "running s > 0" | "pr_handler s = HReturned" "running s = 0"
    by (cases "pr_handler s") auto
  then show ?thesis
  proof cases
    case 1
    from prog_step.handler_done [OF this] show ?thesis by (intro exI conjI) (assumption, simp add: left_def 1 running_def)
  next
    case 2
    with assms(2) have "pr_sigs s > 0" by (simp add: asked_def)
    from prog_step.handler_signal [OF 2(1) this] show ?thesis by (intro exI conjI) (assumption, simp add: left_def 2 running_def)
  next
    case 3
    from prog_step.handler_cancels [OF this] show ?thesis by (intro exI conjI) (assumption, simp add: left_def 3 running_def)
  next
    case 4
    from prog_step.handler_stops [OF this] show ?thesis by (intro exI conjI) (assumption, simp add: left_def 4 running_def)
  next
    case 5
    from worker_runs [OF this(2)] obtain i where i: "i < length (pr_workers s)" "pr_workers s ! i" by blast
    moreover from 5 inv have "pr_done s" by simp
    ultimately have "prog_step s (s\<lparr>pr_workers := (pr_workers s)[i := False], pr_wg := pr_wg s - 1\<rparr>)"
      by (rule prog_step.worker_exits)
    with running_exit [OF i, of "pr_wg s - 1"] show ?thesis by (intro exI conjI) (assumption, simp add: left_def)
  next
    case 6
    with inv have "pr_wg s = 0" by simp
    from prog_step.main_returns [OF assms(3) this] show ?thesis
      by (intro exI conjI) (assumption, simp add: left_def assms(3) running_def)
  qed
qed

text \<open>
  No goroutine of \<^verbatim>\<open>main\<close> outlives it, and it returns only after a signal.  Once a signal came in, no step adds to
  what is left to do, and until \<^verbatim>\<open>main\<close> has returned there is a step that takes from it: under a scheduler that
  does not starve a goroutine for ever, \<^verbatim>\<open>main\<close> returns.
\<close>

theorem graceful_exit:
  assumes "prog_reach s"
  shows "(pr_main s = MReturned \<longrightarrow> pr_handler s = HReturned \<and> True \<notin> set (pr_workers s))
    \<and> (asked s \<and> prog_step s s' \<longrightarrow> asked s' \<and> left s' \<le> left s)
    \<and> (asked s \<and> pr_main s = MWaits \<longrightarrow> (\<exists>s'. prog_step s s' \<and> left s' < left s))"
proof -
  note inv = prog_reach_inv [OF assms]
  have "pr_handler s = HReturned \<and> True \<notin> set (pr_workers s)" if "pr_main s = MReturned"
  proof -
    from inv that have "running s + (if pr_handler s = HReturned then 0 else 1) = 0" by (simp add: prog_inv_def)
    then show ?thesis by (auto simp: running_def filter_empty_conv split: if_splits)
  qed
  then show ?thesis using asked_step [of s s'] left_step [of s s'] asked_progress [OF inv] by auto
qed

lemma graceful_exit_witness: "\<exists>s'. prog_step (program_start\<lparr>pr_sigs := 1\<rparr>) s' \<and> left s' < left (program_start\<lparr>pr_sigs := 1\<rparr>)"
proof -
  have "pr_notified program_start" by (simp add: program_start_def)
  from prog_reach.step [OF prog_reach.start prog_step.signal [OF this]]
  have "prog_reach (program_start\<lparr>pr_sigs := 1\<rparr>)" .
  from graceful_exit [OF this] show ?thesis by (simp add: asked_def program_start_def)
qed

text \<open>Without a signal \<^verbatim>\<open>main\<close> never returns: its workers run on.\<close>

inductive quiet_reach :: "program \<Rightarrow> bool" where
  start: "quiet_reach program_start"
| step: "quiet_reach s \<Longrightarrow> prog_step s s' \<Longrightarrow> pr_sigs s' = 0 \<Longrightarrow> quiet_reach s'"

theorem quiet_runs_on: "quiet_reach s \<Longrightarrow> s = program_start"
proof (induction rule: quiet_reach.induct)
  case (step s s')
  from step(2,3) step.IH show ?case
    by cases (auto simp: program_start_def)
qed simp

lemma quiet_runs_on_witness: "program_start = program_start"
  by (rule quiet_runs_on [OF quiet_reach.start])

section \<open>context/context_run.go\<close>

text \<open>
  The goroutine is at its select, blocked in the send of a number, or has ended.  The channel is unbuffered; the
  receiver is the caller's.
\<close>

datatype counter_at = AtSelect | Sending | Ended

record counter =
  ct_at :: counter_at
  ct_i :: nat
  ct_cancelled :: bool
  ct_ticker :: bool
  ct_received :: "nat list"

definition Run :: counter where
  "Run = \<lparr>ct_at = AtSelect, ct_i = 0, ct_cancelled = False, ct_ticker = True, ct_received = []\<rparr>"

inductive counter_step :: "counter \<Rightarrow> counter \<Rightarrow> bool" where
  ticks: "ct_at s = AtSelect \<Longrightarrow> counter_step s (s\<lparr>ct_at := Sending, ct_i := ct_i s + 1\<rparr>)"
| received: "ct_at s = Sending \<Longrightarrow> counter_step s (s\<lparr>ct_at := AtSelect, ct_received := ct_received s @ [ct_i s]\<rparr>)"
| cancelled: "counter_step s (s\<lparr>ct_cancelled := True\<rparr>)"
| ends: "ct_at s = AtSelect \<Longrightarrow> ct_cancelled s \<Longrightarrow> counter_step s (s\<lparr>ct_at := Ended, ct_ticker := False\<rparr>)"
| spins: "ct_at s = AtSelect \<Longrightarrow> \<not> ct_cancelled s \<Longrightarrow> counter_step s s"

inductive counter_reach :: "counter \<Rightarrow> bool" where
  start: "counter_reach Run"
| step: "counter_reach s \<Longrightarrow> counter_step s s' \<Longrightarrow> counter_reach s'"

text \<open>
  The receiver gets the numbers from one on, without a gap; the goroutine ends only after the cancellation, and its
  ticker is then stopped.
\<close>

theorem counter_in_order:
  "counter_reach s \<Longrightarrow> ct_received s = [1 ..< Suc (ct_i s) - (if ct_at s = Sending then 1 else 0)]
     \<and> (ct_at s = Ended \<longleftrightarrow> \<not> ct_ticker s) \<and> (ct_at s = Ended \<longrightarrow> ct_cancelled s) \<and> (ct_at s = Sending \<longrightarrow> 0 < ct_i s)"
proof (induction rule: counter_reach.induct)
  case start
  show ?case by (simp add: Run_def)
next
  case (step s s')
  from step(2) step.IH show ?case by cases (auto simp: le_Suc_eq)
qed

lemma counter_in_order_witness: "ct_received Run = []"
  using counter_in_order [OF counter_reach.start] by (simp add: Run_def)

text \<open>A goroutine whose number nobody takes does not see the cancellation: it only goes on when the number is taken.\<close>

theorem blocked_counter_stays:
  assumes "counter_step s s'" and "ct_at s = Sending" and "ct_received s' = ct_received s"
  shows "ct_at s' = Sending"
  using assms by cases auto

lemma blocked_counter_stays_witness:
  "ct_at (Run\<lparr>ct_at := Sending, ct_i := 1, ct_cancelled := True\<rparr>) = Sending"
  using blocked_counter_stays [OF counter_step.cancelled [of "Run\<lparr>ct_at := Sending, ct_i := 1\<rparr>"]] by simp

end
