(* ===== verification/GrpcInterceptors.thy ===== *)
theory GrpcInterceptors
  imports OrderServers
begin

text \<open>
  The logging interceptors of \<^verbatim>\<open>gRPC/stream\<close>, on both sides of a connection: the unary ones and the wrappers of
  streams.  A stream is the two calls that its user has, over the state of what is behind it; a program over a
  stream is the tree of its calls and of what it does with their answers.
\<close>

section \<open>Streams\<close>

record ('i, 'o, 's) stream =
  sm_RecvMsg :: "'s \<Rightarrow> 'i recv \<times> 's"
  sm_SendMsg :: "'o \<Rightarrow> 's \<Rightarrow> string option \<times> 's"

text \<open>The interface that the users of a stream rely on, and what a wrapper must keep of it.\<close>

locale stream_wrapper =
  fixes inner :: "('i, 'o, 's) stream" and outer :: "('i, 'o, 't) stream" and under :: "'t \<Rightarrow> 's"
  assumes recv_same: "fst (sm_RecvMsg outer t) = fst (sm_RecvMsg inner (under t))"
    and recv_under: "under (snd (sm_RecvMsg outer t)) = snd (sm_RecvMsg inner (under t))"
    and send_same: "fst (sm_SendMsg outer m t) = fst (sm_SendMsg inner m (under t))"
    and send_under: "under (snd (sm_SendMsg outer m t)) = snd (sm_SendMsg inner m (under t))"

datatype ('i, 'o, 'r) calls =
    Answer 'r
  | Receive "'i recv \<Rightarrow> ('i, 'o, 'r) calls"
  | SendTo 'o "string option \<Rightarrow> ('i, 'o, 'r) calls"

primrec run_calls :: "('i, 'o, 'r) calls \<Rightarrow> ('i, 'o, 's) stream \<Rightarrow> 's \<Rightarrow> 'r \<times> 's" where
  "run_calls (Answer r) = (\<lambda>ss s. (r, s))"
| "run_calls (Receive k) = (\<lambda>ss s. case sm_RecvMsg ss s of (m, s') \<Rightarrow> run_calls (k m) ss s')"
| "run_calls (SendTo m k) = (\<lambda>ss s. case sm_SendMsg ss m s of (e, s') \<Rightarrow> run_calls (k e) ss s')"

context stream_wrapper
begin

lemma run_same:
  "fst (run_calls p outer t) = fst (run_calls p inner (under t)) \<and> under (snd (run_calls p outer t)) = snd (run_calls p inner (under t))"
proof (induction p arbitrary: t)
  case (Receive k)
  then show ?case using recv_same [of t] recv_under [of t] by (auto simp: case_prod_beta)
next
  case (SendTo m k)
  then show ?case using send_same [of m t] send_under [of m t] by (auto simp: case_prod_beta)
qed simp

end

section \<open>The wrappers\<close>

text \<open>A line of the log without its time.\<close>

datatype log_line =
    UnaryServer string string string
  | UnaryClient
  | StreamServer string
  | StreamServerEnd string "string option"
  | StreamClient string
  | Receiving
  | Sending

type_synonym 's logging = "'s \<times> log_line list"

definition wrappedStream_RecvMsg :: "('i, 'o, 's) stream \<Rightarrow> 's logging \<Rightarrow> 'i recv \<times> 's logging" where
  "wrappedStream_RecvMsg ss t = (case sm_RecvMsg ss (fst t) of (m, s) \<Rightarrow> (m, s, snd t @ [Receiving]))"

definition wrappedStream_SendMsg :: "('i, 'o, 's) stream \<Rightarrow> 'o \<Rightarrow> 's logging \<Rightarrow> string option \<times> 's logging" where
  "wrappedStream_SendMsg ss m t = (case sm_SendMsg ss m (fst t) of (e, s) \<Rightarrow> (e, s, snd t @ [Sending]))"

definition newWrappedStream :: "('i, 'o, 's) stream \<Rightarrow> ('i, 'o, 's logging) stream" where
  "newWrappedStream ss = \<lparr>sm_RecvMsg = wrappedStream_RecvMsg ss, sm_SendMsg = wrappedStream_SendMsg ss\<rparr>"

definition wrappedStreamClient_RecvMsg :: "('i, 'o, 's) stream \<Rightarrow> 's logging \<Rightarrow> 'i recv \<times> 's logging" where
  "wrappedStreamClient_RecvMsg ss t = (case sm_RecvMsg ss (fst t) of (m, s) \<Rightarrow> (m, s, snd t @ [Receiving]))"

definition wrappedStreamClient_SendMsg :: "('i, 'o, 's) stream \<Rightarrow> 'o \<Rightarrow> 's logging \<Rightarrow> string option \<times> 's logging" where
  "wrappedStreamClient_SendMsg ss m t = (case sm_SendMsg ss m (fst t) of (e, s) \<Rightarrow> (e, s, snd t @ [Sending]))"

definition newWrappedStreamClient :: "('i, 'o, 's) stream \<Rightarrow> ('i, 'o, 's logging) stream" where
  "newWrappedStreamClient ss = \<lparr>sm_RecvMsg = wrappedStreamClient_RecvMsg ss, sm_SendMsg = wrappedStreamClient_SendMsg ss\<rparr>"

interpretation wrapped_server: stream_wrapper ss "newWrappedStream ss" fst for ss
  by unfold_locales (simp_all add: newWrappedStream_def wrappedStream_RecvMsg_def wrappedStream_SendMsg_def case_prod_beta)

interpretation wrapped_client: stream_wrapper ss "newWrappedStreamClient ss" fst for ss
  by unfold_locales
    (simp_all add: newWrappedStreamClient_def wrappedStreamClient_RecvMsg_def wrappedStreamClient_SendMsg_def case_prod_beta)

section \<open>The interceptors\<close>

text \<open>A handler answers over the state of the server; \<open>show\<close> is what \<^verbatim>\<open>%s\<close> makes of a value.\<close>

definition orderServerUnaryInterceptor ::
  "('m \<Rightarrow> string) \<Rightarrow> ('r + 'm \<Rightarrow> string) \<Rightarrow> string \<Rightarrow> 'm \<Rightarrow> ('m \<Rightarrow> 's \<Rightarrow> ('r + 'm) \<times> 's) \<Rightarrow> 's logging \<Rightarrow> ('r + 'm) \<times> 's logging" where
  "orderServerUnaryInterceptor show_req show_res method req handler t =
     (case handler req (fst t) of (m, s) \<Rightarrow> (m, s, snd t @ [UnaryServer method (show_req req) (show_res m)]))"

definition orderServerStreamInterceptor ::
  "string \<Rightarrow> ('i, 'o, string option) calls \<Rightarrow> ('i, 'o, 's) stream \<Rightarrow> 's logging \<Rightarrow> string option \<times> 's logging" where
  "orderServerStreamInterceptor method handler ss t =
     (case run_calls handler (newWrappedStream ss) (fst t, snd t @ [StreamServer method]) of
        (err, s, lines) \<Rightarrow> (err, s, lines @ [StreamServerEnd method err]))"

definition orderUnaryClientInterceptor :: "('m \<Rightarrow> 's \<Rightarrow> 'r \<times> 's) \<Rightarrow> 'm \<Rightarrow> 's logging \<Rightarrow> 'r \<times> 's logging" where
  "orderUnaryClientInterceptor invoker req t = (case invoker req (fst t) of (r, s) \<Rightarrow> (r, s, snd t @ [UnaryClient]))"

text \<open>The streamer opens the stream or reports an error.\<close>

definition clientStreamInterceptor ::
  "(string \<Rightarrow> 's \<Rightarrow> (string + ('i, 'o, 's) stream) \<times> 's) \<Rightarrow> string \<Rightarrow> 's logging
     \<Rightarrow> (string + ('i, 'o, 's logging) stream) \<times> 's logging" where
  "clientStreamInterceptor streamer method t =
     (case streamer method (fst t) of
        (Inl err, s) \<Rightarrow> (Inl err, s, snd t @ [StreamClient method])
      | (Inr ss, s) \<Rightarrow> (Inr (newWrappedStreamClient ss), s, snd t @ [StreamClient method]))"

text \<open>How many calls a run makes.\<close>

primrec count_calls :: "('i, 'o, 'r) calls \<Rightarrow> ('i, 'o, 's) stream \<Rightarrow> 's \<Rightarrow> log_line list" where
  "count_calls (Answer r) = (\<lambda>ss s. [])"
| "count_calls (Receive k) = (\<lambda>ss s. case sm_RecvMsg ss s of (m, s') \<Rightarrow> Receiving # count_calls (k m) ss s')"
| "count_calls (SendTo m k) = (\<lambda>ss s. case sm_SendMsg ss m s of (e, s') \<Rightarrow> Sending # count_calls (k e) ss s')"

lemma run_logs:
  "snd (snd (run_calls p (newWrappedStream ss) t)) = snd t @ count_calls p ss (fst t)
   \<and> snd (snd (run_calls p (newWrappedStreamClient ss) t)) = snd t @ count_calls p ss (fst t)"
  by (induction p arbitrary: t)
    (auto simp: newWrappedStream_def wrappedStream_RecvMsg_def wrappedStream_SendMsg_def newWrappedStreamClient_def
      wrappedStreamClient_RecvMsg_def wrappedStreamClient_SendMsg_def split: prod.splits)

lemma interceptor_stream:
  "orderServerStreamInterceptor method handler ss (s, lines) =
     (let (err, s') = run_calls handler ss s
      in (err, s', lines @ [StreamServer method] @ count_calls handler ss s @ [StreamServerEnd method err]))"
proof -
  let ?t = "(s, lines @ [StreamServer method])"
  show ?thesis
    using wrapped_server.run_same [of handler ss ?t] run_logs [of handler ss ?t]
    by (cases "run_calls handler (newWrappedStream ss) ?t"; cases "run_calls handler ss s")
      (auto simp: orderServerStreamInterceptor_def)
qed


section \<open>A handler of the server\<close>

text \<open>
  \<^verbatim>\<open>SearchOrders\<close> as a program over its stream: the orders found are sent, and an error ends it.  What is behind
  the stream is the list of the orders delivered.
\<close>

primrec send_program :: "(string \<Rightarrow> string) \<Rightarrow> 'o list \<Rightarrow> ('i, 'o, string option) calls" where
  "send_program wrap [] = Answer None"
| "send_program wrap (m # ms) = SendTo m (\<lambda>e. case e of None \<Rightarrow> send_program wrap ms | Some err \<Rightarrow> Answer (Some (wrap err)))"

definition SearchOrders_program :: "orderMap \<Rightarrow> string list \<Rightarrow> string \<Rightarrow> ('i, Order, string option) calls" where
  "SearchOrders_program om keys query = send_program (\<lambda>e. ''error sending message to stream : '' @ e) (search_hits om keys query)"

definition delivering :: "'o send_fn \<Rightarrow> ('i, 'o, 'o list) stream" where
  "delivering send = \<lparr>sm_RecvMsg = (\<lambda>sent. (RecvEOF, sent)),
     sm_SendMsg = (\<lambda>m sent. case send sent m of None \<Rightarrow> (None, sent @ [m]) | Some e \<Rightarrow> (Some e, sent))\<rparr>"

lemma send_program_run:
  "run_calls (send_program wrap ms) (delivering send) sent =
     (case send_all True send ms sent of (Some e, out) \<Rightarrow> (Some (wrap e), out) | (None, out) \<Rightarrow> (None, out))"
  by (induction ms arbitrary: sent) (simp_all add: delivering_def split: option.split)

text \<open>The search through the interceptors answers and delivers what the handler does alone.\<close>

lemma intercepted_search:
  "(case orderServerStreamInterceptor method (SearchOrders_program om keys query) (delivering send) ([], lines) of
      (err, out, lines') \<Rightarrow> (err, out)) = stream_SearchOrders send om keys query"
  unfolding interceptor_stream SearchOrders_program_def send_program_run stream_SearchOrders_def
  by (cases "send_all True send (search_hits om keys query) []") (auto simp: Let_def split: option.splits)

end
