(* ===== verification/GrpcMains.thy ===== *)
theory GrpcMains
  imports GrpcInterceptors ProxyRewrite
begin

text \<open>
  The \<^verbatim>\<open>main\<close> functions of the gRPC servers and clients up to the point where the one serves and the other has its
  connection: which certificates they load, where they listen or dial, what they register, and with what message they
  exit.  Files, TLS, listening and dialing answer as the host does, an argument; whether a pool of authorities
  accepts a certificate for a name is an argument of the handshake.
\<close>

section \<open>Hosts\<close>

record ('c, 'p) host =
  ho_LoadX509KeyPair :: "string \<Rightarrow> string \<Rightarrow> string + 'c"
  ho_ReadFile :: "string \<Rightarrow> string + string"
  ho_AppendCertsFromPEM :: "string \<Rightarrow> 'p option"
  ho_NewClientTLSFromFile :: "string \<Rightarrow> string + 'p"
  ho_Listen :: "string \<Rightarrow> string option"
  ho_Serve :: "string option"
  ho_ListenAndServe :: "string \<Rightarrow> string option"
  ho_NewClient :: "string \<Rightarrow> string option"

text \<open>\<^verbatim>\<open>log.Fatalf\<close> ends the program with its message.\<close>

datatype 'a started = FatalExit string | Started 'a

fun unless_err :: "string \<Rightarrow> string option \<Rightarrow> 'a started \<Rightarrow> 'a started" where
  "unless_err what None k = k"
| "unless_err what (Some err) k = FatalExit (what @ err)"

datatype ('c, 'p) server_creds = NoTLS | ServerTLS 'c | RequireClientCert 'c 'p
datatype ('c, 'p) client_creds = InsecureCreds | ClientTLS 'p string | ClientCert 'c 'p string
datatype interceptor = Logging | Metrics | ValidToken | ValidBasicCredentials

record ('c, 'p) server_config =
  sv_addr :: string
  sv_creds :: "('c, 'p) server_creds"
  sv_unary :: "interceptor option"
  sv_stream :: "interceptor option"
  sv_services :: "string list"
  sv_compressors :: "string list"
  sv_reflection :: bool
  sv_orders :: orderMap

record ('c, 'p) client_config =
  cl_addr :: string
  cl_creds :: "('c, 'p) client_creds"
  cl_unary :: "interceptor option"
  cl_stream :: "interceptor option"
  cl_perRPC :: "string option"
  cl_services :: "string list"
  cl_compressor :: "string option"

type_synonym ('c, 'p) server_main = "('c, 'p) host \<Rightarrow> ('c, 'p) server_config started"
type_synonym ('c, 'p) client_main = "('c, 'p) host \<Rightarrow> ('c, 'p) client_config started"

section \<open>Servers\<close>

definition cancellation_initSampleData :: orderMap where "cancellation_initSampleData = initSampleData"
definition timeout_initSampleData :: orderMap where "timeout_initSampleData = initSampleData"
definition grpcprometheus_initSampleData :: orderMap where "grpcprometheus_initSampleData = initSampleData"
definition compression_initSampleData :: orderMap where "compression_initSampleData = errorhandling_initSampleData"
definition multiplexing_initSampleData :: orderMap where "multiplexing_initSampleData = errorhandling_initSampleData"

definition plain_config :: "string \<Rightarrow> string list \<Rightarrow> bool \<Rightarrow> orderMap \<Rightarrow> ('c, 'p) server_config" where
  "plain_config addr services reflection orders =
     \<lparr>sv_addr = addr, sv_creds = NoTLS, sv_unary = None, sv_stream = None, sv_services = services, sv_compressors = [],
      sv_reflection = reflection, sv_orders = orders\<rparr>"

text \<open>The listener is opened first, and the server made and served after it.\<close>

definition listen_then_serve :: "('c, 'p) host \<Rightarrow> ('c, 'p) server_config \<Rightarrow> ('c, 'p) server_config started" where
  "listen_then_serve h cfg =
     unless_err ''failed to listen: '' (ho_Listen h (sv_addr cfg)) (unless_err ''failed to serve: '' (ho_Serve h) (Started cfg))"

definition stream_main :: "('c, 'p) server_main" where
  "stream_main h = listen_then_serve h
     ((plain_config ''127.0.0.1:50051'' [''OrderManagement''] False initSampleData)\<lparr>sv_unary := Some Logging, sv_stream := Some Logging\<rparr>)"

definition cancellation_main :: "('c, 'p) server_main" where
  "cancellation_main h = listen_then_serve h
     (plain_config ''127.0.0.1:50051'' [''OrderManagement''] False cancellation_initSampleData)"

definition timeout_main :: "('c, 'p) server_main" where
  "timeout_main h = listen_then_serve h
     (plain_config ''127.0.0.1:50051'' [''OrderManagement''] False timeout_initSampleData)"

definition errorhandling_main :: "('c, 'p) server_main" where
  "errorhandling_main h = listen_then_serve h
     (plain_config '':50051'' [''OrderManagement''] True errorhandling_initSampleData)"

text \<open>The import of the package \<^verbatim>\<open>encoding/gzip\<close> installs its compressor.\<close>

definition compression_main :: "('c, 'p) server_main" where
  "compression_main h = listen_then_serve h
     ((plain_config '':50051'' [''OrderManagement''] True compression_initSampleData)\<lparr>sv_compressors := [''gzip'']\<rparr>)"

definition multiplexing_main :: "('c, 'p) server_main" where
  "multiplexing_main h = listen_then_serve h
     (plain_config '':50051'' [''OrderManagement'', ''Greeter''] True multiplexing_initSampleData)"

definition helloworld_main :: "('c, 'p) server_main" where
  "helloworld_main h = listen_then_serve h (plain_config '':50051'' [''Greeter''] True Map.empty)"

definition sendmessage_main :: "('c, 'p) server_main" where
  "sendmessage_main h = listen_then_serve h (plain_config '':8080'' [''SendMessage''] True Map.empty)"

text \<open>
  The metrics are served by a goroutine, whose failure ends the program too; \<open>http_first\<close> says which of the two
  reports its failure first.
\<close>

definition grpcprometheus_main :: "bool \<Rightarrow> ('c, 'p) server_main" where
  "grpcprometheus_main http_first h =
     (let cfg = (plain_config ''127.0.0.1:50051'' [''OrderManagement''] False grpcprometheus_initSampleData)
                  \<lparr>sv_unary := Some Metrics, sv_stream := Some Metrics\<rparr>;
          http = unless_err ''Failed to start prometheus http server: '' (ho_ListenAndServe h ''0.0.0.0:9092'');
          grpc = unless_err ''failed to serve: '' (ho_Serve h)
      in unless_err ''failed to listen: '' (ho_Listen h (sv_addr cfg))
           (if http_first then http (grpc (Started cfg)) else grpc (http (Started cfg))))"

text \<open>The servers with TLS load their key pair first.\<close>

definition product_tls_main :: "string \<Rightarrow> string \<Rightarrow> interceptor \<Rightarrow> ('c, 'p) server_main" where
  "product_tls_main crt key check h =
     (case ho_LoadX509KeyPair h crt key of
        Inl err \<Rightarrow> FatalExit (''failed to load key pair: '' @ err)
      | Inr cert \<Rightarrow> listen_then_serve h
          ((plain_config '':50051'' [''ProductInfo''] False Map.empty)\<lparr>sv_creds := ServerTLS cert, sv_unary := Some check\<rparr>))"

definition basicauth_main :: "('c, 'p) server_main" where
  "basicauth_main = product_tls_main ''../../certs/server.crt'' ''../../certs/server.key'' ValidToken"

definition token_main :: "('c, 'p) server_main" where
  "token_main = product_tls_main ''ch06/secure-channel/certs/server.crt'' ''ch06/secure-channel/certs/server.key'' ValidBasicCredentials"

definition mutualls_main :: "('c, 'p) server_main" where
  "mutualls_main h =
     (case ho_LoadX509KeyPair h ''certs/server.crt'' ''certs/server.key'' of
        Inl err \<Rightarrow> FatalExit (''failed to load key pair: '' @ err)
      | Inr cert \<Rightarrow>
          case ho_ReadFile h ''certs/ca.crt'' of
            Inl err \<Rightarrow> FatalExit (''could not read ca certificate: '' @ err)
          | Inr ca \<Rightarrow>
              case ho_AppendCertsFromPEM h ca of
                None \<Rightarrow> FatalExit ''failed to append client certs''
              | Some pool \<Rightarrow> listen_then_serve h
                  ((plain_config ''127.0.0.1:50051'' [''ProductInfo''] False Map.empty)\<lparr>sv_creds := RequireClientCert cert pool\<rparr>))"

section \<open>Clients\<close>

definition plain_client :: "string \<Rightarrow> string list \<Rightarrow> ('c, 'p) client_config" where
  "plain_client addr services =
     \<lparr>cl_addr = addr, cl_creds = InsecureCreds, cl_unary = None, cl_stream = None, cl_perRPC = None, cl_services = services,
      cl_compressor = None\<rparr>"

definition connect :: "('c, 'p) host \<Rightarrow> ('c, 'p) client_config \<Rightarrow> ('c, 'p) client_config started" where
  "connect h cfg = unless_err ''did not connect: '' (ho_NewClient h (cl_addr cfg)) (Started cfg)"

definition stream_client_main :: "('c, 'p) client_main" where
  "stream_client_main h = connect h
     ((plain_client ''127.0.0.1:50051'' [''OrderManagement''])\<lparr>cl_unary := Some Logging, cl_stream := Some Logging\<rparr>)"

definition cancellation_client_main :: "('c, 'p) client_main" where
  "cancellation_client_main h = connect h (plain_client ''127.0.0.1:50051'' [''OrderManagement''])"

definition timeout_client_main :: "('c, 'p) client_main" where
  "timeout_client_main h = connect h (plain_client ''127.0.0.1:50051'' [''OrderManagement''])"

definition errorhandling_client_main :: "('c, 'p) client_main" where
  "errorhandling_client_main h = connect h (plain_client ''localhost:50051'' [''OrderManagement''])"

definition compression_client_main :: "('c, 'p) client_main" where
  "compression_client_main h = connect h ((plain_client ''localhost:50051'' [''OrderManagement''])\<lparr>cl_compressor := Some ''gzip''\<rparr>)"

definition multiplexing_client_main :: "('c, 'p) client_main" where
  "multiplexing_client_main h = connect h (plain_client ''localhost:50051'' [''OrderManagement'', ''Greeter''])"

text \<open>The metrics of the client are registered and served, but no interceptor feeds them.\<close>

definition grpcprometheus_client_main :: "('c, 'p) client_main" where
  "grpcprometheus_client_main h =
     (case connect h (plain_client ''127.0.0.1:50051'' [''OrderManagement'']) of
        FatalExit m \<Rightarrow> FatalExit m
      | Started cfg \<Rightarrow> unless_err ''Failed to start prometheus http server: '' (ho_ListenAndServe h ''0.0.0.0:9094'') (Started cfg))"

text \<open>The address is a flag, with this default.\<close>

definition helloworld_client_main :: "string option \<Rightarrow> ('c, 'p) client_main" where
  "helloworld_client_main addr h =
     connect h (plain_client (case addr of None \<Rightarrow> ''127.0.0.1:50051'' | Some a \<Rightarrow> a) [''Greeter''])"

definition sendmessage_client_main :: "('c, 'p) client_main" where
  "sendmessage_client_main h = connect h (plain_client ''127.0.0.1:8080'' [''SendMessage''])"

definition product_tls_client :: "string \<Rightarrow> string \<Rightarrow> string \<Rightarrow> ('c, 'p) client_main" where
  "product_tls_client crt name rpc h =
     (case ho_NewClientTLSFromFile h crt of
        Inl err \<Rightarrow> FatalExit (''failed to load credentials: '' @ err)
      | Inr pool \<Rightarrow> connect h
          ((plain_client ''localhost:50051'' [''ProductInfo''])\<lparr>cl_creds := ClientTLS pool name, cl_perRPC := Some rpc\<rparr>))"

definition basicauth_client_main :: "('c, 'p) client_main" where
  "basicauth_client_main = product_tls_client ''certs/server.crt'' ''localhost'' ''Basic''"

definition token_client_main :: "('c, 'p) client_main" where
  "token_client_main = product_tls_client ''../../certs/server.crt'' ''localhost'' ''Bearer''"

definition mutualls_client_main :: "('c, 'p) client_main" where
  "mutualls_client_main h =
     (case ho_LoadX509KeyPair h ''certs/client.crt'' ''certs/client.key'' of
        Inl err \<Rightarrow> FatalExit (''could not load client key pair: '' @ err)
      | Inr cert \<Rightarrow>
          case ho_ReadFile h ''certs/ca.crt'' of
            Inl err \<Rightarrow> FatalExit (''could not read ca certificate: '' @ err)
          | Inr ca \<Rightarrow>
              case ho_AppendCertsFromPEM h ca of
                None \<Rightarrow> FatalExit ''failed to append ca certs''
              | Some pool \<Rightarrow> connect h
                  ((plain_client ''127.0.0.1:50051'' [''ProductInfo''])\<lparr>cl_creds := ClientCert cert pool ''127.0.0.1''\<rparr>))"

section \<open>The tunnel\<close>

text \<open>Both servers of the tunnel end the program when they fail; \<^verbatim>\<open>http.ListenAndServe\<close> returns only with an error.\<close>

definition tunnel_main :: "bool \<Rightarrow> ('c, 'p) server_main" where
  "tunnel_main http_first h =
     (let cfg = plain_config '':9090'' [''TunnelService''] False Map.empty;
          grpc = unless_err ''gRPC server failed: '' (ho_Serve h);
          http = unless_err [] (ho_ListenAndServe h '':80'')
      in unless_err ''failed to listen: '' (ho_Listen h (sv_addr cfg))
           (if http_first then http (grpc (Started cfg)) else grpc (http (Started cfg))))"

text \<open>The targets of the agents, in the bytes of the source.\<close>

definition agent_target :: string where
  "agent_target = [CHR 0xE6, CHR 0x9C, CHR 0xBA, CHR 0xE6, CHR 0x88, CHR 0xBF] @ ''1_IP:50051''"

definition tunnel_agents :: "(string \<times> string) list" where
  "tunnel_agents = [(''/app-a'', agent_target), (''/app-b'', agent_target), (''/file-service'', agent_target)]"

definition StartAgent_dial :: "('c, 'p) host \<Rightarrow> string \<times> string \<Rightarrow> ('c, 'p) client_config started" where
  "StartAgent_dial h agent =
     unless_err ''Dial failed: '' (ho_NewClient h (snd agent)) (Started (plain_client (snd agent) [''TunnelService'']))"

section \<open>Connections\<close>

text \<open>On one machine: the ports are the same, and the client dials an address of the machine that the server listens on.\<close>

definition reaches :: "string \<Rightarrow> string \<Rightarrow> bool" where
  "reaches dial listen =
     (case (SplitHostPort dial, SplitHostPort listen) of
        (Inr (dh, dp), Inr (lh, lp)) \<Rightarrow> dp = lp \<and> dh \<in> {''127.0.0.1'', ''localhost''} \<and> (lh = [] \<or> lh = ''127.0.0.1'')
      | _ \<Rightarrow> False)"

text \<open>\<open>accepts pool cert name\<close>; a client certificate is verified without a name.\<close>

fun handshake :: "('p \<Rightarrow> 'c \<Rightarrow> string option \<Rightarrow> bool) \<Rightarrow> ('c, 'p) client_creds \<Rightarrow> ('c, 'p) server_creds \<Rightarrow> bool" where
  "handshake accepts InsecureCreds NoTLS = True"
| "handshake accepts (ClientTLS pool name) (ServerTLS cert) = accepts pool cert (Some name)"
| "handshake accepts (ClientCert _ pool name) (ServerTLS cert) = accepts pool cert (Some name)"
| "handshake accepts (ClientCert mine pool name) (RequireClientCert cert authorities) =
     (accepts pool cert (Some name) \<and> accepts authorities mine None)"
| "handshake accepts _ _ = False"

definition connects ::
  "('p \<Rightarrow> 'c \<Rightarrow> string option \<Rightarrow> bool) \<Rightarrow> ('c, 'p) client_config \<Rightarrow> ('c, 'p) server_config \<Rightarrow> bool" where
  "connects accepts c s \<longleftrightarrow> reaches (cl_addr c) (sv_addr s) \<and> handshake accepts (cl_creds c) (sv_creds s)
     \<and> set (cl_services c) \<subseteq> set (sv_services s)
     \<and> (case cl_compressor c of None \<Rightarrow> True | Some z \<Rightarrow> z \<in> set (sv_compressors s))"

text \<open>The pairs of the examples.\<close>

definition plain_pairs :: "(('c, 'p) client_main \<times> ('c, 'p) server_main) list" where
  "plain_pairs =
     [(stream_client_main, stream_main), (cancellation_client_main, cancellation_main), (timeout_client_main, timeout_main),
      (errorhandling_client_main, errorhandling_main), (compression_client_main, compression_main),
      (multiplexing_client_main, multiplexing_main), (grpcprometheus_client_main, grpcprometheus_main True),
      (grpcprometheus_client_main, grpcprometheus_main False), (helloworld_client_main None, helloworld_main),
      (sendmessage_client_main, sendmessage_main)]"

definition tls_pairs :: "(('c, 'p) client_main \<times> ('c, 'p) server_main) list" where
  "tls_pairs = [(basicauth_client_main, basicauth_main), (token_client_main, token_main)]"

section \<open>Which pairs connect\<close>

lemma unless_err_Started [simp]: "unless_err what e k = Started x \<longleftrightarrow> e = None \<and> k = Started x"
  by (cases e) simp_all

lemma listen_then_serve_Started [simp]:
  "listen_then_serve h cfg = Started s \<longleftrightarrow> ho_Listen h (sv_addr cfg) = None \<and> ho_Serve h = None \<and> s = cfg"
  by (auto simp: listen_then_serve_def)

lemma connect_Started [simp]: "connect h cfg = Started c \<longleftrightarrow> ho_NewClient h (cl_addr cfg) = None \<and> c = cfg"
  by (auto simp: connect_def)

lemma split_addrs:
  "SplitHostPort ''127.0.0.1:50051'' = Inr (''127.0.0.1'', ''50051'')" "SplitHostPort ''localhost:50051'' = Inr (''localhost'', ''50051'')"
  "SplitHostPort '':50051'' = Inr ([], ''50051'')" "SplitHostPort ''127.0.0.1:8080'' = Inr (''127.0.0.1'', ''8080'')"
  "SplitHostPort '':8080'' = Inr ([], ''8080'')" "SplitHostPort '':9090'' = Inr ([], ''9090'')"
  by (simp_all add: SplitHostPort_def last_index_def first_index_def split_brackets_def)

lemma split_agent: "map_sum id snd (SplitHostPort agent_target) = Inr ''50051''"
  by (simp add: agent_target_def SplitHostPort_def last_index_def first_index_def split_brackets_def)

lemma reaches_pairs:
  "reaches ''127.0.0.1:50051'' ''127.0.0.1:50051''" "reaches ''127.0.0.1:50051'' '':50051''" "reaches ''localhost:50051'' '':50051''"
  "reaches ''localhost:50051'' ''127.0.0.1:50051''" "reaches ''127.0.0.1:8080'' '':8080''"
  by (simp_all add: reaches_def split_addrs)

lemmas order_mains = stream_main_def cancellation_main_def timeout_main_def errorhandling_main_def compression_main_def
  multiplexing_main_def helloworld_main_def sendmessage_main_def grpcprometheus_main_def
lemmas order_client_mains = stream_client_main_def cancellation_client_main_def timeout_client_main_def
  errorhandling_client_main_def compression_client_main_def multiplexing_client_main_def helloworld_client_main_def
  sendmessage_client_main_def grpcprometheus_client_main_def

lemma grpcprometheus_client_Started:
  "grpcprometheus_client_main h = Started c \<longleftrightarrow> ho_NewClient h ''127.0.0.1:50051'' = None \<and> ho_ListenAndServe h ''0.0.0.0:9094'' = None
     \<and> c = plain_client ''127.0.0.1:50051'' [''OrderManagement'']"
  by (cases "connect h (plain_client ''127.0.0.1:50051'' [''OrderManagement''])")
    (auto simp: grpcprometheus_client_main_def connect_def plain_client_def)

text \<open>
  Every client without TLS connects to the server of its example once both have started: it dials where the server
  listens, the server has the services that it calls and the compressor that it uses.
\<close>

theorem plain_pairs_connect:
  assumes "(cm, sm) \<in> set plain_pairs" and "cm hc = Started c" and "sm hs = Started s"
  shows "connects accepts c s"
proof -
  from assms(1) consider
      "cm = stream_client_main" "sm = stream_main" | "cm = cancellation_client_main" "sm = cancellation_main"
    | "cm = timeout_client_main" "sm = timeout_main" | "cm = errorhandling_client_main" "sm = errorhandling_main"
    | "cm = compression_client_main" "sm = compression_main" | "cm = multiplexing_client_main" "sm = multiplexing_main"
    | b where "cm = grpcprometheus_client_main" "sm = grpcprometheus_main b"
    | "cm = helloworld_client_main None" "sm = helloworld_main" | "cm = sendmessage_client_main" "sm = sendmessage_main"
    unfolding plain_pairs_def by auto
  then show ?thesis
  proof cases
    case (7 b)
    from assms(2) 7 have c: "c = plain_client ''127.0.0.1:50051'' [''OrderManagement'']" by (simp add: grpcprometheus_client_Started)
    from assms(3) 7 have "s = (plain_config ''127.0.0.1:50051'' [''OrderManagement''] False grpcprometheus_initSampleData)
        \<lparr>sv_unary := Some Metrics, sv_stream := Some Metrics\<rparr>" by (cases b) (simp_all add: grpcprometheus_main_def Let_def)
    with c show ?thesis by (simp add: connects_def reaches_pairs plain_client_def plain_config_def)
  qed (use assms(2,3) in \<open>auto simp: connects_def reaches_pairs order_mains order_client_mains plain_client_def plain_config_def\<close>)
qed

text \<open>A host on which everything works.\<close>

definition ready_host :: "(string, string) host" where
  "ready_host = \<lparr>ho_LoadX509KeyPair = (\<lambda>crt key. Inr crt), ho_ReadFile = Inr, ho_AppendCertsFromPEM = Some,
     ho_NewClientTLSFromFile = Inr, ho_Listen = (\<lambda>_. None), ho_Serve = None, ho_ListenAndServe = (\<lambda>_. None),
     ho_NewClient = (\<lambda>_. None)\<rparr>"

lemma plain_pairs_connect_witness:
  "\<exists>c s. compression_client_main ready_host = Started c \<and> compression_main ready_host = Started s
     \<and> connects (\<lambda>_ _ _. False) c s"
proof -
  obtain c where c: "compression_client_main ready_host = Started c"
    by (simp add: compression_client_main_def connect_def ready_host_def)
  obtain s where s: "compression_main ready_host = Started s"
    by (simp add: compression_main_def listen_then_serve_def ready_host_def)
  have "(compression_client_main, compression_main) \<in> set (plain_pairs :: (((string, string) client_main) \<times> _) list)"
    by (simp add: plain_pairs_def)
  from plain_pairs_connect [where accepts = "\<lambda>_ _ _. False", OF this, where hc = ready_host and hs = ready_host, OF c s]
  have "connects (\<lambda>_ _ _. False) c s" .
  with c s show ?thesis by blast
qed

text \<open>
  A pair with TLS connects exactly when the client's authorities accept the certificate for \<^verbatim>\<open>localhost\<close>; and the
  interceptor of the server wants the other kind of credentials than the client of its example sends.
\<close>

lemma product_tls_client_Started:
  "product_tls_client crt name rpc h = Started c \<Longrightarrow> \<exists>pool. ho_NewClientTLSFromFile h crt = Inr pool \<and>
     c = (plain_client ''localhost:50051'' [''ProductInfo''])\<lparr>cl_creds := ClientTLS pool name, cl_perRPC := Some rpc\<rparr>"
  by (cases "ho_NewClientTLSFromFile h crt") (simp_all add: product_tls_client_def)

lemma product_tls_main_Started:
  "product_tls_main crt key check h = Started s \<Longrightarrow> \<exists>cert. ho_LoadX509KeyPair h crt key = Inr cert \<and>
     s = (plain_config '':50051'' [''ProductInfo''] False Map.empty)\<lparr>sv_creds := ServerTLS cert, sv_unary := Some check\<rparr>"
  by (cases "ho_LoadX509KeyPair h crt key") (simp_all add: product_tls_main_def)

lemma tls_config_connects:
  "connects accepts
     ((plain_client ''localhost:50051'' [''ProductInfo''])\<lparr>cl_creds := ClientTLS pool name, cl_perRPC := Some rpc\<rparr>)
     ((plain_config '':50051'' [''ProductInfo''] False Map.empty)\<lparr>sv_creds := ServerTLS cert, sv_unary := Some check\<rparr>)
   = accepts pool cert (Some name)"
  by (simp add: connects_def reaches_pairs plain_client_def plain_config_def)

theorem tls_pairs_connect:
  assumes "(cm, sm) \<in> set tls_pairs" and "cm hc = Started c" and "sm hs = Started s"
  shows "\<exists>pool cert. cl_creds c = ClientTLS pool ''localhost'' \<and> sv_creds s = ServerTLS cert
        \<and> connects accepts c s = accepts pool cert (Some ''localhost'')
        \<and> (cl_perRPC c, sv_unary s) \<in> {(Some ''Basic'', Some ValidToken), (Some ''Bearer'', Some ValidBasicCredentials)}"
proof -
  from assms(1) consider "cm = basicauth_client_main" "sm = basicauth_main" | "cm = token_client_main" "sm = token_main"
    unfolding tls_pairs_def by auto
  then show ?thesis
  proof cases
    case 1
    with assms(2,3) product_tls_client_Started product_tls_main_Started show ?thesis
      unfolding basicauth_client_main_def basicauth_main_def by (fastforce simp: tls_config_connects)
  next
    case 2
    with assms(2,3) product_tls_client_Started product_tls_main_Started show ?thesis
      unfolding token_client_main_def token_main_def by (fastforce simp: tls_config_connects)
  qed
qed

text \<open>With certificates on both sides, the pair connects exactly when each side accepts the other's.\<close>

lemma mutualls_client_Started:
  "mutualls_client_main h = Started c \<Longrightarrow> \<exists>cert pool.
     c = (plain_client ''127.0.0.1:50051'' [''ProductInfo''])\<lparr>cl_creds := ClientCert cert pool ''127.0.0.1''\<rparr>"
  by (auto simp: mutualls_client_main_def split: sum.splits option.splits)

lemma mutualls_main_Started:
  "mutualls_main h = Started s \<Longrightarrow> \<exists>cert pool.
     s = (plain_config ''127.0.0.1:50051'' [''ProductInfo''] False Map.empty)\<lparr>sv_creds := RequireClientCert cert pool\<rparr>"
  by (auto simp: mutualls_main_def split: sum.splits option.splits)

lemma mutualls_pair_connects:
  assumes "mutualls_client_main hc = Started c" and "mutualls_main hs = Started s"
  shows "\<exists>mine pool cert authorities. cl_creds c = ClientCert mine pool ''127.0.0.1'' \<and> sv_creds s = RequireClientCert cert authorities
        \<and> connects accepts c s = (accepts pool cert (Some ''127.0.0.1'') \<and> accepts authorities mine None)"
  using mutualls_client_Started [OF assms(1)] mutualls_main_Started [OF assms(2)]
  by (auto simp: connects_def reaches_pairs plain_client_def plain_config_def)

text \<open>A server with TLS and a client without it never connect, nor the other way round.\<close>

lemma mixed_never_connect:
  "(cl_creds c = InsecureCreds) \<noteq> (sv_creds s = NoTLS) \<Longrightarrow> \<not> connects accepts c s"
  by (cases "cl_creds c"; cases "sv_creds s") (auto simp: connects_def)

text \<open>The agents of the tunnel dial another port than the one its server listens on, whatever their host is.\<close>

theorem agents_miss_server:
  assumes "agent \<in> set tunnel_agents" and "StartAgent_dial hc agent = Started c" and "tunnel_main b hs = Started s"
  shows "\<exists>host. SplitHostPort (cl_addr c) = Inr (host, ''50051'') \<and> SplitHostPort (sv_addr s) = Inr ([], ''9090'')
    \<and> \<not> connects accepts c s"
proof -
  from assms(1,2) have c: "cl_addr c = agent_target" by (auto simp: tunnel_agents_def StartAgent_dial_def plain_client_def)
  from assms(3) have s: "sv_addr s = '':9090''" by (cases b) (auto simp: tunnel_main_def Let_def plain_config_def)
  from split_agent obtain host where "SplitHostPort agent_target = Inr (host, ''50051'')"
    by (cases "SplitHostPort agent_target") auto
  then show ?thesis by (simp add: c s split_addrs connects_def reaches_def)
qed

lemma agents_miss_server_witness:
  "\<exists>host. SplitHostPort agent_target = Inr (host, ''50051'')"
  using agents_miss_server [of "(''/app-a'', agent_target)" ready_host "plain_client agent_target [''TunnelService'']" True ready_host
      "plain_config '':9090'' [''TunnelService''] False Map.empty"]
  by (auto simp: tunnel_agents_def StartAgent_dial_def tunnel_main_def ready_host_def plain_config_def plain_client_def)

section \<open>The counter of grpcprometheus\<close>

text \<open>
  \<^verbatim>\<open>AddOrder\<close> counts every call before it stores the order, under the label \<^verbatim>\<open>method\<close>, whose value is the identifier
  of the order.  The registry holds the metrics of the server and the counter.
\<close>

type_synonym counters = "string \<Rightarrow> nat"

definition grpcprometheus_AddOrder ::
  "bool \<Rightarrow> Order \<Rightarrow> orderMap \<times> counters \<Rightarrow> (status + string) \<times> orderMap \<times> counters" where
  "grpcprometheus_AddOrder exceeded orderReq s =
     (let (om, metric) = s;
          metric1 = metric(or_Id orderReq := metric (or_Id orderReq) + 1);
          (r, om1) = timed_AddOrder exceeded orderReq om
      in (r, om1, metric1))"

definition grpcprometheus_registry :: "string list" where
  "grpcprometheus_registry = [''grpc_server'', ''product_mgt_server_handle_count'']"

lemma orders_counted:
  "snd (snd (foldl (\<lambda>(r, s) (exceeded, req). grpcprometheus_AddOrder exceeded req s) (r0, om, \<lambda>_. 0) calls)) label
    = length (filter (\<lambda>(exceeded, req). or_Id req = label) calls)"
proof -
  have "snd (snd (foldl (\<lambda>(r, s) (exceeded, req). grpcprometheus_AddOrder exceeded req s) (r, om, metric) calls)) label
      = metric label + length (filter (\<lambda>(exceeded, req). or_Id req = label) calls)" for r om metric
  proof (induction calls arbitrary: r om metric)
    case (Cons c calls)
    obtain exceeded req where c: "c = (exceeded, req)" by (cases c)
    obtain r1 om1 where t: "timed_AddOrder exceeded req om = (r1, om1)" by fastforce
    have "grpcprometheus_AddOrder exceeded req (om, metric) = (r1, om1, metric(or_Id req := metric (or_Id req) + 1))"
      by (simp add: t grpcprometheus_AddOrder_def)
    then show ?case using Cons.IH [of r1 om1 "metric(or_Id req := metric (or_Id req) + 1)"] by (simp add: c fun_upd_def)
  qed simp
  from this [of r0 om "\<lambda>_. 0"] show ?thesis by simp
qed

end
