(* ===== verification/PatternMains.thy ===== *)
theory PatternMains
  imports Patterns Objects
begin

text \<open>
  The \<^verbatim>\<open>main\<close> functions of \<^verbatim>\<open>design_pattern\<close>: each builds its objects, makes the calls that the program makes and
  prints what they answer.  The lines are the bytes of the source (UTF-8); a program is the lines it prints and
  whether it returns or panics.
\<close>

section \<open>Texts and programs\<close>

definition t_auth :: string where
  "t_auth = [CHR 0xE8, CHR 0xAE, CHR 0xA4, CHR 0xE8, CHR 0xAF, CHR 0x81, CHR 0xE4, CHR 0xB8, CHR 0xAD,
    CHR 0xE9, CHR 0x97, CHR 0xB4, CHR 0xE4, CHR 0xBB, CHR 0xB6]"
definition t_log :: string where
  "t_log = [CHR 0xE6, CHR 0x97, CHR 0xA5, CHR 0xE5, CHR 0xBF, CHR 0x97, CHR 0xE4, CHR 0xB8, CHR 0xAD,
    CHR 0xE9, CHR 0x97, CHR 0xB4, CHR 0xE4, CHR 0xBB, CHR 0xB6]"
definition t_hello :: string where
  "t_hello = [CHR 0xE4, CHR 0xBD, CHR 0xA0, CHR 0xE5, CHR 0xA5, CHR 0xBD]"
definition t_printed :: string where
  "t_printed = [CHR 0xE6, CHR 0x89, CHR 0x93, CHR 0xE5, CHR 0x8D, CHR 0xB0, CHR 0xE6, CHR 0xB6, CHR 0x88,
    CHR 0xE6, CHR 0x81, CHR 0xAF]"
definition t_email :: string where
  "t_email = [CHR 0xE5, CHR 0x8F, CHR 0x91, CHR 0xE9, CHR 0x80, CHR 0x81, CHR 0xE9, CHR 0x82, CHR 0xAE,
    CHR 0xE4, CHR 0xBB, CHR 0xB6]"
definition t_tel :: string where
  "t_tel = [CHR 0xE5, CHR 0x8F, CHR 0x91, CHR 0xE9, CHR 0x80, CHR 0x81, CHR 0xE7, CHR 0x9F, CHR 0xAD,
    CHR 0xE4, CHR 0xBF, CHR 0xA1]"
definition t_user :: string where
  "t_user = [CHR 0xE7, CHR 0x94, CHR 0xA8, CHR 0xE6, CHR 0x88, CHR 0xB7] @ '' ''"
definition t_sent :: string where
  "t_sent = [CHR 0xE5, CHR 0x8F, CHR 0x91, CHR 0xE4, CHR 0xBA, CHR 0x86, CHR 0xE6, CHR 0xB6, CHR 0x88,
    CHR 0xE6, CHR 0x81, CHR 0xAF]"
definition t_received :: string where
  "t_received = [CHR 0xE6, CHR 0x8E, CHR 0xA5, CHR 0xE6, CHR 0x94, CHR 0xB6, CHR 0xE5, CHR 0x88, CHR 0xB0,
    CHR 0xE6, CHR 0xB6, CHR 0x88, CHR 0xE6, CHR 0x81, CHR 0xAF]"
definition t_feng :: string where
  "t_feng = [CHR 0xE6, CHR 0x9E, CHR 0xAB, CHR 0xE6, CHR 0x9E, CHR 0xAB]"
definition t_zhang :: string where
  "t_zhang = [CHR 0xE5, CHR 0xBC, CHR 0xA0, CHR 0xE4, CHR 0xB8, CHR 0x89]"
definition t_li :: string where
  "t_li = [CHR 0xE6, CHR 0x9D, CHR 0x8E, CHR 0xE5, CHR 0x9B, CHR 0x9B]"
definition t_hello_all :: string where
  "t_hello_all = [CHR 0xE4, CHR 0xBD, CHR 0xA0, CHR 0xE5, CHR 0xA5, CHR 0xBD, CHR 0xE5, CHR 0x95, CHR 0x8A]"
definition t_eaten :: string where
  "t_eaten = [CHR 0xE5, CHR 0x90, CHR 0x83, CHR 0xE4, CHR 0xBA, CHR 0x86, CHR 0xE5, CHR 0x90, CHR 0x97]"
definition t_i_ate :: string where
  "t_i_ate = [CHR 0xE6, CHR 0x88, CHR 0x91, CHR 0xE5, CHR 0x90, CHR 0x83, CHR 0xE4, CHR 0xBA, CHR 0x86]"
definition t_temp :: string where
  "t_temp = '' '' @ [CHR 0xE7, CHR 0x8E, CHR 0xB0, CHR 0xE5, CHR 0x9C, CHR 0xA8, CHR 0xE6, CHR 0xB8, CHR 0xA9,
    CHR 0xE5, CHR 0xBA, CHR 0xA6]"
definition t_switch_off :: string where
  "t_switch_off = [CHR 0xE5, CHR 0xBC, CHR 0x80, CHR 0xE5, CHR 0x85, CHR 0xB3, CHR 0xE5, CHR 0x85, CHR 0xB3,
    CHR 0xE9, CHR 0x97, CHR 0xAD]"
definition t_switch_on :: string where
  "t_switch_on = [CHR 0xE5, CHR 0xBC, CHR 0x80, CHR 0xE5, CHR 0x85, CHR 0xB3, CHR 0xE6, CHR 0x89, CHR 0x93,
    CHR 0xE5, CHR 0xBC, CHR 0x80]"
definition t_pay_ali :: string where
  "t_pay_ali = [CHR 0xE4, CHR 0xBD, CHR 0xBF, CHR 0xE7, CHR 0x94, CHR 0xA8, CHR 0xE6, CHR 0x94, CHR 0xAF,
    CHR 0xE4, CHR 0xBB, CHR 0x98, CHR 0xE5, CHR 0xAE, CHR 0x9D, CHR 0xE6, CHR 0x94, CHR 0xAF,
    CHR 0xE4, CHR 0xBB, CHR 0x98]"
definition t_pay_wei :: string where
  "t_pay_wei = [CHR 0xE4, CHR 0xBD, CHR 0xBF, CHR 0xE7, CHR 0x94, CHR 0xA8, CHR 0xE5, CHR 0xBE, CHR 0xAE,
    CHR 0xE4, CHR 0xBF, CHR 0xA1, CHR 0xE6, CHR 0x94, CHR 0xAF, CHR 0xE4, CHR 0xBB, CHR 0x98]
    "
definition t_boil :: string where
  "t_boil = [CHR 0xE7, CHR 0x83, CHR 0xA7, CHR 0xE6, CHR 0xB0, CHR 0xB4]"
definition t_brew :: string where
  "t_brew = [CHR 0xE5, CHR 0x86, CHR 0xB2, CHR 0xE6, CHR 0xB3, CHR 0xA1]"
definition t_sugar :: string where
  "t_sugar = [CHR 0xE5, CHR 0x8A, CHR 0xA0, CHR 0xE7, CHR 0xB3, CHR 0x96]"
definition t_pdf_text :: string where
  "t_pdf_text = ''pdf '' @ [CHR 0xE6, CHR 0x96, CHR 0x87, CHR 0xE6, CHR 0x9C, CHR 0xAC, CHR 0xE5, CHR 0x86, CHR 0x85,
    CHR 0xE5, CHR 0xAE, CHR 0xB9]"
definition t_pdf_image :: string where
  "t_pdf_image = ''pdf '' @ [CHR 0xE8, CHR 0x8E, CHR 0xB7, CHR 0xE5, CHR 0x8F, CHR 0x96, CHR 0xE5, CHR 0x9B, CHR 0xBE,
    CHR 0xE7, CHR 0x89, CHR 0x87, CHR 0xE7, CHR 0x9A, CHR 0x84] @ ''src''"
definition t_html_text :: string where
  "t_html_text = ''html '' @ [CHR 0xE6, CHR 0x96, CHR 0x87, CHR 0xE6, CHR 0x9C, CHR 0xAC, CHR 0xE5, CHR 0x86, CHR 0x85,
    CHR 0xE5, CHR 0xAE, CHR 0xB9]"
definition t_html_image :: string where
  "t_html_image = ''html '' @ [CHR 0xE8, CHR 0x8E, CHR 0xB7, CHR 0xE5, CHR 0x8F, CHR 0x96, CHR 0xE5, CHR 0x9B, CHR 0xBE,
    CHR 0xE7, CHR 0x89, CHR 0x87, CHR 0xE7, CHR 0x9A, CHR 0x84] @ ''src''"
definition t_ali_page :: string where
  "t_ali_page = [CHR 0xE6, CHR 0x94, CHR 0xAF, CHR 0xE4, CHR 0xBB, CHR 0x98, CHR 0xE5, CHR 0xAE, CHR 0x9D,
    CHR 0xE6, CHR 0x94, CHR 0xAF, CHR 0xE4, CHR 0xBB, CHR 0x98]"
definition t_wei_page :: string where
  "t_wei_page = [CHR 0xE5, CHR 0xBE, CHR 0xAE, CHR 0xE4, CHR 0xBF, CHR 0xA1, CHR 0xE6, CHR 0x94, CHR 0xAF,
    CHR 0xE4, CHR 0xBB, CHR 0x98]"
definition t_yin_page :: string where
  "t_yin_page = [CHR 0xE9, CHR 0x93, CHR 0xB6, CHR 0xE8, CHR 0x81, CHR 0x94, CHR 0xE6, CHR 0x94, CHR 0xAF,
    CHR 0xE4, CHR 0xBB, CHR 0x98]"
definition t_ali_link :: string where
  "t_ali_link = [CHR 0xE6, CHR 0x94, CHR 0xAF, CHR 0xE4, CHR 0xBB, CHR 0x98, CHR 0xE5, CHR 0xAE, CHR 0x9D,
    CHR 0xE6, CHR 0x94, CHR 0xAF, CHR 0xE4, CHR 0xBB, CHR 0x98, CHR 0xE9, CHR 0x93, CHR 0xBE,
    CHR 0xE6, CHR 0x8E, CHR 0xA5]"
definition t_wei_link :: string where
  "t_wei_link = [CHR 0xE5, CHR 0xBE, CHR 0xAE, CHR 0xE4, CHR 0xBF, CHR 0xA1, CHR 0xE6, CHR 0x94, CHR 0xAF,
    CHR 0xE4, CHR 0xBB, CHR 0x98, CHR 0xE9, CHR 0x93, CHR 0xBE, CHR 0xE6, CHR 0x8E, CHR 0xA5]
    "
definition t_ali_refund :: string where
  "t_ali_refund = [CHR 0xE6, CHR 0x94, CHR 0xAF, CHR 0xE4, CHR 0xBB, CHR 0x98, CHR 0xE5, CHR 0xAE, CHR 0x9D,
    CHR 0xE9, CHR 0x80, CHR 0x80, CHR 0xE6, CHR 0xAC, CHR 0xBE, CHR 0xE5, CHR 0x95, CHR 0xA6]
    "
definition t_wei_refund :: string where
  "t_wei_refund = [CHR 0xE5, CHR 0xBE, CHR 0xAE, CHR 0xE4, CHR 0xBF, CHR 0xA1, CHR 0xE9, CHR 0x80, CHR 0x80,
    CHR 0xE6, CHR 0xAC, CHR 0xBE, CHR 0xE5, CHR 0x95, CHR 0xA6]"
definition t_door_built :: string where
  "t_door_built = [CHR 0xE9, CHR 0x97, CHR 0xA8, CHR 0xE5, CHR 0xBB, CHR 0xBA, CHR 0xE9, CHR 0x80, CHR 0xA0,
    CHR 0xE6, CHR 0x88, CHR 0x90, CHR 0xE5, CHR 0x8A, CHR 0x9F]"
definition t_window_built :: string where
  "t_window_built = [CHR 0xE7, CHR 0xAA, CHR 0x97, CHR 0xE6, CHR 0x88, CHR 0xB7, CHR 0xE5, CHR 0xBB, CHR 0xBA,
    CHR 0xE9, CHR 0x80, CHR 0xA0, CHR 0xE6, CHR 0x88, CHR 0x90, CHR 0xE5, CHR 0x8A, CHR 0x9F]
    "
definition t_door :: string where
  "t_door = [CHR 0xE9, CHR 0x97, CHR 0xA8]"
definition t_window :: string where
  "t_window = [CHR 0xE7, CHR 0xAA, CHR 0x97]"
definition t_epson :: string where
  "t_epson = [CHR 0xE4, CHR 0xBD, CHR 0xBF, CHR 0xE7, CHR 0x94, CHR 0xA8, CHR 0xE7, CHR 0x88, CHR 0xB1,
    CHR 0xE6, CHR 0x99, CHR 0xAE, CHR 0xE7, CHR 0x94, CHR 0x9F, CHR 0xE6, CHR 0x89, CHR 0x93,
    CHR 0xE5, CHR 0x8D, CHR 0xB0, CHR 0xE6, CHR 0x9C, CHR 0xBA, CHR 0xE6, CHR 0x89, CHR 0x93,
    CHR 0xE5, CHR 0x8D, CHR 0xB0, CHR 0xE6, CHR 0x96, CHR 0x87, CHR 0xE4, CHR 0xBB, CHR 0xB6]
    "
definition t_hp :: string where
  "t_hp = [CHR 0xE4, CHR 0xBD, CHR 0xBF, CHR 0xE7, CHR 0x94, CHR 0xA8, CHR 0xE6, CHR 0x83, CHR 0xA0,
    CHR 0xE6, CHR 0x99, CHR 0xAE, CHR 0xE6, CHR 0x89, CHR 0x93, CHR 0xE5, CHR 0x8D, CHR 0xB0,
    CHR 0xE6, CHR 0x9C, CHR 0xBA, CHR 0xE6, CHR 0x89, CHR 0x93, CHR 0xE5, CHR 0x8D, CHR 0xB0,
    CHR 0xE6, CHR 0x96, CHR 0x87, CHR 0xE4, CHR 0xBB, CHR 0xB6]"
definition t_mac :: string where
  "t_mac = [CHR 0xE4, CHR 0xBD, CHR 0xBF, CHR 0xE7, CHR 0x94, CHR 0xA8] @ ''mac'' @ [CHR 0xE7, CHR 0x94, CHR 0xB5, CHR 0xE8, CHR 0x84, CHR 0x91]"
definition t_windows :: string where
  "t_windows = [CHR 0xE4, CHR 0xBD, CHR 0xBF, CHR 0xE7, CHR 0x94, CHR 0xA8] @ ''windows'' @ [CHR 0xE7, CHR 0x94, CHR 0xB5, CHR 0xE8, CHR 0x84, CHR 0x91]"
definition t_request :: string where
  "t_request = [CHR 0xE8, CHR 0xAF, CHR 0xB7, CHR 0xE6, CHR 0xB1, CHR 0x82] @ '' ''"
definition t_log_before :: string where
  "t_log_before = [CHR 0xE6, CHR 0x97, CHR 0xA5, CHR 0xE5, CHR 0xBF, CHR 0x97, CHR 0xE8, CHR 0xAE, CHR 0xB0,
    CHR 0xE5, CHR 0xBD, CHR 0x95, CHR 0xE5, CHR 0x89, CHR 0x8D]"
definition t_log_after :: string where
  "t_log_after = [CHR 0xE6, CHR 0x97, CHR 0xA5, CHR 0xE5, CHR 0xBF, CHR 0x97, CHR 0xE8, CHR 0xAE, CHR 0xB0,
    CHR 0xE5, CHR 0xBD, CHR 0x95, CHR 0xE5, CHR 0x90, CHR 0x8E]"
definition t_elapsed :: string where
  "t_elapsed = [CHR 0xE8, CHR 0x80, CHR 0x97, CHR 0xE6, CHR 0x97, CHR 0xB6]"
definition t_deduct :: string where
  "t_deduct = [CHR 0xE6, CHR 0x89, CHR 0xA3, CHR 0xE5, CHR 0xBA, CHR 0x93, CHR 0xE5, CHR 0xAD, CHR 0x98]"
definition t_paid :: string where
  "t_paid = [CHR 0xE6, CHR 0x94, CHR 0xAF, CHR 0xE4, CHR 0xBB, CHR 0x98]"
definition t_goods :: string where
  "t_goods = [CHR 0xE5, CHR 0x8F, CHR 0x91, CHR 0xE8, CHR 0xB4, CHR 0xA7]"
definition t_use :: string where
  "t_use = [CHR 0xE4, CHR 0xBD, CHR 0xBF, CHR 0xE7, CHR 0x94, CHR 0xA8] @ '' ''"
definition t_query :: string where
  "t_query = '' '' @ [CHR 0xE8, CHR 0xBF, CHR 0x9E, CHR 0xE6, CHR 0x8E, CHR 0xA5, CHR 0xE5, CHR 0xAF, CHR 0xB9,
    CHR 0xE8, CHR 0xB1, CHR 0xA1] @ '' '' @ [CHR 0xE8, CHR 0xBF, CHR 0x9B, CHR 0xE8, CHR 0xA1, CHR 0x8C, CHR 0xE6, CHR 0x9F, CHR 0xA5,
    CHR 0xE8, CHR 0xAF, CHR 0xA2, CHR 0xE6, CHR 0x93, CHR 0x8D, CHR 0xE4, CHR 0xBD, CHR 0x9C]
     @ '' ''"
definition t_stored :: string where
  "t_stored = [CHR 0xE6, CHR 0x97, CHR 0xA5, CHR 0xE5, CHR 0xBF, CHR 0x97, CHR 0xE8, CHR 0x90, CHR 0xBD,
    CHR 0xE5, CHR 0xBA, CHR 0x93]"
definition t_recorded :: string where
  "t_recorded = [CHR 0xE8, CHR 0xAE, CHR 0xB0, CHR 0xE5, CHR 0xBD, CHR 0x95] @ '' '' @ [CHR 0xE8, CHR 0xB0, CHR 0x83, CHR 0xE7, CHR 0x94, CHR 0xA8, CHR 0xE4, CHR 0xBA, CHR 0x86]
     @ '' info''"

type_synonym program = "string list \<times> unit go"

definition returns :: program where "returns = ([], Inr ())"
definition prints :: "string list \<Rightarrow> program \<Rightarrow> program" where "prints ls p = (ls @ fst p, snd p)"
definition after :: "string list \<times> unit go \<Rightarrow> program \<Rightarrow> program" where
  "after r p = (case snd r of Inr u \<Rightarrow> prints (fst r) p | Inl e \<Rightarrow> (fst r, Inl e))"
definition value_of :: "'a go \<Rightarrow> ('a \<Rightarrow> program) \<Rightarrow> program" where
  "value_of v k = (case v of Inl e \<Rightarrow> ([], Inl e) | Inr x \<Rightarrow> k x)"

lemmas program_simps = returns_def prints_def after_def value_of_def

text \<open>\<^verbatim>\<open>fmt.Println\<close> puts a space between its operands.\<close>

definition println :: "string list \<Rightarrow> string" where "println ws = concat (map (\<lambda>w. w @ '' '') (butlast ws)) @ last ws"

section \<open>Behavioural patterns\<close>

text \<open>
  The chain: \<^verbatim>\<open>http.ListenAndServe\<close> serves every request with the engine and returns with an error, which the
  program ignores; \<open>served\<close> requests are served one after another.
\<close>

definition chain_line :: "string \<Rightarrow> string" where
  "chain_line m = (if m = ''auth'' then t_auth else if m = ''log'' then t_log else m)"

definition chain_engine :: Engine where
  "chain_engine = Engine_Use AuthMiddleware (Engine_Use LogMiddleware \<lparr>en_handlers = []\<rparr>)"

definition chain_main :: "nat \<Rightarrow> program" where
  "chain_main served =
     prints [''web server on :8080''] (prints (concat (replicate served (map chain_line (Engine_ServeHTTP chain_engine)))) returns)"

fun command_line :: "command_event \<Rightarrow> string" where
  "command_line (Printed content) = println [t_printed, content]"
| "command_line (Emailed to content) = println [t_email, to, content]"
| "command_line (Texted to content) = println [t_tel, to, content]"

definition command_main :: program where
  "command_main =
     (let queue = [];
          queue = AddCommand (PrintCommand t_hello) queue;
          queue = AddCommand (SendEmail ''xxx@qq.com'' t_hello) queue;
          queue = AddCommand (SendTel ''11122223333'' t_hello) queue
      in prints (map command_line (TaskQueue_Command queue)) returns)"

definition interpreter_main :: program where
  "interpreter_main =
     (case ParseTemplate ''Hello, {{ Name }}! You are {{Age}} years old.'' of
        None \<Rightarrow> ([], Inl SliceOutOfRange)
      | Some template \<Rightarrow> prints [Template_Interpreter [''Name'' \<mapsto> ''fengfeng'', ''Age'' \<mapsto> int_text 21] template] returns)"

definition iterator_main :: program where
  "iterator_main =
     (case iterate (NewIntSliceIterator [1, 2, 3, 4, 5]) of
        None \<Rightarrow> ([], Inl IndexOutOfRange)
      | Some values \<Rightarrow> prints (map int_text values) returns)"

fun chat_line :: "chat_event \<Rightarrow> string" where
  "chat_line (Sends name msg) = t_user @ name @ '' '' @ t_sent @ '' '' @ msg"
| "chat_line (Receives name msg) = t_user @ name @ '' '' @ t_received @ '' '' @ msg"

definition mediator_main :: program where
  "mediator_main =
     (let u1 = \<lparr>us_Name = t_feng, us_room = 0\<rparr>; u2 = \<lparr>us_Name = t_zhang, us_room = 0\<rparr>; u3 = \<lparr>us_Name = t_li, us_room = 0\<rparr>;
          rooms = (\<lambda>_. ChatRoom_Register u3 (ChatRoom_Register u2 (ChatRoom_Register u1 [])))
      in prints (map chat_line (User_SendMsg rooms u1 t_hello_all))
           (prints (map chat_line (User_SendMsg rooms u2 t_eaten))
              (prints (map chat_line (User_SendMsg rooms u3 t_i_ate)) returns)))"

definition memento_main :: program where
  "memento_main =
     (let text1 = SetState ''1'' \<lparr>tx_state = []\<rparr>;
          states = Manage_Save (TextNode_Save text1) [];
          text2 = SetState ''2'' text1;
          states = Manage_Save (TextNode_Save text2) states
      in prints [GetState text2] (value_of (Manage_Back 0 states) (\<lambda>m. prints [m] returns)))"

definition weather_line :: "string \<times> int \<Rightarrow> string" where "weather_line e = fst e @ t_temp @ int_text (snd e)"

definition observer_main :: program where
  "observer_main =
     (let zhan = RegisterObserver t_zhang (RegisterObserver t_feng \<lparr>wz_observerList = [], wz_wd = 0\<rparr>);
          (zhan1, first) = Weather_SendMsg 8 zhan;
          (zhan2, second) = Weather_SendMsg 0 zhan1
      in prints (map weather_line first) (prints (map weather_line second) returns))"

fun switch_line :: "switch_event \<Rightarrow> string" where
  "switch_line SwitchedOff = t_switch_off"
| "switch_line SwitchedOn = t_switch_on"

definition state_main :: program where
  "state_main =
     (let (e1, c1) = Context_Switch OffState; (e2, c2) = Context_Switch c1; (e3, c3) = Context_Switch c2
      in prints (map switch_line [e1, e2, e3]) returns)"

fun pay_line :: "pay_event \<Rightarrow> string" where
  "pay_line (PaidByAli money) = println [t_pay_ali, int_text (sint money)]"
| "pay_line (PaidByWei money) = println [t_pay_wei, int_text (sint money)]"

definition strategy_main :: program where
  "strategy_main =
     (let ps = SetPay AliPayFactory \<lparr>ps_pay = None\<rparr>
      in value_of (PayStrategy_Pay 12 ps) (\<lambda>e1. prints [pay_line e1]
           (value_of (PayStrategy_Pay 12 (SetPay WeiXinPayFactory ps)) (\<lambda>e2. prints [pay_line e2] returns))))"

fun brew_line :: "brew_event \<Rightarrow> string" where
  "brew_line BoilWater = t_boil"
| "brew_line Brew = t_brew"
| "brew_line AddSugar = t_sugar"

definition template_main :: program where
  "template_main = prints (map brew_line (MakeTemplate Tea)) (prints (map brew_line (MakeTemplate Coffee)) returns)"

fun visit_line :: "visit_event \<Rightarrow> string" where
  "visit_line (PdfText content) = println [t_pdf_text, content]"
| "visit_line (PdfImage src) = println [t_pdf_image, src]"
| "visit_line (HtmlText content) = println [t_html_text, content]"
| "visit_line (HtmlImage src) = println [t_html_image, src]"

definition visitor_main :: program where
  "visitor_main =
     (let document = AddElement (ImageElement ''abc.png'') (AddElement (TextElement ''xxx'') (AddElement (TextElement t_hello) []))
      in prints (map visit_line (Document_Accept PDFVisitor document))
           (prints (map visit_line (Document_Accept HTMLVisitor document)) returns))"

section \<open>Creational patterns\<close>

fun page_text :: "page \<Rightarrow> string" where
  "page_text AliPage = t_ali_page"
| "page_text WeiXinPage = t_wei_page"
| "page_text YinLianPage = t_yin_page"
| "page_text AliLink = t_ali_link"
| "page_text WeiXinLink = t_wei_link"

fun refund_line :: "refund_event \<Rightarrow> string" where
  "refund_line AliRefunded = t_ali_refund"
| "refund_line WeiXinRefunded = t_wei_refund"

definition abstract_factory_main :: program where
  "abstract_factory_main =
     prints [page_text (Pay_PayPage (Family_CreatePay AliFamily) 15),
             refund_line (fst (Refund_Refund (Family_CreateRefund AliFamily) [])),
             page_text (Pay_PayPage (Family_CreatePay WeiXinFamily) 15),
             refund_line (fst (Refund_Refund (Family_CreateRefund WeiXinFamily) []))] returns"

text \<open>A structure behind a pointer is printed with an ampersand.\<close>

definition builder_main :: program where
  "builder_main =
     (let (b, heap) = NewBao [];
          (house, heap) = Boos_GetHouse t_door t_window b heap
      in prints [t_door_built, t_window_built]
           (prints [''&{'' @ println [hs_Door (heap ! house), hs_Window (heap ! house)] @ ''}''] returns))"

definition factory_method_main :: program where
  "factory_method_main =
     prints (map (\<lambda>f. page_text (Pay_PayPage (CreatePay f) 15)) [AliPayFactory, WeiXinPayFactory, YinLianPayFactory]) returns"

definition student_text :: "Student \<Rightarrow> string" where
  "student_text s = ''{'' @ println [sd_Name s, int_text (sd_Age s)] @ ''}''"

definition prototype_main :: program where
  "prototype_main =
     (let heap = [\<lparr>sd_Name = ''fengfeng'', sd_Age = 21\<rparr>];
          (s2, heap) = Clone 0 heap;
          heap = heap[s2 := (heap ! s2)\<lparr>sd_Name := ''zhangsan''\<rparr>];
          heap = heap[s2 := (heap ! s2)\<lparr>sd_Age := 25\<rparr>]
      in prints [student_text (heap ! 0)] (prints [''&'' @ student_text (heap ! s2)] returns))"

definition simple_factory_main :: program where
  "simple_factory_main =
     value_of (pay_page_of (NewPayPage AliPayType) 12) (\<lambda>p1. prints [page_text p1]
       (value_of (pay_page_of (NewPayPage WeiXinPayType) 12) (\<lambda>p2. prints [page_text p2] returns)))"

text \<open>\<open>pointer\<close> is what \<^verbatim>\<open>%p\<close> makes of the address of a database.\<close>

definition singleton_main :: "(nat option \<Rightarrow> string) \<Rightarrow> program" where
  "singleton_main pointer =
     (case get_many 3 \<lparr>sg_once = False, sg_db = None, sg_made = 0\<rparr> of (ds, s) \<Rightarrow> prints (map pointer ds) returns)"

section \<open>Structural patterns\<close>

definition adapter_main :: program where
  "adapter_main =
     value_of (PayPage WeiXinPayI 1) (\<lambda>p1. prints [page_text p1]
       (value_of (PayPage (AliPayAdapter (Some ())) 1) (\<lambda>p2. prints [page_text p2] returns)))"

fun print_line :: "print_event \<Rightarrow> string" where
  "print_line (UsesMachine Mac) = t_mac"
| "print_line (UsesMachine Windows) = t_windows"
| "print_line (PrintsWith Epson) = t_epson"
| "print_line (PrintsWith Hp) = t_hp"

definition bridge_main :: program where
  "bridge_main =
     (case Computer_Print ''xx'' (SetPrinter Epson \<lparr>cp_machine = Windows, cp_printer = None\<rparr>) of
        (es, r) \<Rightarrow> after (map print_line es, r) returns)"

definition composite_root :: fnode where
  "composite_root = DirNode ''CreationalPatterns''
     [DirNode ''AbstractFactory'' [FileNode ''AbstractFactory.go''], FileNode ''exit.go'']"

definition composite_main :: program where "composite_main = prints (Display [] composite_root) returns"

text \<open>\<open>sub\<close> is the text of the time that the request took.\<close>

fun req_line :: "string \<Rightarrow> req_event \<Rightarrow> string" where
  "req_line sub (Requests url) = t_request @ url"
| "req_line sub LogBefore = t_log_before"
| "req_line sub LogAfter = t_log_after"
| "req_line sub Elapsed = println [t_elapsed, sub]"

definition decorator_main :: "string \<Rightarrow> program" where
  "decorator_main sub =
     (case Handler (MonitorDecorator (LogReqDecorator Req)) ''baidu.com'' of (es, res) \<Rightarrow> prints (map (req_line sub) es) returns)"

fun order_line :: "order_event \<Rightarrow> string" where
  "order_line Deduction = t_deduct"
| "order_line OrderPaid = t_paid"
| "order_line SendOutGoods = t_goods"

definition facade_main :: program where
  "facade_main = (case Order_Place NewOrder of (es, r) \<Rightarrow> after (map order_line es, r) returns)"

definition Query :: "int \<Rightarrow> string \<Rightarrow> string" where "Query db s = t_use @ int_text db @ t_query @ s"

text \<open>\<open>pick\<close> is where the visit of the pool begins, each time.\<close>

definition use_pool :: "int \<Rightarrow> DBPool \<Rightarrow> string \<times> DBPool" where
  "use_pool pick pool = (case GetDB pick pool of (db, pool') \<Rightarrow> (Query db ''select * from xxx'', DBPool_Release db pool'))"

definition flyweight_main :: "int \<Rightarrow> int \<Rightarrow> int \<Rightarrow> program" where
  "flyweight_main pick1 pick2 pick3 =
     (let (line1, pool1) = use_pool pick1 (NewDBPool 1);
          (line2, pool2) = use_pool pick2 pool1;
          (line3, pool3) = use_pool pick3 pool2
      in prints [line1, line2, line3] returns)"

fun proxy_log_line :: "proxy_log_event \<Rightarrow> string" where
  "proxy_log_line LogStored = t_stored"
| "proxy_log_line LogRecorded = t_recorded"

definition proxy_main :: program where
  "proxy_main = (case ProxyLog_Info ''zxxx'' \<lparr>pl_log = None\<rparr> of (es, p) \<Rightarrow> prints (map proxy_log_line es) returns)"

section \<open>What the programs print\<close>

lemma decimal_21: "int_text 21 = ''21''" "int_text 25 = ''25''" "int_text 12 = ''12''" "int_text 8 = ''8''" "int_text 0 = ''0''"
  "int_text 1 = ''1''" "int_text 2 = ''2''" "int_text 3 = ''3''" "int_text 4 = ''4''" "int_text 5 = ''5''"
  by (simp_all add: int_text_def decimal_def print_base.simps digit_of_def char_of_def bit_0)

text \<open>The interpreter: the template is filled in.\<close>

lemma interpreter_prints: "interpreter_main = ([''Hello, fengfeng! You are 21 years old.''], Inr ())"
proof -
  have parse: "ParseTemplate ''Hello, {{ Name }}! You are {{Age}} years old.''
      = Some (template_nodes [(''Hello, '', '' Name ''), (''! You are '', ''Age'')] '' years old.'')"
    using parse_print [of "[(''Hello, '', '' Name ''), (''! You are '', ''Age'')]" "'' years old.''"] by (simp add: ParseTemplate_def)
  have "TrimSpace '' Name '' = ''Name''" "TrimSpace ''Age'' = ''Age''" by (simp_all add: TrimSpace_def trim_front.simps white_space_def)
  with parse show ?thesis by (simp add: interpreter_main_def program_simps interpret_nodes decimal_21)
qed

lemma iterator_prints: "iterator_main = ([''1'', ''2'', ''3'', ''4'', ''5''], Inr ())"
  by (simp add: iterator_main_def iterator_visits_all program_simps decimal_21)

text \<open>A request to the chain is logged before it is authorized; the order of \<^verbatim>\<open>Use\<close> decides.\<close>

lemma chain_prints: "chain_main served = (''web server on :8080'' # concat (replicate served [t_log, t_auth]), Inr ())"
proof -
  have "Engine_ServeHTTP chain_engine = [''log'', ''auth'']" unfolding chain_engine_def by (rule auth_ends_chain)
  then show ?thesis by (simp add: chain_main_def program_simps chain_line_def)
qed

text \<open>Nobody receives what he sends himself, and the others receive it in the order of registration.\<close>

lemma mediator_prints:
  "mediator_main = (map chat_line
     [Sends t_feng t_hello_all, Receives t_zhang t_hello_all, Receives t_li t_hello_all,
      Sends t_zhang t_eaten, Receives t_feng t_eaten, Receives t_li t_eaten,
      Sends t_li t_i_ate, Receives t_feng t_i_ate, Receives t_zhang t_i_ate], Inr ())"
proof -
  have "t_feng \<noteq> t_zhang" "t_feng \<noteq> t_li" "t_zhang \<noteq> t_li" by (simp_all add: t_feng_def t_zhang_def t_li_def)
  then show ?thesis
    by (auto simp: mediator_main_def Let_def User_SendMsg_def chat_receivers ChatRoom_Register_def program_simps)
qed

text \<open>The memento answers the first state, although another has been set and saved since.\<close>

lemma memento_prints: "memento_main = ([''2'', ''1''], Inr ())"
  by (simp add: memento_main_def Let_def SetState_def Manage_Save_def TextNode_Save_def GetState_def Manage_Back_def
      slice_get_def program_simps)

lemma pattern_prints:
  "observer_main = (map weather_line [(t_feng, 8), (t_zhang, 8), (t_feng, 0), (t_zhang, 0)], Inr ())"
  "state_main = ([t_switch_on, t_switch_off, t_switch_on], Inr ())"
  "strategy_main = ([t_pay_ali @ '' 12'', t_pay_wei @ '' 12''], Inr ())"
  "template_main = ([t_boil, t_brew, t_boil, t_brew, t_sugar], Inr ())"
  "command_main = ([println [t_printed, t_hello], println [t_email, ''xxx@qq.com'', t_hello], println [t_tel, ''11122223333'', t_hello]], Inr ())"
  "visitor_main = ([println [t_pdf_text, t_hello], println [t_pdf_text, ''xxx''], println [t_pdf_image, ''abc.png''],
     println [t_html_text, t_hello], println [t_html_text, ''xxx''], println [t_html_image, ''abc.png'']], Inr ())"
  by (simp_all add: observer_main_def state_main_def strategy_main_def template_main_def command_main_def visitor_main_def
      Let_def RegisterObserver_def Weather_SendMsg_def Weather_Notify_def SetPay_def PayStrategy_Pay_def MakeTemplate_def
      AddCommand_def TaskQueue_Command_def AddElement_def Document_Accept_def PDFVisitor_def HTMLVisitor_def
      program_simps println_def decimal_21)

lemma creational_prints:
  "abstract_factory_main = ([t_ali_page, t_ali_refund, t_wei_page, t_wei_refund], Inr ())"
  "factory_method_main = ([t_ali_page, t_wei_page, t_yin_page], Inr ())"
  "simple_factory_main = ([t_ali_page, t_wei_page], Inr ())"
  "builder_main = ([t_door_built, t_window_built, ''&{'' @ t_door @ '' '' @ t_window @ ''}''], Inr ())"
  "prototype_main = ([''{fengfeng 21}'', ''&{zhangsan 25}''], Inr ())"
  "singleton_main pointer = (replicate 3 (pointer (Some 0)), Inr ())"
  by (simp_all add: abstract_factory_main_def factory_method_main_def simple_factory_main_def builder_main_def
      prototype_main_def singleton_main_def NewPayPage_def AliPayType_def WeiXinPayType_def pay_page_of_def Let_def NewBao_def
      Boos_GetHouse_def BuildDoor_def BuildWindow_def Clone_def student_text_def println_def decimal_21 program_simps
      numeral_3_eq_3 singleton_one del: get_many.simps)

lemma structural_prints:
  "adapter_main = ([t_wei_link, t_ali_link], Inr ())"
  "bridge_main = ([t_windows, t_epson], Inr ())"
  "composite_main = ([''CreationalPatterns'', ''  AbstractFactory'', ''    AbstractFactory.go'', ''  exit.go''], Inr ())"
  "decorator_main sub = ([t_log_before, t_request @ ''baidu.com'', t_log_after, t_elapsed @ '' '' @ sub], Inr ())"
  "facade_main = ([t_deduct, t_paid, t_goods], Inr ())"
  "proxy_main = ([t_stored, t_recorded], Inr ())"
  by (simp_all add: adapter_main_def bridge_main_def composite_main_def decorator_main_def facade_main_def proxy_main_def
      Computer_Print_def SetPrinter_def composite_root_def new_order_places ProxyLog_Info_def GetPayPage_def program_simps println_def)

text \<open>However the pool is visited, the one connection is used again after it has been given back; none is made anew.\<close>

lemma flyweight_prints:
  assumes "pick1 = 0" and "pick2 = 0" and "pick3 = 0"
  shows "flyweight_main pick1 pick2 pick3 = (replicate 3 (Query 0 ''select * from xxx''), Inr ())"
  using assms by (simp add: flyweight_main_def use_pool_def NewDBPool_def GetDB_def DBPool_Release_def program_simps numeral_3_eq_3)

text \<open>
  None of the programs panics: with the objects that they build no interface or pointer is nil and no index out of range.
\<close>

theorem patterns_return:
  "\<forall>m\<in>set [chain_main served, command_main, interpreter_main, iterator_main, mediator_main, memento_main, observer_main,
      state_main, strategy_main, template_main, visitor_main, abstract_factory_main, builder_main, factory_method_main,
      prototype_main, simple_factory_main, singleton_main pointer, adapter_main, bridge_main, composite_main,
      decorator_main sub, facade_main, flyweight_main pick1 pick2 pick3, proxy_main].
     snd m = Inr () \<and> fst m \<noteq> []"
  by (simp add: chain_prints interpreter_prints iterator_prints mediator_prints memento_prints pattern_prints
      creational_prints structural_prints) (simp add: flyweight_main_def program_simps split: prod.splits)

end
