(* ===== verification/UdpEcho.thy ===== *)
theory UdpEcho
  imports NetAddr
begin

text \<open>
  The echo programs over UDP (\<^verbatim>\<open>cmd/udp\<close>): a server that answers every datagram, and a client that sends the lines
  of its standard input and waits for an answer to each.  Both in one step relation with the datagrams
  between them; with faults, datagrams get lost and calls of the sockets fail.
\<close>

section \<open>The programs\<close>

definition bufferSize :: nat where "bufferSize = 1024"

text \<open>\<^verbatim>\<open>reader.ReadString\<close>: up to the newline, or what there is at the end; its error is ignored.\<close>

definition ReadString :: "string \<Rightarrow> string \<times> string" where
  "ReadString s = (let rest = dropWhile (\<lambda>c. c \<noteq> CHR 0x0A) s
                   in (takeWhile (\<lambda>c. c \<noteq> CHR 0x0A) s @ take 1 rest, drop 1 rest))"

datatype echo_phase = Prompting | Awaiting | Exited

record udp_client =
  uc_stdin :: string
  uc_phase :: echo_phase
  uc_out :: "string list"

text \<open>One turn of the loop up to the write: the message to send, or the end of the program.\<close>

definition client_turn :: "udp_client \<Rightarrow> string option \<times> udp_client" where
  "client_turn c =
     (let (line, rest) = ReadString (uc_stdin c);
          input = TrimSpace line
      in if input = ''exit'' then (None, c\<lparr>uc_stdin := rest, uc_phase := Exited\<rparr>)
         else (Some input, c\<lparr>uc_stdin := rest, uc_phase := Awaiting\<rparr>))"

text \<open>A datagram fills the buffer, and what does not fit is lost.\<close>

definition client_receive :: "string \<Rightarrow> udp_client \<Rightarrow> udp_client" where
  "client_receive d c =
     c\<lparr>uc_phase := Prompting, uc_out := uc_out c @ [''Received from server: '' @ take bufferSize d]\<rparr>"

definition client_fails :: "string \<Rightarrow> string \<Rightarrow> udp_client \<Rightarrow> udp_client" where
  "client_fails what err c = c\<lparr>uc_phase := Exited, uc_out := uc_out c @ [what @ err]\<rparr>"

text \<open>The server: what it prints and what it answers; it goes on after every error.\<close>

definition server_message :: "string \<Rightarrow> string" where "server_message d = take bufferSize d"
definition server_response :: "string \<Rightarrow> string" where "server_response d = ''Server received: '' @ server_message d"

text \<open>One turn of its loop, for what \<^verbatim>\<open>ReadFromUDP\<close> and \<^verbatim>\<open>WriteToUDP\<close> answer; the answer that leaves, and to whom.\<close>

fun server_turn :: "string + string \<times> string \<Rightarrow> string option \<Rightarrow> string list \<times> (string \<times> string) option" where
  "server_turn (Inl err) written = ([''Error reading: '' @ err], None)"
| "server_turn (Inr (clientAddr, d)) written =
     (let received = ''Received from '' @ clientAddr @ '': '' @ server_message d in
      case written of
        None \<Rightarrow> ([received], Some (clientAddr, server_response d))
      | Some err \<Rightarrow> ([received, ''Error writing: '' @ err], None))"

fun server_loop :: "((string + string \<times> string) \<times> string option) list \<Rightarrow> string list \<times> (string \<times> string) list" where
  "server_loop [] = ([], [])"
| "server_loop ((read, written) # rs) =
     (let (ls, answer) = server_turn read written; (ls', answers) = server_loop rs
      in (ls @ ls', (case answer of None \<Rightarrow> [] | Some a \<Rightarrow> [a]) @ answers))"

text \<open>Before their loops the programs exit on an error with code 1.\<close>

datatype 'a program_start = ExitsWith1 string | Starts string 'a

definition udp_client_main :: "string option \<Rightarrow> string option \<Rightarrow> string \<Rightarrow> udp_client program_start" where
  "udp_client_main resolve dial stdin =
     (case resolve of Some err \<Rightarrow> ExitsWith1 (''Error resolving server address: '' @ err)
      | None \<Rightarrow> (case dial of Some err \<Rightarrow> ExitsWith1 (''Error dialing: '' @ err)
                 | None \<Rightarrow> Starts ''UDP Client connected to server.'' \<lparr>uc_stdin = stdin, uc_phase = Prompting, uc_out = []\<rparr>))"

definition udp_server_main :: "string option \<Rightarrow> string option \<Rightarrow> string \<Rightarrow> unit program_start" where
  "udp_server_main resolve listen localAddr =
     (case resolve of Some err \<Rightarrow> ExitsWith1 (''Error resolving address: '' @ err)
      | None \<Rightarrow> (case listen of Some err \<Rightarrow> ExitsWith1 (''Error listening: '' @ err)
                 | None \<Rightarrow> Starts (''UDP Server started on '' @ localAddr) ()))"

text \<open>An error of one datagram does not touch the others: the answers are those of the datagrams read and written without one.\<close>

fun answered :: "(string + string \<times> string) \<times> string option \<Rightarrow> (string \<times> string) list" where
  "answered (Inr (clientAddr, d), None) = [(clientAddr, server_response d)]"
| "answered _ = []"

lemma server_answers: "snd (server_loop rs) = concat (map answered rs)"
proof (induction rs)
  case (Cons r rs)
  have "(case snd (server_turn (fst r) (snd r)) of None \<Rightarrow> [] | Some a \<Rightarrow> [a]) = answered r"
    by (cases "(fst r, snd r)" rule: server_turn.cases; cases "snd r"; cases r) (auto simp: Let_def)
  with Cons show ?case by (cases r) (simp add: Let_def case_prod_beta)
qed simp

section \<open>Both programs\<close>

text \<open>\<open>ec_sent\<close> records what the client has sent.\<close>

record udp_echo =
  ec_client :: udp_client
  ec_to_server :: "string list"
  ec_to_client :: "string list"
  ec_served :: "string list"
  ec_sent :: "string list"

definition echo_start :: "string \<Rightarrow> udp_echo" where
  "echo_start stdin =
     \<lparr>ec_client = \<lparr>uc_stdin = stdin, uc_phase = Prompting, uc_out = []\<rparr>, ec_to_server = [], ec_to_client = [], ec_served = [],
      ec_sent = []\<rparr>"

inductive echo_step :: "bool \<Rightarrow> udp_echo \<Rightarrow> udp_echo \<Rightarrow> bool" for faults where
  exits: "uc_phase (ec_client s) = Prompting \<Longrightarrow> client_turn (ec_client s) = (None, c) \<Longrightarrow> echo_step faults s (s\<lparr>ec_client := c\<rparr>)"
| sends: "uc_phase (ec_client s) = Prompting \<Longrightarrow> client_turn (ec_client s) = (Some m, c) \<Longrightarrow>
    echo_step faults s (s\<lparr>ec_client := c, ec_to_server := ec_to_server s @ [m], ec_sent := ec_sent s @ [m]\<rparr>)"
| send_fails: "faults \<Longrightarrow> uc_phase (ec_client s) = Prompting \<Longrightarrow> client_turn (ec_client s) = (Some m, c) \<Longrightarrow>
    echo_step faults s (s\<lparr>ec_client := client_fails ''Error sending: '' err c\<rparr>)"
| serves: "ec_to_server s = d # ds \<Longrightarrow>
    echo_step faults s (s\<lparr>ec_to_server := ds, ec_served := ec_served s @ [server_message d],
      ec_to_client := ec_to_client s @ [server_response d]\<rparr>)"
| serves_unanswered: "faults \<Longrightarrow> ec_to_server s = d # ds \<Longrightarrow>
    echo_step faults s (s\<lparr>ec_to_server := ds, ec_served := ec_served s @ [server_message d]\<rparr>)"
| receives: "uc_phase (ec_client s) = Awaiting \<Longrightarrow> ec_to_client s = d # ds \<Longrightarrow>
    echo_step faults s (s\<lparr>ec_client := client_receive d (ec_client s), ec_to_client := ds\<rparr>)"
| receive_fails: "faults \<Longrightarrow> uc_phase (ec_client s) = Awaiting \<Longrightarrow>
    echo_step faults s (s\<lparr>ec_client := client_fails ''Error receiving: '' err (ec_client s)\<rparr>)"
| request_lost: "faults \<Longrightarrow> ec_to_server s = d # ds \<Longrightarrow> echo_step faults s (s\<lparr>ec_to_server := ds\<rparr>)"
| answer_lost: "faults \<Longrightarrow> ec_to_client s = d # ds \<Longrightarrow> echo_step faults s (s\<lparr>ec_to_client := ds\<rparr>)"

inductive_cases echo_step_cases: "echo_step faults s t"

inductive echo_steps :: "bool \<Rightarrow> nat \<Rightarrow> udp_echo \<Rightarrow> udp_echo \<Rightarrow> bool" for faults where
  none: "echo_steps faults 0 s s"
| more: "echo_steps faults n s t \<Longrightarrow> echo_step faults t u \<Longrightarrow> echo_steps faults (Suc n) s u"

text \<open>The line that the client prints for an answer to a message.\<close>

definition echo_line :: "string \<Rightarrow> string" where
  "echo_line m = ''Received from server: '' @ take bufferSize (server_response m)"

text \<open>The messages of an input, for ever: after its end the client reads empty lines.\<close>

fun input_message :: "string \<Rightarrow> nat \<Rightarrow> string" where
  "input_message stdin 0 = TrimSpace (fst (ReadString stdin))"
| "input_message stdin (Suc k) = input_message (snd (ReadString stdin)) k"

fun input_after :: "string \<Rightarrow> nat \<Rightarrow> string" where
  "input_after stdin 0 = stdin"
| "input_after stdin (Suc k) = input_after (snd (ReadString stdin)) k"

lemma input_after_Suc: "input_after stdin (Suc k) = snd (ReadString (input_after stdin k))"
  by (induction k arbitrary: stdin) simp_all

lemma input_message_after: "input_message stdin k = TrimSpace (fst (ReadString (input_after stdin k)))"
  by (induction k arbitrary: stdin) simp_all

section \<open>Stop and wait\<close>

text \<open>What is between the programs: at most the one message that the client waits for, or its answer.\<close>

definition waits_for :: "udp_echo \<Rightarrow> string \<Rightarrow> bool" where
  "waits_for s m \<longleftrightarrow> (ec_to_server s = [m] \<and> ec_to_client s = [])
     \<or> (ec_to_server s = [] \<and> (ec_to_client s = [server_response m] \<or> ec_to_client s = []))"

definition echo_inv :: "string \<Rightarrow> udp_echo \<Rightarrow> bool" where
  "echo_inv stdin s \<longleftrightarrow>
     (let n = length (ec_sent s); c = ec_client s in
        ec_sent s = map (input_message stdin) [0..<n] \<and> ''exit'' \<notin> set (ec_sent s) \<and>
        (case uc_phase c of
           Prompting \<Rightarrow> uc_stdin c = input_after stdin n \<and> ec_to_server s = [] \<and> ec_to_client s = [] \<and> uc_out c = map echo_line (ec_sent s)
         | Awaiting \<Rightarrow> uc_stdin c = input_after stdin n \<and> n > 0 \<and> waits_for s (last (ec_sent s)) \<and> uc_out c = map echo_line (butlast (ec_sent s))
         | Exited \<Rightarrow> (\<exists>k \<le> n. \<exists>errors. n \<le> Suc k \<and> length errors \<le> 1 \<and> uc_out c = map echo_line (take k (ec_sent s)) @ errors)))"

lemma client_turn_cases:
  "client_turn c = (if TrimSpace (fst (ReadString (uc_stdin c))) = ''exit''
     then (None, c\<lparr>uc_stdin := snd (ReadString (uc_stdin c)), uc_phase := Exited\<rparr>)
     else (Some (TrimSpace (fst (ReadString (uc_stdin c)))), c\<lparr>uc_stdin := snd (ReadString (uc_stdin c)), uc_phase := Awaiting\<rparr>))"
  by (simp add: client_turn_def Let_def case_prod_beta)

lemma echo_inv_start: "echo_inv stdin (echo_start stdin)"
  by (simp add: echo_inv_def echo_start_def)

lemma echo_inv_exited:
  assumes "echo_inv stdin s" and "uc_phase (ec_client s) = Exited" and "ec_client t = ec_client s" and "ec_sent t = ec_sent s"
  shows "echo_inv stdin t"
  using assms by (simp add: echo_inv_def Let_def)

lemma echo_inv_step:
  assumes "echo_step faults s t" and inv: "echo_inv stdin s"
  shows "echo_inv stdin t"
  using assms(1)
proof cases
  case (exits c)
  then show ?thesis using inv
    by (auto simp: echo_inv_def Let_def client_turn_cases split: if_splits intro!: exI [of _ "length (ec_sent s)"])
next
  case (sends m c)
  define n where "n = length (ec_sent s)"
  from sends inv have m: "m = input_message stdin n" and "m \<noteq> ''exit''"
    and c: "c = (ec_client s)\<lparr>uc_stdin := input_after stdin (Suc n), uc_phase := Awaiting\<rparr>"
    by (auto simp: echo_inv_def n_def Let_def client_turn_cases input_message_after input_after_Suc
        simp del: input_after.simps split: if_splits)
  from sends inv have s: "ec_sent s = map (input_message stdin) [0..<n]" "''exit'' \<notin> set (ec_sent s)"
    "ec_to_server s = []" "ec_to_client s = []" "uc_out (ec_client s) = map echo_line (ec_sent s)"
    by (simp_all add: echo_inv_def n_def Let_def)
  have t: "ec_sent t = map (input_message stdin) [0..<n] @ [m]" "ec_to_server t = [m]" "ec_to_client t = []"
    "ec_client t = c" "uc_out c = map echo_line (ec_sent s)"
    using sends(1) s c by simp_all
  have "''exit'' \<notin> set (ec_sent t)" using \<open>m \<noteq> _\<close> s(1,2) t(1) by (metis Un_iff empty_iff empty_set insert_iff list.simps(15) set_append)
  moreover have "ec_sent t = map (input_message stdin) [0..<Suc n]" using t(1) m by simp
  moreover have "length (ec_sent t) = Suc n" "butlast (ec_sent t) = ec_sent s" "last (ec_sent t) = m" using t(1) s(1) by simp_all
  ultimately show ?thesis
    unfolding echo_inv_def Let_def by (simp only: t(2-5)) (simp add: c waits_for_def t(2,3) del: upt_Suc input_after.simps)
next
  case (send_fails m c err)
  with inv show ?thesis
    by (auto simp: echo_inv_def Let_def client_turn_cases client_fails_def split: if_splits intro!: exI [of _ "length (ec_sent s)"])
next
  case (serves d ds)
  with inv show ?thesis
    by (cases "uc_phase (ec_client s)") (auto simp: echo_inv_def Let_def waits_for_def)
next
  case (serves_unanswered d ds)
  with inv show ?thesis
    by (cases "uc_phase (ec_client s)") (auto simp: echo_inv_def Let_def waits_for_def)
next
  case (receives d ds)
  with inv have "ec_sent s \<noteq> []" "d = server_response (last (ec_sent s))" "ds = []" "ec_to_server s = []"
    by (auto simp: echo_inv_def Let_def waits_for_def)
  then obtain xs x where "ec_sent s = xs @ [x]" by (metis append_butlast_last_id)
  with receives inv \<open>ds = []\<close> \<open>ec_to_server s = []\<close> \<open>d = _\<close> show ?thesis
    by (auto simp: echo_inv_def Let_def client_receive_def echo_line_def)
next
  case (receive_fails err)
  with inv have "ec_sent s \<noteq> []" by (auto simp: echo_inv_def Let_def)
  then obtain xs x where "ec_sent s = xs @ [x]" by (metis append_butlast_last_id)
  with receive_fails inv show ?thesis
    by (auto simp: echo_inv_def Let_def client_fails_def intro!: exI [of _ "length xs"])
next
  case (request_lost d ds)
  with inv show ?thesis
    by (cases "uc_phase (ec_client s)") (auto simp: echo_inv_def Let_def waits_for_def)
next
  case (answer_lost d ds)
  with inv show ?thesis
    by (cases "uc_phase (ec_client s)") (auto simp: echo_inv_def Let_def waits_for_def)
qed

lemma echo_inv_steps: "echo_steps faults n (echo_start stdin) s \<Longrightarrow> echo_inv stdin s"
  by (induction n "echo_start stdin" s rule: echo_steps.induct) (auto intro: echo_inv_start echo_inv_step)

text \<open>
  C38. Whatever is lost or fails, the client prints the answers to its messages in the order of its input and to each
  its own, cut off at 1024 bytes on both ways, at most one line of an error after them; it has sent at most one message more
  than it has printed answers, and never \<^verbatim>\<open>exit\<close>.
\<close>

theorem echo_in_order:
  assumes "echo_steps faults n (echo_start stdin) s"
  shows "\<exists>k errors. uc_out (ec_client s) = map (\<lambda>i. echo_line (input_message stdin i)) [0..<k] @ errors \<and> length errors \<le> 1
     \<and> k \<le> length (ec_sent s) \<and> length (ec_sent s) \<le> Suc k
     \<and> ec_sent s = map (input_message stdin) [0..<length (ec_sent s)] \<and> ''exit'' \<notin> set (ec_sent s)"
proof -
  let ?n = "length (ec_sent s)"
  from echo_inv_steps [OF assms] have inv: "echo_inv stdin s" .
  then have s: "ec_sent s = map (input_message stdin) [0..<?n]" "''exit'' \<notin> set (ec_sent s)" by (simp_all add: echo_inv_def Let_def)
  note phase = inv [unfolded echo_inv_def Let_def, THEN conjunct2, THEN conjunct2]
  have "\<exists>k \<le> ?n. \<exists>errors. ?n \<le> Suc k \<and> length errors \<le> 1 \<and> uc_out (ec_client s) = map echo_line (take k (ec_sent s)) @ errors"
  proof (cases "uc_phase (ec_client s)")
    case Prompting
    with phase have "uc_out (ec_client s) = map echo_line (take ?n (ec_sent s)) @ []" by simp
    then show ?thesis by (intro exI [of _ ?n] exI [of _ "[]"] conjI) simp_all
  next
    case Awaiting
    with phase have "uc_out (ec_client s) = map echo_line (take (?n - 1) (ec_sent s)) @ []" by (simp add: butlast_conv_take)
    then show ?thesis by (intro exI [of _ "?n - 1"] exI [of _ "[]"] conjI) simp_all
  next
    case Exited
    with phase show ?thesis by simp
  qed
  then obtain k errors where k: "k \<le> ?n" "?n \<le> Suc k" "length errors \<le> 1"
    "uc_out (ec_client s) = map echo_line (take k (ec_sent s)) @ errors" by blast
  have "take k (ec_sent s) = take k (map (input_message stdin) [0..<?n])" using s(1) by (rule arg_cong)
  with k(1) have "take k (ec_sent s) = map (input_message stdin) [0..<k]" by (simp add: take_map)
  then have "map echo_line (take k (ec_sent s)) = map (\<lambda>i. echo_line (input_message stdin i)) [0..<k]" by simp
  with k(4) have "uc_out (ec_client s) = map (\<lambda>i. echo_line (input_message stdin i)) [0..<k] @ errors" by (simp only:)
  with k s show ?thesis by blast
qed

lemma echo_in_order_witness:
  "\<exists>k errors. uc_out (ec_client (echo_start ''exit'')) = map (\<lambda>i. echo_line (input_message ''exit'' i)) [0..<k] @ errors
     \<and> length errors \<le> 1"
  using echo_in_order [OF echo_steps.none, of "''exit''"] by blast

text \<open>There is no deadline: once the datagram that it waits for is lost, the client hangs.\<close>

lemma echo_hangs:
  "uc_phase (ec_client s) = Awaiting \<Longrightarrow> ec_to_server s = [] \<Longrightarrow> ec_to_client s = [] \<Longrightarrow> \<not> echo_step False s t"
  by (auto elim: echo_step_cases)

section \<open>Ends\<close>

lemma ReadString_shorter: "stdin \<noteq> [] \<Longrightarrow> length (snd (ReadString stdin)) < length stdin"
  using length_dropWhile_le [of "\<lambda>c. c \<noteq> CHR 0x0A" stdin] by (cases stdin) (auto simp: ReadString_def Let_def)

text \<open>The number of messages before the first line that is \<^verbatim>\<open>exit\<close> when trimmed, if there is one.\<close>

function rounds :: "string \<Rightarrow> nat option" where
  "rounds stdin =
     (if stdin = [] then None
      else if TrimSpace (fst (ReadString stdin)) = ''exit'' then Some 0
      else map_option Suc (rounds (snd (ReadString stdin))))"
  by pat_completeness auto

termination
  by (relation "measure length") (auto simp: ReadString_shorter)

declare rounds.simps [simp del]

lemma ReadString_end: "ReadString [] = ([], [])" by (simp add: ReadString_def)

lemma TrimSpace_end: "TrimSpace [] = []"
  by (simp add: TrimSpace_def trim_front.simps [of white_space "[]"] trim_front.simps [of "map rev white_space" "[]"] split: option.splits)

lemma rounds_turn:
  "rounds stdin = (if TrimSpace (fst (ReadString stdin)) = ''exit'' then Some 0 else map_option Suc (rounds (snd (ReadString stdin))))"
proof (cases "stdin = []")
  case True
  have "rounds [] = None" by (subst rounds.simps) simp
  with True show ?thesis by (simp add: ReadString_end TrimSpace_end)
next
  case False
  then show ?thesis by (subst rounds.simps) simp
qed

text \<open>How many steps have been made without faults, three for each message and one for the exit.\<close>

definition echo_steps_made :: "udp_echo \<Rightarrow> nat" where
  "echo_steps_made s =
     (case uc_phase (ec_client s) of
        Prompting \<Rightarrow> 3 * length (ec_sent s)
      | Awaiting \<Rightarrow> 3 * (length (ec_sent s) - 1) + (if ec_to_server s \<noteq> [] then 1 else 2)
      | Exited \<Rightarrow> 3 * length (ec_sent s) + 1)"

definition live_inv :: "string \<Rightarrow> nat \<Rightarrow> udp_echo \<Rightarrow> bool" where
  "live_inv stdin n s \<longleftrightarrow>
     n = echo_steps_made s \<and> ec_served s @ map server_message (ec_to_server s) = map server_message (ec_sent s) \<and>
     (case uc_phase (ec_client s) of
        Prompting \<Rightarrow> ec_to_server s = [] \<and> ec_to_client s = [] \<and> uc_out (ec_client s) = map echo_line (ec_sent s)
          \<and> rounds stdin = map_option ((+) (length (ec_sent s))) (rounds (uc_stdin (ec_client s)))
      | Awaiting \<Rightarrow> (\<exists>ms m. ec_sent s = ms @ [m] \<and> uc_out (ec_client s) = map echo_line ms
          \<and> (ec_to_server s = [m] \<and> ec_to_client s = [] \<or> ec_to_server s = [] \<and> ec_to_client s = [server_response m]))
          \<and> rounds stdin = map_option ((+) (length (ec_sent s))) (rounds (uc_stdin (ec_client s)))
      | Exited \<Rightarrow> ec_to_server s = [] \<and> ec_to_client s = [] \<and> uc_out (ec_client s) = map echo_line (ec_sent s)
          \<and> rounds stdin = Some (length (ec_sent s)))"

lemma echo_live_start: "live_inv stdin 0 (echo_start stdin)"
  by (cases "rounds stdin") (simp_all add: live_inv_def echo_start_def echo_steps_made_def)

lemma echo_live_step:
  assumes "echo_step False s t" and inv: "live_inv stdin n s"
  shows "live_inv stdin (Suc n) t"
  using assms(1)
proof cases
  case (exits c)
  with inv show ?thesis
    by (auto simp: live_inv_def echo_steps_made_def client_turn_cases rounds_turn [of "uc_stdin (ec_client s)"] split: if_splits)
next
  case (sends m c)
  with inv show ?thesis
    by (auto simp: live_inv_def echo_steps_made_def client_turn_cases rounds_turn [of "uc_stdin (ec_client s)"]
        option.map_comp comp_def intro!: option.map_cong split: if_splits)
next
  case (serves d ds)
  with inv show ?thesis
    by (cases "uc_phase (ec_client s)") (auto simp: live_inv_def echo_steps_made_def)
next
  case (receives d ds)
  with inv show ?thesis
    by (auto simp: live_inv_def echo_steps_made_def client_receive_def echo_line_def)
qed simp_all

lemma echo_live_steps: "echo_steps False n (echo_start stdin) s \<Longrightarrow> live_inv stdin n s"
  by (induction n "echo_start stdin" s rule: echo_steps.induct) (auto intro: echo_live_start echo_live_step)

text \<open>Without faults something can be done until the client has exited.\<close>

lemma echo_goes_on:
  assumes "live_inv stdin n s" and "uc_phase (ec_client s) \<noteq> Exited"
  shows "\<exists>t. echo_step False s t"
proof (cases "uc_phase (ec_client s)")
  case Prompting
  then show ?thesis by (cases "client_turn (ec_client s)"; cases "fst (client_turn (ec_client s))") (auto intro: exits sends)
next
  case Awaiting
  with assms(1) show ?thesis by (auto simp: live_inv_def intro: serves receives)
qed (use assms in simp)

text \<open>
  C39. Without losses and errors the programs end when the input has a line \<^verbatim>\<open>exit\<close>, after three steps for every
  message before it and one more, with every message served and every answer printed; until then there is a step.
\<close>

theorem echo_ends:
  assumes "rounds stdin = Some r" and "echo_steps False n (echo_start stdin) s"
  shows "n \<le> 3 * r + 1 \<and> (uc_phase (ec_client s) \<noteq> Exited \<longrightarrow> n \<le> 3 * r \<and> (\<exists>t. echo_step False s t))
    \<and> (uc_phase (ec_client s) = Exited \<longrightarrow> n = 3 * r + 1
        \<and> uc_out (ec_client s) = map (\<lambda>i. echo_line (input_message stdin i)) [0..<r]
        \<and> ec_served s = map (\<lambda>i. server_message (input_message stdin i)) [0..<r])"
proof -
  from echo_live_steps [OF assms(2)] have inv: "live_inv stdin n s" .
  from echo_inv_steps [OF assms(2)] have sent: "ec_sent s = map (input_message stdin) [0..<length (ec_sent s)]"
    unfolding echo_inv_def Let_def by blast
  show ?thesis
  proof (cases "uc_phase (ec_client s) = Exited")
    case True
    with inv assms(1) have r: "length (ec_sent s) = r" and n: "n = 3 * r + 1" and out: "uc_out (ec_client s) = map echo_line (ec_sent s)"
      and served: "ec_served s = map server_message (ec_sent s)" by (auto simp: live_inv_def echo_steps_made_def)
    from sent r have "ec_sent s = map (input_message stdin) [0..<r]" by simp
    with out served n True show ?thesis by simp
  next
    case False
    from inv False assms(1) have "length (ec_sent s) \<le> r \<and> n \<le> 3 * length (ec_sent s)"
      by (cases "uc_phase (ec_client s)"; cases "rounds (uc_stdin (ec_client s))") (auto simp: live_inv_def echo_steps_made_def)
    then have "n \<le> 3 * r" by linarith
    then show ?thesis using False echo_goes_on [OF inv False] by simp
  qed
qed

lemma two_lines: "rounds (''a'' @ CHR 0x0A # ''exit'') = Some 1"
proof -
  have "ReadString (''a'' @ CHR 0x0A # ''exit'') = (''a'' @ [CHR 0x0A], ''exit'')" "ReadString ''exit'' = (''exit'', [])"
    by (simp_all add: ReadString_def)
  moreover have "TrimSpace (''a'' @ [CHR 0x0A]) = ''a''" "TrimSpace ''exit'' = ''exit''"
    by (simp_all add: TrimSpace_def trim_front.simps white_space_def)
  ultimately show ?thesis
    by (subst rounds_turn) (simp, subst rounds_turn, simp)
qed

lemma echo_ends_witness: "\<exists>t. echo_step False (echo_start (''a'' @ CHR 0x0A # ''exit'')) t"
  using echo_ends [OF two_lines echo_steps.none] by (simp add: echo_start_def)

text \<open>Without such a line they never end: after the end of its input the client sends empty messages.\<close>

lemma echo_never_ends:
  assumes "rounds stdin = None" and "echo_steps False n (echo_start stdin) s"
  shows "uc_phase (ec_client s) \<noteq> Exited \<and> (\<exists>t. echo_step False s t) \<and> n \<le> 3 * length (ec_sent s)"
proof -
  from echo_live_steps [OF assms(2)] have inv: "live_inv stdin n s" .
  with assms(1) have "uc_phase (ec_client s) \<noteq> Exited" by (auto simp: live_inv_def)
  with echo_goes_on [OF inv] this inv show ?thesis
    by (cases "uc_phase (ec_client s)") (auto simp: live_inv_def echo_steps_made_def)
qed

lemma input_ends: "length stdin \<le> k \<Longrightarrow> input_message stdin k = []"
proof (induction k arbitrary: stdin)
  case (Suc k)
  then show ?case using ReadString_shorter [of stdin] by (cases "stdin = []") (simp_all add: ReadString_end)
qed (simp add: ReadString_end TrimSpace_end)

end
