(* ===== verification/ExitPaths.thy ===== *)
theory ExitPaths
  imports UvLoop NetAddr
begin

text \<open>
  Programs that acquire something, defer its release and may end with \<^verbatim>\<open>log.Fatal\<close>, which exits without the
  deferred calls: the echo timer of \<^verbatim>\<open>uvgo\<close>, the locks of redis and etcd, the programs over SQLite and gin, the
  writer of \<^verbatim>\<open>io_wait.go\<close>, and the reading of a file for its checksum or configuration.  A program is the tree of what
  it does for given answers of the calls that it makes.
\<close>

section \<open>Programs with deferred calls\<close>

datatype ending = Returned | Fatal string | Crashed go_panic | Going

datatype 'e prog =
    Return
  | Die string
  | GoesOn
  | Panic go_panic
  | Act 'e "'e prog"
  | Defer 'e "'e prog"

text \<open>\<open>GoesOn\<close>: the program goes on after what is looked at.  The deferred calls are made last first, when the function returns or panics, and not by \<^verbatim>\<open>os.Exit\<close>.\<close>

primrec run_prog :: "'e prog \<Rightarrow> 'e list \<Rightarrow> 'e list \<times> ending" where
  "run_prog Return = (\<lambda>ds. (ds, Returned))"
| "run_prog (Die m) = (\<lambda>ds. ([], Fatal m))"
| "run_prog GoesOn = (\<lambda>ds. ([], Going))"
| "run_prog (Panic p) = (\<lambda>ds. (ds, Crashed p))"
| "run_prog (Act e p) = (\<lambda>ds. case run_prog p ds of (es, r) \<Rightarrow> (e # es, r))"
| "run_prog (Defer e p) = (\<lambda>ds. run_prog p (e # ds))"

definition run_main :: "'e prog \<Rightarrow> 'e list \<times> ending" where "run_main p = run_prog p []"

definition check_err :: "string \<Rightarrow> string option \<Rightarrow> 'e prog \<Rightarrow> 'e prog" where
  "check_err what err p = (case err of None \<Rightarrow> p | Some e \<Rightarrow> Die (what @ e))"

text \<open>What a program does itself, what it defers, and how it ends.\<close>

primrec acts :: "'e prog \<Rightarrow> 'e list" where
  "acts Return = []" | "acts (Die m) = []" | "acts GoesOn = []" | "acts (Panic p) = []" | "acts (Act e p) = e # acts p" | "acts (Defer e p) = acts p"

primrec deferred :: "'e prog \<Rightarrow> 'e list" where
  "deferred Return = []" | "deferred (Die m) = []" | "deferred GoesOn = []" | "deferred (Panic p) = []" | "deferred (Act e p) = deferred p"
| "deferred (Defer e p) = e # deferred p"

primrec ends :: "'e prog \<Rightarrow> ending" where
  "ends Return = Returned" | "ends (Die m) = Fatal m" | "ends GoesOn = Going" | "ends (Panic p) = Crashed p" | "ends (Act e p) = ends p"
| "ends (Defer e p) = ends p"

fun unwinds :: "ending \<Rightarrow> bool" where
  "unwinds Returned = True" | "unwinds (Crashed p) = True" | "unwinds (Fatal m) = False" | "unwinds Going = False"

lemma run_prog: "run_prog p ds = (acts p @ (if unwinds (ends p) then rev (deferred p) @ ds else []), ends p)"
  by (induction p arbitrary: ds) simp_all

lemma run_main: "run_main p = (acts p @ (if unwinds (ends p) then rev (deferred p) else []), ends p)"
  by (simp add: run_main_def run_prog)

lemma check_err_acts [simp]:
  "acts (check_err what err p) = (if err = None then acts p else [])"
  "deferred (check_err what err p) = (if err = None then deferred p else [])"
  "ends (check_err what err p) = (case err of None \<Rightarrow> ends p | Some e \<Rightarrow> Fatal (what @ e))"
  by (cases err; simp add: check_err_def)+

section \<open>The echo timer: cmd/echo-timer/main.go\<close>

datatype timer_event =
    StopSignals
  | LoopListensTCP string
  | TimerStarts int int
  | TempCreated string
  | TempWritten string string
  | TempClosed string
  | TempRemoved string
  | PollStarts string int
  | WritesLater int string string
  | LoopListensUDP string
  | SendsLater int string string
  | LoopRuns
  | Logs string

record timer_answers =
  ta_listen :: "string option"
  ta_createTemp :: "string + string"
  ta_write :: "string option"
  ta_close :: "string option"
  ta_poll :: "string option"
  ta_resolve :: "string option"
  ta_udp :: "string + string"
  ta_ctxErr :: "ctx_error option"

definition ctx_error_text :: "ctx_error \<Rightarrow> string" where
  "ctx_error_text e = (case e of Canceled \<Rightarrow> ''context canceled'' | DeadlineExceeded \<Rightarrow> ''context deadline exceeded'')"

text \<open>The loop runs until its context ends, and returns what \<^verbatim>\<open>Run\<close> makes of that.  Times are in milliseconds.\<close>

definition echo_timer_main :: "timer_answers \<Rightarrow> timer_event prog" where
  "echo_timer_main a =
     Defer StopSignals
     (let addr = ''127.0.0.1:7379'' in
      check_err [] (ta_listen a)
     (Act (LoopListensTCP addr)
     (Act (TimerStarts 0 1000)
     (case ta_createTemp a of Inl err \<Rightarrow> Die err
      | Inr path \<Rightarrow>
        Act (TempCreated path)
       (case ta_write a of Some err \<Rightarrow> Act (TempClosed path) (Die err)
        | None \<Rightarrow>
          Act (TempWritten path ''v0'')
         (check_err [] (ta_close a)
         (Act (TempClosed path)
         (Defer (TempRemoved path)
         (check_err [] (ta_poll a)
         (Act (PollStarts path 250)
         (Act (WritesLater 2000 path ''v1-longer'')
         (check_err [] (ta_resolve a)
         (case ta_udp a of Inl err \<Rightarrow> Die err
          | Inr localUDP \<Rightarrow>
            Act (LoopListensUDP localUDP)
           (Act (SendsLater 400 localUDP ''ping'')
           (Act (Logs (''listening tcp://'' @ addr @ '' udp://'' @ localUDP @ ''; fs-poll '' @ path @ '' (Ctrl+C to stop)''))
           (Act LoopRuns
           (check_err [] (map_option ctx_error_text (ctx_result (ta_ctxErr a)))
           (Act (Logs ''shutdown complete'') Return))))))))))))))))))"

text \<open>The callbacks; sizes and modification times as the poll gives them, times as they are printed.\<close>

definition poll_callback :: "int \<Rightarrow> int \<times> string \<Rightarrow> int \<times> string \<Rightarrow> string" where
  "poll_callback status prev current =
     (if status \<noteq> 0 then ''fs-poll status='' @ int_text status @ '' (uv_fs_poll_t error path)''
      else ''fs-poll file changed size '' @ int_text (fst prev) @ '' -> '' @ int_text (fst current)
        @ '' (prev mtime='' @ snd prev @ '' curr='' @ snd current @ '')'')"

text \<open>\<open>quoted\<close> is the datagram as \<^verbatim>\<open>%q\<close> prints it.\<close>

definition udp_callback :: "(string \<Rightarrow> string) \<Rightarrow> int \<Rightarrow> string \<Rightarrow> string \<Rightarrow> int \<Rightarrow> string" where
  "udp_callback quoted nread buf from now =
     (if nread < 0 then ''udp recv error errno~'' @ int_text (- nread)
      else ''udp recv '' @ quoted buf @ '' from '' @ from @ '' (loop.Now='' @ int_text now @ ''ms)'')"

text \<open>\<^verbatim>\<open>io.Copy\<close> reports no \<^verbatim>\<open>io.EOF\<close> of its own; the connection is closed in the end.\<close>

definition tcp_callback :: "string option \<Rightarrow> string list" where
  "tcp_callback copyErr = (case copyErr of None \<Rightarrow> [] | Some err \<Rightarrow> if err = ''EOF'' then [] else [''echo: '' @ err])"

section \<open>A lock of redis: cmd/mutex/redis_mutex.go\<close>

datatype lock_event = ClientClosed | LockObtained | LockReleased | Slept int | Refreshed | Said string

datatype lock_answer = NotObtained | ObtainErr string | Obtained

definition redis_main :: "lock_answer \<Rightarrow> string + int \<Rightarrow> string option \<Rightarrow> string + int \<Rightarrow> lock_event prog" where
  "redis_main obtained ttl1 refresh ttl2 =
     Defer ClientClosed
     (case obtained of
        NotObtained \<Rightarrow> Act (Said ''Could not obtain lock!'') Return
      | ObtainErr err \<Rightarrow> Die err
      | Obtained \<Rightarrow>
          Act LockObtained
         (Defer LockReleased
         (Act (Said ''I have a lock!'')
         (Act (Slept 50)
         (case ttl1 of Inl err \<Rightarrow> Die err
          | Inr ttl \<Rightarrow>
            (let refreshing = check_err [] refresh
               (Act Refreshed
               (Act (Slept 100)
               (case ttl2 of Inl err \<Rightarrow> Die err
                | Inr ttl' \<Rightarrow> if ttl' = 0 then Act (Said ''Now, my lock has expired!'') Return else Return)))
             in if ttl > 0 then Act (Said ''Yay, I still have my lock!'') refreshing else refreshing))))))"

text \<open>The Chinese messages, as bytes.\<close>

definition m_etcd_lock :: string where
  "m_etcd_lock = [CHR 0xE8, CHR 0x8E, CHR 0xB7, CHR 0xE5, CHR 0x8F, CHR 0x96, CHR 0xE9, CHR 0x94, CHR 0x81,
    CHR 0xE5, CHR 0xA4, CHR 0xB1, CHR 0xE8, CHR 0xB4, CHR 0xA5] @ '':''"
definition m_etcd_locked :: string where
  "m_etcd_locked = [CHR 0xE6, CHR 0x88, CHR 0x90, CHR 0xE5, CHR 0x8A, CHR 0x9F, CHR 0xE8, CHR 0x8E, CHR 0xB7,
    CHR 0xE5, CHR 0x8F, CHR 0x96] @ '' etcd '' @ [CHR 0xE9, CHR 0x94, CHR 0x81]"
definition m_etcd_unlock :: string where
  "m_etcd_unlock = [CHR 0xE9, CHR 0x87, CHR 0x8A, CHR 0xE6, CHR 0x94, CHR 0xBE, CHR 0xE9, CHR 0x94, CHR 0x81,
    CHR 0xE5, CHR 0xA4, CHR 0xB1, CHR 0xE8, CHR 0xB4, CHR 0xA5] @ '':''"
definition m_sql_open :: string where
  "m_sql_open = [CHR 0xE6, CHR 0x95, CHR 0xB0, CHR 0xE6, CHR 0x8D, CHR 0xAE, CHR 0xE5, CHR 0xBA, CHR 0x93,
    CHR 0xE8, CHR 0xBF, CHR 0x9E, CHR 0xE6, CHR 0x8E, CHR 0xA5, CHR 0xE5, CHR 0xA4, CHR 0xB1,
    CHR 0xE8, CHR 0xB4, CHR 0xA5] @ '':''"
definition m_sql_mmap :: string where
  "m_sql_mmap = [CHR 0xE8, CHR 0xAE, CHR 0xBE, CHR 0xE7, CHR 0xBD, CHR 0xAE] @ '' mmap_size '' @ [CHR 0xE5, CHR 0xA4, CHR 0xB1, CHR 0xE8, CHR 0xB4, CHR 0xA5] @ '':''"
definition m_sql_db :: string where
  "m_sql_db = [CHR 0xE8, CHR 0x8E, CHR 0xB7, CHR 0xE5, CHR 0x8F, CHR 0x96, CHR 0xE5, CHR 0xBA, CHR 0x95,
    CHR 0xE5, CHR 0xB1, CHR 0x82] @ '' sql.DB '' @ [CHR 0xE5, CHR 0xA4, CHR 0xB1, CHR 0xE8, CHR 0xB4, CHR 0xA5] @ '':''"
definition m_sql_migrate :: string where
  "m_sql_migrate = [CHR 0xE8, CHR 0x87, CHR 0xAA, CHR 0xE5, CHR 0x8A, CHR 0xA8, CHR 0xE8, CHR 0xBF, CHR 0x81,
    CHR 0xE7, CHR 0xA7, CHR 0xBB, CHR 0xE5, CHR 0xA4, CHR 0xB1, CHR 0xE8, CHR 0xB4, CHR 0xA5]
     @ '':''"
definition m_sql_save :: string where
  "m_sql_save = [CHR 0xE4, CHR 0xBF, CHR 0x9D, CHR 0xE5, CHR 0xAD, CHR 0x98, CHR 0xE6, CHR 0x95, CHR 0xB0,
    CHR 0xE6, CHR 0x8D, CHR 0xAE, CHR 0xE5, CHR 0xA4, CHR 0xB1, CHR 0xE8, CHR 0xB4, CHR 0xA5]
     @ '':''"
definition m_sql_saved :: string where
  "m_sql_saved = [CHR 0xE6, CHR 0x88, CHR 0x90, CHR 0xE5, CHR 0x8A, CHR 0x9F, CHR 0xE4, CHR 0xBF, CHR 0x9D,
    CHR 0xE5, CHR 0xAD, CHR 0x98, CHR 0xE7, CHR 0x94, CHR 0xA8, CHR 0xE6, CHR 0x88, CHR 0xB7]
     @ '': ID=''"

section \<open>A lock of etcd: etcd/mutex/etcd_mutex.go\<close>

text \<open>
  The errors of \<^verbatim>\<open>New\<close> and \<^verbatim>\<open>NewSession\<close> are dropped, and the nil client or session is used: the session is made
  from the client, and the mutex locks by its session.
\<close>

datatype etcd_event = EtcdClosed | EtcdLocked | EtcdUnlocked | EtcdSaid string

definition etcd_main :: "string option \<Rightarrow> string option \<Rightarrow> string option \<Rightarrow> string option \<Rightarrow> etcd_event prog" where
  "etcd_main new session lock unlock =
     (if new \<noteq> None then Panic NilDereference
      else Defer EtcdClosed
       (if session \<noteq> None then Panic NilDereference
        else check_err m_etcd_lock lock
         (Act EtcdLocked
         (Act (EtcdSaid m_etcd_locked)
         (check_err m_etcd_unlock unlock
         (Act EtcdUnlocked Return))))))"

section \<open>SQLite, gin and the writer: cmd/sqlite/main.go, cmd/gin/main.go, concurrency/io_wait.go\<close>

datatype sqlite_event = Opened string | Executed string | MaxOpenConns int | Migrated | Saved string int | SqliteSaid string

text \<open>\<open>saved\<close> is the error of \<^verbatim>\<open>Save\<close> or the primary key that it gives the user.\<close>

definition sqlite_main :: "string option \<Rightarrow> string option \<Rightarrow> string option \<Rightarrow> string option \<Rightarrow> string + int \<Rightarrow> sqlite_event prog" where
  "sqlite_main open_err pragma getDB migrate saved =
     check_err m_sql_open open_err
    (Act (Opened ''test.db'')
    (check_err m_sql_mmap pragma
    (Act (Executed ''PRAGMA mmap_size = 268435456'')
    (check_err m_sql_db getDB
    (Act (MaxOpenConns 1)
    (check_err m_sql_migrate migrate
    (Act Migrated
    (case saved of Inl err \<Rightarrow> Die (m_sql_save @ err)
     | Inr key \<Rightarrow>
         Act (Saved ''Alice'' 25)
        (Act (SqliteSaid (m_sql_saved @ int_text key @ '', Name=Alice, Age=25'')) Return)))))))))"

text \<open>
  The web server: \<open>serve\<close> is an error that \<^verbatim>\<open>Serve\<close> returns before a signal comes; after \<^verbatim>\<open>Shutdown\<close> it returns
  \<^verbatim>\<open>ErrServerClosed\<close>, which is not reported.
\<close>

datatype gin_event = GinListens string | GinServes | GinShutDown | GinCancel | GinSaid string

definition gin_main :: "string option \<Rightarrow> string option \<Rightarrow> string option \<Rightarrow> gin_event prog" where
  "gin_main listen serve shutdown =
     check_err ''failed to listen: '' listen
    (Act (GinListens '':8080'')
    (Act (GinSaid ''server listening on :8080'')
    (check_err ''listen error: '' serve
    (Act GinServes
    (Act (GinSaid ''shutting down server...'')
    (Defer GinCancel
    (check_err ''server forced to shutdown:'' shutdown
    (Act GinShutDown
    (Act (GinSaid ''server exited'') Return)))))))))"

definition ping :: "string \<Rightarrow> string \<Rightarrow> (nat \<times> (string \<times> string) list) option" where
  "ping method path = (if method = ''GET'' \<and> path = ''/ping'' then Some (200, [(''msg'', ''pong'')]) else None)"

text \<open>The writer: a round writes, syncs, prints and sleeps, for ever or until an error; \<open>rounds\<close> are the answers so far.\<close>

datatype io_event = IoCreated string | IoClosed | IoWrites nat | IoSyncs | IoSaid string | IoSlept int

fun io_rounds :: "string \<Rightarrow> (string option \<times> string option) list \<Rightarrow> io_event prog" where
  "io_rounds ident [] = GoesOn"
| "io_rounds ident ((write_err, sync_err) # rounds) =
     check_err (''Goroutine '' @ ident @ '' failed to write to file: '') write_err
    (Act (IoWrites (1024 * 1024 * 128))
    (check_err (''Goroutine '' @ ident @ '' failed to sync file: '') sync_err
    (Act IoSyncs
    (Act (IoSaid (''Goroutine '' @ ident @ '' wrote 128MB of data to disk''))
    (Act (IoSlept 100) (io_rounds ident rounds))))))"

definition highIOWaitSimulation :: "int \<Rightarrow> string option \<Rightarrow> (string option \<times> string option) list \<Rightarrow> io_event prog" where
  "highIOWaitSimulation id' create rounds =
     (let ident = int_text id'; fileName = ''high_iowait_'' @ ident @ ''.txt''
      in check_err (''Failed to create file '' @ fileName @ '': '') create
          (Act (IoCreated fileName)
          (Defer IoClosed
          (Act (IoSaid (''Goroutine '' @ ident @ '' starting high iowait simulation...''))
            (io_rounds ident rounds)))))"


section \<open>What is released, and when\<close>

lemma run_main_unwinds: "unwinds (ends p) \<Longrightarrow> run_main p = (acts p @ rev (deferred p), ends p)"
  and run_main_exits: "\<not> unwinds (ends p) \<Longrightarrow> run_main p = (acts p, ends p)"
  by (simp_all add: run_main)

text \<open>
  C30. The file of the echo timer is removed exactly when the program returns, after the loop: every fatal error
  after the file has been made leaves it, since \<^verbatim>\<open>log.Fatal\<close> makes no deferred call; and the program returns when
  all its calls succeed and the loop is ended by a signal.
\<close>

theorem timer_file:
  "(let (es, r) = run_main (echo_timer_main a) in
      (TempRemoved path \<in> set es \<longleftrightarrow> TempCreated path \<in> set es \<and> r = Returned)
    \<and> (r = Returned \<longrightarrow> (\<exists>p. ta_createTemp a = Inr p \<and> take 4 (rev es) = [StopSignals, TempRemoved p, Logs ''shutdown complete'', LoopRuns]))
    \<and> (r = Returned \<longleftrightarrow> ta_listen a = None \<and> (\<exists>p. ta_createTemp a = Inr p) \<and> ta_write a = None \<and> ta_close a = None
         \<and> ta_poll a = None \<and> ta_resolve a = None \<and> (\<exists>u. ta_udp a = Inr u) \<and> ta_ctxErr a \<noteq> Some DeadlineExceeded))"
  by (cases "ta_createTemp a"; cases "ta_udp a")
    (auto simp: run_main echo_timer_main_def Let_def ctx_result_def split: option.splits intro: ctx_error.exhaust)


lemma timer_file_witness:
  "fst (run_main (echo_timer_main \<lparr>ta_listen = None, ta_createTemp = Inr ''/tmp/f'', ta_write = None, ta_close = None,
     ta_poll = Some ''no poll'', ta_resolve = None, ta_udp = Inr ''u'', ta_ctxErr = Some Canceled\<rparr>))
   = [LoopListensTCP ''127.0.0.1:7379'', TimerStarts 0 1000, TempCreated ''/tmp/f'', TempWritten ''/tmp/f'' ''v0'', TempClosed ''/tmp/f'']"
  using timer_file [of "\<lparr>ta_listen = None, ta_createTemp = Inr ''/tmp/f'', ta_write = None, ta_close = None,
     ta_poll = Some ''no poll'', ta_resolve = None, ta_udp = Inr ''u'', ta_ctxErr = Some Canceled\<rparr>" "''/tmp/f''"]
  by (simp add: run_main echo_timer_main_def Let_def)

text \<open>
  The lock of redis: it is given back when the program returns, and an error of the time to live or of the refresh
  leaves it to its expiry.
\<close>

lemma redis_releases:
  "(let (es, r) = run_main (redis_main obtained ttl1 refresh ttl2) in
      (LockReleased \<in> set es \<longleftrightarrow> obtained = Obtained \<and> r = Returned)
    \<and> (r = Returned \<longleftrightarrow> obtained = NotObtained
        \<or> obtained = Obtained \<and> \<not> isl ttl1 \<and> refresh = None \<and> \<not> isl ttl2))"
  by (cases obtained; cases ttl1; cases ttl2) (auto simp: run_main redis_main_def Let_def split: option.splits)

text \<open>The lock of etcd: a server that cannot be reached is a panic instead of the error; an acquired lock is given back or its error reported.\<close>

lemma etcd_unlocks:
  "(let (es, r) = run_main (etcd_main new session lock unlock) in
      (r = Crashed NilDereference \<longleftrightarrow> new \<noteq> None \<or> session \<noteq> None)
    \<and> (EtcdLocked \<in> set es \<longrightarrow> EtcdUnlocked \<in> set es \<or> (\<exists>err. unlock = Some err \<and> r = Fatal (m_etcd_unlock @ err))))"
  by (auto simp: run_main etcd_main_def split: option.splits)

lemma io_rounds_ends: "unwinds (ends (io_rounds ident rounds)) = False"
  by (induction ident rounds rule: io_rounds.induct) (simp_all split: option.splits)

text \<open>The writer never returns, so its file is never closed by it; each round without an error writes 128 MB.\<close>

lemma writer_never_closes:
  "IoClosed \<notin> set (fst (run_main (highIOWaitSimulation ident create rounds)))"
proof -
  have "IoClosed \<notin> set (acts (io_rounds x rounds))" for x
    by (induction x rounds rule: io_rounds.induct) simp_all
  then show ?thesis by (simp add: run_main highIOWaitSimulation_def Let_def io_rounds_ends split: option.splits)
qed

end
