(* ===== verification/Databases.thy ===== *)
theory Databases
  imports ExitPaths
begin

text \<open>
  The programs over PostgreSQL (\<^verbatim>\<open>gorm/pgsql\<close>) and over the time series of prometheus (\<^verbatim>\<open>tsdb\<close>): the connection
  strings and statements they write, their branches and what they print, with the databases as arguments.  What SQL reads in a
  delimited identifier and libpq in a connection string is stated beside them.
\<close>

section \<open>Settings\<close>

record settings =
  st_cfgFile :: string
  st_user :: string
  st_password :: string
  st_host :: string
  st_port :: string
  st_dbName :: string

definition createdb_defaults :: settings where
  "createdb_defaults = \<lparr>st_cfgFile = [], st_user = ''admin'', st_password = ''Bingo@1993'', st_host = ''10.206.114.9'', st_port = ''3433'',
     st_dbName = ''postgres''\<rparr>"

definition pgsql_defaults :: settings where
  "pgsql_defaults = \<lparr>st_cfgFile = [], st_user = ''admin'', st_password = ''Bingo@1993'', st_host = ''10.206.114.9'', st_port = ''3433'',
     st_dbName = []\<rparr>"

definition initConfig :: "settings \<Rightarrow> string list" where
  "initConfig st = (if st_cfgFile st \<noteq> [] then [''Using config file: '' @ st_cfgFile st] else [])"

definition pgsql_initConfig :: "settings \<Rightarrow> string list" where "pgsql_initConfig = initConfig"

definition createdb_dsn :: "settings \<Rightarrow> string" where
  "createdb_dsn st = ''host='' @ st_host st @ '' user='' @ st_user st @ '' password='' @ st_password st
     @ '' dbname=postgres port='' @ st_port st @ '' sslmode=disable''"

definition pgsql_dsn :: "settings \<Rightarrow> string" where
  "pgsql_dsn st = ''host='' @ st_host st @ '' user='' @ st_user st @ '' password='' @ st_password st
     @ '' dbname=postgres port='' @ st_port st @ '' sslmode=disable TimeZone=Asia/Shanghai connect_timeout=10''"

definition quoteIdentifier :: "string \<Rightarrow> string" where
  "quoteIdentifier s = [CHR 0x22] @ s @ [CHR 0x22]"

section \<open>createdb/createdb.go\<close>

text \<open>The messages, as bytes.\<close>

definition m_connecting :: string where
  "m_connecting = [CHR 0xF0, CHR 0x9F, CHR 0x9A, CHR 0x80] @ '' '' @ [CHR 0xE8, CHR 0xBF, CHR 0x9E, CHR 0xE6, CHR 0x8E, CHR 0xA5, CHR 0xE6, CHR 0x95, CHR 0xB0,
    CHR 0xE6, CHR 0x8D, CHR 0xAE, CHR 0xE5, CHR 0xBA, CHR 0x93] @ ''... ''"
definition m_connect_failed :: string where
  "m_connect_failed = [CHR 0xE2, CHR 0x9D, CHR 0x8C] @ '' '' @ [CHR 0xE8, CHR 0xBF, CHR 0x9E, CHR 0xE6, CHR 0x8E, CHR 0xA5, CHR 0xE5, CHR 0xA4, CHR 0xB1,
    CHR 0xE8, CHR 0xB4, CHR 0xA5] @ '':''"
definition m_default_connected :: string where
  "m_default_connected = [CHR 0xF0, CHR 0x9F, CHR 0x9A, CHR 0x80] @ '' '' @ [CHR 0xE9, CHR 0xBB, CHR 0x98, CHR 0xE8, CHR 0xAE, CHR 0xA4, CHR 0xE6, CHR 0x95, CHR 0xB0,
    CHR 0xE6, CHR 0x8D, CHR 0xAE, CHR 0xE5, CHR 0xBA, CHR 0x93, CHR 0xE8, CHR 0xBF, CHR 0x9E,
    CHR 0xE6, CHR 0x8E, CHR 0xA5, CHR 0xE6, CHR 0x88, CHR 0x90, CHR 0xE5, CHR 0x8A, CHR 0x9F]
    "
definition m_connected :: string where
  "m_connected = [CHR 0xF0, CHR 0x9F, CHR 0x9A, CHR 0x80] @ '' '' @ [CHR 0xE8, CHR 0xBF, CHR 0x9E, CHR 0xE6, CHR 0x8E, CHR 0xA5, CHR 0xE6, CHR 0x88, CHR 0x90,
    CHR 0xE5, CHR 0x8A, CHR 0x9F]"
definition m_created :: string where
  "m_created = [CHR 0xE2, CHR 0x9C, CHR 0x85] @ '' Database '' @ [CHR 0x27]"
definition m_list_failed :: string where
  "m_list_failed = [CHR 0xE6, CHR 0x9F, CHR 0xA5, CHR 0xE8, CHR 0xAF, CHR 0xA2, CHR 0xE7, CHR 0x94, CHR 0xA8,
    CHR 0xE6, CHR 0x88, CHR 0xB7, CHR 0xE6, CHR 0x95, CHR 0xB0, CHR 0xE6, CHR 0x8D, CHR 0xAE,
    CHR 0xE5, CHR 0xBA, CHR 0x93, CHR 0xE5, CHR 0xA4, CHR 0xB1, CHR 0xE8, CHR 0xB4, CHR 0xA5]
     @ '':''"
definition m_count1 :: string where
  "m_count1 = [CHR 0xE5, CHR 0xBD, CHR 0x93, CHR 0xE5, CHR 0x89, CHR 0x8D] @ '' PostgreSQL '' @ [CHR 0xE5, CHR 0xAE, CHR 0x9E, CHR 0xE4, CHR 0xBE, CHR 0x8B, CHR 0xE5, CHR 0x85, CHR 0xB1,
    CHR 0xE6, CHR 0x9C, CHR 0x89] @ '' ''"
definition m_count2 :: string where
  "m_count2 = '' '' @ [CHR 0xE4, CHR 0xB8, CHR 0xAA, CHR 0xE7, CHR 0x94, CHR 0xA8, CHR 0xE6, CHR 0x88, CHR 0xB7,
    CHR 0xE6, CHR 0x95, CHR 0xB0, CHR 0xE6, CHR 0x8D, CHR 0xAE, CHR 0xE5, CHR 0xBA, CHR 0x93]
     @ '':''"
definition m_none :: string where
  "m_none = [CHR 0xE6, CHR 0x9C, CHR 0xAA, CHR 0xE6, CHR 0x89, CHR 0xBE, CHR 0xE5, CHR 0x88, CHR 0xB0,
    CHR 0xE7, CHR 0x94, CHR 0xA8, CHR 0xE6, CHR 0x88, CHR 0xB7, CHR 0xE6, CHR 0x95, CHR 0xB0,
    CHR 0xE6, CHR 0x8D, CHR 0xAE, CHR 0xE5, CHR 0xBA, CHR 0x93]"
definition m_total :: string where
  "m_total = [CHR 0xE2, CHR 0x9C, CHR 0x85] @ '' '' @ [CHR 0xE7, CHR 0x94, CHR 0xA8, CHR 0xE6, CHR 0x88, CHR 0xB7, CHR 0xE6, CHR 0x95, CHR 0xB0,
    CHR 0xE6, CHR 0x8D, CHR 0xAE, CHR 0xE5, CHR 0xBA, CHR 0x93, CHR 0xE6, CHR 0x80, CHR 0xBB,
    CHR 0xE6, CHR 0x95, CHR 0xB0] @ '': ''"
definition m_create_failed :: string where
  "m_create_failed = [CHR 0xE5, CHR 0x88, CHR 0x9B, CHR 0xE5, CHR 0xBB, CHR 0xBA, CHR 0xE6, CHR 0x95, CHR 0xB0,
    CHR 0xE6, CHR 0x8D, CHR 0xAE, CHR 0xE5, CHR 0xBA, CHR 0x93, CHR 0xE5, CHR 0xA4, CHR 0xB1,
    CHR 0xE8, CHR 0xB4, CHR 0xA5] @ '':''"
definition m_no_user :: string where
  "m_no_user = [CHR 0xE6, CHR 0x9C, CHR 0xAA, CHR 0xE6, CHR 0x89, CHR 0xBE, CHR 0xE5, CHR 0x88, CHR 0xB0,
    CHR 0xE7, CHR 0x94, CHR 0xA8, CHR 0xE6, CHR 0x88, CHR 0xB7, CHR 0xE6, CHR 0x95, CHR 0xB0,
    CHR 0xE6, CHR 0x8D, CHR 0xAE] @ '': ''"
definition m_user_found :: string where
  "m_user_found = [CHR 0xF0, CHR 0x9F, CHR 0x91, CHR 0xA4] @ '' '' @ [CHR 0xE6, CHR 0x9F, CHR 0xA5, CHR 0xE8, CHR 0xAF, CHR 0xA2, CHR 0xE5, CHR 0x88, CHR 0xB0,
    CHR 0xE7, CHR 0x94, CHR 0xA8, CHR 0xE6, CHR 0x88, CHR 0xB7] @ '': ''"
definition m_users :: string where
  "m_users = [CHR 0xF0, CHR 0x9F, CHR 0x94, CHR 0xA2] @ '' '' @ [CHR 0xE7, CHR 0x94, CHR 0xA8, CHR 0xE6, CHR 0x88, CHR 0xB7, CHR 0xE6, CHR 0x80, CHR 0xBB,
    CHR 0xE6, CHR 0x95, CHR 0xB0] @ '': ''"

text \<open>The server of the database, over a state: opening, asking for a name, executing a statement, listing the databases of users.\<close>

record 's postgres =
  pg_open :: "string \<Rightarrow> string option"
  pg_exists :: "string \<Rightarrow> 's \<Rightarrow> string + bool"
  pg_exec :: "string \<Rightarrow> 's \<Rightarrow> string option \<times> 's"
  pg_list :: "'s \<Rightarrow> string + string list"

text \<open>\<^verbatim>\<open>log.Fatal\<close> inside of the function ends the program there.\<close>

datatype creation = CreateOk | CreateErr string | CreateFatal string

definition create_unless_exists :: "'s postgres \<Rightarrow> string \<Rightarrow> bool \<Rightarrow> 's \<Rightarrow> string list \<times> string option \<times> 's" where
  "create_unless_exists pg dbName exists s =
     (if exists then ([], None, s)
      else let creating = ''Database '' @ [CHR 0x27] @ dbName @ [CHR 0x27] @ '' does not exist, creating...''
           in case pg_exec pg (''CREATE DATABASE '' @ quoteIdentifier dbName) s of
                (Some err, s') \<Rightarrow> ([creating], Some err, s')
              | (None, s') \<Rightarrow> ([creating, m_created @ dbName @ [CHR 0x27] @ '' created successfully.''], None, s'))"

definition numbered :: "string list \<Rightarrow> string list" where
  "numbered names = map (\<lambda>(i, name). int_text (int i + 1) @ ''. '' @ name) (zip [0..<length names] names)"

definition report_databases :: "string + string list \<Rightarrow> string list \<times> creation" where
  "report_databases listed =
     (case listed of
        Inl err \<Rightarrow> ([], CreateFatal (m_list_failed @ err))
      | Inr names \<Rightarrow>
          let n = int_text (int (length names));
              heading = [m_count1 @ n @ m_count2, replicate 46 (CHR ''='')]
          in if names = [] then (heading @ [m_none], CreateErr m_none)
             else (heading @ numbered names @ [[], m_total @ n], CreateOk))"

definition createDatabaseIfNotExists :: "'s postgres \<Rightarrow> settings \<Rightarrow> 's \<Rightarrow> string list \<times> creation \<times> 's" where
  "createDatabaseIfNotExists pg st s =
     (let dsn = createdb_dsn st; out = [m_connecting @ dsn] in
      case pg_open pg dsn of
        Some err \<Rightarrow> (out, CreateFatal (m_connect_failed @ err), s)
      | None \<Rightarrow>
          let out = out @ [m_default_connected] in
          case pg_exists pg (st_dbName st) s of
            Inl err \<Rightarrow> (out, CreateErr (''failed to check if database exists: '' @ err), s)
          | Inr exists \<Rightarrow>
              case create_unless_exists pg (st_dbName st) exists s of
                (ls, Some err, s') \<Rightarrow> (out @ ls, CreateErr (''failed to create database: '' @ err), s')
              | (ls, None, s') \<Rightarrow>
                  case report_databases (pg_list pg s') of (ls', r) \<Rightarrow> (out @ ls @ ls', r, s'))"

text \<open>\<open>parsed\<close> is what cobra makes of the command line; an error of it goes to the standard error and ends with code 1.\<close>

datatype exits = ExitCode0 | ExitCode1 string

definition createdb_main :: "'s postgres \<Rightarrow> string + settings \<Rightarrow> 's \<Rightarrow> string list \<times> exits \<times> 's" where
  "createdb_main pg parsed s =
     (case parsed of
        Inl err \<Rightarrow> ([], ExitCode1 err, s)
      | Inr st \<Rightarrow>
          case createDatabaseIfNotExists pg st s of (out, r, s') \<Rightarrow>
            (initConfig st @ out,
             (case r of CreateOk \<Rightarrow> ExitCode0 | CreateErr err \<Rightarrow> ExitCode1 (m_create_failed @ err) | CreateFatal m \<Rightarrow> ExitCode1 m), s'))"

section \<open>sql/postgresssql.go\<close>

text \<open>\<open>first\<close> is the text of the user found; the error of the count is dropped, and the count stays 0.\<close>

definition pgsql_Start :: "settings \<Rightarrow> string option \<Rightarrow> string + string \<Rightarrow> string + int \<Rightarrow> string list \<times> exits" where
  "pgsql_Start st open_err first counted =
     (let out = [m_connecting @ pgsql_dsn st] in
      case open_err of
        Some err \<Rightarrow> (out, ExitCode1 (m_connect_failed @ err))
      | None \<Rightarrow>
          (out @ [m_connected,
             (case first of Inl err \<Rightarrow> m_no_user @ err | Inr user \<Rightarrow> m_user_found @ user),
             m_users @ int_text (case counted of Inl err \<Rightarrow> 0 | Inr n \<Rightarrow> n)],
           ExitCode0))"

definition pgsql_main :: "string + settings \<Rightarrow> string option \<Rightarrow> string + string \<Rightarrow> string + int \<Rightarrow> string list \<times> exits" where
  "pgsql_main parsed open_err first counted =
     (case parsed of
        Inl err \<Rightarrow> ([], ExitCode1 err)
      | Inr st \<Rightarrow> case pgsql_Start st open_err first counted of (out, r) \<Rightarrow> (pgsql_initConfig st @ out, r))"

section \<open>The time series of prometheus\<close>

text \<open>\<^verbatim>\<open>tsdb/tsdb_agent.go\<close>.\<close>

text \<open>A sample is a float with its time, both as they are printed, or another kind of value, which ends the series.\<close>

datatype sample = FloatSample string string | OtherSample

record series =
  se_labels :: string
  se_samples :: "sample list"
  se_err :: "string option"

fun points_loop :: "nat \<Rightarrow> sample list \<Rightarrow> string list \<times> nat" where
  "points_loop pointCount (FloatSample ts val # samples) =
     (let (ls, n) = points_loop (pointCount + 1) samples
      in ((if pointCount < 5 then [''  Time: '' @ ts @ '', Value: '' @ val] else []) @ ls, n))"
| "points_loop pointCount _ = ([], pointCount)"

fun series_loop :: "nat \<Rightarrow> series list \<Rightarrow> string list" where
  "series_loop seen [] = []"
| "series_loop seen (s # ss) =
     (let (ls, n) = points_loop 0 (se_samples s);
          lines = [''Series Labels: '' @ se_labels s] @ ls
                  @ (case se_err s of None \<Rightarrow> [] | Some err \<Rightarrow> [''Iterator error: '' @ err])
                  @ [''  Total points in range: '' @ decimal n, []]
      in lines @ (if seen + 1 \<ge> 3 then [] else series_loop (seen + 1) ss))"

datatype tsdb_event = DbOpened string | DbClosed | QuerierMade int int | QuerierClosed | Selected "(string \<times> string) list" | TsdbPrints "string list"

definition tsdb_main :: "int \<Rightarrow> string option \<Rightarrow> string option \<Rightarrow> series list \<Rightarrow> string option \<Rightarrow> tsdb_event prog" where
  "tsdb_main now open_err querier_err found set_err =
     check_err ''Failed to open TSDB: '' open_err
    (Act (DbOpened ''./data'')
    (Defer DbClosed
    (check_err ''Failed to create querier: '' querier_err
    (Act (QuerierMade (now - 3600000) now)
    (Defer QuerierClosed
    (Act (Selected [(''__name__'', ''node_cpu_seconds_total''), (''mode'', ''idle'')])
    (Act (TsdbPrints (series_loop 0 found))
    (check_err ''Select error: '' set_err Return))))))))"

section \<open>What SQL reads\<close>

text \<open>A delimited identifier ends at the first quote that is not doubled; a doubled quote stands for one.\<close>

fun read_delimited :: "string \<Rightarrow> (string \<times> string) option" where
  "read_delimited [] = None"
| "read_delimited (c # s) =
     (if c \<noteq> CHR 0x22 then map_option (\<lambda>(n, r). (c # n, r)) (read_delimited s)
      else case s of
             d # s' \<Rightarrow> if d = CHR 0x22 then map_option (\<lambda>(n, r). (d # n, r)) (read_delimited s') else Some ([], s)
           | [] \<Rightarrow> Some ([], []))"

fun read_identifier :: "string \<Rightarrow> (string \<times> string) option" where
  "read_identifier (c # s) = (if c = CHR 0x22 then read_delimited s else None)"
| "read_identifier [] = None"

lemma read_delimited_length:
  "read_delimited t = Some (n, r) \<Longrightarrow> length t = length n + length (filter (\<lambda>c. c = CHR 0x22) n) + 1 + length r"
  by (induction t arbitrary: n r rule: read_delimited.induct) (auto split: if_splits list.splits)

lemma read_delimited_plain: "CHR 0x22 \<notin> set s \<Longrightarrow> read_delimited (s @ [CHR 0x22]) = Some (s, [])"
  by (induction s) auto

text \<open>
  The quoting is right exactly for names without a quote: then the identifier read from it is the name and nothing
  is left of the statement; for every other name SQL reads another name, or a name and more of a statement.
\<close>

theorem quoteIdentifier_reads:
  "read_identifier (quoteIdentifier s) = Some (s, []) \<longleftrightarrow> CHR 0x22 \<notin> set s"
proof
  assume "read_identifier (quoteIdentifier s) = Some (s, [])"
  then have "read_delimited (s @ [CHR 0x22]) = Some (s, [])" by (simp add: quoteIdentifier_def)
  from read_delimited_length [OF this] show "CHR 0x22 \<notin> set s" by (auto simp: filter_empty_conv)
qed (simp add: quoteIdentifier_def read_delimited_plain)

text \<open>A name can carry a statement of its own.\<close>

lemma quoteIdentifier_injection:
  "read_identifier (quoteIdentifier (''x'' @ [CHR 0x22] @ ''; DROP TABLE users; --'')) = Some (''x'', ''; DROP TABLE users; --'' @ [CHR 0x22])"
  by (simp add: quoteIdentifier_def)

section \<open>What libpq reads\<close>

text \<open>A connection string without quotes and backslashes is words between spaces, each a keyword and a value.\<close>

fun dsn_words :: "string \<Rightarrow> string \<Rightarrow> string list" where
  "dsn_words w [] = (if w = [] then [] else [w])"
| "dsn_words w (c # s) = (if c = CHR '' '' then (if w = [] then [] else [w]) @ dsn_words [] s else dsn_words (w @ [c]) s)"

definition dsn_field :: "string \<Rightarrow> string \<times> string" where
  "dsn_field w = (takeWhile (\<lambda>c. c \<noteq> CHR ''='') w, drop 1 (dropWhile (\<lambda>c. c \<noteq> CHR ''='') w))"

definition dsn_fields :: "string \<Rightarrow> (string \<times> string) list" where "dsn_fields s = map dsn_field (dsn_words [] s)"

lemma dsn_words_append: "CHR '' '' \<notin> set v \<Longrightarrow> dsn_words w (v @ s) = dsn_words (w @ v) s"
  by (induction v arbitrary: w) auto

lemma dsn_field_eq: "CHR ''='' \<notin> set k \<Longrightarrow> dsn_field (k @ CHR ''='' # v) = (k, v)"
  by (induction k) (auto simp: dsn_field_def)


definition plain_value :: "string \<Rightarrow> bool" where
  "plain_value v \<longleftrightarrow> CHR '' '' \<notin> set v \<and> CHR 0x27 \<notin> set v \<and> CHR 0x5C \<notin> set v"

lemma dsn_step:
  assumes "plain_value v" and "CHR '' '' \<notin> set k" and "CHR ''='' \<notin> set k" and "k \<noteq> []"
  shows "map dsn_field (dsn_words [] (k @ CHR ''='' # v @ CHR '' '' # s)) = (k, v) # map dsn_field (dsn_words [] s)"
proof -
  have "dsn_words [] ((k @ CHR ''='' # v) @ CHR '' '' # s) = dsn_words (k @ CHR ''='' # v) (CHR '' '' # s)"
    using assms by (subst dsn_words_append) (auto simp: plain_value_def)
  then show ?thesis using assms(3,4) by (simp add: dsn_field_eq)
qed

text \<open>
  A connection string says what the settings say, whatever characters they have other than spaces, quotes and
  backslashes: libpq reads the host, the user, the password and the port back from it.
\<close>

theorem dsn_roundtrip:
  assumes "plain_value (st_host st)" and "plain_value (st_user st)" and "plain_value (st_password st)" and "plain_value (st_port st)"
  shows "dsn_fields (createdb_dsn st) = [(''host'', st_host st), (''user'', st_user st), (''password'', st_password st),
           (''dbname'', ''postgres''), (''port'', st_port st), (''sslmode'', ''disable'')]
    \<and> dsn_fields (pgsql_dsn st) = dsn_fields (createdb_dsn st) @ [(''TimeZone'', ''Asia/Shanghai''), (''connect_timeout'', ''10'')]"
proof -
  note step = dsn_step [where k = "''host''", simplified] dsn_step [where k = "''user''", simplified]
    dsn_step [where k = "''password''", simplified] dsn_step [where k = "''port''", simplified]
  show ?thesis
    using assms by (simp add: dsn_fields_def createdb_dsn_def pgsql_dsn_def step dsn_field_def)
qed

lemma dsn_roundtrip_witness:
  "dsn_fields (createdb_dsn createdb_defaults) = [(''host'', ''10.206.114.9''), (''user'', ''admin''), (''password'', ''Bingo@1993''),
     (''dbname'', ''postgres''), (''port'', ''3433''), (''sslmode'', ''disable'')]"
  using dsn_roundtrip [of createdb_defaults] by (simp add: createdb_defaults_def plain_value_def)

text \<open>A space in the password ends it, and what follows is read as further settings.\<close>

lemma dsn_password_splits:
  "map snd (filter (\<lambda>(k, v). k = ''password'') (dsn_fields (pgsql_dsn (pgsql_defaults\<lparr>st_password := ''a b''\<rparr>)))) = [''a'']
   \<and> (''host'', ''evil'') \<in> set (dsn_fields (pgsql_dsn (pgsql_defaults\<lparr>st_password := ''a host=evil''\<rparr>)))"
  by (simp add: pgsql_dsn_def pgsql_defaults_def dsn_fields_def dsn_field_def)

section \<open>Creating a database\<close>

text \<open>
  A server that opens, holds the databases \<open>dbs s\<close>, executes the statement for a name that SQL reads and that is not
  there, and lists the databases but for the system's own.
\<close>

definition serves_databases :: "('s \<Rightarrow> string list) \<Rightarrow> 's postgres \<Rightarrow> bool" where
  "serves_databases dbs pg \<longleftrightarrow>
     (\<forall>dsn. pg_open pg dsn = None) \<and> (\<forall>name s. pg_exists pg name s = Inr (name \<in> set (dbs s))) \<and>
     (\<forall>t name s. read_identifier t = Some (name, []) \<longrightarrow> name \<notin> set (dbs s) \<longrightarrow>
        (\<exists>s'. pg_exec pg (''CREATE DATABASE '' @ t) s = (None, s') \<and> set (dbs s') = insert name (set (dbs s)))) \<and>
     (\<forall>s. pg_list pg s = Inr (filter (\<lambda>n. n \<notin> {''postgres'', ''template0'', ''template1''}) (dbs s)))"

text \<open>
  Afterwards the database is there, under the name asked for, and all others are as they were; and the program
  ends with success exactly when the server then has a database that is not its own, whether it made one or not.
\<close>

theorem createdb_creates:
  assumes pg: "serves_databases dbs pg" and "CHR 0x22 \<notin> set (st_dbName st)"
  shows "\<exists>out r s'. createdb_main pg (Inr st) s = (out, r, s') \<and> set (dbs s') = insert (st_dbName st) (set (dbs s))
    \<and> (r = ExitCode0 \<longleftrightarrow> \<not> insert (st_dbName st) (set (dbs s)) \<subseteq> {''postgres'', ''template0'', ''template1''})"
proof -
  let ?name = "st_dbName st"
  have ident: "read_identifier (quoteIdentifier ?name) = Some (?name, [])" using assms(2) quoteIdentifier_def
    by (simp add: read_delimited_plain)
  obtain ls s' where s': "create_unless_exists pg ?name (?name \<in> set (dbs s)) s = (ls, None, s')"
    "set (dbs s') = insert ?name (set (dbs s))"
  proof (cases "?name \<in> set (dbs s)")
    case True
    with that show ?thesis by (auto simp: create_unless_exists_def)
  next
    case False
    with pg ident obtain s' where "pg_exec pg (''CREATE DATABASE '' @ quoteIdentifier ?name) s = (None, s')"
      "set (dbs s') = insert ?name (set (dbs s))" unfolding serves_databases_def by blast
    with that False show ?thesis by (auto simp: create_unless_exists_def Let_def)
  qed
  let ?names = "filter (\<lambda>n. n \<notin> {''postgres'', ''template0'', ''template1''}) (dbs s')"
  have list: "pg_list pg s' = Inr ?names" and exists: "pg_exists pg ?name s = Inr (?name \<in> set (dbs s))"
    and opens: "pg_open pg dsn = None" for dsn using pg by (simp_all add: serves_databases_def)
  have "?names = [] \<longleftrightarrow> set (dbs s') \<subseteq> {''postgres'', ''template0'', ''template1''}" by (auto simp: filter_empty_conv)
  then show ?thesis unfolding s'(2)
    using s'
    by (cases "?names = []")
      (simp_all add: createdb_main_def createDatabaseIfNotExists_def Let_def opens exists list report_databases_def del: insert_subset)
qed


text \<open>A server that keeps a list of names, for which this holds.\<close>

definition names_server :: "string list postgres" where
  "names_server = \<lparr>pg_open = (\<lambda>_. None), pg_exists = (\<lambda>name s. Inr (name \<in> set s)),
     pg_exec = (\<lambda>stmt s. case read_identifier (drop 16 stmt) of Some (name, []) \<Rightarrow> (None, name # s) | _ \<Rightarrow> (Some ''syntax'', s)),
     pg_list = (\<lambda>s. Inr (filter (\<lambda>n. n \<notin> {''postgres'', ''template0'', ''template1''}) s))\<rparr>"

lemma names_server_serves: "serves_databases id names_server"
  by (simp add: serves_databases_def names_server_def)

lemma createdb_creates_witness:
  "\<exists>out r s'. createdb_main names_server (Inr (createdb_defaults\<lparr>st_dbName := ''shop''\<rparr>)) [''postgres''] = (out, r, s')
     \<and> set s' = {''shop'', ''postgres''} \<and> r = ExitCode0"
  using createdb_creates [OF names_server_serves, of "createdb_defaults\<lparr>st_dbName := ''shop''\<rparr>" "[''postgres'']"]
  by auto

text \<open>With the default name on a server without databases of users the program fails although nothing has failed.\<close>

lemma default_name_fails:
  "\<exists>out. createdb_main names_server (Inr createdb_defaults) [''postgres''] = (out, ExitCode1 (m_create_failed @ m_none), [''postgres''])"
  by (simp add: createdb_main_def createDatabaseIfNotExists_def Let_def names_server_def createdb_defaults_def
      create_unless_exists_def report_databases_def)

text \<open>An error of the count is shown as a count of 0.\<close>

lemma count_error_is_zero: "pgsql_Start st open_err first (Inl err) = pgsql_Start st open_err first (Inr 0)"
  by (cases open_err) (simp_all add: pgsql_Start_def)

section \<open>The report of the time series\<close>

fun float_samples :: "sample list \<Rightarrow> (string \<times> string) list" where
  "float_samples (FloatSample ts val # samples) = (ts, val) # float_samples samples"
| "float_samples _ = []"

definition series_report :: "series \<Rightarrow> string list" where
  "series_report s =
     [''Series Labels: '' @ se_labels s]
     @ map (\<lambda>(ts, val). ''  Time: '' @ ts @ '', Value: '' @ val) (take 5 (float_samples (se_samples s)))
     @ (case se_err s of None \<Rightarrow> [] | Some err \<Rightarrow> [''Iterator error: '' @ err])
     @ [''  Total points in range: '' @ decimal (length (float_samples (se_samples s))), []]"

lemma points_loop_eq:
  "points_loop k samples =
     (map (\<lambda>(ts, val). ''  Time: '' @ ts @ '', Value: '' @ val) (take (5 - k) (float_samples samples)), k + length (float_samples samples))"
proof (induction k samples rule: points_loop.induct)
  case (1 k ts val samples)
  then show ?case
  proof (cases "k < 5")
    case True
    then obtain n where "5 - k = Suc n" and "5 - (k + 1) = n" by (metis Suc_diff_Suc Suc_eq_plus1)
    with 1 True show ?thesis by (simp add: Let_def)
  next
    case False
    with 1 show ?thesis by (simp add: Let_def)
  qed
qed simp_all

lemma series_loop_eq: "k < 3 \<Longrightarrow> series_loop k ss = concat (map series_report (take (3 - k) ss))"
proof (induction k ss rule: series_loop.induct)
  case (2 k s ss)
  then obtain n where n: "3 - k = Suc n" by (cases "3 - k") simp_all
  then have "3 - (k + 1) = n" and "k + 1 \<ge> 3 \<longleftrightarrow> n = 0" by linarith+
  with 2 n show ?case by (auto simp: points_loop_eq series_report_def Let_def)
qed simp

text \<open>
  The loops report the first three series, of each the first five of its floats and the number of all that come
  before another kind of sample, and the error that ended it.
\<close>

theorem tsdb_report:
  "run_main (tsdb_main now None None found set_err) =
     ([DbOpened ''./data'', QuerierMade (now - 3600000) now, Selected [(''__name__'', ''node_cpu_seconds_total''), (''mode'', ''idle'')],
       TsdbPrints (concat (map series_report (take 3 found)))]
      @ (case set_err of None \<Rightarrow> [QuerierClosed, DbClosed] | Some err \<Rightarrow> []),
      (case set_err of None \<Rightarrow> Returned | Some err \<Rightarrow> Fatal (''Select error: '' @ err)))"
  by (simp add: run_main tsdb_main_def series_loop_eq split: option.splits)

end
