(* ===== verification/SmallParts.thy ===== *)
theory SmallParts
  imports Exporter LogSetup NetAddr
begin

text \<open>
  The small packages: decoding JSON into an interface, the byte order of the machine, the checksum of a file and the
  reading of a configuration, sums over maps, the pattern of rule paths, the commands of \<^verbatim>\<open>cobra\<close>, and the
  programs that set up the exporter and the logger.
\<close>

section \<open>The package json\<close>

text \<open>
  A value of an interface, as far as the program makes them; a JSON text is its tree, its strings without characters that
  are escaped.
\<close>

datatype json = JNull | JString string | JNumber int | JObject "(string \<times> json) list"
datatype dynamic = DPerson string int | DString string | DFloat int | DMap "(string \<times> dynamic) list" | DNil

record People =
  pe_Data :: dynamic

fun marshal_any :: "dynamic \<Rightarrow> json" where
  "marshal_any (DPerson name age) = JObject [(''name'', JString name), (''age'', JNumber age)]"
| "marshal_any (DString s) = JString s"
| "marshal_any (DFloat i) = JNumber i"
| "marshal_any (DMap kvs) = JObject (map (\<lambda>(k, v). (k, marshal_any v)) kvs)"
| "marshal_any DNil = JNull"

definition marshal_People :: "People \<Rightarrow> json" where
  "marshal_People p = JObject [(''Person'', marshal_any (pe_Data p))]"

text \<open>Into an empty interface an object becomes a map and a number a float, whatever they were made from.\<close>

fun unmarshal_any :: "json \<Rightarrow> dynamic" where
  "unmarshal_any JNull = DNil"
| "unmarshal_any (JString s) = DString s"
| "unmarshal_any (JNumber i) = DFloat i"
| "unmarshal_any (JObject kvs) = DMap (map (\<lambda>(k, v). (k, unmarshal_any v)) kvs)"

fun unmarshal_People :: "json \<Rightarrow> string + People" where
  "unmarshal_People (JObject kvs) = Inr \<lparr>pe_Data = (case map_of (rev kvs) ''Person'' of None \<Rightarrow> DNil | Some j \<Rightarrow> unmarshal_any j)\<rparr>"
| "unmarshal_People _ = Inl ''json: cannot unmarshal into Go value of type json.People''"

fun with_commas :: "string list \<Rightarrow> string" where
  "with_commas [] = []"
| "with_commas [w] = w"
| "with_commas (w # ws) = w @ '','' @ with_commas ws"

fun json_text :: "json \<Rightarrow> string" where
  "json_text JNull = ''null''"
| "json_text (JString s) = [CHR 0x22] @ s @ [CHR 0x22]"
| "json_text (JNumber i) = int_text i"
| "json_text (JObject kvs) =
     ''{'' @ with_commas (map (\<lambda>(k, v). [CHR 0x22] @ k @ [CHR 0x22] @ '':'' @ json_text v) kvs) @ ''}''"

text \<open>The assertion of the type; \<open>\<^verbatim>\<open>Unmarshal\<close>\<close> prints the text and the person.\<close>

definition assert_Person :: "dynamic \<Rightarrow> (string \<times> int) go" where
  "assert_Person d =
     (case d of DPerson name age \<Rightarrow> Inr (name, age)
      | _ \<Rightarrow> Inl (PanicMsg ''interface conversion: interface {} is not json.Person''))"

definition json_Unmarshal :: "string list \<times> (string option) go" where
  "json_Unmarshal =
     (let data = marshal_People \<lparr>pe_Data = DPerson ''zhangsan'' 18\<rparr>; out = [json_text data] in
      case unmarshal_People data of
        Inl err \<Rightarrow> (out, Inr (Some err))
      | Inr people2 \<Rightarrow>
          (case assert_Person (pe_Data people2) of
             Inl p \<Rightarrow> (out, Inl p)
           | Inr (name, age) \<Rightarrow> (out @ [name @ '' '' @ decimal (nat age)], Inr None)))"

definition jsonMarshal :: "string list \<times> unit go" where
  "jsonMarshal = (case json_Unmarshal of (out, r) \<Rightarrow> (out, map_sum id (\<lambda>_. ()) r))"

text \<open>Nothing that is decoded is a person, so the program always panics, as its comment says.\<close>

lemma decoded_no_person: "isl (assert_Person (unmarshal_any j))"
  by (cases j) (simp_all add: assert_Person_def)

lemma json_panics:
  "jsonMarshal = ([''{'' @ [CHR 0x22] @ ''Person'' @ [CHR 0x22] @ '':{'' @ [CHR 0x22] @ ''name'' @ [CHR 0x22] @ '':'' @ [CHR 0x22] @ ''zhangsan''
      @ [CHR 0x22] @ '','' @ [CHR 0x22] @ ''age'' @ [CHR 0x22] @ '':'' @ decimal 18 @ ''}}''],
     Inl (PanicMsg ''interface conversion: interface {} is not json.Person''))"
  by (simp add: jsonMarshal_def json_Unmarshal_def int_text_def marshal_People_def assert_Person_def Let_def)

section \<open>linux/endianess.go\<close>

datatype byte_order = BigEndian | LittleEndian

text \<open>\<open>store\<close> is how the machine lays out an integer of 16 bits; the first byte decides.\<close>

definition NativeEndian_init :: "(16 word \<Rightarrow> 8 word list) \<Rightarrow> byte_order" where
  "NativeEndian_init store = (if hd (store 1) = 0 then BigEndian else LittleEndian)"

definition NativelyLittle :: "byte_order \<Rightarrow> bool" where "NativelyLittle e \<longleftrightarrow> e = LittleEndian"

definition store_little :: "16 word \<Rightarrow> 8 word list" where "store_little x = [ucast x, ucast (drop_bit 8 x)]"
definition store_big :: "16 word \<Rightarrow> 8 word list" where "store_big x = [ucast (drop_bit 8 x), ucast x]"

lemma native_order:
  "NativelyLittle (NativeEndian_init store_little)" "\<not> NativelyLittle (NativeEndian_init store_big)"
  by (simp_all add: NativeEndian_init_def NativelyLittle_def store_little_def store_big_def)

section \<open>file/checksum.go and config/loadconfig.go\<close>

definition hex_digit :: "nat \<Rightarrow> char" where
  "hex_digit d = ''0123456789abcdef'' ! d"

definition EncodeToString :: "8 word list \<Rightarrow> string" where
  "EncodeToString bs = concat (map (\<lambda>b. [hex_digit (unat b div 16), hex_digit (unat b mod 16)]) bs)"

datatype file_event = FileOpened string | FileClosed

text \<open>\<open>content\<close> is what \<^verbatim>\<open>io.Copy\<close> reads; the digest is an argument.\<close>

definition GenerateChecksum ::
  "(string \<Rightarrow> 8 word list) \<Rightarrow> string \<Rightarrow> string option \<Rightarrow> string + string \<Rightarrow> file_event list \<times> string \<times> string option" where
  "GenerateChecksum md5 configFilePath open_err content =
     (case open_err of
        Some err \<Rightarrow> ([], [], Some err)
      | None \<Rightarrow>
          (case content of
             Inl err \<Rightarrow> ([FileOpened configFilePath], [], Some err)
           | Inr bytes \<Rightarrow> ([FileOpened configFilePath], EncodeToString (md5 bytes), None)))"

lemma checksum_never_closes: "FileClosed \<notin> set (fst (GenerateChecksum md5 path open_err content))"
  by (simp add: GenerateChecksum_def split: option.split sum.split)

lemma hex_digit_inj: "hex_digit d = hex_digit e \<Longrightarrow> d < 16 \<Longrightarrow> e < 16 \<Longrightarrow> d = e"
proof -
  have "distinct ''0123456789abcdef''" and "length ''0123456789abcdef'' = 16" by simp_all
  then show "hex_digit d = hex_digit e \<Longrightarrow> d < 16 \<Longrightarrow> e < 16 \<Longrightarrow> d = e"
    unfolding hex_digit_def using nth_eq_iff_index_eq [of "''0123456789abcdef''" d e] by metis
qed

lemma hex_byte_inj:
  assumes "hex_digit (b div 16) = hex_digit (c div 16)" and "hex_digit (b mod 16) = hex_digit (c mod 16)" and "b < 256" and "c < 256"
  shows "b = c"
proof -
  have "b div 16 < 16" "c div 16 < 16" using assms(3,4) by simp_all
  with assms(1) have "b div 16 = c div 16" by (rule hex_digit_inj)
  moreover have "b mod 16 = c mod 16" using assms(2) by (rule hex_digit_inj) simp_all
  ultimately show ?thesis by (metis div_mult_mod_eq)
qed

text \<open>The text of a checksum determines its bytes.\<close>

lemma EncodeToString_inj: "EncodeToString bs = EncodeToString cs \<Longrightarrow> bs = cs"
proof (induction bs arbitrary: cs)
  case Nil
  then show ?case by (cases cs) (simp_all add: EncodeToString_def)
next
  case (Cons b bs)
  then obtain c cs' where cs: "cs = c # cs'" by (cases cs) (simp_all add: EncodeToString_def)
  have "unat b < 256" "unat c < 256" using unsigned_less [where 'a = nat, of b] unsigned_less [where 'a = nat, of c] by simp_all
  with Cons cs hex_byte_inj [of "unat b" "unat c"] have "unat b = unat c" and "EncodeToString bs = EncodeToString cs'"
    by (simp_all add: EncodeToString_def)
  with Cons.IH cs show ?case by (simp add: word_unat_eq_iff)
qed

definition LoadFile :: "(string \<Rightarrow> string + string) \<Rightarrow> (string \<Rightarrow> string + 'cfg) \<Rightarrow> string \<Rightarrow> 'cfg option \<times> string option" where
  "LoadFile readFile unmarshalStrict filename =
     (case readFile filename of
        Inl err \<Rightarrow> (None, Some err)
      | Inr content \<Rightarrow> (case unmarshalStrict content of Inl err \<Rightarrow> (None, Some err) | Inr cfg \<Rightarrow> (Some cfg, None)))"

section \<open>template/template.go\<close>

text \<open>The values in the order in which the map is visited.\<close>

definition SumIntsOrFloats :: "('v \<Rightarrow> 'v \<Rightarrow> 'v) \<Rightarrow> 'v \<Rightarrow> 'v list \<Rightarrow> 'v" where
  "SumIntsOrFloats add start vs = foldl add start vs"

lemma sum_of_ints: "SumIntsOrFloats (+) (0 :: 64 word) vs = sum_list vs"
proof -
  have "foldl (+) a vs = a + sum_list vs" for a :: "64 word"
    by (induction vs arbitrary: a) (simp_all add: add.assoc)
  then show ?thesis by (simp add: SumIntsOrFloats_def)
qed

text \<open>For integers the order of the visit does not matter, overflow included.\<close>

lemma sum_any_order: "mset vs = mset ws \<Longrightarrow> SumIntsOrFloats (+) (0 :: 64 word) vs = SumIntsOrFloats (+) 0 ws"
  unfolding sum_of_ints by (metis sum_mset_sum_list)

text \<open>\<open>float_text\<close> prints a float, \<open>fplus\<close> adds two.\<close>

definition sums_main :: "('f \<Rightarrow> 'f \<Rightarrow> 'f) \<Rightarrow> 'f \<Rightarrow> ('f \<Rightarrow> string) \<Rightarrow> 64 word list \<Rightarrow> 'f list \<Rightarrow> string" where
  "sums_main fplus fzero float_text ints floats =
     ''Non-Generic Sums: '' @ decimal (unat (SumIntsOrFloats (+) 0 ints)) @ '' and '' @ float_text (SumIntsOrFloats fplus fzero floats)"

section \<open>regexp/rule_path.go\<close>

text \<open>Matching against \<^verbatim>\<open>^[^*]*(\*[^/]*)?$\<close>: what follows the first star has no slash.\<close>

definition patRulePath :: "string \<Rightarrow> bool" where
  "patRulePath s =
     (case dropWhile (\<lambda>c. c \<noteq> CHR ''*'') s of [] \<Rightarrow> True | _ # rest \<Rightarrow> list_all (\<lambda>c. c \<noteq> CHR ''/'') rest)"

text \<open>The language of the expression: characters other than stars, then perhaps a star and characters other than slashes.\<close>

definition rule_path_language :: "string set" where
  "rule_path_language = {a @ b | a b. CHR ''*'' \<notin> set a \<and> (b = [] \<or> (\<exists>c. b = CHR ''*'' # c \<and> CHR ''/'' \<notin> set c))}"

theorem patRulePath_language: "patRulePath s \<longleftrightarrow> s \<in> rule_path_language"
proof
  assume p: "patRulePath s"
  let ?a = "takeWhile (\<lambda>c. c \<noteq> CHR ''*'') s" and ?b = "dropWhile (\<lambda>c. c \<noteq> CHR ''*'') s"
  have "s = ?a @ ?b" by simp
  moreover have "CHR ''*'' \<notin> set ?a" by (auto dest: set_takeWhileD)
  moreover have "?b = [] \<or> (\<exists>c. ?b = CHR ''*'' # c \<and> CHR ''/'' \<notin> set c)"
  proof (cases ?b)
    case (Cons d c)
    then have "d = CHR ''*''" by (metis (full_types) dropWhile_eq_Cons_conv)
    with p Cons show ?thesis by (auto simp: patRulePath_def list_all_iff)
  qed simp
  ultimately show "s \<in> rule_path_language" unfolding rule_path_language_def by blast
next
  assume "s \<in> rule_path_language"
  then obtain a b where s: "s = a @ b" and a: "CHR ''*'' \<notin> set a" and b: "b = [] \<or> (\<exists>c. b = CHR ''*'' # c \<and> CHR ''/'' \<notin> set c)"
    unfolding rule_path_language_def by blast
  from a have "dropWhile (\<lambda>c. c \<noteq> CHR ''*'') s = dropWhile (\<lambda>c. c \<noteq> CHR ''*'') b"
    unfolding s by (intro dropWhile_append2) auto
  with b show "patRulePath s" by (auto simp: patRulePath_def list_all_iff)
qed

section \<open>cobra\<close>

definition m_starting :: string where
  "m_starting = [CHR 0xE6, CHR 0xAD, CHR 0xA3, CHR 0xE5, CHR 0x9C, CHR 0xA8, CHR 0xE5, CHR 0x90, CHR 0xAF,
    CHR 0xE5, CHR 0x8A, CHR 0xA8, CHR 0xE6, CHR 0x9C, CHR 0x8D, CHR 0xE5, CHR 0x8A, CHR 0xA1]
     @ ''...''"
definition m_stopping :: string where
  "m_stopping = [CHR 0xE6, CHR 0xAD, CHR 0xA3, CHR 0xE5, CHR 0x9C, CHR 0xA8, CHR 0xE5, CHR 0x81, CHR 0x9C,
    CHR 0xE6, CHR 0xAD, CHR 0xA2, CHR 0xE6, CHR 0x9C, CHR 0x8D, CHR 0xE5, CHR 0x8A, CHR 0xA1]
     @ ''...''"
definition m_running :: string where
  "m_running = [CHR 0xE5, CHR 0xBD, CHR 0x93, CHR 0xE5, CHR 0x89, CHR 0x8D, CHR 0xE6, CHR 0x9C, CHR 0x8D,
    CHR 0xE5, CHR 0x8A, CHR 0xA1, CHR 0xE7, CHR 0x8A, CHR 0xB6, CHR 0xE6, CHR 0x80, CHR 0x81,
    CHR 0xEF, CHR 0xBC, CHR 0x9A, CHR 0xE8, CHR 0xBF, CHR 0x90, CHR 0xE8, CHR 0xA1, CHR 0x8C,
    CHR 0xE6, CHR 0xAD, CHR 0xA3, CHR 0xE5, CHR 0xB8, CHR 0xB8]"

text \<open>The line that a command prints; \<^verbatim>\<open>version\<close> ignores its name, and the root prints its help first and then sleeps for a minute.\<close>

definition start_cmd :: "string list" where "start_cmd = [m_starting]"
definition stop_cmd :: "string list" where "stop_cmd = [m_stopping]"
definition status_cmd :: "string list" where "status_cmd = [m_running]"
definition version_cmd :: "string \<Rightarrow> string list" where "version_cmd name = [''MyApp v1.0.0'']"
definition root_cmd :: "string list \<Rightarrow> string list" where "root_cmd help = help @ [''rootCmd.Run'']"

datatype cobra_choice = ChooseRoot | ChooseStart | ChooseStop | ChooseStatus | ChooseVersion string

text \<open>\<open>parsed\<close> is what the library makes of the arguments; its error is printed and the code is 1.\<close>

definition cobra_Execute :: "string list \<Rightarrow> string + cobra_choice \<Rightarrow> string list \<times> nat" where
  "cobra_Execute help parsed =
     (case parsed of
        Inl err \<Rightarrow> ([''Error: '' @ err], 1)
      | Inr ChooseRoot \<Rightarrow> (root_cmd help, 0)
      | Inr ChooseStart \<Rightarrow> (start_cmd, 0)
      | Inr ChooseStop \<Rightarrow> (stop_cmd, 0)
      | Inr ChooseStatus \<Rightarrow> (status_cmd, 0)
      | Inr (ChooseVersion name) \<Rightarrow> (version_cmd name, 0))"

section \<open>Programs: cmd/exporter/main.go and cmd/log/main.go\<close>

definition exporter_log_options :: "log_option list" where
  "exporter_log_options = [SetConsoleWriterSyncer True, SetLogFilename ''log/exporter.log'', SetLogLevel 0, SetLogLevelKey ''exporter'']"

text \<open>The logger, the routes and the address when the exporter has started, or the line that says why not.\<close>

definition exporter_main ::
  "(string \<Rightarrow> writer list \<Rightarrow> int \<Rightarrow> 'core) \<Rightarrow> 'c factories \<Rightarrow> string option \<Rightarrow> (string + 'core zcore \<times> metrics_handler \<times> string list \<times> string) go" where
  "exporter_main newCore factories register_answer =
     (let log = CreateProductZapLogger newCore exporter_log_options in
      bnd (Start factories register_answer
             [SetMetricsPath ''/metrics'', SetMaxRequests 40, SetIncludeExporterMetrics False, SetLogger True])
        (\<lambda>(err, h, routes). case err of
             Some e \<Rightarrow> Inr (Inl (''start exporter error: '' @ e))
           | None \<Rightarrow> Inr (Inr (log, h, routes, '':9100''))))"

definition log_main :: "'s sugar \<Rightarrow> 's \<Rightarrow> (effect \<times> 's) go" where
  "log_main sugar s = New3rdResource (Some (Logf (Some (CreateWrapperLogger sugar)))) ''resource'' s"

text \<open>The exporter starts on one route when the collectors can be made and registered, and never panics.\<close>

lemma exporter_starts:
  "case exporter_main newCore factories register_answer of
     Inl p \<Rightarrow> False
   | Inr (Inl line) \<Rightarrow> True
   | Inr (Inr (log, h, routes, addr)) \<Rightarrow> routes = [''/metrics''] \<and> hn_maxRequests h = 40 \<and> addr = '':9100''"
  by (auto simp: exporter_main_def Start_def SetMetricsPath_def SetMaxRequests_def SetIncludeExporterMetrics_def SetLogger_def
      slice_get_def Let_def split: sum.splits)

end
