(* ===== verification/ContainerMains.thy ===== *)
theory ContainerMains
  imports Containers NetAddr
begin

text \<open>
  The \<^verbatim>\<open>main\<close> functions of the linked queue, stack and list (\<^verbatim>\<open>go/container\<close>): scripts of calls on the state of the
  package, with the text that they print.  A script over the pointers prints what the script of the same calls prints
  over a plain list.
\<close>

section \<open>Scripts\<close>

type_synonym 's script_step = "'s \<Rightarrow> ((string \<times> 's) go) option"

fun run_script :: "'s script_step list \<Rightarrow> 's script_step" where
  "run_script [] s = Some (Inr ([], s))"
| "run_script (f # fs) s =
     (case f s of
        None \<Rightarrow> None
      | Some (Inl p) \<Rightarrow> Some (Inl p)
      | Some (Inr (out, s')) \<Rightarrow>
          (case run_script fs s' of
             None \<Rightarrow> None
           | Some (Inl p) \<Rightarrow> Some (Inl p)
           | Some (Inr (out', s'')) \<Rightarrow> Some (Inr (out @ out', s''))))"

fun run_plain :: "('a \<Rightarrow> string \<times> 'a) list \<Rightarrow> 'a \<Rightarrow> string \<times> 'a" where
  "run_plain [] x = ([], x)"
| "run_plain (g # gs) x = (case g x of (out, y) \<Rightarrow> case run_plain gs y of (out', z) \<Rightarrow> (out @ out', z))"

text \<open>A step over the pointers stands for a step over the list that they represent.\<close>

definition stands_for :: "('s \<Rightarrow> 'a \<Rightarrow> bool) \<Rightarrow> 's script_step \<Rightarrow> ('a \<Rightarrow> string \<times> 'a) \<Rightarrow> bool" where
  "stands_for rep f g \<longleftrightarrow> (\<forall>s x. rep s x \<longrightarrow> (\<exists>s'. f s = Some (Inr (fst (g x), s')) \<and> rep s' (snd (g x))))"

lemma script_stands_for:
  "list_all2 (stands_for rep) fs gs \<Longrightarrow> stands_for rep (run_script fs) (run_plain gs)"
proof (induction rule: list_all2_induct)
  case Nil
  then show ?case by (simp add: stands_for_def)
next
  case (Cons f fs g gs)
  show ?case unfolding stands_for_def
  proof (intro allI impI)
    fix s x assume "rep s x"
    with Cons.hyps(1) obtain s1 where 1: "f s = Some (Inr (fst (g x), s1))" "rep s1 (snd (g x))" unfolding stands_for_def by blast
    with Cons.IH obtain s2 where "run_script fs s1 = Some (Inr (fst (run_plain gs (snd (g x))), s2))" "rep s2 (snd (run_plain gs (snd (g x))))"
      unfolding stands_for_def by blast
    with 1 show "\<exists>s'. run_script (f # fs) s = Some (Inr (fst (run_plain (g # gs) x), s')) \<and> rep s' (snd (run_plain (g # gs) x))"
      by (auto simp: case_prod_beta)
  qed
qed

definition newline :: string where "newline = [CHR 0x0A]"

definition arrows :: "int list \<Rightarrow> string" where
  "arrows vs = concat (map (\<lambda>v. int_text v @ '' -> '') vs) @ newline"

section \<open>The queue\<close>

definition queue_push_step :: "int \<Rightarrow> LQueue script_step" where
  "queue_push_step v s = Some (Inr ([], snd (Queue_Push s v)))"

definition queue_size_step :: "LQueue script_step" where
  "queue_size_step s = Some (Inr (''Size: '' @ int_text (lq_size s) @ newline, s))"

definition queue_traverse_step :: "LQueue script_step" where
  "queue_traverse_step s =
     map_option (\<lambda>vs. Inr (if lq_size s = 0 then ''Empty Queue!'' @ newline else arrows vs, s)) (Queue_traverse s (lq_queue s))"

definition queue_pop_step :: "LQueue script_step" where
  "queue_pop_step s =
     map_option (\<lambda>r. bnd r (\<lambda>(v, b, s'). Inr (if b then ''Pop: '' @ int_text v @ newline else [], s'))) (Queue_Pop s (lq_queue s))"

definition queue_script :: "LQueue script_step list" where
  "queue_script =
     [queue_push_step 10, queue_size_step, queue_traverse_step, queue_pop_step, queue_size_step]
     @ map queue_push_step [0, 1, 2, 3, 4]
     @ [queue_traverse_step, queue_size_step, queue_pop_step, queue_size_step, queue_pop_step, queue_size_step, queue_traverse_step]"

definition queue_main :: "((string \<times> LQueue) go) option" where "queue_main = run_script queue_script lq_init"

definition plain_push :: "int \<Rightarrow> int list \<Rightarrow> string \<times> int list" where "plain_push v xs = ([], xs @ [v])"
definition plain_size :: "int list \<Rightarrow> string \<times> int list" where "plain_size xs = (''Size: '' @ int_text (int (length xs)) @ newline, xs)"
definition plain_traverse :: "int list \<Rightarrow> string \<times> int list" where
  "plain_traverse xs = (if xs = [] then ''Empty Queue!'' @ newline else arrows (rev xs), xs)"
definition plain_pop :: "int list \<Rightarrow> string \<times> int list" where
  "plain_pop xs = (case xs of [] \<Rightarrow> ([], []) | x # ys \<Rightarrow> (''Pop: '' @ int_text x @ newline, ys))"

definition queue_rep :: "LQueue \<Rightarrow> int list \<Rightarrow> bool" where "queue_rep s xs \<longleftrightarrow> lq_inv s \<and> lq_contents s = xs"

lemma queue_steps:
  "stands_for queue_rep (queue_push_step v) (plain_push v)"
  "stands_for queue_rep queue_size_step plain_size"
  "stands_for queue_rep queue_traverse_step plain_traverse"
  "stands_for queue_rep queue_pop_step plain_pop"
proof -
  show "stands_for queue_rep (queue_push_step v) (plain_push v)"
    using Queue_Push_ok by (auto simp: stands_for_def queue_rep_def queue_push_step_def plain_push_def)
  show "stands_for queue_rep queue_size_step plain_size"
    by (auto simp: stands_for_def queue_rep_def queue_size_step_def plain_size_def lq_inv_def lq_contents_def)
  show "stands_for queue_rep queue_traverse_step plain_traverse"
    by (auto simp: stands_for_def queue_rep_def queue_traverse_step_def plain_traverse_def lq_inv_def lq_contents_def Queue_traverse_def
        print_from_values)
  show "stands_for queue_rep queue_pop_step plain_pop"
    unfolding stands_for_def
  proof (intro allI impI)
    fix s xs assume rep: "queue_rep s xs"
    show "\<exists>s'. queue_pop_step s = Some (Inr (fst (plain_pop xs), s')) \<and> queue_rep s' (snd (plain_pop xs))"
    proof (cases xs)
      case Nil
      with rep show ?thesis by (simp add: queue_rep_def queue_pop_step_def plain_pop_def Queue_Pop_empty)
    next
      case (Cons y ys)
      with rep Queue_Pop_Cons [of s y ys] show ?thesis by (auto simp: queue_rep_def queue_pop_step_def plain_pop_def)
    qed
  qed
qed


lemma queue_init: "queue_rep lq_init []"
  by (simp add: queue_rep_def lq_init_inv lq_init_contents)

definition plain_queue :: "(int list \<Rightarrow> string \<times> int list) list" where
  "plain_queue =
     [plain_push 10, plain_size, plain_traverse, plain_pop, plain_size] @ map plain_push [0, 1, 2, 3, 4]
     @ [plain_traverse, plain_size, plain_pop, plain_size, plain_pop, plain_size, plain_traverse]"

text \<open>The queue's program returns; it prints the newest value first, and pops 10, then 0 and 1, in the order of pushing.\<close>

theorem queue_main_prints:
  "\<exists>s. queue_main = Some (Inr (
       ''Size: '' @ int_text 1 @ newline @ arrows [10] @ ''Pop: '' @ int_text 10 @ newline @ ''Size: '' @ int_text 0 @ newline
       @ arrows [4, 3, 2, 1, 0] @ ''Size: '' @ int_text 5 @ newline @ ''Pop: '' @ int_text 0 @ newline @ ''Size: '' @ int_text 4 @ newline
       @ ''Pop: '' @ int_text 1 @ newline @ ''Size: '' @ int_text 3 @ newline @ arrows [4, 3, 2], s)) \<and> lq_contents s = [2, 3, 4]"
proof -
  have "list_all2 (stands_for queue_rep) queue_script plain_queue"
    by (simp add: queue_script_def plain_queue_def queue_steps)
  from script_stands_for [OF this] queue_init obtain s where s: "queue_main = Some (Inr (fst (run_plain plain_queue []), s))"
    "queue_rep s (snd (run_plain plain_queue []))" unfolding stands_for_def queue_main_def by blast
  then show ?thesis
    by (intro exI [of _ s]) (simp add: plain_queue_def plain_push_def plain_size_def plain_traverse_def plain_pop_def queue_rep_def)
qed

section \<open>The stack\<close>

definition stack_push_step :: "int \<Rightarrow> LStack script_step" where
  "stack_push_step v s = Some (Inr ([], snd (Stack_Push s v)))"

definition stack_traverse_step :: "LStack script_step" where
  "stack_traverse_step s =
     map_option (\<lambda>vs. Inr (if ls_size s = 0 then ''Empty Stack!'' @ newline else arrows vs, s)) (Stack_traverse s (ls_stack s))"

definition stack_pop_step :: "LStack script_step" where
  "stack_pop_step s =
     Some (bnd (Stack_Pop s (ls_stack s)) (\<lambda>(v, b, s'). Inr (if b then int_text v @ '' '' else ''Pop() failed!'' @ newline, s')))"

text \<open>The loop that pops at most \<open>n\<close> times and breaks when the stack is empty.\<close>

fun stack_drain :: "nat \<Rightarrow> LStack \<Rightarrow> (string \<times> LStack) go" where
  "stack_drain 0 s = Inr ([], s)"
| "stack_drain (Suc n) s =
     bnd (Stack_Pop s (ls_stack s)) (\<lambda>(v, b, s'). if b then bnd (stack_drain n s') (\<lambda>(out, s''). Inr (int_text v @ '' '' @ out, s''))
       else Inr ([], s'))"

definition stack_script :: "LStack script_step list" where
  "stack_script =
     [stack_pop_step, stack_push_step 100, stack_traverse_step, stack_push_step 200, stack_traverse_step]
     @ map stack_push_step [0, 1, 2, 3, 4, 5, 6, 7, 8, 9]
     @ [\<lambda>s. Some (stack_drain 15 s), \<lambda>s. Some (Inr (newline, s)), stack_traverse_step]"

definition stack_main :: "((string \<times> LStack) go) option" where "stack_main = run_script stack_script ls_init"

definition lifo_push :: "int \<Rightarrow> int list \<Rightarrow> string \<times> int list" where "lifo_push v xs = ([], v # xs)"
definition lifo_traverse :: "int list \<Rightarrow> string \<times> int list" where
  "lifo_traverse xs = (if xs = [] then ''Empty Stack!'' @ newline else arrows xs, xs)"
definition lifo_pop :: "int list \<Rightarrow> string \<times> int list" where
  "lifo_pop xs = (case xs of [] \<Rightarrow> (''Pop() failed!'' @ newline, []) | x # ys \<Rightarrow> (int_text x @ '' '', ys))"
definition lifo_drain :: "nat \<Rightarrow> int list \<Rightarrow> string \<times> int list" where
  "lifo_drain n xs = (concat (map (\<lambda>v. int_text v @ '' '') (take n xs)), drop n xs)"

definition stack_rep :: "LStack \<Rightarrow> int list \<Rightarrow> bool" where "stack_rep s xs \<longleftrightarrow> ls_inv s \<and> ls_contents s = xs"

lemma stack_pop_rep:
  assumes "stack_rep s xs"
  shows "\<exists>s'. Stack_Pop s (ls_stack s) = Inr (case xs of [] \<Rightarrow> 0 | x # _ \<Rightarrow> x, xs \<noteq> [], s') \<and> stack_rep s' (tl xs)"
  using Stack_Pop_ok [of s] assms by (auto simp: stack_rep_def)

lemma stack_drain_rep: "stack_rep s xs \<Longrightarrow> \<exists>s'. stack_drain n s = Inr (fst (lifo_drain n xs), s') \<and> stack_rep s' (snd (lifo_drain n xs))"
proof (induction n arbitrary: s xs)
  case 0
  then show ?case by (simp add: lifo_drain_def)
next
  case (Suc n)
  from stack_pop_rep [OF Suc.prems] obtain s' where
    s': "Stack_Pop s (ls_stack s) = Inr (case xs of [] \<Rightarrow> 0 | x # _ \<Rightarrow> x, xs \<noteq> [], s')" "stack_rep s' (tl xs)" by blast
  from Suc.IH [OF s'(2)] s' show ?case by (cases xs) (auto simp: lifo_drain_def)
qed

lemma stack_steps:
  "stands_for stack_rep (stack_push_step v) (lifo_push v)"
  "stands_for stack_rep stack_traverse_step lifo_traverse"
  "stands_for stack_rep stack_pop_step lifo_pop"
  "stands_for stack_rep (\<lambda>s. Some (stack_drain n s)) (lifo_drain n)"
  "stands_for stack_rep (\<lambda>s. Some (Inr (newline, s))) (Pair newline)"
proof -
  show "stands_for stack_rep (stack_push_step v) (lifo_push v)"
    using Stack_Push_ok by (auto simp: stands_for_def stack_rep_def stack_push_step_def lifo_push_def)
  show "stands_for stack_rep stack_traverse_step lifo_traverse"
    by (auto simp: stands_for_def stack_rep_def stack_traverse_step_def lifo_traverse_def ls_inv_def ls_contents_def Stack_traverse_def
        print_from_values)
  show "stands_for stack_rep stack_pop_step lifo_pop"
    using stack_pop_rep by (fastforce simp: stands_for_def stack_pop_step_def lifo_pop_def split: list.split)
  show "stands_for stack_rep (\<lambda>s. Some (stack_drain n s)) (lifo_drain n)"
    using stack_drain_rep by (simp add: stands_for_def)
  show "stands_for stack_rep (\<lambda>s. Some (Inr (newline, s))) (Pair newline)"
    by (simp add: stands_for_def)
qed

definition plain_stack :: "(int list \<Rightarrow> string \<times> int list) list" where
  "plain_stack =
     [lifo_pop, lifo_push 100, lifo_traverse, lifo_push 200, lifo_traverse] @ map lifo_push [0, 1, 2, 3, 4, 5, 6, 7, 8, 9]
     @ [lifo_drain 15, Pair newline, lifo_traverse]"

text \<open>The loop pops all twelve values, last pushed first, and stops at the empty stack.\<close>

theorem stack_main_prints:
  "\<exists>s. stack_main = Some (Inr (
       ''Pop() failed!'' @ newline @ arrows [100] @ arrows [200, 100]
       @ concat (map (\<lambda>v. int_text v @ '' '') [9, 8, 7, 6, 5, 4, 3, 2, 1, 0, 200, 100]) @ newline @ ''Empty Stack!'' @ newline, s))
     \<and> ls_contents s = []"
proof -
  have "list_all2 (stands_for stack_rep) stack_script plain_stack"
    by (simp add: stack_script_def plain_stack_def stack_steps)
  moreover have "stack_rep ls_init []"
    by (simp add: stack_rep_def ls_inv_def ls_init_def nodes_ok_def ls_contents_def)
  ultimately obtain s where s: "stack_main = Some (Inr (fst (run_plain plain_stack []), s))"
    "stack_rep s (snd (run_plain plain_stack []))" using script_stands_for unfolding stands_for_def stack_main_def by blast
  then show ?thesis
    by (intro exI [of _ s]) (simp add: plain_stack_def lifo_push_def lifo_traverse_def lifo_pop_def lifo_drain_def stack_rep_def)
qed

section \<open>The list\<close>

text \<open>\<^verbatim>\<open>addNode\<close> prints a line when the value is there, and answers -1.\<close>

definition list_add_step :: "int \<Rightarrow> DList script_step" where
  "list_add_step v s =
     map_option (\<lambda>r. bnd r (\<lambda>(answer, s'). Inr (if answer = - 1 then ''Node already exists: '' @ int_text v @ newline else [], s')))
       (addNode s (dl_root s) v)"

definition list_traverse_step :: "DList script_step" where
  "list_traverse_step s =
     map_option (\<lambda>vs. Inr (if dl_root s = None then ''-> Empty list!'' @ newline else arrows vs, s)) (dl_traverse (dl_nodes s) (dl_root s))"

definition list_reverse_step :: "DList script_step" where
  "list_reverse_step s =
     map_option (\<lambda>vs. Inr (if dl_root s = None then ''-> Empty list!'' @ newline else arrows vs, s)) (dl_reverse (dl_nodes s) (dl_root s))"

definition list_size_step :: "DList script_step" where
  "list_size_step s =
     map_option (\<lambda>n. Inr ((if dl_root s = None then ''-> Empty list!'' @ newline else []) @ ''Size: '' @ int_text (int n) @ newline, s))
       (dl_size (dl_nodes s) 0 (dl_root s))"

text \<open>The first line prints the node that \<^verbatim>\<open>new\<close> made, before the root is set to nil.\<close>

definition list_script :: "DList script_step list" where
  "list_script =
     [\<lambda>s. Some (Inr (''&{0 <nil> <nil>}'' @ newline, s)), list_traverse_step, list_add_step 1, list_add_step 1, list_traverse_step,
      list_add_step 10, list_add_step 5, list_add_step 0, list_add_step 0, list_traverse_step, list_add_step 100, list_size_step,
      list_traverse_step, list_reverse_step]"

definition list_main :: "((string \<times> DList) go) option" where "list_main = run_script list_script dl_init"

definition set_add :: "int \<Rightarrow> int list \<Rightarrow> string \<times> int list" where
  "set_add v vs = (if v \<in> set vs then (''Node already exists: '' @ int_text v @ newline, vs) else ([], vs @ [v]))"
definition set_traverse :: "int list \<Rightarrow> string \<times> int list" where
  "set_traverse vs = (if vs = [] then ''-> Empty list!'' @ newline else arrows vs, vs)"
definition set_reverse :: "int list \<Rightarrow> string \<times> int list" where
  "set_reverse vs = (if vs = [] then ''-> Empty list!'' @ newline else arrows (rev vs), vs)"
definition set_size :: "int list \<Rightarrow> string \<times> int list" where
  "set_size vs = ((if vs = [] then ''-> Empty list!'' @ newline else []) @ ''Size: '' @ int_text (int (length vs)) @ newline, vs)"

lemma dl_rep_root: "dl_rep s vs \<Longrightarrow> dl_root s = None \<longleftrightarrow> vs = []"
  unfolding dl_rep_def by (metis dl_seg.simps(1) list.exhaust dl_seg.simps(2) map_is_Nil_conv option.distinct(1))

lemma list_steps:
  "stands_for dl_rep (list_add_step v) (set_add v)"
  "stands_for dl_rep list_traverse_step set_traverse"
  "stands_for dl_rep list_reverse_step set_reverse"
  "stands_for dl_rep list_size_step set_size"
  "stands_for dl_rep (\<lambda>s. Some (Inr (x, s))) (Pair x)"
proof -
  show "stands_for dl_rep (list_add_step v) (set_add v)"
    unfolding stands_for_def
  proof (intro allI impI)
    fix s vs assume "dl_rep s vs"
    from addNode_rep [OF this, of v] show "\<exists>s'. list_add_step v s = Some (Inr (fst (set_add v vs), s')) \<and> dl_rep s' (snd (set_add v vs))"
      by (cases "v \<in> set vs") (auto simp: list_add_step_def set_add_def)
  qed
qed (simp_all add: stands_for_def list_traverse_step_def list_reverse_step_def list_size_step_def set_traverse_def set_reverse_def
    set_size_def dl_rep_reads dl_rep_root)

definition plain_list :: "(int list \<Rightarrow> string \<times> int list) list" where
  "plain_list =
     [Pair (''&{0 <nil> <nil>}'' @ newline), set_traverse, set_add 1, set_add 1, set_traverse, set_add 10, set_add 5, set_add 0, set_add 0,
      set_traverse, set_add 100, set_size, set_traverse, set_reverse]"

text \<open>The list keeps one of equal values, in the order of adding, and its reverse is printed along the other links.\<close>

theorem list_main_prints:
  "\<exists>s. list_main = Some (Inr (
       ''&{0 <nil> <nil>}'' @ newline @ ''-> Empty list!'' @ newline @ ''Node already exists: '' @ int_text 1 @ newline @ arrows [1]
       @ ''Node already exists: '' @ int_text 0 @ newline @ arrows [1, 10, 5, 0]
       @ ''Size: '' @ int_text 5 @ newline @ arrows [1, 10, 5, 0, 100] @ arrows [100, 0, 5, 10, 1], s)) \<and> dl_rep s [1, 10, 5, 0, 100]"
proof -
  have "list_all2 (stands_for dl_rep) list_script plain_list"
    by (simp add: list_script_def plain_list_def list_steps)
  from script_stands_for [OF this] dl_init_rep obtain s where
    "list_main = Some (Inr (fst (run_plain plain_list []), s))" "dl_rep s (snd (run_plain plain_list []))"
    unfolding stands_for_def list_main_def by blast
  then show ?thesis
    by (intro exI [of _ s]) (simp add: plain_list_def set_add_def set_traverse_def set_reverse_def set_size_def)
qed

end
