(* ===== verification/Spec2Isabelle.thy ===== *)
theory Spec2Isabelle
  imports Prelude Fifo Buffer BytesQueue Containers KvCache Lru ConsistentHash GeeCache SingleFlight
    FsPoll UvTimer UvLoop TtlCache CacheStrategy CacheRace CacheDemo OrderServers ProductServers Tunnel ProxyTransport
    UdpSession TcpDialer ProxyRewrite LockedFile TcpProxy NetAddr IpStrategy TcpListen DurationText
    ChanPipe Labels Exporter ProcessLife UdpProxy ZapSink Patterns Objects FsWorker OrderClients
    ProductClients TransportParts RingProgram DurationJson FileHandle TunnelAgent UdpShutdown LogSetup
    ExternalUrl ContextWorkers GrpcInterceptors GrpcMains PatternMains UdpEcho
    ExitPaths Databases SmallParts ContainerMains
begin

text \<open>
  A verification library of the Go repository \<^verbatim>\<open>go-example\<close>.  The repository is a collection of
  independent packages; each theory models one of them (paths are under \<^verbatim>\<open>src\<close>) in the order of the
  code: its data as records and datatypes, one definition for each function or method, then the
  lemmas, the properties (their text begins with C and a number, in the order of importance over the
  whole library) and the concrete instances that witness them.

  Conventions.  \<^verbatim>\<open>Prelude\<close> holds what all share.  A Go panic is a value of \<open>go_panic\<close>; a function that
  may panic has the result type \<open>'a go\<close>, composed with \<open>bnd\<close>; an error return is a sum or an option.
  Slices are lists read and written by bounds-checked operations that panic as Go does.  Integers
  are \<open>int\<close> or \<open>nat\<close> where the code cannot overflow and words where the width matters.  A Go map is
  a HOL map; where \<^verbatim>\<open>range\<close> visits a map, the visiting order is an argument and the properties hold
  for every order.  What is read of the outside (time, network, files, database drivers, the code of
  callbacks) is an argument of the definition that uses it.  A section under a lock, a channel
  operation or a blocking call is one step of an \<open>inductive\<close> step relation, so that interleavings are
  sequences of steps; the invariants are proved by rule induction over the reachable states.  Loops
  that may not end are \<open>partial_function (option)\<close>, and that they return is part of the properties;
  no definition has fuel.  Logging is left out.

  Interfaces are locales, and every one is interpreted on the code's models.  \<^verbatim>\<open>Fifo\<close>: a bounded or
  unbounded queue as a client sees it, interpreted for the ring buffer and the linked queue.
  \<^verbatim>\<open>KvCache\<close>: a cache over a source of values, interpreted for the LRU cache behind the groups of
  \<^verbatim>\<open>gocache\<close>.  \<^verbatim>\<open>TtlCache\<close>: a cache with expiry, interpreted for the in-memory cache; the strategies
  are proved coherent over it.

  The parts.

  \<^item> \<^verbatim>\<open>Buffer\<close>, \<^verbatim>\<open>RingProgram\<close> (\<^verbatim>\<open>go/range/buffer.go\<close>): the generic ring buffer: refinement of a list through
    growth and wrap-around, iteration with early exit and write-back, discarding; programs over all its
    operations.
  \<^item> \<^verbatim>\<open>BytesQueue\<close> (\<^verbatim>\<open>go/container/bytesqyeye\<close>): the queue of byte entries with length headers in one
    array: exact functional behaviour of push and pop, the capacity limit over every run, first in
    first out for a fixed capacity; when a wrapped queue grows, the order changes and a filler entry
    appears, as stated by the property on push.
  \<^item> \<^verbatim>\<open>Containers\<close> (\<^verbatim>\<open>go/container\<close> queue, stack, list): linked structures on a heap of nodes.
  \<^item> \<^verbatim>\<open>Lru\<close>, \<^verbatim>\<open>ConsistentHash\<close>, \<^verbatim>\<open>SingleFlight\<close>, \<^verbatim>\<open>GeeCache\<close> (\<^verbatim>\<open>gocache/lrucache\<close>): the least recently used
    cache refines an abstract one and keeps its budget; the hash ring maps a key to the next point,
    and its replicas have no effect; calls of one key are shared in every interleaving; a group
    answers what its getter answers, and the HTTP server answers with the right status; its pool of
    peers cannot be used.
  \<^item> \<^verbatim>\<open>UvLoop\<close>, \<^verbatim>\<open>UvTimer\<close>, \<^verbatim>\<open>FsPoll\<close>, \<^verbatim>\<open>FsWorker\<close> (\<^verbatim>\<open>uvgo\<close>): the event loop with its hooks, sockets and
    teardown; the timer scheduler, which fires no callback early or twice but can lose timers; file
    polling, whose reports are given as a function of the results of \<^verbatim>\<open>stat\<close>, and its worker beside the loop
    and the callers of \<^verbatim>\<open>Stop\<close>, which returns, and after which one callback may still be made.
  \<^item> \<^verbatim>\<open>TtlCache\<close>, \<^verbatim>\<open>CacheStrategy\<close>, \<^verbatim>\<open>CacheRace\<close>, \<^verbatim>\<open>CacheDemo\<close>
    (\<^verbatim>\<open>go_cache_strategy\<close>): the in-memory cache answers the last live
    write; cache-aside with write-through is never stale; read-through caches a missing user;
    write-behind applies a prefix of the accepted updates in order, and may lose a batch when
    stopped.  Among concurrent reads and updates (a step relation over the accesses) an answer is no
    older than the expiry plus the delay of one operation, which a read overtaken by an update reaches.
    \<^verbatim>\<open>main.go\<close> runs all strategies over one cache and one store: any well-timed program over them, the
    worker and the cleanup beside it, prints what it prints over a plain store.
  \<^item> \<^verbatim>\<open>OrderServers\<close>, \<^verbatim>\<open>ProductServers\<close> (\<^verbatim>\<open>gRPC\<close>): the handlers of the servers, the shared stream loops
    with the guards in which the servers differ, and the authorization interceptors: which batches
    are shipped, that no order is lost or sent elsewhere, what errors and cancellation do.
    \<^verbatim>\<open>OrderClients\<close>, \<^verbatim>\<open>ProductClients\<close>: the clients composed with these servers; a call of \<^verbatim>\<open>ProcessOrders\<close> is
    a step relation of main goroutine, receiving goroutine and handler, whose runs end with all shipments
    printed; which clients hang or die on an error, and which server refuses its own client.
    \<^verbatim>\<open>GrpcInterceptors\<close>: the logging interceptors and stream wrappers, which no handler or client can tell from
    none; \<^verbatim>\<open>GrpcMains\<close>: what every \<^verbatim>\<open>main\<close> loads, listens on, dials and registers, and which pairs connect (all
    without TLS; those with TLS by their certificates; the agents of the tunnel miss its server).
  \<^item> \<^verbatim>\<open>Tunnel\<close>, \<^verbatim>\<open>TunnelAgent\<close> (\<^verbatim>\<open>net/grpc/cmd\<close>): routes, waiting HTTP requests and streams in every
    interleaving; the agent with its goroutines, which answers every request once unless its stream breaks.
  \<^item> \<^verbatim>\<open>ProxyTransport\<close>, \<^verbatim>\<open>ProxyRewrite\<close>, \<^verbatim>\<open>TcpDialer\<close>, \<^verbatim>\<open>TcpProxy\<close>, \<^verbatim>\<open>UdpSession\<close>, \<^verbatim>\<open>UdpProxy\<close> (\<^verbatim>\<open>net/proxy\<close>):
    an incremental update of the transports equals building them anew (a minimum TLS version alone
    drops all TLS settings); the rewriting of a request keeps its target byte for byte; a dial answers a
    connection or closes what it opened; the TCP proxy forwards both directions and half-closes; the
    UDP listener routes datagrams to sessions in order, and the session copy ends; how long a shutdown takes (\<^verbatim>\<open>UdpShutdown\<close>).
    \<^verbatim>\<open>TransportParts\<close>: chain
    verification, deadlines, protocols and the proxy builder, composed with the manager and the rewriting.
  \<^item> \<^verbatim>\<open>NetAddr\<close>, \<^verbatim>\<open>IpStrategy\<close> (\<^verbatim>\<open>net/ip\<close>, with the parsers of \<^verbatim>\<open>net/netip\<close> it rests on): addresses,
    networks, the checker and the strategies for the client address; \<^verbatim>\<open>TcpListen\<close> (\<^verbatim>\<open>net/tcp\<close>): domain
    matching, listener addresses, the connection tracker; \<^verbatim>\<open>DurationText\<close>, \<^verbatim>\<open>DurationJson\<close> (both duration
    types): parsing and printing of \<^verbatim>\<open>time.Duration\<close>, as a text and as JSON.
  \<^item> \<^verbatim>\<open>LockedFile\<close>, \<^verbatim>\<open>FileHandle\<close> (\<^verbatim>\<open>linux/lockedfile\<close>): lock, truncation, reads and writes of many processes at the level
    of system calls; what is read under a lock is stable, and \<^verbatim>\<open>Transform\<close> is all or nothing; the life of a handle.
  \<^item> \<^verbatim>\<open>ChanPipe\<close> (\<^verbatim>\<open>concurrency/channel\<close>, \<^verbatim>\<open>cmd/pipleline\<close>): goroutines over unbuffered channels as steps;
    results arrive in order, pipelines end, the or-channel is closed exactly after one of its channels;
    which closings leave a goroutine behind.
  \<^item> \<^verbatim>\<open>Labels\<close> (\<^verbatim>\<open>yaml\<close>): label sets, their text and byte forms, conversion to and from maps, defaults.
  \<^item> \<^verbatim>\<open>Exporter\<close> (\<^verbatim>\<open>exporter\<close>), \<^verbatim>\<open>ZapSink\<close> (\<^verbatim>\<open>cmd/kube/klog.go\<close>), \<^verbatim>\<open>ProcessLife\<close> (\<^verbatim>\<open>utils/pidfile\<close>,
    \<^verbatim>\<open>exit\<close>): collection by goroutines, pushed values and routes; the fields of a log line; the pid file,
    which does not keep a second instance out, and the exit codes of signals.
  \<^item> \<^verbatim>\<open>LogSetup\<close> (\<^verbatim>\<open>utils/log.go\<close>, \<^verbatim>\<open>logger\<close>), \<^verbatim>\<open>ExternalUrl\<close> (\<^verbatim>\<open>net/http\<close>), \<^verbatim>\<open>ContextWorkers\<close>
    (\<^verbatim>\<open>go/context\<close>, \<^verbatim>\<open>context\<close>): which settings of a logger count and which of its lines are reached; the clean path
    of the external URL; the program whose goroutines all end after a signal, and the counter that does not see
    its cancellation while nobody takes its number.
  \<^item> \<^verbatim>\<open>Patterns\<close>, \<^verbatim>\<open>Objects\<close> (\<^verbatim>\<open>design_pattern\<close>): the template interpreter, chain of handlers, chat room,
    mementos, iterator, connection pool, trees and the small creational and structural patterns; \<^verbatim>\<open>PatternMains\<close>: their
    \<^verbatim>\<open>main\<close> functions, with the lines that they print.
  \<^item> \<^verbatim>\<open>UdpEcho\<close> (\<^verbatim>\<open>cmd/udp\<close>): client and server with the datagrams between them: answers in order whatever is
    lost, and when the client ends, hangs or goes on for ever.
  \<^item> \<^verbatim>\<open>ExitPaths\<close>: programs that defer a release and may end with \<^verbatim>\<open>log.Fatal\<close> (\<^verbatim>\<open>cmd/echo-timer\<close>, \<^verbatim>\<open>cmd/mutex\<close>,
    \<^verbatim>\<open>etcd\<close>, \<^verbatim>\<open>cmd/sqlite\<close>, \<^verbatim>\<open>cmd/gin\<close>, \<^verbatim>\<open>concurrency\<close>): which of them leave a file or a lock behind.
    \<^verbatim>\<open>Databases\<close> (\<^verbatim>\<open>gorm/pgsql\<close>, \<^verbatim>\<open>tsdb\<close>): connection strings and quoted names against what libpq and SQL read in them.
    \<^verbatim>\<open>SmallParts\<close>: JSON into interfaces, byte order, checksum, rule paths, \<^verbatim>\<open>cobra\<close> commands, and the programs of exporter
    and logger; \<^verbatim>\<open>ContainerMains\<close> (\<^verbatim>\<open>go/container\<close>): the programs over queue, stack and list.

  Not modelled: generated protobuf code and the generated swagger documentation, tests, and programs that only call a
  library (\<^verbatim>\<open>cmd/kube\<close>, \<^verbatim>\<open>cmd/limiter\<close>, \<^verbatim>\<open>cmd/shell\<close>, \<^verbatim>\<open>graphviz\<close>) or only print; the libraries themselves (gorm,
  gin, redis, etcd, the time series database, TLS) are arguments of the definitions that call them.
\<close>

end
